(* ===== verification/Prelude.thy ===== *)
theory Prelude
  imports Complex_Main "HOL-Library.Char_ord" "HOL-Library.List_Lexorder" "HOL-Library.Monad_Syntax"
begin

text \<open>
  Shared ground of the development: the Python values the governance code passes around
  (\<open>dict[str, Any]\<close> payloads and metadata), the string operations the source uses, exceptions as
  values, and the list and dictionary lemmas every component relies on.

  Conventions.
  \<^item> A Python \<open>str\<close> is a \<^typ>\<open>string\<close>: a list of code points below 256. The em dash of a few
    messages is written \<open>--\<close>. Whitespace and case functions cover that range only as far as
    the ASCII characters.
  \<^item> A Python \<open>float\<close> is an exact \<^typ>\<open>rat\<close>: rounding is not modelled.
  \<^item> A \<open>dict\<close> is an association list with distinct keys in insertion order.
  \<^item> A time stamp is a number of microseconds since the epoch, UTC. The stores keep them as
    \<open>isoformat()\<close> text in UTC, with or without the fraction; for these shapes the text order is the
    time order.
  \<^item> An operation that may raise returns a value of type \<open>pyexn + 'a\<close>.
\<close>

named_theorems dict_simps \<open>lookups in updated dictionaries\<close>
named_theorems frame_simps \<open>what an operation leaves unchanged\<close>

section \<open>Exceptions and results\<close>

datatype pyexn = PyExn (exn_class: string) (exn_msg: string)

type_synonym 'a result = "pyexn + 'a"
type_synonym timestamp = int

abbreviation Raise :: "string \<Rightarrow> string \<Rightarrow> 'a result" where
  "Raise c m \<equiv> Inl (PyExn c m)"

section \<open>Python values\<close>

datatype pyval =
    PNone
  | PBool bool
  | PInt int
  | PFloat rat
  | PStr string
  | PList "pyval list"
  | PDict "(string \<times> pyval) list"

type_synonym dict = "(string \<times> pyval) list"

fun truthy :: "pyval \<Rightarrow> bool" where
  "truthy PNone = False"
| "truthy (PBool b) = b"
| "truthy (PInt i) = (i \<noteq> 0)"
| "truthy (PFloat q) = (q \<noteq> 0)"
| "truthy (PStr s) = (s \<noteq> [])"
| "truthy (PList xs) = (xs \<noteq> [])"
| "truthy (PDict d) = (d \<noteq> [])"

text \<open>\<open>value if isinstance(value, str) and value else None\<close>, the idiom of every id accessor.\<close>

fun nonempty_str :: "pyval \<Rightarrow> string option" where
  "nonempty_str (PStr s) = (if s = [] then None else Some s)"
| "nonempty_str _ = None"

fun opt_str :: "string option \<Rightarrow> pyval" where
  "opt_str None = PNone"
| "opt_str (Some s) = PStr s"

fun opt_int :: "int option \<Rightarrow> pyval" where
  "opt_int None = PNone"
| "opt_int (Some i) = PInt i"

definition truthy_str :: "string option \<Rightarrow> bool" where
  "truthy_str x = (case x of None \<Rightarrow> False | Some s \<Rightarrow> s \<noteq> [])"

section \<open>Dictionaries\<close>

definition dget :: "dict \<Rightarrow> string \<Rightarrow> pyval" where
  "dget d k = (case map_of d k of None \<Rightarrow> PNone | Some v \<Rightarrow> v)"

definition dhas :: "dict \<Rightarrow> string \<Rightarrow> bool" where
  "dhas d k = (map_of d k \<noteq> None)"

fun dset :: "string \<Rightarrow> pyval \<Rightarrow> dict \<Rightarrow> dict" where
  "dset k v [] = [(k, v)]"
| "dset k v ((k', v') # d) = (if k' = k then (k, v) # d else (k', v') # dset k v d)"

definition dpop :: "string \<Rightarrow> dict \<Rightarrow> dict" where
  "dpop k d = filter (\<lambda>kv. fst kv \<noteq> k) d"

definition dsetdefault :: "string \<Rightarrow> pyval \<Rightarrow> dict \<Rightarrow> dict" where
  "dsetdefault k v d = (if dhas d k then d else dset k v d)"

text \<open>\<open>{**d, **e}\<close> and \<open>d.update(e)\<close>.\<close>

definition dmerge :: "dict \<Rightarrow> dict \<Rightarrow> dict" where
  "dmerge d e = fold (\<lambda>(k, v) acc. dset k v acc) e d"

text \<open>Write a key when there is a value for it, else remove the key.\<close>

definition dstamp :: "string \<Rightarrow> pyval option \<Rightarrow> dict \<Rightarrow> dict" where
  "dstamp k x d = (case x of None \<Rightarrow> dpop k d | Some v \<Rightarrow> dset k v d)"

lemma map_of_dset [simp]: "map_of (dset k v d) = (map_of d)(k \<mapsto> v)"
  by (induction k v d rule: dset.induct) (auto simp: fun_eq_iff)

lemma map_of_dpop [simp]: "map_of (dpop k d) = (map_of d)(k := None)"
  by (induction d) (auto simp: dpop_def fun_eq_iff)

lemma map_of_dstamp: "map_of (dstamp k x d) = (map_of d)(k := x)"
  by (auto simp: dstamp_def split: option.splits)

lemma dget_dset [dict_simps, simp]: "dget (dset k v d) k' = (if k' = k then v else dget d k')"
  by (simp add: dget_def)

lemma dget_dpop [dict_simps, simp]: "dget (dpop k d) k' = (if k' = k then PNone else dget d k')"
  by (simp add: dget_def)

lemma dhas_dset [dict_simps, simp]: "dhas (dset k v d) k' = (k' = k \<or> dhas d k')"
  by (simp add: dhas_def)

lemma dhas_dpop [dict_simps, simp]: "dhas (dpop k d) k' = (k' \<noteq> k \<and> dhas d k')"
  by (simp add: dhas_def)

lemma dget_dstamp [dict_simps, simp]:
  "dget (dstamp k x d) k' = (if k' = k then (case x of None \<Rightarrow> PNone | Some v \<Rightarrow> v) else dget d k')"
  by (simp add: dstamp_def split: option.splits)

lemma dhas_dstamp [dict_simps, simp]:
  "dhas (dstamp k x d) k' = (if k' = k then x \<noteq> None else dhas d k')"
  by (auto simp: dstamp_def split: option.splits)

lemma dget_dsetdefault [dict_simps, simp]:
  "dget (dsetdefault k v d) k' = (if k' = k \<and> \<not> dhas d k then v else dget d k')"
  by (auto simp: dsetdefault_def dhas_def dget_def)

lemma dhas_dsetdefault [dict_simps, simp]:
  "dhas (dsetdefault k v d) k' = (k' = k \<or> dhas d k')"
  by (auto simp: dsetdefault_def)

lemma dget_Nil [dict_simps, simp]: "dget [] k = PNone"
  by (simp add: dget_def)

lemma dget_Cons [dict_simps]: "dget ((k', v) # d) k = (if k = k' then v else dget d k)"
  by (simp add: dget_def)

lemma dhas_Cons [dict_simps]: "dhas ((k', v) # d) k = (k = k' \<or> dhas d k)"
  by (simp add: dhas_def)

lemma dhas_Nil [dict_simps, simp]: "\<not> dhas [] k"
  by (simp add: dhas_def)

lemma dget_not_dhas: "\<not> dhas d k \<Longrightarrow> dget d k = PNone"
  by (simp add: dget_def dhas_def)

text \<open>A dict with keys of any type.\<close>

fun aset :: "'k \<Rightarrow> 'v \<Rightarrow> ('k \<times> 'v) list \<Rightarrow> ('k \<times> 'v) list" where
  "aset k v [] = [(k, v)]"
| "aset k v ((k', v') # d) = (if k' = k then (k, v) # d else (k', v') # aset k v d)"

lemma map_of_aset [simp]: "map_of (aset k v d) = (map_of d)(k \<mapsto> v)"
  by (induction d) auto

section \<open>Text\<close>

definition char_in :: "nat \<Rightarrow> nat \<Rightarrow> char \<Rightarrow> bool" where
  "char_in lo hi c = (lo \<le> of_char c \<and> of_char c \<le> hi)"

definition is_space :: "char \<Rightarrow> bool" where
  "is_space c = (char_in 9 13 c \<or> char_in 28 32 c \<or> char_in 133 133 c \<or> char_in 160 160 c)"

definition is_digit_char :: "char \<Rightarrow> bool" where
  "is_digit_char c = char_in 48 57 c"

definition is_lower_char :: "char \<Rightarrow> bool" where
  "is_lower_char c = char_in 97 122 c"

definition is_upper_char :: "char \<Rightarrow> bool" where
  "is_upper_char c = char_in 65 90 c"

definition lower_char :: "char \<Rightarrow> char" where
  "lower_char c = (if is_upper_char c then char_of (of_char c + 32 :: nat) else c)"

definition upper_char :: "char \<Rightarrow> char" where
  "upper_char c = (if is_lower_char c then char_of (of_char c - 32 :: nat) else c)"

definition py_lower :: "string \<Rightarrow> string" where
  "py_lower s = map lower_char s"

definition py_upper :: "string \<Rightarrow> string" where
  "py_upper s = map upper_char s"

definition lstrip :: "string \<Rightarrow> string" where
  "lstrip s = dropWhile is_space s"

definition strip :: "string \<Rightarrow> string" where
  "strip s = rev (dropWhile is_space (rev (lstrip s)))"

fun startswith :: "string \<Rightarrow> string \<Rightarrow> bool" where
  "startswith s [] = True"
| "startswith [] (_ # _) = False"
| "startswith (c # s) (p # ps) = (c = p \<and> startswith s ps)"

lemma startswith_iff: "startswith s p \<longleftrightarrow> (\<exists>t. s = p @ t)"
  by (induction s p rule: startswith.induct) auto

lemma startswith_append [simp]: "startswith (p @ t) p"
  by (simp add: startswith_iff)

fun join :: "string \<Rightarrow> string list \<Rightarrow> string" where
  "join sep [] = []"
| "join sep [x] = x"
| "join sep (x # y # xs) = x @ sep @ join sep (y # xs)"

fun show_nat :: "nat \<Rightarrow> string" where
  "show_nat n = (if n < 10 then [char_of (48 + n)] else show_nat (n div 10) @ [char_of (48 + n mod 10)])"

declare show_nat.simps [simp del]

definition show_int :: "int \<Rightarrow> string" where
  "show_int i = (if i < 0 then ''-'' @ show_nat (nat (- i)) else show_nat (nat i))"

definition show_rat :: "rat \<Rightarrow> string" where
  "show_rat q = (case quotient_of q of (n, d) \<Rightarrow> show_int n @ ''/'' @ show_int d)"

definition hex_digit :: "nat \<Rightarrow> char" where
  "hex_digit n = (if n < 10 then char_of (48 + n) else char_of (87 + n))"

definition hex2 :: "nat \<Rightarrow> string" where
  "hex2 n = [hex_digit (n div 16), hex_digit (n mod 16)]"

text \<open>\<open>repr\<close> of a string: the quote is \<open>'\<close> unless the text holds one and no double quote.\<close>

definition repr_char :: "char \<Rightarrow> char \<Rightarrow> string" where
  "repr_char q c =
     (let n = of_char c :: nat in
      if c = q \<or> n = 92 then [char_of (92::nat), c]
      else if n = 10 then [char_of (92::nat), CHR ''n'']
      else if n = 13 then [char_of (92::nat), CHR ''r'']
      else if n = 9 then [char_of (92::nat), CHR ''t'']
      else if n < 32 \<or> (127 \<le> n \<and> n \<le> 160) \<or> n = 173 then char_of (92::nat) # CHR ''x'' # hex2 n
      else [c])"

definition repr_str :: "string \<Rightarrow> string" where
  "repr_str s =
     (let q = (if char_of (39::nat) \<in> set s \<and> char_of (34::nat) \<notin> set s then char_of (34::nat)
               else char_of (39::nat))
      in q # concat (map (repr_char q) s) @ [q])"

fun py_repr :: "pyval \<Rightarrow> string" where
  "py_repr PNone = ''None''"
| "py_repr (PBool b) = (if b then ''True'' else ''False'')"
| "py_repr (PInt i) = show_int i"
| "py_repr (PFloat q) = show_rat q"
| "py_repr (PStr s) = repr_str s"
| "py_repr (PList xs) = ''['' @ join '', '' (map py_repr xs) @ '']''"
| "py_repr (PDict d) = ''{'' @ join '', '' (map (\<lambda>kv. repr_str (fst kv) @ '': '' @ py_repr (snd kv)) d) @ ''}''"

definition py_str :: "pyval \<Rightarrow> string" where
  "py_str v = (case v of PStr s \<Rightarrow> s | _ \<Rightarrow> py_repr v)"

text \<open>\<open>{x}\<close> of an f-string for an optional string.\<close>

definition fmt_opt :: "string option \<Rightarrow> string" where
  "fmt_opt x = (case x of None \<Rightarrow> ''None'' | Some s \<Rightarrow> s)"

text \<open>\<open>json.dumps(value, sort_keys=True)\<close>: every character outside the printable ASCII range is
  escaped (\<open>ensure_ascii\<close>), keys are sorted, separators are the default ones.\<close>

definition json_char :: "char \<Rightarrow> string" where
  "json_char c =
     (let n = of_char c :: nat; bs = char_of (92::nat) in
      if n = 34 \<or> n = 92 then [bs, c]
      else if n = 10 then [bs, CHR ''n'']
      else if n = 13 then [bs, CHR ''r'']
      else if n = 9 then [bs, CHR ''t'']
      else if n = 8 then [bs, CHR ''b'']
      else if n = 12 then [bs, CHR ''f'']
      else if n < 32 \<or> 126 < n then bs # ''u00'' @ hex2 n
      else [c])"

definition json_str :: "string \<Rightarrow> string" where
  "json_str s = char_of (34::nat) # concat (map json_char s) @ [char_of (34::nat)]"

fun json_dumps :: "pyval \<Rightarrow> string" where
  "json_dumps PNone = ''null''"
| "json_dumps (PBool b) = (if b then ''true'' else ''false'')"
| "json_dumps (PInt i) = show_int i"
| "json_dumps (PFloat q) = show_rat q"
| "json_dumps (PStr s) = json_str s"
| "json_dumps (PList xs) = ''['' @ join '', '' (map json_dumps xs) @ '']''"
| "json_dumps (PDict d) =
     ''{'' @ join '', '' (map (\<lambda>kt. json_str (fst kt) @ '': '' @ snd kt)
       (sort_key fst (map (\<lambda>kv. (fst kv, json_dumps (snd kv))) d))) @ ''}''"

section \<open>Dates\<close>

text \<open>\<open>isoformat()[:19]\<close> of a UTC time: \<open>YYYY-MM-DDTHH:MM:SS\<close>, for the years 1 to 9999. The date of a day
  number is found in the 400-year cycle of the Gregorian calendar, with years that start in March.\<close>

definition pad :: "nat \<Rightarrow> int \<Rightarrow> string" where
  "pad n i = (let t = show_int i in replicate (n - length t) (CHR ''0'') @ t)"

definition civil_of_days :: "int \<Rightarrow> int \<times> int \<times> int" where
  "civil_of_days days =
     (let z = days + 719468;
          era = z div 146097;
          doe = z mod 146097;
          yoe = (doe - doe div 1460 + doe div 36524 - doe div 146096) div 365;
          doy = doe - (365 * yoe + yoe div 4 - yoe div 100);
          mp = (5 * doy + 2) div 153;
          d = doy - (153 * mp + 2) div 5 + 1;
          m = (if mp < 10 then mp + 3 else mp - 9);
          y = yoe + era * 400 + (if m \<le> 2 then 1 else 0)
      in (y, m, d))"

definition iso19 :: "timestamp \<Rightarrow> string" where
  "iso19 t =
     (let secs = t div 1000000;
          (y, m, d) = civil_of_days (secs div 86400);
          s = secs mod 86400
      in pad 4 y @ ''-'' @ pad 2 m @ ''-'' @ pad 2 d @ ''T'' @ pad 2 (s div 3600) @ '':''
         @ pad 2 (s div 60 mod 60) @ '':'' @ pad 2 (s mod 60))"

section \<open>Lists\<close>

text \<open>Two insertions into rows keyed by \<open>f\<close>: the first row with a key, and an in-place update.\<close>

definition lookup_by :: "('r \<Rightarrow> 'k) \<Rightarrow> 'k \<Rightarrow> 'r list \<Rightarrow> 'r option" where
  "lookup_by f k rows = find (\<lambda>r. f r = k) rows"

definition update_where :: "('r \<Rightarrow> bool) \<Rightarrow> ('r \<Rightarrow> 'r) \<Rightarrow> 'r list \<Rightarrow> 'r list" where
  "update_where p g rows = map (\<lambda>r. if p r then g r else r) rows"

definition count_where :: "('r \<Rightarrow> bool) \<Rightarrow> 'r list \<Rightarrow> nat" where
  "count_where p rows = length (filter p rows)"

lemma lookup_by_Nil [simp]: "lookup_by f k [] = None"
  by (simp add: lookup_by_def)

lemma lookup_by_Cons [simp]:
  "lookup_by f k (r # rows) = (if f r = k then Some r else lookup_by f k rows)"
  by (simp add: lookup_by_def)

lemma lookup_by_append [simp]:
  "lookup_by f k (xs @ ys) = (case lookup_by f k xs of None \<Rightarrow> lookup_by f k ys | Some r \<Rightarrow> Some r)"
  by (induction xs) auto

lemma lookup_by_SomeD: "lookup_by f k rows = Some r \<Longrightarrow> r \<in> set rows \<and> f r = k"
  by (induction rows) (auto split: if_splits)

lemma lookup_by_None_iff: "lookup_by f k rows = None \<longleftrightarrow> k \<notin> f ` set rows"
  by (induction rows) auto

lemma lookup_by_distinct:
  "distinct (map f rows) \<Longrightarrow> r \<in> set rows \<Longrightarrow> lookup_by f (f r) rows = Some r"
  by (induction rows) (auto simp: rev_image_eqI)

lemma update_where_Nil [simp]: "update_where p g [] = []"
  by (simp add: update_where_def)

lemma update_where_Cons [simp]:
  "update_where p g (r # rows) = (if p r then g r else r) # update_where p g rows"
  by (simp add: update_where_def)

lemma update_where_append [simp]:
  "update_where p g (xs @ ys) = update_where p g xs @ update_where p g ys"
  by (simp add: update_where_def)

lemma set_update_where: "set (update_where p g rows) = (\<lambda>r. if p r then g r else r) ` set rows"
  by (simp add: update_where_def)

lemma length_update_where [simp]: "length (update_where p g rows) = length rows"
  by (simp add: update_where_def)

lemma map_update_where [simp]:
  assumes "\<And>r. f (g r) = f r"
  shows "map f (update_where p g rows) = map f rows"
  using assms by (induction rows) auto

text \<open>What a keyed lookup sees after an update that keeps the keys.\<close>

lemma lookup_by_update_where:
  assumes "\<And>r. f (g r) = f r"
  shows "lookup_by f k (update_where p g rows) =
           map_option (\<lambda>r. if p r then g r else r) (lookup_by f k rows)"
  using assms by (induction rows) auto

lemma filter_update_where_none:
  assumes "filter p rows = []"
  shows "update_where p g rows = rows"
  using assms by (induction rows) (auto split: if_splits)

text \<open>A primary key: the rows with one key are at most one.\<close>

lemma filter_key_distinct:
  assumes "distinct (map f rows)"
  shows "length (filter (\<lambda>r. f r = k \<and> p r) rows) =
           (case lookup_by f k rows of None \<Rightarrow> 0 | Some r \<Rightarrow> if p r then 1 else 0)"
  using assms
proof (induction rows)
  case Nil
  then show ?case by simp
next
  case (Cons a rows)
  have "f a \<notin> f ` set rows" using Cons.prems by simp
  then have none: "lookup_by f (f a) rows = None" by (simp add: lookup_by_None_iff)
  from Cons show ?case by (cases "f a = k") (use none in auto)
qed

lemma sorted_insort_key_stable: "sorted (map f (sort_key f xs))"
  by simp

end
