(* ===== verification/Interfaces.thy ===== *)
theory Interfaces
  imports Prelude
begin

text \<open>
  The contracts the governance components share, as locales. A component is a state with an
  operation alphabet and one step function; what the code promises of every sequence of
  operations is proved here once, from a law about a single step, and every component that makes
  the promise interprets the locale on its own step function.

  \<^item> \<open>invariant_system\<close>: a well-formedness invariant that every operation keeps;
  \<^item> \<open>frozen_view\<close>: a part of the state that never changes again once it is final (an answered
    approval, a revoked bot, a revoked device);
  \<^item> \<open>single_use\<close>: a right that at most one operation of a whole run can take (the claim of an
    approved call, a pairing code);
  \<^item> \<open>append_log\<close>: a ledger that only grows at its end;
  \<^item> \<open>label_join\<close>: data labels that are only ever raised.
\<close>

section \<open>Runs\<close>

definition run_ops :: "('s \<Rightarrow> 'op \<Rightarrow> 's) \<Rightarrow> 's \<Rightarrow> 'op list \<Rightarrow> 's" where
  "run_ops step s ops = foldl step s ops"

lemma run_ops_Nil [simp]: "run_ops step s [] = s"
  by (simp add: run_ops_def)

lemma run_ops_Cons [simp]: "run_ops step s (a # ops) = run_ops step (step s a) ops"
  by (simp add: run_ops_def)

lemma run_ops_append [simp]: "run_ops step s (xs @ ys) = run_ops step (run_ops step s xs) ys"
  by (simp add: run_ops_def)

text \<open>The results of the operations of a run, in order.\<close>

fun outcomes :: "('s \<Rightarrow> 'op \<Rightarrow> 's \<times> 'r) \<Rightarrow> 's \<Rightarrow> 'op list \<Rightarrow> 'r list" where
  "outcomes step s [] = []"
| "outcomes step s (a # ops) = snd (step s a) # outcomes step (fst (step s a)) ops"

section \<open>Invariants\<close>

locale invariant_system =
  fixes step :: "'s \<Rightarrow> 'op \<Rightarrow> 's"
    and inv :: "'s \<Rightarrow> bool"
  assumes step_inv: "inv s \<Longrightarrow> inv (step s a)"
begin

lemma run_inv: "inv s \<Longrightarrow> inv (run_ops step s ops)"
  by (induction ops arbitrary: s) (auto simp: step_inv)

end

section \<open>Final values\<close>

locale frozen_view = invariant_system step inv
  for step :: "'s \<Rightarrow> 'op \<Rightarrow> 's" and inv :: "'s \<Rightarrow> bool" +
  fixes view :: "'s \<Rightarrow> 'v"
    and final :: "'v \<Rightarrow> bool"
  assumes step_frozen: "inv s \<Longrightarrow> final (view s) \<Longrightarrow> view (step s a) = view s"
begin

lemma run_frozen: "inv s \<Longrightarrow> final (view s) \<Longrightarrow> view (run_ops step s ops) = view s"
  by (induction ops arbitrary: s) (auto simp: step_frozen step_inv)

end

section \<open>Rights used at most once\<close>

locale single_use =
  fixes step :: "'s \<Rightarrow> 'op \<Rightarrow> 's \<times> 'r"
    and inv :: "'s \<Rightarrow> bool"
    and won :: "'r \<Rightarrow> bool"
    and spent :: "'s \<Rightarrow> bool"
  assumes use_inv: "inv s \<Longrightarrow> inv (fst (step s a))"
    and win_spends: "inv s \<Longrightarrow> won (snd (step s a)) \<Longrightarrow> \<not> spent s \<and> spent (fst (step s a))"
    and spent_stays: "inv s \<Longrightarrow> spent s \<Longrightarrow> spent (fst (step s a))"
begin

lemma spent_no_win: "inv s \<Longrightarrow> spent s \<Longrightarrow> filter won (outcomes step s ops) = []"
proof (induction ops arbitrary: s)
  case Nil
  then show ?case by simp
next
  case (Cons a ops)
  have "\<not> won (snd (step s a))" using Cons.prems win_spends by blast
  moreover have "filter won (outcomes step (fst (step s a)) ops) = []"
    using Cons.prems by (intro Cons.IH) (auto intro: use_inv spent_stays)
  ultimately show ?case by simp
qed

lemma at_most_one_win: "inv s \<Longrightarrow> length (filter won (outcomes step s ops)) \<le> 1"
proof (induction ops arbitrary: s)
  case Nil
  then show ?case by simp
next
  case (Cons a ops)
  show ?case
  proof (cases "won (snd (step s a))")
    case True
    then have "spent (fst (step s a))" using Cons.prems win_spends by blast
    then have "filter won (outcomes step (fst (step s a)) ops) = []"
      using Cons.prems by (intro spent_no_win) (auto intro: use_inv)
    then show ?thesis by simp
  next
    case False
    then show ?thesis using Cons.IH [of "fst (step s a)"] Cons.prems by (simp add: use_inv)
  qed
qed

end

section \<open>Append-only ledgers\<close>

locale append_log =
  fixes step :: "'s \<Rightarrow> 'op \<Rightarrow> 's"
    and log :: "'s \<Rightarrow> 'e list"
  assumes step_extends: "\<exists>es. log (step s a) = log s @ es"
begin

lemma run_extends: "\<exists>es. log (run_ops step s ops) = log s @ es"
proof (induction ops arbitrary: s)
  case Nil
  then show ?case by simp
next
  case (Cons a ops)
  obtain es where "log (step s a) = log s @ es" using step_extends by blast
  moreover obtain fs where "log (run_ops step (step s a) ops) = log (step s a) @ fs"
    using Cons.IH by blast
  ultimately show ?case by simp
qed

lemma run_keeps_entry: "i < length (log s) \<Longrightarrow> log (run_ops step s ops) ! i = log s ! i"
  using run_extends [of s ops] by (auto simp: nth_append)

lemma run_length_mono: "length (log s) \<le> length (log (run_ops step s ops))"
  using run_extends [of s ops] by auto

end

section \<open>Labels that are only raised\<close>

locale label_join =
  fixes join :: "'l \<Rightarrow> 'l \<Rightarrow> 'l"
    and leq :: "'l \<Rightarrow> 'l \<Rightarrow> bool"
  assumes leq_refl: "leq a a"
    and leq_trans: "leq a b \<Longrightarrow> leq b c \<Longrightarrow> leq a c"
    and join_left: "leq a (join a b)"
    and join_right: "leq b (join a b)"
    and join_least: "leq a c \<Longrightarrow> leq b c \<Longrightarrow> leq (join a b) c"
begin

lemma run_raises: "leq a (run_ops join a ls)"
proof (induction ls arbitrary: a)
  case Nil
  then show ?case by (simp add: leq_refl)
next
  case (Cons l ls)
  have "leq a (join a l)" by (rule join_left)
  also have "leq (join a l) (run_ops join (join a l) ls)" by (rule Cons.IH)
  finally (leq_trans) show ?case by simp
qed

lemma run_covers: "l \<in> set ls \<Longrightarrow> leq l (run_ops join a ls)"
proof (induction ls arbitrary: a)
  case Nil
  then show ?case by simp
next
  case (Cons m ls)
  show ?case
  proof (cases "l = m")
    case True
    have "leq m (join a m)" by (rule join_right)
    then have "leq m (run_ops join (join a m) ls)" using run_raises leq_trans by blast
    then show ?thesis using True by simp
  next
    case False
    then show ?thesis using Cons by simp
  qed
qed

lemma run_least: "leq a u \<Longrightarrow> (\<And>l. l \<in> set ls \<Longrightarrow> leq l u) \<Longrightarrow> leq (run_ops join a ls) u"
  by (induction ls arbitrary: a) (auto simp: join_least)

end

end
