(* ===== verification/Hook_Types.thy ===== *)
theory Hook_Types
  imports Interfaces
begin

text \<open>
  The hook vocabulary (\<open>kernel/governance/hooks/types.py\<close>) and the tool-hook payload contract
  (\<open>hooks/tool_payload.py\<close>): every producer of a tool hook context builds its payload with the
  two builders below, and every hook reads it through the accessors, so that a key cannot be
  written under one name and read under another.
\<close>

section \<open>Hook types\<close>

datatype hook_point =
    PRE_TURN | PRE_CLASSIFY | PRE_LLM_CALL | PRE_TOOL_USE | POST_TOOL_USE
  | POST_STEP | PRE_RESPONSE | PRE_EGRESS | POST_EGRESS

fun hook_point_value :: "hook_point \<Rightarrow> string" where
  "hook_point_value PRE_TURN = ''pre_turn''"
| "hook_point_value PRE_CLASSIFY = ''pre_classify''"
| "hook_point_value PRE_LLM_CALL = ''pre_llm_call''"
| "hook_point_value PRE_TOOL_USE = ''pre_tool_use''"
| "hook_point_value POST_TOOL_USE = ''post_tool_use''"
| "hook_point_value POST_STEP = ''post_step''"
| "hook_point_value PRE_RESPONSE = ''pre_response''"
| "hook_point_value PRE_EGRESS = ''pre_egress''"
| "hook_point_value POST_EGRESS = ''post_egress''"

datatype outcome = Allow | Deny | Transform | RequireApproval

fun outcome_value :: "outcome \<Rightarrow> string" where
  "outcome_value Allow = ''allow''"
| "outcome_value Deny = ''deny''"
| "outcome_value Transform = ''transform''"
| "outcome_value RequireApproval = ''require_approval''"

datatype severity = SevInfo | SevWarn | SevError | SevCritical

fun severity_value :: "severity \<Rightarrow> string" where
  "severity_value SevInfo = ''info''"
| "severity_value SevWarn = ''warn''"
| "severity_value SevError = ''error''"
| "severity_value SevCritical = ''critical''"

datatype classification = Public | Internal | Personal | Secret

fun classification_value :: "classification \<Rightarrow> string" where
  "classification_value Public = ''public''"
| "classification_value Internal = ''internal''"
| "classification_value Personal = ''personal''"
| "classification_value Secret = ''secret''"

datatype tier = Tier1 | Tier2 | Tier3

fun tier_value :: "tier \<Rightarrow> string" where
  "tier_value Tier1 = ''tier_1''"
| "tier_value Tier2 = ''tier_2''"
| "tier_value Tier3 = ''tier_3''"

record hook_context =
  hc_hook_point :: hook_point
  hc_run_id :: string
  hc_agent_type :: string
  hc_step_id :: "int option"
  hc_persona :: "string option"
  hc_route :: "string option"
  hc_payload :: dict
  hc_classification :: "classification option"
  hc_tier :: "tier option"
  hc_metadata :: dict

record hook_decision =
  hd_outcome :: outcome
  hd_reason :: string
  hd_transformed_payload :: "dict option"
  hd_set_classification :: "classification option"
  hd_set_tier :: "tier option"
  hd_approval_request_id :: "string option"
  hd_severity :: severity
  hd_audit_metadata :: dict
  hd_decided_by :: "string option"

text \<open>\<open>HookDecision(outcome=..., reason=...)\<close> with every other field at its default.\<close>

definition decision :: "outcome \<Rightarrow> string \<Rightarrow> hook_decision" where
  "decision oc r = \<lparr>hd_outcome = oc, hd_reason = r, hd_transformed_payload = None,
     hd_set_classification = None, hd_set_tier = None, hd_approval_request_id = None,
     hd_severity = SevInfo, hd_audit_metadata = [], hd_decided_by = None\<rparr>"

lemma decision_simps [simp]:
  "hd_outcome (decision oc r) = oc" "hd_reason (decision oc r) = r"
  "hd_transformed_payload (decision oc r) = None" "hd_set_classification (decision oc r) = None"
  "hd_set_tier (decision oc r) = None" "hd_approval_request_id (decision oc r) = None"
  "hd_severity (decision oc r) = SevInfo" "hd_audit_metadata (decision oc r) = []"
  "hd_decided_by (decision oc r) = None"
  by (simp_all add: decision_def)

text \<open>The outcomes that stop a hook chain, and those that let it go on.\<close>

definition stops :: "outcome \<Rightarrow> bool" where
  "stops oc = (oc = Deny \<or> oc = RequireApproval)"

lemma not_stops: "\<not> stops oc \<longleftrightarrow> oc = Allow \<or> oc = Transform"
  by (cases oc) (auto simp: stops_def)

section \<open>Payload and metadata keys\<close>

abbreviation "K_TOOL_NAME \<equiv> ''tool_name''"
abbreviation "K_ARGS \<equiv> ''args''"
abbreviation "K_RESULT \<equiv> ''result''"
abbreviation "K_TOOL_EFFECT \<equiv> ''tool_effect''"
abbreviation "K_TOOL_CONTENT \<equiv> ''tool_content''"
abbreviation "K_TOOL_VERIFY \<equiv> ''tool_verify''"
abbreviation "K_CALL_ID \<equiv> ''call_id''"
abbreviation "K_TOOL_CALL_ID \<equiv> ''tool_call_id''"
abbreviation "K_HELD_CALL_ID \<equiv> ''held_call_id''"
abbreviation "K_PARENT_CALL_ID \<equiv> ''parent_call_id''"
abbreviation "K_TURN_ID \<equiv> ''turn_id''"
abbreviation "K_ATTEMPT \<equiv> ''attempt''"
abbreviation "K_REPLAY_OF \<equiv> ''replay_of''"
abbreviation "K_RESUMED_FROM_RUN \<equiv> ''resumed_from_run''"
abbreviation "K_TOOL_SENDS_TO \<equiv> ''tool_sends_to''"
abbreviation "K_TOOL_ERROR \<equiv> ''tool_error''"
abbreviation "K_BOT_ID \<equiv> ''bot_id''"
abbreviation "K_BOT_NAME \<equiv> ''bot_name''"
abbreviation "K_SIDE_EFFECT_ID \<equiv> ''side_effect_id''"
abbreviation "K_TRANSFORMED_BY \<equiv> ''transformed_by''"
abbreviation "K_TOOL_CONFIRM \<equiv> ''tool_confirm''"

section \<open>The tool payload contract\<close>

definition contract_keys :: "string list" where
  "contract_keys = [K_TOOL_NAME, K_ARGS, K_RESULT]"

definition contract_clash :: "dict \<Rightarrow> string list" where
  "contract_clash extra = sort (filter (\<lambda>k. dhas extra k) contract_keys)"

definition no_contract_keys :: "dict \<Rightarrow> unit result" where
  "no_contract_keys extra =
     (if contract_clash extra \<noteq> [] then
        Raise ''ValueError''
          (''tool payload extras may not redefine contract keys: ''
            @ py_repr (PList (map PStr (contract_clash extra))))
      else Inr ())"

definition pre_tool_payload :: "string \<Rightarrow> dict \<Rightarrow> dict \<Rightarrow> dict result" where
  "pre_tool_payload tool_name args extra =
     (case no_contract_keys extra of
        Inl e \<Rightarrow> Inl e
      | Inr _ \<Rightarrow> Inr (dmerge [(K_TOOL_NAME, PStr tool_name), (K_ARGS, PDict args)] extra))"

definition post_tool_payload :: "string \<Rightarrow> pyval \<Rightarrow> dict \<Rightarrow> dict result" where
  "post_tool_payload tool_name result extra =
     (case no_contract_keys extra of
        Inl e \<Rightarrow> Inl e
      | Inr _ \<Rightarrow> Inr (dmerge [(K_TOOL_NAME, PStr tool_name), (K_RESULT, result)] extra))"

definition tool_post_metadata ::
  "string option \<Rightarrow> string \<Rightarrow> string option \<Rightarrow> string option \<Rightarrow> string option \<Rightarrow> string option \<Rightarrow> dict"
where
  "tool_post_metadata effect content verify tool_call_id error held_call_id =
     [(K_TOOL_EFFECT, opt_str effect), (K_TOOL_CONTENT, PStr content),
      (K_TOOL_VERIFY, opt_str verify), (K_CALL_ID, opt_str tool_call_id),
      (K_TOOL_CALL_ID, opt_str tool_call_id), (K_HELD_CALL_ID, opt_str held_call_id),
      (K_TOOL_ERROR, opt_str error)]"

definition call_id_of :: "dict \<Rightarrow> string option" where
  "call_id_of metadata =
     (let value = (if truthy (dget metadata K_CALL_ID) then dget metadata K_CALL_ID
                   else dget metadata K_TOOL_CALL_ID)
      in nonempty_str value)"

definition tool_name_of :: "dict \<Rightarrow> string" where
  "tool_name_of payload = (case dget payload K_TOOL_NAME of PStr name \<Rightarrow> name | _ \<Rightarrow> [])"

definition args_of :: "dict \<Rightarrow> dict option" where
  "args_of payload = (case dget payload K_ARGS of PDict d \<Rightarrow> Some d | _ \<Rightarrow> None)"

definition result_of :: "dict \<Rightarrow> pyval" where
  "result_of payload = dget payload K_RESULT"

definition side_effect_id_of :: "dict \<Rightarrow> string option" where
  "side_effect_id_of audit_metadata = nonempty_str (dget audit_metadata K_SIDE_EFFECT_ID)"

definition sends_to_search_engine :: "dict \<Rightarrow> bool" where
  "sends_to_search_engine metadata = (dget metadata K_TOOL_SENDS_TO = PStr ''search_engine'')"

definition sends_to_external_service :: "dict \<Rightarrow> bool" where
  "sends_to_external_service metadata = (dget metadata K_TOOL_SENDS_TO = PStr ''external_service'')"

definition is_external :: "dict \<Rightarrow> bool" where
  "is_external metadata = (dget metadata K_TOOL_CONTENT = PStr ''external'')"

section \<open>Facts about the contract\<close>

lemma map_of_dmerge: "map_of (dmerge d e) k = (case map_of (rev e) k of None \<Rightarrow> map_of d k | Some v \<Rightarrow> Some v)"
proof (induction e arbitrary: d)
  case Nil
  then show ?case by (simp add: dmerge_def)
next
  case (Cons kv e)
  obtain k' v where kv: "kv = (k', v)" by (cases kv)
  have "dmerge d (kv # e) = dmerge (dset k' v d) e" by (simp add: dmerge_def kv)
  then show ?case using Cons.IH [of "dset k' v d"] by (auto simp: kv map_add_def split: option.splits)
qed

lemma map_of_rev_None: "map_of (rev e) k = None \<longleftrightarrow> map_of e k = None"
  by (simp add: map_of_eq_None_iff)

lemma dget_dmerge_other: "\<not> dhas e k \<Longrightarrow> dget (dmerge d e) k = dget d k"
  by (simp add: dget_def dhas_def map_of_dmerge map_of_rev_None [THEN iffD2])

lemma no_clash_iff: "contract_clash extra = [] \<longleftrightarrow> (\<forall>k \<in> set contract_keys. \<not> dhas extra k)"
proof -
  have "contract_clash extra = [] \<longleftrightarrow> filter (\<lambda>k. dhas extra k) contract_keys = []"
    unfolding contract_clash_def by (metis set_empty set_sort)
  then show ?thesis by (simp add: filter_empty_conv)
qed

text \<open>The tool payload contract round-trips: a payload built for a call is read back with the
  same tool name, arguments and result, whatever extra keys the producer added, and the builders
  refuse (with \<open>ValueError\<close>) exactly the extras that would redefine a contract key.\<close>

theorem tool_payload_roundtrip:
  "(if (\<exists>k \<in> {K_TOOL_NAME, K_ARGS, K_RESULT}. dhas extra k)
    then (\<exists>m. pre_tool_payload name args extra = Raise ''ValueError'' m
              \<and> post_tool_payload name res extra = Raise ''ValueError'' m)
    else (\<exists>p q. pre_tool_payload name args extra = Inr p \<and> tool_name_of p = name
              \<and> args_of p = Some args
              \<and> post_tool_payload name res extra = Inr q \<and> tool_name_of q = name
              \<and> result_of q = res))"
proof (cases "contract_clash extra = []")
  case True
  then have no: "\<not> dhas extra K_TOOL_NAME" "\<not> dhas extra K_ARGS" "\<not> dhas extra K_RESULT"
    by (auto simp: no_clash_iff contract_keys_def)
  show ?thesis
    using True no
    by (simp add: pre_tool_payload_def post_tool_payload_def no_contract_keys_def tool_name_of_def
        args_of_def result_of_def dget_dmerge_other dict_simps)
next
  case False
  then have "\<exists>k \<in> {K_TOOL_NAME, K_ARGS, K_RESULT}. dhas extra k"
    by (auto simp: no_clash_iff contract_keys_def)
  then show ?thesis
    using False by (simp add: pre_tool_payload_def post_tool_payload_def no_contract_keys_def)
qed

text \<open>The declaration a post hook reads is the one the runner stamped.\<close>

lemma tool_post_metadata_reads:
  "call_id_of (tool_post_metadata e c v cid err held) = (if truthy_str cid then cid else None)"
  "is_external (tool_post_metadata e c v cid err held) = (c = ''external'')"
  by (cases cid; simp add: call_id_of_def tool_post_metadata_def is_external_def dict_simps
      truthy_str_def)+

end
