(* ===== verification/Call_Context.thy ===== *)
theory Call_Context
  imports Hook_Types
begin

text \<open>
  Which governed call a call is nested in, and which attempt it is
  (\<open>kernel/governance/call_context.py\<close>). The process-wide state is the current call of the running
  code, the bounded registry of call lineages (an \<open>OrderedDict\<close>, oldest entry first) and the
  bounded set of runs that were re-entered after a halt.
\<close>

section \<open>State\<close>

record call_lineage =
  cl_parent_call_id :: "string option"
  cl_attempt :: int
  cl_replay_of :: "string option"

record call_state =
  cs_current :: "string option"
  cs_calls :: "(string \<times> call_lineage) list"
  cs_resumed_runs :: "(string \<times> unit) list"

definition MAX_CALLS :: nat where "MAX_CALLS = 8192"
definition MAX_RUNS :: nat where "MAX_RUNS = 1024"

definition empty_call_state :: call_state where
  "empty_call_state = \<lparr>cs_current = None, cs_calls = [], cs_resumed_runs = []\<rparr>"

section \<open>Operations\<close>

text \<open>\<open>while len(d) > n: d.popitem(last=False)\<close>.\<close>

fun evict :: "nat \<Rightarrow> 'a list \<Rightarrow> 'a list" where
  "evict n [] = []"
| "evict n (x # xs) = (if length (x # xs) > n then evict n xs else x # xs)"

text \<open>\<open>d[k] = v; d.move_to_end(k)\<close>, then the bound.\<close>

definition od_put :: "nat \<Rightarrow> string \<Rightarrow> 'v \<Rightarrow> (string \<times> 'v) list \<Rightarrow> (string \<times> 'v) list" where
  "od_put n k v d = evict n (filter (\<lambda>kv. fst kv \<noteq> k) d @ [(k, v)])"

definition current_call_id :: "call_state \<Rightarrow> string option" where
  "current_call_id s = cs_current s"

text \<open>\<open>with call_scope(call_id): body\<close>. The body may return or raise (its result type is free); the
  previous current call is put back either way.\<close>

definition call_scope :: "string \<Rightarrow> (call_state \<Rightarrow> 'r \<times> call_state) \<Rightarrow> call_state \<Rightarrow> 'r \<times> call_state" where
  "call_scope call_id body s =
     (let previous = cs_current s;
          (r, s') = body (s\<lparr>cs_current := Some call_id\<rparr>)
      in (r, s'\<lparr>cs_current := previous\<rparr>))"

definition register_call :: "string \<Rightarrow> string option \<Rightarrow> call_state \<Rightarrow> call_lineage \<times> call_state" where
  "register_call call_id held_call_id s =
     (let lineage = \<lparr>cl_parent_call_id = cs_current s,
                     cl_attempt = (if truthy_str held_call_id then 2 else 1),
                     cl_replay_of = (if truthy_str held_call_id then held_call_id else None)\<rparr>
      in (lineage, s\<lparr>cs_calls := od_put MAX_CALLS call_id lineage (cs_calls s)\<rparr>))"

definition lineage_of :: "call_state \<Rightarrow> string option \<Rightarrow> call_lineage option" where
  "lineage_of s call_id =
     (case call_id of None \<Rightarrow> None
      | Some c \<Rightarrow> if c = [] then None else map_of (cs_calls s) c)"

record call_identity =
  ci_call_id :: "string option"
  ci_parent_call_id :: "string option"
  ci_attempt :: "int option"
  ci_replay_of :: "string option"

text \<open>The keyword arguments handed to a store row; absent keywords are the store's defaults
  (\<open>None\<close>).\<close>

definition identity_kwargs :: "call_state \<Rightarrow> string option \<Rightarrow> call_identity" where
  "identity_kwargs s call_id =
     (if \<not> truthy_str call_id
      then \<lparr>ci_call_id = None, ci_parent_call_id = None, ci_attempt = None, ci_replay_of = None\<rparr>
      else case lineage_of s call_id of
             None \<Rightarrow> \<lparr>ci_call_id = call_id, ci_parent_call_id = None, ci_attempt = None,
                      ci_replay_of = None\<rparr>
           | Some l \<Rightarrow> \<lparr>ci_call_id = call_id, ci_parent_call_id = cl_parent_call_id l,
                        ci_attempt = Some (cl_attempt l), ci_replay_of = cl_replay_of l\<rparr>)"

definition mark_run_resumed :: "string \<Rightarrow> call_state \<Rightarrow> call_state" where
  "mark_run_resumed run_id s =
     (if run_id = [] then s
      else s\<lparr>cs_resumed_runs := od_put MAX_RUNS run_id () (cs_resumed_runs s)\<rparr>)"

definition is_run_resumed :: "call_state \<Rightarrow> string \<Rightarrow> bool" where
  "is_run_resumed s run_id = (run_id \<noteq> [] \<and> run_id \<in> fst ` set (cs_resumed_runs s))"

section \<open>The bounded registry\<close>

lemma evict_drop: "evict n d = drop (length d - n) d"
  by (induction d) (auto simp: Suc_diff_le not_less)

lemma length_od_put: "length (od_put n k v d) \<le> n"
  by (simp add: od_put_def evict_drop)

lemma set_evict: "set (evict n d) \<subseteq> set d"
  by (simp add: evict_drop set_drop_subset)

lemma distinct_od_put: "distinct (map fst d) \<Longrightarrow> distinct (map fst (od_put n k v d))"
proof -
  assume d: "distinct (map fst d)"
  let ?e = "filter (\<lambda>kv. fst kv \<noteq> k) d @ [(k, v)]"
  have "distinct (map fst ?e)" using d by (auto simp: distinct_map_filter)
  then have "distinct (drop (length ?e - n) (map fst ?e))" by (rule distinct_drop)
  then have "distinct (map fst (drop (length ?e - n) ?e))" by (simp only: drop_map)
  then show ?thesis by (simp only: od_put_def evict_drop)
qed

text \<open>An entry with fewer than \<open>n\<close> younger entries survives a further insertion.\<close>

definition young :: "nat \<Rightarrow> string \<Rightarrow> 'v \<Rightarrow> (string \<times> 'v) list \<Rightarrow> bool" where
  "young m k v d \<longleftrightarrow> (\<exists>xs ys. d = xs @ (k, v) # ys \<and> k \<notin> fst ` set xs \<and> length ys \<le> m)"

lemma young_fresh: "0 < n \<Longrightarrow> young 0 k v (od_put n k v d)"
proof -
  assume n: "0 < n"
  let ?xs = "filter (\<lambda>kv. fst kv \<noteq> k) d"
  have "od_put n k v d = drop (Suc (length ?xs) - n) ?xs @ [(k, v)]"
    using n by (simp add: od_put_def evict_drop)
  moreover have "k \<notin> fst ` set (drop (Suc (length ?xs) - n) ?xs)"
    using set_drop_subset [of "Suc (length ?xs) - n" ?xs] by auto
  ultimately show ?thesis unfolding young_def by blast
qed

lemma young_put:
  assumes y: "young m k v d" and k': "k' \<noteq> k" and m: "Suc m < n"
  shows "young (Suc m) k v (od_put n k' v' d)"
proof -
  obtain xs ys where d: "d = xs @ (k, v) # ys" and nk: "k \<notin> fst ` set xs" and len: "length ys \<le> m"
    using y unfolding young_def by blast
  define xs' where "xs' = filter (\<lambda>kv. fst kv \<noteq> k') xs"
  define ys' where "ys' = filter (\<lambda>kv. fst kv \<noteq> k') ys @ [(k', v')]"
  let ?c = "length xs' + length ys' + 1 - n"
  have len': "length ys' \<le> Suc m"
    using le_trans [OF length_filter_le len] by (simp add: ys'_def)
  have "od_put n k' v' d = drop ?c (xs' @ (k, v) # ys')"
    using k' by (simp add: od_put_def evict_drop d xs'_def ys'_def)
  also have "\<dots> = drop ?c xs' @ (k, v) # ys'"
    using len' m by simp
  finally have eq: "od_put n k' v' d = drop ?c xs' @ (k, v) # ys'" .
  have "k \<notin> fst ` set (drop ?c xs')"
    using nk set_drop_subset [of ?c xs'] by (auto simp: xs'_def)
  then show ?thesis using eq len' unfolding young_def by blast
qed

lemma young_lookup: "young m k v d \<Longrightarrow> map_of d k = Some v"
  by (auto simp: young_def map_of_eq_None_iff[symmetric] map_add_def split: option.splits)

definition put_all :: "nat \<Rightarrow> (string \<times> 'v) list \<Rightarrow> (string \<times> 'v) list \<Rightarrow> (string \<times> 'v) list" where
  "put_all n d kvs = foldl (\<lambda>d kv. od_put n (fst kv) (snd kv) d) d kvs"

lemma young_put_all:
  assumes "young m k v d" and "k \<notin> fst ` set kvs" and "m + length kvs < n"
  shows "young (m + length kvs) k v (put_all n d kvs)"
  using assms
proof (induction kvs arbitrary: m d)
  case Nil
  then show ?case by (simp add: put_all_def)
next
  case (Cons kv kvs)
  have "young (Suc m) k v (od_put n (fst kv) (snd kv) d)"
    using Cons.prems by (intro young_put) auto
  then have "young (Suc m + length kvs) k v (put_all n (od_put n (fst kv) (snd kv) d) kvs)"
    using Cons.prems by (intro Cons.IH) auto
  then show ?case by (simp add: put_all_def)
qed

text \<open>A run of further registrations, none of them of a held call.\<close>

definition register_all :: "call_state \<Rightarrow> string list \<Rightarrow> call_state" where
  "register_all s cs = foldl (\<lambda>t c. snd (register_call c None t)) s cs"

lemma register_all_calls:
  "cs_calls (register_all s cs) =
     put_all MAX_CALLS (cs_calls s)
       (map (\<lambda>c. (c, \<lparr>cl_parent_call_id = cs_current s, cl_attempt = 1, cl_replay_of = None\<rparr>)) cs)"
  by (induction cs arbitrary: s)
    (auto simp: register_all_def put_all_def register_call_def Let_def truthy_str_def)

text \<open>The lineage registry is bounded and lossless within its bound: after a call is registered
  and fewer than 8192 other calls after it, its lineage is still found, with the call it ran inside
  as parent, and attempt 2 with \<open>replay_of\<close> exactly when it re-executes a held call. The registry
  never holds more than 8192 calls.\<close>

theorem lineage_registry_bounded:
  assumes "call_id \<noteq> []" and "call_id \<notin> set others" and "length others < MAX_CALLS"
  shows "lineage_of (register_all (snd (register_call call_id held s)) others) (Some call_id) =
           Some \<lparr>cl_parent_call_id = cs_current s,
                 cl_attempt = (if truthy_str held then 2 else 1),
                 cl_replay_of = (if truthy_str held then held else None)\<rparr>
         \<and> length (cs_calls (register_all (snd (register_call call_id held s)) others)) \<le> MAX_CALLS"
proof -
  let ?s1 = "snd (register_call call_id held s)"
  let ?s2 = "register_all ?s1 others"
  define l where "l = fst (register_call call_id held s)"
  define l0 where "l0 = \<lparr>cl_parent_call_id = cs_current s, cl_attempt = 1, cl_replay_of = None\<rparr>"
  have "young 0 call_id l (cs_calls ?s1)"
    by (simp add: l_def register_call_def Let_def young_fresh MAX_CALLS_def)
  moreover have "cs_current ?s1 = cs_current s" by (simp add: register_call_def Let_def)
  ultimately have y: "young (length others) call_id l (cs_calls ?s2)"
    using young_put_all [of 0 call_id l "cs_calls ?s1" "map (\<lambda>c. (c, l0)) others" MAX_CALLS] assms(2,3)
    by (simp add: register_all_calls l0_def image_image)
  have len: "length (cs_calls ?s2) \<le> MAX_CALLS"
  proof (cases others rule: rev_cases)
    case Nil
    then show ?thesis by (simp add: register_all_def register_call_def Let_def length_od_put)
  next
    case (snoc ys y)
    then show ?thesis by (simp add: register_all_def register_call_def Let_def length_od_put)
  qed
  show ?thesis
    using young_lookup [OF y] assms(1) len by (simp add: lineage_of_def l_def register_call_def Let_def)
qed

theorem lineage_registry_bounded_witness:
  "lineage_of (register_all (snd (register_call ''A'' (Some ''H'') empty_call_state)) [''B''])
     (Some ''A'')
   = Some \<lparr>cl_parent_call_id = None, cl_attempt = 2, cl_replay_of = Some ''H''\<rparr>"
  using lineage_registry_bounded [of "''A''" "[''B'']" "Some ''H''" empty_call_state]
  by (simp add: MAX_CALLS_def truthy_str_def empty_call_state_def)

text \<open>A call scope always restores the call it was entered from, whatever its body does: return,
  raise, or register further calls.\<close>

lemma call_scope_restores:
  "cs_current (snd (call_scope call_id body s)) = cs_current s
   \<and> fst (call_scope call_id body s) = fst (body (s\<lparr>cs_current := Some call_id\<rparr>))"
  by (simp add: call_scope_def Let_def split: prod.splits)

end
