(* ===== verification/Kernel.thy ===== *)
theory Kernel
  imports Call_Context "HOL-Library.Multiset"
begin

text \<open>
  The governance kernel (\<open>kernel/governance/kernel.py\<close>): hook registration, the registry lock,
  dispatch (\<open>fire\<close>) and the audit row of every firing.

  The kernel is generic in a world state \<open>'s\<close> that the hooks and the audit log read and write: a hook
  is a name, a priority and a state transformer that returns a decision or raises; the audit log the
  kernel was constructed with is a state transformer that returns the row id or raises. What the code
  reads from process state (call lineage, trace, session and turn ids) is the environment of a firing.
  The concrete hooks and the audit log are modelled in the theories of their own modules.
\<close>

section \<open>State\<close>

type_synonym 's bot_source = "'s \<Rightarrow> string option \<times> 's"

record 's hook =
  hk_name :: string
  hk_hook_point :: hook_point
  hk_priority :: int
  hk_call :: "hook_context \<Rightarrow> 's \<Rightarrow> hook_decision result \<times> 's"
  hk_bot_status :: "(nat \<times> 's bot_source) option"
    \<comment> \<open>for a \<open>BotStatusHook\<close>: the instance's identity and its \<open>audit_bot_id\<close>\<close>

record audit_entry =
  ae_run_id :: string
  ae_step_id :: "int option"
  ae_agent_type :: string
  ae_hook_point :: string
  ae_plugin :: string
  ae_decision :: string
  ae_severity :: string
  ae_reason :: string
  ae_classification :: "string option"
  ae_tier :: "string option"
  ae_payload :: dict

type_synonym 's audit_sink = "audit_entry \<Rightarrow> 's \<Rightarrow> int result \<times> 's"

record 's kernel =
  k_hooks :: "hook_point \<Rightarrow> 's hook list"
  k_init_locked :: bool
  k_audit_log :: "'s audit_sink option"
  k_bot_hook :: "(nat \<times> 's bot_source) option"

record 's kernel_env =
  ke_calls :: call_state
  ke_trace_id :: "string option"
  ke_session_id :: "string option"
  ke_turn_id :: "string option"
  ke_note_unrecorded :: "string \<Rightarrow> string option \<Rightarrow> 's \<Rightarrow> 's"

definition new_kernel :: "'s audit_sink option \<Rightarrow> 's kernel" where
  "new_kernel audit_log =
     \<lparr>k_hooks = (\<lambda>_. []), k_init_locked = False, k_audit_log = audit_log, k_bot_hook = None\<rparr>"

section \<open>Registration\<close>

text \<open>The process-wide bot id source of the audit log is the second component of the result.\<close>

definition register ::
  "'s hook \<Rightarrow> hook_point option \<Rightarrow> 's kernel \<Rightarrow> 's bot_source option
    \<Rightarrow> ('s kernel \<times> 's bot_source option) result"
where
  "register hook at_point k source =
     (if k_init_locked k then
        Raise ''HookRegistrationLockedError''
          (''Hook '' @ repr_str (hk_name hook) @ '' cannot be registered after init_lock(); ''
           @ ''runtime hook registration is forbidden (design '' @ [CHR 0xA7] @ ''5.3 ''
           @ ''hook plugin trust boundary).'')
      else
        let point = (case at_point of Some p \<Rightarrow> p | None \<Rightarrow> hk_hook_point hook);
            hooks = (k_hooks k)(point := sort_key hk_priority (k_hooks k point @ [hook]))
        in case hk_bot_status hook of
             None \<Rightarrow> Inr (k\<lparr>k_hooks := hooks\<rparr>, source)
           | Some (ident, bot_id) \<Rightarrow>
               (case k_bot_hook k of
                  Some (ident', _) \<Rightarrow>
                    if ident' \<noteq> ident then
                      Raise ''ValueError''
                        ''a kernel guards one bot: a second BotStatusHook was registered''
                    else Inr (k\<lparr>k_bot_hook := Some (ident, bot_id), k_hooks := hooks\<rparr>, Some bot_id)
                | None \<Rightarrow> Inr (k\<lparr>k_bot_hook := Some (ident, bot_id), k_hooks := hooks\<rparr>, Some bot_id)))"

definition init_lock :: "'s kernel \<Rightarrow> 's kernel" where
  "init_lock k = k\<lparr>k_init_locked := True\<rparr>"

definition hook_count :: "'s kernel \<Rightarrow> hook_point \<Rightarrow> nat" where
  "hook_count k p = length (k_hooks k p)"

definition hook_names :: "'s kernel \<Rightarrow> hook_point \<Rightarrow> string list" where
  "hook_names k p = map hk_name (k_hooks k p)"

section \<open>The audit row of a firing\<close>

definition AUDITED_PAYLOAD_KEYS :: "string list" where
  "AUDITED_PAYLOAD_KEYS =
     [''model'', ''provider'', ''tool_name'', ''tool_plugin'', ''target_tier'', ''context_tokens'',
      ''evicted_tokens'', ''signature_status'', ''signature_key_id'', ''signature_spec_sha256'',
      ''deterministic'', ''handler'', ''caller'', ''capability'', ''method'', ''capability_provider'',
      ''args_digest'', ''result_digest'', ''egress'', ''digest_alg'', ''audience'', ''stream_item'',
      ''stream_end'', ''stream_partial'']"

definition copy_audited :: "dict \<Rightarrow> dict \<Rightarrow> dict" where
  "copy_audited payload row =
     fold (\<lambda>key row. if dhas payload key \<and> \<not> dhas row key then dset key (dget payload key) row else row)
       AUDITED_PAYLOAD_KEYS row"

text \<open>The identity the kernel stamps on a row: each key with its value, or removed when there is none
  (\<open>_stamp\<close>). Nothing of the payload or of the decision is read.\<close>

definition dstamps :: "(string \<times> pyval option) list \<Rightarrow> dict \<Rightarrow> dict" where
  "dstamps kvs d = foldl (\<lambda>acc kx. dstamp (fst kx) (snd kx) acc) d kvs"

definition truthy_or_none :: "string option \<Rightarrow> pyval option" where
  "truthy_or_none x = (if truthy_str x then map_option PStr x else None)"

definition parent_of :: "dict \<Rightarrow> call_lineage option \<Rightarrow> pyval option" where
  "parent_of meta lineage =
     (case nonempty_str (dget meta K_PARENT_CALL_ID) of
        Some x \<Rightarrow> Some (PStr x)
      | None \<Rightarrow> (case lineage of None \<Rightarrow> None | Some l \<Rightarrow> truthy_or_none (cl_parent_call_id l)))"

definition identity_stamps ::
  "'s kernel_env \<Rightarrow> hook_point \<Rightarrow> dict \<Rightarrow> string \<Rightarrow> string option \<Rightarrow> (string \<times> pyval option) list"
where
  "identity_stamps env hp meta run_id bot_id =
     (let call_id = call_id_of meta; lineage = lineage_of (ke_calls env) call_id in
      [(K_BOT_ID, truthy_or_none bot_id),
       (K_CALL_ID, map_option PStr call_id),
       (K_HELD_CALL_ID, map_option PStr (nonempty_str (dget meta K_HELD_CALL_ID))),
       (K_TOOL_ERROR, if hp = POST_TOOL_USE then map_option PStr (nonempty_str (dget meta K_TOOL_ERROR))
                      else None),
       (K_PARENT_CALL_ID, parent_of meta lineage),
       (K_ATTEMPT, map_option (\<lambda>l. PInt (cl_attempt l)) lineage),
       (K_REPLAY_OF, case lineage of None \<Rightarrow> None | Some l \<Rightarrow> truthy_or_none (cl_replay_of l)),
       (K_RESUMED_FROM_RUN, if run_id \<noteq> [] \<and> is_run_resumed (ke_calls env) run_id
                            then Some (PStr run_id) else None)])"

definition setdefault_opt :: "string \<Rightarrow> string option \<Rightarrow> dict \<Rightarrow> dict" where
  "setdefault_opt k x d = (case x of None \<Rightarrow> d | Some v \<Rightarrow> dsetdefault k (PStr v) d)"

definition audit_payload ::
  "'s kernel_env \<Rightarrow> hook_point \<Rightarrow> hook_decision \<Rightarrow> hook_context \<Rightarrow> string option \<Rightarrow> dict"
where
  "audit_payload env hp d ctx bot_id =
     dstamp K_TURN_ID (map_option PStr (ke_turn_id env))
      (setdefault_opt ''session_id'' (ke_session_id env)
       (setdefault_opt ''trace_id'' (ke_trace_id env)
        (dstamps (identity_stamps env hp (hc_metadata ctx) (hc_run_id ctx) bot_id)
         (setdefault_opt ''caller'' (nonempty_str (dget (hc_metadata ctx) ''caller''))
          (copy_audited (hc_payload ctx) (hd_audit_metadata d))))))"

datatype durability = InDb | InSpool | Lost

definition audit_entry_of ::
  "hook_point \<Rightarrow> string \<Rightarrow> hook_decision \<Rightarrow> hook_context \<Rightarrow> dict \<Rightarrow> audit_entry"
where
  "audit_entry_of hp plugin d ctx payload =
     \<lparr>ae_run_id = hc_run_id ctx, ae_step_id = hc_step_id ctx, ae_agent_type = hc_agent_type ctx,
      ae_hook_point = hook_point_value hp, ae_plugin = plugin,
      ae_decision = outcome_value (hd_outcome d), ae_severity = severity_value (hd_severity d),
      ae_reason = hd_reason d,
      ae_classification = map_option classification_value (hc_classification ctx),
      ae_tier = map_option tier_value (hc_tier ctx), ae_payload = payload\<rparr>"

definition audit ::
  "'s kernel \<Rightarrow> 's kernel_env \<Rightarrow> hook_point \<Rightarrow> string \<Rightarrow> hook_decision \<Rightarrow> hook_context \<Rightarrow> 's
    \<Rightarrow> durability \<times> 's"
where
  "audit k env hp plugin d ctx s =
     (case k_audit_log k of
        None \<Rightarrow> (InDb, s)
      | Some record \<Rightarrow>
          let (bot_id, s1) = (case k_bot_hook k of None \<Rightarrow> (None, s) | Some (_, f) \<Rightarrow> f s)
          in case record (audit_entry_of hp plugin d ctx (audit_payload env hp d ctx bot_id)) s1 of
               (Inl _, s2) \<Rightarrow> (Lost, s2)
             | (Inr row_id, s2) \<Rightarrow> (if row_id = 0 then InSpool else InDb, s2))"

section \<open>Dispatch\<close>

definition guards_an_effect :: "hook_point \<Rightarrow> hook_context \<Rightarrow> bool" where
  "guards_an_effect hp ctx =
     (case hp of
        PRE_EGRESS \<Rightarrow> True
      | PRE_TOOL_USE \<Rightarrow> dget (hc_metadata ctx) K_TOOL_EFFECT \<in> {PStr ''write'', PStr ''destructive''}
      | PRE_LLM_CALL \<Rightarrow> hc_tier ctx = Some Tier3
      | _ \<Rightarrow> False)"

text \<open>\<open>[*metadata.get("transformed_by", ()), name]\<close>: unpacking a value that is not iterable raises.\<close>

definition unpack :: "dict \<Rightarrow> string \<Rightarrow> pyval list result" where
  "unpack d k =
     (if \<not> dhas d k then Inr []
      else case dget d k of
             PList xs \<Rightarrow> Inr xs
           | PStr s \<Rightarrow> Inr (map (\<lambda>c. PStr [c]) s)
           | PDict e \<Rightarrow> Inr (map (PStr \<circ> fst) e)
           | _ \<Rightarrow> Raise ''TypeError'' ''Value after * must be an iterable'')"

definition rebind :: "string \<Rightarrow> hook_decision \<Rightarrow> hook_context \<Rightarrow> hook_context result" where
  "rebind name d ctx =
     (let c1 = (case hd_set_classification d of None \<Rightarrow> ctx | Some c \<Rightarrow> ctx\<lparr>hc_classification := Some c\<rparr>);
          c2 = (case hd_set_tier d of None \<Rightarrow> c1 | Some t \<Rightarrow> c1\<lparr>hc_tier := Some t\<rparr>);
          c3 = (case nonempty_str (dget (hd_audit_metadata d) K_SIDE_EFFECT_ID) of
                  None \<Rightarrow> c2
                | Some r \<Rightarrow> c2\<lparr>hc_metadata := dset K_SIDE_EFFECT_ID (PStr r) (hc_metadata ctx)\<rparr>)
      in case hd_transformed_payload d of
           Some p \<Rightarrow>
             if hd_outcome d = Transform then
               (case unpack (hc_metadata ctx) K_TRANSFORMED_BY of
                  Inl e \<Rightarrow> Inl e
                | Inr xs \<Rightarrow> Inr (c3\<lparr>hc_payload := p,
                    hc_metadata := dset K_TRANSFORMED_BY (PList (xs @ [PStr name])) (hc_metadata c3)\<rparr>))
             else Inr c3
         | None \<Rightarrow> Inr c3)"

definition exc_decision :: "string \<Rightarrow> pyexn \<Rightarrow> hook_decision" where
  "exc_decision name exc =
     (decision Deny (''hook '' @ repr_str name @ '' raised: '' @ exn_class exc))
       \<lparr>hd_severity := SevError,
        hd_audit_metadata := [(''hook'', PStr name), (''exception'', PStr (exn_msg exc))],
        hd_decided_by := Some name\<rparr>"

datatype loop_exit =
    Stopped hook_decision hook_context
  | Finished hook_decision hook_context bool
  | Crashed pyexn

fun fire_loop ::
  "'s kernel \<Rightarrow> 's kernel_env \<Rightarrow> hook_point \<Rightarrow> 's hook list \<Rightarrow> hook_decision \<Rightarrow> hook_context \<Rightarrow> bool \<Rightarrow> 's
    \<Rightarrow> loop_exit \<times> 's"
where
  "fire_loop k env hp [] d ctx audited s = (Finished d ctx audited, s)"
| "fire_loop k env hp (h # hs) d ctx audited s =
     (case hk_call h ctx s of
        (Inl exc, s1) \<Rightarrow>
          let (_, s2) = audit k env hp (hk_name h) (exc_decision (hk_name h) exc) ctx s1
          in (Stopped (exc_decision (hk_name h) exc) ctx, s2)
      | (Inr d', s1) \<Rightarrow>
          let (dur, s2) = audit k env hp (hk_name h) d' ctx s1
          in (case rebind (hk_name h) d' ctx of
                Inl e \<Rightarrow> (Crashed e, s2)
              | Inr ctx' \<Rightarrow>
                  if stops (hd_outcome d')
                  then (Stopped (d'\<lparr>hd_decided_by := Some (hk_name h)\<rparr>) ctx', s2)
                  else fire_loop k env hp hs d' ctx' (dur \<noteq> Lost \<and> audited) s2))"

definition drop_bot_id :: "hook_context \<Rightarrow> hook_context" where
  "drop_bot_id ctx =
     (if dhas (hc_metadata ctx) K_BOT_ID
      then ctx\<lparr>hc_metadata := dpop K_BOT_ID (hc_metadata ctx)\<rparr> else ctx)"

definition withdrawn :: hook_decision where
  "withdrawn = (decision Deny ''the ledger write for this call failed, so it does not run'')
     \<lparr>hd_severity := SevError, hd_decided_by := Some ''kernel''\<rparr>"

definition egress_host :: "hook_context \<Rightarrow> string" where
  "egress_host ctx =
     (case dget (hc_payload ctx) ''egress'' of
        PDict e \<Rightarrow> if dhas e ''host'' then py_str (dget e ''host'') else []
      | _ \<Rightarrow> [])"

definition fire ::
  "'s kernel \<Rightarrow> 's kernel_env \<Rightarrow> hook_point \<Rightarrow> hook_context \<Rightarrow> 's
    \<Rightarrow> (hook_decision \<times> hook_context) result \<times> 's"
where
  "fire k env hp ctx s =
     (if \<not> k_init_locked k then
        (Raise ''KernelNotInitializedError''
           (''GovernanceKernel.fire() called before init_lock(); ''
            @ ''call init_lock() after registering all hooks.''), s)
      else
        case fire_loop k env hp (k_hooks k hp) (decision Allow ''no hooks registered'')
               (drop_bot_id ctx) True s of
          (Crashed e, s1) \<Rightarrow> (Inl e, s1)
        | (Stopped d c, s1) \<Rightarrow> (Inr (d, c), s1)
        | (Finished d c audited, s1) \<Rightarrow>
            if \<not> audited \<and> \<not> stops (hd_outcome d) \<and> guards_an_effect hp c
            then (Inr (withdrawn, c), s1)
            else if \<not> audited \<and> hp = POST_EGRESS
            then (Inr (d, c),
                  ke_note_unrecorded env (egress_host c) (call_id_of (hc_metadata c)) s1)
            else (Inr (d, c), s1))"

definition record_denial ::
  "'s kernel \<Rightarrow> 's kernel_env \<Rightarrow> hook_point \<Rightarrow> string \<Rightarrow> string \<Rightarrow> hook_context \<Rightarrow> dict \<Rightarrow> 's
    \<Rightarrow> hook_decision \<times> 's"
where
  "record_denial k env hp plugin reason ctx audit_metadata s =
     (let d = (decision Deny reason)\<lparr>hd_severity := SevError, hd_audit_metadata := audit_metadata,
                                     hd_decided_by := Some plugin\<rparr>;
          (_, s1) = audit k env hp plugin d ctx s
      in (d, s1))"

text \<open>\<open>fire_sync\<close>: refused inside a running event loop.\<close>

definition fire_sync ::
  "bool \<Rightarrow> 's kernel \<Rightarrow> 's kernel_env \<Rightarrow> hook_point \<Rightarrow> hook_context \<Rightarrow> 's
    \<Rightarrow> (hook_decision \<times> hook_context) result \<times> 's"
where
  "fire_sync loop_running k env hp ctx s =
     (if loop_running then
        (Raise ''RuntimeError''
           (''GovernanceKernel.fire_sync() cannot run inside an active ''
            @ ''event loop; use fire() from async code.''), s)
      else fire k env hp ctx s)"

lemma rebind_no_transform: "hd_outcome d \<noteq> Transform \<Longrightarrow> \<exists>ctx'. rebind name d ctx = Inr ctx'"
  by (cases "hd_transformed_payload d") (simp_all add: rebind_def Let_def)

section \<open>The registry\<close>

definition point_of :: "'s hook \<times> hook_point option \<Rightarrow> hook_point" where
  "point_of ha = (case snd ha of Some p \<Rightarrow> p | None \<Rightarrow> hk_hook_point (fst ha))"

text \<open>A sequence of registrations, stopping at the first that raises.\<close>

fun register_hooks ::
  "('s hook \<times> hook_point option) list \<Rightarrow> 's kernel \<Rightarrow> 's bot_source option
    \<Rightarrow> ('s kernel \<times> 's bot_source option) result"
where
  "register_hooks [] k src = Inr (k, src)"
| "register_hooks (ha # has) k src =
     (case register (fst ha) (snd ha) k src of
        Inl e \<Rightarrow> Inl e
      | Inr (k', src') \<Rightarrow> register_hooks has k' src')"

lemma sort_key_stable_sym: "filter (\<lambda>x. k = f x) (sort_key f xs) = filter (\<lambda>x. k = f x) xs"
  using sort_key_stable [of f k xs] by (simp add: eq_commute)

lemma sort_key_snoc_sort: "sort_key f (sort_key f xs @ ys) = sort_key f (xs @ ys)"
  by (rule properties_for_sort_key) (auto simp: sort_key_stable_sym)

lemma register_result:
  assumes "register h a k src = Inr (k', src')"
  shows "k_hooks k' p =
           (if p = point_of (h, a) then sort_key hk_priority (k_hooks k p @ [h]) else k_hooks k p)"
    and "k_init_locked k' = k_init_locked k" and "k_audit_log k' = k_audit_log k"
    and "\<not> k_init_locked k"
  using assms
  by (auto simp: register_def point_of_def Let_def split: if_splits option.splits prod.splits)

lemma register_hooks_hooks:
  assumes "register_hooks regs k src = Inr (k', src')"
  shows "sort_key hk_priority (k_hooks k' p) =
         sort_key hk_priority (k_hooks k p @ map fst (filter (\<lambda>ha. point_of ha = p) regs))"
  using assms
proof (induction regs arbitrary: k src)
  case Nil
  then show ?case by simp
next
  case (Cons ha regs)
  obtain k1 src1 where r: "register (fst ha) (snd ha) k src = Inr (k1, src1)"
    and rest: "register_hooks regs k1 src1 = Inr (k', src')"
    using Cons.prems by (auto split: sum.splits prod.splits)
  have h1: "k_hooks k1 p =
      (if p = point_of ha then sort_key hk_priority (k_hooks k p @ [fst ha]) else k_hooks k p)"
    using register_result(1) [OF r] by (simp add: point_of_def)
  have "sort_key hk_priority (k_hooks k' p) =
      sort_key hk_priority (k_hooks k1 p @ map fst (filter (\<lambda>ha. point_of ha = p) regs))"
    by (rule Cons.IH [OF rest])
  also have "\<dots> = sort_key hk_priority
      (k_hooks k p @ map fst (filter (\<lambda>ha. point_of ha = p) (ha # regs)))"
    by (auto simp: h1 sort_key_snoc_sort)
  finally show ?case .
qed

lemma register_hooks_sorted:
  assumes "register_hooks regs k src = Inr (k', src')" and "sorted (map hk_priority (k_hooks k p))"
  shows "sorted (map hk_priority (k_hooks k' p))"
  using assms
proof (induction regs arbitrary: k src)
  case Nil
  then show ?case by simp
next
  case (Cons ha regs)
  obtain k1 src1 where r: "register (fst ha) (snd ha) k src = Inr (k1, src1)"
    and rest: "register_hooks regs k1 src1 = Inr (k', src')"
    using Cons.prems(1) by (auto split: sum.splits prod.splits)
  have "sorted (map hk_priority (k_hooks k1 p))"
    using Cons.prems(2) by (simp add: register_result(1) [OF r])
  then show ?case by (rule Cons.IH [OF rest])
qed

lemma sorted_sort_key_id: "sorted (map f xs) \<Longrightarrow> sort_key f xs = xs"
  by (rule properties_for_sort_key) auto

text \<open>Dispatch order. Whatever the order hooks were registered in, the hooks of a point run in
  ascending priority, hooks of equal priority in registration order: the registry of a kernel built by
  a successful sequence of registrations is the stable sort by priority of the hooks registered there,
  none missing and none added.\<close>

theorem registry_is_stable_sort:
  assumes "register_hooks regs (new_kernel audit_log) src = Inr (k, src')"
  shows "k_hooks k p = sort_key hk_priority (map fst (filter (\<lambda>ha. point_of ha = p) regs))"
proof -
  have "sorted (map hk_priority (k_hooks k p))"
    by (rule register_hooks_sorted [OF assms]) (simp add: new_kernel_def)
  then have "k_hooks k p = sort_key hk_priority (k_hooks k p)" by (simp add: sorted_sort_key_id)
  also have "\<dots> = sort_key hk_priority (map fst (filter (\<lambda>ha. point_of ha = p) regs))"
    using register_hooks_hooks [OF assms, of p] by (simp add: new_kernel_def)
  finally show ?thesis .
qed

text \<open>Concrete instances the witnesses evaluate.\<close>

definition demo_ctx :: "hook_point \<Rightarrow> dict \<Rightarrow> dict \<Rightarrow> hook_context" where
  "demo_ctx hp payload meta = \<lparr>hc_hook_point = hp, hc_run_id = ''r1'', hc_agent_type = ''chat'',
     hc_step_id = Some 1, hc_persona = None, hc_route = None, hc_payload = payload,
     hc_classification = None, hc_tier = None, hc_metadata = meta\<rparr>"

definition demo_env :: "'s kernel_env" where
  "demo_env = \<lparr>ke_calls = empty_call_state, ke_trace_id = None, ke_session_id = None,
     ke_turn_id = None, ke_note_unrecorded = (\<lambda>_ _ s. s)\<rparr>"

definition demo_hook :: "string \<Rightarrow> int \<Rightarrow> outcome \<Rightarrow> unit hook" where
  "demo_hook n p oc = \<lparr>hk_name = n, hk_hook_point = PRE_TOOL_USE, hk_priority = p,
     hk_call = (\<lambda>ctx s. (Inr (decision oc n), s)), hk_bot_status = None\<rparr>"

theorem registry_is_stable_sort_witness:
  "map hk_name (k_hooks (case register_hooks
       [(demo_hook ''late'' 50 Allow, None), (demo_hook ''a'' 20 Allow, None),
        (demo_hook ''b'' 20 Deny, None)] (new_kernel None) None of Inr r \<Rightarrow> fst r) PRE_TOOL_USE)
   = [''a'', ''b'', ''late'']"
proof -
  let ?regs = "[(demo_hook ''late'' 50 Allow, None), (demo_hook ''a'' 20 Allow, None),
        (demo_hook ''b'' 20 Deny, None)]"
  obtain k src' where r: "register_hooks ?regs (new_kernel None) None = Inr (k, src')"
    by (auto simp: register_def new_kernel_def demo_hook_def Let_def)
  have "map hk_name (k_hooks k PRE_TOOL_USE) = [''a'', ''b'', ''late'']"
    unfolding registry_is_stable_sort [OF r, of PRE_TOOL_USE] by (simp add: point_of_def demo_hook_def)
  then show ?thesis unfolding r by simp
qed

text \<open>The trust boundary. After \<open>init_lock\<close> every registration raises
  \<open>HookRegistrationLockedError\<close> and returns no kernel, and before it every \<open>fire\<close> raises
  \<open>KernelNotInitializedError\<close>, consulting no hook and leaving the world unchanged.\<close>

theorem lock_separates_registration_and_firing:
  "(\<exists>m. register h a (init_lock k) src = Raise ''HookRegistrationLockedError'' m)
   \<and> (\<not> k_init_locked k \<longrightarrow> (\<exists>m. fire k env hp ctx s = (Raise ''KernelNotInitializedError'' m, s)))
   \<and> k_init_locked (init_lock k)"
  by (auto simp: register_def init_lock_def fire_def)

theorem lock_separates_registration_and_firing_witness:
  "\<exists>m. fire (new_kernel None :: unit kernel) demo_env PRE_TURN (demo_ctx PRE_TURN [] []) ()
       = (Raise ''KernelNotInitializedError'' m, ())"
  using lock_separates_registration_and_firing
      [of "demo_hook ''a'' 20 Allow" None "new_kernel None" None demo_env PRE_TURN "demo_ctx PRE_TURN [] []" "()"]
  by (simp add: new_kernel_def)

end
