(* ===== verification/Kernel_Dispatch.thy ===== *)
theory Kernel_Dispatch
  imports Kernel
begin

text \<open>
  What the kernel's dispatch guarantees for any set of hooks and any audit log: an allow means every
  hook of the point was consulted and none objected, a raise or an objection stops the chain there, the
  declarations in the metadata reach every hook unchanged, an effect never goes ahead without its
  ledger rows, and a row's identity comes from the harness alone.
\<close>

section \<open>Consultations\<close>

record 's consultation =
  co_hook :: "'s hook"
  co_ctx :: hook_context
  co_state :: 's
  co_decision :: hook_decision
  co_durability :: durability

text \<open>A part of a hook chain that nothing stopped: each hook was called on the context the hooks
  before it left, returned a decision that does not stop, and its row was handed to the ledger.\<close>

inductive passes ::
  "'s kernel \<Rightarrow> 's kernel_env \<Rightarrow> hook_point \<Rightarrow> 's hook list \<Rightarrow> hook_context \<Rightarrow> 's
    \<Rightarrow> 's consultation list \<Rightarrow> hook_context \<Rightarrow> 's \<Rightarrow> bool"
  for k :: "'s kernel" and env :: "'s kernel_env" and hp :: hook_point
where
  pass_nil: "passes k env hp [] ctx s [] ctx s"
| pass_cons:
    "\<lbrakk>hk_call h ctx s = (Inr d, s1); \<not> stops (hd_outcome d);
      audit k env hp (hk_name h) d ctx s1 = (dur, s2); rebind (hk_name h) d ctx = Inr ctx1;
      passes k env hp hs ctx1 s2 tr ctx' s'\<rbrakk>
     \<Longrightarrow> passes k env hp (h # hs) ctx s
           (\<lparr>co_hook = h, co_ctx = ctx, co_state = s, co_decision = d, co_durability = dur\<rparr> # tr) ctx' s'"

inductive_cases passes_NilE: "passes k env hp [] ctx s tr ctx' s'"
inductive_cases passes_ConsE: "passes k env hp (h # hs) ctx s tr ctx' s'"

definition last_decision :: "hook_decision \<Rightarrow> 's consultation list \<Rightarrow> hook_decision" where
  "last_decision d tr = (if tr = [] then d else co_decision (last tr))"

definition none_lost :: "'s consultation list \<Rightarrow> bool" where
  "none_lost tr = (\<forall>c \<in> set tr. co_durability c \<noteq> Lost)"

lemma last_decision_Cons [simp]: "last_decision d (c # tr) = last_decision (co_decision c) tr"
  by (simp add: last_decision_def)

lemma last_decision_Nil [simp]: "last_decision d [] = d"
  by (simp add: last_decision_def)

lemma fire_loop_FinishedD:
  "fire_loop k env hp hs d ctx a s = (Finished d' ctx' a', s') \<Longrightarrow>
   \<exists>tr. passes k env hp hs ctx s tr ctx' s' \<and> d' = last_decision d tr \<and> a' = (none_lost tr \<and> a)"
proof (induction hs arbitrary: d ctx a s)
  case Nil
  then show ?case by (auto intro: pass_nil simp: none_lost_def)
next
  case (Cons h hs)
  obtain d1 s1 dur s2 ctx1 where step:
    "hk_call h ctx s = (Inr d1, s1)" "audit k env hp (hk_name h) d1 ctx s1 = (dur, s2)"
    "rebind (hk_name h) d1 ctx = Inr ctx1" "\<not> stops (hd_outcome d1)"
    and rest: "fire_loop k env hp hs d1 ctx1 (dur \<noteq> Lost \<and> a) s2 = (Finished d' ctx' a', s')"
    using Cons.prems by (auto simp: Let_def split: prod.splits sum.splits if_splits)
  obtain tr where tr: "passes k env hp hs ctx1 s2 tr ctx' s'" "d' = last_decision d1 tr"
    "a' = (none_lost tr \<and> dur \<noteq> Lost \<and> a)"
    using Cons.IH [OF rest] by blast
  let ?c = "\<lparr>co_hook = h, co_ctx = ctx, co_state = s, co_decision = d1, co_durability = dur\<rparr>"
  have "passes k env hp (h # hs) ctx s (?c # tr) ctx' s'"
    by (rule pass_cons [OF step(1) step(4) step(2) step(3) tr(1)])
  moreover have "d' = last_decision d (?c # tr)" using tr(2) by simp
  moreover have "a' = (none_lost (?c # tr) \<and> a)" using tr(3) by (auto simp: none_lost_def)
  ultimately show ?case by blast
qed

lemma fire_loop_Stopped:
  "fire_loop k env hp hs d ctx a s = (Stopped d' ctx', s') \<Longrightarrow> stops (hd_outcome d')"
proof (induction hs arbitrary: d ctx a s)
  case Nil
  then show ?case by simp
next
  case (Cons h hs)
  show ?case
  proof (cases "hk_call h ctx s")
    case (Pair r s1)
    then show ?thesis
      using Cons by (cases r) (auto simp: Let_def exc_decision_def stops_def
          split: prod.splits sum.splits if_splits)
  qed
qed

lemma fire_loop_passes:
  "passes k env hp pre ctx s tr ctx' s' \<Longrightarrow>
   fire_loop k env hp (pre @ hs) d ctx a s =
     fire_loop k env hp hs (last_decision d tr) ctx' (none_lost tr \<and> a) s'"
proof (induction arbitrary: d a rule: passes.induct)
  case (pass_nil ctx s)
  then show ?case by (simp add: none_lost_def)
next
  case (pass_cons h ctx s d1 s1 dur s2 ctx1 hs' tr ctx' s')
  have eq: "(none_lost tr \<and> dur \<noteq> Lost \<and> a) =
      (none_lost (\<lparr>co_hook = h, co_ctx = ctx, co_state = s, co_decision = d1, co_durability = dur\<rparr> # tr) \<and> a)"
    by (auto simp: none_lost_def)
  show ?case
    using pass_cons.hyps pass_cons.IH [of d1 "dur \<noteq> Lost \<and> a"] eq by simp
qed

lemma passes_hooks: "passes k env hp hs ctx s tr ctx' s' \<Longrightarrow> map co_hook tr = hs"
  by (induction rule: passes.induct) auto

lemma passes_decisions:
  "passes k env hp hs ctx s tr ctx' s' \<Longrightarrow> c \<in> set tr \<Longrightarrow>
   \<not> stops (hd_outcome (co_decision c))
   \<and> fst (hk_call (co_hook c) (co_ctx c) (co_state c)) = Inr (co_decision c)"
  by (induction rule: passes.induct) auto

section \<open>What hooks cannot change\<close>

text \<open>The metadata keys a firing itself writes.\<close>

definition kernel_written_keys :: "string set" where
  "kernel_written_keys = {K_SIDE_EFFECT_ID, K_TRANSFORMED_BY, K_BOT_ID}"

definition same_call :: "hook_context \<Rightarrow> hook_context \<Rightarrow> bool" where
  "same_call c c' \<longleftrightarrow> hc_run_id c' = hc_run_id c \<and> hc_step_id c' = hc_step_id c
     \<and> hc_agent_type c' = hc_agent_type c \<and> hc_persona c' = hc_persona c \<and> hc_hook_point c' = hc_hook_point c
     \<and> (\<forall>key. key \<notin> kernel_written_keys \<longrightarrow> dget (hc_metadata c') key = dget (hc_metadata c) key)"

lemma same_call_refl [simp]: "same_call c c"
  by (simp add: same_call_def)

lemma same_call_trans: "same_call a b \<Longrightarrow> same_call b c \<Longrightarrow> same_call a c"
  by (simp add: same_call_def)

lemma rebind_same_call: "rebind name d ctx = Inr ctx' \<Longrightarrow> same_call ctx ctx'"
  by (auto simp: rebind_def same_call_def kernel_written_keys_def Let_def
      split: option.splits if_splits sum.splits)

lemma drop_bot_id_same_call: "same_call ctx (drop_bot_id ctx)"
  by (simp add: drop_bot_id_def same_call_def kernel_written_keys_def)

lemma passes_same_call:
  "passes k env hp hs ctx s tr ctx' s' \<Longrightarrow>
   same_call ctx ctx' \<and> (\<forall>c \<in> set tr. same_call ctx (co_ctx c))"
proof (induction rule: passes.induct)
  case (pass_nil ctx s)
  then show ?case by simp
next
  case (pass_cons h ctx s d s1 dur s2 ctx1 hs tr ctx' s')
  have "same_call ctx ctx1" using pass_cons.hyps(4) by (rule rebind_same_call)
  then show ?case using pass_cons.IH by (auto intro: same_call_trans)
qed

lemma rebind_payload:
  "rebind name d ctx = Inr ctx' \<Longrightarrow> hd_outcome d \<noteq> Transform \<Longrightarrow> hc_payload ctx' = hc_payload ctx"
  by (auto simp: rebind_def Let_def split: option.splits if_splits)

lemma rebind_classification:
  "rebind name d ctx = Inr ctx' \<Longrightarrow>
   hc_classification ctx' = (case hd_set_classification d of None \<Rightarrow> hc_classification ctx | Some c \<Rightarrow> Some c)
   \<and> hc_tier ctx' = (case hd_set_tier d of None \<Rightarrow> hc_tier ctx | Some t \<Rightarrow> Some t)"
  by (auto simp: rebind_def Let_def split: option.splits if_splits sum.splits)

section \<open>Dispatch properties\<close>

lemma fire_goes_on:
  assumes "fire k env hp ctx s = (Inr (d, ctx'), s')" and "\<not> stops (hd_outcome d)"
  shows "k_init_locked k \<and> (\<exists>tr s1. passes k env hp (k_hooks k hp) (drop_bot_id ctx) s tr ctx' s1
           \<and> d = last_decision (decision Allow ''no hooks registered'') tr
           \<and> (guards_an_effect hp ctx' \<longrightarrow> none_lost tr))"
proof -
  have locked: "k_init_locked k" using assms(1) by (auto simp: fire_def split: if_splits)
  obtain e s1 where loop: "fire_loop k env hp (k_hooks k hp) (decision Allow ''no hooks registered'')
      (drop_bot_id ctx) True s = (e, s1)" by fastforce
  show ?thesis
  proof (cases e)
    case (Stopped d1 c1)
    have "stops (hd_outcome d1)" by (rule fire_loop_Stopped [OF loop [unfolded Stopped]])
    then show ?thesis using assms loop locked Stopped by (simp add: fire_def)
  next
    case (Finished d1 c1 a1)
    then show ?thesis
      using assms loop locked fire_loop_FinishedD [of k env hp "k_hooks k hp"]
      by (fastforce simp: fire_def withdrawn_def stops_def split: if_splits)
  next
    case (Crashed x)
    then show ?thesis using assms loop locked by (simp add: fire_def)
  qed
qed

text \<open>With an effect behind it the state \<open>fire\<close> returns is the one the last row left.\<close>

lemma fire_effect_goes_on:
  assumes "fire k env hp ctx s = (Inr (d, ctx'), s')" and "\<not> stops (hd_outcome d)" and "guards_an_effect hp ctx'"
  shows "\<exists>tr. passes k env hp (k_hooks k hp) (drop_bot_id ctx) s tr ctx' s' \<and> none_lost tr"
proof -
  obtain e s1 where loop: "fire_loop k env hp (k_hooks k hp) (decision Allow ''no hooks registered'')
      (drop_bot_id ctx) True s = (e, s1)" by fastforce
  have locked: "k_init_locked k" using assms(1) by (auto simp: fire_def split: if_splits)
  show ?thesis
  proof (cases e)
    case (Stopped d1 c1)
    have "stops (hd_outcome d1)" by (rule fire_loop_Stopped [OF loop [unfolded Stopped]])
    then show ?thesis using assms loop locked Stopped by (simp add: fire_def)
  next
    case (Finished d1 c1 a1)
    have "d1 = d \<and> c1 = ctx' \<and> s1 = s' \<and> a1"
      using assms loop locked Finished
      by (auto simp: fire_def withdrawn_def stops_def guards_an_effect_def split: if_splits)
    then show ?thesis using fire_loop_FinishedD [OF loop [unfolded Finished]] by blast
  next
    case (Crashed x)
    then show ?thesis using assms loop locked by (simp add: fire_def)
  qed
qed



text \<open>Fail closed and short-circuit. If the hooks before \<open>h\<close> let the call pass and \<open>h\<close> then raises,
  \<open>fire\<close> answers an error-severity deny decided by \<open>h\<close>; if \<open>h\<close> denies or asks for approval, \<open>fire\<close>
  answers that decision, decided by \<open>h\<close>. In both cases the world is left as \<open>h\<close> and its ledger row left
  it: no later hook runs.\<close>

theorem fire_stops_at_objection:
  assumes "k_init_locked k" and "k_hooks k hp = pre @ h # post"
    and "passes k env hp pre (drop_bot_id ctx) s tr c1 s1"
    and "hk_call h c1 s1 = (r, s2)"
    and "case r of Inl _ \<Rightarrow> True | Inr d \<Rightarrow> stops (hd_outcome d)"
  shows "\<exists>d c. fire k env hp ctx s =
           (Inr (d, c), snd (audit k env hp (hk_name h)
              (case r of Inl e \<Rightarrow> exc_decision (hk_name h) e | Inr d0 \<Rightarrow> d0) c1 s2))
         \<and> hd_decided_by d = Some (hk_name h)
         \<and> (case r of Inl _ \<Rightarrow> hd_outcome d = Deny \<and> hd_severity d = SevError
            | Inr d0 \<Rightarrow> d = d0\<lparr>hd_decided_by := Some (hk_name h)\<rparr>)"
proof -
  have loop: "fire_loop k env hp (k_hooks k hp) (decision Allow ''no hooks registered'') (drop_bot_id ctx)
      True s = fire_loop k env hp (h # post)
        (last_decision (decision Allow ''no hooks registered'') tr) c1 (none_lost tr \<and> True) s1"
    unfolding assms(2) by (rule fire_loop_passes [OF assms(3)])
  show ?thesis
  proof (cases r)
    case (Inl e)
    then show ?thesis
      using assms(1,4) loop by (simp add: fire_def Let_def exc_decision_def split: prod.splits)
  next
    case (Inr d0)
    have "\<exists>c. rebind (hk_name h) d0 c1 = Inr c"
      using assms(5) Inr by (intro rebind_no_transform) (auto simp: stops_def)
    then show ?thesis
      using assms(1,4,5) loop Inr by (auto simp: fire_def Let_def split: prod.splits)
  qed
qed

theorem fire_stops_at_objection_witness:
  "\<exists>d c. fire (init_lock ((new_kernel None)
        \<lparr>k_hooks := (\<lambda>_. [demo_hook ''a'' 20 Deny, demo_hook ''b'' 30 Allow])\<rparr>))
      demo_env PRE_TOOL_USE (demo_ctx PRE_TOOL_USE [] []) () = (Inr (d, c), ())
      \<and> hd_decided_by d = Some ''a''"
proof -
  let ?k = "init_lock ((new_kernel None)
      \<lparr>k_hooks := (\<lambda>_. [demo_hook ''a'' 20 Deny, demo_hook ''b'' 30 Allow])\<rparr>)"
  let ?c = "demo_ctx PRE_TOOL_USE [] []"
  have "passes ?k demo_env PRE_TOOL_USE [] (drop_bot_id ?c) () [] (drop_bot_id ?c) ()" by (rule pass_nil)
  from fire_stops_at_objection [OF _ _ this, of "demo_hook ''a'' 20 Deny" "[demo_hook ''b'' 30 Allow]"
      "Inr (decision Deny ''a'')" "()"]
  show ?thesis by (auto simp: init_lock_def new_kernel_def demo_hook_def stops_def)
qed

text \<open>An effect needs its ledger row. With a ledger configured, when every row of a firing is lost
  (neither the database nor the spool kept it) and at least one hook is registered, a firing that guards
  an effect never lets it go ahead.\<close>

theorem lost_ledger_blocks_effects:
  assumes "k_audit_log k = Some sink" and "\<And>e s. \<exists>x s'. sink e s = (Inl x, s')"
    and "k_hooks k hp \<noteq> []" and "fire k env hp ctx s = (Inr (d, ctx'), s')"
    and "guards_an_effect hp ctx'"
  shows "stops (hd_outcome d)"
proof (rule ccontr)
  assume go: "\<not> stops (hd_outcome d)"
  obtain tr s1 where tr: "passes k env hp (k_hooks k hp) (drop_bot_id ctx) s tr ctx' s1"
    and kept: "none_lost tr"
    using fire_goes_on [OF assms(4) go] assms(5) by blast
  obtain h hs where hooks: "k_hooks k hp = h # hs" using assms(3) by (cases "k_hooks k hp") auto
  have lost: "fst (audit k env hp n d c t) = Lost" for n d c t
    using assms(1,2) by (auto simp: audit_def Let_def split: prod.splits sum.splits option.splits)
      (metis Inl_Inr_False fst_conv)+
  from tr [unfolded hooks] show False
    by (rule passes_ConsE) (use kept lost in \<open>auto simp: none_lost_def, metis fst_conv\<close>)
qed

theorem lost_ledger_blocks_effects_witness:
  "stops (hd_outcome (fst (case fst (fire
      (init_lock ((new_kernel (Some (\<lambda>_ s. (Raise ''OSError'' ''disk full'', s))))
        \<lparr>k_hooks := (\<lambda>_. [demo_hook ''a'' 20 Allow])\<rparr>))
      demo_env PRE_EGRESS (demo_ctx PRE_EGRESS [] []) ()) of Inr r \<Rightarrow> r)))"
proof -
  let ?sink = "\<lambda>e s. (Raise ''OSError'' ''disk full'', s) :: int result \<times> unit"
  let ?k = "init_lock ((new_kernel (Some ?sink))\<lparr>k_hooks := (\<lambda>_. [demo_hook ''a'' 20 Allow])\<rparr>)"
  let ?c = "demo_ctx PRE_EGRESS [] []"
  have f: "fire ?k demo_env PRE_EGRESS ?c () = (Inr (withdrawn, ?c), ())"
    by (simp add: fire_def init_lock_def new_kernel_def demo_hook_def demo_ctx_def drop_bot_id_def
        audit_def rebind_def stops_def guards_an_effect_def Let_def)
  have "stops (hd_outcome withdrawn)"
    by (rule lost_ledger_blocks_effects [OF _ _ _ f, of ?sink])
      (auto simp: init_lock_def new_kernel_def guards_an_effect_def)
  then show ?thesis unfolding f by simp
qed

section \<open>The audit row\<close>

definition stamped_keys :: "string list" where
  "stamped_keys = [K_BOT_ID, K_CALL_ID, K_HELD_CALL_ID, K_TOOL_ERROR, K_PARENT_CALL_ID, K_ATTEMPT,
     K_REPLAY_OF, K_RESUMED_FROM_RUN]"

lemma copy_audited_has:
  "dhas (copy_audited payload row) key \<longleftrightarrow>
     dhas row key \<or> (key \<in> set AUDITED_PAYLOAD_KEYS \<and> dhas payload key)"
proof -
  have "dhas (fold (\<lambda>key row. if dhas payload key \<and> \<not> dhas row key
          then dset key (dget payload key) row else row) ks row) key
      \<longleftrightarrow> dhas row key \<or> (key \<in> set ks \<and> dhas payload key)" for ks
    by (induction ks arbitrary: row) auto
  then show ?thesis by (simp add: copy_audited_def)
qed

lemma map_of_dstamps:
  "distinct (map fst kvs) \<Longrightarrow>
   map_of (dstamps kvs d) key = (case map_of kvs key of Some x \<Rightarrow> x | None \<Rightarrow> map_of d key)"
proof (induction kvs arbitrary: d)
  case Nil
  then show ?case by (simp add: dstamps_def)
next
  case (Cons kx kvs)
  have step: "dstamps (kx # kvs) d = dstamps kvs (dstamp (fst kx) (snd kx) d)"
    by (simp add: dstamps_def)
  have "map_of kvs (fst kx) = None" using Cons.prems by (simp add: map_of_eq_None_iff)
  then show ?case
    using Cons.IH [of "dstamp (fst kx) (snd kx) d"] Cons.prems
    unfolding step by (cases kx) (auto simp: map_of_dstamp split: option.splits)
qed

lemma identity_stamps_keys [simp]:
  "map fst (identity_stamps env hp meta run_id bot_id) = stamped_keys"
  by (simp add: identity_stamps_def stamped_keys_def Let_def)

lemma distinct_stamped_keys [simp]: "distinct stamped_keys"
  by (simp add: stamped_keys_def)

lemma map_of_setdefault_other: "key \<noteq> k \<Longrightarrow> map_of (setdefault_opt k x d) key = map_of d key"
  by (simp add: setdefault_opt_def dsetdefault_def split: option.splits)

text \<open>A stamped key of a row holds its stamp, whatever was there before.\<close>

lemma audit_payload_stamped:
  assumes "key \<in> set stamped_keys"
  shows "map_of (audit_payload env hp d ctx bot_id) key =
         the (map_of (identity_stamps env hp (hc_metadata ctx) (hc_run_id ctx) bot_id) key)"
proof -
  let ?st = "identity_stamps env hp (hc_metadata ctx) (hc_run_id ctx) bot_id"
  have other: "key \<noteq> K_TURN_ID" "key \<noteq> ''session_id''" "key \<noteq> ''trace_id''"
    using assms by (auto simp: stamped_keys_def)
  have "key \<in> set (map fst ?st)" using assms by simp
  then obtain x where x: "map_of ?st key = Some x"
    by (metis list.set_map map_of_eq_None_iff not_None_eq)
  show ?thesis
    using other x by (simp add: audit_payload_def map_of_dstamp map_of_setdefault_other map_of_dstamps)
qed

lemma audit_payload_turn:
  "map_of (audit_payload env hp d ctx bot_id) K_TURN_ID = map_option PStr (ke_turn_id env)"
  by (simp add: audit_payload_def map_of_dstamp)

lemma audit_payload_unstamped:
  assumes "key \<notin> set stamped_keys" and "key \<notin> {''caller'', ''trace_id'', ''session_id'', K_TURN_ID}"
  shows "map_of (audit_payload env hp d ctx bot_id) key =
         map_of (copy_audited (hc_payload ctx) (hd_audit_metadata d)) key"
proof -
  have "map_of (identity_stamps env hp (hc_metadata ctx) (hc_run_id ctx) bot_id) key = None"
    using assms(1) by (metis identity_stamps_keys list.set_map map_of_eq_None_iff)
  then show ?thesis
    using assms by (simp add: audit_payload_def map_of_dstamp map_of_setdefault_other map_of_dstamps)
qed

text \<open>C4. What reaches the ledger. Every key of an audit row is one the hook put in its own audit
  metadata, one of the whitelisted payload keys, or one of the identity keys the kernel stamps. So a
  call's arguments, prompt and result never reach a row through the payload.\<close>

theorem audit_row_keys_whitelisted:
  assumes "dhas (audit_payload env hp d ctx bot_id) key"
  shows "dhas (hd_audit_metadata d) key
         \<or> (key \<in> set AUDITED_PAYLOAD_KEYS \<and> dhas (hc_payload ctx) key \<and> key \<notin> {''args'', ''prompt'', ''result''})
         \<or> key \<in> set stamped_keys \<union> {''caller'', ''trace_id'', ''session_id'', K_TURN_ID}"
proof -
  have w: "''args'' \<notin> set AUDITED_PAYLOAD_KEYS" "''prompt'' \<notin> set AUDITED_PAYLOAD_KEYS"
    "''result'' \<notin> set AUDITED_PAYLOAD_KEYS"
    by (simp_all add: AUDITED_PAYLOAD_KEYS_def)
  show ?thesis
  proof (cases "key \<in> set stamped_keys \<union> {''caller'', ''trace_id'', ''session_id'', K_TURN_ID}")
    case False
    then have "dhas (copy_audited (hc_payload ctx) (hd_audit_metadata d)) key"
      using assms audit_payload_unstamped [of key env hp d ctx bot_id]
      unfolding dhas_def Un_iff by metis
    then show ?thesis using w unfolding copy_audited_has insert_iff empty_iff by metis
  qed (rule disjI2, rule disjI2)
qed

theorem audit_row_keys_whitelisted_witness:
  "''tool_name'' \<in> set AUDITED_PAYLOAD_KEYS
   \<and> \<not> dhas (audit_payload demo_env PRE_TOOL_USE (decision Allow ''x'')
        (demo_ctx PRE_TOOL_USE [(''tool_name'', PStr ''rm''), (''args'', PDict [])] []) None) ''args''"
  using audit_row_keys_whitelisted [of demo_env PRE_TOOL_USE "decision Allow ''x''"
      "demo_ctx PRE_TOOL_USE [(''tool_name'', PStr ''rm''), (''args'', PDict [])] []" None "''args''"]
  by (auto simp: stamped_keys_def AUDITED_PAYLOAD_KEYS_def)

text \<open>C5. A row's identity cannot be forged. The bot, call, held call, tool error, parent, attempt,
  replay, resumed run and turn on a row depend only on the harness's own metadata, registries and
  scopes: two firings with the same metadata and run stamp the same identity whatever the payloads, the
  arguments and the hooks' audit metadata hold.\<close>

theorem audit_identity_unforgeable:
  assumes "hc_metadata ctx = hc_metadata ctx2" and "hc_run_id ctx = hc_run_id ctx2"
    and "key \<in> {K_BOT_ID, K_CALL_ID, K_HELD_CALL_ID, K_TOOL_ERROR, K_PARENT_CALL_ID, K_ATTEMPT, K_REPLAY_OF,
               K_RESUMED_FROM_RUN, K_TURN_ID}"
  shows "map_of (audit_payload env hp d ctx bot_id) key = map_of (audit_payload env hp d2 ctx2 bot_id) key"
proof (cases "key = K_TURN_ID")
  case True
  then show ?thesis by (simp add: audit_payload_turn)
next
  case False
  then have "key \<in> set stamped_keys" using assms(3) by (auto simp: stamped_keys_def)
  then show ?thesis using assms(1,2) by (simp add: audit_payload_stamped)
qed

theorem audit_identity_unforgeable_witness:
  "map_of (audit_payload (demo_env :: unit kernel_env) PRE_TOOL_USE
      ((decision Allow ''x'')\<lparr>hd_audit_metadata := [(K_BOT_ID, PStr ''forged'')]\<rparr>)
      (demo_ctx PRE_TOOL_USE [] []) (Some ''bot1'')) K_BOT_ID
   = map_of (audit_payload (demo_env :: unit kernel_env) PRE_TOOL_USE (decision Allow ''x'')
      (demo_ctx PRE_TOOL_USE [(''bot_id'', PStr ''forged'')] []) (Some ''bot1'')) K_BOT_ID"
  by (rule audit_identity_unforgeable) (simp_all add: demo_ctx_def)

end
