(* ===== verification/Audit_Sequence.thy ===== *)
theory Audit_Sequence
  imports Interfaces
begin

text \<open>
  The counters behind the audit ledger (\<open>kernel/governance/audit/sequence.py\<close>): which writer wrote a
  row and in what order, the sequence numbers whose write failed, and the runs of them a later write
  records. The process-wide registry is the record \<^verbatim>\<open>seq_state\<close>; it is keyed by the database file. A
  writer object is known by its id: ids are minted once, so \<open>_writers.get(key) is writer\<close> is equality of
  ids. The ULID generator is a stream of ids (\<open>ulids\<close>) and the number of ids taken from it so far.
\<close>

section \<open>State\<close>

record missing =
  ms_seq :: int
  ms_cause :: string
  ms_spooled :: bool

record writer =
  wr_id :: string
  wr_next_seq :: int
  wr_started :: bool
  wr_missing :: "missing list"

record gap_range =
  gr_first :: int
  gr_last :: int
  gr_causes :: "(string \<times> int) list"
  gr_spooled :: int
  gr_lost :: int
  gr_items :: "missing list"

record write_stats =
  st_lost :: int
  st_spooled :: int
  st_last_cause :: "string option"

record seq_state =
  ss_writers :: "string \<Rightarrow> writer option"
  ss_lost :: int
  ss_spooled :: int
  ss_last_cause :: "string option"
  ss_minted :: nat

definition KIND_GAP :: string where "KIND_GAP = ''gap''"
definition KIND_WRITER :: string where "KIND_WRITER = ''writer''"
definition KIND_COMPACTION :: string where "KIND_COMPACTION = ''compaction''"
definition WRITER_START :: string where "WRITER_START = ''writer.start''"
definition WRITER_CLOSE :: string where "WRITER_CLOSE = ''writer.close''"
definition START_SEQ :: int where "START_SEQ = 0"
definition MAX_GAPS_PER_WRITE :: nat where "MAX_GAPS_PER_WRITE = 16"

text \<open>The sorted copy of a causes dictionary and the payload of a gap row.\<close>

definition gap_payload :: "gap_range \<Rightarrow> dict" where
  "gap_payload g =
     [(''first_missing'', PInt (gr_first g)), (''last_missing'', PInt (gr_last g)),
      (''count'', PInt (gr_last g - gr_first g + 1)),
      (''causes'', PDict (map (\<lambda>kv. (fst kv, PInt (snd kv))) (sort_key fst (gr_causes g)))),
      (''spooled'', PInt (gr_spooled g)), (''lost'', PInt (gr_lost g))]"

section \<open>Operations\<close>

definition new_ulid :: "(nat \<Rightarrow> string) \<Rightarrow> seq_state \<Rightarrow> string \<times> seq_state" where
  "new_ulid ulids ss = (ulids (ss_minted ss), ss\<lparr>ss_minted := Suc (ss_minted ss)\<rparr>)"

definition set_writer :: "string \<Rightarrow> writer \<Rightarrow> seq_state \<Rightarrow> seq_state" where
  "set_writer key w ss = ss\<lparr>ss_writers := (ss_writers ss)(key \<mapsto> w)\<rparr>"

definition is_writer :: "string \<Rightarrow> string \<Rightarrow> seq_state \<Rightarrow> bool" where
  "is_writer key wid ss = (case ss_writers ss key of None \<Rightarrow> False | Some w \<Rightarrow> wr_id w = wid)"

definition writer_for :: "(nat \<Rightarrow> string) \<Rightarrow> string \<Rightarrow> seq_state \<Rightarrow> writer \<times> seq_state" where
  "writer_for ulids key ss =
     (case ss_writers ss key of
        Some w \<Rightarrow> (w, ss)
      | None \<Rightarrow>
          let (wid, ss1) = new_ulid ulids ss;
              w = \<lparr>wr_id = wid, wr_next_seq = 1, wr_started = False, wr_missing = []\<rparr>
          in (w, set_writer key w ss1))"

definition allocate :: "(nat \<Rightarrow> string) \<Rightarrow> string \<Rightarrow> seq_state \<Rightarrow> (string \<times> int) \<times> seq_state" where
  "allocate ulids key ss =
     (let (w, ss1) = writer_for ulids key ss
      in ((wr_id w, wr_next_seq w), set_writer key (w\<lparr>wr_next_seq := wr_next_seq w + 1\<rparr>) ss1))"

definition update_writer :: "string \<Rightarrow> string \<Rightarrow> (writer \<Rightarrow> writer) \<Rightarrow> seq_state \<Rightarrow> seq_state" where
  "update_writer key wid f ss =
     (case ss_writers ss key of
        None \<Rightarrow> ss
      | Some w \<Rightarrow> if wr_id w = wid then set_writer key (f w) ss else ss)"

definition mark_started :: "string \<Rightarrow> string \<Rightarrow> seq_state \<Rightarrow> seq_state" where
  "mark_started key wid ss = update_writer key wid (\<lambda>w. w\<lparr>wr_started := True\<rparr>) ss"

definition note_failure ::
  "string \<Rightarrow> string \<Rightarrow> int \<Rightarrow> pyexn \<Rightarrow> bool \<Rightarrow> bool \<Rightarrow> seq_state \<Rightarrow> seq_state"
where
  "note_failure key wid seq exc spooled own ss =
     (let item = \<lparr>ms_seq = seq, ms_cause = exn_class exc, ms_spooled = spooled\<rparr>;
          ss1 = (update_writer key wid (\<lambda>w. w\<lparr>wr_missing := wr_missing w @ [item]\<rparr>) ss)
                  \<lparr>ss_last_cause := Some (exn_class exc)\<rparr>
      in if own then ss1
         else if spooled then ss1\<lparr>ss_spooled := ss_spooled ss1 + 1\<rparr>
         else ss1\<lparr>ss_lost := ss_lost ss1 + 1\<rparr>)"

text \<open>Runs of consecutive numbers: \<open>add_run\<close> is one turn of the loop.\<close>

definition add_run :: "missing list list \<Rightarrow> missing \<Rightarrow> missing list list" where
  "add_run runs item =
     (if runs \<noteq> [] \<and> last runs \<noteq> [] \<and> ms_seq item = ms_seq (last (last runs)) + 1
      then butlast runs @ [last runs @ [item]] else runs @ [[item]])"

definition runs_of :: "missing list \<Rightarrow> missing list list" where
  "runs_of items = foldl add_run [] (sort_key ms_seq items)"

fun count_cause :: "string \<Rightarrow> (string \<times> int) list \<Rightarrow> (string \<times> int) list" where
  "count_cause c [] = [(c, 1)]"
| "count_cause c ((c', n) # rest) = (if c' = c then (c, n + 1) # rest else (c', n) # count_cause c rest)"

definition gap_of_run :: "missing list \<Rightarrow> gap_range" where
  "gap_of_run run =
     (let spooled = int (length (filter ms_spooled run))
      in \<lparr>gr_first = ms_seq (hd run), gr_last = ms_seq (last run),
          gr_causes = foldl (\<lambda>cs item. count_cause (ms_cause item) cs) [] run,
          gr_spooled = spooled, gr_lost = int (length run) - spooled, gr_items = run\<rparr>)"

definition claim_gaps :: "string \<Rightarrow> string \<Rightarrow> seq_state \<Rightarrow> gap_range list \<times> seq_state" where
  "claim_gaps key wid ss =
     (case ss_writers ss key of
        None \<Rightarrow> ([], ss)
      | Some w \<Rightarrow>
          if wr_id w \<noteq> wid \<or> wr_missing w = [] then ([], ss)
          else
            let taken = take MAX_GAPS_PER_WRITE (runs_of (wr_missing w));
                claimed = map ms_seq (concat taken)
            in (map gap_of_run taken,
                set_writer key (w\<lparr>wr_missing := filter (\<lambda>m. ms_seq m \<notin> set claimed) (wr_missing w)\<rparr>) ss))"

definition restore_gaps :: "string \<Rightarrow> string \<Rightarrow> gap_range list \<Rightarrow> seq_state \<Rightarrow> seq_state" where
  "restore_gaps key wid gaps ss =
     update_writer key wid (\<lambda>w. w\<lparr>wr_missing := wr_missing w @ concat (map gr_items gaps)\<rparr>) ss"

definition stats :: "seq_state \<Rightarrow> write_stats" where
  "stats ss = \<lparr>st_lost = ss_lost ss, st_spooled = ss_spooled ss, st_last_cause = ss_last_cause ss\<rparr>"

text \<open>A new process image: \<open>fork\<close> in the child. Ids are minted again on the next write.\<close>

definition after_fork_in_child :: "seq_state \<Rightarrow> seq_state" where
  "after_fork_in_child ss =
     ss\<lparr>ss_writers := (\<lambda>_. None), ss_lost := 0, ss_spooled := 0, ss_last_cause := None\<rparr>"

definition empty_seq :: seq_state where
  "empty_seq = \<lparr>ss_writers = (\<lambda>_. None), ss_lost = 0, ss_spooled = 0, ss_last_cause = None, ss_minted = 0\<rparr>"

section \<open>Runs cover exactly the numbers they are made of\<close>

definition run_ok :: "missing list \<Rightarrow> bool" where
  "run_ok run \<longleftrightarrow> run \<noteq> [] \<and> map ms_seq run = [ms_seq (hd run)..ms_seq (last run)]"

lemma run_ok_single [simp]: "run_ok [m]"
  by (simp add: run_ok_def)

lemma run_ok_le:
  assumes "run_ok run"
  shows "ms_seq (hd run) \<le> ms_seq (last run)"
proof (rule ccontr)
  assume "\<not> ?thesis"
  then have "map ms_seq run = []" using assms unfolding run_ok_def by simp
  then show False using assms unfolding run_ok_def by simp
qed

lemma run_ok_snoc:
  assumes "run_ok run" "ms_seq m = ms_seq (last run) + 1"
  shows "run_ok (run @ [m])"
  using assms run_ok_le [OF assms(1)] by (auto simp: run_ok_def upto_rec2)

lemma run_ok_set: "run_ok run \<Longrightarrow> ms_seq ` set run = {ms_seq (hd run)..ms_seq (last run)}"
  unfolding run_ok_def by (metis set_map set_upto)

lemma add_run_ok:
  assumes "\<forall>r \<in> set runs. run_ok r"
  shows "\<forall>r \<in> set (add_run runs m). run_ok r"
proof (cases "runs \<noteq> [] \<and> last runs \<noteq> [] \<and> ms_seq m = ms_seq (last (last runs)) + 1")
  case True
  then have "run_ok (last runs)" using assms by auto
  then have "run_ok (last runs @ [m])" using True by (auto intro: run_ok_snoc)
  then show ?thesis using True assms by (auto simp: add_run_def dest: in_set_butlastD)
next
  case False
  then have "add_run runs m = runs @ [[m]]" by (auto simp: add_run_def)
  then show ?thesis using assms by auto
qed

lemma concat_add_run: "concat (add_run runs m) = concat runs @ [m]"
proof (cases "runs = []")
  case True
  then show ?thesis by (simp add: add_run_def)
next
  case False
  then have "concat (butlast runs @ [last runs]) = concat runs" by simp
  then show ?thesis by (auto simp: add_run_def)
qed

lemma runs_of_ok: "r \<in> set (runs_of items) \<Longrightarrow> run_ok r"
proof -
  have "(\<forall>r \<in> set runs. run_ok r) \<Longrightarrow> \<forall>r \<in> set (foldl add_run runs xs). run_ok r" for runs xs
  proof (induction xs arbitrary: runs)
    case Nil
    then show ?case by simp
  next
    case (Cons a xs)
    show ?case using Cons.IH [OF add_run_ok [OF Cons.prems]] by simp
  qed
  from this [of "[]"] show "r \<in> set (runs_of items) \<Longrightarrow> run_ok r" by (simp add: runs_of_def)
qed

lemma concat_runs_of: "concat (runs_of items) = sort_key ms_seq items"
proof -
  have "concat (foldl add_run runs xs) = concat runs @ xs" for runs xs
    by (induction xs arbitrary: runs) (simp_all add: concat_add_run)
  then show ?thesis by (simp add: runs_of_def)
qed

text \<open>The numbers a gap row speaks for.\<close>

definition gap_span :: "gap_range \<Rightarrow> int set" where
  "gap_span g = {gr_first g..gr_last g}"

lemma gap_of_run_span: "run_ok run \<Longrightarrow> gap_span (gap_of_run run) = ms_seq ` set run"
  by (simp add: gap_span_def gap_of_run_def Let_def run_ok_set)

lemma gap_of_run_items [simp]: "gr_items (gap_of_run run) = run"
  by (simp add: gap_of_run_def Let_def)

text \<open>A gap that was claimed: its items are the numbers of its span.\<close>

definition gap_ok :: "gap_range \<Rightarrow> bool" where
  "gap_ok g \<longleftrightarrow> gap_span g = ms_seq ` set (gr_items g)"

definition missing_seqs :: "writer \<Rightarrow> int set" where
  "missing_seqs w = ms_seq ` set (wr_missing w)"

lemma claim_gaps_cases:
  assumes "ss_writers ss key = Some w" "claim_gaps key (wr_id w) ss = (gaps, ss')"
  obtains w' where "ss' = set_writer key w' ss \<or> (ss' = ss \<and> w' = w)"
    "wr_id w' = wr_id w" "wr_next_seq w' = wr_next_seq w" "wr_started w' = wr_started w"
    "\<forall>g \<in> set gaps. gap_ok g"
    "missing_seqs w = missing_seqs w' \<union> (\<Union>g \<in> set gaps. gap_span g)"
proof (cases "wr_missing w = []")
  case True
  then have "gaps = [] \<and> ss' = ss" using assms by (simp add: claim_gaps_def)
  then show ?thesis using that [of w] by simp
next
  case False
  define taken where "taken = take MAX_GAPS_PER_WRITE (runs_of (wr_missing w))"
  define w' where "w' = w\<lparr>wr_missing := filter (\<lambda>m. ms_seq m \<notin> set (map ms_seq (concat taken))) (wr_missing w)\<rparr>"
  have res: "gaps = map gap_of_run taken" "ss' = set_writer key w' ss"
    using assms False by (auto simp: claim_gaps_def Let_def taken_def w'_def)
  have ok: "run_ok r" if "r \<in> set taken" for r
    using that unfolding taken_def by (meson in_set_takeD runs_of_ok)
  have "(\<Union>g \<in> set gaps. gap_span g) = ms_seq ` set (concat taken)"
    using ok by (auto simp: res gap_of_run_span)
  moreover have "set (concat taken) \<subseteq> set (wr_missing w)"
    using arg_cong [OF concat_runs_of [of "wr_missing w"], of set] set_take_subset
    unfolding taken_def by fastforce
  ultimately have "missing_seqs w = missing_seqs w' \<union> (\<Union>g \<in> set gaps. gap_span g)"
    by (auto simp: missing_seqs_def w'_def)
  then show ?thesis
    using that [of w'] ok by (auto simp: res w'_def gap_ok_def gap_of_run_span)
qed

text \<open>With at most \<^const>\<open>MAX_GAPS_PER_WRITE\<close> runs nothing is left behind.\<close>

lemma claim_gaps_takes_all:
  assumes "ss_writers ss key = Some w" "length (runs_of (wr_missing w)) \<le> MAX_GAPS_PER_WRITE"
    and "claim_gaps key (wr_id w) ss = (gaps, ss')"
  shows "\<exists>w'. ss_writers ss' key = Some w' \<and> wr_missing w' = []"
proof (cases "wr_missing w = []")
  case True
  then show ?thesis using assms by (auto simp: claim_gaps_def)
next
  case False
  have "set (map ms_seq (concat (runs_of (wr_missing w)))) = ms_seq ` set (wr_missing w)"
    by (simp add: concat_runs_of)
  then have "filter (\<lambda>m. ms_seq m \<notin> set (map ms_seq (concat (runs_of (wr_missing w))))) (wr_missing w) = []"
    by (auto simp: filter_empty_conv)
  then show ?thesis using assms False by (auto simp: claim_gaps_def Let_def set_writer_def)
qed

section \<open>Frames\<close>

lemma set_writer_simps [simp]:
  "ss_writers (set_writer key w ss) = (ss_writers ss)(key \<mapsto> w)"
  "ss_minted (set_writer key w ss) = ss_minted ss"
  "ss_lost (set_writer key w ss) = ss_lost ss"
  "ss_spooled (set_writer key w ss) = ss_spooled ss"
  by (simp_all add: set_writer_def)

lemma update_writer_hit:
  "ss_writers ss key = Some w \<Longrightarrow> wr_id w = wid
    \<Longrightarrow> ss_writers (update_writer key wid f ss) key = Some (f w)"
  by (simp add: update_writer_def)

lemma update_writer_frame [simp]:
  "ss_minted (update_writer key wid f ss) = ss_minted ss"
  "ss_lost (update_writer key wid f ss) = ss_lost ss"
  "ss_spooled (update_writer key wid f ss) = ss_spooled ss"
  by (simp_all add: update_writer_def split: option.splits)

lemma note_failure_writer:
  "ss_writers ss key = Some w \<Longrightarrow> wr_id w = wid
    \<Longrightarrow> ss_writers (note_failure key wid seq exc spooled own ss) key =
          Some (w\<lparr>wr_missing := wr_missing w @ [\<lparr>ms_seq = seq, ms_cause = exn_class exc, ms_spooled = spooled\<rparr>]\<rparr>)"
  by (simp add: note_failure_def Let_def update_writer_hit)

lemma note_failure_frame [simp]:
  "ss_minted (note_failure key wid seq exc spooled own ss) = ss_minted ss"
  by (simp add: note_failure_def Let_def)

lemma note_failure_counts [simp]:
  "ss_lost (note_failure key wid seq exc spooled own ss) = ss_lost ss + (if \<not> own \<and> \<not> spooled then 1 else 0)"
  "ss_spooled (note_failure key wid seq exc spooled own ss) = ss_spooled ss + (if \<not> own \<and> spooled then 1 else 0)"
  by (simp_all add: note_failure_def Let_def)

lemma restore_gaps_writer:
  "ss_writers ss key = Some w \<Longrightarrow> wr_id w = wid
    \<Longrightarrow> ss_writers (restore_gaps key wid gaps ss) key =
          Some (w\<lparr>wr_missing := wr_missing w @ concat (map gr_items gaps)\<rparr>)"
  by (simp add: restore_gaps_def update_writer_hit)

lemma restore_gaps_frame [simp]:
  "ss_minted (restore_gaps key wid gaps ss) = ss_minted ss"
  "ss_lost (restore_gaps key wid gaps ss) = ss_lost ss"
  "ss_spooled (restore_gaps key wid gaps ss) = ss_spooled ss"
  by (simp_all add: restore_gaps_def)

lemma mark_started_writer:
  "ss_writers ss key = Some w \<Longrightarrow> wr_id w = wid
    \<Longrightarrow> ss_writers (mark_started key wid ss) key = Some (w\<lparr>wr_started := True\<rparr>)"
  by (simp add: mark_started_def update_writer_hit)

lemma mark_started_frame [simp]:
  "ss_minted (mark_started key wid ss) = ss_minted ss"
  "ss_lost (mark_started key wid ss) = ss_lost ss"
  "ss_spooled (mark_started key wid ss) = ss_spooled ss"
  by (simp_all add: mark_started_def)

text \<open>What handing out a number does: the writer exists afterwards, the number was its next one.\<close>

lemma allocate_known:
  "ss_writers ss key = Some w \<Longrightarrow>
    allocate ulids key ss =
      ((wr_id w, wr_next_seq w), set_writer key (w\<lparr>wr_next_seq := wr_next_seq w + 1\<rparr>) ss)"
  by (simp add: allocate_def writer_for_def)

lemma allocate_new:
  "ss_writers ss key = None \<Longrightarrow>
    allocate ulids key ss =
      ((ulids (ss_minted ss), 1),
       set_writer key \<lparr>wr_id = ulids (ss_minted ss), wr_next_seq = 2, wr_started = False, wr_missing = []\<rparr>
         (ss\<lparr>ss_minted := Suc (ss_minted ss)\<rparr>))"
  by (simp add: allocate_def writer_for_def new_ulid_def set_writer_def Let_def)

end
