(* ===== verification/Audit_Spool.thy ===== *)
theory Audit_Spool
  imports Interfaces "HOL-Library.Multiset"
begin

text \<open>
  The spool of the audit ledger (\<open>kernel/governance/audit/spool.py\<close>): the file of JSON lines that keeps a
  row the database would not take, and the drain that replays it.

  The file is a list of lines, or absent. A line that is JSON text is kept as the value \<open>json.loads\<close> gives
  (\<open>json.dumps(..., sort_keys=True)\<close> orders the keys of every object: \<^verbatim>\<open>json_sorted\<close>); any other text is \<open>Raw\<close>.
  Every system call that can fail is an argument. \<open>append\<close> does not look at what \<open>os.write\<close> returns, so a
  write may also put down only a part of the line and no newline (\<open>Torn\<close>); the next line is then glued to it.
  Short writes of \<open>_rewrite\<close> are not modelled, and the lock is what makes each operation one step.
\<close>

section \<open>JSON values as the file keeps them\<close>

fun json_sorted :: "pyval \<Rightarrow> pyval" where
  "json_sorted (PList xs) = PList (map json_sorted xs)"
| "json_sorted (PDict d) = PDict (sort_key fst (map (\<lambda>kv. (fst kv, json_sorted (snd kv))) d))"
| "json_sorted PNone = PNone"
| "json_sorted (PBool b) = PBool b"
| "json_sorted (PInt i) = PInt i"
| "json_sorted (PFloat q) = PFloat q"
| "json_sorted (PStr s) = PStr s"

definition sorted_dict :: "dict \<Rightarrow> dict" where
  "sorted_dict d = sort_key fst (map (\<lambda>kv. (fst kv, json_sorted (snd kv))) d)"

lemma json_sorted_PDict [simp]: "json_sorted (PDict d) = PDict (sorted_dict d)"
  by (simp add: sorted_dict_def)

declare json_sorted.simps(2) [simp del]

lemma map_of_eq_hd_filter:
  "map_of d k = (case filter (\<lambda>kv. fst kv = k) d of [] \<Rightarrow> None | kv # _ \<Rightarrow> Some (snd kv))"
  by (induction d) auto

lemma map_of_sort_key: "map_of (sort_key fst d) k = map_of d k"
  by (simp add: map_of_eq_hd_filter sort_key_stable)

lemma map_of_map_snd: "map_of (map (\<lambda>kv. (fst kv, f (snd kv))) d) k = map_option f (map_of d k)"
  by (induction d) auto

lemma map_of_sorted_dict: "map_of (sorted_dict d) k = map_option json_sorted (map_of d k)"
  by (simp add: sorted_dict_def map_of_sort_key map_of_map_snd)

lemma dget_sorted_dict [simp]: "dget (sorted_dict d) k = json_sorted (dget d k)"
  by (simp add: dget_def map_of_sorted_dict split: option.splits)

lemma keys_sorted_dict [simp]: "fst ` set (sorted_dict d) = fst ` set d"
  by (force simp: sorted_dict_def)

lemma insort_key_map_snd:
  "insort_key fst (fst x, f (snd x)) (map (\<lambda>kv. (fst kv, f (snd kv))) d) =
     map (\<lambda>kv. (fst kv, f (snd kv))) (insort_key fst x d)"
  by (induction d) auto

lemma sort_key_map_snd:
  "sort_key fst (map (\<lambda>kv. (fst kv, f (snd kv))) d) = map (\<lambda>kv. (fst kv, f (snd kv))) (sort_key fst d)"
  by (induction d) (simp_all add: insort_key_map_snd)

lemma json_sorted_idem [simp]: "json_sorted (json_sorted v) = json_sorted v"
proof (induction v rule: json_sorted.induct)
  case (2 d)
  then have *: "map (\<lambda>kv. (fst kv, json_sorted (json_sorted (snd kv)))) d = map (\<lambda>kv. (fst kv, json_sorted (snd kv))) d"
    by auto
  have "sorted_dict (sorted_dict d) = sort_key fst (sort_key fst (map (\<lambda>kv. (fst kv, json_sorted (json_sorted (snd kv)))) d))"
    by (simp add: sorted_dict_def sort_key_map_snd [of json_sorted]
        sort_key_map_snd [of "\<lambda>v. json_sorted (json_sorted v)"] comp_def)
  also have "\<dots> = sorted_dict d"
    unfolding * by (simp add: sorted_dict_def sort_key_id_if_sorted)
  finally show ?case by simp
qed simp_all

lemma sorted_dict_idem [simp]: "sorted_dict (sorted_dict d) = sorted_dict d"
  using json_sorted_idem [of "PDict d"] by simp

section \<open>The file\<close>

datatype spool_line = Json pyval | Raw string | Torn string

record spool =
  sp_lines :: "spool_line list option"
  sp_rejected :: "spool_line list"

record spool_state =
  sps_pending :: nat
  sps_rejected :: nat

datatype append_fault = Wrote | Refused pyexn | SyncFailed pyexn | ShortWrite nat

record drain_faults =
  df_lock :: "pyexn option"
  df_read :: bool
  df_reject :: "pyexn option"
  df_rewrite :: "pyexn option"

definition no_drain_faults :: drain_faults where
  "no_drain_faults = \<lparr>df_lock = None, df_read = False, df_reject = None, df_rewrite = None\<rparr>"

section \<open>What a line must be\<close>

datatype pytype = TStr | TNone | TInt | TFloat | TDict

fun isinstance :: "pyval \<Rightarrow> pytype \<Rightarrow> bool" where
  "isinstance (PStr _) t = (t = TStr)"
| "isinstance PNone t = (t = TNone)"
| "isinstance (PInt _) t = (t = TInt)"
| "isinstance (PBool _) t = (t = TInt)"
| "isinstance (PFloat _) t = (t = TFloat)"
| "isinstance (PDict _) t = (t = TDict)"
| "isinstance (PList _) t = False"

definition SPOOL_FIELDS :: "(string \<times> pytype list) list" where
  "SPOOL_FIELDS =
     [(''record_id'', [TStr]), (''writer_id'', [TStr]), (''writer_seq'', [TInt]), (''kind'', [TStr, TNone]),
      (''ts'', [TStr]), (''run_id'', [TStr]), (''step_id'', [TInt, TNone]), (''agent_type'', [TStr]),
      (''hook_point'', [TStr]), (''plugin'', [TStr]), (''decision'', [TStr]),
      (''classification'', [TStr, TNone]), (''tier'', [TStr, TNone]),
      (''cost_usd'', [TInt, TFloat, TNone]), (''severity'', [TStr]), (''reason'', [TStr]),
      (''payload'', [TDict])]"

definition ulid_char :: "char \<Rightarrow> bool" where
  "ulid_char c = (char_in 48 57 c \<or> char_in 65 72 c \<or> char_in 74 75 c \<or> char_in 77 78 c \<or> char_in 80 84 c
                  \<or> char_in 86 90 c)"

definition is_ulid :: "string \<Rightarrow> bool" where
  "is_ulid s = (length s = 26 \<and> list_all ulid_char s)"

definition is_bool :: "pyval \<Rightarrow> bool" where
  "is_bool v = (case v of PBool _ \<Rightarrow> True | _ \<Rightarrow> False)"

definition str_field :: "dict \<Rightarrow> string \<Rightarrow> string" where
  "str_field d k = (case dget d k of PStr s \<Rightarrow> s | _ \<Rightarrow> [])"

definition int_field :: "dict \<Rightarrow> string \<Rightarrow> int" where
  "int_field d k = (case dget d k of PInt i \<Rightarrow> i | _ \<Rightarrow> 0)"

definition types_ok :: "dict \<Rightarrow> bool" where
  "types_ok d = list_all (\<lambda>(name, types). list_ex (isinstance (dget d name)) types \<and> \<not> is_bool (dget d name))
                  SPOOL_FIELDS"

definition validate :: "pyval \<Rightarrow> dict option" where
  "validate line =
     (case line of
        PDict d \<Rightarrow>
          if set (map fst d) \<noteq> set (map fst SPOOL_FIELDS) then None
          else if \<not> types_ok d then None
          else if \<not> is_ulid (str_field d ''record_id'') \<or> \<not> is_ulid (str_field d ''writer_id'') then None
          else if int_field d ''writer_seq'' < 0 then None
          else Some d
      | _ \<Rightarrow> None)"

definition parse_line :: "spool_line \<Rightarrow> dict option" where
  "parse_line l = (case l of Json v \<Rightarrow> validate v | Raw _ \<Rightarrow> None | Torn _ \<Rightarrow> None)"

definition blank :: "spool_line \<Rightarrow> bool" where
  "blank l = (case l of Json _ \<Rightarrow> False | Raw s \<Rightarrow> strip s = [] | Torn s \<Rightarrow> strip s = [])"

section \<open>Operations\<close>

text \<open>\<open>O_APPEND\<close>: the bytes go to the end of the file, after a torn line without a newline.\<close>

definition add_text :: "spool_line list \<Rightarrow> string \<Rightarrow> spool_line \<Rightarrow> bool \<Rightarrow> spool_line list" where
  "add_text lines txt line newline =
     (if lines = [] then [line]
      else case last lines of
             Torn t \<Rightarrow> butlast lines @ [(if newline then Raw else Torn) (t @ txt)]
           | _ \<Rightarrow> lines @ [line])"

definition lines_of :: "spool \<Rightarrow> spool_line list" where
  "lines_of sp = (case sp_lines sp of None \<Rightarrow> [] | Some ls \<Rightarrow> ls)"

definition append_line :: "append_fault \<Rightarrow> dict \<Rightarrow> spool \<Rightarrow> unit result \<times> spool" where
  "append_line f record sp =
     (let v = json_sorted (PDict record); txt = json_dumps v;
          whole = sp\<lparr>sp_lines := Some (add_text (lines_of sp) txt (Json v) True)\<rparr>
      in case f of
           Refused e \<Rightarrow> (Inl e, sp)
         | SyncFailed e \<Rightarrow> (Inl e, whole)
         | Wrote \<Rightarrow> (Inr (), whole)
         | ShortWrite n \<Rightarrow>
             (let part = take (min n (length txt - 1)) txt
              in (Inr (), sp\<lparr>sp_lines := Some (add_text (lines_of sp) part (Torn part) False)\<rparr>)))"

definition count_lines :: "spool_line list \<Rightarrow> nat" where
  "count_lines ls = length (filter (Not \<circ> blank) ls)"

definition spool_state_of :: "spool \<Rightarrow> spool_state" where
  "spool_state_of sp = \<lparr>sps_pending = count_lines (lines_of sp), sps_rejected = count_lines (sp_rejected sp)\<rparr>"

fun split_valid :: "spool_line list \<Rightarrow> dict list \<times> spool_line list" where
  "split_valid [] = ([], [])"
| "split_valid (l # ls) =
     (let (good, bad) = split_valid ls in
      if blank l then (good, bad)
      else case parse_line l of None \<Rightarrow> (good, l # bad) | Some d \<Rightarrow> (d # good, bad))"

definition read_valid :: "drain_faults \<Rightarrow> spool \<Rightarrow> dict list \<times> spool_line list" where
  "read_valid f sp = (if df_read f then ([], []) else split_valid (lines_of sp))"

definition rewrite :: "drain_faults \<Rightarrow> dict list \<Rightarrow> spool \<Rightarrow> unit result \<times> spool" where
  "rewrite f records sp =
     (case df_rewrite f of
        Some e \<Rightarrow> (Inl e, sp)
      | None \<Rightarrow>
          (Inr (), sp\<lparr>sp_lines := (if records = [] then None
                                   else Some (map (\<lambda>r. Json (json_sorted (PDict r))) records))\<rparr>))"

text \<open>The end of a drain: replay the good lines, then write the file anew. \<open>bad\<close> is already set aside.\<close>

definition drain_apply ::
  "drain_faults \<Rightarrow> (dict list \<Rightarrow> 'w \<Rightarrow> bool result \<times> 'w) \<Rightarrow> dict list \<Rightarrow> spool_line list \<Rightarrow> spool \<Rightarrow> 'w
    \<Rightarrow> nat result \<times> spool \<times> 'w"
where
  "drain_apply f app good bad sp w =
     (case (if good = [] then (Inr True, w) else app good w) of
        (Inl e, w1) \<Rightarrow> (Inl e, sp, w1)
      | (Inr False, w1) \<Rightarrow>
          if bad = [] then (Inr 0, sp, w1)
          else (case rewrite f good sp of
                  (Inl e, sp2) \<Rightarrow> (Inl e, sp2, w1)
                | (Inr _, sp2) \<Rightarrow> (Inr 0, sp2, w1))
      | (Inr True, w1) \<Rightarrow>
          (case rewrite f [] sp of
             (Inl e, sp2) \<Rightarrow> (Inl e, sp2, w1)
           | (Inr _, sp2) \<Rightarrow> (Inr (length good), sp2, w1)))"

definition drain ::
  "drain_faults \<Rightarrow> (dict list \<Rightarrow> 'w \<Rightarrow> bool result \<times> 'w) \<Rightarrow> spool \<Rightarrow> 'w \<Rightarrow> nat result \<times> spool \<times> 'w"
where
  "drain f app sp w =
     (if sp_lines sp = None then (Inr 0, sp, w)
      else case df_lock f of
        Some e \<Rightarrow> (Inl e, sp, w)
      | None \<Rightarrow>
          let (good, bad) = read_valid f sp in
          (case (if bad \<noteq> [] then df_reject f else None) of
             Some e \<Rightarrow> (Inl e, sp, w)
           | None \<Rightarrow> drain_apply f app good bad (sp\<lparr>sp_rejected := sp_rejected sp @ bad\<rparr>) w))"

section \<open>Lemmas\<close>

lemma split_valid_good: "fst (split_valid ls) = List.map_filter parse_line (filter (Not \<circ> blank) ls)"
  by (induction ls) (auto simp: map_filter_simps split: prod.splits option.splits)

lemma split_valid_bad:
  "snd (split_valid ls) = filter (\<lambda>l. \<not> blank l \<and> parse_line l = None) ls"
  by (induction ls) (auto split: prod.splits option.splits)

lemma parse_not_blank: "parse_line l \<noteq> None \<Longrightarrow> \<not> blank l"
  by (auto simp: parse_line_def blank_def split: spool_line.splits)

lemma split_valid_good_set: "d \<in> set (fst (split_valid ls)) \<longleftrightarrow> (\<exists>l \<in> set ls. parse_line l = Some d)"
proof (induction ls)
  case Nil
  then show ?case by simp
next
  case (Cons l ls)
  then show ?case using parse_not_blank [of l]
    by (cases "blank l"; cases "parse_line l") (auto split: prod.splits)
qed

lemma validate_SomeD: "validate v = Some d \<Longrightarrow> v = PDict d"
  by (auto simp: validate_def split: pyval.splits if_splits)

lemma parse_line_SomeD: "parse_line l = Some d \<Longrightarrow> l = Json (PDict d)"
  by (auto simp: parse_line_def dest: validate_SomeD split: spool_line.splits)

lemma json_sorted_isinstance [simp]: "isinstance (json_sorted v) t = isinstance v t"
  by (cases v) simp_all

lemma json_sorted_is_bool [simp]: "is_bool (json_sorted v) = is_bool v"
  by (cases v) (simp_all add: is_bool_def)

lemma str_field_sorted [simp]: "str_field (sorted_dict d) k = str_field d k"
  by (cases "dget d k") (simp_all add: str_field_def)

lemma int_field_sorted [simp]: "int_field (sorted_dict d) k = int_field d k"
  by (cases "dget d k") (simp_all add: int_field_def)

text \<open>Sorting the keys of a record does not change whether it is accepted.\<close>

lemma validate_sorted:
  assumes "validate (PDict d) = Some d"
  shows "validate (PDict (sorted_dict d)) = Some (sorted_dict d)"
proof -
  have "isinstance (json_sorted v) = isinstance v" for v by (rule ext) simp
  then have "types_ok (sorted_dict d) = types_ok d" by (simp add: types_ok_def)
  moreover have "set (map fst (sorted_dict d)) = set (map fst d)" by simp
  ultimately show ?thesis
    using assms by (simp add: validate_def split: if_splits)
qed

text \<open>An unreadable spool is taken for an empty one and deleted.\<close>

lemma drain_unreadable:
  assumes "sp_lines sp = Some ls" "df_lock f = None" "df_read f" "df_rewrite f = None"
  shows "drain f app sp w = (Inr 0, sp\<lparr>sp_lines := None\<rparr>, w)"
  using assms by (simp add: drain_def drain_apply_def read_valid_def rewrite_def)

lemma drain_clean:
  assumes "sp_lines sp = Some ls" "f = no_drain_faults"
    and "fst (split_valid ls) = good" "snd (split_valid ls) = bad"
    and "good = [] \<or> app good w = (Inr True, w')" "good = [] \<longrightarrow> w' = w"
  shows "drain f app sp w = (Inr (length good), \<lparr>sp_lines = None, sp_rejected = sp_rejected sp @ bad\<rparr>, w')"
proof -
  have "split_valid ls = (good, bad)" using assms(3,4) by (simp add: prod_eq_iff)
  then show ?thesis
    using assms by (auto simp: drain_def drain_apply_def read_valid_def lines_of_def no_drain_faults_def rewrite_def)
qed

text \<open>A drain never loses a line of a file it could read: the line stays, or is set aside, or \<open>apply\<close>
  took it.\<close>

definition line_kept :: "(dict list \<Rightarrow> 'w \<Rightarrow> bool result \<times> 'w) \<Rightarrow> 'w \<Rightarrow> 'w \<Rightarrow> spool \<Rightarrow> spool_line \<Rightarrow> bool" where
  "line_kept app w w' sp' l \<longleftrightarrow>
     l \<in> set (lines_of sp') \<union> set (sp_rejected sp')
     \<or> (\<exists>d. parse_line l = Some d \<and>
          (Json (json_sorted (PDict d)) \<in> set (lines_of sp')
           \<or> (\<exists>good. d \<in> set good \<and> app good w = (Inr True, w'))))"

lemma drain_apply_keeps:
  assumes "drain_apply f app good bad sp w = (r, sp', w')" "l \<in> set (lines_of sp)"
    and "parse_line l = None \<Longrightarrow> l \<in> set (sp_rejected sp)"
    and "\<And>d. parse_line l = Some d \<Longrightarrow> d \<in> set good"
  shows "line_kept app w w' sp' l"
proof -
  obtain taken w1 where tk: "(if good = [] then (Inr True, w) else app good w) = (taken, w1)"
    by (metis surj_pair)
  show ?thesis
  proof (cases "parse_line l")
    case None
    then have "l \<in> set (sp_rejected sp)" using assms(3) by simp
    then show ?thesis using assms(1) unfolding drain_apply_def tk line_kept_def
      by (auto simp: rewrite_def split: sum.splits bool.splits if_splits option.splits)
  next
    case (Some d)
    have mem: "d \<in> set good" using assms(4) Some by simp
    then have app: "app good w = (taken, w1)" using tk by (auto split: if_splits)
    from mem have sorted: "Json (json_sorted (PDict d)) \<in> (\<lambda>r. Json (json_sorted (PDict r))) ` set good" by blast
    show ?thesis using assms(1,2) sorted mem app Some unfolding drain_apply_def tk line_kept_def
      by (auto simp: rewrite_def lines_of_def split: sum.splits bool.splits if_splits option.splits)
  qed
qed

lemma drain_keeps_lines:
  assumes "drain f app sp w = (r, sp', w')" "\<not> df_read f" "l \<in> set (lines_of sp)" "\<not> blank l"
  shows "line_kept app w w' sp' l"
proof -
  obtain good bad where gb: "split_valid (lines_of sp) = (good, bad)" by (metis surj_pair)
  have good: "\<And>d. parse_line l = Some d \<Longrightarrow> d \<in> set good"
    using split_valid_good_set [of _ "lines_of sp"] assms(3) by (auto simp: gb)
  have bad: "parse_line l = None \<Longrightarrow> l \<in> set bad"
    using split_valid_bad [of "lines_of sp"] assms(3,4) by (auto simp: gb)
  have exists: "sp_lines sp \<noteq> None" using assms(3) by (cases "sp_lines sp") (simp_all add: lines_of_def)
  have stay: "line_kept app w w sp l" using assms(3) by (simp add: line_kept_def)
  have applied: "line_kept app w w' sp' l"
    if "drain_apply f app good bad (sp\<lparr>sp_rejected := sp_rejected sp @ bad\<rparr>) w = (r, sp', w')"
    using drain_apply_keeps [OF that] assms(3) good bad by (simp add: lines_of_def)
  have read: "read_valid f sp = (good, bad)" using assms(2) by (simp add: read_valid_def gb)
  show ?thesis
    using assms(1) exists stay applied unfolding drain_def read
    by (auto split: option.splits if_splits)
qed

end
