(* ===== verification/Audit_Log.thy ===== *)
theory Audit_Log
  imports Kernel Audit_Sequence Audit_Spool
begin

text \<open>
  The audit ledger (\<open>kernel/governance/audit/log.py\<close>, \<open>write_health.py\<close>): the table \<open>audit_log\<close>, the numbered
  write with its \<open>writer.start\<close> and gap rows in one transaction, the fall back to the spool, the replay of
  the spool, batches, compaction and the queries.

  A transaction works on a copy of the table (\<^verbatim>\<open>tx\<close>) that replaces it at the commit; closing the connection
  without a commit drops it. Every statement may fail: a transaction takes a list of faults, one per
  statement (opening the connection is the first), and the statements after the list succeed. SQLite refuses an
  integer outside 64 bits with \<open>OverflowError\<close>; the table refuses a second row with a record id or with a
  (writer, number) pair it holds. \<open>payload_json\<close> is kept decoded, with sorted keys; a time stamp is its
  \<open>isoformat()\<close> text. Adding columns to an old file, permissions and the temporary table are not modelled.
\<close>

section \<open>Rows\<close>

record identity_columns =
  ic_session_id :: "string option"
  ic_turn_id :: "string option"
  ic_call_id :: "string option"
  ic_parent_call_id :: "string option"
  ic_attempt :: "int option"
  ic_replay_of :: "string option"
  ic_resumed_from_run :: "string option"
  ic_bot_id :: "string option"

record ledger_row =
  lr_id :: int
  lr_ts :: string
  lr_entry :: audit_entry
  lr_cost_usd :: "rat option"
  lr_record_id :: "string option"
  lr_ids :: identity_columns
  lr_writer_id :: "string option"
  lr_writer_seq :: "int option"
  lr_kind :: "string option"

text \<open>The keyword arguments of \<open>AuditLog.record\<close>.\<close>

record write_args =
  wa_entry :: audit_entry
  wa_cost_usd :: "rat option"
  wa_ts :: "string option"

record log_env =
  le_now :: string
  le_ulids :: "nat \<Rightarrow> string"
  le_pid :: int
  le_proc_started :: "rat option"
  le_bot_source :: "string option result option"
    \<comment> \<open>what \<open>_bot_id_source\<close> returns or raises; \<open>None\<close> without a source\<close>

record audit_state =
  al_seq :: seq_state
  al_db :: "ledger_row list"
  al_autoinc :: int
  al_spool :: spool

record write_faults =
  wf_tx :: "pyexn option list"
  wf_append :: append_fault
  wf_drain :: drain_faults
  wf_drain_tx :: "pyexn option list"

definition no_write_faults :: write_faults where
  "no_write_faults = \<lparr>wf_tx = [], wf_append = Wrote, wf_drain = no_drain_faults, wf_drain_tx = []\<rparr>"

definition BOT_ID_KEY :: string where "BOT_ID_KEY = ''bot_id''"

definition with_process_bot :: "log_env \<Rightarrow> dict \<Rightarrow> dict" where
  "with_process_bot env payload =
     (let bot_id = (case le_bot_source env of None \<Rightarrow> None | Some (Inl _) \<Rightarrow> None | Some (Inr b) \<Rightarrow> b)
      in dstamp BOT_ID_KEY (truthy_or_none bot_id) payload)"

definition int_value :: "pyval \<Rightarrow> int option" where
  "int_value v = (case v of PInt i \<Rightarrow> Some i | _ \<Rightarrow> None)"

definition identity_values :: "dict \<Rightarrow> identity_columns" where
  "identity_values payload =
     \<lparr>ic_session_id = nonempty_str (dget payload ''session_id''),
      ic_turn_id = nonempty_str (dget payload ''turn_id''),
      ic_call_id = nonempty_str (dget payload ''call_id''),
      ic_parent_call_id = nonempty_str (dget payload ''parent_call_id''),
      ic_attempt = int_value (dget payload ''attempt''),
      ic_replay_of = nonempty_str (dget payload ''replay_of''),
      ic_resumed_from_run = nonempty_str (dget payload ''resumed_from_run''),
      ic_bot_id = nonempty_str (dget payload ''bot_id'')\<rparr>"

text \<open>The row of an \<open>INSERT\<close>, before it has an id.\<close>

definition make_row ::
  "write_args \<Rightarrow> string \<Rightarrow> string \<Rightarrow> string \<Rightarrow> int \<Rightarrow> string option \<Rightarrow> ledger_row"
where
  "make_row args ts record_id writer_id seq kind =
     \<lparr>lr_id = 0, lr_ts = ts,
      lr_entry = (wa_entry args)\<lparr>ae_payload := sorted_dict (ae_payload (wa_entry args))\<rparr>,
      lr_cost_usd = wa_cost_usd args, lr_record_id = Some record_id,
      lr_ids = identity_values (ae_payload (wa_entry args)),
      lr_writer_id = Some writer_id, lr_writer_seq = Some seq, lr_kind = kind\<rparr>"

section \<open>Transactions\<close>

record tx =
  tx_rows :: "ledger_row list"
  tx_autoinc :: int
  tx_faults :: "pyexn option list"

definition stmt :: "tx \<Rightarrow> unit result \<times> tx" where
  "stmt t = (case tx_faults t of
               [] \<Rightarrow> (Inr (), t)
             | None # fs \<Rightarrow> (Inr (), t\<lparr>tx_faults := fs\<rparr>)
             | Some e # fs \<Rightarrow> (Inl e, t\<lparr>tx_faults := fs\<rparr>))"

definition sql_int :: "int \<Rightarrow> bool" where
  "sql_int i = (- (2 ^ 63) \<le> i \<and> i < 2 ^ 63)"

definition opt_ok :: "('a \<Rightarrow> bool) \<Rightarrow> 'a option \<Rightarrow> bool" where
  "opt_ok p x = (case x of None \<Rightarrow> True | Some v \<Rightarrow> p v)"

definition bindable :: "ledger_row \<Rightarrow> bool" where
  "bindable r = (opt_ok sql_int (ae_step_id (lr_entry r)) \<and> opt_ok sql_int (ic_attempt (lr_ids r))
                 \<and> opt_ok sql_int (lr_writer_seq r))"

definition clashes :: "ledger_row \<Rightarrow> ledger_row \<Rightarrow> bool" where
  "clashes r q =
     ((lr_record_id r \<noteq> None \<and> lr_record_id q = lr_record_id r)
      \<or> (lr_writer_id r \<noteq> None \<and> lr_writer_seq r \<noteq> None
         \<and> lr_writer_id q = lr_writer_id r \<and> lr_writer_seq q = lr_writer_seq r))"

definition tx_insert :: "bool \<Rightarrow> ledger_row \<Rightarrow> tx \<Rightarrow> int result \<times> tx" where
  "tx_insert or_ignore r t =
     (case stmt t of
        (Inl e, t1) \<Rightarrow> (Inl e, t1)
      | (Inr _, t1) \<Rightarrow>
          if \<not> bindable r then
            (Raise ''OverflowError'' ''Python int too large to convert to SQLite INTEGER'', t1)
          else if list_ex (clashes r) (tx_rows t1) then
            (if or_ignore then Inr 0 else Raise ''IntegrityError'' ''UNIQUE constraint failed'', t1)
          else
            (Inr (tx_autoinc t1 + 1),
             t1\<lparr>tx_rows := tx_rows t1 @ [r\<lparr>lr_id := tx_autoinc t1 + 1\<rparr>], tx_autoinc := tx_autoinc t1 + 1\<rparr>))"

definition begin_tx :: "pyexn option list \<Rightarrow> audit_state \<Rightarrow> tx" where
  "begin_tx faults s = \<lparr>tx_rows = al_db s, tx_autoinc = al_autoinc s, tx_faults = faults\<rparr>"

definition commit_tx :: "tx \<Rightarrow> audit_state \<Rightarrow> audit_state" where
  "commit_tx t s = s\<lparr>al_db := tx_rows t, al_autoinc := tx_autoinc t\<rparr>"

text \<open>\<open>sqlite3.Error\<close> and its subclasses.\<close>

definition is_sqlite_error :: "pyexn \<Rightarrow> bool" where
  "is_sqlite_error e = (exn_class e \<in> {''Error'', ''InterfaceError'', ''DatabaseError'', ''DataError'',
     ''OperationalError'', ''IntegrityError'', ''InternalError'', ''ProgrammingError'', ''NotSupportedError''})"

section \<open>The rows the store writes about itself\<close>

definition meta_entry :: "string \<Rightarrow> string \<Rightarrow> string \<Rightarrow> string \<Rightarrow> dict \<Rightarrow> audit_entry" where
  "meta_entry writer_id hook_point severity reason payload =
     \<lparr>ae_run_id = ''audit:'' @ writer_id, ae_step_id = None, ae_agent_type = ''audit'',
      ae_hook_point = hook_point, ae_plugin = ''audit'', ae_decision = ''allow'', ae_severity = severity,
      ae_reason = reason, ae_classification = None, ae_tier = None,
      ae_payload = dmerge [(''writer_id'', PStr writer_id)] payload\<rparr>"

definition insert_meta ::
  "log_env \<Rightarrow> string \<Rightarrow> int \<Rightarrow> string \<Rightarrow> string \<Rightarrow> string \<Rightarrow> dict \<Rightarrow> string \<Rightarrow> tx \<Rightarrow> seq_state
    \<Rightarrow> int result \<times> tx \<times> seq_state"
where
  "insert_meta env writer_id seq kind hook_point reason payload severity t ss =
     (let (record_id, ss1) = new_ulid (le_ulids env) ss;
          args = \<lparr>wa_entry = meta_entry writer_id hook_point severity reason payload,
                  wa_cost_usd = None, wa_ts = None\<rparr>;
          (res, t1) = tx_insert True (make_row args (le_now env) record_id writer_id seq (Some kind)) t
      in (res, t1, ss1))"

definition process_identity :: "log_env \<Rightarrow> dict" where
  "process_identity env =
     (''pid'', PInt (le_pid env))
       # (case le_proc_started env of None \<Rightarrow> [] | Some q \<Rightarrow> [(''started'', PFloat q)])"

definition GAP_REASON :: string where
  "GAP_REASON = ''audit rows of this writer did not reach the ledger when written''"

fun write_gaps ::
  "log_env \<Rightarrow> string \<Rightarrow> string \<Rightarrow> gap_range list \<Rightarrow> int list \<Rightarrow> tx \<Rightarrow> seq_state
    \<Rightarrow> unit result \<times> int list \<times> tx \<times> seq_state"
where
  "write_gaps env key wid [] extra t ss = (Inr (), extra, t, ss)"
| "write_gaps env key wid (g # gs) extra t ss =
     (let ((_, gap_seq), ss1) = allocate (le_ulids env) key ss in
      case insert_meta env wid gap_seq KIND_GAP ''audit.gap'' GAP_REASON (gap_payload g)
             (if gr_lost g \<noteq> 0 then ''error'' else ''warning'') t ss1 of
        (Inl e, t1, ss2) \<Rightarrow> (Inl e, extra @ [gap_seq], t1, ss2)
      | (Inr _, t1, ss2) \<Rightarrow> write_gaps env key wid gs (extra @ [gap_seq]) t1 ss2)"

definition has_started :: "string \<Rightarrow> seq_state \<Rightarrow> bool" where
  "has_started key ss = (case ss_writers ss key of None \<Rightarrow> False | Some w \<Rightarrow> wr_started w)"

definition write_start :: "log_env \<Rightarrow> string \<Rightarrow> string \<Rightarrow> tx \<Rightarrow> seq_state \<Rightarrow> int result \<times> tx \<times> seq_state" where
  "write_start env key wid t ss =
     (if has_started key ss then (Inr 0, t, ss)
      else insert_meta env wid START_SEQ KIND_WRITER WRITER_START ''this process began writing to the ledger''
             (process_identity env) ''info'' t ss)"

definition write_preamble ::
  "log_env \<Rightarrow> string \<Rightarrow> string \<Rightarrow> tx \<Rightarrow> seq_state \<Rightarrow> gap_range list result \<times> int list \<times> tx \<times> seq_state"
where
  "write_preamble env key wid t ss =
     (case write_start env key wid t ss of
        (Inl e, t1, ss1) \<Rightarrow> (Inl e, [], t1, ss1)
      | (Inr _, t1, ss1) \<Rightarrow>
          let (gaps, ss2) = claim_gaps key wid ss1 in
          (case write_gaps env key wid gaps [] t1 ss2 of
             (Inl e, extra, t2, ss3) \<Rightarrow> (Inl e, extra, t2, restore_gaps key wid gaps ss3)
           | (Inr _, extra, t2, ss3) \<Rightarrow> (Inr gaps, extra, t2, ss3)))"

text \<open>Numbers of gap rows that did not commit: holes of the store itself.\<close>

definition note_own :: "string \<Rightarrow> string \<Rightarrow> pyexn \<Rightarrow> int list \<Rightarrow> seq_state \<Rightarrow> seq_state" where
  "note_own key wid e extra ss = foldl (\<lambda>ss n. note_failure key wid n e False True ss) ss extra"

section \<open>The spool\<close>

definition opt_num :: "rat option \<Rightarrow> pyval" where
  "opt_num x = (case x of None \<Rightarrow> PNone | Some q \<Rightarrow> PFloat q)"

definition spool_record :: "write_args \<Rightarrow> string \<Rightarrow> string \<Rightarrow> string \<Rightarrow> int \<Rightarrow> string option \<Rightarrow> dict" where
  "spool_record args ts record_id writer_id seq kind =
     (let e = wa_entry args in
      [(''record_id'', PStr record_id), (''writer_id'', PStr writer_id), (''writer_seq'', PInt seq),
       (''kind'', opt_str kind), (''ts'', PStr ts), (''run_id'', PStr (ae_run_id e)),
       (''step_id'', opt_int (ae_step_id e)), (''agent_type'', PStr (ae_agent_type e)),
       (''hook_point'', PStr (ae_hook_point e)), (''plugin'', PStr (ae_plugin e)),
       (''decision'', PStr (ae_decision e)), (''classification'', opt_str (ae_classification e)),
       (''tier'', opt_str (ae_tier e)), (''cost_usd'', opt_num (wa_cost_usd args)),
       (''severity'', PStr (ae_severity e)), (''reason'', PStr (ae_reason e)),
       (''payload'', PDict (sorted_dict (ae_payload e)))])"

definition opt_str_field :: "dict \<Rightarrow> string \<Rightarrow> string option" where
  "opt_str_field d k = (case dget d k of PStr s \<Rightarrow> Some s | _ \<Rightarrow> None)"

definition num_field :: "dict \<Rightarrow> string \<Rightarrow> rat option" where
  "num_field d k = (case dget d k of PInt i \<Rightarrow> Some (of_int i) | PFloat q \<Rightarrow> Some q | _ \<Rightarrow> None)"

definition dict_field :: "dict \<Rightarrow> string \<Rightarrow> dict" where
  "dict_field d k = (case dget d k of PDict e \<Rightarrow> e | _ \<Rightarrow> [])"

text \<open>The row of a validated spool line.\<close>

definition spooled_args :: "dict \<Rightarrow> write_args" where
  "spooled_args rec =
     \<lparr>wa_entry =
        \<lparr>ae_run_id = str_field rec ''run_id'', ae_step_id = int_value (dget rec ''step_id''),
         ae_agent_type = str_field rec ''agent_type'', ae_hook_point = str_field rec ''hook_point'',
         ae_plugin = str_field rec ''plugin'', ae_decision = str_field rec ''decision'',
         ae_severity = str_field rec ''severity'', ae_reason = str_field rec ''reason'',
         ae_classification = opt_str_field rec ''classification'', ae_tier = opt_str_field rec ''tier'',
         ae_payload = dict_field rec ''payload''\<rparr>,
      wa_cost_usd = num_field rec ''cost_usd'', wa_ts = Some (str_field rec ''ts'')\<rparr>"

text \<open>An empty \<open>ts\<close> of a line is replaced by the time of the drain (\<open>ts or datetime.now(UTC)\<close>); a record
  id is never empty in a validated line.\<close>

definition spooled_row :: "log_env \<Rightarrow> dict \<Rightarrow> ledger_row" where
  "spooled_row env rec =
     make_row (spooled_args rec) (if str_field rec ''ts'' = [] then le_now env else str_field rec ''ts'')
       (str_field rec ''record_id'') (str_field rec ''writer_id'') (int_field rec ''writer_seq'')
       (opt_str_field rec ''kind'')"

fun insert_spooled :: "log_env \<Rightarrow> dict list \<Rightarrow> tx \<Rightarrow> unit result \<times> tx" where
  "insert_spooled env [] t = (Inr (), t)"
| "insert_spooled env (rec # recs) t =
     (case tx_insert True (spooled_row env rec) t of
        (Inl e, t1) \<Rightarrow> (Inl e, t1)
      | (Inr _, t1) \<Rightarrow> insert_spooled env recs t1)"

definition apply_spooled :: "log_env \<Rightarrow> pyexn option list \<Rightarrow> dict list \<Rightarrow> audit_state \<Rightarrow> bool result \<times> audit_state"
where
  "apply_spooled env faults recs s =
     (let failed = (\<lambda>e. ((if is_sqlite_error e then Inr False else Inl e), s)) in
      case stmt (begin_tx faults s) of
        (Inl e, _) \<Rightarrow> failed e
      | (Inr _, t1) \<Rightarrow>
          (case insert_spooled env recs t1 of
             (Inl e, _) \<Rightarrow> failed e
           | (Inr _, t2) \<Rightarrow>
               (case stmt t2 of
                  (Inl e, _) \<Rightarrow> failed e
                | (Inr _, t3) \<Rightarrow> (Inr True, commit_tx t3 s))))"

definition drain_spool :: "log_env \<Rightarrow> drain_faults \<Rightarrow> pyexn option list \<Rightarrow> audit_state \<Rightarrow> nat \<times> audit_state" where
  "drain_spool env f faults s =
     (if sp_lines (al_spool s) = None then (0, s)
      else let (res, sp, s1) = drain f (apply_spooled env faults) (al_spool s) s
           in ((case res of Inl _ \<Rightarrow> 0 | Inr n \<Rightarrow> n), s1\<lparr>al_spool := sp\<rparr>))"

definition after_write :: "log_env \<Rightarrow> write_faults \<Rightarrow> audit_state \<Rightarrow> audit_state" where
  "after_write env fl s =
     (if sp_lines (al_spool s) \<noteq> None then snd (drain_spool env (wf_drain fl) (wf_drain_tx fl) s) else s)"

definition spool_or_raise ::
  "string \<Rightarrow> append_fault \<Rightarrow> write_args \<Rightarrow> string \<Rightarrow> string \<Rightarrow> string \<Rightarrow> int \<Rightarrow> string option \<Rightarrow> pyexn
    \<Rightarrow> audit_state \<Rightarrow> durability result \<times> audit_state"
where
  "spool_or_raise key f args ts record_id wid seq kind exc s =
     (case append_line f (spool_record args ts record_id wid seq kind) (al_spool s) of
        (Inl _, sp) \<Rightarrow>
          (Inl exc, s\<lparr>al_spool := sp, al_seq := note_failure key wid seq exc False False (al_seq s)\<rparr>)
      | (Inr _, sp) \<Rightarrow>
          (Inr InSpool, s\<lparr>al_spool := sp, al_seq := note_failure key wid seq exc True False (al_seq s)\<rparr>))"

section \<open>One write\<close>

text \<open>The body of the \<open>with self._connect()\<close> block: the row id, the gaps claimed and the numbers taken for
  gap rows.\<close>

definition write_tx ::
  "log_env \<Rightarrow> string \<Rightarrow> string \<Rightarrow> ledger_row \<Rightarrow> tx \<Rightarrow> seq_state
    \<Rightarrow> int result \<times> gap_range list \<times> int list \<times> tx \<times> seq_state"
where
  "write_tx env key wid r t ss =
     (case stmt t of
        (Inl e, t1) \<Rightarrow> (Inl e, [], [], t1, ss)
      | (Inr _, t1) \<Rightarrow>
          (case tx_insert False r t1 of
             (Inl e, t2) \<Rightarrow> (Inl e, [], [], t2, ss)
           | (Inr row_id, t2) \<Rightarrow>
               (case write_preamble env key wid t2 ss of
                  (Inl e, extra, t3, ss1) \<Rightarrow> (Inl e, [], extra, t3, ss1)
                | (Inr gaps, extra, t3, ss1) \<Rightarrow>
                    (case stmt t3 of
                       (Inl e, t4) \<Rightarrow> (Inl e, gaps, extra, t4, ss1)
                     | (Inr _, t4) \<Rightarrow> (Inr row_id, gaps, extra, t4, ss1)))))"

definition audit_write ::
  "log_env \<Rightarrow> string \<Rightarrow> write_faults \<Rightarrow> write_args \<Rightarrow> string option \<Rightarrow> audit_state
    \<Rightarrow> (durability \<times> int) result \<times> audit_state"
where
  "audit_write env key fl args kind s =
     (let ((wid, seq), ss1) = allocate (le_ulids env) key (al_seq s);
          ts = (case wa_ts args of None \<Rightarrow> le_now env | Some x \<Rightarrow> x);
          (record_id, ss2) = new_ulid (le_ulids env) ss1
      in case write_tx env key wid (make_row args ts record_id wid seq kind) (begin_tx (wf_tx fl) s) ss2 of
           (Inl exc, claimed, extra, _, ss3) \<Rightarrow>
             (let ss4 = note_own key wid exc extra (restore_gaps key wid claimed ss3)
              in case spool_or_raise key (wf_append fl) args ts record_id wid seq kind exc (s\<lparr>al_seq := ss4\<rparr>) of
                   (Inl e, s1) \<Rightarrow> (Inl e, s1)
                 | (Inr d, s1) \<Rightarrow> (Inr (d, 0), s1))
         | (Inr row_id, _, _, t, ss3) \<Rightarrow>
             (Inr (InDb, row_id),
              after_write env fl ((commit_tx t s)\<lparr>al_seq := mark_started key wid ss3\<rparr>)))"

definition log_record ::
  "log_env \<Rightarrow> string \<Rightarrow> write_faults \<Rightarrow> write_args \<Rightarrow> audit_state \<Rightarrow> int result \<times> audit_state"
where
  "log_record env key fl args s =
     (let e = wa_entry args;
          args1 = args\<lparr>wa_entry := e\<lparr>ae_payload := with_process_bot env (ae_payload e)\<rparr>\<rparr>
      in case audit_write env key fl args1 None s of
           (Inl exc, s1) \<Rightarrow> (Inl exc, s1)
         | (Inr (_, row_id), s1) \<Rightarrow> (Inr row_id, s1))"

text \<open>Opening the ledger drains what an earlier process left; \<open>atexit\<close> writes \<open>writer.close\<close>.\<close>

definition open_log :: "log_env \<Rightarrow> write_faults \<Rightarrow> audit_state \<Rightarrow> audit_state" where
  "open_log env fl s = snd (drain_spool env (wf_drain fl) (wf_drain_tx fl) s)"

definition close_writer ::
  "log_env \<Rightarrow> string \<Rightarrow> bool \<Rightarrow> write_faults \<Rightarrow> write_faults \<Rightarrow> writer \<Rightarrow> audit_state \<Rightarrow> unit result \<times> audit_state"
where
  "close_writer env key present fl0 fl w s =
     (if \<not> present then (Inr (), s)
      else
        let entry = \<lparr>ae_run_id = ''audit:'' @ wr_id w, ae_step_id = None, ae_agent_type = ''audit'',
                     ae_hook_point = WRITER_CLOSE, ae_plugin = ''audit'', ae_decision = ''allow'',
                     ae_severity = ''info'', ae_reason = ''this process finished writing to the ledger'',
                     ae_classification = None, ae_tier = None,
                     ae_payload = [(''writer_id'', PStr (wr_id w)), (''last_seq'', PInt (wr_next_seq w - 1)),
                                   (''pid'', PInt (le_pid env))]\<rparr>
        in case audit_write env key fl \<lparr>wa_entry = entry, wa_cost_usd = None, wa_ts = None\<rparr> (Some KIND_WRITER)
                  (open_log env fl0 s) of
             (Inl e, s1) \<Rightarrow> (Inl e, s1)
           | (Inr _, s1) \<Rightarrow> (Inr (), s1))"

section \<open>Batches\<close>

text \<open>What the savepoint of one row catches.\<close>

definition caught_by_row :: "pyexn \<Rightarrow> bool" where
  "caught_by_row e = (is_sqlite_error e \<or> exn_class e \<in> {''TypeError'', ''ValueError'', ''UnicodeEncodeError''})"

definition batch_row ::
  "log_env \<Rightarrow> string \<Rightarrow> append_fault \<Rightarrow> string \<Rightarrow> write_args \<Rightarrow> tx \<Rightarrow> audit_state
    \<Rightarrow> int option result \<times> tx \<times> audit_state"
where
  "batch_row env key f wid args t s =
     (let ((_, seq), ss1) = allocate (le_ulids env) key (al_seq s);
          ts = (case wa_ts args of None \<Rightarrow> le_now env | Some x \<Rightarrow> x);
          (record_id, ss2) = new_ulid (le_ulids env) ss1;
          s1 = s\<lparr>al_seq := ss2\<rparr>;
          release = (\<lambda>r t s. case stmt t of (Inl e, t') \<Rightarrow> (Inl e, t', s) | (Inr _, t') \<Rightarrow> (r, t', s))
      in case stmt t of
           (Inl e, t1) \<Rightarrow> (Inl e, t1, s1)
         | (Inr _, t1) \<Rightarrow>
             (case tx_insert False (make_row args ts record_id wid seq None) t1 of
                (Inr row_id, t2) \<Rightarrow> release (Inr (Some row_id)) t2 s1
              | (Inl e, t2) \<Rightarrow>
                  if \<not> caught_by_row e then release (Inl e) t2 s1
                  else (case stmt t2 of
                          (Inl e', t3) \<Rightarrow> release (Inl e') t3 s1
                        | (Inr _, t3) \<Rightarrow>
                            release (Inr None) (t3\<lparr>tx_rows := tx_rows t1, tx_autoinc := tx_autoinc t1\<rparr>)
                              (snd (spool_or_raise key f args ts record_id wid seq None e s1)))))"

fun batch_rows ::
  "log_env \<Rightarrow> string \<Rightarrow> append_fault \<Rightarrow> string \<Rightarrow> write_args list \<Rightarrow> tx \<Rightarrow> audit_state
    \<Rightarrow> int option list result \<times> tx \<times> audit_state"
where
  "batch_rows env key f wid [] t s = (Inr [], t, s)"
| "batch_rows env key f wid (args # rest) t s =
     (case batch_row env key f wid args t s of
        (Inl e, t1, s1) \<Rightarrow> (Inl e, t1, s1)
      | (Inr x, t1, s1) \<Rightarrow>
          (case batch_rows env key f wid rest t1 s1 of
             (Inl e, t2, s2) \<Rightarrow> (Inl e, t2, s2)
           | (Inr xs, t2, s2) \<Rightarrow> (Inr (x # xs), t2, s2)))"

definition record_many ::
  "log_env \<Rightarrow> string \<Rightarrow> write_faults \<Rightarrow> write_args list \<Rightarrow> audit_state \<Rightarrow> int option list result \<times> audit_state"
where
  "record_many env key fl rows s =
     (let (w, ss0) = writer_for (le_ulids env) key (al_seq s);
          wid = wr_id w;
          failed = (\<lambda>e gaps extra s. (Inl e, s\<lparr>al_seq := note_own key wid e extra (restore_gaps key wid gaps (al_seq s))\<rparr>))
      in case stmt (begin_tx (wf_tx fl) s) of
           (Inl e, _) \<Rightarrow> failed e [] [] (s\<lparr>al_seq := ss0\<rparr>)
         | (Inr _, t1) \<Rightarrow>
             (case write_preamble env key wid t1 ss0 of
                (Inl e, extra, _, ss1) \<Rightarrow> failed e [] extra (s\<lparr>al_seq := ss1\<rparr>)
              | (Inr gaps, extra, t2, ss1) \<Rightarrow>
                  (case batch_rows env key (wf_append fl) wid rows t2 (s\<lparr>al_seq := ss1\<rparr>) of
                     (Inl e, _, s1) \<Rightarrow> failed e gaps extra s1
                   | (Inr ids, t3, s1) \<Rightarrow>
                       (case stmt t3 of
                          (Inl e, _) \<Rightarrow> failed e gaps extra s1
                        | (Inr _, t4) \<Rightarrow>
                            (Inr ids, after_write env fl
                               ((commit_tx t4 s1)\<lparr>al_seq := mark_started key wid (al_seq s1)\<rparr>))))))"

section \<open>Compaction\<close>

definition COMPACTION_HOOK :: string where "COMPACTION_HOOK = ''audit.compaction''"
definition COMPACTION_REASON :: string where
  "COMPACTION_REASON = ''audit rows moved from the ledger to the cold archive''"

definition has_key :: "ledger_row list \<Rightarrow> int \<times> string option \<Rightarrow> bool" where
  "has_key rows k = list_ex (\<lambda>r. lr_id r = fst k \<and> lr_record_id r = snd k) rows"

definition conflict :: pyexn where
  "conflict = PyExn ''CompactionConflict'' ''archived rows changed''"

text \<open>The statements after the marker: the key table, its rows, the check, the delete, the commit.\<close>

definition delete_archived :: "(int \<times> string option) list \<Rightarrow> tx \<Rightarrow> unit result \<times> tx" where
  "delete_archived archived t =
     (case stmt t of (Inl e, t1) \<Rightarrow> (Inl e, t1) | (Inr _, t1) \<Rightarrow>
     (case stmt t1 of (Inl e, t2) \<Rightarrow> (Inl e, t2) | (Inr _, t2) \<Rightarrow>
      if \<not> list_all (sql_int \<circ> fst) archived then
        (Raise ''OverflowError'' ''Python int too large to convert to SQLite INTEGER'', t2)
      else if \<not> distinct (map fst archived) then (Raise ''IntegrityError'' ''UNIQUE constraint failed'', t2)
      else
     (case stmt t2 of (Inl e, t3) \<Rightarrow> (Inl e, t3) | (Inr _, t3) \<Rightarrow>
      if length (filter (has_key (tx_rows t3)) archived) \<noteq> length archived then (Inl conflict, t3)
      else
     (case stmt t3 of (Inl e, t4) \<Rightarrow> (Inl e, t4) | (Inr _, t4) \<Rightarrow>
      let gone = filter (\<lambda>r. lr_id r \<in> set (map fst archived)) (tx_rows t4);
          kept = filter (\<lambda>r. lr_id r \<notin> set (map fst archived)) (tx_rows t4)
      in if length gone \<noteq> length archived then (Inl conflict, t4)
         else stmt (t4\<lparr>tx_rows := kept\<rparr>)))))"

definition compaction_tx ::
  "log_env \<Rightarrow> string \<Rightarrow> string \<Rightarrow> int \<Rightarrow> dict \<Rightarrow> (int \<times> string option) list \<Rightarrow> tx \<Rightarrow> seq_state
    \<Rightarrow> unit result \<times> gap_range list \<times> int list \<times> tx \<times> seq_state"
where
  "compaction_tx env key wid seq payload archived t ss =
     (case stmt t of
        (Inl e, t1) \<Rightarrow> (Inl e, [], [], t1, ss)
      | (Inr _, t1) \<Rightarrow>
          (case insert_meta env wid seq KIND_COMPACTION COMPACTION_HOOK COMPACTION_REASON payload ''info'' t1 ss of
             (Inl e, t2, ss1) \<Rightarrow> (Inl e, [], [], t2, ss1)
           | (Inr _, t2, ss1) \<Rightarrow>
               (case write_preamble env key wid t2 ss1 of
                  (Inl e, extra, t3, ss2) \<Rightarrow> (Inl e, [], extra, t3, ss2)
                | (Inr gaps, extra, t3, ss2) \<Rightarrow>
                    (case delete_archived archived t3 of (r, t4) \<Rightarrow> (r, gaps, extra, t4, ss2)))))"

definition write_compaction ::
  "log_env \<Rightarrow> string \<Rightarrow> write_faults \<Rightarrow> dict \<Rightarrow> (int \<times> string option) list \<Rightarrow> audit_state
    \<Rightarrow> nat result \<times> audit_state"
where
  "write_compaction env key fl payload archived s =
     (let ((wid, seq), ss1) = allocate (le_ulids env) key (al_seq s) in
      case compaction_tx env key wid seq payload archived (begin_tx (wf_tx fl) s) ss1 of
        (Inl e, claimed, extra, _, ss2) \<Rightarrow>
          (Inl e, s\<lparr>al_seq := note_own key wid e extra
                       (note_failure key wid seq e False True (restore_gaps key wid claimed ss2))\<rparr>)
      | (Inr _, _, _, t, ss2) \<Rightarrow>
          (Inr (length archived), after_write env fl ((commit_tx t s)\<lparr>al_seq := mark_started key wid ss2\<rparr>)))"

section \<open>Reading\<close>

record query_filter =
  qf_run_id :: "string option"
  qf_decision :: "string option"
  qf_severity :: "string option"
  qf_plugin :: "string option"
  qf_caller :: "string option"
  qf_since :: "string option"
  qf_until :: "string option"
  qf_limit :: "int option"
  qf_include_store_rows :: bool

definition caller_of :: "ledger_row \<Rightarrow> string option" where
  "caller_of r = (case dget (ae_payload (lr_entry r)) ''caller'' of PStr s \<Rightarrow> Some s | _ \<Rightarrow> None)"

definition caller_matches :: "string \<Rightarrow> ledger_row \<Rightarrow> bool" where
  "caller_matches c r =
     (case caller_of r of
        None \<Rightarrow> False
      | Some s \<Rightarrow> if c \<noteq> [] \<and> last c = CHR '':'' then take (length c) s = c else s = c)"

definition row_matches :: "query_filter \<Rightarrow> ledger_row \<Rightarrow> bool" where
  "row_matches q r =
     ((qf_include_store_rows q \<or> lr_kind r = None)
      \<and> opt_ok (\<lambda>x. ae_run_id (lr_entry r) = x) (qf_run_id q)
      \<and> opt_ok (\<lambda>x. ae_decision (lr_entry r) = x) (qf_decision q)
      \<and> opt_ok (\<lambda>x. ae_severity (lr_entry r) = x) (qf_severity q)
      \<and> opt_ok (\<lambda>x. ae_plugin (lr_entry r) = x) (qf_plugin q)
      \<and> opt_ok (\<lambda>x. caller_matches x r) (qf_caller q)
      \<and> opt_ok (\<lambda>x. x \<le> lr_ts r) (qf_since q)
      \<and> opt_ok (\<lambda>x. lr_ts r \<le> x) (qf_until q))"

definition row_to_audit :: "ledger_row \<Rightarrow> ledger_row" where
  "row_to_audit r =
     (if ic_session_id (lr_ids r) = None
      then r\<lparr>lr_ids := (lr_ids r)\<lparr>ic_session_id :=
               nonempty_str (dget (ae_payload (lr_entry r)) ''session_id'')\<rparr>\<rparr>
      else r)"

definition limited :: "int option \<Rightarrow> 'a list \<Rightarrow> 'a list" where
  "limited n0 xs = (case n0 of None \<Rightarrow> xs | Some n \<Rightarrow> if n < 0 then xs else take (nat n) xs)"

definition query :: "query_filter \<Rightarrow> audit_state \<Rightarrow> ledger_row list" where
  "query q s =
     map row_to_audit
       (limited (qf_limit q) (sort_key lr_ts (sort_key lr_id (filter (row_matches q) (al_db s)))))"

definition callers :: "audit_state \<Rightarrow> string list" where
  "callers s = sort (remdups (filter (\<lambda>c. c \<noteq> []) (List.map_filter caller_of (al_db s))))"

definition count_rows :: "bool \<Rightarrow> audit_state \<Rightarrow> nat" where
  "count_rows include_store_rows s =
     length (filter (\<lambda>r. include_store_rows \<or> lr_kind r = None) (al_db s))"

definition write_health :: "audit_state \<Rightarrow> dict" where
  "write_health s =
     (let waiting = spool_state_of (al_spool s); st = stats (al_seq s)
      in [(''ok'', PBool (\<not> (sps_pending waiting \<noteq> 0 \<or> sps_rejected waiting \<noteq> 0 \<or> st_lost st \<noteq> 0))),
          (''spool_pending'', PInt (int (sps_pending waiting))),
          (''spool_rejected'', PInt (int (sps_rejected waiting))),
          (''writes_spooled'', PInt (st_spooled st)), (''writes_lost'', PInt (st_lost st)),
          (''last_error_class'', opt_str (st_last_cause st))])"

section \<open>Transactions only add rows\<close>

text \<open>What a transaction did to the table so far: rows at the end, with ids counted on, none of which
  clashes with an earlier row.\<close>

inductive extends :: "tx \<Rightarrow> tx \<Rightarrow> bool" where
  ext_same: "tx_rows t' = tx_rows t \<Longrightarrow> tx_autoinc t' = tx_autoinc t \<Longrightarrow> extends t t'"
| ext_add: "extends t t1 \<Longrightarrow> \<not> list_ex (clashes r) (tx_rows t1)
    \<Longrightarrow> tx_rows t' = tx_rows t1 @ [r\<lparr>lr_id := tx_autoinc t1 + 1\<rparr>] \<Longrightarrow> tx_autoinc t' = tx_autoinc t1 + 1
    \<Longrightarrow> extends t t'"

lemma extends_refl [simp]: "extends t t"
  by (rule ext_same) simp_all

lemma extends_trans: "extends t1 t2 \<Longrightarrow> extends t0 t1 \<Longrightarrow> extends t0 t2"
proof (induction rule: extends.induct)
  case (ext_same t' t)
  from ext_same(3,1,2) show ?case
    by (cases rule: extends.cases) (auto intro: extends.intros)
next
  case (ext_add t t1 r t')
  then show ?case by (auto intro: extends.ext_add)
qed

lemma stmt_cases:
  obtains (ok) fs where "stmt t = (Inr (), t\<lparr>tx_faults := fs\<rparr>)"
  | (fault) e fs where "stmt t = (Inl e, t\<lparr>tx_faults := fs\<rparr>)"
proof (cases "tx_faults t")
  case Nil
  then have "stmt t = (Inr (), t\<lparr>tx_faults := []\<rparr>)" by (simp add: stmt_def)
  then show ?thesis by (rule ok)
next
  case (Cons x fs)
  then show ?thesis using ok fault by (cases x) (auto simp: stmt_def)
qed

lemma stmt_frame:
  assumes "stmt t = (r, t')"
  shows "tx_rows t' = tx_rows t \<and> tx_autoinc t' = tx_autoinc t"
  using assms by (cases t rule: stmt_cases) auto

lemma stmt_extends: "stmt t = (r, t') \<Longrightarrow> extends t t'"
  using stmt_frame by (metis ext_same)

lemma tx_insert_cases:
  assumes "tx_insert ign r t = (res, t')"
  obtains (failed) e where "res = Inl e" "tx_rows t' = tx_rows t" "tx_autoinc t' = tx_autoinc t"
  | (ignored) "ign" "res = Inr 0" "list_ex (clashes r) (tx_rows t)" "tx_rows t' = tx_rows t" "tx_autoinc t' = tx_autoinc t"
  | (inserted) "bindable r" "\<not> list_ex (clashes r) (tx_rows t)" "res = Inr (tx_autoinc t + 1)"
      "tx_rows t' = tx_rows t @ [r\<lparr>lr_id := tx_autoinc t + 1\<rparr>]" "tx_autoinc t' = tx_autoinc t + 1"
proof (cases t rule: stmt_cases)
  case (ok fs)
  then show ?thesis using assms that by (auto simp: tx_insert_def split: if_splits)
next
  case (fault e fs)
  then show ?thesis using assms that(1) by (auto simp: tx_insert_def)
qed

lemma tx_insert_extends: "tx_insert ign r t = (res, t') \<Longrightarrow> extends t t'"
  by (erule tx_insert_cases) (auto intro: extends.intros)

lemma insert_meta_extends: "insert_meta env wid seq kind hp reason p sev t ss = (res, t', ss') \<Longrightarrow> extends t t'"
  by (auto simp: insert_meta_def new_ulid_def Let_def split: prod.splits dest: tx_insert_extends)

lemma write_gaps_extends: "write_gaps env key wid gs extra t ss = (res, extra', t', ss') \<Longrightarrow> extends t t'"
proof (induction gs arbitrary: extra t ss)
  case Nil
  then show ?case by simp
next
  case (Cons g gs)
  obtain w gap_seq ss1 where a: "allocate (le_ulids env) key ss = ((w, gap_seq), ss1)" by (metis surj_pair)
  obtain r t1 ss2 where i: "insert_meta env wid gap_seq KIND_GAP ''audit.gap'' GAP_REASON (gap_payload g)
      (if gr_lost g \<noteq> 0 then ''error'' else ''warning'') t ss1 = (r, t1, ss2)" by (metis surj_pair)
  then have e1: "extends t t1" by (rule insert_meta_extends)
  show ?case
  proof (cases r)
    case (Inl e)
    then show ?thesis using Cons.prems a i e1 by simp
  next
    case (Inr n)
    then have "write_gaps env key wid gs (extra @ [gap_seq]) t1 ss2 = (res, extra', t', ss')"
      using Cons.prems a i by simp
    from Cons.IH [OF this] show ?thesis using e1 extends_trans by blast
  qed
qed

lemma write_preamble_extends: "write_preamble env key wid t ss = (res, extra, t', ss') \<Longrightarrow> extends t t'"
proof -
  assume pre: "write_preamble env key wid t ss = (res, extra, t', ss')"
  obtain r t1 ss1 where st: "write_start env key wid t ss = (r, t1, ss1)" by (metis surj_pair)
  have e1: "extends t t1"
    using st by (auto simp: write_start_def split: if_splits dest: insert_meta_extends)
  obtain gaps ss2 where cl: "claim_gaps key wid ss1 = (gaps, ss2)" by (metis surj_pair)
  obtain g extra2 t2 ss3 where wg: "write_gaps env key wid gaps [] t1 ss2 = (g, extra2, t2, ss3)"
    by (metis surj_pair)
  have "t' = t1 \<or> t' = t2"
    using pre st cl wg by (cases r; cases g; simp add: write_preamble_def)
  then show "extends t t'" using e1 write_gaps_extends [OF wg] extends_trans by blast
qed

lemma write_tx_extends: "write_tx env key wid r t ss = (res, gaps, extra, t', ss') \<Longrightarrow> extends t t'"
proof -
  assume tx: "write_tx env key wid r t ss = (res, gaps, extra, t', ss')"
  obtain r1 t1 where s1: "stmt t = (r1, t1)" by (metis surj_pair)
  obtain r2 t2 where s2: "tx_insert False r t1 = (r2, t2)" by (metis surj_pair)
  obtain r3 ex t3 ss3 where s3: "write_preamble env key wid t2 ss = (r3, ex, t3, ss3)" by (metis surj_pair)
  obtain r4 t4 where s4: "stmt t3 = (r4, t4)" by (metis surj_pair)
  have "t' \<in> {t1, t2, t3, t4}"
    using tx s1 s2 s3 s4 by (cases r1; cases r2; cases r3; cases r4) (auto simp: write_tx_def)
  moreover have "extends t t1" "extends t1 t2" "extends t2 t3" "extends t3 t4"
    using s1 s2 s3 s4 by (auto intro: stmt_extends tx_insert_extends write_preamble_extends)
  ultimately show "extends t t'" using extends_trans by blast
qed

lemma extends_rows: "extends t t' \<Longrightarrow> \<exists>rows. tx_rows t' = tx_rows t @ rows"
  by (induction rule: extends.induct) auto

lemma write_tx_Inr:
  assumes "write_tx env key wid r t ss = (Inr i, gaps, extra, t', ss')"
  shows "i = tx_autoinc t + 1 \<and> r\<lparr>lr_id := tx_autoinc t + 1\<rparr> \<in> set (tx_rows t') \<and> bindable r"
proof -
  obtain r1 t1 where s1: "stmt t = (r1, t1)" by (metis surj_pair)
  obtain r2 t2 where s2: "tx_insert False r t1 = (r2, t2)" by (metis surj_pair)
  obtain r3 ex t3 ss3 where s3: "write_preamble env key wid t2 ss = (r3, ex, t3, ss3)" by (metis surj_pair)
  obtain r4 t4 where s4: "stmt t3 = (r4, t4)" by (metis surj_pair)
  have "r2 = Inr i \<and> t' = t4"
    using assms s1 s2 s3 s4 by (cases r1; cases r2; cases r3; cases r4) (auto simp: write_tx_def)
  moreover from this have "i = tx_autoinc t1 + 1 \<and> r\<lparr>lr_id := tx_autoinc t1 + 1\<rparr> \<in> set (tx_rows t2) \<and> bindable r"
    using s2 by (elim tx_insert_cases) auto
  moreover have "set (tx_rows t2) \<subseteq> set (tx_rows t4)"
    using extends_rows [OF write_preamble_extends [OF s3]] stmt_frame [OF s4] by auto
  ultimately show ?thesis using stmt_frame [OF s1] by auto
qed

end
