(* ===== verification/Audit_Accounting.thy ===== *)
theory Audit_Accounting
  imports Audit_Log
begin

text \<open>
  What the audit ledger promises of every run of its operations: no number a writer handed out goes
  unexplained, the spool adds rows and never rewrites one, a row is where the result of the write says it is,
  and compaction removes exactly the rows the archive holds.
\<close>

section \<open>What the ledger says about a sequence number\<close>

definition spans :: "dict \<Rightarrow> int \<Rightarrow> bool" where
  "spans d n = (case (dget d ''first_missing'', dget d ''last_missing'') of
                  (PInt a, PInt b) \<Rightarrow> a \<le> n \<and> n \<le> b
                | _ \<Rightarrow> False)"

definition speaks_for :: "string \<Rightarrow> ledger_row list \<Rightarrow> int \<Rightarrow> bool" where
  "speaks_for wid rows n =
     list_ex (\<lambda>r. lr_writer_id r = Some wid \<and>
       (lr_writer_seq r = Some n \<or> (lr_kind r = Some KIND_GAP \<and> spans (ae_payload (lr_entry r)) n))) rows"

text \<open>Every number the writer handed out is the number of a row, lies in the range of a gap row, or waits to be
  recorded by the next write.\<close>

definition accounted :: "writer \<Rightarrow> ledger_row list \<Rightarrow> bool" where
  "accounted w rows =
     list_all (\<lambda>n. speaks_for (wr_id w) rows n \<or> n \<in> set (map ms_seq (wr_missing w))) [1..wr_next_seq w - 1]"

lemma accounted_iff:
  "accounted w rows \<longleftrightarrow>
     (\<forall>n. 1 \<le> n \<and> n < wr_next_seq w \<longrightarrow> speaks_for (wr_id w) rows n \<or> n \<in> missing_seqs w)"
  by (auto simp: accounted_def list_all_iff missing_seqs_def)

lemma speaks_for_append [simp]:
  "speaks_for wid (xs @ ys) n \<longleftrightarrow> speaks_for wid xs n \<or> speaks_for wid ys n"
  by (simp add: speaks_for_def)

lemma speaks_for_mono: "set xs \<subseteq> set ys \<Longrightarrow> speaks_for wid xs n \<Longrightarrow> speaks_for wid ys n"
  unfolding speaks_for_def list_ex_iff by blast

lemma speaks_for_own_row:
  "r \<in> set rows \<Longrightarrow> lr_writer_id r = Some wid \<Longrightarrow> lr_writer_seq r = Some n \<Longrightarrow> speaks_for wid rows n"
  unfolding speaks_for_def list_ex_iff by blast

section \<open>Ids not used yet\<close>

definition unused_ids :: "(nat \<Rightarrow> string) \<Rightarrow> nat \<Rightarrow> ledger_row list \<Rightarrow> bool" where
  "unused_ids ulids k rows \<longleftrightarrow>
     (\<forall>r \<in> set rows. \<forall>n \<ge> k. lr_record_id r \<noteq> Some (ulids n) \<and> lr_writer_id r \<noteq> Some (ulids n))"

definition seqs_below :: "writer \<Rightarrow> ledger_row list \<Rightarrow> bool" where
  "seqs_below w rows \<longleftrightarrow>
     (\<forall>r \<in> set rows. \<forall>n. lr_writer_id r = Some (wr_id w) \<and> lr_writer_seq r = Some n \<longrightarrow> n < wr_next_seq w)"

definition fresh :: "(nat \<Rightarrow> string) \<Rightarrow> string \<Rightarrow> seq_state \<Rightarrow> writer \<Rightarrow> ledger_row list \<Rightarrow> bool" where
  "fresh ulids key ss w rows \<longleftrightarrow>
     ss_writers ss key = Some w \<and> unused_ids ulids (ss_minted ss) rows \<and> seqs_below w rows
     \<and> (\<forall>n \<ge> ss_minted ss. ulids n \<noteq> wr_id w) \<and> 0 < wr_next_seq w \<and> wr_id w \<in> range ulids"

text \<open>How the counters of a writer move on.\<close>

definition later :: "string \<Rightarrow> writer \<Rightarrow> seq_state \<Rightarrow> writer \<Rightarrow> seq_state \<Rightarrow> bool" where
  "later key w ss w' ss' \<longleftrightarrow>
     ss_writers ss' key = Some w' \<and> wr_id w' = wr_id w \<and> wr_next_seq w \<le> wr_next_seq w'
     \<and> ss_minted ss \<le> ss_minted ss'"

lemma later_refl: "ss_writers ss key = Some w \<Longrightarrow> later key w ss w ss"
  by (simp add: later_def)

lemma later_trans: "later key w ss w1 ss1 \<Longrightarrow> later key w1 ss1 w2 ss2 \<Longrightarrow> later key w ss w2 ss2"
  by (auto simp: later_def)

lemma fresh_later: "fresh ulids key ss w rows \<Longrightarrow> later key w ss w' ss' \<Longrightarrow> fresh ulids key ss' w' rows"
  by (auto simp: fresh_def later_def unused_ids_def seqs_below_def intro: order_less_le_trans)

lemma fresh_writer: "fresh ulids key ss w rows \<Longrightarrow> ss_writers ss key = Some w"
  by (simp add: fresh_def)

lemma later_next: "later key w ss w' ss' \<Longrightarrow> wr_next_seq w \<le> wr_next_seq w'"
  by (simp add: later_def)

text \<open>A row of the writer with a number it handed out and an id that was minted keeps the ids fresh.\<close>

lemma fresh_snoc:
  assumes "fresh ulids key ss w rows" "lr_writer_id r = Some (wr_id w)" "lr_writer_seq r = Some n"
    "n < wr_next_seq w" "\<forall>k \<ge> ss_minted ss. lr_record_id r \<noteq> Some (ulids k)"
  shows "fresh ulids key ss w (rows @ [r\<lparr>lr_id := i\<rparr>])"
  using assms by (auto simp: fresh_def unused_ids_def seqs_below_def)

lemma make_row_simps [simp]:
  "lr_writer_id (make_row args ts rid wid n kind) = Some wid"
  "lr_writer_seq (make_row args ts rid wid n kind) = Some n"
  "lr_record_id (make_row args ts rid wid n kind) = Some rid"
  "lr_kind (make_row args ts rid wid n kind) = kind"
  "ae_payload (lr_entry (make_row args ts rid wid n kind)) = sorted_dict (ae_payload (wa_entry args))"
  by (simp_all add: make_row_def)

text \<open>A number of the writer above every number in the table cannot clash.\<close>

lemma fresh_no_clash:
  assumes "fresh ulids key ss w rows" "lr_writer_id r = Some (wr_id w)" "lr_writer_seq r = Some n"
    "lr_record_id r = Some (ulids (ss_minted ss))" "wr_next_seq w \<le> n"
  shows "\<not> list_ex (clashes r) rows"
proof
  assume "list_ex (clashes r) rows"
  then obtain q where "q \<in> set rows" "clashes r q" by (auto simp: list_ex_iff)
  then show False
    using assms unfolding fresh_def unused_ids_def seqs_below_def clashes_def by fastforce
qed

section \<open>The statements of a write\<close>

lemma new_ulid_later: "ss_writers ss key = Some w \<Longrightarrow> later key w ss w (snd (new_ulid ulids ss))"
  by (simp add: later_def new_ulid_def)

lemma insert_meta_fresh:
  assumes "inj ulids" "le_ulids env = ulids" "fresh ulids key ss w (tx_rows t)" "n < wr_next_seq w"
    and "insert_meta env (wr_id w) n kind hp reason p sev t ss = (res, t', ss')"
  shows "later key w ss w ss' \<and> fresh ulids key ss' w (tx_rows t')"
proof -
  define args where "args = \<lparr>wa_entry = meta_entry (wr_id w) hp sev reason p, wa_cost_usd = None, wa_ts = None\<rparr>"
  define r where "r = make_row args (le_now env) (ulids (ss_minted ss)) (wr_id w) n (Some kind)"
  have ss': "ss' = snd (new_ulid ulids ss)" and ins: "tx_insert True r t = (res, t')"
    using assms(2,5) by (auto simp: insert_meta_def new_ulid_def r_def args_def split: prod.splits)
  have lt: "later key w ss w ss'" unfolding ss' using assms(3) by (intro new_ulid_later) (rule fresh_writer)
  then have fr: "fresh ulids key ss' w (tx_rows t)" using assms(3) fresh_later by blast
  from ins show ?thesis
  proof (cases rule: tx_insert_cases)
    case inserted
    have "\<forall>k \<ge> ss_minted ss'. lr_record_id r \<noteq> Some (ulids k)"
      using assms(1) by (auto simp: r_def ss' new_ulid_def dest: injD)
    then show ?thesis using lt fr inserted(4) assms(4) by (simp add: fresh_snoc r_def)
  qed (use lt fr in simp_all)
qed

lemma gap_payload_spans:
  "spans (sorted_dict (dmerge [(''writer_id'', PStr wid)] (gap_payload g))) n \<longleftrightarrow> n \<in> gap_span g"
  by (simp add: spans_def gap_payload_def dmerge_def gap_span_def dict_simps)

lemma extends_set: "extends t t' \<Longrightarrow> set (tx_rows t) \<subseteq> set (tx_rows t')"
  using extends_rows by fastforce

text \<open>One gap row: its number is new, so it is inserted, and it speaks for the numbers of its gap.\<close>

lemma insert_gap_speaks:
  assumes "le_ulids env = ulids" "fresh ulids key ss w (tx_rows t)"
    and "insert_meta env (wr_id w) (wr_next_seq w) KIND_GAP hp reason (gap_payload g) sev t ss = (Inr x, t', ss')"
  shows "speaks_for (wr_id w) (tx_rows t') (wr_next_seq w)
       \<and> (\<forall>n \<in> gap_span g. speaks_for (wr_id w) (tx_rows t') n)"
proof -
  define args where "args = \<lparr>wa_entry = meta_entry (wr_id w) hp sev reason (gap_payload g), wa_cost_usd = None, wa_ts = None\<rparr>"
  define r where "r = make_row args (le_now env) (ulids (ss_minted ss)) (wr_id w) (wr_next_seq w) (Some KIND_GAP)"
  have ins: "tx_insert True r t = (Inr x, t')"
    using assms(1,3) by (auto simp: insert_meta_def new_ulid_def r_def args_def split: prod.splits)
  have new: "\<not> list_ex (clashes r) (tx_rows t)"
    using fresh_no_clash [OF assms(2), of r "wr_next_seq w"] by (simp add: r_def)
  from ins have "tx_rows t' = tx_rows t @ [r\<lparr>lr_id := tx_autoinc t + 1\<rparr>]"
    by (cases rule: tx_insert_cases) (use new in simp_all)
  then show ?thesis
    by (auto simp: speaks_for_def r_def args_def meta_entry_def gap_payload_spans)
qed

lemma allocate_fresh:
  assumes "fresh ulids key ss w rows" "allocate ulids key ss = ((wid, n), ss')"
  shows "wid = wr_id w \<and> n = wr_next_seq w
       \<and> later key w ss (w\<lparr>wr_next_seq := wr_next_seq w + 1\<rparr>) ss'"
  using assms by (auto simp: fresh_def allocate_known later_def)

lemma gap_row_no_clash_later:
  assumes "fresh ulids key ss w (tx_rows t)" "le_ulids env = ulids"
    and "ss_writers ss1 key = Some (w\<lparr>wr_next_seq := wr_next_seq w + 1\<rparr>)" "ss_minted ss1 = ss_minted ss"
    and "insert_meta env (wr_id w) (wr_next_seq w) KIND_GAP hp reason (gap_payload g) sev t ss1 = (Inr x, t', ss')"
  shows "speaks_for (wr_id w) (tx_rows t') (wr_next_seq w)
       \<and> (\<forall>n \<in> gap_span g. speaks_for (wr_id w) (tx_rows t') n)"
proof -
  have "insert_meta env (wr_id w) (wr_next_seq w) KIND_GAP hp reason (gap_payload g) sev t ss =
          (Inr x, t', snd (new_ulid ulids ss))"
    using assms(2,4,5) by (auto simp: insert_meta_def new_ulid_def split: prod.splits)
  from insert_gap_speaks [OF assms(2,1) this] show ?thesis .
qed

text \<open>The gap rows of a write: the numbers taken are the next ones; when all are in, each number taken and each
  number of a gap has a row that speaks for it.\<close>

definition gaps_written ::
  "(nat \<Rightarrow> string) \<Rightarrow> string \<Rightarrow> writer \<Rightarrow> seq_state \<Rightarrow> gap_range list \<Rightarrow> int set \<Rightarrow> bool \<Rightarrow> int set \<Rightarrow> tx
    \<Rightarrow> seq_state \<Rightarrow> writer \<Rightarrow> bool"
where
  "gaps_written ulids key w ss gs extra ok extra' t' ss' w' \<longleftrightarrow>
     later key w ss w' ss' \<and> fresh ulids key ss' w' (tx_rows t')
     \<and> missing_seqs w' = missing_seqs w \<and> wr_started w' = wr_started w
     \<and> extra' = extra \<union> {wr_next_seq w..<wr_next_seq w'}
     \<and> (ok \<longrightarrow>
          (\<forall>n \<in> {wr_next_seq w..<wr_next_seq w'} \<union> (\<Union>g \<in> set gs. gap_span g).
             speaks_for (wr_id w) (tx_rows t') n))"

lemma write_gaps_accounts:
  assumes "inj ulids" "le_ulids env = ulids" "fresh ulids key ss w (tx_rows t)"
    and "write_gaps env key (wr_id w) gs extra t ss = (res, extra', t', ss')"
  shows "\<exists>w'. gaps_written ulids key w ss gs (set extra) (\<not> isl res) (set extra') t' ss' w'"
  using assms(3,4)
proof (induction gs arbitrary: extra t ss w)
  case Nil
  then have "later key w ss w ss" by (auto intro: later_refl fresh_writer)
  then show ?case using Nil by (intro exI [of _ w]) (simp add: gaps_written_def)
next
  case (Cons g gs)
  define w1 where "w1 = w\<lparr>wr_next_seq := wr_next_seq w + 1\<rparr>"
  define ss1 where "ss1 = set_writer key w1 ss"
  have al: "allocate (le_ulids env) key ss = ((wr_id w, wr_next_seq w), ss1)"
    using Cons.prems(1) assms(2) by (simp add: fresh_def allocate_known ss1_def w1_def)
  have l1: "later key w ss w1 ss1" by (simp add: later_def ss1_def w1_def)
  have f1: "fresh ulids key ss1 w1 (tx_rows t)" using Cons.prems(1) l1 by (rule fresh_later)
  have id1: "wr_id w1 = wr_id w" "wr_next_seq w1 = wr_next_seq w + 1" "missing_seqs w1 = missing_seqs w"
    "wr_started w1 = wr_started w" by (simp_all add: w1_def missing_seqs_def)
  obtain r t1 ss2 where ins: "insert_meta env (wr_id w) (wr_next_seq w) KIND_GAP ''audit.gap'' GAP_REASON
      (gap_payload g) (if gr_lost g \<noteq> 0 then ''error'' else ''warning'') t ss1 = (r, t1, ss2)"
    by (metis surj_pair)
  then have "later key w1 ss1 w1 ss2 \<and> fresh ulids key ss2 w1 (tx_rows t1)"
    using insert_meta_fresh [OF assms(1,2) f1, of "wr_next_seq w"] id1 by (metis zless_add1_eq)
  then have l2: "later key w1 ss1 w1 ss2" and f2: "fresh ulids key ss2 w1 (tx_rows t1)" by simp_all
  show ?case
  proof (cases r)
    case (Inl e)
    then have "res = Inl e" "extra' = extra @ [wr_next_seq w]" "t' = t1" "ss' = ss2"
      using Cons.prems(2) al ins by simp_all
    moreover have "{wr_next_seq w..<wr_next_seq w1} = {wr_next_seq w}" using id1 by auto
    moreover have "later key w ss w1 ss2" using l1 l2 later_trans by blast
    ultimately show ?thesis using f2 id1 by (intro exI [of _ w1]) (simp add: gaps_written_def)
  next
    case (Inr x)
    then have rest: "write_gaps env key (wr_id w1) gs (extra @ [wr_next_seq w]) t1 ss2 = (res, extra', t', ss')"
      using Cons.prems(2) al ins id1 by simp
    have one: "speaks_for (wr_id w) (tx_rows t1) (wr_next_seq w)"
        "\<forall>n \<in> gap_span g. speaks_for (wr_id w) (tx_rows t1) n"
      using gap_row_no_clash_later [OF Cons.prems(1) assms(2) _ _ ins [unfolded Inr]]
      by (simp_all add: ss1_def w1_def)
    obtain w' where "gaps_written ulids key w1 ss2 gs (set (extra @ [wr_next_seq w])) (\<not> isl res) (set extra') t' ss' w'"
      using Cons.IH [OF f2 rest] by blast
    then have w': "later key w1 ss2 w' ss'" "fresh ulids key ss' w' (tx_rows t')"
        "missing_seqs w' = missing_seqs w1" "wr_started w' = wr_started w1"
        "set extra' = set (extra @ [wr_next_seq w]) \<union> {wr_next_seq w1..<wr_next_seq w'}"
        "\<And>n. \<not> isl res \<Longrightarrow> n \<in> {wr_next_seq w1..<wr_next_seq w'} \<union> (\<Union>g \<in> set gs. gap_span g)
           \<Longrightarrow> speaks_for (wr_id w1) (tx_rows t') n"
      unfolding gaps_written_def by blast+
    have sub: "speaks_for (wr_id w) (tx_rows t1) n \<Longrightarrow> speaks_for (wr_id w) (tx_rows t') n" for n
      using speaks_for_mono extends_set write_gaps_extends [OF rest] by blast
    have "later key w ss w' ss'" using l1 l2 w'(1) later_trans by blast
    moreover have "{wr_next_seq w..<wr_next_seq w'} = insert (wr_next_seq w) {wr_next_seq w1..<wr_next_seq w'}"
      using later_next [OF w'(1)] id1 by auto
    moreover have "speaks_for (wr_id w) (tx_rows t') n"
      if "\<not> isl res" "n \<in> {wr_next_seq w..<wr_next_seq w'} \<union> (\<Union>g \<in> set (g # gs). gap_span g)" for n
    proof -
      have "n \<in> insert (wr_next_seq w) (gap_span g) \<or>
              n \<in> {wr_next_seq w1..<wr_next_seq w'} \<union> (\<Union>g \<in> set gs. gap_span g)"
        using that(2) unfolding calculation(2) by (simp, blast)
      then show ?thesis using one sub w'(6) [OF that(1)] id1(1) by (metis insert_iff)
    qed
    ultimately show ?thesis
      using w'(2-5) id1 unfolding gaps_written_def by (intro exI [of _ w']) simp
  qed
qed

lemma fresh_missing:
  assumes "fresh ulids key ss w rows" "ss_writers ss' key = Some (w\<lparr>wr_missing := m\<rparr>)" "ss_minted ss' = ss_minted ss"
  shows "later key w ss (w\<lparr>wr_missing := m\<rparr>) ss' \<and> fresh ulids key ss' (w\<lparr>wr_missing := m\<rparr>) rows"
proof -
  have "later key w ss (w\<lparr>wr_missing := m\<rparr>) ss'" using assms(2,3) by (simp add: later_def)
  then show ?thesis using assms(1) fresh_later by blast
qed

lemma restore_gaps_fresh:
  assumes "fresh ulids key ss w rows"
  shows "\<exists>w'. later key w ss w' (restore_gaps key (wr_id w) gaps ss)
           \<and> fresh ulids key (restore_gaps key (wr_id w) gaps ss) w' rows \<and> wr_next_seq w' = wr_next_seq w
           \<and> missing_seqs w' = missing_seqs w \<union> (\<Union>g \<in> set gaps. ms_seq ` set (gr_items g))"
proof -
  define w' where "w' = w\<lparr>wr_missing := wr_missing w @ concat (map gr_items gaps)\<rparr>"
  have "ss_writers (restore_gaps key (wr_id w) gaps ss) key = Some w'"
    using assms by (simp add: restore_gaps_writer fresh_writer w'_def)
  then have "later key w ss w' (restore_gaps key (wr_id w) gaps ss)
      \<and> fresh ulids key (restore_gaps key (wr_id w) gaps ss) w' rows"
    using fresh_missing [OF assms] by (simp add: w'_def)
  moreover have "wr_next_seq w' = wr_next_seq w" by (simp add: w'_def)
  moreover have "missing_seqs w' = missing_seqs w \<union> (\<Union>g \<in> set gaps. ms_seq ` set (gr_items g))"
    by (simp add: w'_def missing_seqs_def image_Un image_UN)
  ultimately show ?thesis by blast
qed

lemma note_failure_fresh:
  assumes "fresh ulids key ss w rows"
  shows "\<exists>w'. later key w ss w' (note_failure key (wr_id w) n e spooled own ss)
           \<and> fresh ulids key (note_failure key (wr_id w) n e spooled own ss) w' rows \<and> wr_next_seq w' = wr_next_seq w
           \<and> missing_seqs w' = insert n (missing_seqs w)"
proof -
  define w' where "w' = w\<lparr>wr_missing := wr_missing w @ [\<lparr>ms_seq = n, ms_cause = exn_class e, ms_spooled = spooled\<rparr>]\<rparr>"
  have "ss_writers (note_failure key (wr_id w) n e spooled own ss) key = Some w'"
    using assms by (simp add: note_failure_writer fresh_writer w'_def)
  then have "later key w ss w' (note_failure key (wr_id w) n e spooled own ss)
      \<and> fresh ulids key (note_failure key (wr_id w) n e spooled own ss) w' rows"
    using fresh_missing [OF assms] by (simp add: w'_def)
  moreover have "wr_next_seq w' = wr_next_seq w" by (simp add: w'_def)
  moreover have "missing_seqs w' = insert n (missing_seqs w)" by (simp add: w'_def missing_seqs_def)
  ultimately show ?thesis by blast
qed

lemma note_own_fresh:
  assumes "fresh ulids key ss w rows"
  shows "\<exists>w'. later key w ss w' (note_own key (wr_id w) e extra ss)
           \<and> fresh ulids key (note_own key (wr_id w) e extra ss) w' rows \<and> wr_next_seq w' = wr_next_seq w
           \<and> missing_seqs w' = missing_seqs w \<union> set extra"
  using assms
proof (induction extra arbitrary: ss w)
  case Nil
  then show ?case by (intro exI [of _ w]) (simp add: note_own_def later_refl fresh_writer)
next
  case (Cons n extra)
  let ?ss = "note_failure key (wr_id w) n e False True ss"
  obtain w1 where w1: "later key w ss w1 ?ss" "fresh ulids key ?ss w1 rows" "wr_next_seq w1 = wr_next_seq w"
      "missing_seqs w1 = insert n (missing_seqs w)"
    using note_failure_fresh [OF Cons.prems] by blast
  have id1: "wr_id w1 = wr_id w" using w1(1) by (simp add: later_def)
  obtain w' where w': "later key w1 ?ss w' (note_own key (wr_id w1) e extra ?ss)"
      "fresh ulids key (note_own key (wr_id w1) e extra ?ss) w' rows" "wr_next_seq w' = wr_next_seq w1"
      "missing_seqs w' = missing_seqs w1 \<union> set extra"
    using Cons.IH [OF w1(2)] by blast
  have "note_own key (wr_id w) e (n # extra) ss = note_own key (wr_id w1) e extra ?ss"
    by (simp add: note_own_def id1)
  moreover have "later key w ss w' (note_own key (wr_id w1) e extra ?ss)" using w1(1) w'(1) later_trans by blast
  ultimately show ?case using w' w1 by (intro exI [of _ w']) auto
qed

text \<open>The preamble of a write, then the whole transaction.\<close>

definition preamble_written ::
  "(nat \<Rightarrow> string) \<Rightarrow> string \<Rightarrow> writer \<Rightarrow> seq_state \<Rightarrow> gap_range list result \<Rightarrow> int list \<Rightarrow> tx \<Rightarrow> seq_state
    \<Rightarrow> writer \<Rightarrow> bool"
where
  "preamble_written ulids key w ss res extra t' ss' w' \<longleftrightarrow>
     later key w ss w' ss' \<and> fresh ulids key ss' w' (tx_rows t')
     \<and> set extra = {wr_next_seq w..<wr_next_seq w'}
     \<and> (case res of
          Inl _ \<Rightarrow> missing_seqs w \<subseteq> missing_seqs w'
        | Inr gaps \<Rightarrow>
            (\<forall>g \<in> set gaps. gap_ok g)
            \<and> missing_seqs w \<subseteq> missing_seqs w' \<union> (\<Union>g \<in> set gaps. gap_span g)
            \<and> (\<forall>n \<in> {wr_next_seq w..<wr_next_seq w'} \<union> (\<Union>g \<in> set gaps. gap_span g).
                 speaks_for (wr_id w) (tx_rows t') n))"

lemma write_start_fresh:
  assumes "inj ulids" "le_ulids env = ulids" "fresh ulids key ss w (tx_rows t)"
    and "write_start env key (wr_id w) t ss = (res, t', ss')"
  shows "later key w ss w ss' \<and> fresh ulids key ss' w (tx_rows t')"
proof (cases "has_started key ss")
  case True
  then show ?thesis using assms(3,4) by (auto simp: write_start_def later_refl fresh_writer)
next
  case False
  have "START_SEQ < wr_next_seq w" using assms(3) by (simp add: fresh_def START_SEQ_def)
  moreover have "insert_meta env (wr_id w) START_SEQ KIND_WRITER WRITER_START
      ''this process began writing to the ledger'' (process_identity env) ''info'' t ss = (res, t', ss')"
    using False assms(4) by (simp add: write_start_def)
  ultimately show ?thesis using insert_meta_fresh [OF assms(1-3)] by blast
qed

lemma claim_gaps_fresh:
  assumes "fresh ulids key ss w rows" "claim_gaps key (wr_id w) ss = (gaps, ss')"
  shows "\<exists>w'. later key w ss w' ss' \<and> fresh ulids key ss' w' rows \<and> wr_next_seq w' = wr_next_seq w
           \<and> (\<forall>g \<in> set gaps. gap_ok g)
           \<and> missing_seqs w = missing_seqs w' \<union> (\<Union>g \<in> set gaps. gap_span g)"
proof -
  show ?thesis
  proof (rule claim_gaps_cases [OF fresh_writer [OF assms(1)] assms(2)])
    fix w'
    assume w': "ss' = set_writer key w' ss \<or> ss' = ss \<and> w' = w" "wr_id w' = wr_id w"
      "wr_next_seq w' = wr_next_seq w" "\<forall>g \<in> set gaps. gap_ok g"
      "missing_seqs w = missing_seqs w' \<union> (\<Union>g \<in> set gaps. gap_span g)"
    have "later key w ss w' ss'" using w'(1-3) fresh_writer [OF assms(1)] by (auto simp: later_def)
    moreover from this have "fresh ulids key ss' w' rows" using assms(1) fresh_later by blast
    ultimately show ?thesis using w'(3-5) by blast
  qed
qed

lemma write_preamble_accounts:
  assumes "inj ulids" "le_ulids env = ulids" "fresh ulids key ss w (tx_rows t)"
    and "write_preamble env key (wr_id w) t ss = (res, extra, t', ss')"
  shows "\<exists>w'. preamble_written ulids key w ss res extra t' ss' w'"
proof -
  obtain r t1 ss1 where st: "write_start env key (wr_id w) t ss = (r, t1, ss1)" by (metis surj_pair)
  from write_start_fresh [OF assms(1-3) st]
  have l1: "later key w ss w ss1" and f1: "fresh ulids key ss1 w (tx_rows t1)" by simp_all
  show ?thesis
  proof (cases r)
    case (Inl e)
    then have "res = Inl e" "extra = []" "t' = t1" "ss' = ss1" using assms(4) st by (simp_all add: write_preamble_def)
    then show ?thesis using l1 f1 by (intro exI [of _ w]) (simp add: preamble_written_def)
  next
    case (Inr x)
    obtain gaps ss2 where cl: "claim_gaps key (wr_id w) ss1 = (gaps, ss2)" by (metis surj_pair)
    obtain w1 where w1: "later key w ss1 w1 ss2" "fresh ulids key ss2 w1 (tx_rows t1)" "wr_next_seq w1 = wr_next_seq w"
        "\<forall>g \<in> set gaps. gap_ok g" "missing_seqs w = missing_seqs w1 \<union> (\<Union>g \<in> set gaps. gap_span g)"
      using claim_gaps_fresh [OF f1 cl] by blast
    have id1: "wr_id w1 = wr_id w" using w1(1) by (simp add: later_def)
    obtain g extra2 t2 ss3 where wg: "write_gaps env key (wr_id w1) gaps [] t1 ss2 = (g, extra2, t2, ss3)"
      by (metis surj_pair)
    obtain w2 where "gaps_written ulids key w1 ss2 gaps (set []) (\<not> isl g) (set extra2) t2 ss3 w2"
      using write_gaps_accounts [OF assms(1,2) w1(2) wg] by blast
    then have w2: "later key w1 ss2 w2 ss3" "fresh ulids key ss3 w2 (tx_rows t2)" "missing_seqs w2 = missing_seqs w1"
        "set extra2 = {wr_next_seq w..<wr_next_seq w2}"
        "\<not> isl g \<Longrightarrow> \<forall>n \<in> {wr_next_seq w..<wr_next_seq w2} \<union> (\<Union>g \<in> set gaps. gap_span g).
           speaks_for (wr_id w) (tx_rows t2) n"
      unfolding gaps_written_def w1(3) id1 by simp_all
    have l2: "later key w ss w2 ss3" using l1 w1(1) w2(1) later_trans by blast
    have id2: "wr_id w2 = wr_id w" using l2 by (simp add: later_def)
    show ?thesis
    proof (cases g)
      case (Inl e)
      then have res: "res = Inl e" "extra = extra2" "t' = t2" "ss' = restore_gaps key (wr_id w2) gaps ss3"
        using assms(4) st cl wg Inr id1 id2 by (simp_all add: write_preamble_def)
      obtain w3 where w3: "later key w2 ss3 w3 ss'" "fresh ulids key ss' w3 (tx_rows t')" "wr_next_seq w3 = wr_next_seq w2"
          "missing_seqs w3 = missing_seqs w2 \<union> (\<Union>g \<in> set gaps. ms_seq ` set (gr_items g))"
        using restore_gaps_fresh [OF w2(2)] unfolding res by blast
      have "missing_seqs w \<subseteq> missing_seqs w3"
        using w1(4,5) w2(3) w3(4) unfolding gap_ok_def by auto
      moreover have "later key w ss w3 ss'" using l2 w3(1) later_trans by blast
      ultimately show ?thesis
        using w3 w2(4) res by (intro exI [of _ w3]) (simp add: preamble_written_def)
    next
      case (Inr u)
      then have "res = Inr gaps" "extra = extra2" "t' = t2" "ss' = ss3"
        using assms(4) st cl wg \<open>r = Inr x\<close> id1 by (simp_all add: write_preamble_def)
      then show ?thesis
        using l2 w2 w1(4,5) Inr by (intro exI [of _ w2]) (simp add: preamble_written_def)
    qed
  qed
qed

definition tx_written ::
  "(nat \<Rightarrow> string) \<Rightarrow> string \<Rightarrow> writer \<Rightarrow> seq_state \<Rightarrow> bool \<Rightarrow> gap_range list \<Rightarrow> int list \<Rightarrow> tx \<Rightarrow> seq_state
    \<Rightarrow> writer \<Rightarrow> bool"
where
  "tx_written ulids key w ss ok gaps extra t' ss' w' \<longleftrightarrow>
     later key w ss w' ss' \<and> fresh ulids key ss' w' (tx_rows t')
     \<and> set extra = {wr_next_seq w..<wr_next_seq w'}
     \<and> (\<not> ok \<longrightarrow> missing_seqs w \<subseteq> missing_seqs w' \<union> (\<Union>g \<in> set gaps. ms_seq ` set (gr_items g)))
     \<and> (ok \<longrightarrow> (\<forall>n \<in> missing_seqs w \<union> {wr_next_seq w..<wr_next_seq w'}.
                 n \<in> missing_seqs w' \<or> speaks_for (wr_id w) (tx_rows t') n))"

lemma stmt_fresh: "fresh ulids key ss w (tx_rows t) \<Longrightarrow> stmt t = (r, t') \<Longrightarrow> fresh ulids key ss w (tx_rows t')"
  by (simp add: stmt_frame)

text \<open>The part of a transaction from the preamble to the commit.\<close>

lemma preamble_tx_written:
  assumes "preamble_written ulids key w ss res extra t' ss' w'"
  shows "isl res \<Longrightarrow> tx_written ulids key w ss False [] extra t' ss' w'"
    and "res = Inr gaps \<Longrightarrow> tx_written ulids key w ss ok gaps extra t' ss' w'"
proof -
  show "tx_written ulids key w ss False [] extra t' ss' w'" if "isl res"
    using assms that by (cases res) (simp_all add: preamble_written_def tx_written_def)
  show "tx_written ulids key w ss ok gaps extra t' ss' w'" if "res = Inr gaps"
    using assms that unfolding preamble_written_def tx_written_def gap_ok_def by auto
qed

lemma tx_written_frame:
  "tx_written ulids key w ss ok gaps extra t ss' w' \<Longrightarrow> tx_rows t' = tx_rows t
    \<Longrightarrow> tx_written ulids key w ss ok gaps extra t' ss' w'"
  by (simp add: tx_written_def)

lemma write_tx_accounts:
  assumes "inj ulids" "le_ulids env = ulids" "fresh ulids key ss w (tx_rows t)"
    and "lr_writer_id r = Some (wr_id w)" "lr_writer_seq r = Some n" "n < wr_next_seq w"
    and "\<forall>k \<ge> ss_minted ss. lr_record_id r \<noteq> Some (ulids k)"
    and "write_tx env key (wr_id w) r t ss = (res, gaps, extra, t', ss')"
  shows "\<exists>w'. tx_written ulids key w ss (\<not> isl res) gaps extra t' ss' w'
           \<and> (\<not> isl res \<longrightarrow> speaks_for (wr_id w) (tx_rows t') n)"
proof -
  obtain r1 t1 where s1: "stmt t = (r1, t1)" by (metis surj_pair)
  have f1: "fresh ulids key ss w (tx_rows t1)" using stmt_fresh [OF assms(3) s1] .
  obtain r2 t2 where s2: "tx_insert False r t1 = (r2, t2)" by (metis surj_pair)
  have f2: "fresh ulids key ss w (tx_rows t2)
      \<and> (\<not> isl r2 \<longrightarrow> speaks_for (wr_id w) (tx_rows t2) n)"
    using s2
  proof (cases rule: tx_insert_cases)
    case inserted
    then show ?thesis using fresh_snoc [OF f1 assms(4-7)] assms(4,5) by (simp add: speaks_for_def)
  qed (use f1 in simp_all)
  obtain r3 ex t3 ss3 where s3: "write_preamble env key (wr_id w) t2 ss = (r3, ex, t3, ss3)" by (metis surj_pair)
  obtain w' where w': "preamble_written ulids key w ss r3 ex t3 ss3 w'"
    using write_preamble_accounts [OF assms(1,2) _ s3] f2 by blast
  obtain r4 t4 where s4: "stmt t3 = (r4, t4)" by (metis surj_pair)
  show ?thesis
  proof (cases "isl r1 \<or> isl r2")
    case True
    then have "isl res \<and> gaps = [] \<and> extra = [] \<and> ss' = ss \<and> (t' = t1 \<or> t' = t2)"
      using assms(8) s1 s2 by (cases r1; cases r2) (auto simp: write_tx_def)
    moreover from this have "fresh ulids key ss w (tx_rows t')" using f1 f2 by blast
    then have "tx_written ulids key w ss False [] [] t' ss w"
      by (simp add: tx_written_def later_refl fresh_writer)
    ultimately show ?thesis by (intro exI [of _ w]) simp
  next
    case False
    then obtain u i where ok: "r1 = Inr u" "r2 = Inr i" by (metis sum.collapse(2))
    show ?thesis
    proof (cases r3)
      case (Inl e)
      then show ?thesis using assms(8) s1 s2 s3 ok preamble_tx_written(1) [OF w']
        by (intro exI [of _ w']) (auto simp: write_tx_def)
    next
      case (Inr gs)
      have res: "res = (case r4 of Inl e \<Rightarrow> Inl e | Inr _ \<Rightarrow> Inr i)" "gaps = gs" "extra = ex" "t' = t4" "ss' = ss3"
        using assms(8) s1 s2 s3 s4 ok Inr by (auto simp: write_tx_def split: sum.splits)
      have "tx_written ulids key w ss (\<not> isl res) gaps extra t' ss' w'"
        using preamble_tx_written(2) [OF w' Inr] tx_written_frame stmt_frame [OF s4] res by blast
      moreover have "speaks_for (wr_id w) (tx_rows t') n"
        using f2 ok res stmt_frame [OF s4] write_preamble_extends [OF s3] extends_set speaks_for_mono
        by (metis sum.disc(2))
      ultimately show ?thesis by blast
    qed
  qed
qed

section \<open>The rows that wait in the spool\<close>

definition line_row :: "dict \<Rightarrow> ledger_row" where
  "line_row d = make_row (spooled_args d) (str_field d ''ts'') (str_field d ''record_id'') (str_field d ''writer_id'')
     (int_field d ''writer_seq'') (opt_str_field d ''kind'')"

definition good_lines :: "audit_state \<Rightarrow> dict list" where
  "good_lines s = fst (split_valid (lines_of (al_spool s)))"

definition spool_rows :: "audit_state \<Rightarrow> ledger_row list" where
  "spool_rows s = map line_row (good_lines s)"

definition same_ids :: "ledger_row \<Rightarrow> ledger_row \<Rightarrow> bool" where
  "same_ids r q \<longleftrightarrow> lr_record_id q = lr_record_id r \<and> lr_writer_id q = lr_writer_id r \<and> lr_writer_seq q = lr_writer_seq r"

text \<open>Every row on the right carries the ids of a row on the left.\<close>

definition ids_within :: "ledger_row list \<Rightarrow> ledger_row list \<Rightarrow> bool" where
  "ids_within rows rows' \<longleftrightarrow> (\<forall>q \<in> set rows'. \<exists>r \<in> set rows. same_ids r q)"

lemma unused_ids_within: "unused_ids ulids k rows \<Longrightarrow> ids_within rows rows' \<Longrightarrow> unused_ids ulids k rows'"
  unfolding unused_ids_def ids_within_def same_ids_def by metis

lemma unused_ids_mono: "unused_ids ulids k rows \<Longrightarrow> k \<le> k' \<Longrightarrow> unused_ids ulids k' rows"
  unfolding unused_ids_def by (meson order_trans)

lemma seqs_below_within: "seqs_below w rows \<Longrightarrow> ids_within rows rows' \<Longrightarrow> seqs_below w rows'"
  unfolding seqs_below_def ids_within_def same_ids_def by metis

lemma fresh_within: "fresh ulids key ss w rows \<Longrightarrow> ids_within rows rows' \<Longrightarrow> fresh ulids key ss w rows'"
  unfolding fresh_def using unused_ids_within seqs_below_within by blast

lemma ids_within_subset: "set rows' \<subseteq> set rows \<Longrightarrow> ids_within rows rows'"
  unfolding ids_within_def same_ids_def by blast

lemma ids_within_append: "ids_within rows xs \<Longrightarrow> ids_within rows ys \<Longrightarrow> ids_within rows (xs @ ys)"
  unfolding ids_within_def by auto

lemma fresh_append: "fresh ulids key ss w (xs @ ys) \<longleftrightarrow> fresh ulids key ss w xs \<and> fresh ulids key ss w ys"
  by (auto simp: fresh_def unused_ids_def seqs_below_def)

lemma line_row_ids [simp]:
  "lr_record_id (line_row d) = Some (str_field d ''record_id'')"
  "lr_writer_id (line_row d) = Some (str_field d ''writer_id'')"
  "lr_writer_seq (line_row d) = Some (int_field d ''writer_seq'')"
  by (simp_all add: line_row_def)

lemma same_ids_spooled_row: "same_ids (line_row d) ((spooled_row env d)\<lparr>lr_id := i\<rparr>)"
  by (simp add: same_ids_def spooled_row_def)

lemma same_ids_sorted: "same_ids (line_row d) (line_row (sorted_dict d))"
  by (simp add: same_ids_def)

lemma same_ids_refl: "same_ids r r"
  by (simp add: same_ids_def)

lemma spool_record_ids [simp]:
  "str_field (spool_record args ts rid wid n kind) ''record_id'' = rid"
  "str_field (spool_record args ts rid wid n kind) ''writer_id'' = wid"
  "int_field (spool_record args ts rid wid n kind) ''writer_seq'' = n"
  by (simp_all add: spool_record_def Let_def str_field_def int_field_def dict_simps)

lemma add_text_lines:
  assumes "l \<in> set (add_text ls txt line newline)" "parse_line l = Some d"
  shows "l \<in> set ls \<or> l = line"
proof (cases "ls = []")
  case True
  then show ?thesis using assms by (simp add: add_text_def)
next
  case False
  have "parse_line (Raw x) = None" "parse_line (Torn x) = None" for x by (simp_all add: parse_line_def)
  then show ?thesis
    using assms False by (auto simp: add_text_def dest: in_set_butlastD split: spool_line.splits if_splits)
qed

lemma append_line_lines:
  assumes "append_line f rec sp = (r, sp')"
  shows "lines_of sp' = lines_of sp
       \<or> (\<exists>txt nl line. lines_of sp' = add_text (lines_of sp) txt line nl
            \<and> (line = Json (PDict (sorted_dict rec)) \<or> (\<exists>x. line = Torn x)))"
proof (cases f)
  case (ShortWrite n)
  then obtain x where "lines_of sp' = add_text (lines_of sp) x (Torn x) False"
    using assms by (auto simp: append_line_def Let_def lines_of_def simp del: json_dumps.simps)
  then show ?thesis by blast
next
  case (Refused e)
  then show ?thesis using assms by (simp add: append_line_def Let_def)
next
  case Wrote
  then have "lines_of sp' = add_text (lines_of sp) (json_dumps (PDict (sorted_dict rec))) (Json (PDict (sorted_dict rec))) True"
    using assms by (auto simp: append_line_def Let_def lines_of_def simp del: json_dumps.simps)
  then show ?thesis by blast
next
  case (SyncFailed e)
  then have "lines_of sp' = add_text (lines_of sp) (json_dumps (PDict (sorted_dict rec))) (Json (PDict (sorted_dict rec))) True"
    using assms by (auto simp: append_line_def Let_def lines_of_def simp del: json_dumps.simps)
  then show ?thesis by blast
qed

lemma append_line_good:
  assumes "append_line f rec sp = (r, sp')" "d \<in> set (fst (split_valid (lines_of sp')))"
  shows "d \<in> set (fst (split_valid (lines_of sp))) \<or> d = sorted_dict rec"
proof -
  obtain l where l: "l \<in> set (lines_of sp')" "parse_line l = Some d"
    using assms(2) by (auto simp: split_valid_good_set)
  have "parse_line (Torn x) = None" for x by (simp add: parse_line_def)
  then have "l \<in> set (lines_of sp) \<or> l = Json (PDict (sorted_dict rec))"
    using append_line_lines [OF assms(1)] l add_text_lines by (metis option.distinct(1))
  then show ?thesis
  proof
    assume "l \<in> set (lines_of sp)"
    then show ?thesis using l(2) by (auto simp: split_valid_good_set)
  next
    assume "l = Json (PDict (sorted_dict rec))"
    then show ?thesis using parse_line_SomeD [OF l(2)] by simp
  qed
qed

text \<open>Replaying lines: each row that is new is the row of a line, and no old row changes.\<close>

definition from_lines :: "log_env \<Rightarrow> dict list \<Rightarrow> ledger_row list \<Rightarrow> bool" where
  "from_lines env recs added \<longleftrightarrow> (\<forall>q \<in> set added. \<exists>d \<in> set recs. \<exists>i. q = (spooled_row env d)\<lparr>lr_id := i\<rparr>)"

lemma insert_spooled_rows:
  "insert_spooled env recs t = (res, t') \<Longrightarrow> \<exists>added. tx_rows t' = tx_rows t @ added \<and> from_lines env recs added"
proof (induction recs arbitrary: t)
  case Nil
  then show ?case by (simp add: from_lines_def)
next
  case (Cons rec recs)
  obtain r t1 where i: "tx_insert True (spooled_row env rec) t = (r, t1)" by (metis surj_pair)
  then obtain one where one: "tx_rows t1 = tx_rows t @ one" "from_lines env [rec] one"
  proof (cases rule: tx_insert_cases)
    case inserted
    then show ?thesis using that [of "[(spooled_row env rec)\<lparr>lr_id := tx_autoinc t + 1\<rparr>]"]
      by (auto simp: from_lines_def)
  qed (use that [of "[]"] in \<open>simp_all add: from_lines_def\<close>)
  show ?case
  proof (cases r)
    case (Inl e)
    then have "t' = t1" using Cons.prems i by simp
    then show ?thesis using one by (intro exI [of _ one]) (simp add: from_lines_def)
  next
    case (Inr x)
    then have "insert_spooled env recs t1 = (res, t')" using Cons.prems i by simp
    then obtain more where "tx_rows t' = tx_rows t1 @ more" "from_lines env recs more" using Cons.IH by blast
    then show ?thesis using one by (intro exI [of _ "one @ more"]) (auto simp: from_lines_def)
  qed
qed

lemma apply_spooled_effect:
  assumes "apply_spooled env faults recs s = (res, s')"
  shows "(res = Inr True \<or> s' = s) \<and> al_seq s' = al_seq s \<and> al_spool s' = al_spool s
       \<and> (\<exists>added. al_db s' = al_db s @ added \<and> from_lines env recs added)"
proof -
  obtain r1 t1 where s1: "stmt (begin_tx faults s) = (r1, t1)" by (metis surj_pair)
  obtain r2 t2 where s2: "insert_spooled env recs t1 = (r2, t2)" by (metis surj_pair)
  obtain r3 t3 where s3: "stmt t2 = (r3, t3)" by (metis surj_pair)
  have none: "\<exists>added. al_db s = al_db s @ added \<and> from_lines env recs added"
    by (intro exI [of _ "[]"]) (simp add: from_lines_def)
  have rows: "\<exists>added. tx_rows t3 = al_db s @ added \<and> from_lines env recs added"
    using insert_spooled_rows [OF s2] stmt_frame [OF s1] stmt_frame [OF s3] by (simp add: begin_tx_def)
  show ?thesis
    using assms s1 s2 s3 none rows
    by (cases r1; cases r2; cases r3) (auto simp: apply_spooled_def commit_tx_def Let_def)
qed

lemma drain_effect:
  assumes "drain f app sp w = (r, sp', w')"
  shows "w' = w \<or> (\<exists>r2. app (fst (split_valid (lines_of sp))) w = (r2, w'))"
    and "d \<in> set (fst (split_valid (lines_of sp'))) \<Longrightarrow>
          \<exists>d0 \<in> set (fst (split_valid (lines_of sp))). d = d0 \<or> d = sorted_dict d0"
proof -
  obtain good bad where gb: "split_valid (lines_of sp) = (good, bad)" by (metis surj_pair)
  obtain good1 bad1 where rv: "read_valid f sp = (good1, bad1)" by (metis surj_pair)
  have g1: "good1 = good \<or> good1 = []" using rv gb by (auto simp: read_valid_def split: if_splits)
  have w1: "w' = w \<or> (\<exists>r2. app good1 w = (r2, w'))"
    if "drain_apply f app good1 b sp0 w = (r, sp', w')" for b sp0
    using that by (auto simp: drain_apply_def split: if_splits prod.splits sum.splits bool.splits)
  have good_sorted: "\<exists>d0 \<in> set recs. d = sorted_dict d0"
    if "d \<in> set (fst (split_valid (map (\<lambda>r. Json (json_sorted (PDict r))) recs)))" for d recs
    using that by (auto simp: split_valid_good_set dest: parse_line_SomeD)
  have l1: "lines_of sp' = lines_of sp0 \<or> lines_of sp' = [] \<or> lines_of sp' = map (\<lambda>r. Json (json_sorted (PDict r))) good1"
    if "drain_apply f app good1 b sp0 w = (r, sp', w')" for b sp0
    using that by (auto simp: drain_apply_def rewrite_def lines_of_def
        split: if_splits prod.splits sum.splits bool.splits option.splits)
  have cases: "(w' = w \<and> sp' = sp) \<or> drain_apply f app good1 bad1 (sp\<lparr>sp_rejected := sp_rejected sp @ bad1\<rparr>) w = (r, sp', w')"
    using assms rv by (auto simp: drain_def split: if_splits option.splits)
  show "w' = w \<or> (\<exists>r2. app (fst (split_valid (lines_of sp))) w = (r2, w'))"
  proof (cases "good1 = []")
    case True
    then show ?thesis
      using cases by (auto simp: drain_apply_def rewrite_def split: option.splits if_splits)
  next
    case False
    then show ?thesis using cases w1 g1 gb by auto
  qed
  have "lines_of (sp\<lparr>sp_rejected := sp_rejected sp @ bad1\<rparr>) = lines_of sp" by (simp add: lines_of_def)
  then have l2: "lines_of sp' = lines_of sp \<or> lines_of sp' = []
      \<or> lines_of sp' = map (\<lambda>r. Json (json_sorted (PDict r))) good1"
    using cases l1 by metis
  show "\<exists>d0 \<in> set (fst (split_valid (lines_of sp))). d = d0 \<or> d = sorted_dict d0"
    if mem: "d \<in> set (fst (split_valid (lines_of sp')))"
    using l2
  proof (elim disjE)
    assume "lines_of sp' = map (\<lambda>r. Json (json_sorted (PDict r))) good1"
    then have "\<exists>d0 \<in> set good1. d = sorted_dict d0" using mem good_sorted by metis
    then show ?thesis using g1 gb by auto
  qed (use mem in auto)
qed

lemma drain_spool_effect:
  assumes "drain_spool env f faults s = (n, s')"
  shows "al_seq s' = al_seq s"
    and "\<exists>added. al_db s' = al_db s @ added \<and> from_lines env (good_lines s) added"
    and "ids_within (spool_rows s) (spool_rows s')"
proof -
  obtain res sp s1 where d: "drain f (apply_spooled env faults) (al_spool s) s = (res, sp, s1)" by (metis surj_pair)
  have none: "\<exists>added. al_db s = al_db s @ added \<and> from_lines env (good_lines s) added"
    by (intro exI [of _ "[]"]) (simp add: from_lines_def)
  have eff: "al_seq s1 = al_seq s \<and> (\<exists>added. al_db s1 = al_db s @ added \<and> from_lines env (good_lines s) added)"
    using drain_effect(1) [OF d] none apply_spooled_effect unfolding good_lines_def by metis
  have "s' = s \<or> s' = s1\<lparr>al_spool := sp\<rparr>"
    using assms d by (auto simp: drain_spool_def split: if_splits)
  then show "al_seq s' = al_seq s" "\<exists>added. al_db s' = al_db s @ added \<and> from_lines env (good_lines s) added"
    using eff none by auto
  have "\<exists>d0 \<in> set (good_lines s). d = d0 \<or> d = sorted_dict d0" if "d \<in> set (good_lines (s1\<lparr>al_spool := sp\<rparr>))" for d
    using drain_effect(2) [OF d] that by (simp add: good_lines_def)
  then have "ids_within (spool_rows s) (spool_rows (s1\<lparr>al_spool := sp\<rparr>))"
    unfolding ids_within_def spool_rows_def using same_ids_sorted same_ids_refl by fastforce
  moreover have "ids_within (spool_rows s) (spool_rows s)" by (simp add: ids_within_subset)
  ultimately show "ids_within (spool_rows s) (spool_rows s')"
    using \<open>s' = s \<or> s' = s1\<lparr>al_spool := sp\<rparr>\<close> by auto
qed

section \<open>The invariant of the ledger\<close>

text \<open>\<open>arch\<close> holds the rows of the archive's chunks. The ids the generator has not handed out occur nowhere,
  and every number of this process's writer is accounted for.\<close>

definition ledger_inv :: "(nat \<Rightarrow> string) \<Rightarrow> string \<Rightarrow> ledger_row list \<Rightarrow> audit_state \<Rightarrow> bool" where
  "ledger_inv ulids key arch s \<longleftrightarrow>
     unused_ids ulids (ss_minted (al_seq s)) (al_db s @ spool_rows s)
     \<and> (\<forall>w. ss_writers (al_seq s) key = Some w \<longrightarrow>
          fresh ulids key (al_seq s) w (al_db s @ spool_rows s) \<and> accounted w (al_db s @ arch))"

lemma accounted_step:
  assumes "accounted w rows" "wr_id w' = wr_id w" "set rows \<subseteq> set rows'"
    and "\<And>n. n \<in> missing_seqs w \<union> {wr_next_seq w..<wr_next_seq w'} \<Longrightarrow> n \<in> missing_seqs w' \<or> speaks_for (wr_id w) rows' n"
  shows "accounted w' rows'"
  unfolding accounted_iff
proof (intro allI impI)
  fix n assume n: "1 \<le> n \<and> n < wr_next_seq w'"
  show "speaks_for (wr_id w') rows' n \<or> n \<in> missing_seqs w'"
  proof (cases "n < wr_next_seq w")
    case True
    then show ?thesis using assms n speaks_for_mono unfolding accounted_iff by (metis UnI1)
  next
    case False
    then show ?thesis using assms(2) assms(4) [of n] n by auto
  qed
qed

text \<open>After a number was handed out: every earlier one is accounted for, and nothing else moved.\<close>

lemma allocate_inv:
  assumes "inj ulids" "ledger_inv ulids key arch s" "allocate ulids key (al_seq s) = ((wid, n), ss)"
  obtains w where "wid = wr_id w" "wr_next_seq w = n + 1"
    "fresh ulids key ss w (al_db s @ spool_rows s)" "accounted (w\<lparr>wr_next_seq := n\<rparr>) (al_db s @ arch)"
    "seqs_below (w\<lparr>wr_next_seq := n\<rparr>) (al_db s @ spool_rows s)"
    "wr_missing w = (case ss_writers (al_seq s) key of None \<Rightarrow> [] | Some w0 \<Rightarrow> wr_missing w0)"
    "n = (case ss_writers (al_seq s) key of None \<Rightarrow> 1 | Some w0 \<Rightarrow> wr_next_seq w0)"
proof (cases "ss_writers (al_seq s) key")
  case None
  define w where "w = \<lparr>wr_id = ulids (ss_minted (al_seq s)), wr_next_seq = 2, wr_started = False, wr_missing = []\<rparr>"
  have res: "wid = wr_id w" "n = 1" "ss = set_writer key w ((al_seq s)\<lparr>ss_minted := Suc (ss_minted (al_seq s))\<rparr>)"
    using assms(3) None by (auto simp: allocate_new w_def)
  have un: "unused_ids ulids (ss_minted (al_seq s)) (al_db s @ spool_rows s)"
    using assms(2) by (simp add: ledger_inv_def)
  have "seqs_below w (al_db s @ spool_rows s)"
    using un unfolding seqs_below_def unused_ids_def by (auto simp: w_def)
  moreover have below: "seqs_below (w\<lparr>wr_next_seq := n\<rparr>) (al_db s @ spool_rows s)"
    using un unfolding seqs_below_def unused_ids_def by (auto simp: w_def)
  moreover have "unused_ids ulids (ss_minted ss) (al_db s @ spool_rows s)"
    using un unused_ids_mono by (simp add: res)
  moreover have "\<forall>k \<ge> ss_minted ss. ulids k \<noteq> wr_id w"
    using assms(1) by (auto simp: res w_def dest: injD)
  ultimately have "fresh ulids key ss w (al_db s @ spool_rows s)"
    by (simp add: fresh_def res) (simp add: w_def)
  moreover have "accounted (w\<lparr>wr_next_seq := n\<rparr>) (al_db s @ arch)" by (auto simp: accounted_iff res)
  ultimately show ?thesis using that [of w] res below None by (simp add: w_def)
next
  case (Some w0)
  define w where "w = w0\<lparr>wr_next_seq := wr_next_seq w0 + 1\<rparr>"
  have f0: "fresh ulids key (al_seq s) w0 (al_db s @ spool_rows s)" and a0: "accounted w0 (al_db s @ arch)"
    using assms(2) Some by (simp_all add: ledger_inv_def)
  have res: "wid = wr_id w" "n = wr_next_seq w0" "later key w0 (al_seq s) w ss"
    using allocate_fresh [OF f0 assms(3)] by (simp_all add: w_def)
  have "w\<lparr>wr_next_seq := n\<rparr> = w0" by (simp add: w_def res)
  moreover have "seqs_below w0 (al_db s @ spool_rows s)" using f0 by (simp add: fresh_def)
  ultimately show ?thesis using that [of w] res a0 fresh_later [OF f0 res(3)] Some by (simp add: w_def)
qed

text \<open>The end of an operation: what the new state must provide.\<close>

lemma ledger_invI:
  assumes "fresh ulids key (al_seq s') w' (al_db s' @ spool_rows s')" "accounted w' (al_db s' @ arch)"
  shows "ledger_inv ulids key arch s'"
  using assms by (auto simp: ledger_inv_def fresh_def)

lemma drain_spool_inv:
  assumes "ledger_inv ulids key arch s" "drain_spool env f faults s = (n, s')"
  shows "ledger_inv ulids key arch s'"
proof -
  obtain added where db: "al_db s' = al_db s @ added" and fl: "from_lines env (good_lines s) added"
    using drain_spool_effect(2) [OF assms(2)] by blast
  have "ids_within (spool_rows s) added"
    using fl same_ids_spooled_row unfolding from_lines_def ids_within_def spool_rows_def by fastforce
  then have "ids_within (al_db s @ spool_rows s) (al_db s' @ spool_rows s')"
    using drain_spool_effect(3) [OF assms(2)] unfolding ids_within_def db
    using same_ids_refl by (metis UnE UnI1 UnI2 set_append)
  moreover have "accounted w (al_db s' @ arch)" if "accounted w (al_db s @ arch)" for w
    using that unfolding db accounted_iff by auto
  ultimately show ?thesis
    using assms(1) drain_spool_effect(1) [OF assms(2)] unused_ids_within fresh_within
    unfolding ledger_inv_def by metis
qed

lemma after_write_inv: "ledger_inv ulids key arch s \<Longrightarrow> ledger_inv ulids key arch (after_write env fl s)"
  using drain_spool_inv by (auto simp: after_write_def) (metis prod.collapse)

text \<open>A write that failed: its numbers are noted, and the line it may have left carries ids that are in use.\<close>

lemma failed_write_accounts:
  fixes e :: pyexn
  assumes "tx_written ulids key w ss False gaps extra t ss1 w1"
    and "fresh ulids key ss w rows" "wr_next_seq w = n + 1" "accounted (w\<lparr>wr_next_seq := n\<rparr>) arch"
  defines "ss2 \<equiv> note_own key (wr_id w) e extra (restore_gaps key (wr_id w) gaps ss1)"
  shows "\<exists>w2. later key w ss w2 ss2 \<and> fresh ulids key ss2 w2 rows
           \<and> accounted (w2\<lparr>wr_missing := wr_missing w2 @ [\<lparr>ms_seq = n, ms_cause = c, ms_spooled = sp\<rparr>]\<rparr>) arch"
proof -
  have tw: "later key w ss w1 ss1" "set extra = {wr_next_seq w..<wr_next_seq w1}"
      "missing_seqs w \<subseteq> missing_seqs w1 \<union> (\<Union>g \<in> set gaps. ms_seq ` set (gr_items g))"
    using assms(1) by (simp_all add: tx_written_def)
  have f1: "fresh ulids key ss1 w1 rows" using assms(2) tw(1) by (rule fresh_later)
  have id1: "wr_id w1 = wr_id w" using tw(1) by (simp add: later_def)
  obtain wa where wa: "later key w1 ss1 wa (restore_gaps key (wr_id w1) gaps ss1)"
      "fresh ulids key (restore_gaps key (wr_id w1) gaps ss1) wa rows" "wr_next_seq wa = wr_next_seq w1"
      "missing_seqs wa = missing_seqs w1 \<union> (\<Union>g \<in> set gaps. ms_seq ` set (gr_items g))"
    using restore_gaps_fresh [OF f1] by blast
  have ida: "wr_id wa = wr_id w" using wa(1) id1 by (simp add: later_def)
  obtain w2 where w2: "later key wa (restore_gaps key (wr_id w1) gaps ss1) w2 ss2" "fresh ulids key ss2 w2 rows"
      "wr_next_seq w2 = wr_next_seq wa" "missing_seqs w2 = missing_seqs wa \<union> set extra"
    using note_own_fresh [OF wa(2), of e extra] unfolding ss2_def ida id1 by blast
  have lt: "later key w ss w2 ss2" using tw(1) wa(1) w2(1) later_trans by blast
  define w3 where "w3 = w2\<lparr>wr_missing := wr_missing w2 @ [\<lparr>ms_seq = n, ms_cause = c, ms_spooled = sp\<rparr>]\<rparr>"
  have miss: "missing_seqs w \<union> {wr_next_seq w..<wr_next_seq w2} \<union> {n} \<subseteq> missing_seqs w3"
    using tw(2,3) wa(3,4) w2(3,4) by (auto simp: w3_def missing_seqs_def)
  have "accounted w3 arch"
  proof (rule accounted_step [OF assms(4)])
    show "wr_id w3 = wr_id (w\<lparr>wr_next_seq := n\<rparr>)" using lt by (simp add: w3_def later_def)
    fix m assume "m \<in> missing_seqs (w\<lparr>wr_next_seq := n\<rparr>) \<union> {wr_next_seq (w\<lparr>wr_next_seq := n\<rparr>)..<wr_next_seq w3}"
    then have "m \<in> missing_seqs w \<union> {n..<wr_next_seq w2}" by (simp add: w3_def missing_seqs_def)
    moreover have "{n..<wr_next_seq w2} \<subseteq> {wr_next_seq w..<wr_next_seq w2} \<union> {n}" using assms(3) by auto
    ultimately show "m \<in> missing_seqs w3 \<or> speaks_for (wr_id (w\<lparr>wr_next_seq := n\<rparr>)) arch m" using miss by blast
  qed simp
  then show ?thesis using lt w2(2) unfolding w3_def by blast
qed

lemma failed_write_noted:
  fixes e :: pyexn and sp own :: bool
  assumes "tx_written ulids key w ss False gaps extra t ss1 w1"
    and "fresh ulids key ss w rows" "wr_next_seq w = n + 1" "accounted (w\<lparr>wr_next_seq := n\<rparr>) arch"
  defines "ss2 \<equiv> note_failure key (wr_id w) n e sp own (note_own key (wr_id w) e extra (restore_gaps key (wr_id w) gaps ss1))"
  shows "\<exists>w2. later key w ss w2 ss2 \<and> fresh ulids key ss2 w2 rows \<and> accounted w2 arch"
proof -
  let ?ss = "note_own key (wr_id w) e extra (restore_gaps key (wr_id w) gaps ss1)"
  obtain wb where wb: "later key w ss wb ?ss" "fresh ulids key ?ss wb rows"
      "accounted (wb\<lparr>wr_missing := wr_missing wb @ [\<lparr>ms_seq = n, ms_cause = exn_class e, ms_spooled = sp\<rparr>]\<rparr>) arch"
    using failed_write_accounts [OF assms(1-4), of e "exn_class e" sp] by blast
  define w2 where "w2 = wb\<lparr>wr_missing := wr_missing wb @ [\<lparr>ms_seq = n, ms_cause = exn_class e, ms_spooled = sp\<rparr>]\<rparr>"
  have "wr_id wb = wr_id w" using wb(1) by (simp add: later_def)
  then have "ss_writers ss2 key = Some w2"
    using wb(1) unfolding ss2_def w2_def by (simp add: note_failure_writer later_def)
  moreover have "ss_minted ss2 = ss_minted ?ss" by (simp add: ss2_def)
  ultimately have "later key wb ?ss w2 ss2 \<and> fresh ulids key ss2 w2 rows"
    using fresh_missing [OF wb(2)] unfolding w2_def by blast
  then show ?thesis using wb(1,3) later_trans unfolding w2_def by blast
qed

text \<open>Noting a number before or after the numbers of the gap rows gives the same counters up to order; the
  proofs need only the sets.\<close>

lemma failed_write_noted':
  fixes e :: pyexn and sp own :: bool
  assumes "tx_written ulids key w ss False gaps extra t ss1 w1"
    and "fresh ulids key ss w rows" "wr_next_seq w = n + 1" "accounted (w\<lparr>wr_next_seq := n\<rparr>) arch"
  defines "ss2 \<equiv> note_own key (wr_id w) e extra (note_failure key (wr_id w) n e sp own (restore_gaps key (wr_id w) gaps ss1))"
  shows "\<exists>w2. later key w ss w2 ss2 \<and> fresh ulids key ss2 w2 rows \<and> accounted w2 arch"
proof -
  have tw: "later key w ss w1 ss1" "set extra = {wr_next_seq w..<wr_next_seq w1}"
      "missing_seqs w \<subseteq> missing_seqs w1 \<union> (\<Union>g \<in> set gaps. ms_seq ` set (gr_items g))"
    using assms(1) by (simp_all add: tx_written_def)
  have f1: "fresh ulids key ss1 w1 rows" using assms(2) tw(1) by (rule fresh_later)
  have id1: "wr_id w1 = wr_id w" using tw(1) by (simp add: later_def)
  let ?sa = "restore_gaps key (wr_id w1) gaps ss1"
  obtain wa where wa: "later key w1 ss1 wa ?sa" "fresh ulids key ?sa wa rows" "wr_next_seq wa = wr_next_seq w1"
      "missing_seqs wa = missing_seqs w1 \<union> (\<Union>g \<in> set gaps. ms_seq ` set (gr_items g))"
    using restore_gaps_fresh [OF f1] by blast
  have ida: "wr_id wa = wr_id w" using wa(1) id1 by (simp add: later_def)
  let ?sb = "note_failure key (wr_id wa) n e sp own ?sa"
  obtain wb where wb: "later key wa ?sa wb ?sb" "fresh ulids key ?sb wb rows" "wr_next_seq wb = wr_next_seq wa"
      "missing_seqs wb = insert n (missing_seqs wa)"
    using note_failure_fresh [OF wa(2)] by blast
  have idb: "wr_id wb = wr_id w" using wb(1) ida by (simp add: later_def)
  obtain w2 where w2: "later key wb ?sb w2 ss2" "fresh ulids key ss2 w2 rows"
      "wr_next_seq w2 = wr_next_seq wb" "missing_seqs w2 = missing_seqs wb \<union> set extra"
    using note_own_fresh [OF wb(2), of e extra] unfolding ss2_def idb ida id1 by blast
  have lt: "later key w ss w2 ss2" using tw(1) wa(1) wb(1) w2(1) later_trans by blast
  have miss: "missing_seqs w \<union> {n..<wr_next_seq w2} \<subseteq> missing_seqs w2"
    using tw(2,3) wa(3,4) wb(3,4) w2(3,4) assms(3) by auto
  have "accounted w2 arch"
  proof (rule accounted_step [OF assms(4)])
    show "wr_id w2 = wr_id (w\<lparr>wr_next_seq := n\<rparr>)" using lt by (simp add: later_def)
    fix m assume "m \<in> missing_seqs (w\<lparr>wr_next_seq := n\<rparr>) \<union> {wr_next_seq (w\<lparr>wr_next_seq := n\<rparr>)..<wr_next_seq w2}"
    then show "m \<in> missing_seqs w2 \<or> speaks_for (wr_id (w\<lparr>wr_next_seq := n\<rparr>)) arch m"
      using miss by (auto simp: missing_seqs_def)
  qed simp
  then show ?thesis using lt w2(2) by blast
qed

lemma audit_write_inv:
  assumes "inj (le_ulids env)" "ledger_inv (le_ulids env) key arch s" "audit_write env key fl args kind s = (res, s')"
  shows "ledger_inv (le_ulids env) key arch s'"
proof -
  let ?u = "le_ulids env"
  obtain wid n ss1 where al: "allocate ?u key (al_seq s) = ((wid, n), ss1)" by (metis surj_pair)
  obtain w where w: "wid = wr_id w" "wr_next_seq w = n + 1" "fresh ?u key ss1 w (al_db s @ spool_rows s)"
      "accounted (w\<lparr>wr_next_seq := n\<rparr>) (al_db s @ arch)"
    using allocate_inv [OF assms(1,2) al] by blast
  define rid ss2 where "rid = ?u (ss_minted ss1)" and "ss2 = ss1\<lparr>ss_minted := Suc (ss_minted ss1)\<rparr>"
  have id: "new_ulid ?u ss1 = (rid, ss2)" by (simp add: new_ulid_def rid_def ss2_def)
  have f2: "fresh ?u key ss2 w (al_db s @ spool_rows s)"
    using new_ulid_later [OF fresh_writer [OF w(3)], of ?u] fresh_later [OF w(3)] id by simp
  have rid: "\<forall>k \<ge> ss_minted ss2. rid \<noteq> ?u k" using assms(1) by (auto simp: rid_def ss2_def dest: injD)
  define ts where "ts = (case wa_ts args of None \<Rightarrow> le_now env | Some x \<Rightarrow> x)"
  define r where "r = make_row args ts rid wid n kind"
  obtain res1 gaps extra t ss3 where tx: "write_tx env key wid r (begin_tx (wf_tx fl) s) ss2 = (res1, gaps, extra, t, ss3)"
    by (metis surj_pair)
  have fdb: "fresh ?u key ss2 w (tx_rows (begin_tx (wf_tx fl) s))"
    using f2 by (simp add: begin_tx_def fresh_append)
  obtain w1 where w1: "tx_written ?u key w ss2 (\<not> isl res1) gaps extra t ss3 w1"
      "\<not> isl res1 \<longrightarrow> speaks_for (wr_id w) (tx_rows t) n"
    using write_tx_accounts [OF assms(1) refl fdb, of r n res1 gaps extra t ss3] tx w(1,2) rid
    by (auto simp: r_def)
  show ?thesis
  proof (cases res1)
    case (Inl e)
    define ss4 where "ss4 = note_own key wid e extra (restore_gaps key wid gaps ss3)"
    obtain r5 sp where ap: "append_line (wf_append fl) (spool_record args ts rid wid n kind) (al_spool s) = (r5, sp)"
      by (metis surj_pair)
    have s': "s' = s\<lparr>al_spool := sp, al_seq := note_failure key wid n e (\<not> isl r5) False ss4\<rparr>"
      using assms(3) al id tx Inl ap
      by (cases r5) (simp_all add: audit_write_def ts_def r_def spool_or_raise_def ss4_def)
    have "tx_written ?u key w ss2 False gaps extra t ss3 w1" using w1(1) Inl by simp
    from failed_write_noted [OF this f2 w(2,4), of e "\<not> isl r5" False]
    obtain w2 where w2: "later key w ss2 w2 (al_seq s')" "fresh ?u key (al_seq s') w2 (al_db s @ spool_rows s)"
        "accounted w2 (al_db s @ arch)"
      unfolding s' ss4_def w(1) by auto
    have "fresh ?u key (al_seq s') w2 [line_row (sorted_dict (spool_record args ts rid wid n kind))]"
    proof -
      have "wr_id w2 = wid \<and> n < wr_next_seq w2 \<and> ss_minted ss2 \<le> ss_minted (al_seq s')"
        using w2(1) w(1,2) by (auto simp: later_def)
      then show ?thesis using w2(2) rid by (auto simp: fresh_def unused_ids_def seqs_below_def)
    qed
    then have "fresh ?u key (al_seq s') w2
        ((al_db s @ spool_rows s) @ [line_row (sorted_dict (spool_record args ts rid wid n kind))])"
      using w2(2) fresh_append by blast
    moreover have "set (al_db s' @ spool_rows s') \<subseteq>
        set ((al_db s @ spool_rows s) @ [line_row (sorted_dict (spool_record args ts rid wid n kind))])"
      using append_line_good [OF ap] by (auto simp: s' spool_rows_def good_lines_def)
    ultimately have "fresh ?u key (al_seq s') w2 (al_db s' @ spool_rows s')"
      using fresh_within ids_within_subset by blast
    then show ?thesis using w2(3) by (intro ledger_invI) (simp_all add: s')
  next
    case (Inr row_id)
    define s1 where "s1 = (commit_tx t s)\<lparr>al_seq := mark_started key wid ss3\<rparr>"
    have s': "s' = after_write env fl s1"
      using assms(3) al id tx Inr by (simp add: audit_write_def ts_def r_def s1_def)
    have tw: "later key w ss2 w1 ss3" "fresh ?u key ss3 w1 (tx_rows t)"
        "\<And>m. m \<in> missing_seqs w \<union> {wr_next_seq w..<wr_next_seq w1} \<Longrightarrow> m \<in> missing_seqs w1 \<or> speaks_for (wr_id w) (tx_rows t) m"
        "speaks_for (wr_id w) (tx_rows t) n"
      using w1 Inr by (simp_all add: tx_written_def)
    have "fresh ?u key ss3 w1 (tx_rows t @ spool_rows s)"
      using tw(1,2) f2 fresh_later fresh_append by blast
    moreover define w2 where "w2 = w1\<lparr>wr_started := True\<rparr>"
    moreover have "later key w1 ss3 w2 (mark_started key wid ss3)"
      using tw(1,2) w(1) by (simp add: later_def mark_started_writer w2_def fresh_writer)
    ultimately have fr: "fresh ?u key (al_seq s1) w2 (al_db s1 @ spool_rows s1)"
      using fresh_later by (auto simp: s1_def commit_tx_def spool_rows_def good_lines_def)
    have rows: "set (al_db s @ arch) \<subseteq> set (tx_rows t @ arch)"
      using extends_set [OF write_tx_extends [OF tx]] by (auto simp: begin_tx_def)
    have "accounted w2 (tx_rows t @ arch)"
    proof (rule accounted_step [OF w(4) _ rows])
      show "wr_id w2 = wr_id (w\<lparr>wr_next_seq := n\<rparr>)" using tw(1) by (simp add: later_def w2_def)
      fix m assume "m \<in> missing_seqs (w\<lparr>wr_next_seq := n\<rparr>) \<union> {wr_next_seq (w\<lparr>wr_next_seq := n\<rparr>)..<wr_next_seq w2}"
      then have "m = n \<or> m \<in> missing_seqs w \<union> {wr_next_seq w..<wr_next_seq w1}"
        using w(2) by (auto simp: missing_seqs_def w2_def)
      then show "m \<in> missing_seqs w2 \<or> speaks_for (wr_id (w\<lparr>wr_next_seq := n\<rparr>)) (tx_rows t @ arch) m"
        using tw(3,4) by (auto simp: missing_seqs_def w2_def)
    qed
    then have "ledger_inv ?u key arch s1" using fr by (intro ledger_invI) (simp_all add: s1_def commit_tx_def)
    then show ?thesis unfolding s' by (rule after_write_inv)
  qed
qed

section \<open>Compaction\<close>

lemma insert_meta_speaks:
  assumes "fresh (le_ulids env) key ss w (tx_rows t)"
    and "insert_meta env (wr_id w) n kind hp reason p sev t ss = (Inr x, t', ss')"
  shows "speaks_for (wr_id w) (tx_rows t') n"
proof -
  define args where "args = \<lparr>wa_entry = meta_entry (wr_id w) hp sev reason p, wa_cost_usd = None, wa_ts = None\<rparr>"
  define r where "r = make_row args (le_now env) (le_ulids env (ss_minted ss)) (wr_id w) n (Some kind)"
  have ins: "tx_insert True r t = (Inr x, t')"
    using assms(2) by (auto simp: insert_meta_def new_ulid_def r_def args_def split: prod.splits)
  then show ?thesis
  proof (cases rule: tx_insert_cases)
    case ignored
    then obtain q where q: "q \<in> set (tx_rows t)" "clashes r q" by (auto simp: list_ex_iff)
    then have "lr_record_id q \<noteq> lr_record_id r"
      using assms(1) by (auto simp: fresh_def unused_ids_def r_def)
    then have "lr_writer_id q = Some (wr_id w) \<and> lr_writer_seq q = Some n"
      using q(2) by (auto simp: clashes_def r_def)
    then show ?thesis using q(1) ignored(4) speaks_for_own_row by metis
  qed (auto simp: speaks_for_def r_def)
qed

text \<open>What the deletion does when it goes through: every listed row was there with its record id, and exactly
  the rows with a listed id are gone.\<close>

lemma delete_archived_Inr:
  assumes "delete_archived archived t = (Inr u, t')"
  shows "tx_rows t' = filter (\<lambda>r. lr_id r \<notin> set (map fst archived)) (tx_rows t)
       \<and> tx_autoinc t' = tx_autoinc t
       \<and> (\<forall>k \<in> set archived. has_key (tx_rows t) k) \<and> distinct (map fst archived)
       \<and> length (filter (\<lambda>r. lr_id r \<in> set (map fst archived)) (tx_rows t)) = length archived"
proof -
  obtain r1 t1 where s1: "stmt t = (r1, t1)" by (metis surj_pair)
  obtain r2 t2 where s2: "stmt t1 = (r2, t2)" by (metis surj_pair)
  obtain r3 t3 where s3: "stmt t2 = (r3, t3)" by (metis surj_pair)
  obtain r4 t4 where s4: "stmt t3 = (r4, t4)" by (metis surj_pair)
  have same: "tx_rows t4 = tx_rows t \<and> tx_rows t3 = tx_rows t \<and> tx_autoinc t4 = tx_autoinc t"
    using stmt_frame [OF s1] stmt_frame [OF s2] stmt_frame [OF s3] stmt_frame [OF s4] by simp
  have "\<exists>a b c d. r1 = Inr a \<and> r2 = Inr b \<and> r3 = Inr c \<and> r4 = Inr d"
    using assms s1 s2 s3 s4 by (cases r1; cases r2; cases r3; cases r4) (auto simp: delete_archived_def split: if_splits)
  then have last: "stmt (t4\<lparr>tx_rows := filter (\<lambda>r. lr_id r \<notin> set (map fst archived)) (tx_rows t4)\<rparr>) = (Inr u, t')"
    and checks: "distinct (map fst archived)"
      "length (filter (has_key (tx_rows t3)) archived) = length archived"
      "length (filter (\<lambda>r. lr_id r \<in> set (map fst archived)) (tx_rows t4)) = length archived"
    using assms s1 s2 s3 s4 by (auto simp: delete_archived_def Let_def split: if_splits)
  have "\<forall>k \<in> set archived. has_key (tx_rows t) k"
    using checks(2) same by (metis filter_id_conv length_filter_less nat_less_le)
  then show ?thesis using stmt_frame [OF last] checks same by simp
qed

lemma compaction_tx_Inr:
  assumes "compaction_tx env key wid n payload archived t ss = (Inr u, gaps, extra, t', ss')"
  shows "\<exists>tp. extends t tp \<and> delete_archived archived tp = (Inr u, t')"
proof -
  obtain r1 t1 where s1: "stmt t = (r1, t1)" by (metis surj_pair)
  obtain r2 t2 ss2 where s2: "insert_meta env wid n KIND_COMPACTION COMPACTION_HOOK COMPACTION_REASON payload
      ''info'' t1 ss = (r2, t2, ss2)" by (metis surj_pair)
  obtain r3 ex t3 ss3 where s3: "write_preamble env key wid t2 ss2 = (r3, ex, t3, ss3)" by (metis surj_pair)
  have "extends t t3"
    using stmt_extends [OF s1] insert_meta_extends [OF s2] write_preamble_extends [OF s3] extends_trans by blast
  moreover have "delete_archived archived t3 = (Inr u, t')"
    using assms s1 s2 s3 by (cases r1; cases r2; cases r3) (auto simp: compaction_tx_def split: prod.splits)
  ultimately show ?thesis by blast
qed

lemma extends_new_ids:
  "extends t t' \<Longrightarrow> \<exists>added. tx_rows t' = tx_rows t @ added \<and> (\<forall>r \<in> set added. tx_autoinc t < lr_id r)
     \<and> tx_autoinc t \<le> tx_autoinc t'"
proof (induction rule: extends.induct)
  case (ext_same t' t)
  then show ?case by simp
next
  case (ext_add t t1 r t')
  then obtain added where "tx_rows t1 = tx_rows t @ added" "\<forall>r \<in> set added. tx_autoinc t < lr_id r"
      "tx_autoinc t \<le> tx_autoinc t1" by blast
  then show ?case using ext_add.hyps(3,4) by (intro exI [of _ "added @ [r\<lparr>lr_id := tx_autoinc t1 + 1\<rparr>]"]) simp
qed

lemma compaction_tx_accounts:
  assumes "inj ulids" "le_ulids env = ulids" "fresh ulids key ss w (tx_rows t)" "n < wr_next_seq w"
    and "compaction_tx env key (wr_id w) n payload archived t ss = (res, gaps, extra, t', ss')"
  shows "\<exists>w' tp. tx_written ulids key w ss (\<not> isl res) gaps extra tp ss' w' \<and> extends t tp
           \<and> (\<not> isl res \<longrightarrow> speaks_for (wr_id w) (tx_rows tp) n \<and> delete_archived archived tp = (res, t'))"
proof -
  obtain r1 t1 where s1: "stmt t = (r1, t1)" by (metis surj_pair)
  have f1: "fresh ulids key ss w (tx_rows t1)" using stmt_fresh [OF assms(3) s1] .
  obtain r2 t2 ss2 where s2: "insert_meta env (wr_id w) n KIND_COMPACTION COMPACTION_HOOK COMPACTION_REASON payload
      ''info'' t1 ss = (r2, t2, ss2)" by (metis surj_pair)
  have f2: "later key w ss w ss2 \<and> fresh ulids key ss2 w (tx_rows t2)"
    using insert_meta_fresh [OF assms(1,2) f1 assms(4) s2] .
  obtain r3 ex t3 ss3 where s3: "write_preamble env key (wr_id w) t2 ss2 = (r3, ex, t3, ss3)" by (metis surj_pair)
  obtain w' where w': "preamble_written ulids key w ss2 r3 ex t3 ss3 w'"
    using write_preamble_accounts [OF assms(1,2) _ s3] f2 by blast
  have ext: "extends t t1" "extends t t2" "extends t t3"
    using stmt_extends [OF s1] insert_meta_extends [OF s2] write_preamble_extends [OF s3] extends_trans by blast+
  have move: "tx_written ulids key w ss ok g x tp ss' w'" if "tx_written ulids key w ss2 ok g x tp ss' w'" for ok g x tp
    using that f2 later_trans unfolding tx_written_def by blast
  show ?thesis
  proof (cases "isl r1 \<or> isl r2")
    case True
    then have "isl res \<and> gaps = [] \<and> extra = [] \<and> ((ss' = ss \<and> t' = t1) \<or> (ss' = ss2 \<and> t' = t2))"
      using assms(5) s1 s2 by (cases r1; cases r2) (auto simp: compaction_tx_def)
    moreover have "tx_written ulids key w ss False [] [] t1 ss w" "tx_written ulids key w ss False [] [] t2 ss2 w"
      using f1 f2 by (simp_all add: tx_written_def later_refl fresh_writer)
    ultimately show ?thesis using ext by (cases res) auto
  next
    case False
    then obtain u i where ok: "r1 = Inr u" "r2 = Inr i" by (metis sum.collapse(2))
    show ?thesis
    proof (cases r3)
      case (Inl e)
      then have "res = Inl e" "gaps = []" "extra = ex" "t' = t3" "ss' = ss3"
        using assms(5) s1 s2 s3 ok by (auto simp: compaction_tx_def)
      then show ?thesis using move preamble_tx_written(1) [OF w'] Inl ext by (intro exI [of _ w'] exI [of _ t3]) auto
    next
      case (Inr gs)
      obtain r4 t4 where s4: "delete_archived archived t3 = (r4, t4)" by (metis surj_pair)
      then have res: "res = r4" "gaps = gs" "extra = ex" "t' = t4" "ss' = ss3"
        using assms(5) s1 s2 s3 ok Inr by (auto simp: compaction_tx_def)
      have "speaks_for (wr_id w) (tx_rows t3) n"
        using insert_meta_speaks [of env key ss w t1 n] f1 s2 ok assms(2) write_preamble_extends [OF s3]
          extends_set speaks_for_mono by metis
      then show ?thesis
        using move preamble_tx_written(2) [OF w' Inr] ext s4 res by (intro exI [of _ w'] exI [of _ t3]) auto
    qed
  qed
qed

end
