(* ===== verification/Audit_Ledger.thy ===== *)
theory Audit_Ledger
  imports Audit_Accounting
begin

text \<open>
  Runs of the audit ledger: the process's own writes, drains and compactions with every fault they can meet, a fork,
  and what other processes add to the database and to the spool. The properties of the ledger are stated over
  these runs and over single operations.
\<close>

section \<open>How operations change the table\<close>

definition db_grows :: "audit_state \<Rightarrow> audit_state \<Rightarrow> bool" where
  "db_grows s s' \<longleftrightarrow> extends (begin_tx [] s) (begin_tx [] s')"

lemma db_grows_refl [simp]: "db_grows s s"
  by (simp add: db_grows_def)

lemma db_grows_trans: "db_grows s1 s2 \<Longrightarrow> db_grows s2 s3 \<Longrightarrow> db_grows s1 s3"
  unfolding db_grows_def using extends_trans by blast

lemma extends_begin: "extends (begin_tx fs s) t \<Longrightarrow> db_grows s (commit_tx t s)"
proof -
  assume e: "extends (begin_tx fs s) t"
  have "extends (begin_tx [] s) (begin_tx fs s)" by (rule ext_same) (simp_all add: begin_tx_def)
  moreover have "extends t (begin_tx [] (commit_tx t s))" by (rule ext_same) (simp_all add: begin_tx_def commit_tx_def)
  ultimately show ?thesis unfolding db_grows_def using e extends_trans by blast
qed

lemma db_grows_cong: "al_db s1 = al_db s2 \<Longrightarrow> al_autoinc s1 = al_autoinc s2 \<Longrightarrow> db_grows s s1 = db_grows s s2"
  by (simp add: db_grows_def begin_tx_def)

lemma db_grows_rows: "db_grows s s' \<Longrightarrow> \<exists>added. al_db s' = al_db s @ added"
  unfolding db_grows_def using extends_rows by (fastforce simp: begin_tx_def)

lemma insert_spooled_extends: "insert_spooled env recs t = (res, t') \<Longrightarrow> extends t t'"
proof (induction recs arbitrary: t)
  case Nil
  then show ?case by simp
next
  case (Cons rec recs)
  obtain r t1 where i: "tx_insert True (spooled_row env rec) t = (r, t1)" by (metis surj_pair)
  have e1: "extends t t1" using i by (rule tx_insert_extends)
  show ?case
  proof (cases r)
    case (Inl e)
    then show ?thesis using Cons.prems i e1 by simp
  next
    case (Inr x)
    then have "extends t1 t'" using Cons.prems i by (intro Cons.IH) simp
    then show ?thesis using e1 extends_trans by blast
  qed
qed

lemma apply_spooled_grows: "apply_spooled env faults recs s = (res, s') \<Longrightarrow> db_grows s s'"
proof -
  assume ap: "apply_spooled env faults recs s = (res, s')"
  obtain r1 t1 where s1: "stmt (begin_tx faults s) = (r1, t1)" by (metis surj_pair)
  obtain r2 t2 where s2: "insert_spooled env recs t1 = (r2, t2)" by (metis surj_pair)
  obtain r3 t3 where s3: "stmt t2 = (r3, t3)" by (metis surj_pair)
  have "s' = s \<or> s' = commit_tx t3 s"
    using ap s1 s2 s3 by (cases r1; cases r2; cases r3) (auto simp: apply_spooled_def)
  moreover have "extends (begin_tx faults s) t3"
    using stmt_extends [OF s1] insert_spooled_extends [OF s2] stmt_extends [OF s3] extends_trans by blast
  ultimately show "db_grows s s'" using extends_begin by auto
qed

lemma drain_spool_grows: "db_grows s (snd (drain_spool env f faults s))"
proof -
  obtain res sp s1 where d: "drain f (apply_spooled env faults) (al_spool s) s = (res, sp, s1)" by (metis surj_pair)
  have "db_grows s s1" using drain_effect(1) [OF d] apply_spooled_grows db_grows_refl by metis
  then have "db_grows s (s1\<lparr>al_spool := sp\<rparr>)" by (simp add: db_grows_def begin_tx_def)
  then show ?thesis using d by (simp add: drain_spool_def)
qed

lemma after_write_grows: "db_grows s (after_write env fl s)"
  by (simp add: after_write_def drain_spool_grows)

lemma audit_write_grows:
  assumes "audit_write env key fl args kind s = (res, s')"
  shows "db_grows s s'"
proof -
  obtain wid n ss1 where al: "allocate (le_ulids env) key (al_seq s) = ((wid, n), ss1)" by (metis surj_pair)
  obtain rid ss2 where id: "new_ulid (le_ulids env) ss1 = (rid, ss2)" by (metis surj_pair)
  define ts where "ts = (case wa_ts args of None \<Rightarrow> le_now env | Some x \<Rightarrow> x)"
  obtain res1 gaps extra t ss3 where tx: "write_tx env key wid (make_row args ts rid wid n kind) (begin_tx (wf_tx fl) s) ss2
      = (res1, gaps, extra, t, ss3)" by (metis surj_pair)
  show ?thesis
  proof (cases res1)
    case (Inl e)
    obtain r5 sp where ap: "append_line (wf_append fl) (spool_record args ts rid wid n kind) (al_spool s) = (r5, sp)"
      by (metis surj_pair)
    have "al_db s' = al_db s \<and> al_autoinc s' = al_autoinc s"
      using assms al id tx Inl ap by (cases r5) (auto simp: audit_write_def ts_def spool_or_raise_def)
    then show ?thesis using db_grows_cong db_grows_refl by blast
  next
    case (Inr i)
    have "s' = after_write env fl ((commit_tx t s)\<lparr>al_seq := mark_started key wid ss3\<rparr>)"
      using assms al id tx Inr by (simp add: audit_write_def ts_def)
    moreover have "db_grows s ((commit_tx t s)\<lparr>al_seq := mark_started key wid ss3\<rparr>)"
      using extends_begin [OF write_tx_extends [OF tx]] by (simp add: db_grows_def begin_tx_def)
    ultimately show ?thesis using after_write_grows db_grows_trans by blast
  qed
qed

section \<open>Ids of the table and the archive\<close>

definition ids_ok :: "ledger_row list \<Rightarrow> ledger_row list \<Rightarrow> int \<Rightarrow> bool" where
  "ids_ok arch rows hi \<longleftrightarrow>
     distinct (map lr_id rows) \<and> (\<forall>r \<in> set rows \<union> set arch. 0 < lr_id r \<and> lr_id r \<le> hi) \<and> 0 \<le> hi
     \<and> (\<forall>a \<in> set arch. \<forall>r \<in> set rows. lr_id r = lr_id a \<longrightarrow> r = a)"

lemma ids_ok_snoc: "ids_ok arch rows hi \<Longrightarrow> ids_ok arch (rows @ [r\<lparr>lr_id := hi + 1\<rparr>]) (hi + 1)"
proof -
  assume ok: "ids_ok arch rows hi"
  then have "\<forall>q \<in> set rows \<union> set arch. lr_id q \<le> hi" by (simp add: ids_ok_def)
  then have "\<forall>q \<in> set rows \<union> set arch. lr_id q \<noteq> hi + 1" by (metis add_le_same_cancel1 not_one_le_zero)
  moreover have "0 < lr_id q \<and> lr_id q \<le> hi + 1" if "q \<in> set rows \<union> set arch" for q
  proof -
    have "0 < lr_id q \<and> lr_id q \<le> hi" using ok that unfolding ids_ok_def by blast
    then show ?thesis by simp
  qed
  ultimately show ?thesis using ok by (auto simp: ids_ok_def)
qed

lemma extends_ids_ok:
  "extends t t' \<Longrightarrow> ids_ok arch (tx_rows t) (tx_autoinc t) \<Longrightarrow> ids_ok arch (tx_rows t') (tx_autoinc t')"
  by (induction rule: extends.induct) (simp_all add: ids_ok_snoc)

lemma grows_ids_ok:
  "db_grows s s' \<Longrightarrow> ids_ok arch (al_db s) (al_autoinc s) \<Longrightarrow> ids_ok arch (al_db s') (al_autoinc s')"
  unfolding db_grows_def using extends_ids_ok by (fastforce simp: begin_tx_def)

lemma ids_ok_filter: "ids_ok arch rows hi \<Longrightarrow> ids_ok arch (filter p rows) hi"
  by (auto simp: ids_ok_def distinct_map inj_on_def)

text \<open>The rows a compaction removes are in the archive when its keys come from there.\<close>

lemma deleted_rows_archived:
  assumes "ids_ok arch rows hi" "set keys \<subseteq> (\<lambda>a. (lr_id a, lr_record_id a)) ` set arch"
  shows "set rows \<subseteq> set (filter (\<lambda>r. lr_id r \<notin> set (map fst keys)) rows @ arch)"
proof
  fix r assume r: "r \<in> set rows"
  show "r \<in> set (filter (\<lambda>r. lr_id r \<notin> set (map fst keys)) rows @ arch)"
  proof (cases "lr_id r \<in> set (map fst keys)")
    case True
    then obtain a where "a \<in> set arch" "lr_id r = lr_id a" using assms(2) by auto
    then show ?thesis using assms(1) r by (auto simp: ids_ok_def)
  qed (use r in simp)
qed

section \<open>Runs\<close>

record ledger_world =
  lw_log :: audit_state
  lw_archive :: "ledger_row list"

datatype ledger_op =
    LRecord log_env write_faults write_args
  | LClose log_env bool write_faults write_faults
  | LDrain log_env drain_faults "pyexn option list"
  | LArchive "int list"
  | LCompact log_env write_faults dict "int list"
  | LFork
  | LForeignRow ledger_row
  | LForeignLine spool_line

text \<open>\<open>keys_of\<close> the archived rows with one of these ids.\<close>

definition keys_of :: "ledger_row list \<Rightarrow> int list \<Rightarrow> (int \<times> string option) list" where
  "keys_of arch ids = map (\<lambda>a. (lr_id a, lr_record_id a)) (filter (\<lambda>a. lr_id a \<in> set ids) arch)"

text \<open>Ids of another process are ids this process's generator never makes (\<open>outside\<close>).\<close>

definition foreign_row :: "(string \<Rightarrow> bool) \<Rightarrow> ledger_row \<Rightarrow> bool" where
  "foreign_row outside r = (opt_ok outside (lr_record_id r) \<and> opt_ok outside (lr_writer_id r))"

definition foreign_line :: "(string \<Rightarrow> bool) \<Rightarrow> spool_line \<Rightarrow> bool" where
  "foreign_line outside l = opt_ok (foreign_row outside \<circ> line_row) (parse_line l)"

fun ledger_step :: "(nat \<Rightarrow> string) \<Rightarrow> (string \<Rightarrow> bool) \<Rightarrow> string \<Rightarrow> ledger_world \<Rightarrow> ledger_op \<Rightarrow> ledger_world" where
  "ledger_step ulids outside key W (LRecord env fl args) =
     W\<lparr>lw_log := snd (log_record (env\<lparr>le_ulids := ulids\<rparr>) key fl args (lw_log W))\<rparr>"
| "ledger_step ulids outside key W (LClose env present fl0 fl) =
     (case ss_writers (al_seq (lw_log W)) key of
        None \<Rightarrow> W
      | Some w \<Rightarrow> W\<lparr>lw_log := snd (close_writer (env\<lparr>le_ulids := ulids\<rparr>) key present fl0 fl w (lw_log W))\<rparr>)"
| "ledger_step ulids outside key W (LDrain env f faults) =
     W\<lparr>lw_log := snd (drain_spool (env\<lparr>le_ulids := ulids\<rparr>) f faults (lw_log W))\<rparr>"
| "ledger_step ulids outside key W (LArchive ids) =
     W\<lparr>lw_archive := lw_archive W @ filter (\<lambda>r. lr_id r \<in> set ids) (al_db (lw_log W))\<rparr>"
| "ledger_step ulids outside key W (LCompact env fl payload ids) =
     W\<lparr>lw_log := snd (write_compaction (env\<lparr>le_ulids := ulids\<rparr>) key fl payload (keys_of (lw_archive W) ids) (lw_log W))\<rparr>"
| "ledger_step ulids outside key W LFork =
     W\<lparr>lw_log := (lw_log W)\<lparr>al_seq := after_fork_in_child (al_seq (lw_log W))\<rparr>\<rparr>"
| "ledger_step ulids outside key W (LForeignRow r) =
     (if foreign_row outside r \<and> \<not> list_ex (clashes r) (al_db (lw_log W)) then
        W\<lparr>lw_log := (lw_log W)\<lparr>al_db := al_db (lw_log W) @ [r\<lparr>lr_id := al_autoinc (lw_log W) + 1\<rparr>],
                              al_autoinc := al_autoinc (lw_log W) + 1\<rparr>\<rparr>
      else W)"
| "ledger_step ulids outside key W (LForeignLine l) =
     (if foreign_line outside l then
        W\<lparr>lw_log := (lw_log W)\<lparr>al_spool := (al_spool (lw_log W))
                       \<lparr>sp_lines := Some (lines_of (al_spool (lw_log W)) @ [l])\<rparr>\<rparr>\<rparr>
      else W)"

definition empty_log :: audit_state where
  "empty_log = \<lparr>al_seq = empty_seq, al_db = [], al_autoinc = 0, al_spool = \<lparr>sp_lines = None, sp_rejected = []\<rparr>\<rparr>"

definition empty_world :: ledger_world where
  "empty_world = \<lparr>lw_log = empty_log, lw_archive = []\<rparr>"

definition world_inv :: "(nat \<Rightarrow> string) \<Rightarrow> string \<Rightarrow> ledger_world \<Rightarrow> bool" where
  "world_inv ulids key W \<longleftrightarrow>
     ledger_inv ulids key (lw_archive W) (lw_log W)
     \<and> ids_ok (lw_archive W) (al_db (lw_log W)) (al_autoinc (lw_log W))"

lemma log_record_write:
  "\<exists>args1 res. audit_write env key fl args1 None s = (res, snd (log_record env key fl args s))"
  by (auto simp: log_record_def Let_def split: prod.splits sum.splits)

lemma close_writer_write:
  "snd (close_writer env key present fl0 fl w s) = s
   \<or> (\<exists>args1 kind res. audit_write env key fl args1 kind (open_log env fl0 s) = (res, snd (close_writer env key present fl0 fl w s)))"
  by (auto simp: close_writer_def Let_def split: prod.splits sum.splits)

lemma open_log_inv: "ledger_inv ulids key arch s \<Longrightarrow> ledger_inv ulids key arch (open_log env fl s)"
  unfolding open_log_def using drain_spool_inv by (metis prod.collapse)

lemma audit_write_world:
  assumes "inj (le_ulids env)" "ledger_inv (le_ulids env) key arch s" "ids_ok arch (al_db s) (al_autoinc s)"
    and "audit_write env key fl args kind s = (res, s')"
  shows "ledger_inv (le_ulids env) key arch s' \<and> ids_ok arch (al_db s') (al_autoinc s')"
  using audit_write_inv [OF assms(1,2,4)] grows_ids_ok [OF audit_write_grows [OF assms(4)] assms(3)] by blast

lemma write_compaction_world:
  assumes "inj (le_ulids env)" "ledger_inv (le_ulids env) key arch s" "ids_ok arch (al_db s) (al_autoinc s)"
    and "set keys \<subseteq> (\<lambda>a. (lr_id a, lr_record_id a)) ` set arch"
    and "write_compaction env key fl payload keys s = (res, s')"
  shows "ledger_inv (le_ulids env) key arch s' \<and> ids_ok arch (al_db s') (al_autoinc s')"
proof -
  let ?u = "le_ulids env"
  obtain wid n ss1 where al: "allocate ?u key (al_seq s) = ((wid, n), ss1)" by (metis surj_pair)
  obtain w where w: "wid = wr_id w" "wr_next_seq w = n + 1" "fresh ?u key ss1 w (al_db s @ spool_rows s)"
      "accounted (w\<lparr>wr_next_seq := n\<rparr>) (al_db s @ arch)"
    using allocate_inv [OF assms(1,2) al] by blast
  obtain res1 gaps extra t ss3 where tx: "compaction_tx env key wid n payload keys (begin_tx (wf_tx fl) s) ss1
      = (res1, gaps, extra, t, ss3)" by (metis surj_pair)
  have fdb: "fresh ?u key ss1 w (tx_rows (begin_tx (wf_tx fl) s))"
    using w(3) by (simp add: begin_tx_def fresh_append)
  have "n < wr_next_seq w" using w(2) by simp
  then obtain w1 tp where w1: "tx_written ?u key w ss1 (\<not> isl res1) gaps extra tp ss3 w1" "extends (begin_tx (wf_tx fl) s) tp"
      "\<not> isl res1 \<Longrightarrow> speaks_for (wr_id w) (tx_rows tp) n \<and> delete_archived keys tp = (res1, t)"
    using compaction_tx_accounts [OF assms(1) HOL.refl fdb _ tx [unfolded w(1)]] by blast
  have ids: "ids_ok arch (tx_rows tp) (tx_autoinc tp)"
    using extends_ids_ok [OF w1(2)] assms(3) by (simp add: begin_tx_def)
  show ?thesis
  proof (cases res1)
    case (Inl e)
    have s': "s' = s\<lparr>al_seq := note_own key wid e extra (note_failure key wid n e False True (restore_gaps key wid gaps ss3))\<rparr>"
      using assms(5) al tx Inl by (simp add: write_compaction_def)
    have "tx_written ?u key w ss1 False (gaps) extra tp ss3 w1" using w1(1) Inl by simp
    from failed_write_noted' [OF this w(3,2,4), of e False True]
    obtain w2 where "fresh ?u key (al_seq s') w2 (al_db s @ spool_rows s)" "accounted w2 (al_db s @ arch)"
      unfolding s' w(1) by auto
    then show ?thesis using assms(3) by (auto intro!: ledger_invI simp: s' spool_rows_def good_lines_def)
  next
    case (Inr u)
    define s1 where "s1 = (commit_tx t s)\<lparr>al_seq := mark_started key wid ss3\<rparr>"
    have s': "s' = after_write env fl s1"
      using assms(5) al tx Inr by (simp add: write_compaction_def s1_def)
    have del: "tx_rows t = filter (\<lambda>r. lr_id r \<notin> set (map fst keys)) (tx_rows tp)" "tx_autoinc t = tx_autoinc tp"
      using delete_archived_Inr [of keys tp u t] w1(3) Inr by simp_all
    have kept: "set (tx_rows tp) \<subseteq> set (tx_rows t @ arch)"
      unfolding del using deleted_rows_archived [OF ids assms(4)] .
    have tw: "later key w ss1 w1 ss3" "fresh ?u key ss3 w1 (tx_rows tp)"
        "\<And>m. m \<in> missing_seqs w \<union> {wr_next_seq w..<wr_next_seq w1} \<Longrightarrow> m \<in> missing_seqs w1 \<or> speaks_for (wr_id w) (tx_rows tp) m"
        "speaks_for (wr_id w) (tx_rows tp) n"
      using w1 Inr by (simp_all add: tx_written_def)
    define w2 where "w2 = w1\<lparr>wr_started := True\<rparr>"
    have l2: "later key w1 ss3 w2 (mark_started key wid ss3)"
      using tw(1) w(1) by (simp add: later_def mark_started_writer w2_def)
    have "fresh ?u key ss3 w1 (tx_rows tp @ spool_rows s)"
      using tw(1,2) w(3) fresh_later fresh_append by blast
    then have "fresh ?u key (al_seq s1) w2 (tx_rows tp @ spool_rows s)"
      using l2 fresh_later by (simp add: s1_def)
    then have fr: "fresh ?u key (al_seq s1) w2 (al_db s1 @ spool_rows s1)"
      by (rule fresh_within) (auto intro!: ids_within_subset simp: s1_def commit_tx_def del spool_rows_def good_lines_def)
    have rows: "set (al_db s @ arch) \<subseteq> set (tx_rows t @ arch)"
      using extends_set [OF w1(2)] kept by (auto simp: begin_tx_def)
    have "accounted w2 (tx_rows t @ arch)"
    proof (rule accounted_step [OF w(4) _ rows])
      show "wr_id w2 = wr_id (w\<lparr>wr_next_seq := n\<rparr>)" using tw(1) by (simp add: later_def w2_def)
      fix m assume "m \<in> missing_seqs (w\<lparr>wr_next_seq := n\<rparr>) \<union> {wr_next_seq (w\<lparr>wr_next_seq := n\<rparr>)..<wr_next_seq w2}"
      then have "m = n \<or> m \<in> missing_seqs w \<union> {wr_next_seq w..<wr_next_seq w1}"
        using w(2) by (auto simp: missing_seqs_def w2_def)
      then have "m \<in> missing_seqs w1 \<or> speaks_for (wr_id w) (tx_rows tp) m" using tw(3,4) by blast
      then show "m \<in> missing_seqs w2 \<or> speaks_for (wr_id (w\<lparr>wr_next_seq := n\<rparr>)) (tx_rows t @ arch) m"
        using speaks_for_mono [OF kept] by (auto simp: missing_seqs_def w2_def)
    qed
    then have "ledger_inv ?u key arch s1" using fr by (intro ledger_invI) (simp_all add: s1_def commit_tx_def)
    moreover have "ids_ok arch (al_db s1) (al_autoinc s1)"
      using ids_ok_filter [OF ids] by (simp add: s1_def commit_tx_def del)
    ultimately show ?thesis
      unfolding s' using after_write_inv grows_ids_ok after_write_grows by blast
  qed
qed

text \<open>Rows and lines of other processes keep the ids apart.\<close>

lemma foreign_fresh:
  assumes "ledger_inv ulids key arch s" "\<forall>n. \<not> outside (ulids n)" "foreign_row outside r"
  shows "unused_ids ulids k [r] \<and> (\<forall>w. ss_writers (al_seq s) key = Some w \<longrightarrow> fresh ulids key (al_seq s) w [r])"
proof -
  have out: "lr_record_id r \<noteq> Some (ulids n)" "lr_writer_id r \<noteq> Some (ulids n)" for n
    using assms(2,3) by (auto simp: foreign_row_def opt_ok_def split: option.splits)
  have "fresh ulids key (al_seq s) w [r]" if w: "ss_writers (al_seq s) key = Some w" for w
  proof -
    have f: "fresh ulids key (al_seq s) w (al_db s @ spool_rows s)" using assms(1) w by (simp add: ledger_inv_def)
    then have "wr_id w \<in> range ulids" by (simp add: fresh_def)
    then have "lr_writer_id r \<noteq> Some (wr_id w)" using out(2) by (metis imageE)
    then show ?thesis using f out by (auto simp: fresh_def unused_ids_def seqs_below_def)
  qed
  then show ?thesis using out by (simp add: unused_ids_def)
qed

lemma add_foreign_inv:
  assumes "ledger_inv ulids key arch s" "\<forall>n. \<not> outside (ulids n)" "foreign_row outside r"
    and "al_seq s' = al_seq s" "set (al_db s) \<subseteq> set (al_db s')"
    and "ids_within ((al_db s @ spool_rows s) @ [r]) (al_db s' @ spool_rows s')"
  shows "ledger_inv ulids key arch s'"
proof -
  let ?k = "ss_minted (al_seq s)"
  have "unused_ids ulids ?k ((al_db s @ spool_rows s) @ [r])"
    using assms(1) foreign_fresh [OF assms(1-3), of ?k] by (auto simp: ledger_inv_def unused_ids_def)
  moreover have "fresh ulids key (al_seq s) w ((al_db s @ spool_rows s) @ [r])"
    if "ss_writers (al_seq s) key = Some w" for w
    using assms(1) foreign_fresh [OF assms(1-3)] that unfolding ledger_inv_def using fresh_append by blast
  moreover have "accounted w (al_db s' @ arch)" if "accounted w (al_db s @ arch)" for w
    using that assms(5) speaks_for_mono unfolding accounted_iff speaks_for_append by metis
  ultimately show ?thesis
    using assms(1,4,6) unused_ids_within fresh_within unfolding ledger_inv_def by metis
qed

lemma foreign_line_within:
  assumes "lines_of (al_spool s') = lines_of (al_spool s) @ [l]" "al_db s' = al_db s"
  shows "(\<exists>d. parse_line l = Some d \<and> ids_within ((al_db s @ spool_rows s) @ [line_row d]) (al_db s' @ spool_rows s'))
       \<or> (parse_line l = None \<and> set (spool_rows s') = set (spool_rows s))"
proof -
  have good: "d \<in> set (good_lines s') \<longleftrightarrow> d \<in> set (good_lines s) \<or> parse_line l = Some d" for d
    by (auto simp: good_lines_def split_valid_good_set assms(1))
  show ?thesis
  proof (cases "parse_line l")
    case None
    then show ?thesis using good by (auto simp: spool_rows_def)
  next
    case (Some d)
    then have "set (al_db s' @ spool_rows s') \<subseteq> set ((al_db s @ spool_rows s) @ [line_row d])"
      using good assms(2) by (auto simp: spool_rows_def)
    then show ?thesis using Some ids_within_subset by blast
  qed
qed

section \<open>Every step keeps the invariant\<close>

lemma ledger_inv_cong:
  assumes "ledger_inv ulids key arch s" "al_seq s' = al_seq s" "al_db s' = al_db s" "set (spool_rows s') = set (spool_rows s)"
  shows "ledger_inv ulids key arch s'"
proof -
  have "ids_within (al_db s @ spool_rows s) (al_db s' @ spool_rows s')"
    by (rule ids_within_subset) (simp add: assms)
  then show ?thesis using assms unused_ids_within fresh_within unfolding ledger_inv_def by metis
qed

lemma fork_inv:
  assumes "ledger_inv ulids key arch s"
  shows "ledger_inv ulids key arch (s\<lparr>al_seq := after_fork_in_child (al_seq s)\<rparr>)"
  using assms by (simp add: ledger_inv_def after_fork_in_child_def spool_rows_def good_lines_def)

lemma archive_inv:
  assumes "ledger_inv ulids key arch s"
  shows "ledger_inv ulids key (arch @ extra) s"
proof -
  have "accounted w (al_db s @ arch @ extra)" if "accounted w (al_db s @ arch)" for w
    using that unfolding accounted_iff by auto
  then show ?thesis using assms by (simp add: ledger_inv_def)
qed

lemma archive_ids_ok:
  assumes "ids_ok arch rows hi"
  shows "ids_ok (arch @ filter p rows) rows hi"
proof -
  have "inj_on lr_id (set rows)" using assms by (simp add: ids_ok_def distinct_map)
  then have "r = a" if "a \<in> set (filter p rows)" "r \<in> set rows" "lr_id r = lr_id a" for a r
    using that by (auto dest: inj_onD)
  moreover have "set rows \<union> set (arch @ filter p rows) \<subseteq> set rows \<union> set arch" by auto
  ultimately show ?thesis using assms unfolding ids_ok_def set_append by blast
qed

lemma foreign_step_inv:
  assumes "ledger_inv ulids key arch s" "\<forall>n. \<not> outside (ulids n)" "foreign_line outside l"
    and "lines_of (al_spool s') = lines_of (al_spool s) @ [l]" "al_db s' = al_db s" "al_seq s' = al_seq s"
  shows "ledger_inv ulids key arch s'"
proof (cases "parse_line l")
  case None
  then show ?thesis using foreign_line_within [OF assms(4,5)] ledger_inv_cong [OF assms(1,6,5)] by auto
next
  case (Some d)
  then have "foreign_row outside (line_row d)" using assms(3) by (simp add: foreign_line_def opt_ok_def)
  moreover have "ids_within ((al_db s @ spool_rows s) @ [line_row d]) (al_db s' @ spool_rows s')"
    using foreign_line_within [OF assms(4,5)] Some by auto
  ultimately show ?thesis using add_foreign_inv [OF assms(1,2), of "line_row d" s'] assms(5,6) by simp
qed

lemma ledger_step_inv:
  assumes "inj ulids" "\<forall>n. \<not> outside (ulids n)" "world_inv ulids key W"
  shows "world_inv ulids key (ledger_step ulids outside key W a)"
proof -
  let ?s = "lw_log W" and ?arch = "lw_archive W"
  have inv: "ledger_inv ulids key ?arch ?s" and ids: "ids_ok ?arch (al_db ?s) (al_autoinc ?s)"
    using assms(3) by (simp_all add: world_inv_def)
  have wr: "ledger_inv ulids key ?arch s' \<and> ids_ok ?arch (al_db s') (al_autoinc s')"
    if "audit_write (env\<lparr>le_ulids := ulids\<rparr>) key fl args kind s = (res, s')"
       "ledger_inv ulids key ?arch s" "ids_ok ?arch (al_db s) (al_autoinc s)" for env fl args kind s res s'
    using audit_write_world [of "env\<lparr>le_ulids := ulids\<rparr>" key ?arch s fl args kind res s'] that assms(1) by simp
  show ?thesis
  proof (cases a)
    case (LRecord env fl args)
    then show ?thesis
      using log_record_write [of "env\<lparr>le_ulids := ulids\<rparr>" key fl ?s args] wr [OF _ inv ids]
      by (auto simp: world_inv_def)
  next
    case (LClose env present fl0 fl)
    show ?thesis
    proof (cases "ss_writers (al_seq ?s) key")
      case None
      then show ?thesis using LClose assms(3) by simp
    next
      case (Some w)
      let ?e = "env\<lparr>le_ulids := ulids\<rparr>"
      have "ledger_inv ulids key ?arch (open_log ?e fl0 ?s)" "ids_ok ?arch (al_db (open_log ?e fl0 ?s)) (al_autoinc (open_log ?e fl0 ?s))"
        using inv ids open_log_inv grows_ids_ok drain_spool_grows unfolding open_log_def by blast+
      then have "ledger_inv ulids key ?arch (snd (close_writer ?e key present fl0 fl w ?s))
          \<and> ids_ok ?arch (al_db (snd (close_writer ?e key present fl0 fl w ?s))) (al_autoinc (snd (close_writer ?e key present fl0 fl w ?s)))"
        using close_writer_write [of ?e key present fl0 fl w ?s] wr inv ids by metis
      then show ?thesis using LClose Some by (simp add: world_inv_def)
    qed
  next
    case (LDrain env f faults)
    have "ledger_inv ulids key ?arch (snd (drain_spool (env\<lparr>le_ulids := ulids\<rparr>) f faults ?s))"
      using inv drain_spool_inv by (metis prod.collapse)
    then show ?thesis using LDrain ids grows_ids_ok [OF drain_spool_grows] by (simp add: world_inv_def)
  next
    case (LArchive xs)
    then show ?thesis using archive_inv [OF inv] archive_ids_ok [OF ids] by (simp add: world_inv_def)
  next
    case (LCompact env fl payload xs)
    obtain res s' where c: "write_compaction (env\<lparr>le_ulids := ulids\<rparr>) key fl payload (keys_of ?arch xs) ?s = (res, s')"
      by (metis surj_pair)
    have "set (keys_of ?arch xs) \<subseteq> (\<lambda>a. (lr_id a, lr_record_id a)) ` set ?arch" by (auto simp: keys_of_def)
    then have "ledger_inv ulids key ?arch s' \<and> ids_ok ?arch (al_db s') (al_autoinc s')"
      using write_compaction_world [OF _ _ ids _ c] assms(1) inv by simp
    then show ?thesis using LCompact c by (simp add: world_inv_def)
  next
    case LFork
    then show ?thesis using fork_inv [OF inv] ids by (simp add: world_inv_def)
  next
    case (LForeignRow r)
    let ?s1 = "?s\<lparr>al_db := al_db ?s @ [r\<lparr>lr_id := al_autoinc ?s + 1\<rparr>], al_autoinc := al_autoinc ?s + 1\<rparr>"
    have "ids_within ((al_db ?s @ spool_rows ?s) @ [r]) (al_db ?s1 @ spool_rows ?s1)"
      by (auto simp: ids_within_def same_ids_def spool_rows_def good_lines_def)
    then have "foreign_row outside r \<Longrightarrow> ledger_inv ulids key ?arch ?s1"
      by (intro add_foreign_inv [OF inv assms(2), of r]) auto
    then show ?thesis using LForeignRow assms(3) ids_ok_snoc [OF ids] by (auto simp: world_inv_def)
  next
    case (LForeignLine l)
    let ?s1 = "?s\<lparr>al_spool := (al_spool ?s)\<lparr>sp_lines := Some (lines_of (al_spool ?s) @ [l])\<rparr>\<rparr>"
    have "foreign_line outside l \<Longrightarrow> ledger_inv ulids key ?arch ?s1"
      by (intro foreign_step_inv [OF inv assms(2), of l]) (simp_all add: lines_of_def)
    then show ?thesis using LForeignLine assms(3) ids by (auto simp: world_inv_def)
  qed
qed

lemma empty_world_inv: "world_inv ulids key empty_world"
  by (simp add: world_inv_def ledger_inv_def empty_world_def empty_log_def empty_seq_def unused_ids_def spool_rows_def
      good_lines_def lines_of_def ids_ok_def)

text \<open>The generator never repeats an id, and other processes' ids are not among them.\<close>

definition ids_distinct :: "(nat \<Rightarrow> string) \<Rightarrow> (string \<Rightarrow> bool) \<Rightarrow> bool" where
  "ids_distinct ulids outside \<longleftrightarrow> inj ulids \<and> (\<forall>n. \<not> outside (ulids n))"

interpretation ledger: invariant_system "ledger_step ulids outside key"
  "\<lambda>W. ids_distinct ulids outside \<longrightarrow> world_inv ulids key W" for ulids outside key
  by unfold_locales (auto simp: ids_distinct_def intro: ledger_step_inv)


definition demo_ids :: "nat \<Rightarrow> string" where
  "demo_ids n = (if n < 10 then replicate 25 (CHR ''0'') @ [char_of (48 + n)] else replicate (n + 20) (CHR ''A''))"

definition demo_log_entry :: audit_entry where
  "demo_log_entry = \<lparr>ae_run_id = ''r'', ae_step_id = None, ae_agent_type = ''a'', ae_hook_point = ''PreEgress'', ae_plugin = ''p'',
     ae_decision = ''allow'', ae_severity = ''info'', ae_reason = [], ae_classification = None, ae_tier = None,
     ae_payload = []\<rparr>"

definition demo_log_env :: log_env where
  "demo_log_env = \<lparr>le_now = ''t'', le_ulids = demo_ids, le_pid = 1, le_proc_started = None, le_bot_source = None\<rparr>"

definition demo_log_args :: write_args where
  "demo_log_args = \<lparr>wa_entry = demo_log_entry, wa_cost_usd = None, wa_ts = None\<rparr>"

text \<open>A first write whose database and spool both fail, then one that lands.\<close>

definition demo_ops :: "ledger_op list" where
  "demo_ops =
     [LRecord demo_log_env (no_write_faults\<lparr>wf_tx := [Some (PyExn ''OperationalError'' ''locked'')],
                                        wf_append := Refused (PyExn ''OSError'' ''full'')\<rparr>) demo_log_args,
      LRecord demo_log_env no_write_faults demo_log_args]"

lemma demo_ids_distinct: "ids_distinct demo_ids (\<lambda>s. s = ''Z'')"
proof -
  have "inj demo_ids"
  proof (rule injI)
    fix m n assume eq: "demo_ids m = demo_ids n"
    then have "length (demo_ids m) = length (demo_ids n)" by simp
    then consider "m = n" | "m < 10" "n < 10" by (auto simp: demo_ids_def split: if_splits)
    then show "m = n"
    proof cases
      case 2
      then have "char_of (48 + m) = (char_of (48 + n) :: char)" using eq by (simp add: demo_ids_def)
      then have "of_char (char_of (48 + m) :: char) = (of_char (char_of (48 + n) :: char) :: nat)" by simp
      then show ?thesis using 2 by simp
    qed
  qed
  moreover have "length (demo_ids n) \<noteq> length ''Z''" for n by (simp add: demo_ids_def)
  then have "demo_ids n \<noteq> ''Z''" for n by metis
  ultimately show ?thesis by (simp add: ids_distinct_def)
qed

definition demo_world :: ledger_world where
  "demo_world = run_ops (ledger_step demo_ids (\<lambda>s. s = ''Z'') ''k'') empty_world demo_ops"

lemma demo_writer:
  "map_option wr_next_seq (ss_writers (al_seq (lw_log demo_world)) ''k'') = Some 4"
  by code_simp


end
