(* ===== verification/Audit_Durability.thy ===== *)
theory Audit_Durability
  imports Audit_Ledger
begin

text \<open>
  Single operations of the audit ledger: where the row of a write is after it, what the spool gives back, what a
  drain and a compaction do to the table, when the spool empties, and the two ways a drain goes wrong.
\<close>

section \<open>What the counters of losses see\<close>

definition counts :: "seq_state \<Rightarrow> int \<times> int" where
  "counts ss = (ss_lost ss, ss_spooled ss)"

lemma counts_simps [simp]:
  "counts (set_writer key w ss) = counts ss"
  "counts (update_writer key wid f ss) = counts ss"
  "counts (restore_gaps key wid gaps ss) = counts ss"
  "counts (mark_started key wid ss) = counts ss"
  "counts (ss\<lparr>ss_minted := m\<rparr>) = counts ss"
  "counts (note_failure key wid n e sp True ss) = counts ss"
  by (simp_all add: counts_def)

lemma note_own_counts [simp]: "counts (note_own key wid e extra ss) = counts ss"
  unfolding note_own_def by (induction extra arbitrary: ss) simp_all

lemma allocate_counts: "counts (snd (allocate ulids key ss)) = counts ss"
  by (cases "ss_writers ss key") (simp_all add: allocate_known allocate_new)

lemma claim_gaps_counts: "counts (snd (claim_gaps key wid ss)) = counts ss"
  by (simp add: claim_gaps_def Let_def split: option.splits)

lemma insert_meta_counts: "insert_meta env wid n kind hp reason p sev t ss = (r, t', ss') \<Longrightarrow> counts ss' = counts ss"
  by (auto simp: insert_meta_def new_ulid_def split: prod.splits)

lemma write_gaps_counts: "write_gaps env key wid gs extra t ss = (r, extra', t', ss') \<Longrightarrow> counts ss' = counts ss"
proof (induction gs arbitrary: extra t ss)
  case Nil
  then show ?case by simp
next
  case (Cons g gs)
  obtain w n ss1 where a: "allocate (le_ulids env) key ss = ((w, n), ss1)" by (metis surj_pair)
  obtain r2 t1 ss2 where i: "insert_meta env wid n KIND_GAP ''audit.gap'' GAP_REASON (gap_payload g)
      (if gr_lost g \<noteq> 0 then ''error'' else ''warning'') t ss1 = (r2, t1, ss2)" by (metis surj_pair)
  have "counts ss2 = counts ss" using insert_meta_counts [OF i] allocate_counts [of "le_ulids env" key ss] a by simp
  then show ?case using Cons a i by (cases r2) auto
qed

lemma write_preamble_counts:
  assumes "write_preamble env key wid t ss = (res, extra, t', ss')"
  shows "counts ss' = counts ss"
proof -
  obtain r t1 ss1 where st: "write_start env key wid t ss = (r, t1, ss1)" by (metis surj_pair)
  obtain gaps ss2 where cl: "claim_gaps key wid ss1 = (gaps, ss2)" by (metis surj_pair)
  obtain g extra2 t2 ss3 where wg: "write_gaps env key wid gaps [] t1 ss2 = (g, extra2, t2, ss3)" by (metis surj_pair)
  have "counts ss1 = counts ss" using st by (auto simp: write_start_def split: if_splits dest: insert_meta_counts)
  moreover have "counts ss3 = counts ss1" using claim_gaps_counts [of key wid ss1] cl write_gaps_counts [OF wg] by simp
  ultimately show ?thesis using assms st cl wg by (cases r; cases g) (auto simp: write_preamble_def)
qed

lemma write_tx_counts:
  assumes "write_tx env key wid r t ss = (res, gaps, extra, t', ss')"
  shows "counts ss' = counts ss"
proof -
  obtain r1 t1 where s1: "stmt t = (r1, t1)" by (metis surj_pair)
  obtain r2 t2 where s2: "tx_insert False r t1 = (r2, t2)" by (metis surj_pair)
  obtain r3 ex t3 ss3 where s3: "write_preamble env key wid t2 ss = (r3, ex, t3, ss3)" by (metis surj_pair)
  obtain r4 t4 where s4: "stmt t3 = (r4, t4)" by (metis surj_pair)
  show ?thesis using assms s1 s2 s3 s4 write_preamble_counts [OF s3]
    by (cases r1; cases r2; cases r3; cases r4) (auto simp: write_tx_def)
qed

section \<open>A spool line is the row\<close>

lemma identity_values_sorted [simp]: "identity_values (sorted_dict p) = identity_values p"
proof -
  have str: "nonempty_str (json_sorted v) = nonempty_str v" for v by (cases v) simp_all
  have int: "int_value (json_sorted v) = int_value v" for v by (cases v) (simp_all add: int_value_def)
  show ?thesis by (simp add: identity_values_def str int)
qed

lemma spool_record_get:
  "dget (spool_record args ts rid wid n kind) ''kind'' = opt_str kind"
  "dget (spool_record args ts rid wid n kind) ''ts'' = PStr ts"
  "dget (spool_record args ts rid wid n kind) ''run_id'' = PStr (ae_run_id (wa_entry args))"
  "dget (spool_record args ts rid wid n kind) ''step_id'' = opt_int (ae_step_id (wa_entry args))"
  "dget (spool_record args ts rid wid n kind) ''agent_type'' = PStr (ae_agent_type (wa_entry args))"
  "dget (spool_record args ts rid wid n kind) ''hook_point'' = PStr (ae_hook_point (wa_entry args))"
  "dget (spool_record args ts rid wid n kind) ''plugin'' = PStr (ae_plugin (wa_entry args))"
  "dget (spool_record args ts rid wid n kind) ''decision'' = PStr (ae_decision (wa_entry args))"
  "dget (spool_record args ts rid wid n kind) ''classification'' = opt_str (ae_classification (wa_entry args))"
  "dget (spool_record args ts rid wid n kind) ''tier'' = opt_str (ae_tier (wa_entry args))"
  "dget (spool_record args ts rid wid n kind) ''cost_usd'' = opt_num (wa_cost_usd args)"
  "dget (spool_record args ts rid wid n kind) ''severity'' = PStr (ae_severity (wa_entry args))"
  "dget (spool_record args ts rid wid n kind) ''reason'' = PStr (ae_reason (wa_entry args))"
  "dget (spool_record args ts rid wid n kind) ''payload'' = PDict (sorted_dict (ae_payload (wa_entry args)))"
  "dget (spool_record args ts rid wid n kind) ''record_id'' = PStr rid"
  "dget (spool_record args ts rid wid n kind) ''writer_id'' = PStr wid"
  "dget (spool_record args ts rid wid n kind) ''writer_seq'' = PInt n"
  by (simp_all add: spool_record_def Let_def dict_simps)

lemma opt_values [simp]:
  "isinstance (opt_str x) TStr \<or> isinstance (opt_str x) TNone" "\<not> is_bool (opt_str x)"
  "isinstance (opt_int i) TInt \<or> isinstance (opt_int i) TNone" "\<not> is_bool (opt_int i)"
  "isinstance (opt_num q) TInt \<or> isinstance (opt_num q) TFloat \<or> isinstance (opt_num q) TNone" "\<not> is_bool (opt_num q)"
  by (cases x; cases i; cases q; simp add: is_bool_def opt_num_def)+

lemma spool_record_valid:
  assumes "is_ulid rid" "is_ulid wid" "0 \<le> n"
  shows "validate (PDict (spool_record args ts rid wid n kind)) = Some (spool_record args ts rid wid n kind)"
proof -
  let ?d = "spool_record args ts rid wid n kind"
  have "map fst ?d = map fst SPOOL_FIELDS" by (simp add: spool_record_def Let_def SPOOL_FIELDS_def)
  moreover have "types_ok ?d"
    by (simp add: types_ok_def SPOOL_FIELDS_def spool_record_get) (simp add: is_bool_def)
  ultimately show ?thesis using assms by (simp add: validate_def)
qed

text \<open>C14. What a failed write puts into the spool is the row it would have written. The line is accepted by the
  drain, and the row the drain inserts has the same fields, the same identity columns, the same record id and the
  same place in the writer's sequence.\<close>

theorem spool_line_is_the_row:
  assumes "is_ulid rid" "is_ulid wid" "0 \<le> n" "ts \<noteq> []"
    and "line = Json (json_sorted (PDict (spool_record args ts rid wid n kind)))"
  shows "map_option (spooled_row env) (parse_line line) = Some (make_row args ts rid wid n kind)"
proof -
  let ?d = "sorted_dict (spool_record args ts rid wid n kind)"
  have "parse_line line = Some ?d"
    using validate_sorted [OF spool_record_valid [OF assms(1-3)]] assms(5) by (simp add: parse_line_def)
  moreover have "spooled_row env ?d = make_row args ts rid wid n kind"
  proof -
    have str: "json_sorted (opt_str x) = opt_str x" "json_sorted (opt_int i) = opt_int i" "json_sorted (opt_num q) = opt_num q"
      for x i q by (cases x; cases i; cases q; simp add: opt_num_def)+
    have opt: "(case opt_str x of PStr s \<Rightarrow> Some s | _ \<Rightarrow> None) = x" "int_value (opt_int i) = i"
      "(case opt_num q of PInt j \<Rightarrow> Some (of_int j) | PFloat p \<Rightarrow> Some p | _ \<Rightarrow> None) = q" for x i q
      by (cases x; cases i; cases q; simp add: int_value_def opt_num_def)+
    have args: "spooled_args ?d =
        \<lparr>wa_entry = (wa_entry args)\<lparr>ae_payload := sorted_dict (ae_payload (wa_entry args))\<rparr>,
         wa_cost_usd = wa_cost_usd args, wa_ts = Some ts\<rparr>"
      by (simp add: spooled_args_def spool_record_get str opt str_field_def opt_str_field_def num_field_def dict_field_def)
    have "str_field ?d ''ts'' = ts" "opt_str_field ?d ''kind'' = kind"
      by (simp_all add: str_field_def opt_str_field_def spool_record_get str opt)
    then show ?thesis using assms(4) by (simp add: spooled_row_def args make_row_def)
  qed
  ultimately show ?thesis by simp
qed

lemma demo_ulid: "is_ulid (replicate 26 (CHR ''0''))"
  by code_simp

theorem spool_line_is_the_row_witness:
  "map_option (spooled_row demo_log_env)
     (parse_line (Json (json_sorted (PDict
        (spool_record demo_log_args ''t'' (replicate 26 (CHR ''0'')) (replicate 26 (CHR ''0'')) 3 None)))))
   = Some (make_row demo_log_args ''t'' (replicate 26 (CHR ''0'')) (replicate 26 (CHR ''0'')) 3 None)"
  by (rule spool_line_is_the_row [OF demo_ulid demo_ulid]) simp_all

section \<open>Where the row of a write is\<close>

definition stamped :: "log_env \<Rightarrow> write_args \<Rightarrow> write_args" where
  "stamped env args =
     args\<lparr>wa_entry := (wa_entry args)\<lparr>ae_payload := with_process_bot env (ae_payload (wa_entry args))\<rparr>\<rparr>"

lemma log_record_eq:
  "log_record env key fl args s =
     (case audit_write env key fl (stamped env args) None s of
        (Inl exc, s1) \<Rightarrow> (Inl exc, s1)
      | (Inr (_, row_id), s1) \<Rightarrow> (Inr row_id, s1))"
  by (simp add: log_record_def stamped_def Let_def)

text \<open>The facts of one write: the number and the id of the row, and the outcome of its transaction.\<close>

lemma audit_write_cases:
  assumes "audit_write env key fl args kind s = (res, s')"
  obtains (committed) wid n rid ts s1 where
      "allocate (le_ulids env) key (al_seq s) = ((wid, n), s1)"
      "ts = (case wa_ts args of None \<Rightarrow> le_now env | Some x \<Rightarrow> x)"
      "res = Inr (InDb, al_autoinc s + 1)"
      "(make_row args ts rid wid n kind)\<lparr>lr_id := al_autoinc s + 1\<rparr> \<in> set (al_db s')"
      "bindable (make_row args ts rid wid n kind)"
  | (spooled) wid n rid ts s1 where
      "allocate (le_ulids env) key (al_seq s) = ((wid, n), s1)"
      "ts = (case wa_ts args of None \<Rightarrow> le_now env | Some x \<Rightarrow> x)"
      "res = Inr (InSpool, 0)" "al_db s' = al_db s" "al_autoinc s' = al_autoinc s"
      "append_line (wf_append fl) (spool_record args ts rid wid n kind) (al_spool s) = (Inr (), al_spool s')"
      "counts (al_seq s') = (ss_lost (al_seq s), ss_spooled (al_seq s) + 1)"
  | (lost) wid n rid ts s1 e e' where
      "allocate (le_ulids env) key (al_seq s) = ((wid, n), s1)"
      "res = Inl e" "al_db s' = al_db s" "al_autoinc s' = al_autoinc s"
      "append_line (wf_append fl) (spool_record args ts rid wid n kind) (al_spool s) = (Inl e', al_spool s')"
      "counts (al_seq s') = (ss_lost (al_seq s) + 1, ss_spooled (al_seq s))"
proof -
  obtain wid n ss1 where al: "allocate (le_ulids env) key (al_seq s) = ((wid, n), ss1)" by (metis surj_pair)
  obtain rid ss2 where id: "new_ulid (le_ulids env) ss1 = (rid, ss2)" by (metis surj_pair)
  define ts where "ts = (case wa_ts args of None \<Rightarrow> le_now env | Some x \<Rightarrow> x)"
  obtain res1 gaps extra t ss3 where tx: "write_tx env key wid (make_row args ts rid wid n kind) (begin_tx (wf_tx fl) s) ss2
      = (res1, gaps, extra, t, ss3)" by (metis surj_pair)
  show ?thesis
  proof (cases res1)
    case (Inl e)
    define ss4 where "ss4 = note_own key wid e extra (restore_gaps key wid gaps ss3)"
    have "counts ss4 = counts (al_seq s)"
      using allocate_counts [of "le_ulids env" key "al_seq s"] write_tx_counts [OF tx] id al
      by (simp add: ss4_def new_ulid_def) (auto simp: counts_def)
    then have c4: "ss_lost ss4 = ss_lost (al_seq s)" "ss_spooled ss4 = ss_spooled (al_seq s)"
      by (simp_all add: counts_def)
    obtain r5 sp where ap: "append_line (wf_append fl) (spool_record args ts rid wid n kind) (al_spool s) = (r5, sp)"
      by (metis surj_pair)
    have w: "audit_write env key fl args kind s =
        (case r5 of Inl _ \<Rightarrow> (Inl e, s\<lparr>al_spool := sp, al_seq := note_failure key wid n e False False ss4\<rparr>)
                  | Inr _ \<Rightarrow> (Inr (InSpool, 0), s\<lparr>al_spool := sp, al_seq := note_failure key wid n e True False ss4\<rparr>))"
      using al id tx Inl ap by (cases r5) (simp_all add: audit_write_def ts_def spool_or_raise_def ss4_def)
    show ?thesis
    proof (cases r5)
      case (Inl e')
      show ?thesis using assms ap Inl by (intro lost [OF al, of e ts rid e']) (auto simp: w c4 counts_def)
    next
      case (Inr u)
      show ?thesis using assms ap Inr by (intro spooled [OF al ts_def, of rid]) (auto simp: w c4 counts_def)
    qed
  next
    case (Inr i)
    define s1 where "s1 = (commit_tx t s)\<lparr>al_seq := mark_started key wid ss3\<rparr>"
    have w: "res = Inr (InDb, i)" "s' = after_write env fl s1"
      using assms al id tx Inr by (simp_all add: audit_write_def ts_def s1_def)
    have "i = al_autoinc s + 1 \<and> (make_row args ts rid wid n kind)\<lparr>lr_id := al_autoinc s + 1\<rparr> \<in> set (tx_rows t)
        \<and> bindable (make_row args ts rid wid n kind)"
      using write_tx_Inr [OF tx [unfolded Inr]] by (simp add: begin_tx_def)
    moreover have "set (tx_rows t) \<subseteq> set (al_db s')"
      using db_grows_rows [OF after_write_grows [of s1 env fl]] by (auto simp: w s1_def commit_tx_def)
    ultimately show ?thesis using w(1) by (intro committed [OF al ts_def, of rid]) auto
  qed
qed

definition carries :: "write_args \<Rightarrow> ledger_row \<Rightarrow> bool" where
  "carries args r \<longleftrightarrow> (\<exists>ts rid wid n i kind. r = (make_row args ts rid wid n kind)\<lparr>lr_id := i\<rparr>)"

lemma audit_write_carried:
  assumes "audit_write env key fl args kind s = (Inr (InDb, i), s')"
  shows "\<exists>r \<in> set (al_db s'). lr_id r = i \<and> carries args r"
  using assms
proof (cases rule: audit_write_cases)
  case (committed wid n rid ts)
  have "carries args ((make_row args ts rid wid n kind)\<lparr>lr_id := i\<rparr>)" unfolding carries_def by blast
  then show ?thesis using committed(3,4) by force
qed auto

definition torn :: "spool \<Rightarrow> bool" where
  "torn sp = (lines_of sp \<noteq> [] \<and> (case last (lines_of sp) of Torn _ \<Rightarrow> True | _ \<Rightarrow> False))"

lemma append_Wrote:
  assumes "append_line Wrote rec sp = (r, sp')" "\<not> torn sp"
  shows "Json (json_sorted (PDict rec)) \<in> set (lines_of sp')"
  using assms
  by (auto simp: append_line_def Let_def lines_of_def torn_def add_text_def simp del: json_dumps.simps
      split: spool_line.splits option.splits)

lemma record_row_lands:
  assumes "log_record env key fl args s = (res, s')" "0 \<le> al_autoinc s"
  shows "\<forall>i. res = Inr i \<and> i \<noteq> 0 \<longrightarrow> (\<exists>r \<in> set (al_db s'). lr_id r = i \<and> carries (stamped env args) r)"
proof -
  obtain r1 s1 where w: "audit_write env key fl (stamped env args) None s = (r1, s1)" by (metis surj_pair)
  from w show ?thesis
  proof (cases rule: audit_write_cases)
    case (committed wid n rid ts)
    then show ?thesis using assms(1) w audit_write_carried [of env key fl "stamped env args" None s] by (auto simp: log_record_eq)
  qed (use assms(1) w in \<open>auto simp: log_record_eq\<close>)
qed

text \<open>The result of \<open>AuditLog.record\<close> tells the truth about the row. A positive result is the id of a row
  in the database with the arguments of the call and the bot id of the process; \<open>0\<close> means the database is as it was and,
  when the file system wrote what it was given after a whole line, the spool holds the row; an exception means that
  the database is as it was and the loss is counted. Nothing else is counted.\<close>

theorem record_result_is_where_the_row_is:
  assumes "log_record env key fl args s = (res, s')" "0 \<le> al_autoinc s"
  shows "(\<forall>i. res = Inr i \<and> i \<noteq> 0 \<longrightarrow> (\<exists>r \<in> set (al_db s'). lr_id r = i \<and> carries (stamped env args) r))
       \<and> (res = Inr 0 \<longrightarrow> al_db s' = al_db s
            \<and> counts (al_seq s') = (ss_lost (al_seq s), ss_spooled (al_seq s) + 1)
            \<and> (wf_append fl = Wrote \<and> \<not> torn (al_spool s) \<longrightarrow>
                 (\<exists>ts rid wid n. Json (json_sorted (PDict (spool_record (stamped env args) ts rid wid n None)))
                    \<in> set (lines_of (al_spool s')))))
       \<and> (\<forall>e. res = Inl e \<longrightarrow> al_db s' = al_db s
            \<and> counts (al_seq s') = (ss_lost (al_seq s) + 1, ss_spooled (al_seq s)))"
proof -
  obtain r1 s1 where w: "audit_write env key fl (stamped env args) None s = (r1, s1)" by (metis surj_pair)
  from w show ?thesis
  proof (cases rule: audit_write_cases)
    case (committed wid n rid ts)
    then have "res = Inr (al_autoinc s + 1)" using assms(1) w by (simp add: log_record_eq)
    then show ?thesis using record_row_lands [OF assms] assms(2) by simp
  next
    case (spooled wid n rid ts)
    then have res: "res = Inr 0" "s' = s1" using assms(1) w by (simp_all add: log_record_eq)
    have "\<exists>ts rid wid n. Json (json_sorted (PDict (spool_record (stamped env args) ts rid wid n None)))
        \<in> set (lines_of (al_spool s1))" if "wf_append fl = Wrote" "\<not> torn (al_spool s)"
      using append_Wrote [OF _ that(2)] spooled(6) that(1) by metis
    then show ?thesis using spooled(4,7) res by simp
  next
    case (lost wid n rid ts _ e e')
    then have "res = Inl e" "s' = s1" using assms(1) w by (simp_all add: log_record_eq)
    then show ?thesis using lost(3,6) by simp
  qed
qed

definition locked_faults :: write_faults where
  "locked_faults = no_write_faults\<lparr>wf_tx := [Some (PyExn ''OperationalError'' ''database is locked'')]\<rparr>"

lemma demo_spooled: "fst (log_record demo_log_env ''k'' locked_faults demo_log_args empty_log) = Inr 0"
  by code_simp

theorem record_result_is_where_the_row_is_witness:
  "\<exists>s'. log_record demo_log_env ''k'' locked_faults demo_log_args empty_log = (Inr 0, s')
      \<and> al_db s' = [] \<and> counts (al_seq s') = (0, 1) \<and> sp_lines (al_spool s') \<noteq> None"
proof -
  obtain s' where s': "log_record demo_log_env ''k'' locked_faults demo_log_args empty_log = (Inr 0, s')"
    using demo_spooled by (metis prod.collapse)
  have "wf_append locked_faults = Wrote" "\<not> torn (al_spool empty_log)" "0 \<le> al_autoinc empty_log"
    by (simp_all add: locked_faults_def no_write_faults_def torn_def empty_log_def lines_of_def)
  with record_result_is_where_the_row_is [OF s']
  have "al_db s' = [] \<and> counts (al_seq s') = (0, 1) \<and> lines_of (al_spool s') \<noteq> []"
    by (auto simp: empty_log_def empty_seq_def)
  then show ?thesis using s' by (cases "sp_lines (al_spool s')") (simp_all add: lines_of_def)
qed

section \<open>Draining\<close>

lemma clashes_own: "lr_record_id r \<noteq> None \<Longrightarrow> clashes r (r\<lparr>lr_id := i\<rparr>)"
  by (simp add: clashes_def)

lemma clashes_spooled_env: "clashes (spooled_row env d) = clashes (spooled_row env' d)"
  by (rule ext) (simp add: clashes_def spooled_row_def)

lemma spooled_row_record_id: "lr_record_id (spooled_row env d) \<noteq> None"
  by (simp add: spooled_row_def)

text \<open>A table that already has a row for every line is left as it is.\<close>

lemma insert_spooled_present:
  assumes "\<forall>d \<in> set recs. list_ex (clashes (spooled_row env d)) (tx_rows t)" "insert_spooled env recs t = (res, t')"
  shows "tx_rows t' = tx_rows t"
  using assms
proof (induction recs arbitrary: t)
  case Nil
  then show ?case by simp
next
  case (Cons rec recs)
  obtain r t1 where i: "tx_insert True (spooled_row env rec) t = (r, t1)" by (metis surj_pair)
  have "list_ex (clashes (spooled_row env rec)) (tx_rows t)" using Cons.prems by simp
  then have same: "tx_rows t1 = tx_rows t" using i by (elim tx_insert_cases) auto
  show ?case
  proof (cases r)
    case (Inl e)
    then show ?thesis using Cons.prems(2) i same by simp
  next
    case (Inr x)
    then have "insert_spooled env recs t1 = (res, t')" using Cons.prems(2) i by simp
    moreover have "\<forall>d \<in> set recs. list_ex (clashes (spooled_row env d)) (tx_rows t1)" using Cons.prems(1) same by simp
    ultimately show ?thesis using Cons.IH [of t1] same by simp
  qed
qed

text \<open>After a replay that went through every line has its row.\<close>

lemma insert_spooled_complete:
  assumes "insert_spooled env recs t = (Inr u, t')"
  shows "\<forall>d \<in> set recs. list_ex (clashes (spooled_row env d)) (tx_rows t')"
  using assms
proof (induction recs arbitrary: t)
  case Nil
  then show ?case by simp
next
  case (Cons rec recs)
  obtain r t1 where i: "tx_insert True (spooled_row env rec) t = (r, t1)" by (metis surj_pair)
  then obtain x where r: "r = Inr x" using Cons.prems by (cases r) auto
  then have rest: "insert_spooled env recs t1 = (Inr u, t')" using Cons.prems i by simp
  have "list_ex (clashes (spooled_row env rec)) (tx_rows t1)"
    using i r clashes_own [OF spooled_row_record_id] by (elim tx_insert_cases) auto
  then have "list_ex (clashes (spooled_row env rec)) (tx_rows t')"
    using extends_set [OF insert_spooled_extends [OF rest]] by (auto simp: list_ex_iff)
  then show ?case using Cons.IH [OF rest] by simp
qed

lemma apply_spooled_True:
  assumes "apply_spooled env faults recs s = (Inr True, s')"
  shows "\<forall>d \<in> set recs. list_ex (clashes (spooled_row env d)) (al_db s')"
proof -
  obtain r1 t1 where s1: "stmt (begin_tx faults s) = (r1, t1)" by (metis surj_pair)
  obtain r2 t2 where s2: "insert_spooled env recs t1 = (r2, t2)" by (metis surj_pair)
  obtain r3 t3 where s3: "stmt t2 = (r3, t3)" by (metis surj_pair)
  have "s' = commit_tx t3 s \<and> r2 = Inr ()"
    using assms s1 s2 s3 by (cases r1; cases r2; cases r3) (auto simp: apply_spooled_def Let_def split: if_splits)
  then show ?thesis
    using insert_spooled_complete [of env recs t1 "()" t2] s2 stmt_frame [OF s3] by (simp add: commit_tx_def)
qed

lemma apply_spooled_present:
  assumes "apply_spooled env faults recs s = (res, s')" "\<forall>d \<in> set recs. list_ex (clashes (spooled_row env d)) (al_db s)"
  shows "al_db s' = al_db s"
proof -
  obtain r1 t1 where s1: "stmt (begin_tx faults s) = (r1, t1)" by (metis surj_pair)
  obtain r2 t2 where s2: "insert_spooled env recs t1 = (r2, t2)" by (metis surj_pair)
  obtain r3 t3 where s3: "stmt t2 = (r3, t3)" by (metis surj_pair)
  have "tx_rows t1 = al_db s" using stmt_frame [OF s1] by (simp add: begin_tx_def)
  then have "tx_rows t3 = al_db s" using insert_spooled_present [OF _ s2] assms(2) stmt_frame [OF s3] by simp
  then show ?thesis
    using assms(1) s1 s2 s3 by (cases r1; cases r2; cases r3) (auto simp: apply_spooled_def commit_tx_def Let_def)
qed

lemma drain_spool_db:
  assumes "drain_spool env f faults s = (n, s')"
  shows "al_db s' = al_db s \<or> (\<exists>s1. apply_spooled env faults (good_lines s) s = (Inr True, s1) \<and> al_db s' = al_db s1)"
proof -
  obtain res sp s1 where d: "drain f (apply_spooled env faults) (al_spool s) s = (res, sp, s1)" by (metis surj_pair)
  have "s' = s \<or> s' = s1\<lparr>al_spool := sp\<rparr>" using assms d by (auto simp: drain_spool_def split: if_splits)
  moreover have "s1 = s \<or> apply_spooled env faults (good_lines s) s = (Inr True, s1)"
    using drain_effect(1) [OF d] apply_spooled_effect unfolding good_lines_def by metis
  ultimately show ?thesis by auto
qed

lemma extends_new_rows:
  "extends t t' \<Longrightarrow> tx_rows t' = tx_rows t @ added \<Longrightarrow> q \<in> set added \<Longrightarrow> \<not> list_ex (clashes q) (tx_rows t)"
proof (induction arbitrary: added rule: extends.induct)
  case (ext_same t' t)
  then show ?case by simp
next
  case (ext_add t t1 r t')
  obtain mid where mid: "tx_rows t1 = tx_rows t @ mid" using extends_rows [OF ext_add.hyps(1)] by blast
  then have "q \<in> set mid \<or> q = r\<lparr>lr_id := tx_autoinc t1 + 1\<rparr>" using ext_add.prems ext_add.hyps(3) by auto
  moreover have "clashes (r\<lparr>lr_id := i\<rparr>) = clashes r" for i by (rule ext) (simp add: clashes_def)
  ultimately show ?case using ext_add.IH [OF mid] ext_add.hyps(2) mid by auto
qed

text \<open>C13. The spool can add a row that is missing and cannot rewrite one that is there. Whatever the spool file
  holds, whoever wrote it, and whatever fails, a drain leaves every row of the ledger where it was; each row it adds
  is the row of an accepted line and repeats neither a record id nor a writer's number of a row of the ledger; and
  replaying the same file once more after a drain that added rows adds nothing.\<close>

theorem drain_cannot_rewrite_history:
  assumes "drain_spool env f faults s = (n, s')"
  shows "(\<exists>added. al_db s' = al_db s @ added \<and> from_lines env (good_lines s) added
            \<and> (\<forall>q \<in> set added. \<not> list_ex (clashes q) (al_db s)))
       \<and> (al_db s' \<noteq> al_db s \<longrightarrow>
            al_db (snd (drain_spool env' f' faults' (s'\<lparr>al_spool := al_spool s\<rparr>))) = al_db s')"
proof (intro conjI impI)
  obtain added where added: "al_db s' = al_db s @ added" "from_lines env (good_lines s) added"
    using drain_spool_effect(2) [OF assms] by blast
  have "extends (begin_tx [] s) (begin_tx [] s')"
    using drain_spool_grows [of s env f faults] assms by (simp add: db_grows_def)
  then have "\<not> list_ex (clashes q) (al_db s)" if "q \<in> set added" for q
    using extends_new_rows [of "begin_tx [] s" "begin_tx [] s'" added q] added(1) that by (simp add: begin_tx_def)
  then show "\<exists>added. al_db s' = al_db s @ added \<and> from_lines env (good_lines s) added
      \<and> (\<forall>q \<in> set added. \<not> list_ex (clashes q) (al_db s))" using added by blast
next
  assume "al_db s' \<noteq> al_db s"
  then have all: "\<forall>d \<in> set (good_lines s). list_ex (clashes (spooled_row env' d)) (al_db s')"
    using drain_spool_db [OF assms] apply_spooled_True clashes_spooled_env by metis
  let ?s2 = "s'\<lparr>al_spool := al_spool s\<rparr>"
  obtain m s3 where d: "drain_spool env' f' faults' ?s2 = (m, s3)" by (metis surj_pair)
  have "good_lines ?s2 = good_lines s" by (simp add: good_lines_def)
  then have "al_db s3 = al_db s'"
    using drain_spool_db [OF d] apply_spooled_present [of env' faults' "good_lines s" ?s2] all by auto
  then show "al_db (snd (drain_spool env' f' faults' ?s2)) = al_db s'" using d by simp
qed

section \<open>A write without faults\<close>

lemma stmt_clean [simp]: "tx_faults t = [] \<Longrightarrow> stmt t = (Inr (), t)"
  by (simp add: stmt_def)

lemma tx_insert_clean:
  assumes "tx_faults t = []" "bindable r" "ign \<or> \<not> list_ex (clashes r) (tx_rows t)"
  shows "\<exists>i t'. tx_insert ign r t = (Inr i, t') \<and> tx_faults t' = []"
  using assms by (auto simp: tx_insert_def)

lemma insert_meta_clean:
  assumes "tx_faults t = []" "sql_int n" "\<not> dhas p ''attempt''"
  shows "\<exists>i t' ss'. insert_meta env wid n kind hp reason p sev t ss = (Inr i, t', ss') \<and> tx_faults t' = []"
proof -
  define args where "args = \<lparr>wa_entry = meta_entry wid hp sev reason p, wa_cost_usd = None, wa_ts = None\<rparr>"
  have "bindable (make_row args (le_now env) (le_ulids env (ss_minted ss)) wid n (Some kind))"
    using assms(2) dget_dmerge_other [OF assms(3)]
    by (simp add: bindable_def make_row_def args_def meta_entry_def identity_values_def opt_ok_def int_value_def dict_simps)
  from tx_insert_clean [OF assms(1) this, of True]
  show ?thesis by (auto simp: insert_meta_def new_ulid_def args_def)
qed

lemma write_gaps_clean:
  assumes "inj ulids" "le_ulids env = ulids" "fresh ulids key ss w (tx_rows t)" "tx_faults t = []"
    "wr_next_seq w + int (length gs) \<le> 2 ^ 63"
  shows "\<exists>extra' t' ss'. write_gaps env key (wr_id w) gs extra t ss = (Inr (), extra', t', ss') \<and> tx_faults t' = []"
  using assms(3-5)
proof (induction gs arbitrary: extra t ss w)
  case Nil
  then show ?case by simp
next
  case (Cons g gs)
  define w1 where "w1 = w\<lparr>wr_next_seq := wr_next_seq w + 1\<rparr>"
  define ss1 where "ss1 = set_writer key w1 ss"
  have al: "allocate (le_ulids env) key ss = ((wr_id w, wr_next_seq w), ss1)"
    using Cons.prems(1) assms(2) by (simp add: fresh_def allocate_known ss1_def w1_def)
  have "later key w ss w1 ss1" by (simp add: later_def ss1_def w1_def)
  then have f1: "fresh ulids key ss1 w1 (tx_rows t)" using Cons.prems(1) fresh_later by blast
  have "0 < wr_next_seq w" using Cons.prems(1) by (simp add: fresh_def)
  then have "sql_int (wr_next_seq w)" using Cons.prems(3) by (simp add: sql_int_def)
  moreover have "\<not> dhas (gap_payload g) ''attempt''" by (simp add: gap_payload_def dict_simps)
  ultimately obtain i t1 ss2 where ins: "insert_meta env (wr_id w) (wr_next_seq w) KIND_GAP ''audit.gap'' GAP_REASON
      (gap_payload g) (if gr_lost g \<noteq> 0 then ''error'' else ''warning'') t ss1 = (Inr i, t1, ss2)" "tx_faults t1 = []"
    using insert_meta_clean [OF Cons.prems(2)] by blast
  have id1: "wr_id w1 = wr_id w" "wr_next_seq w1 = wr_next_seq w + 1" by (simp_all add: w1_def)
  have "fresh ulids key ss2 w1 (tx_rows t1)"
    using insert_meta_fresh [OF assms(1,2) f1, of "wr_next_seq w"] ins(1) id1 by (metis zless_add1_eq)
  from Cons.IH [OF this ins(2), of "extra @ [wr_next_seq w]"] show ?case
    using Cons.prems(3) al ins(1) id1 by auto
qed

lemma claim_gaps_length: "claim_gaps key wid ss = (gaps, ss') \<Longrightarrow> length gaps \<le> MAX_GAPS_PER_WRITE"
  by (auto simp: claim_gaps_def Let_def split: option.splits if_splits)

lemma write_preamble_clean:
  assumes "inj ulids" "le_ulids env = ulids" "fresh ulids key ss w (tx_rows t)" "tx_faults t = []"
    "wr_next_seq w + 16 \<le> 2 ^ 63"
  shows "\<exists>gaps extra t' ss'. write_preamble env key (wr_id w) t ss = (Inr gaps, extra, t', ss') \<and> tx_faults t' = []"
proof -
  have "sql_int START_SEQ" by (simp add: START_SEQ_def sql_int_def)
  moreover have "\<not> dhas (process_identity env) ''attempt''"
    by (simp add: process_identity_def dict_simps split: option.splits)
  ultimately obtain i t1 ss1 where st: "write_start env key (wr_id w) t ss = (Inr i, t1, ss1)" "tx_faults t1 = []"
    using insert_meta_clean [OF assms(4)] assms(4) unfolding write_start_def by (metis (full_types))
  have f1: "fresh ulids key ss1 w (tx_rows t1)" using write_start_fresh [OF assms(1-3) st(1)] by simp
  obtain gaps ss2 where cl: "claim_gaps key (wr_id w) ss1 = (gaps, ss2)" by (metis surj_pair)
  obtain w1 where w1: "later key w ss1 w1 ss2" "fresh ulids key ss2 w1 (tx_rows t1)" "wr_next_seq w1 = wr_next_seq w"
    using claim_gaps_fresh [OF f1 cl] by blast
  have id1: "wr_id w1 = wr_id w" using w1(1) by (simp add: later_def)
  have "wr_next_seq w1 + int (length gaps) \<le> 2 ^ 63"
    using claim_gaps_length [OF cl] assms(5) w1(3) by (simp add: MAX_GAPS_PER_WRITE_def)
  then obtain extra t2 ss3 where "write_gaps env key (wr_id w1) gaps [] t1 ss2 = (Inr (), extra, t2, ss3)" "tx_faults t2 = []"
    using write_gaps_clean [OF assms(1,2) w1(2) st(2)] by blast
  then show ?thesis using st cl id1 by (simp add: write_preamble_def)
qed

lemma insert_spooled_clean:
  assumes "tx_faults t = []" "\<forall>d \<in> set recs. bindable (spooled_row env d)"
  shows "\<exists>t'. insert_spooled env recs t = (Inr (), t') \<and> tx_faults t' = []"
  using assms
proof (induction recs arbitrary: t)
  case Nil
  then show ?case by simp
next
  case (Cons d recs)
  then obtain i t1 where "tx_insert True (spooled_row env d) t = (Inr i, t1)" "tx_faults t1 = []"
    using tx_insert_clean [of t "spooled_row env d" True] by auto
  then show ?case using Cons by simp
qed

lemma apply_spooled_clean:
  assumes "\<forall>d \<in> set recs. bindable (spooled_row env d)"
  shows "\<exists>s'. apply_spooled env [] recs s = (Inr True, s')"
proof -
  obtain t' where "insert_spooled env recs (begin_tx [] s) = (Inr (), t')" "tx_faults t' = []"
    using insert_spooled_clean [OF _ assms, of "begin_tx [] s"] by (auto simp: begin_tx_def)
  then show ?thesis by (simp add: apply_spooled_def begin_tx_def)
qed

text \<open>A drain that meets no fault and no row SQLite cannot hold: the file is gone and every accepted line has its
  row.\<close>

lemma drain_spool_clean:
  assumes "\<forall>d \<in> set (good_lines s). bindable (spooled_row env d)"
    and "drain_spool env no_drain_faults [] s = (n, s')"
  shows "sp_lines (al_spool s') = None \<and> n = (if sp_lines (al_spool s) = None then 0 else length (good_lines s))
       \<and> (\<forall>d \<in> set (good_lines s). list_ex (clashes (spooled_row env d)) (al_db s'))"
proof (cases "sp_lines (al_spool s)")
  case None
  then show ?thesis using assms(2) by (auto simp: drain_spool_def good_lines_def lines_of_def)
next
  case (Some ls)
  have good: "fst (split_valid ls) = good_lines s" by (simp add: good_lines_def lines_of_def Some)
  obtain s1 where ap: "apply_spooled env [] (good_lines s) s = (Inr True, s1)"
    using apply_spooled_clean [OF assms(1)] by blast
  define w' where "w' = (if good_lines s = [] then s else s1)"
  have "drain no_drain_faults (apply_spooled env []) (al_spool s) s =
      (Inr (length (good_lines s)), \<lparr>sp_lines = None, sp_rejected = sp_rejected (al_spool s) @ snd (split_valid ls)\<rparr>, w')"
    by (rule drain_clean [OF Some refl good refl]) (auto simp: w'_def ap)
  then have "n = length (good_lines s)" "s' = w'\<lparr>al_spool := \<lparr>sp_lines = None, sp_rejected = sp_rejected (al_spool s) @ snd (split_valid ls)\<rparr>\<rparr>"
    using assms(2) Some by (simp_all add: drain_spool_def)
  then show ?thesis using apply_spooled_True [OF ap] Some by (simp add: w'_def)
qed

lemma write_tx_clean:
  assumes "inj ulids" "le_ulids env = ulids" "fresh ulids key ss w (tx_rows t)" "tx_faults t = []"
    and "wr_next_seq w + 16 \<le> 2 ^ 63" "bindable r" "\<not> list_ex (clashes r) (tx_rows t)"
    and "lr_writer_id r = Some (wr_id w)" "lr_writer_seq r = Some n" "n < wr_next_seq w"
    and "\<forall>k \<ge> ss_minted ss. lr_record_id r \<noteq> Some (ulids k)"
  shows "\<exists>i gaps extra t' ss'. write_tx env key (wr_id w) r t ss = (Inr i, gaps, extra, t', ss')"
proof -
  obtain i t2 where s2: "tx_insert False r t = (Inr i, t2)" "tx_faults t2 = []"
    using tx_insert_clean [OF assms(4,6), of False] assms(7) by auto
  have "tx_rows t2 = tx_rows t @ [r\<lparr>lr_id := tx_autoinc t + 1\<rparr>]"
    using s2(1) by (elim tx_insert_cases) auto
  then have "fresh ulids key ss w (tx_rows t2)" using fresh_snoc [OF assms(3,8-11)] by simp
  from write_preamble_clean [OF assms(1,2) this s2(2) assms(5)]
  obtain gaps extra t3 ss3 where "write_preamble env key (wr_id w) t2 ss = (Inr gaps, extra, t3, ss3)" "tx_faults t3 = []"
    by blast
  then show ?thesis using s2(1) assms(4) by (simp add: write_tx_def)
qed

text \<open>The part of a row's arguments that must fit 64 bits.\<close>

definition fits :: "write_args \<Rightarrow> bool" where
  "fits args = (opt_ok sql_int (ae_step_id (wa_entry args))
                \<and> opt_ok sql_int (int_value (dget (ae_payload (wa_entry args)) ''attempt'')))"

lemma bindable_make_row: "fits args \<Longrightarrow> sql_int n \<Longrightarrow> bindable (make_row args ts rid wid n kind)"
  by (simp add: fits_def bindable_def make_row_def identity_values_def opt_ok_def)

lemma audit_write_clean:
  assumes "inj (le_ulids env)" "ledger_inv (le_ulids env) key arch s" "fits args"
    and "\<forall>w. ss_writers (al_seq s) key = Some w \<longrightarrow> wr_next_seq w < 2 ^ 62"
    and "audit_write env key no_write_faults args kind s = (res, s')"
  shows "\<exists>i s1. res = Inr (InDb, i) \<and> s' = after_write env no_write_faults s1 \<and> al_spool s1 = al_spool s"
proof -
  let ?u = "le_ulids env"
  obtain wid n ss1 where al: "allocate ?u key (al_seq s) = ((wid, n), ss1)" by (metis surj_pair)
  obtain w where w: "wid = wr_id w" "wr_next_seq w = n + 1" "fresh ?u key ss1 w (al_db s @ spool_rows s)"
      "seqs_below (w\<lparr>wr_next_seq := n\<rparr>) (al_db s @ spool_rows s)"
      "n = (case ss_writers (al_seq s) key of None \<Rightarrow> 1 | Some w0 \<Rightarrow> wr_next_seq w0)"
    using allocate_inv [OF assms(1,2) al] by metis
  have bound: "0 \<le> n" "n < 2 ^ 62" using w(3,5,2) assms(4) by (auto simp: fresh_def split: option.splits)
  define rid ss2 where "rid = ?u (ss_minted ss1)" and "ss2 = ss1\<lparr>ss_minted := Suc (ss_minted ss1)\<rparr>"
  have id: "new_ulid ?u ss1 = (rid, ss2)" by (simp add: new_ulid_def rid_def ss2_def)
  have f2: "fresh ?u key ss2 w (tx_rows (begin_tx [] s))"
    using new_ulid_later [OF fresh_writer [OF w(3)], of ?u] fresh_later [OF w(3)] id by (simp add: begin_tx_def fresh_append)
  have rid: "\<forall>k \<ge> ss_minted ss2. rid \<noteq> ?u k" using assms(1) by (auto simp: rid_def ss2_def dest: injD)
  define ts where "ts = (case wa_ts args of None \<Rightarrow> le_now env | Some x \<Rightarrow> x)"
  define r where "r = make_row args ts rid wid n kind"
  have "\<not> clashes r q" if "q \<in> set (al_db s)" for q
  proof -
    have "lr_record_id q \<noteq> Some rid" using w(3) that by (auto simp: fresh_def unused_ids_def rid_def)
    moreover have "\<not> (lr_writer_id q = Some wid \<and> lr_writer_seq q = Some n)"
      using w(1,4) that by (auto simp: seqs_below_def)
    ultimately show ?thesis by (auto simp: clashes_def r_def)
  qed
  then have "\<not> list_ex (clashes r) (tx_rows (begin_tx [] s))" by (auto simp: list_ex_iff begin_tx_def)
  moreover have "bindable r" unfolding r_def using assms(3) bound by (intro bindable_make_row) (simp_all add: sql_int_def)
  ultimately obtain i gaps extra t ss3 where tx: "write_tx env key wid r (begin_tx [] s) ss2 = (Inr i, gaps, extra, t, ss3)"
    using write_tx_clean [OF assms(1) refl f2, of r n] bound w(1,2) rid by (auto simp: r_def begin_tx_def)
  have "audit_write env key no_write_faults args kind s =
      (Inr (InDb, i), after_write env no_write_faults ((commit_tx t s)\<lparr>al_seq := mark_started key wid ss3\<rparr>))"
    using al id tx by (simp add: audit_write_def ts_def r_def no_write_faults_def)
  then show ?thesis using assms(5) by (intro exI [of _ i] exI) (auto simp: commit_tx_def)
qed


text \<open>One row kept in the spool by a locked database, then a write that lands.\<close>

definition spooled_world :: ledger_world where
  "spooled_world = run_ops (ledger_step demo_ids (\<lambda>s. s = ''Z'') ''k'') empty_world
     [LRecord demo_log_env locked_faults demo_log_args]"

definition log_view :: "audit_state \<Rightarrow> int option \<times> bool \<times> nat \<times> nat" where
  "log_view s = (map_option wr_next_seq (ss_writers (al_seq s) ''k''),
     list_all (\<lambda>d. bindable (spooled_row demo_log_env d)) (good_lines s), length (good_lines s), length (al_db s))"

lemma spooled_world_view: "log_view (lw_log spooled_world) = (Some 2, True, 1, 0)"
  by code_simp

lemma spooled_world_facts:
  "map_option wr_next_seq (ss_writers (al_seq (lw_log spooled_world)) ''k'') = Some 2"
  "list_all (\<lambda>d. bindable (spooled_row demo_log_env d)) (good_lines (lw_log spooled_world))"
  "length (good_lines (lw_log spooled_world)) = 1"
  "al_db (lw_log spooled_world) = []"
  using spooled_world_view by (simp_all add: log_view_def)

lemma demo_args_fit: "fits (stamped demo_log_env demo_log_args)"
  by (simp add: fits_def stamped_def demo_log_env_def demo_log_args_def demo_log_entry_def opt_ok_def with_process_bot_def
      int_value_def dstamp_def truthy_or_none_def truthy_str_def)


definition demo_drained :: "nat \<times> audit_state" where
  "demo_drained = drain_spool demo_log_env no_drain_faults [] (lw_log spooled_world)"

lemma demo_drained_rows: "length (al_db (snd demo_drained)) = 1"
proof -
  let ?s = "lw_log spooled_world"
  obtain d where good: "good_lines ?s = [d]"
    using spooled_world_facts(3) by (metis One_nat_def length_0_conv length_Suc_conv)
  then have ok: "\<forall>d \<in> set (good_lines ?s). bindable (spooled_row demo_log_env d)"
    using spooled_world_facts(2) by (simp add: list_all_iff)
  have dr: "drain_spool demo_log_env no_drain_faults [] ?s = (fst demo_drained, snd demo_drained)"
    by (simp add: demo_drained_def)
  obtain s1 where ap: "apply_spooled demo_log_env [] (good_lines ?s) ?s = (Inr True, s1)"
    using apply_spooled_clean [OF ok] by blast
  have "list_ex (clashes (spooled_row demo_log_env d)) (al_db (snd demo_drained))"
    using drain_spool_clean [OF ok dr] good by simp
  then have "al_db (snd demo_drained) \<noteq> al_db ?s" using spooled_world_facts(4) by auto
  then have "al_db (snd demo_drained) = al_db s1" using drain_spool_db [OF dr] ap by simp
  moreover have "al_db s1 = [(spooled_row demo_log_env d)\<lparr>lr_id := al_autoinc ?s + 1\<rparr>]"
    using ap ok spooled_world_facts(4)
    by (simp add: good apply_spooled_def begin_tx_def stmt_def tx_insert_def commit_tx_def Let_def split: if_splits) auto
  ultimately show ?thesis by simp
qed

theorem drain_cannot_rewrite_history_witness:
  "al_db (snd (drain_spool demo_log_env no_drain_faults [] ((snd demo_drained)\<lparr>al_spool := al_spool (lw_log spooled_world)\<rparr>)))
     = al_db (snd demo_drained) \<and> length (al_db (snd demo_drained)) = 1"
proof -
  have "al_db (snd demo_drained) \<noteq> al_db (lw_log spooled_world)"
    using demo_drained_rows spooled_world_facts(4) by auto
  moreover have "drain_spool demo_log_env no_drain_faults [] (lw_log spooled_world) = (fst demo_drained, snd demo_drained)"
    by (simp add: demo_drained_def)
  ultimately show ?thesis
    using drain_cannot_rewrite_history [of demo_log_env no_drain_faults "[]" "lw_log spooled_world"
        "fst demo_drained" "snd demo_drained" demo_log_env no_drain_faults "[]"] demo_drained_rows by blast
qed

section \<open>Two ways a drain goes wrong\<close>

text \<open>A spool that exists but cannot be read is deleted. When opening or reading the file raises an
  \<open>OSError\<close> (too many open files, an I/O error, permissions) and removing it does not, a drain takes the file for an
  empty one: every waiting row is gone, none of them is in the ledger, the drain reports success, and the
  health report no longer shows anything waiting.\<close>

theorem unreadable_spool_is_deleted:
  assumes "sp_lines (al_spool s) = Some lines" "df_lock f = None" "df_read f" "df_rewrite f = None"
    and "drain_spool env f faults s = (n, s')"
  shows "sp_lines (al_spool s') = None \<and> al_db s' = al_db s \<and> al_seq s' = al_seq s \<and> n = 0
       \<and> dget (write_health s') ''spool_pending'' = PInt 0"
proof -
  have "s' = s\<lparr>al_spool := (al_spool s)\<lparr>sp_lines := None\<rparr>\<rparr> \<and> n = 0"
    using assms(5) drain_unreadable [OF assms(1-4), of "apply_spooled env faults" s] assms(1)
    by (simp add: drain_spool_def)
  then show ?thesis
    by (simp add: write_health_def Let_def dict_simps spool_state_of_def lines_of_def count_lines_def)
qed

theorem unreadable_spool_is_deleted_witness:
  "\<exists>n s'. drain_spool demo_log_env (no_drain_faults\<lparr>df_read := True\<rparr>) [] (lw_log spooled_world) = (n, s')
     \<and> sp_lines (al_spool (lw_log spooled_world)) \<noteq> None \<and> sp_lines (al_spool s') = None \<and> al_db s' = []"
proof -
  let ?f = "no_drain_faults\<lparr>df_read := True\<rparr>"
  obtain lines where l: "sp_lines (al_spool (lw_log spooled_world)) = Some lines"
    using spooled_world_facts(3) by (cases "sp_lines (al_spool (lw_log spooled_world))") (auto simp: good_lines_def lines_of_def)
  obtain n s' where d: "drain_spool demo_log_env ?f [] (lw_log spooled_world) = (n, s')" by (metis surj_pair)
  show ?thesis
    using spooled_world_facts(4) unreadable_spool_is_deleted [OF l _ _ _ d] d l by (simp add: no_drain_faults_def)
qed

lemma insert_spooled_unbindable:
  assumes "d \<in> set recs" "\<not> bindable (spooled_row env d)" "insert_spooled env recs t = (res, t')"
  shows "isl res"
  using assms
proof (induction recs arbitrary: t)
  case Nil
  then show ?case by simp
next
  case (Cons rec recs)
  obtain r t1 where i: "tx_insert True (spooled_row env rec) t = (r, t1)" by (metis surj_pair)
  show ?case
  proof (cases "rec = d \<or> isl r")
    case True
    then have "isl r" using i Cons.prems(2) by (cases t rule: stmt_cases) (auto simp: tx_insert_def)
    then show ?thesis using Cons.prems(3) i by (cases r) auto
  next
    case False
    then obtain x where "r = Inr x" by (cases r) auto
    then show ?thesis using Cons.IH [of t1] Cons.prems False i by auto
  qed
qed

lemma apply_spooled_unbindable:
  assumes "d \<in> set recs" "\<not> bindable (spooled_row env d)"
  shows "apply_spooled env faults recs s \<noteq> (Inr True, s')"
proof -
  obtain r1 t1 where s1: "stmt (begin_tx faults s) = (r1, t1)" by (metis surj_pair)
  obtain r2 t2 where s2: "insert_spooled env recs t1 = (r2, t2)" by (metis surj_pair)
  then have "isl r2" using insert_spooled_unbindable [OF assms] by blast
  then obtain e where "r2 = Inl e" by (cases r2) auto
  then show ?thesis using s1 s2 by (cases r1) (auto simp: apply_spooled_def)
qed

lemma drain_not_applied:
  assumes "drain f app sp w = (r, sp', w')" "\<not> df_read f"
    and "fst (split_valid (lines_of sp)) = good" "good \<noteq> []" "\<And>w1. app good w \<noteq> (Inr True, w1)"
  shows "(isl r \<or> r = Inr 0)
       \<and> (lines_of sp' = lines_of sp \<or> lines_of sp' = map (\<lambda>d. Json (json_sorted (PDict d))) good)"
proof -
  obtain bad where rv: "read_valid f sp = (good, bad)"
    using assms(2,3) by (metis prod.collapse read_valid_def)
  obtain taken w1 where tk: "app good w = (taken, w1)" by (metis surj_pair)
  have "taken \<noteq> Inr True" using assms(5) tk by auto
  then show ?thesis using assms(1,4) rv tk
    by (auto simp: drain_def drain_apply_def rewrite_def lines_of_def
        split: if_splits option.splits sum.splits bool.splits)
qed

lemma good_lines_of_rewritten:
  assumes "d \<in> set (good_lines s)" "lines_of (al_spool s') = map (\<lambda>d. Json (json_sorted (PDict d))) (good_lines s)"
  shows "sorted_dict d \<in> set (good_lines s')"
proof -
  obtain l where "parse_line l = Some d" using assms(1) by (auto simp: good_lines_def split_valid_good_set)
  then have "validate (PDict d) = Some d" using parse_line_SomeD by (force simp: parse_line_def)
  then have "parse_line (Json (json_sorted (PDict d))) = Some (sorted_dict d)"
    using validate_sorted by (simp add: parse_line_def)
  moreover have "Json (json_sorted (PDict d)) \<in> set (lines_of (al_spool s'))" using assms by auto
  ultimately show ?thesis unfolding good_lines_def split_valid_good_set by blast
qed

lemma sorted_dict_Nil: "sorted_dict [] = []"
  by (simp add: sorted_dict_def)

lemma bindable_sorted: "bindable (spooled_row env (sorted_dict d)) = bindable (spooled_row env d)"
proof -
  have "int_value (json_sorted v) = int_value v" for v by (cases v) (simp_all add: int_value_def)
  moreover have "dict_field (sorted_dict d) k = sorted_dict (dict_field d k)" for k
    using sorted_dict_Nil by (cases "dget d k") (simp_all add: dict_field_def)
  ultimately show ?thesis by (simp add: bindable_def spooled_row_def make_row_def spooled_args_def)
qed

text \<open>One line SQLite cannot hold blocks the spool for good. A line whose integers do not fit 64 bits is
  accepted by the drain's checks, and inserting it raises \<open>OverflowError\<close>, which is not a \<open>sqlite3.Error\<close>: the
  whole drain is given up. Whatever else the file holds, no line of it reaches the ledger, every accepted line
  stays, and the same holds for every later drain. A write with such a step id puts such a line there.\<close>

theorem unbindable_line_blocks_the_spool:
  assumes "d \<in> set (good_lines s)" "\<not> bindable (spooled_row env d)" "\<not> df_read f"
    and "drain_spool env f faults s = (n, s')"
  shows "n = 0 \<and> al_db s' = al_db s
       \<and> (\<forall>x \<in> set (good_lines s). x \<in> set (good_lines s') \<or> sorted_dict x \<in> set (good_lines s'))
       \<and> (\<exists>x \<in> set (good_lines s'). \<not> bindable (spooled_row env x))"
proof -
  obtain res sp s1 where dr: "drain f (apply_spooled env faults) (al_spool s) s = (res, sp, s1)" by (metis surj_pair)
  have some: "sp_lines (al_spool s) \<noteq> None" using assms(1) by (cases "sp_lines (al_spool s)") (auto simp: good_lines_def lines_of_def)
  then have s': "s' = s1\<lparr>al_spool := sp\<rparr>" "n = (case res of Inl _ \<Rightarrow> 0 | Inr m \<Rightarrow> m)"
    using assms(4) dr unfolding drain_spool_def by auto
  have na: "apply_spooled env faults (good_lines s) s \<noteq> (Inr True, w)" for w
    using apply_spooled_unbindable [OF assms(1,2)] .
  have out: "isl res \<or> res = Inr 0"
      "lines_of sp = lines_of (al_spool s) \<or> lines_of sp = map (\<lambda>d. Json (json_sorted (PDict d))) (good_lines s)"
    using drain_not_applied [OF dr assms(3) good_lines_def [symmetric] _ na] assms(1) by fastforce+
  have kept: "x \<in> set (good_lines s') \<or> sorted_dict x \<in> set (good_lines s')" if "x \<in> set (good_lines s)" for x
    using out(2) that good_lines_of_rewritten [OF that, of s'] by (auto simp: s'(1) good_lines_def)
  have "n = 0" using out(1) by (auto simp: s'(2) split: sum.splits)
  moreover have "al_db s' = al_db s" using drain_spool_db [OF assms(4)] na by blast
  moreover have "\<exists>x \<in> set (good_lines s'). \<not> bindable (spooled_row env x)"
    using kept [OF assms(1)] assms(2) bindable_sorted by metis
  ultimately show ?thesis using kept by blast
qed

text \<open>How such a line gets there: by a write whose row does not fit.\<close>

lemma wide_row_is_spooled:
  assumes "\<not> opt_ok sql_int (ae_step_id (wa_entry args))" "wf_append fl = Wrote"
    and "audit_write env key fl args kind s = (res, s')"
  shows "res = Inr (InSpool, 0)"
  using assms(3)
proof (cases rule: audit_write_cases)
  case (committed wid n rid ts)
  then show ?thesis using assms(1) by (simp add: bindable_def make_row_def)
next
  case (lost wid n rid ts _ e e')
  then show ?thesis using assms(2) by (simp add: append_line_def Let_def del: json_dumps.simps)
qed

definition wide_args :: write_args where
  "wide_args = demo_log_args\<lparr>wa_entry := demo_log_entry\<lparr>ae_step_id := Some (2 ^ 63)\<rparr>\<rparr>"

definition wide_record :: dict where
  "wide_record = spool_record wide_args ''t'' (demo_ids 1) (demo_ids 0) 1 None"

definition blocked_log :: audit_state where
  "blocked_log = empty_log\<lparr>al_spool := \<lparr>sp_lines = Some [Json (PDict wide_record)], sp_rejected = []\<rparr>\<rparr>"

lemma blocked_log_line: "good_lines blocked_log = [wide_record]"
proof -
  have "is_ulid (demo_ids 1)" "is_ulid (demo_ids 0)" by code_simp+
  then have "parse_line (Json (PDict wide_record)) = Some wide_record"
    unfolding wide_record_def parse_line_def by (simp add: spool_record_valid)
  then show ?thesis by (simp add: good_lines_def blocked_log_def lines_of_def blank_def)
qed

lemma wide_record_unbindable: "\<not> bindable (spooled_row env wide_record)"
  by (simp add: bindable_def spooled_row_def make_row_def spooled_args_def wide_record_def spool_record_get wide_args_def
      int_value_def opt_ok_def sql_int_def)

theorem unbindable_line_blocks_the_spool_witness:
  "fst (drain_spool demo_log_env no_drain_faults [] blocked_log) = 0 \<and> good_lines blocked_log = [wide_record]
   \<and> al_db (snd (drain_spool demo_log_env no_drain_faults [] blocked_log)) = []"
proof -
  have "wide_record \<in> set (good_lines blocked_log)" "\<not> df_read no_drain_faults"
    by (simp_all add: blocked_log_line no_drain_faults_def)
  from unbindable_line_blocks_the_spool [OF this(1) wide_record_unbindable this(2), of demo_log_env "[]"]
  have "fst (drain_spool demo_log_env no_drain_faults [] blocked_log) = 0
      \<and> al_db (snd (drain_spool demo_log_env no_drain_faults [] blocked_log)) = al_db blocked_log"
    by (metis prod.collapse)
  moreover have "al_db blocked_log = []" by (simp add: blocked_log_def empty_log_def)
  ultimately show ?thesis by (simp add: blocked_log_line)
qed

section \<open>Compaction\<close>

lemma write_compaction_cases:
  assumes "write_compaction env key fl payload archived s = (res, s')"
  shows "(isl res \<and> al_db s' = al_db s \<and> al_spool s' = al_spool s)
       \<or> (\<exists>tp t s1. res = Inr (length archived) \<and> extends (begin_tx (wf_tx fl) s) tp
            \<and> delete_archived archived tp = (Inr (), t) \<and> al_db s1 = tx_rows t \<and> al_autoinc s1 = tx_autoinc t
            \<and> db_grows s1 s')"
proof -
  obtain wid n ss1 where al: "allocate (le_ulids env) key (al_seq s) = ((wid, n), ss1)" by (metis surj_pair)
  obtain res1 gaps extra t ss3 where tx: "compaction_tx env key wid n payload archived (begin_tx (wf_tx fl) s) ss1
      = (res1, gaps, extra, t, ss3)" by (metis surj_pair)
  show ?thesis
  proof (cases res1)
    case (Inl e)
    have "res = Inl e" "al_db s' = al_db s" "al_spool s' = al_spool s"
      using assms al tx Inl by (auto simp: write_compaction_def)
    then show ?thesis by simp
  next
    case (Inr u)
    obtain tp where "extends (begin_tx (wf_tx fl) s) tp" "delete_archived archived tp = (Inr (), t)"
      using compaction_tx_Inr [OF tx [unfolded Inr]] by auto
    moreover define s1 where "s1 = (commit_tx t s)\<lparr>al_seq := mark_started key wid ss3\<rparr>"
    have "res = Inr (length archived)" "s' = after_write env fl s1"
      using assms al tx Inr by (simp_all add: write_compaction_def s1_def)
    moreover have "db_grows s1 (after_write env fl s1)" by (rule after_write_grows)
    moreover have "al_db s1 = tx_rows t" "al_autoinc s1 = tx_autoinc t" by (simp_all add: s1_def commit_tx_def)
    ultimately show ?thesis by blast
  qed
qed

text \<open>Compaction deletes exactly the rows it was given, or nothing. When it reports success, every listed row
  was in the ledger with the listed record id, the rows that are left are the others in their order, and every row after
  them has a new id; when it raises, the table and the spool are as they were.\<close>

theorem compaction_removes_exactly_the_archived_rows:
  assumes "ids_ok [] (al_db s) (al_autoinc s)" "\<forall>k \<in> set archived. fst k \<le> al_autoinc s"
    and "write_compaction env key fl payload archived s = (res, s')"
  shows "(\<forall>e. res = Inl e \<longrightarrow> al_db s' = al_db s \<and> al_spool s' = al_spool s)
       \<and> (\<forall>m. res = Inr m \<longrightarrow> m = length archived
            \<and> (\<forall>k \<in> set archived. has_key (al_db s) k)
            \<and> (\<exists>added. al_db s' = filter (\<lambda>r. lr_id r \<notin> fst ` set archived) (al_db s) @ added
                 \<and> (\<forall>r \<in> set added. al_autoinc s < lr_id r)))"
proof -
  note cases = write_compaction_cases [OF assms(3)]
  have "m = length archived \<and> (\<forall>k \<in> set archived. has_key (al_db s) k)
            \<and> (\<exists>added. al_db s' = filter (\<lambda>r. lr_id r \<notin> fst ` set archived) (al_db s) @ added
                 \<and> (\<forall>r \<in> set added. al_autoinc s < lr_id r))" if m: "res = Inr m" for m
  proof -
    obtain tp t s1 where c: "res = Inr (length archived)" "extends (begin_tx (wf_tx fl) s) tp"
        "delete_archived archived tp = (Inr (), t)" "al_db s1 = tx_rows t" "al_autoinc s1 = tx_autoinc t" "db_grows s1 s'"
      using cases m by auto
    obtain mid where mid: "tx_rows tp = al_db s @ mid" "\<forall>r \<in> set mid. al_autoinc s < lr_id r" "al_autoinc s \<le> tx_autoinc tp"
      using extends_new_ids [OF c(2)] by (auto simp: begin_tx_def)
    have del: "tx_rows t = filter (\<lambda>r. lr_id r \<notin> fst ` set archived) (tx_rows tp)" "tx_autoinc t = tx_autoinc tp"
        "\<forall>k \<in> set archived. has_key (tx_rows tp) k"
      using delete_archived_Inr [OF c(3)] by simp_all
    obtain late where late: "al_db s' = al_db s1 @ late" "\<forall>r \<in> set late. al_autoinc s1 < lr_id r"
      using extends_new_ids [of "begin_tx [] s1" "begin_tx [] s'"] c(6) by (auto simp: db_grows_def begin_tx_def)
    have "has_key (al_db s) k" if "k \<in> set archived" for k
    proof -
      have "has_key (al_db s @ mid) k" using del(3) that mid(1) by simp
      then obtain r where r: "r \<in> set (al_db s) \<union> set mid" "lr_id r = fst k" "lr_record_id r = snd k"
        unfolding has_key_def list_ex_iff by auto
      have "r \<notin> set mid" using mid(2) assms(2) that r(2) by (metis linorder_not_le)
      then show ?thesis using r by (auto simp: has_key_def list_ex_iff)
    qed
    moreover have "filter (\<lambda>r. lr_id r \<notin> fst ` set archived) mid = mid"
    proof -
      have "lr_id r \<notin> fst ` set archived" if "r \<in> set mid" for r
        using assms(2) mid(2) that by (metis imageE linorder_not_le)
      then show ?thesis by (simp add: filter_id_conv)
    qed
    then have "al_db s' = filter (\<lambda>r. lr_id r \<notin> fst ` set archived) (al_db s) @ (mid @ late)"
      using late(1) c(4) del(1) mid(1) by simp
    moreover have "\<forall>r \<in> set (mid @ late). al_autoinc s < lr_id r"
      using mid(2,3) late(2) c(5) del(2) by auto
    ultimately show ?thesis using c(1) m by blast
  qed
  then show ?thesis using cases by (cases res) auto
qed

theorem compaction_removes_exactly_the_archived_rows_witness:
  "\<exists>e s'. write_compaction demo_log_env ''k'' no_write_faults [] [(0, None)] empty_log = (Inl e, s') \<and> al_db s' = []"
proof -
  obtain res s' where w: "write_compaction demo_log_env ''k'' no_write_faults [] [(0, None)] empty_log = (res, s')"
    by (metis surj_pair)
  have "ids_ok [] (al_db empty_log) (al_autoinc empty_log)" "al_db empty_log = []" "al_autoinc empty_log = 0"
    by (simp_all add: ids_ok_def empty_log_def)
  from compaction_removes_exactly_the_archived_rows [OF this(1) _ w] this(2,3)
  show ?thesis using w by (cases res) (auto simp: has_key_def)
qed

end
