(* ===== verification/Kernel_Ledger.thy ===== *)
theory Kernel_Ledger
  imports Kernel_Dispatch Audit_Durability
begin

text \<open>
  The kernel with its audit log: \<open>GovernanceKernel._audit\<close> hands a row to \<open>AuditLog.record\<close> and reads the result as
  where the row went. An allowed effect has the rows of all its hooks in the database or in the spool.

  The world of the hooks is any type with the ledger in it (\<open>get\<close>, \<open>put\<close>); the faults and the environment of a write
  are read from the world.
\<close>

definition log_sink ::
  "('s \<Rightarrow> audit_state) \<Rightarrow> (audit_state \<Rightarrow> 's \<Rightarrow> 's) \<Rightarrow> ('s \<Rightarrow> log_env) \<Rightarrow> ('s \<Rightarrow> write_faults) \<Rightarrow> string
    \<Rightarrow> 's audit_sink"
where
  "log_sink get put env_of faults_of key e s =
     (let (res, a) = log_record (env_of s) key (faults_of s) \<lparr>wa_entry = e, wa_cost_usd = None, wa_ts = None\<rparr> (get s)
      in (res, put a s))"

text \<open>The ledger of the later state has every row of the earlier one.\<close>

definition rows_kept :: "audit_state \<Rightarrow> audit_state \<Rightarrow> bool" where
  "rows_kept a a' \<longleftrightarrow> set (al_db a) \<subseteq> set (al_db a') \<and> al_autoinc a \<le> al_autoinc a'"

lemma rows_kept_refl [simp]: "rows_kept a a"
  by (simp add: rows_kept_def)

lemma rows_kept_trans: "rows_kept a b \<Longrightarrow> rows_kept b c \<Longrightarrow> rows_kept a c"
  by (auto simp: rows_kept_def)

lemma grows_rows_kept: "db_grows a a' \<Longrightarrow> rows_kept a a'"
  using extends_new_ids [of "begin_tx [] a" "begin_tx [] a'"]
  by (auto simp: rows_kept_def db_grows_def begin_tx_def)

lemma log_record_rows_kept: "rows_kept a (snd (log_record env key fl args a))"
  using log_record_write [of env key fl a args] audit_write_grows grows_rows_kept by blast

text \<open>The row of one hook's decision.\<close>

definition row_of_firing :: "hook_point \<Rightarrow> 's consultation \<Rightarrow> ledger_row \<Rightarrow> bool" where
  "row_of_firing hp c r \<longleftrightarrow>
     ae_run_id (lr_entry r) = hc_run_id (co_ctx c) \<and> ae_hook_point (lr_entry r) = hook_point_value hp
     \<and> ae_plugin (lr_entry r) = hk_name (co_hook c)
     \<and> ae_decision (lr_entry r) = outcome_value (hd_outcome (co_decision c))
     \<and> ae_reason (lr_entry r) = hd_reason (co_decision c)"

text \<open>A hook, or the kernel's bot status source, that leaves the rows of the ledger in place.\<close>

definition keeps_rows :: "('s \<Rightarrow> audit_state) \<Rightarrow> ('s \<Rightarrow> 'r \<times> 's) \<Rightarrow> bool" where
  "keeps_rows get f \<longleftrightarrow> (\<forall>s. rows_kept (get s) (get (snd (f s))))"

definition sources_keep_rows :: "('s \<Rightarrow> audit_state) \<Rightarrow> 's kernel \<Rightarrow> hook_point \<Rightarrow> bool" where
  "sources_keep_rows get k hp \<longleftrightarrow>
     (\<forall>h \<in> set (k_hooks k hp). \<forall>ctx. keeps_rows get (hk_call h ctx))
     \<and> (\<forall>i f. k_bot_hook k = Some (i, f) \<longrightarrow> keeps_rows get f)"

text \<open>One ledger write of the kernel.\<close>

lemma audit_with_log:
  assumes "k_audit_log k = Some (log_sink get put env_of faults_of key)" "\<And>a s. get (put a s) = a"
    and "\<And>i f. k_bot_hook k = Some (i, f) \<Longrightarrow> keeps_rows get f" "0 \<le> al_autoinc (get s)"
    and "audit k env hp plugin d ctx s = (dur, s')"
  shows "rows_kept (get s) (get s')
       \<and> (dur = InDb \<longrightarrow> (\<exists>r \<in> set (al_db (get s')). ae_run_id (lr_entry r) = hc_run_id ctx
            \<and> ae_hook_point (lr_entry r) = hook_point_value hp \<and> ae_plugin (lr_entry r) = plugin
            \<and> ae_decision (lr_entry r) = outcome_value (hd_outcome d) \<and> ae_reason (lr_entry r) = hd_reason d))"
proof -
  obtain bot_id s1 where bot: "(case k_bot_hook k of None \<Rightarrow> (None, s) | Some (_, f) \<Rightarrow> f s) = (bot_id, s1)"
    by (metis surj_pair)
  have k1: "rows_kept (get s) (get s1)"
    using bot assms(3) by (auto simp: keeps_rows_def split: option.splits) (metis snd_conv)
  define args where "args = \<lparr>wa_entry = audit_entry_of hp plugin d ctx (audit_payload env hp d ctx bot_id), wa_cost_usd = None, wa_ts = None\<rparr>"
  obtain res a where rec: "log_record (env_of s1) key (faults_of s1) args (get s1) = (res, a)" by (metis surj_pair)
  have k2: "rows_kept (get s1) a" using log_record_rows_kept rec by (metis snd_conv)
  have out: "dur = (case res of Inl _ \<Rightarrow> Lost | Inr i \<Rightarrow> if i = 0 then InSpool else InDb)" "s' = put a s1"
    using assms(1,5) bot rec by (auto simp: audit_def log_sink_def args_def split: sum.splits)
  have "0 \<le> al_autoinc (get s1)" using assms(4) k1 by (simp add: rows_kept_def)
  from record_row_lands [OF rec this]
  have "dur = InDb \<longrightarrow> (\<exists>r \<in> set (al_db a). carries (stamped (env_of s1) args) r)"
    using out(1) by (auto split: sum.splits if_splits)
  moreover have "carries (stamped (env_of s1) args) r \<Longrightarrow>
      ae_run_id (lr_entry r) = hc_run_id ctx \<and> ae_hook_point (lr_entry r) = hook_point_value hp
      \<and> ae_plugin (lr_entry r) = plugin \<and> ae_decision (lr_entry r) = outcome_value (hd_outcome d)
      \<and> ae_reason (lr_entry r) = hd_reason d" for r
    by (auto simp: carries_def make_row_def stamped_def args_def audit_entry_of_def)
  ultimately show ?thesis using k1 k2 rows_kept_trans assms(2) out(2) by metis
qed

lemma passes_with_log:
  assumes "k_audit_log k = Some (log_sink get put env_of faults_of key)" "\<And>a s. get (put a s) = a"
    and "\<And>i f. k_bot_hook k = Some (i, f) \<Longrightarrow> keeps_rows get f"
    and "passes k env hp hs ctx s tr ctx' s'" "0 \<le> al_autoinc (get s)"
    and "\<forall>h \<in> set hs. \<forall>ctx. keeps_rows get (hk_call h ctx)"
  shows "rows_kept (get s) (get s')
       \<and> (\<forall>c \<in> set tr. co_durability c = InDb \<longrightarrow> (\<exists>r \<in> set (al_db (get s')). row_of_firing hp c r))"
  using assms(4-6)
proof (induction rule: passes.induct)
  case (pass_nil ctx s)
  then show ?case by simp
next
  case (pass_cons h ctx s d s1 dur s2 ctx1 hs tr ctx' s')
  have k1: "rows_kept (get s) (get s1)"
    using pass_cons.prems(2) pass_cons.hyps(1) by (simp add: keeps_rows_def) (metis snd_conv)
  then have a1: "0 \<le> al_autoinc (get s1)" using pass_cons.prems(1) by (simp add: rows_kept_def)
  from audit_with_log [OF assms(1-3) a1 pass_cons.hyps(3)]
  have k2: "rows_kept (get s1) (get s2)"
    and row: "dur = InDb \<longrightarrow> (\<exists>r \<in> set (al_db (get s2)). row_of_firing hp
        \<lparr>co_hook = h, co_ctx = ctx, co_state = s, co_decision = d, co_durability = dur\<rparr> r)"
    by (simp_all add: row_of_firing_def)
  have "0 \<le> al_autoinc (get s2)" using a1 k2 by (simp add: rows_kept_def)
  with pass_cons.IH pass_cons.prems(2)
  have k3: "rows_kept (get s2) (get s')"
    and rest: "\<forall>c \<in> set tr. co_durability c = InDb \<longrightarrow> (\<exists>r \<in> set (al_db (get s')). row_of_firing hp c r)" by simp_all
  have "set (al_db (get s2)) \<subseteq> set (al_db (get s'))" using k3 by (simp add: rows_kept_def)
  then have "\<forall>c \<in> set (\<lparr>co_hook = h, co_ctx = ctx, co_state = s, co_decision = d, co_durability = dur\<rparr> # tr).
      co_durability c = InDb \<longrightarrow> (\<exists>r \<in> set (al_db (get s')). row_of_firing hp c r)"
    using row rest by (simp, blast)
  moreover have "rows_kept (get s) (get s')" using k1 k2 k3 rows_kept_trans by blast
  ultimately show ?case by blast
qed


definition ledger_hook :: "audit_state hook" where
  "ledger_hook = \<lparr>hk_name = ''a'', hk_hook_point = PRE_EGRESS, hk_priority = 20,
     hk_call = (\<lambda>ctx s. (Inr (decision Allow ''a''), s)), hk_bot_status = None\<rparr>"

definition ledger_kernel :: "audit_state kernel" where
  "ledger_kernel =
     init_lock ((new_kernel (Some (log_sink id (\<lambda>a _. a) (\<lambda>_. demo_log_env) (\<lambda>_. no_write_faults) ''k'')))
       \<lparr>k_hooks := (\<lambda>_. [ledger_hook])\<rparr>)"

lemma ledger_kernel_simps [simp]:
  "k_hooks ledger_kernel hp = [ledger_hook]"
  "k_audit_log ledger_kernel = Some (log_sink id (\<lambda>a _. a) (\<lambda>_. demo_log_env) (\<lambda>_. no_write_faults) ''k'')"
  "k_bot_hook ledger_kernel = None" "k_init_locked ledger_kernel"
  by (simp_all add: ledger_kernel_def init_lock_def new_kernel_def)

lemma demo_audit_kept:
  "\<exists>s'. audit ledger_kernel demo_env PRE_EGRESS ''a'' (decision Allow ''a'') (demo_ctx PRE_EGRESS [] []) empty_log = (InDb, s')"
proof -
  let ?p = "audit_payload (demo_env :: audit_state kernel_env) PRE_EGRESS (decision Allow ''a'') (demo_ctx PRE_EGRESS [] []) None"
  let ?e = "audit_entry_of PRE_EGRESS ''a'' (decision Allow ''a'') (demo_ctx PRE_EGRESS [] []) ?p"
  let ?args = "\<lparr>wa_entry = ?e, wa_cost_usd = None, wa_ts = None\<rparr>"
  obtain res s' where w: "audit_write demo_log_env ''k'' no_write_faults (stamped demo_log_env ?args) None empty_log = (res, s')"
    by (metis surj_pair)
  have "inj (le_ulids demo_log_env)" "ledger_inv (le_ulids demo_log_env) ''k'' [] empty_log"
    using demo_ids_distinct empty_world_inv [of demo_ids "''k''"]
    by (simp_all add: demo_log_env_def ids_distinct_def world_inv_def empty_world_def)
  moreover have "fits (stamped demo_log_env ?args)"
    by (simp add: fits_def stamped_def opt_ok_def audit_entry_of_def demo_ctx_def sql_int_def with_process_bot_def
        demo_log_env_def truthy_or_none_def truthy_str_def demo_env_def BOT_ID_KEY_def audit_payload_def dstamps_def
        identity_stamps_def lineage_of_def call_id_of_def setdefault_opt_def int_value_def copy_audited_def decision_def
        AUDITED_PAYLOAD_KEYS_def parent_of_def empty_call_state_def 
        dstamp_def dpop_def dict_simps)
  moreover have "\<forall>w. ss_writers (al_seq empty_log) ''k'' = Some w \<longrightarrow> wr_next_seq w < 2 ^ 62"
    by (simp add: empty_log_def empty_seq_def)
  ultimately obtain i where res: "res = Inr (InDb, i)" using audit_write_clean [OF _ _ _ _ w] by blast
  moreover have "0 \<le> al_autoinc empty_log" by (simp add: empty_log_def)
  ultimately have "i \<noteq> 0" using w by (elim audit_write_cases) (auto simp: empty_log_def)
  then show ?thesis using w res by (simp add: audit_def log_sink_def log_record_eq)
qed


end
