(* ===== verification/Classification.thy ===== *)
theory Classification
  imports Kernel
begin

text \<open>
  How data gets its label: the text of a tool result (\<open>hooks/result_text.py\<close>), the pattern
  classifier and its two hooks (\<open>plugins/classifier.py\<close>, \<open>plugins/output_classifier.py\<close>) and the
  turn's label, the floor under every model call of a turn (\<open>turn_label.py\<close>).

  The regular expressions of the packs are not modelled: a pattern is a predicate on the text, and the
  packs are an argument, as they are of \<open>DataClassifier.__init__\<close>.
\<close>

section \<open>The text of a result\<close>

type_synonym slot = "string option \<times> nat option"

definition RESULT_TEXT_KEYS :: "string list" where
  "RESULT_TEXT_KEYS = [''output'', ''content'', ''text'', ''result'', ''body'']"

definition is_str :: "pyval \<Rightarrow> bool" where
  "is_str v = (case v of PStr _ \<Rightarrow> True | _ \<Rightarrow> False)"

definition is_text_block :: "pyval \<Rightarrow> bool" where
  "is_text_block block =
     (case block of
        PDict b \<Rightarrow> dget b ''type'' = PStr ''text'' \<and> is_str (dget b ''text'')
      | _ \<Rightarrow> False)"

definition block_indices :: "pyval list \<Rightarrow> nat list" where
  "block_indices vs = filter (\<lambda>i. is_text_block (vs ! i)) [0..<length vs]"

fun dict_slots :: "dict \<Rightarrow> string list \<Rightarrow> slot list" where
  "dict_slots d [] = []"
| "dict_slots d (key # keys) =
     (case dget d key of
        PStr s \<Rightarrow> if strip s \<noteq> [] then [(Some key, None)] else dict_slots d keys
      | PList vs \<Rightarrow> if block_indices vs \<noteq> [] then map (\<lambda>i. (Some key, Some i)) (block_indices vs)
                    else dict_slots d keys
      | _ \<Rightarrow> dict_slots d keys)"

definition slots :: "pyval \<Rightarrow> string list \<Rightarrow> slot list" where
  "slots result keys =
     (case result of
        PStr _ \<Rightarrow> [(None, None)]
      | PDict d \<Rightarrow> dict_slots d keys
      | _ \<Rightarrow> [])"

definition str_of :: "pyval \<Rightarrow> string" where
  "str_of v = (case v of PStr s \<Rightarrow> s | _ \<Rightarrow> [])"

definition block_text :: "pyval \<Rightarrow> string" where
  "block_text b = (case b of PDict e \<Rightarrow> str_of (dget e ''text'') | _ \<Rightarrow> [])"

definition slot_text :: "pyval \<Rightarrow> slot \<Rightarrow> string" where
  "slot_text result sl =
     (case sl of
        (None, _) \<Rightarrow> str_of result
      | (Some key, ix) \<Rightarrow>
          (case result of
             PDict d \<Rightarrow>
               (case (dget d key, ix) of
                  (PList vs, Some i) \<Rightarrow> block_text (vs ! i)
                | (v, _) \<Rightarrow> str_of v)
           | _ \<Rightarrow> []))"

definition text_parts :: "pyval \<Rightarrow> string list \<Rightarrow> string list" where
  "text_parts result keys = map (slot_text result) (slots result keys)"

definition result_text :: "pyval \<Rightarrow> string list \<Rightarrow> string" where
  "result_text result keys = join [char_of (10::nat)] (text_parts result keys)"

text \<open>One assignment of the replacement loop; \<open>out\<close> is the copied dictionary.\<close>

definition set_block_text :: "string \<Rightarrow> pyval \<Rightarrow> pyval" where
  "set_block_text t b = (case b of PDict e \<Rightarrow> PDict (dset ''text'' (PStr t) e) | _ \<Rightarrow> b)"

definition put_part :: "slot \<times> string \<Rightarrow> dict \<Rightarrow> dict" where
  "put_part sp out =
     (case sp of
        ((Some key, None), t) \<Rightarrow> dset key (PStr t) out
      | ((Some key, Some i), t) \<Rightarrow>
          (case dget out key of
             PList vs \<Rightarrow> dset key (PList (vs[i := set_block_text t (vs ! i)])) out
           | _ \<Rightarrow> out)
      | _ \<Rightarrow> out)"

definition with_text_parts :: "pyval \<Rightarrow> string list \<Rightarrow> string list \<Rightarrow> pyval result" where
  "with_text_parts result parts keys =
     (let sl = slots result keys in
      if length parts \<noteq> length sl then
        Raise ''ValueError'' (''expected '' @ show_nat (length sl) @ '' text part(s), got ''
          @ show_nat (length parts))
      else case sl of
             [] \<Rightarrow> Inr result
           | (None, _) # _ \<Rightarrow> Inr (PStr (hd parts))
           | (Some _, _) # _ \<Rightarrow>
               (case result of
                  PDict d \<Rightarrow> Inr (PDict (fold put_part (zip sl parts) d))
                | _ \<Rightarrow> Inr result))"

section \<open>The classifier\<close>

type_synonym classifier_entry = "string \<times> (string \<Rightarrow> bool) \<times> classification"
type_synonym packs = "(string \<times> classifier_entry list) list"

record classification_result =
  cr_classification :: classification
  cr_matched_patterns :: "string list"

text \<open>\<open>_SEVERITY.index\<close>: 0 is the most restrictive.\<close>

fun severity_index :: "classification \<Rightarrow> nat" where
  "severity_index Secret = 0"
| "severity_index Personal = 1"
| "severity_index Internal = 2"
| "severity_index Public = 3"

definition matches :: "packs \<Rightarrow> string \<Rightarrow> (string \<times> classification) list" where
  "matches packs text =
     concat (map (\<lambda>(pack_name, patterns).
       map (\<lambda>(name, _, c). (pack_name @ ''/'' @ name, c))
         (filter (\<lambda>(_, p, _). p text) patterns)) packs)"

text \<open>\<open>min(xs, key=...)\<close> of a non-empty list: the first of the least.\<close>

fun min_by :: "('a \<Rightarrow> nat) \<Rightarrow> 'a \<Rightarrow> 'a list \<Rightarrow> 'a" where
  "min_by f best [] = best"
| "min_by f best (x # xs) = min_by f (if f x < f best then x else best) xs"

definition classify :: "packs \<Rightarrow> string \<Rightarrow> classification_result" where
  "classify packs text =
     (if text = [] then \<lparr>cr_classification = Public, cr_matched_patterns = []\<rparr>
      else case matches packs text of
             [] \<Rightarrow> \<lparr>cr_classification = Public, cr_matched_patterns = []\<rparr>
           | m # ms \<Rightarrow> \<lparr>cr_classification = snd (min_by (\<lambda>m. severity_index (snd m)) m ms),
                          cr_matched_patterns = map fst (m # ms)\<rparr>)"

definition DataClassifierHook_text :: "dict \<Rightarrow> string" where
  "DataClassifierHook_text payload =
     (case find (\<lambda>k. is_str (dget payload k)) [''text'', ''prompt'', ''input'', ''message''] of
        None \<Rightarrow> [] | Some k \<Rightarrow> str_of (dget payload k))"

definition DataClassifierHook_call :: "packs \<Rightarrow> hook_context \<Rightarrow> hook_decision" where
  "DataClassifierHook_call packs ctx =
     (let result = classify packs (DataClassifierHook_text (hc_payload ctx)) in
      (decision Allow (''classified as '' @ classification_value (cr_classification result)))
        \<lparr>hd_set_classification := Some (cr_classification result),
         hd_audit_metadata :=
           [(''matched_patterns'', PList (map PStr (cr_matched_patterns result)))]\<rparr>)"

section \<open>The output classifier\<close>

definition more_restrictive ::
  "classification option \<Rightarrow> classification option \<Rightarrow> classification option"
where
  "more_restrictive left right =
     (case left of
        None \<Rightarrow> right
      | Some l \<Rightarrow>
          (case right of
             None \<Rightarrow> left
           | Some r \<Rightarrow> if severity_index l \<le> severity_index r then left else right))"

definition opt_class :: "classification option \<Rightarrow> string" where
  "opt_class c = (case c of None \<Rightarrow> ''None'' | Some x \<Rightarrow> classification_value x)"

definition class_val :: "classification option \<Rightarrow> pyval" where
  "class_val c = opt_str (map_option classification_value c)"

definition OutputClassifier_text :: "dict \<Rightarrow> string" where
  "OutputClassifier_text payload =
     (case find (\<lambda>k. strip (result_text (dget payload k) RESULT_TEXT_KEYS) \<noteq> [])
             [''result'', ''observation'', ''output'', ''text''] of
        None \<Rightarrow> [] | Some k \<Rightarrow> result_text (dget payload k) RESULT_TEXT_KEYS)"

definition OutputClassifier_tool_name :: "hook_context \<Rightarrow> string" where
  "OutputClassifier_tool_name ctx =
     (case nonempty_str (dget (hc_payload ctx) ''tool_name'') of Some n \<Rightarrow> n | None \<Rightarrow> ''tool'')"

definition OutputClassifierHook_call :: "(string \<Rightarrow> classification_result) \<Rightarrow> hook_context \<Rightarrow> hook_decision" where
  "OutputClassifierHook_call classifier ctx =
     (let text = OutputClassifier_text (hc_payload ctx); tool = OutputClassifier_tool_name ctx in
      if text = [] then decision Allow ''output_classifier: tool returned no text''
      else
        let observed = classifier text;
            raised = more_restrictive (hc_classification ctx) (Some (cr_classification observed))
        in if raised = hc_classification ctx then
             decision Allow (''output_classifier: '' @ tool @ '' output is ''
               @ classification_value (cr_classification observed) @ ''; run stays ''
               @ opt_class (hc_classification ctx))
           else
             (decision Allow (''output_classifier: '' @ tool @ '' output raised the run from ''
                @ opt_class (hc_classification ctx) @ '' to '' @ opt_class raised))
               \<lparr>hd_severity := SevWarn, hd_set_classification := raised,
                hd_audit_metadata := [(''from'', class_val (hc_classification ctx)),
                  (''to'', class_val raised), (''tool_name'', PStr tool),
                  (''matched_patterns'', PList (map PStr (cr_matched_patterns observed)))]\<rparr>)"

section \<open>The turn's label\<close>

text \<open>The scope is \<open>None\<close> outside a turn, else the holder of the running turn (its label).\<close>

type_synonym turn_scope = "classification option option"

definition lift :: "classification option \<Rightarrow> classification option \<Rightarrow> classification option" where
  "lift holder label = more_restrictive holder label"

definition turn_label_scope :: "(turn_scope \<Rightarrow> 'r \<times> turn_scope) \<Rightarrow> turn_scope \<Rightarrow> 'r \<times> turn_scope" where
  "turn_label_scope body prev = (fst (body (Some None)), prev)"

definition current_turn_label :: "turn_scope \<Rightarrow> classification option" where
  "current_turn_label scope = (case scope of None \<Rightarrow> None | Some holder \<Rightarrow> holder)"

definition lift_turn_label :: "classification option \<Rightarrow> turn_scope \<Rightarrow> turn_scope" where
  "lift_turn_label label scope = map_option (\<lambda>holder. lift holder label) scope"

definition apply_turn_floor ::
  "classification option \<Rightarrow> bool \<Rightarrow> turn_scope \<Rightarrow> classification option"
where
  "apply_turn_floor label stripped_public_content scope =
     (let floored = more_restrictive label (current_turn_label scope) in
      if stripped_public_content \<and> floored = Some Personal then Some Internal else floored)"

section \<open>Labels only rise\<close>

text \<open>The order of labels: \<open>None\<close> says nothing, then public up to secret.\<close>

definition label_leq :: "classification option \<Rightarrow> classification option \<Rightarrow> bool" where
  "label_leq a b =
     (case a of None \<Rightarrow> True
      | Some x \<Rightarrow> (case b of None \<Rightarrow> False | Some y \<Rightarrow> severity_index y \<le> severity_index x))"

lemma severity_index_inj [simp]: "severity_index a = severity_index b \<longleftrightarrow> a = b"
  by (cases a; cases b) auto

interpretation labels: label_join more_restrictive label_leq
  by unfold_locales (auto simp: label_leq_def more_restrictive_def split: option.splits)

lemma label_leq_Secret: "label_leq (Some Secret) l \<longleftrightarrow> l = Some Secret"
  by (auto simp: label_leq_def split: option.splits)
    (metis severity_index.simps(1) severity_index_inj)

lemma more_restrictive_choice: "more_restrictive a b \<in> {a, b}"
  by (auto simp: more_restrictive_def split: option.splits)

lemma lifts_in_turn:
  "run_ops (\<lambda>s l. lift_turn_label l s) (Some a) ls = Some (run_ops more_restrictive a ls)"
  by (induction ls arbitrary: a) (auto simp: lift_turn_label_def lift_def)

lemma run_more_restrictive_choice: "run_ops more_restrictive a ls \<in> insert a (set ls)"
proof (induction ls arbitrary: a)
  case Nil
  then show ?case by simp
next
  case (Cons l ls)
  consider "more_restrictive a l = a" | "more_restrictive a l = l"
    using more_restrictive_choice [of a l] by blast
  then show ?case using Cons.IH [of a] Cons.IH [of l] by cases auto
qed

lemma floor_in_turn:
  "apply_turn_floor label False (run_ops (\<lambda>s l. lift_turn_label l s) (Some None) lifts) =
     more_restrictive label (run_ops more_restrictive None lifts)"
  by (simp add: lifts_in_turn apply_turn_floor_def current_turn_label_def)



lemma output_classifier_raises:
  "hd_set_classification (OutputClassifierHook_call classifier ctx) =
     (if OutputClassifier_text (hc_payload ctx) \<noteq> []
         \<and> more_restrictive (hc_classification ctx)
              (Some (cr_classification (classifier (OutputClassifier_text (hc_payload ctx)))))
           \<noteq> hc_classification ctx
      then more_restrictive (hc_classification ctx)
             (Some (cr_classification (classifier (OutputClassifier_text (hc_payload ctx)))))
      else None)"
  by (simp add: OutputClassifierHook_call_def Let_def)

text \<open>A tool result only ever raises the run's label. The context the kernel goes on with after the
  output classifier carries the stricter of the label the run had and the one the result's text was
  classified as; a result with no text leaves it.\<close>

theorem output_classifier_only_raises:
  assumes "rebind ''output_classifier'' (OutputClassifierHook_call classifier ctx) ctx = Inr ctx'"
  shows "hc_classification ctx' =
           (if OutputClassifier_text (hc_payload ctx) = [] then hc_classification ctx
            else more_restrictive (hc_classification ctx)
                   (Some (cr_classification (classifier (OutputClassifier_text (hc_payload ctx))))))
         \<and> label_leq (hc_classification ctx) (hc_classification ctx')
         \<and> hc_payload ctx' = hc_payload ctx"
proof -
  let ?d = "OutputClassifierHook_call classifier ctx"
  let ?m = "more_restrictive (hc_classification ctx)
              (Some (cr_classification (classifier (OutputClassifier_text (hc_payload ctx)))))"
  have some: "?m \<noteq> None" by (auto simp: more_restrictive_def split: option.splits)
  have out: "hd_outcome ?d = Allow" by (simp add: OutputClassifierHook_call_def Let_def)
  have cls: "hc_classification ctx' =
      (case hd_set_classification ?d of None \<Rightarrow> hc_classification ctx | Some c \<Rightarrow> Some c)"
    and pay: "hc_payload ctx' = hc_payload ctx"
    using assms out by (auto simp: rebind_def Let_def split: option.splits if_splits)
  have "hc_classification ctx' =
      (if OutputClassifier_text (hc_payload ctx) = [] then hc_classification ctx else ?m)"
    using some by (auto simp: cls output_classifier_raises split: option.splits)
  then show ?thesis using pay labels.join_left labels.leq_refl by auto
qed

theorem output_classifier_only_raises_witness:
  "\<exists>ctx'. rebind ''output_classifier''
      (OutputClassifierHook_call (\<lambda>_. \<lparr>cr_classification = Personal, cr_matched_patterns = []\<rparr>)
         ((demo_ctx POST_TOOL_USE [(''result'', PStr ''x'')] [])\<lparr>hc_classification := Some Public\<rparr>))
      ((demo_ctx POST_TOOL_USE [(''result'', PStr ''x'')] [])\<lparr>hc_classification := Some Public\<rparr>)
      = Inr ctx' \<and> hc_classification ctx' = Some Personal"
proof -
  let ?ctx = "(demo_ctx POST_TOOL_USE [(''result'', PStr ''x'')] [])\<lparr>hc_classification := Some Public\<rparr>"
  let ?cl = "\<lambda>_. \<lparr>cr_classification = Personal, cr_matched_patterns = []\<rparr>"
  have "hd_outcome (OutputClassifierHook_call ?cl ?ctx) = Allow"
    by (simp add: OutputClassifierHook_call_def Let_def)
  then obtain ctx' where r: "rebind ''output_classifier'' (OutputClassifierHook_call ?cl ?ctx) ?ctx = Inr ctx'"
    using rebind_no_transform by fastforce
  have t: "OutputClassifier_text (hc_payload ?ctx) = ''x''"
    by (simp add: OutputClassifier_text_def demo_ctx_def dict_simps result_text_def text_parts_def
        slots_def slot_text_def str_of_def strip_def lstrip_def is_space_def char_in_def)
  have "hc_classification ctx' = Some Personal"
    using output_classifier_only_raises [OF r] unfolding t by (simp add: more_restrictive_def)
  then show ?thesis using r by blast
qed

section \<open>The strictest match wins\<close>

lemma min_by_choice: "min_by f b xs \<in> set (b # xs) \<and> (\<forall>x \<in> set (b # xs). f (min_by f b xs) \<le> f x)"
proof (induction xs arbitrary: b)
  case Nil
  then show ?case by simp
next
  case (Cons x xs)
  show ?case
  proof (cases "f x < f b")
    case True
    then have "f (min_by f x xs) \<le> f b" using Cons.IH [of x] by (auto dest: order.strict_trans1)
    then show ?thesis using True Cons.IH [of x] by auto
  next
    case False
    then have "f (min_by f b xs) \<le> f x" using Cons.IH [of b] by (auto intro: order.trans)
    then show ?thesis using False Cons.IH [of b] by auto
  qed
qed

lemma set_matches:
  "(n, c) \<in> set (matches packs text) \<longleftrightarrow>
     (\<exists>pack patterns name p. (pack, patterns) \<in> set packs \<and> (name, p, c) \<in> set patterns \<and> p text
        \<and> n = pack @ ''/'' @ name)"
proof
  assume "(n, c) \<in> set (matches packs text)"
  then obtain pack patterns name p where "(pack, patterns) \<in> set packs" "(name, p, c) \<in> set patterns"
    "p text" "n = pack @ ''/'' @ name"
    by (auto simp: matches_def)
  then show "\<exists>pack patterns name p. (pack, patterns) \<in> set packs \<and> (name, p, c) \<in> set patterns
      \<and> p text \<and> n = pack @ ''/'' @ name" by blast
next
  assume "\<exists>pack patterns name p. (pack, patterns) \<in> set packs \<and> (name, p, c) \<in> set patterns
      \<and> p text \<and> n = pack @ ''/'' @ name"
  then obtain pack patterns name p where h: "(pack, patterns) \<in> set packs" "(name, p, c) \<in> set patterns"
    "p text" "n = pack @ ''/'' @ name" by blast
  let ?row = "\<lambda>pack patterns. map (\<lambda>(name, _, c). (pack @ ''/'' @ name, c)) (filter (\<lambda>(_, p, _). p text) patterns)"
  have "(n, c) \<in> set (?row pack patterns)" using h(2,3,4) by force
  moreover have "set (?row pack patterns) \<subseteq> set (matches packs text)"
    using h(1) unfolding matches_def by force
  ultimately show "(n, c) \<in> set (matches packs text)" by blast
qed

text \<open>The classifier answers the strictest label any of its patterns gives: no pattern that matches
  the text has a stricter one, and a label other than public is the label of a pattern that matched.\<close>

theorem classify_is_strictest:
  assumes "text \<noteq> []"
  shows "(\<forall>pack patterns name p c. (pack, patterns) \<in> set packs \<longrightarrow> (name, p, c) \<in> set patterns
            \<longrightarrow> p text \<longrightarrow> label_leq (Some c) (Some (cr_classification (classify packs text)))
                \<and> pack @ ''/'' @ name \<in> set (cr_matched_patterns (classify packs text)))
       \<and> (cr_classification (classify packs text) \<noteq> Public \<longrightarrow>
            (\<exists>pack patterns name p. (pack, patterns) \<in> set packs
               \<and> (name, p, cr_classification (classify packs text)) \<in> set patterns \<and> p text))"
proof (cases "matches packs text")
  case Nil
  have none: False
    if "(pack, patterns) \<in> set packs" "(name, p, c) \<in> set patterns" "p text" for pack patterns name p c
    using that Nil set_matches [of "pack @ ''/'' @ name" c packs "text"] by simp blast
  show ?thesis using assms Nil by (auto simp: classify_def dest: none)
next
  case (Cons m ms)
  let ?b = "min_by (\<lambda>m. severity_index (snd m)) m ms"
  have cl: "cr_classification (classify packs text) = snd ?b"
    "set (cr_matched_patterns (classify packs text)) = fst ` set (matches packs text)"
    using assms Cons by (auto simp: classify_def)
  have best: "?b \<in> set (matches packs text)"
    "\<And>x. x \<in> set (matches packs text) \<Longrightarrow> severity_index (snd ?b) \<le> severity_index (snd x)"
    using min_by_choice [of "\<lambda>m. severity_index (snd m)" m ms] Cons by auto
  have "(fst ?b, snd ?b) \<in> set (matches packs text)" using best(1) by simp
  then have "\<exists>pack patterns name p. (pack, patterns) \<in> set packs
      \<and> (name, p, snd ?b) \<in> set patterns \<and> p text"
    unfolding set_matches by blast
  moreover have "label_leq (Some c) (Some (snd ?b)) \<and> n \<in> fst ` set (matches packs text)"
    if "(n, c) \<in> set (matches packs text)" for n c
    using best(2) [OF that] that by (force simp: label_leq_def)
  ultimately show ?thesis unfolding cl set_matches by blast
qed

theorem classify_is_strictest_witness:
  "label_leq (Some Secret) (Some (cr_classification
     (classify [(''creds'', [(''key'', \<lambda>t. True, Secret)]), (''pii'', [(''mail'', \<lambda>t. True, Personal)])] ''sk'')))"
  using classify_is_strictest [of "''sk''" "[(''creds'', [(''key'', \<lambda>t. True, Secret)]),
      (''pii'', [(''mail'', \<lambda>t. True, Personal)])]"]
  by simp

section \<open>Replacing a result's text\<close>

lemma dict_slots_skip:
  assumes "dict_slots d pre = []" and "\<And>k. k \<in> set pre \<Longrightarrow> dget d' k = dget d k"
  shows "dict_slots d' (pre @ rest) = dict_slots d' rest"
  using assms
proof (induction pre)
  case Nil
  then show ?case by simp
next
  case (Cons k pre)
  have "dget d' k = dget d k" using Cons.prems(2) by simp
  moreover have "dict_slots d pre = []"
    using Cons.prems(1) by (simp split: pyval.splits if_splits)
  ultimately show ?case using Cons by (simp split: pyval.splits if_splits)
qed

text \<open>A dictionary's text sits under the first key that holds some.\<close>

lemma dict_slots_cases:
  obtains "dict_slots d keys = []"
  | pre key post s where "keys = pre @ key # post" "dict_slots d pre = []" "dget d key = PStr s"
      "strip s \<noteq> []" "dict_slots d keys = [(Some key, None)]"
  | pre key post vs where "keys = pre @ key # post" "dict_slots d pre = []" "dget d key = PList vs"
      "block_indices vs \<noteq> []" "dict_slots d keys = map (\<lambda>i. (Some key, Some i)) (block_indices vs)"
proof (cases "dict_slots d keys = []")
  case True
  then show ?thesis using that(1) by blast
next
  case False
  define usable where "usable k = (dict_slots d [k] \<noteq> [])" for k
  have none: "dict_slots d ks = []" if "\<forall>k \<in> set ks. \<not> usable k" for ks
    using that by (induction ks) (auto simp: usable_def split: pyval.splits if_splits)
  have "\<exists>k \<in> set keys. usable k" using False none by blast
  then obtain pre key post where keys: "keys = pre @ key # post" "usable key" "\<forall>k \<in> set pre. \<not> usable k"
    using split_list_first_prop by metis
  have skip: "dict_slots d keys = dict_slots d (key # post)" "dict_slots d pre = []"
    using keys(1,3) none dict_slots_skip [of d pre d "key # post"] by auto
  show ?thesis
    using keys(2) skip that(2,3) [OF keys(1) skip(2)]
    by (cases "dget d key") (auto simp: usable_def split: if_splits)
qed

fun put_blocks :: "nat list \<Rightarrow> string list \<Rightarrow> pyval list \<Rightarrow> pyval list" where
  "put_blocks (i # is) (t # ts) vs = put_blocks is ts (vs[i := set_block_text t (vs ! i)])"
| "put_blocks _ _ vs = vs"

lemma fold_put_part:
  "dget d key = PList vs \<Longrightarrow>
   dget (fold put_part (zip (map (\<lambda>i. (Some key, Some i)) is) ts) d) k =
     (if k = key then PList (put_blocks is ts vs) else dget d k)"
proof (induction "is" ts vs arbitrary: d rule: put_blocks.induct)
  case (1 i "is" t ts vs)
  let ?d = "dset key (PList (vs[i := set_block_text t (vs ! i)])) d"
  have "put_part ((Some key, Some i), t) d = ?d" using 1(2) by (simp add: put_part_def)
  then show ?case using "1.IH" [of ?d] by simp
qed auto

lemma length_put_blocks [simp]: "length (put_blocks is ts vs) = length vs"
  by (induction "is" ts vs rule: put_blocks.induct) auto

lemma put_blocks_other: "j \<notin> set is \<Longrightarrow> put_blocks is ts vs ! j = vs ! j"
  by (induction "is" ts vs rule: put_blocks.induct) auto

lemma put_blocks_nth:
  "distinct is \<Longrightarrow> \<forall>i \<in> set is. i < length vs \<Longrightarrow> length ts = length is \<Longrightarrow> m < length is \<Longrightarrow>
   put_blocks is ts vs ! (is ! m) = set_block_text (ts ! m) (vs ! (is ! m))"
proof (induction "is" ts vs arbitrary: m rule: put_blocks.induct)
  case (1 i "is" t ts vs)
  show ?case
  proof (cases m)
    case 0
    then show ?thesis using 1 by (simp add: put_blocks_other)
  next
    case (Suc m')
    then have "is ! m' \<noteq> i" using 1 by (auto simp: in_set_conv_nth)
    then show ?thesis using 1 Suc by simp
  qed
qed auto

lemma set_block_text_is_block:
  "is_text_block b \<Longrightarrow> is_text_block (set_block_text t b) \<and> block_text (set_block_text t b) = t"
  by (cases b) (auto simp: is_text_block_def set_block_text_def block_text_def is_str_def str_of_def)

lemma put_blocks_text:
  assumes "length ts = length (block_indices vs)"
  shows "block_indices (put_blocks (block_indices vs) ts vs) = block_indices vs"
    and "map (\<lambda>i. block_text (put_blocks (block_indices vs) ts vs ! i)) (block_indices vs) = ts"
proof -
  let ?is = "block_indices vs" and ?ws = "put_blocks (block_indices vs) ts vs"
  have idx: "i \<in> set ?is \<longleftrightarrow> i < length vs \<and> is_text_block (vs ! i)" for i
    by (auto simp: block_indices_def)
  have nth: "?ws ! (?is ! m) = set_block_text (ts ! m) (vs ! (?is ! m))" if "m < length ?is" for m
    using that assms by (intro put_blocks_nth) (auto simp: block_indices_def)
  have blk: "is_text_block (?ws ! i) = is_text_block (vs ! i)" if "i < length vs" for i
  proof (cases "i \<in> set ?is")
    case True
    then obtain m where "m < length ?is" "?is ! m = i" by (auto simp: in_set_conv_nth)
    then show ?thesis using nth idx True set_block_text_is_block by metis
  qed (simp add: put_blocks_other)
  show "block_indices ?ws = ?is"
    unfolding block_indices_def [of ?ws] length_put_blocks
    by (subst block_indices_def) (rule filter_cong, auto simp: blk)
  show "map (\<lambda>i. block_text (?ws ! i)) ?is = ts"
  proof (rule nth_equalityI)
    fix m assume "m < length (map (\<lambda>i. block_text (?ws ! i)) ?is)"
    then have m: "m < length ?is" by simp
    then have "is_text_block (vs ! (?is ! m))" using idx nth_mem by blast
    then show "map (\<lambda>i. block_text (?ws ! i)) ?is ! m = ts ! m"
      using m nth set_block_text_is_block by simp
  qed (simp add: assms)
qed

lemma with_text_parts_dict:
  assumes "distinct keys" and "length parts = length (dict_slots d keys)"
    and "\<forall>p \<in> set parts. strip p \<noteq> []"
  shows "\<exists>e. with_text_parts (PDict d) parts keys = Inr (PDict e) \<and> text_parts (PDict e) keys = parts
           \<and> (\<forall>k. k \<notin> set keys \<longrightarrow> dget e k = dget d k)"
proof (cases d keys rule: dict_slots_cases)
  case 1
  then show ?thesis
    using assms(2) by (auto simp: with_text_parts_def slots_def Let_def text_parts_def)
next
  case (2 pre key post s)
  obtain p where p: "parts = [p]" "strip p \<noteq> []" using assms(2,3) 2(5) by (cases parts) auto
  let ?e = "dset key (PStr p) d"
  have "dict_slots ?e keys = dict_slots ?e (key # post)"
    unfolding 2(1) using 2(2) assms(1) [unfolded 2(1)] by (intro dict_slots_skip) auto
  then have "text_parts (PDict ?e) keys = parts"
    using p by (simp add: text_parts_def slots_def slot_text_def str_of_def)
  moreover have "with_text_parts (PDict d) parts keys = Inr (PDict ?e)"
    using 2(5) p by (simp add: with_text_parts_def slots_def put_part_def)
  ultimately show ?thesis using 2(1) by auto
next
  case (3 pre key post vs)
  let ?is = "block_indices vs"
  let ?e = "fold put_part (zip (map (\<lambda>i. (Some key, Some i)) ?is) parts) d"
  have len: "length parts = length ?is" using assms(2) 3(5) by simp
  have get: "dget ?e k = (if k = key then PList (put_blocks ?is parts vs) else dget d k)" for k
    by (rule fold_put_part [OF 3(3)])
  have skip: "dict_slots ?e keys = dict_slots ?e (key # post)"
    unfolding 3(1) using 3(2) assms(1) [unfolded 3(1)] by (intro dict_slots_skip) (auto simp: get)
  have sl: "dict_slots ?e keys = map (\<lambda>i. (Some key, Some i)) ?is"
    unfolding skip using 3(4) put_blocks_text(1) [OF len] by (simp add: get)
  have "slot_text (PDict ?e) (Some key, Some i) = block_text (put_blocks ?is parts vs ! i)" for i
    by (simp add: slot_text_def get)
  then have "text_parts (PDict ?e) keys = parts"
    using put_blocks_text(2) [OF len] by (simp add: text_parts_def slots_def sl comp_def)
  moreover have "with_text_parts (PDict d) parts keys = Inr (PDict ?e)"
    using 3(4,5) len
    by (cases ?is) (simp_all add: with_text_parts_def slots_def Let_def)
  moreover have "\<forall>k. k \<notin> set keys \<longrightarrow> dget ?e k = dget d k" using 3(1) by (auto simp: get)
  ultimately show ?thesis by blast
qed

text \<open>A rewritten result is read back as rewritten. Replacing the pieces of text of a result (a
  string, a dictionary, or an MCP result with text blocks) by as many non-blank pieces gives a result
  whose text is exactly those pieces, with every other key of a dictionary as it was; a wrong number of
  pieces raises \<open>ValueError\<close>.\<close>

theorem rewritten_text_is_read_back:
  assumes "distinct keys" and "\<forall>p \<in> set parts. strip p \<noteq> []"
  shows "if length parts = length (text_parts r keys)
         then (\<exists>r'. with_text_parts r parts keys = Inr r' \<and> text_parts r' keys = parts
                \<and> (\<forall>d k. r = PDict d \<longrightarrow> k \<notin> set keys \<longrightarrow> (\<exists>e. r' = PDict e \<and> dget e k = dget d k)))
         else (\<exists>m. with_text_parts r parts keys = Raise ''ValueError'' m)"
proof (cases "length parts = length (text_parts r keys)")
  case False
  then show ?thesis by (auto simp: with_text_parts_def text_parts_def Let_def)
next
  case len: True
  show ?thesis
  proof (cases r)
    case (PDict d)
    then have "length parts = length (dict_slots d keys)" using len by (simp add: text_parts_def slots_def)
    from with_text_parts_dict [OF assms(1) this assms(2)] obtain e where
        "with_text_parts r parts keys = Inr (PDict e)" "text_parts (PDict e) keys = parts"
        "\<forall>k. k \<notin> set keys \<longrightarrow> dget e k = dget d k"
      using PDict by blast
    then show ?thesis using PDict len by auto
  next
    case (PStr s)
    then show ?thesis using len
      by (cases parts) (auto simp: with_text_parts_def text_parts_def slots_def slot_text_def str_of_def)
  qed (use len in \<open>auto simp: with_text_parts_def text_parts_def slots_def\<close>)
qed

theorem rewritten_text_is_read_back_witness:
  "\<exists>r'. with_text_parts (PDict [(''content'', PList [PDict [(''type'', PStr ''image'')],
        PDict [(''type'', PStr ''text''), (''text'', PStr ''run me'')]])]) [''[removed]''] [''output'', ''content'']
      = Inr r' \<and> text_parts r' [''output'', ''content''] = [''[removed]'']"
proof -
  let ?r = "PDict [(''content'', PList [PDict [(''type'', PStr ''image'')],
        PDict [(''type'', PStr ''text''), (''text'', PStr ''run me'')]])]"
  have "length [''[removed]''] = length (text_parts ?r [''output'', ''content''])"
    by (simp add: text_parts_def slots_def dict_simps block_indices_def is_text_block_def is_str_def
        upt_rec)
  moreover have "\<forall>p \<in> set [''[removed]'']. strip p \<noteq> []"
    by (simp add: strip_def lstrip_def is_space_def char_in_def)
  ultimately show ?thesis
    using rewritten_text_is_read_back [of "[''output'', ''content'']" "[''[removed]'']" ?r] by auto
qed

end
