(* ===== verification/Egress.thy ===== *)
theory Egress
  imports Classification
begin

text \<open>
  The egress policy (\<open>egress_policy.py\<close>): the furthest tier each data class may reach, with the one
  rule the file may not change, and the egress gate (\<open>plugins/egress_gate.py\<close>), the \<open>PreLLMCall\<close> hook
  that decides every model call by its prompt's class and its target tier.

  Reading and parsing \<open>egress.yaml\<close> is not modelled; the policy object and its validator are.
\<close>

section \<open>The policy\<close>

datatype on_violation = OnDeny | OnRequireApproval

record class_rule =
  max_tier :: tier
  on_violation_of :: on_violation

type_synonym egress_policy = "(classification \<times> class_rule) list"

definition CLASSES :: "classification list" where
  "CLASSES = [Public, Internal, Personal, Secret]"

fun TIER_RANK :: "tier \<Rightarrow> nat" where
  "TIER_RANK Tier1 = 1"
| "TIER_RANK Tier2 = 2"
| "TIER_RANK Tier3 = 3"

text \<open>The validator of \<open>EgressPolicy\<close>: the policy is complete and never loosens secret.\<close>

definition complete_and_safe :: "egress_policy \<Rightarrow> egress_policy result" where
  "complete_and_safe p =
     (let missing = filter (\<lambda>c. map_of p c = None) CLASSES in
      if missing \<noteq> [] then
        Raise ''ValueError''
          (''egress policy: no rule for '' @ join '', '' (map classification_value missing))
      else case map_of p Secret of
             None \<Rightarrow> Raise ''KeyError'' ''secret''
           | Some secret \<Rightarrow>
               if max_tier secret = Tier3 then
                 Raise ''ValueError'' ''egress policy: secret is local only; it may never reach tier_3''
               else if on_violation_of secret \<noteq> OnDeny then
                 Raise ''ValueError'' ''egress policy: a secret violation is always a hard deny''
               else Inr p)"

definition rule :: "egress_policy \<Rightarrow> classification \<Rightarrow> class_rule result" where
  "rule p c = (case map_of p c of None \<Rightarrow> Raise ''KeyError'' (classification_value c) | Some r \<Rightarrow> Inr r)"

definition allows :: "egress_policy \<Rightarrow> classification \<Rightarrow> tier \<Rightarrow> bool result" where
  "allows p c t =
     (case rule p c of Inl e \<Rightarrow> Inl e | Inr r \<Rightarrow> Inr (TIER_RANK t \<le> TIER_RANK (max_tier r)))"

section \<open>The gate\<close>

record egress_gate =
  eg_trusted_cloud_for :: "classification list"
  eg_policy :: egress_policy

definition new_egress_gate :: "classification list \<Rightarrow> egress_policy \<Rightarrow> egress_gate result" where
  "new_egress_gate trusted p =
     (if Secret \<in> set trusted then
        Raise ''ValueError''
          ([CHR 0x27] @ ''secret'' @ [CHR 0x27] @ '' classification cannot be in trusted_cloud_for; ''
           @ ''secret data must never leave the owner's machines.'')
      else Inr \<lparr>eg_trusted_cloud_for = trusted, eg_policy = p\<rparr>)"

definition tier_val :: "tier \<Rightarrow> pyval" where
  "tier_val t = PStr (tier_value t)"

definition handle_violation :: "egress_gate \<Rightarrow> classification \<Rightarrow> tier \<Rightarrow> hook_decision result" where
  "handle_violation g c t =
     (case rule (eg_policy g) c of
        Inl e \<Rightarrow> Inl e
      | Inr r \<Rightarrow>
          let metadata = [(''classification'', PStr (classification_value c)),
                          (''target_tier'', tier_val t), (''max_tier'', tier_val (max_tier r))]
          in if on_violation_of r = OnRequireApproval then
               (if t = Tier3 \<and> c \<in> set (eg_trusted_cloud_for g) then
                  Inr ((decision Allow (''egress_gate: '' @ classification_value c
                          @ '' data to trusted cloud (approval bypassed)''))
                    \<lparr>hd_severity := SevWarn,
                     hd_audit_metadata := dset ''bypass'' (PStr ''trusted_cloud_for'') metadata\<rparr>)
                else
                  Inr ((decision RequireApproval (''egress_gate: '' @ classification_value c @ '' data to ''
                          @ tier_value t @ '' requires user approval''))
                    \<lparr>hd_severity := SevWarn, hd_audit_metadata := metadata\<rparr>))
             else
               Inr ((decision Deny
                  (if t = Tier3 then ''egress_gate: '' @ classification_value c
                     @ '' data never leaves the owner's machines (target='' @ tier_value t @ '')''
                   else ''egress_gate: '' @ classification_value c @ '' data may reach at most ''
                     @ tier_value (max_tier r) @ '' (target='' @ tier_value t @ '')''))
                 \<lparr>hd_severity := SevCritical, hd_audit_metadata := metadata\<rparr>))"

definition EgressGate_call :: "egress_gate \<Rightarrow> hook_context \<Rightarrow> hook_decision result" where
  "EgressGate_call g ctx =
     (case hc_tier ctx of
        None \<Rightarrow>
          Inr ((decision Deny ''egress_gate: target tier not set on PreLLMCall context'')
            \<lparr>hd_severity := SevError, hd_audit_metadata := [(''missing'', PStr ''tier'')]\<rparr>)
      | Some t \<Rightarrow>
          (case hc_classification ctx of
             None \<Rightarrow>
               if t = Tier3 then
                 Inr ((decision Deny ''egress_gate: unclassified prompt to cloud (fail-closed)'')
                   \<lparr>hd_severity := SevError, hd_audit_metadata := [(''target_tier'', tier_val t)]\<rparr>)
               else
                 Inr ((decision Allow (''egress_gate: unclassified prompt to '' @ tier_value t
                         @ '' permitted (local)''))
                   \<lparr>hd_severity := SevWarn, hd_audit_metadata := [(''target_tier'', tier_val t)]\<rparr>)
           | Some c \<Rightarrow>
               (case allows (eg_policy g) c t of
                  Inl e \<Rightarrow> Inl e
                | Inr False \<Rightarrow> handle_violation g c t
                | Inr True \<Rightarrow>
                    let md = [(''classification'', PStr (classification_value c)),
                              (''target_tier'', tier_val t)] in
                    if c = Internal \<and> t = Tier3 then
                      Inr ((decision Allow
                              ''egress_gate: internal data to cloud -- redaction recommended'')
                        \<lparr>hd_severity := SevWarn,
                         hd_audit_metadata := md @ [(''would_redact'', PBool True)]\<rparr>)
                    else
                      Inr ((decision Allow (''egress_gate: '' @ classification_value c @ '' -> ''
                              @ tier_value t @ '' permitted''))\<lparr>hd_audit_metadata := md\<rparr>))))"

definition egress_gate_hook :: "egress_gate \<Rightarrow> 's hook" where
  "egress_gate_hook g = \<lparr>hk_name = ''egress_gate'', hk_hook_point = PRE_LLM_CALL, hk_priority = 30,
     hk_call = (\<lambda>ctx s. (EgressGate_call g ctx, s)), hk_bot_status = None\<rparr>"

section \<open>What the gate guarantees\<close>

text \<open>A gate as the wiring builds it: the policy passed its validator and the constructor accepted the
  trusted classes.\<close>

definition built_gate :: "egress_gate \<Rightarrow> bool" where
  "built_gate g \<longleftrightarrow> complete_and_safe (eg_policy g) = Inr (eg_policy g)
     \<and> new_egress_gate (eg_trusted_cloud_for g) (eg_policy g) = Inr g"

lemma complete_and_safe_iff:
  "complete_and_safe p = Inr p \<longleftrightarrow>
     (\<forall>c. map_of p c \<noteq> None) \<and> (\<exists>r. map_of p Secret = Some r \<and> max_tier r \<noteq> Tier3 \<and> on_violation_of r = OnDeny)"
proof -
  have "(\<forall>c. map_of p c \<noteq> None) \<longleftrightarrow> (\<forall>c \<in> set CLASSES. map_of p c \<noteq> None)"
    by (metis CLASSES_def classification.exhaust list.set_intros(1,2))
  then show ?thesis
    by (auto simp: complete_and_safe_def Let_def filter_empty_conv split: option.splits)
qed

lemma TIER_RANK_Tier3: "3 \<le> TIER_RANK t \<longleftrightarrow> t = Tier3"
  by (cases t) auto

lemma gate_sound:
  assumes "built_gate g"
  shows "\<exists>d. EgressGate_call g ctx = Inr d
     \<and> (\<not> stops (hd_outcome d) \<longrightarrow>
          (\<exists>t. hc_tier ctx = Some t
            \<and> (case hc_classification ctx of
                 None \<Rightarrow> t \<noteq> Tier3
               | Some c \<Rightarrow> \<exists>r. map_of (eg_policy g) c = Some r
                   \<and> (TIER_RANK t \<le> TIER_RANK (max_tier r)
                      \<or> t = Tier3 \<and> c \<in> set (eg_trusted_cloud_for g)
                          \<and> on_violation_of r = OnRequireApproval))
            \<and> (t = Tier3 \<longrightarrow> hc_classification ctx \<notin> {None, Some Secret})))"
proof (cases "hc_tier ctx")
  case None
  then show ?thesis by (simp add: EgressGate_call_def stops_def)
next
  case (Some t)
  note tier = this
  have total: "\<And>c. \<exists>r. map_of (eg_policy g) c = Some r"
    and secret: "\<exists>r. map_of (eg_policy g) Secret = Some r \<and> max_tier r \<noteq> Tier3 \<and> on_violation_of r = OnDeny"
    using assms by (auto simp: built_gate_def complete_and_safe_iff)
  show ?thesis
  proof (cases "hc_classification ctx")
    case None
    then show ?thesis using tier by (simp add: EgressGate_call_def stops_def)
  next
    case (Some c)
    obtain r where r: "map_of (eg_policy g) c = Some r" using total by blast
    have "c = Secret \<Longrightarrow> max_tier r \<noteq> Tier3 \<and> on_violation_of r = OnDeny" using secret r by auto
    then show ?thesis
      using tier Some r
      by (cases "TIER_RANK t \<le> TIER_RANK (max_tier r)")
        (auto simp: EgressGate_call_def allows_def rule_def handle_violation_def Let_def stops_def
          TIER_RANK_Tier3)
  qed
qed

text \<open>The privacy promise at the gate. For every gate the wiring can build and every context, the
  gate decides (it never raises), and it lets a model call go ahead only when the target tier is set and
  either the prompt is unclassified and the tier local, or the class's rule reaches that tier, or the
  class is one the owner trusts to the cloud whose rule asks for approval. So no unclassified and no
  secret prompt is ever let through to the cloud tier.\<close>

theorem egress_gate_sound:
  assumes "built_gate g"
  shows "\<exists>d. EgressGate_call g ctx = Inr d
     \<and> (\<not> stops (hd_outcome d) \<longrightarrow>
          (\<exists>t. hc_tier ctx = Some t
            \<and> (case hc_classification ctx of
                 None \<Rightarrow> t \<noteq> Tier3
               | Some c \<Rightarrow> \<exists>r. map_of (eg_policy g) c = Some r
                   \<and> (TIER_RANK t \<le> TIER_RANK (max_tier r)
                      \<or> t = Tier3 \<and> c \<in> set (eg_trusted_cloud_for g)
                          \<and> on_violation_of r = OnRequireApproval))
            \<and> (t = Tier3 \<longrightarrow> hc_classification ctx \<notin> {None, Some Secret})))"
  by (rule gate_sound [OF assms])

text \<open>The policy as shipped in \<open>config/governance/egress.yaml\<close>, as the gate's documentation tables it.\<close>

definition shipped_policy :: egress_policy where
  "shipped_policy =
     [(Public, \<lparr>max_tier = Tier3, on_violation_of = OnDeny\<rparr>),
      (Internal, \<lparr>max_tier = Tier3, on_violation_of = OnDeny\<rparr>),
      (Personal, \<lparr>max_tier = Tier2, on_violation_of = OnRequireApproval\<rparr>),
      (Secret, \<lparr>max_tier = Tier2, on_violation_of = OnDeny\<rparr>)]"

definition shipped_gate :: egress_gate where
  "shipped_gate = \<lparr>eg_trusted_cloud_for = [], eg_policy = shipped_policy\<rparr>"

lemma shipped_gate_built: "built_gate shipped_gate"
  by (simp add: built_gate_def shipped_gate_def shipped_policy_def new_egress_gate_def
      complete_and_safe_def CLASSES_def)

theorem egress_gate_sound_witness:
  "\<exists>d. EgressGate_call shipped_gate
         ((demo_ctx PRE_LLM_CALL [] [])\<lparr>hc_tier := Some Tier3, hc_classification := Some Secret\<rparr>) = Inr d
       \<and> stops (hd_outcome d)"
  using egress_gate_sound [OF shipped_gate_built,
      of "(demo_ctx PRE_LLM_CALL [] [])\<lparr>hc_tier := Some Tier3, hc_classification := Some Secret\<rparr>"]
  by auto

text \<open>A looser table does not load. A policy passes its validator exactly when it has a rule for
  every class and the rule of secret stays below the cloud tier with a hard deny; and no gate can be
  constructed that trusts secret to the cloud.\<close>

theorem policy_loader_refuses_loose_tables:
  "complete_and_safe p \<in> {Inr p} \<union> range Inl
   \<and> (complete_and_safe p = Inr p \<longleftrightarrow>
        (\<forall>c. map_of p c \<noteq> None)
        \<and> (\<exists>r. map_of p Secret = Some r \<and> TIER_RANK (max_tier r) < 3 \<and> on_violation_of r = OnDeny))
   \<and> (new_egress_gate trusted p \<in> range Inr \<longleftrightarrow> Secret \<notin> set trusted)"
proof (intro conjI)
  have "TIER_RANK t < 3 \<longleftrightarrow> t \<noteq> Tier3" for t by (cases t) auto
  then show "complete_and_safe p = Inr p \<longleftrightarrow> (\<forall>c. map_of p c \<noteq> None)
      \<and> (\<exists>r. map_of p Secret = Some r \<and> TIER_RANK (max_tier r) < 3 \<and> on_violation_of r = OnDeny)"
    by (simp only: complete_and_safe_iff)
  show "complete_and_safe p \<in> {Inr p} \<union> range Inl"
    by (auto simp: complete_and_safe_def Let_def split: option.splits)
  show "new_egress_gate trusted p \<in> range Inr \<longleftrightarrow> Secret \<notin> set trusted"
    by (auto simp: new_egress_gate_def)
qed

lemma gate_sets_no_label: "EgressGate_call g ctx = Inr d \<Longrightarrow> hd_set_classification d = None \<and> hd_set_tier d = None"
  by (auto simp: EgressGate_call_def handle_violation_def decision_def Let_def
      split: option.splits if_splits sum.splits bool.splits)

end
