(* ===== verification/Tool_Policy.thy ===== *)
theory Tool_Policy
  imports Kernel
begin

text \<open>
  Which tools may be called: the tool policy hook (\<open>plugins/tool_policy.py\<close>), the caller policy, a
  plugin's permission contract (\<open>caller_policy.py\<close>, \<open>plugins/caller_policy.py\<close>), and the list of tools
  that need approval in a tainted run (\<open>taint_policy.py\<close>).
\<close>

section \<open>Callers\<close>

text \<open>\<open>bool(caller) and str(caller).startswith("mcp:")\<close>.\<close>

definition is_mcp_caller :: "pyval \<Rightarrow> bool" where
  "is_mcp_caller caller = (truthy caller \<and> startswith (py_str caller) ''mcp:'')"

section \<open>The tool policy\<close>

record tool_policy =
  tp_allowed_tools :: "string list option"
  tp_blocked_tools :: "string list"
  tp_confirm_once_tools :: "string list"

definition confirm_once :: "tool_policy \<Rightarrow> string \<Rightarrow> dict \<Rightarrow> bool" where
  "confirm_once p tool_name metadata =
     (let declared_once = (dget metadata ''tool_confirm'' = PStr ''once'');
          queued_instead = (dget metadata ''deferred_executor'' = PBool True
                            \<and> dget metadata ''per_call_approval'' = PBool True)
      in (declared_once \<and> \<not> queued_instead) \<or> tool_name \<in> set (tp_confirm_once_tools p))"

definition tool_policy_md :: "string \<Rightarrow> string \<Rightarrow> dict" where
  "tool_policy_md tool_name policy = [(''tool_name'', PStr tool_name), (''policy'', PStr policy)]"

definition ToolPolicyHook_call :: "tool_policy \<Rightarrow> hook_context \<Rightarrow> hook_decision" where
  "ToolPolicyHook_call p ctx =
     (case nonempty_str (dget (hc_payload ctx) ''tool_name'') of
        None \<Rightarrow>
          (decision Deny ''tool_policy: missing tool_name in PreToolUse context'')
            \<lparr>hd_severity := SevError, hd_audit_metadata := [(''missing'', PStr ''tool_name'')]\<rparr>
      | Some tool_name \<Rightarrow>
          let once = confirm_once p tool_name (hc_metadata ctx) in
          if once \<and> is_mcp_caller (dget (hc_metadata ctx) ''caller'') then
            (decision Deny (''tool_policy: '' @ repr_str tool_name
               @ '' writes on the owner's behalf and needs their ''
               @ ''confirmation in an Evarness chat, which a client outside Evarness cannot give; ''
               @ ''it was not run''))
              \<lparr>hd_severity := SevWarn, hd_audit_metadata := tool_policy_md tool_name ''confirm_once_tools''\<rparr>
          else if once \<and> dget (hc_metadata ctx) ''asked_user'' \<noteq> PBool True then
            (decision RequireApproval (''tool_policy: '' @ repr_str tool_name
               @ '' writes on the user's behalf and the user has ''
               @ ''not confirmed it yet. Do NOT call it again now. First call ask_user with ''
               @ ''ONE question that lists everything you intend to create (each item's ''
               @ ''text, date and time); after the user confirms, call ''
               @ repr_str tool_name @ '' once per item.''))
              \<lparr>hd_audit_metadata := tool_policy_md tool_name ''confirm_once_tools''\<rparr>
          else if tool_name \<in> set (tp_blocked_tools p) then
            (decision Deny (''tool_policy: tool '' @ repr_str tool_name @ '' is blocked''))
              \<lparr>hd_severity := SevWarn, hd_audit_metadata := tool_policy_md tool_name ''blocked_tools''\<rparr>
          else if (case tp_allowed_tools p of None \<Rightarrow> False | Some allowed \<Rightarrow> tool_name \<notin> set allowed)
               \<and> \<not> startswith tool_name ''capability:'' then
            (decision Deny (''tool_policy: tool '' @ repr_str tool_name @ '' is not in the allowlist''))
              \<lparr>hd_severity := SevWarn, hd_audit_metadata := tool_policy_md tool_name ''allowed_tools''\<rparr>
          else
            (decision Allow (''tool_policy: tool '' @ repr_str tool_name @ '' permitted''))
              \<lparr>hd_audit_metadata := [(''tool_name'', PStr tool_name)]\<rparr>)"

section \<open>The caller policy\<close>

text \<open>The registered policy is process state: \<open>None\<close> until a runtime registers one. A policy answers
  \<open>None\<close> to allow, else the reason.\<close>

type_synonym caller_policy_state = "(string \<Rightarrow> string \<Rightarrow> string option) option"

definition register_caller_policy ::
  "(string \<Rightarrow> string \<Rightarrow> string option) option \<Rightarrow> caller_policy_state \<Rightarrow> caller_policy_state"
where
  "register_caller_policy policy _ = policy"

definition caller_policy :: "caller_policy_state \<Rightarrow> (string \<Rightarrow> string \<Rightarrow> string option) option" where
  "caller_policy s = s"

text \<open>\<open>str(value or "")\<close>.\<close>

definition str_or_empty :: "pyval \<Rightarrow> string" where
  "str_or_empty v = (if truthy v then py_str v else [])"

definition CallerPolicyHook_call :: "caller_policy_state \<Rightarrow> hook_context \<Rightarrow> hook_decision" where
  "CallerPolicyHook_call s ctx =
     (let caller = str_or_empty (dget (hc_metadata ctx) ''caller'');
          tool = str_or_empty (dget (hc_payload ctx) ''tool_name'');
          md = [(''caller'', PStr caller), (''tool_name'', PStr tool)]
      in if \<not> startswith caller ''plugin:'' then
           decision Allow (''caller_policy: '' @ (if caller = [] then ''model'' else caller))
         else case caller_policy s of
           None \<Rightarrow>
             (decision Deny (''caller_policy: no permission contract is loaded, so '' @ caller
                @ '' may not call '' @ repr_str tool))
               \<lparr>hd_severity := SevWarn, hd_audit_metadata := md\<rparr>
         | Some policy \<Rightarrow>
             (if truthy_str (policy caller tool) then
                (decision Deny (''caller_policy: '' @ fmt_opt (policy caller tool)))
                  \<lparr>hd_severity := SevWarn, hd_audit_metadata := md\<rparr>
              else
                (decision Allow (''caller_policy: '' @ caller @ '' may call '' @ repr_str tool))
                  \<lparr>hd_audit_metadata := md\<rparr>))"

section \<open>The taint policy\<close>

definition DEFAULT_GATED :: "string list" where
  "DEFAULT_GATED = [''memory_correct'', ''memory_forget'', ''memory_restore'']"

definition has_wildcard :: "string \<Rightarrow> bool" where
  "has_wildcard name = (\<exists>c \<in> set name. c \<in> set ''*?[]'')"

fun parse_names :: "pyval list \<Rightarrow> string list result" where
  "parse_names [] = Inr []"
| "parse_names (v # vs) =
     (case v of
        PStr name \<Rightarrow>
          if strip name = [] then Raise ''ValueError'' ''every entry must be a non-empty tool name''
          else if has_wildcard name then
            Raise ''ValueError'' (repr_str name @ '': wildcards are not allowed'')
          else (case parse_names vs of Inl e \<Rightarrow> Inl e | Inr out \<Rightarrow> Inr (strip name # out))
      | _ \<Rightarrow> Raise ''ValueError'' ''every entry must be a non-empty tool name'')"

text \<open>The tool names of a parsed file, as a list without regard to order.\<close>

definition parse_taint_policy :: "pyval \<Rightarrow> string list result" where
  "parse_taint_policy document =
     (let bad = Raise ''ValueError''
                  ''the file holds one key, 'approval_when_tainted', a list of tool names''
      in case document of
           PDict d \<Rightarrow>
             if \<exists>k \<in> set (map fst d). k \<noteq> ''approval_when_tainted'' then bad
             else (case dget d ''approval_when_tainted'' of
                     PList names \<Rightarrow> parse_names names
                   | _ \<Rightarrow> Raise ''ValueError'' ([CHR 0x27] @ ''approval_when_tainted' must be a list''))
         | _ \<Rightarrow> bad)"

text \<open>The policy file on disk: \<open>None\<close> when \<open>stat\<close> fails, else its modification time and what reading and
  parsing it as YAML gives (or the exception). The cache maps the path to the time and names of the
  last load; there is one path.\<close>

record taint_cache =
  tc_hit :: "(int \<times> string list) option"
  tc_warned :: "int list"

definition load_taint :: "int \<Rightarrow> pyval result \<Rightarrow> taint_cache \<Rightarrow> string list \<times> taint_cache" where
  "load_taint mtime contents c =
     (case (case contents of Inl e \<Rightarrow> Inl e | Inr document \<Rightarrow> parse_taint_policy document) of
        Inr names \<Rightarrow> (names, c\<lparr>tc_hit := Some (mtime, names)\<rparr>)
      | Inl _ \<Rightarrow>
          (DEFAULT_GATED,
           c\<lparr>tc_warned := (if mtime \<in> set (tc_warned c) then tc_warned c else mtime # tc_warned c),
             tc_hit := Some (mtime, DEFAULT_GATED)\<rparr>))"

definition taint_gated_tools ::
  "(int \<times> pyval result) option \<Rightarrow> taint_cache \<Rightarrow> string list \<times> taint_cache"
where
  "taint_gated_tools file c =
     (case file of
        None \<Rightarrow> (DEFAULT_GATED, c)
      | Some (mtime, contents) \<Rightarrow>
          (case tc_hit c of
             Some (m, names) \<Rightarrow>
               if m = mtime then (names, c)
               else load_taint mtime contents c
           | None \<Rightarrow> load_taint mtime contents c))"

section \<open>What the policies guarantee\<close>

text \<open>The tool policy, on every branch. A call is let through exactly when its tool has a name, is not
  blocked, is on the allow-list (where there is one; a capability call is exempt), and, where the tool is
  confirmed once per run, the user was asked and the caller is not a client outside. Such a client is
  always refused, never asked; and the hook asks for approval only for the confirm-once reason.\<close>

theorem tool_policy_decides:
  "case nonempty_str (dget (hc_payload ctx) ''tool_name'') of
     None \<Rightarrow> hd_outcome (ToolPolicyHook_call p ctx) = Deny
   | Some tool \<Rightarrow>
       (let once = confirm_once p tool (hc_metadata ctx);
            mcp = is_mcp_caller (dget (hc_metadata ctx) ''caller'');
            asked = (dget (hc_metadata ctx) ''asked_user'' = PBool True);
            permitted = (tool \<notin> set (tp_blocked_tools p)
              \<and> (case tp_allowed_tools p of None \<Rightarrow> True
                 | Some allowed \<Rightarrow> tool \<in> set allowed \<or> startswith tool ''capability:''))
        in hd_outcome (ToolPolicyHook_call p ctx) =
             (if once \<and> mcp then Deny
              else if once \<and> \<not> asked then RequireApproval
              else if permitted then Allow else Deny))"
  by (auto simp: ToolPolicyHook_call_def Let_def split: option.splits)

text \<open>Plugins are confined by the permission contract, and without one they call nothing. A call
  made by plugin code passes the hook exactly when a policy is registered and gives no reason against
  it; every other caller passes.\<close>

theorem caller_policy_fail_closed:
  "hd_outcome (CallerPolicyHook_call s ctx) =
     (if startswith (str_or_empty (dget (hc_metadata ctx) ''caller'')) ''plugin:''
         \<and> (\<forall>policy. s = Some policy \<longrightarrow>
              truthy_str (policy (str_or_empty (dget (hc_metadata ctx) ''caller''))
                (str_or_empty (dget (hc_payload ctx) ''tool_name''))))
      then Deny else Allow)"
  by (cases s) (auto simp: CallerPolicyHook_call_def caller_policy_def Let_def)

theorem caller_policy_fail_closed_witness:
  "hd_outcome (CallerPolicyHook_call None
     (demo_ctx PRE_TOOL_USE [(''tool_name'', PStr ''send'')] [(''caller'', PStr ''plugin:mail'')])) = Deny"
  using caller_policy_fail_closed [of None
      "demo_ctx PRE_TOOL_USE [(''tool_name'', PStr ''send'')] [(''caller'', PStr ''plugin:mail'')]"]
  by (simp add: demo_ctx_def dict_simps str_or_empty_def py_str_def)

text \<open>What an uncached load answers.\<close>

definition fresh_taint :: "(int \<times> pyval result) option \<Rightarrow> string list" where
  "fresh_taint file =
     (case file of
        None \<Rightarrow> DEFAULT_GATED
      | Some (_, contents) \<Rightarrow>
          (case (case contents of Inl e \<Rightarrow> Inl e | Inr document \<Rightarrow> parse_taint_policy document) of
             Inr names \<Rightarrow> names | Inl _ \<Rightarrow> DEFAULT_GATED))"

definition cache_ok :: "(int \<Rightarrow> pyval result) \<Rightarrow> taint_cache \<Rightarrow> bool" where
  "cache_ok disk c \<longleftrightarrow> (\<forall>m names. tc_hit c = Some (m, names) \<longrightarrow> names = fresh_taint (Some (m, disk m)))"

definition ask_taint ::
  "(int \<Rightarrow> pyval result) \<Rightarrow> taint_cache \<Rightarrow> int option \<Rightarrow> taint_cache"
where
  "ask_taint disk c mtime = snd (taint_gated_tools (map_option (\<lambda>m. (m, disk m)) mtime) c)"

lemma taint_gated_fresh:
  assumes "cache_ok disk c"
  shows "fst (taint_gated_tools (map_option (\<lambda>m. (m, disk m)) mtime) c) =
           fresh_taint (map_option (\<lambda>m. (m, disk m)) mtime)"
    and "cache_ok disk (ask_taint disk c mtime)"
  using assms
  by (cases mtime; auto simp: taint_gated_tools_def load_taint_def fresh_taint_def cache_ok_def
      ask_taint_def split: option.splits sum.splits)+

interpretation taint_cache: invariant_system "ask_taint disk" "cache_ok disk" for disk
  by unfold_locales (rule taint_gated_fresh)

text \<open>The cache of the taint policy is transparent, and a broken file means more approval, never
  less. As long as the file's contents are determined by its modification time, after any history of
  calls the list returned is what reading the file afresh gives: the default memory writes when the file
  is missing, unreadable or malformed, else the names in it.\<close>

theorem taint_cache_transparent:
  "fst (taint_gated_tools (map_option (\<lambda>m. (m, disk m)) mtime)
      (run_ops (ask_taint disk) \<lparr>tc_hit = None, tc_warned = []\<rparr> history)) =
   (case mtime of
      None \<Rightarrow> DEFAULT_GATED
    | Some m \<Rightarrow> (case disk m of
                  Inl _ \<Rightarrow> DEFAULT_GATED
                | Inr document \<Rightarrow>
                    (case parse_taint_policy document of Inl _ \<Rightarrow> DEFAULT_GATED | Inr names \<Rightarrow> names)))"
proof -
  have "cache_ok disk (run_ops (ask_taint disk) \<lparr>tc_hit = None, tc_warned = []\<rparr> history)"
    by (rule taint_cache.run_inv) (simp add: cache_ok_def)
  from taint_gated_fresh(1) [OF this, of mtime] show ?thesis
    by (simp add: fresh_taint_def split: option.splits sum.splits)
qed

lemma parse_names_plain:
  "parse_names vs = Inr names \<Longrightarrow> n \<in> set names \<Longrightarrow> \<exists>name. PStr name \<in> set vs \<and> n = strip name \<and> \<not> has_wildcard name"
  by (induction vs arbitrary: names) (fastforce split: pyval.splits if_splits sum.splits)+

end
