(* ===== verification/Approvals.thy ===== *)
theory Approvals
  imports Approvals_Store
begin

text \<open>
  What the approval queue promises of every sequence of operations: the rows stay well formed, an
  answered or lapsed approval never changes again, what an approval pins never changes at all, and the
  claim of an approved call is won at most once. Also the encoding of the pinned items and the card, and
  the lapse sweep.
\<close>

section \<open>Operations as one alphabet\<close>

datatype approval_op =
    Enqueue approval_request string timestamp
  | Respond string string string timestamp
  | ClaimExecution string timestamp
  | SetCheckpoint string string
  | ExpireStale timestamp

datatype approval_reply =
    RId "string result"
  | RRow "approval_row result"
  | RClaim "approval_row option"
  | RRows "approval_row list"

fun approval_step :: "approvals_db \<Rightarrow> approval_op \<Rightarrow> approvals_db \<times> approval_reply" where
  "approval_step db (Enqueue rq i now) = (case enqueue rq i now db of (r, db') \<Rightarrow> (db', RId r))"
| "approval_step db (Respond i st actor now) = (case respond i st actor now db of (r, db') \<Rightarrow> (db', RRow r))"
| "approval_step db (ClaimExecution i now) = (case claim_execution i now db of (r, db') \<Rightarrow> (db', RClaim r))"
| "approval_step db (SetCheckpoint i cp) = (case set_checkpoint i cp db of (r, db') \<Rightarrow> (db', RRow r))"
| "approval_step db (ExpireStale now) = (case expire_stale now db of (r, db') \<Rightarrow> (db', RRows r))"

definition approval_next :: "approvals_db \<Rightarrow> approval_op \<Rightarrow> approvals_db" where
  "approval_next db a = fst (approval_step db a)"

text \<open>Every operation rewrites rows in place (keeping their ids) and then possibly appends one.\<close>

fun row_update :: "approval_op \<Rightarrow> approval_row \<Rightarrow> approval_row" where
  "row_update (Enqueue _ _ _) r = r"
| "row_update (Respond i st actor now) r =
     (if answerable i r \<and> st \<in> {''approved'', ''rejected''}
      then r\<lparr>ar_status := st, ar_responded_at := Some now, ar_response_actor := Some actor\<rparr> else r)"
| "row_update (ClaimExecution i now) r = (if claimable i r then r\<lparr>ar_executed_at := Some now\<rparr> else r)"
| "row_update (SetCheckpoint i cp) r =
     (if ar_approval_id r = i then r\<lparr>ar_checkpoint_id := Some cp\<rparr> else r)"
| "row_update (ExpireStale now) r = (if overdue now r then r\<lparr>ar_status := ''timed_out''\<rparr> else r)"

fun row_added :: "approvals_db \<Rightarrow> approval_op \<Rightarrow> approval_row list" where
  "row_added db (Enqueue rq i now) = (if get i db = None then [new_row rq i now] else [])"
| "row_added db _ = []"

lemma update_where_no_match: "(\<And>r. r \<in> set rows \<Longrightarrow> \<not> p r) \<Longrightarrow> update_where p g rows = rows"
  by (induction rows) auto

lemma expire_select_empty: "expire_select now db = [] \<longleftrightarrow> (\<forall>r \<in> set db. \<not> overdue now r)"
  by (metis expire_select_def filter_empty_conv set_empty set_sort)

lemma approval_next_rows: "approval_next db a = map (row_update a) db @ row_added db a"
proof (cases a)
  case (Enqueue rq i now)
  have "map (row_update (Enqueue rq i now)) db = db" by (intro map_idI) simp
  then show ?thesis using Enqueue by (auto simp: approval_next_def enqueue_def)
next
  case (Respond i st actor now)
  have "map (row_update (Respond i st actor now)) db = db" if "st \<notin> {''approved'', ''rejected''}"
    using that by (intro map_idI) auto
  then show ?thesis
    using Respond
    by (auto simp: approval_next_def respond_def update_where_def Let_def split: option.splits)
next
  case (SetCheckpoint i cp)
  have "map (row_update (SetCheckpoint i cp)) db = db" if "get i db = None"
    using that by (intro map_idI) (auto simp: get_def lookup_by_None_iff)
  then show ?thesis
    using SetCheckpoint
    by (auto simp: approval_next_def set_checkpoint_def update_where_def Let_def split: option.splits)
next
  case (ExpireStale now)
  have "map (row_update (ExpireStale now)) db = db" if "expire_select now db = []"
    using that by (intro map_idI) (auto simp: expire_select_empty)
  then show ?thesis
    using ExpireStale
    by (auto simp: approval_next_def expire_stale_def expire_finish_def expire_update_def update_where_def)
qed (simp_all add: approval_next_def claim_execution_def update_where_def Let_def)

lemma row_update_id [simp]: "ar_approval_id (row_update a r) = ar_approval_id r"
  by (cases a) auto

lemma row_added_new: "r \<in> set (row_added db a) \<Longrightarrow> \<exists>rq i now. a = Enqueue rq i now \<and> r = new_row rq i now \<and> get i db = None"
  by (cases a) (auto split: if_splits)

lemma get_next:
  "get i (approval_next db a) =
     (case get i db of Some r \<Rightarrow> Some (row_update a r) | None \<Rightarrow> lookup_by ar_approval_id i (row_added db a))"
proof -
  have "lookup_by ar_approval_id i (map (row_update a) db) = map_option (row_update a) (get i db)"
    unfolding get_def by (induction db) auto
  then show ?thesis
    by (auto simp: approval_next_rows get_def split: option.splits)
qed

section \<open>Well-formed queues\<close>

definition row_ok :: "approval_row \<Rightarrow> bool" where
  "row_ok r \<longleftrightarrow> ar_status r \<in> {''pending'', ''approved'', ''rejected'', ''timed_out''}
     \<and> (ar_executed_at r \<noteq> None \<longrightarrow> ar_status r = ''approved'')
     \<and> (ar_responded_at r \<noteq> None \<longleftrightarrow> ar_status r \<in> {''approved'', ''rejected''})
     \<and> (ar_response_actor r \<noteq> None \<longleftrightarrow> ar_responded_at r \<noteq> None)"

definition approvals_ok :: "approvals_db \<Rightarrow> bool" where
  "approvals_ok db \<longleftrightarrow> distinct (map ar_approval_id db) \<and> (\<forall>r \<in> set db. row_ok r)"

lemma row_update_ok: "row_ok r \<Longrightarrow> row_ok (row_update a r)"
  by (cases a) (auto simp: row_ok_def answerable_def claimable_def overdue_def is_pending_def)

lemma approval_next_ok: "approvals_ok db \<Longrightarrow> approvals_ok (approval_next db a)"
proof -
  assume ok: "approvals_ok db"
  have dist: "distinct (map ar_approval_id (row_added db a))" by (cases a) auto
  have fresh: "ar_approval_id r \<notin> ar_approval_id ` set db" if "r \<in> set (row_added db a)" for r
    using row_added_new [OF that] by (auto simp: get_def lookup_by_None_iff new_row_def)
  have new_ok: "row_ok r" if "r \<in> set (row_added db a)" for r
    using row_added_new [OF that] by (auto simp: row_ok_def new_row_def)
  have "map ar_approval_id (map (row_update a) db) = map ar_approval_id db" by (induction db) auto
  then have "map ar_approval_id (approval_next db a) = map ar_approval_id db @ map ar_approval_id (row_added db a)"
    by (simp add: approval_next_rows)
  then have "distinct (map ar_approval_id (approval_next db a))"
    using ok dist fresh by (auto simp: approvals_ok_def) (metis imageI)
  then show ?thesis using ok new_ok by (auto simp: approvals_ok_def approval_next_rows row_update_ok)
qed

interpretation approvals: invariant_system approval_next approvals_ok
  by unfold_locales (rule approval_next_ok)

text \<open>The approval queue stays well formed through every sequence of operations: ids are unique, a
  status is one of four, a row carries an answer time and an actor exactly when a person answered it,
  and only an approved row is ever claimed to run.\<close>

theorem approvals_well_formed:
  "distinct (map ar_approval_id (run_ops approval_next [] ops))
   \<and> (\<forall>r \<in> set (run_ops approval_next [] ops).
        ar_status r \<in> {''pending'', ''approved'', ''rejected'', ''timed_out''}
        \<and> (ar_executed_at r \<noteq> None \<longrightarrow> ar_status r = ''approved'')
        \<and> ((\<exists>t actor. ar_responded_at r = Some t \<and> ar_response_actor r = Some actor)
             \<longleftrightarrow> ar_status r \<in> {''approved'', ''rejected''}))"
proof -
  have "approvals_ok (run_ops approval_next [] ops)"
    by (rule approvals.run_inv) (simp add: approvals_ok_def)
  then show ?thesis unfolding approvals_ok_def row_ok_def by fastforce
qed

theorem approvals_well_formed_witness:
  "distinct (map ar_approval_id (run_ops approval_next []
     [Enqueue (approval_request_of ''r'' None ''s'' ''c'') ''a1'' 0, Respond ''a1'' ''approved'' ''owner'' 5]))"
  using approvals_well_formed by blast

section \<open>An answer is final\<close>

text \<open>What the owner decided and what they decided about.\<close>

definition decided :: "string \<Rightarrow> approvals_db \<Rightarrow> approval_row option" where
  "decided i db = map_option (\<lambda>r. r\<lparr>ar_checkpoint_id := None, ar_executed_at := None\<rparr>) (get i db)"

definition answered :: "approval_row option \<Rightarrow> bool" where
  "answered v = (case v of None \<Rightarrow> False | Some r \<Rightarrow> \<not> is_pending r)"

lemma decided_frozen:
  assumes "answered (decided i db)"
  shows "decided i (approval_next db a) = decided i db"
proof -
  obtain r where r: "get i db = Some r" "\<not> is_pending r"
    using assms by (auto simp: answered_def decided_def is_pending_def split: option.splits)
  then show ?thesis
    by (cases a) (auto simp: decided_def get_next answerable_def overdue_def)
qed

interpretation answer: frozen_view approval_next approvals_ok "decided i" answered for i
  by unfold_locales (rule decided_frozen)

text \<open>What an approval pins, answered or not.\<close>

definition pinned :: "string \<Rightarrow> approvals_db \<Rightarrow> (approval_item list option \<times> approval_card option \<times> string option) option" where
  "pinned i db = map_option (\<lambda>r. (ar_items r, ar_card r, ar_caller r)) (get i db)"

lemma pinned_frozen: "pinned i db \<noteq> None \<Longrightarrow> pinned i (approval_next db a) = pinned i db"
  by (cases a) (auto simp: pinned_def get_next split: option.splits)

interpretation pin: frozen_view approval_next approvals_ok "pinned i" "\<lambda>v. v \<noteq> None" for i
  by unfold_locales (rule pinned_frozen)

text \<open>C18. A decision is final and what it covers cannot be edited. Once an approval is approved,
  rejected or timed out, no later sequence of operations changes its status, answer, deadline, channel,
  items or card (only the checkpoint link and the execution claim may still be written); and the items,
  the card and the caller of any approval are those it was enqueued with, for ever.\<close>

theorem decision_is_final:
  assumes "approvals_ok db"
  shows "(\<forall>r. get i db = Some r \<and> ar_status r \<noteq> ''pending'' \<longrightarrow>
           (\<exists>r'. get i (run_ops approval_next db ops) = Some r'
              \<and> r' = r\<lparr>ar_checkpoint_id := ar_checkpoint_id r', ar_executed_at := ar_executed_at r'\<rparr>))
       \<and> (\<forall>r. get i db = Some r \<longrightarrow>
           (\<exists>r'. get i (run_ops approval_next db ops) = Some r' \<and> ar_items r' = ar_items r
              \<and> ar_card r' = ar_card r \<and> ar_caller r' = ar_caller r))"
proof (intro conjI allI impI)
  fix r assume r: "get i db = Some r \<and> ar_status r \<noteq> ''pending''"
  then have "answered (decided i db)" by (simp add: answered_def decided_def is_pending_def)
  then have "decided i (run_ops approval_next db ops) = decided i db"
    using assms by (intro answer.run_frozen)
  then obtain z where z: "get i (run_ops approval_next db ops) = Some z"
      "z\<lparr>ar_checkpoint_id := None, ar_executed_at := None\<rparr> =
       r\<lparr>ar_checkpoint_id := None, ar_executed_at := None\<rparr>"
    using r by (auto simp: decided_def)
  then have "z = r\<lparr>ar_checkpoint_id := ar_checkpoint_id z, ar_executed_at := ar_executed_at z\<rparr>"
    by (cases r; cases z) simp
  then show "\<exists>r'. get i (run_ops approval_next db ops) = Some r'
      \<and> r' = r\<lparr>ar_checkpoint_id := ar_checkpoint_id r', ar_executed_at := ar_executed_at r'\<rparr>"
    using z(1) by blast
next
  fix r assume r: "get i db = Some r"
  then have "pinned i (run_ops approval_next db ops) = pinned i db"
    using assms by (intro pin.run_frozen) (simp_all add: pinned_def)
  then show "\<exists>r'. get i (run_ops approval_next db ops) = Some r' \<and> ar_items r' = ar_items r
      \<and> ar_card r' = ar_card r \<and> ar_caller r' = ar_caller r"
    using r by (auto simp: pinned_def)
qed

definition demo_row :: "string \<Rightarrow> approval_row" where
  "demo_row st = (new_row ((approval_request_of ''r1'' None ''destructive_tool'' ''delete 1 file'')
      \<lparr>rq_items := Some [item_of ''rm'' [(''path'', PStr ''x'')]]\<rparr>) ''a1'' 0)
     \<lparr>ar_status := st, ar_responded_at := (if st = ''pending'' then None else Some 5),
      ar_response_actor := (if st = ''pending'' then None else Some ''owner'')\<rparr>"

theorem decision_is_final_witness:
  "\<exists>r'. get ''a1'' (run_ops approval_next [demo_row ''rejected'']
       [Respond ''a1'' ''approved'' ''intruder'' 9, ExpireStale 1000000000]) = Some r'
     \<and> ar_status r' = ''rejected'' \<and> ar_response_actor r' = Some ''owner''"
proof -
  have ok: "approvals_ok [demo_row ''rejected'']"
    by (simp add: approvals_ok_def row_ok_def demo_row_def new_row_def)
  have g: "get ''a1'' [demo_row ''rejected''] = Some (demo_row ''rejected'') \<and> ar_status (demo_row ''rejected'') \<noteq> ''pending''"
    by (simp add: get_def demo_row_def new_row_def)
  from decision_is_final [OF ok, of "''a1''"] obtain r' where r':
    "get ''a1'' (run_ops approval_next [demo_row ''rejected'']
       [Respond ''a1'' ''approved'' ''intruder'' 9, ExpireStale 1000000000]) = Some r'"
    "r' = (demo_row ''rejected'')\<lparr>ar_checkpoint_id := ar_checkpoint_id r', ar_executed_at := ar_executed_at r'\<rparr>"
    using g by blast
  have "ar_status r' = ''rejected'' \<and> ar_response_actor r' = Some ''owner''"
    by (subst r'(2), simp add: demo_row_def, subst r'(2), simp add: demo_row_def)
  then show ?thesis using r'(1) by blast
qed

section \<open>An approved call runs at most once\<close>

definition won_claim :: "string \<Rightarrow> approval_reply \<Rightarrow> bool" where
  "won_claim i reply = (case reply of RClaim (Some r) \<Rightarrow> ar_approval_id r = i | _ \<Rightarrow> False)"

definition claimed :: "string \<Rightarrow> approvals_db \<Rightarrow> bool" where
  "claimed i db = (case get i db of None \<Rightarrow> False | Some r \<Rightarrow> ar_executed_at r \<noteq> None)"

lemma claim_count:
  assumes "approvals_ok db"
  shows "count_where (claimable i) db =
           (case get i db of None \<Rightarrow> 0
            | Some r \<Rightarrow> if ar_status r = ''approved'' \<and> ar_executed_at r = None then 1 else 0)"
proof -
  have "claimable i = (\<lambda>r. ar_approval_id r = i \<and> (ar_status r = ''approved'' \<and> ar_executed_at r = None))"
    by (simp add: fun_eq_iff claimable_def)
  then show ?thesis
    using assms filter_key_distinct [of ar_approval_id db i "\<lambda>r. ar_status r = ''approved'' \<and> ar_executed_at r = None"]
    by (simp add: approvals_ok_def count_where_def get_def)
qed

lemma claim_result:
  assumes "approvals_ok db" and "won_claim i (snd (approval_step db a))"
  shows "\<exists>now r. a = ClaimExecution i now \<and> get i db = Some r \<and> ar_status r = ''approved''
           \<and> ar_executed_at r = None \<and> get i (approval_next db a) = Some (r\<lparr>ar_executed_at := Some now\<rparr>)"
proof -
  have "\<exists>j now. a = ClaimExecution j now"
    using assms(2) by (cases a) (simp_all add: won_claim_def split_beta)
  then obtain j now where a: "a = ClaimExecution j now" by blast
  obtain r where won: "fst (claim_execution j now db) = Some r" "ar_approval_id r = i"
    using assms(2) by (cases "fst (claim_execution j now db)") (simp_all add: a won_claim_def split_beta)
  have "get j (approval_next db a) = Some r"
    using won(1) by (simp add: a approval_next_def claim_execution_def Let_def split: if_splits)
  then have j: "j = i" using won(2) by (auto simp: get_def dest: lookup_by_SomeD)
  have "count_where (claimable i) db = 1"
    using won(1) by (simp add: claim_execution_def Let_def j split: if_splits)
  then have one: "(case get i db of None \<Rightarrow> 0
      | Some r \<Rightarrow> if ar_status r = ''approved'' \<and> ar_executed_at r = None then 1 else 0) = (1::nat)"
    unfolding claim_count [OF assms(1)] .
  obtain q where q: "get i db = Some q" "ar_status q = ''approved''" "ar_executed_at q = None"
  proof (cases "get i db")
    case None
    then show ?thesis using one by simp
  next
    case (Some q)
    then show ?thesis using one that [of q]
      by (cases "ar_status q = ''approved'' \<and> ar_executed_at q = None") simp_all
  qed
  have "ar_approval_id q = i" using q(1) by (auto simp: get_def dest: lookup_by_SomeD)
  then show ?thesis using q by (simp add: a j get_next claimable_def)
qed

lemma claimed_stays: "claimed i db \<Longrightarrow> claimed i (approval_next db a)"
  by (cases a) (auto simp: claimed_def get_next split: option.splits)

interpretation claim: single_use approval_step approvals_ok "won_claim i" "claimed i" for i
proof (unfold_locales, goal_cases)
  case (1 s a)
  then show ?case using approval_next_ok [of s a] by (simp add: approval_next_def)
next
  case (2 s a)
  obtain now r where "get i s = Some r" "ar_executed_at r = None"
    "get i (approval_next s a) = Some (r\<lparr>ar_executed_at := Some now\<rparr>)"
    using claim_result [OF 2] by blast
  then show ?case by (simp add: claimed_def approval_next_def)
next
  case (3 s a)
  then show ?case using claimed_stays [of i s a] by (simp add: approval_next_def)
qed

text \<open>C17. An approved call runs at most once. Over any interleaving of answers, claims, sweeps and new
  approvals, from any well-formed queue, at most one claim of an approval is won; and a claim is won only
  on a row that is approved and not claimed before, so a pending, rejected or lapsed approval never
  releases its call.\<close>

theorem claim_won_at_most_once:
  assumes "approvals_ok db"
  shows "length (filter (won_claim i) (outcomes approval_step db ops)) \<le> 1
       \<and> (\<forall>a. won_claim i (snd (approval_step db a)) \<longrightarrow>
            (\<exists>r. get i db = Some r \<and> ar_status r = ''approved'' \<and> ar_executed_at r = None))"
  using claim.at_most_one_win [OF assms] claim_result [OF assms] by blast

theorem claim_won_at_most_once_witness:
  "length (filter (won_claim ''a1'') (outcomes approval_step [demo_row ''pending'']
     [Respond ''a1'' ''approved'' ''owner'' 5, ClaimExecution ''a1'' 6, ClaimExecution ''a1'' 7])) \<le> 1"
proof -
  have "approvals_ok [demo_row ''pending'']"
    by (simp add: approvals_ok_def row_ok_def demo_row_def new_row_def)
  then show ?thesis using claim_won_at_most_once by blast
qed

section \<open>Answers and lapses, branch by branch\<close>

lemma respond_count:
  assumes "approvals_ok db"
  shows "count_where (answerable i) db =
           (case get i db of None \<Rightarrow> 0 | Some r \<Rightarrow> if is_pending r then 1 else 0)"
proof -
  have "answerable i = (\<lambda>r. ar_approval_id r = i \<and> is_pending r)"
    by (simp add: fun_eq_iff answerable_def)
  then show ?thesis
    using assms filter_key_distinct [of ar_approval_id db i is_pending]
    by (simp add: approvals_ok_def count_where_def get_def)
qed

lemma get_update_answer:
  "get i (update_where (answerable i) (\<lambda>r. r\<lparr>ar_status := st, ar_responded_at := t, ar_response_actor := ac\<rparr>) db)
   = map_option (\<lambda>r. if answerable i r
       then r\<lparr>ar_status := st, ar_responded_at := t, ar_response_actor := ac\<rparr> else r) (get i db)"
  unfolding get_def by (rule lookup_by_update_where) simp

lemma get_id: "get i db = Some r \<Longrightarrow> ar_approval_id r = i"
  by (auto simp: get_def dest: lookup_by_SomeD)

text \<open>Answering, on every branch. An answer other than approved or rejected raises \<open>ValueError\<close>, an
  unknown id \<open>ApprovalNotFoundError\<close>, a row that is not pending \<open>ApprovalAlreadyAnsweredError\<close>, and in
  these cases the queue is unchanged; otherwise the row returned, and stored, is the pending row with
  the answer, its time and its actor, and every other row is untouched.\<close>

theorem respond_branches:
  assumes "approvals_ok db"
  shows "if st \<notin> {''approved'', ''rejected''}
         then (\<exists>m. respond i st actor now db = (Raise ''ValueError'' m, db))
         else case get i db of
                None \<Rightarrow> respond i st actor now db = (Raise ''ApprovalNotFoundError'' i, db)
              | Some r \<Rightarrow>
                  if ar_status r \<noteq> ''pending''
                  then (\<exists>m. respond i st actor now db = (Raise ''ApprovalAlreadyAnsweredError'' m, db))
                  else (\<exists>db'. respond i st actor now db =
                           (Inr (r\<lparr>ar_status := st, ar_responded_at := Some now, ar_response_actor := Some actor\<rparr>), db')
                         \<and> get i db' = Some (r\<lparr>ar_status := st, ar_responded_at := Some now,
                                                ar_response_actor := Some actor\<rparr>)
                         \<and> (\<forall>j. j \<noteq> i \<longrightarrow> get j db' = get j db))"
proof (cases "st \<in> {''approved'', ''rejected''}")
  case False
  then show ?thesis by (simp add: respond_def)
next
  case st: True
  let ?f = "\<lambda>r. r\<lparr>ar_status := st, ar_responded_at := Some now, ar_response_actor := Some actor\<rparr>"
  let ?db = "update_where (answerable i) ?f db"
  have same: "?db = db" if "\<forall>r. get i db = Some r \<longrightarrow> \<not> is_pending r"
  proof (rule update_where_no_match)
    fix r assume r: "r \<in> set db"
    show "\<not> answerable i r"
      using that lookup_by_distinct [of ar_approval_id db r] assms r
      by (auto simp: answerable_def get_def approvals_ok_def)
  qed
  have other: "get j ?db = get j db" if "j \<noteq> i" for j
    using that unfolding get_def by (induction db) (auto simp: answerable_def)
  show ?thesis
  proof (cases "get i db")
    case None
    then show ?thesis using st same by (simp add: respond_def Let_def get_update_answer)
  next
    case (Some r)
    show ?thesis
    proof (cases "is_pending r")
      case True
      then show ?thesis
        using st Some other get_id [OF Some] respond_count [OF assms, of i]
        by (simp add: respond_def Let_def get_update_answer answerable_def is_pending_def)
    next
      case False
      then show ?thesis
        using st Some same respond_count [OF assms, of i]
        by (simp add: respond_def Let_def get_update_answer is_pending_def)
    qed
  qed
qed

theorem respond_branches_witness:
  "\<exists>m. respond ''a1'' ''approved'' ''intruder'' 9 [demo_row ''rejected'']
     = (Raise ''ApprovalAlreadyAnsweredError'' m, [demo_row ''rejected''])"
proof -
  have ok: "approvals_ok [demo_row ''rejected'']" and g: "get ''a1'' [demo_row ''rejected''] = Some (demo_row ''rejected'')"
    and st: "ar_status (demo_row ''rejected'') = ''rejected''"
    by (simp_all add: approvals_ok_def row_ok_def demo_row_def new_row_def get_def)
  show ?thesis
    using respond_branches [OF ok, of "''approved''" "''a1''" "''intruder''" 9] by (simp add: g st)
qed

text \<open>The sweep, run to its end, times out exactly the overdue pending rows: it returns each of them
  once, in the order they were requested and with the new status, leaves every other row as it was, and
  a second sweep at that time returns nothing and changes nothing.\<close>

theorem sweep_expires_exactly_overdue:
  "mset (fst (expire_stale now db)) =
     {#r\<lparr>ar_status := ''timed_out''\<rparr>. r \<in># filter_mset (\<lambda>r. ar_status r = ''pending'' \<and> ar_timeout_at r \<le> now) (mset db)#}
   \<and> sorted (map ar_requested_at (fst (expire_stale now db)))
   \<and> snd (expire_stale now db) =
       map (\<lambda>r. if ar_status r = ''pending'' \<and> ar_timeout_at r \<le> now
                then r\<lparr>ar_status := ''timed_out''\<rparr> else r) db
   \<and> expire_stale now (snd (expire_stale now db)) = ([], snd (expire_stale now db))"
proof -
  let ?t = "\<lambda>r. r\<lparr>ar_status := ''timed_out''\<rparr>"
  have rows: "fst (expire_stale now db) = map ?t (expire_select now db)"
    by (simp add: expire_stale_def expire_finish_def)
  have upd: "snd (expire_stale now db) = expire_update now db"
    using update_where_no_match [of db "overdue now" ?t] expire_select_empty [of now db]
    by (auto simp: expire_stale_def expire_finish_def expire_update_def)
  have none: "expire_select now (expire_update now db) = []"
    unfolding expire_select_empty
    by (auto simp: expire_update_def set_update_where overdue_def is_pending_def)
  have ov: "overdue now = (\<lambda>r. ar_status r = ''pending'' \<and> ar_timeout_at r \<le> now)"
    by (simp add: fun_eq_iff overdue_def is_pending_def)
  have "map ar_requested_at (map ?t (expire_select now db)) = map ar_requested_at (expire_select now db)"
    by (simp add: comp_def)
  then have "sorted (map ar_requested_at (fst (expire_stale now db)))"
    unfolding rows by (simp add: expire_select_def del: map_map)
  moreover have "mset (fst (expire_stale now db)) = {#?t r. r \<in># filter_mset (overdue now) (mset db)#}"
    by (simp add: rows expire_select_def)
  moreover have "snd (expire_stale now db) = map (\<lambda>r. if overdue now r then ?t r else r) db"
    by (simp add: upd expire_update_def update_where_def)
  moreover have "expire_stale now (snd (expire_stale now db)) = ([], snd (expire_stale now db))"
    unfolding upd by (simp add: expire_stale_def expire_finish_def none)
  ultimately show ?thesis by (simp only: ov)
qed

text \<open>Two sweeps, or a sweep and an answer, can race. The \<open>SELECT\<close> of a sweep runs before its
  \<open>UPDATE\<close> opens a transaction, so another connection can commit in between: two racing sweeps both
  return the lapsed row, and a row the owner approves between the two statements is returned as timed
  out while the queue keeps it approved.\<close>

theorem sweep_race:
  "\<exists>now db. approvals_ok db
     \<and> (let due = expire_select now db;
            (out1, db1) = expire_finish now due db;
            (out2, db2) = expire_finish now due db1
        in out1 \<noteq> [] \<and> out2 = out1)
     \<and> (let due = expire_select now db;
            (r, db1) = respond ''a1'' ''approved'' ''owner'' now db;
            (out, db2) = expire_finish now due db1
        in map ar_status out = [''timed_out''] \<and> map ar_approval_id out = [''a1'']
           \<and> map_option ar_status (get ''a1'' db2) = Some ''approved'')"
proof (intro exI [of _ "minutes 10"] exI [of _ "[demo_row ''pending'']"] conjI)
  show "approvals_ok [demo_row ''pending'']"
    by (simp add: approvals_ok_def row_ok_def demo_row_def new_row_def)
qed (simp_all add: expire_select_def expire_finish_def expire_update_def overdue_def is_pending_def
      demo_row_def new_row_def minutes_def approval_request_of_def respond_def get_def answerable_def
      count_where_def)

section \<open>What is pinned survives storage\<close>

lemma those_map_Some: "(\<And>x. x \<in> set xs \<Longrightarrow> f x = Some (g x)) \<Longrightarrow> those (map f xs) = Some (map g xs)"
  by (induction xs) auto

text \<open>A card as the approval hook builds them.\<close>

definition card_ok :: "approval_card \<Rightarrow> bool" where
  "card_ok c \<longleftrightarrow> ac_undo_tool c \<noteq> Some [] \<and> ac_asked c \<noteq> Some [] \<and> ac_undo_window_days c \<noteq> Some 0
     \<and> ac_effect c \<in> {''write'', ''destructive''}"

text \<open>What the owner sees and what is pinned survive storage. The items of an approval are read back
  exactly as written, an item list that does not decode authorises nothing, and a card is read back as
  written, up to the empty texts and the zero window that mean the same as none.\<close>

theorem pinned_call_roundtrip:
  assumes "card_ok c"
  shows "items_from_json (items_to_json items) = items
       \<and> card_from_json (card_to_json (Some c)) = Inr (Some c)
       \<and> card_from_json (card_to_json None) = Inr None
       \<and> (\<forall>raw. raw \<noteq> None \<longrightarrow> items_from_json raw \<noteq> None)"
proof (intro conjI)
  show "items_from_json (items_to_json items) = items"
  proof (cases items)
    case (Some xs)
    let ?enc = "\<lambda>i. PDict [(''tool'', PStr (ai_tool i)), (''args_json'', PStr (ai_args_json i))]"
    have "item_from_json (?enc i) = Some i" for i :: approval_item
      by (simp add: item_from_json_def dict_simps py_str_def)
    then have "those (map item_from_json (map ?enc xs)) = Some (map (\<lambda>i. i) xs)"
      unfolding map_map by (intro those_map_Some) simp
    then show ?thesis using Some by (simp add: items_from_json_def items_to_json_def)
  qed (simp add: items_from_json_def items_to_json_def)
  have lines: "py_iter_or_empty (PList (map PStr ls)) = Some (map PStr ls)" for ls
    by (auto simp: py_iter_or_empty_def)
  have str: "map py_str (map PStr ls) = ls" for ls
    by (induction ls) (auto simp: py_str_def)
  obtain t l u w a e where c: "c = \<lparr>ac_title = t, ac_lines = l, ac_undo_tool = u, ac_undo_window_days = w,
      ac_asked = a, ac_effect = e\<rparr>" by (cases c)
  show "card_from_json (card_to_json (Some c)) = Inr (Some c)"
    using assms str [of l]
    by (cases u; cases w; cases a)
      (auto simp: c card_ok_def card_from_json_def card_to_json_def card_to_dict_def dict_simps lines
        truthy_text_def py_str_def py_int_def)
qed (auto simp: card_from_json_def card_to_json_def items_from_json_def split: pyval.splits option.splits)

theorem pinned_call_roundtrip_witness:
  "card_from_json (card_to_json (Some \<lparr>ac_title = ''delete'', ac_lines = [''x''], ac_undo_tool = Some ''undelete'',
      ac_undo_window_days = Some 30, ac_asked = None, ac_effect = ''destructive''\<rparr>))
   = Inr (Some \<lparr>ac_title = ''delete'', ac_lines = [''x''], ac_undo_tool = Some ''undelete'',
      ac_undo_window_days = Some 30, ac_asked = None, ac_effect = ''destructive''\<rparr>)"
  using pinned_call_roundtrip [of "\<lparr>ac_title = ''delete'', ac_lines = [''x''], ac_undo_tool = Some ''undelete'',
      ac_undo_window_days = Some 30, ac_asked = None, ac_effect = ''destructive''\<rparr>"]
  by (simp add: card_ok_def)

end
