(* ===== verification/Approvals_Service.thy ===== *)
theory Approvals_Service
  imports Approvals
begin

text \<open>
  The approval queue with its audit rows (\<open>approvals/queue.py\<close>), the polling gate
  (\<open>approvals/gate.py\<close>) and the one service every channel answers through (\<open>approvals/service.py\<close>).

  The state is the queue's table and the audit log's state \<open>'s\<close>; the audit log, like everywhere, is a
  state transformer that returns a row id or raises. The runtime's two protocols (who resumes a run, who
  runs an approved call) are arguments, as they are in the code.
\<close>

section \<open>The audited queue\<close>

definition with_call_id :: "dict \<Rightarrow> string option \<Rightarrow> dict" where
  "with_call_id payload call_id =
     (if truthy_str call_id then dset ''call_id'' (opt_str call_id) payload else payload)"

definition queue_entry :: "string \<Rightarrow> string \<Rightarrow> string \<Rightarrow> string \<Rightarrow> dict \<Rightarrow> audit_entry" where
  "queue_entry run_id dec sev reason payload =
     \<lparr>ae_run_id = run_id, ae_step_id = None, ae_agent_type = ''approvals'',
      ae_hook_point = ''approval_queue'', ae_plugin = ''ApprovalQueue'', ae_decision = dec,
      ae_severity = sev, ae_reason = reason, ae_classification = None, ae_tier = None,
      ae_payload = payload\<rparr>"

definition q_record :: "'s audit_sink option \<Rightarrow> audit_entry \<Rightarrow> 's \<Rightarrow> unit result \<times> 's" where
  "q_record sink e s =
     (case sink of
        None \<Rightarrow> (Inr (), s)
      | Some record \<Rightarrow> (case record e s of (Inl x, s') \<Rightarrow> (Inl x, s') | (Inr _, s') \<Rightarrow> (Inr (), s')))"

type_synonym 's queue_world = "approvals_db \<times> 's"

definition enqueue_entry :: "approval_request \<Rightarrow> string \<Rightarrow> audit_entry" where
  "enqueue_entry rq approval_id =
     queue_entry (rq_run_id rq) ''require_approval'' ''warn''
       (''approval enqueued: signal='' @ rq_signal rq @ '' channel='' @ rq_channel rq)
       (with_call_id [(''approval_id'', PStr approval_id), (''signal'', PStr (rq_signal rq)),
          (''channel'', PStr (rq_channel rq))] (rq_call_id rq))"

definition q_enqueue ::
  "'s audit_sink option \<Rightarrow> approval_request \<Rightarrow> string \<Rightarrow> timestamp \<Rightarrow> 's queue_world
    \<Rightarrow> string result \<times> 's queue_world"
where
  "q_enqueue sink rq fresh now w =
     (case enqueue rq fresh now (fst w) of
        (Inl e, db') \<Rightarrow> (Inl e, db', snd w)
      | (Inr approval_id, db') \<Rightarrow>
          (case q_record sink (enqueue_entry rq approval_id) (snd w) of
             (Inl e, s') \<Rightarrow> (Inl e, db', s')
           | (Inr _, s') \<Rightarrow> (Inr approval_id, db', s')))"

definition respond_entry :: "approval_row \<Rightarrow> string \<Rightarrow> string \<Rightarrow> string \<Rightarrow> audit_entry" where
  "respond_entry row approval_id status actor =
     queue_entry (ar_run_id row) status ''info'' (''approval '' @ status @ '' by '' @ actor)
       (with_call_id [(''approval_id'', PStr approval_id), (''actor'', PStr actor)] (ar_call_id row))"

definition q_respond ::
  "'s audit_sink option \<Rightarrow> string \<Rightarrow> string \<Rightarrow> string \<Rightarrow> timestamp \<Rightarrow> 's queue_world
    \<Rightarrow> approval_row result \<times> 's queue_world"
where
  "q_respond sink approval_id status actor now w =
     (case respond approval_id status actor now (fst w) of
        (Inl e, db') \<Rightarrow> (Inl e, db', snd w)
      | (Inr row, db') \<Rightarrow>
          (case q_record sink (respond_entry row approval_id status actor) (snd w) of
             (Inl e, s') \<Rightarrow> (Inl e, db', s')
           | (Inr _, s') \<Rightarrow> (Inr row, db', s')))"

definition claim_entry :: "approval_row \<Rightarrow> string \<Rightarrow> audit_entry" where
  "claim_entry row approval_id =
     queue_entry (ar_run_id row) ''claimed'' ''info''
       (''approved call claimed to run for '' @ fmt_opt (ar_caller row))
       (with_call_id [(''approval_id'', PStr approval_id), (''caller'', opt_str (ar_caller row))]
          (ar_call_id row))"

definition q_claim_execution ::
  "'s audit_sink option \<Rightarrow> string \<Rightarrow> timestamp \<Rightarrow> 's queue_world
    \<Rightarrow> approval_row option result \<times> 's queue_world"
where
  "q_claim_execution sink approval_id now w =
     (case claim_execution approval_id now (fst w) of
        (None, db') \<Rightarrow> (Inr None, db', snd w)
      | (Some row, db') \<Rightarrow>
          (case q_record sink (claim_entry row approval_id) (snd w) of
             (Inl e, s') \<Rightarrow> (Inl e, db', s')
           | (Inr _, s') \<Rightarrow> (Inr (Some row), db', s')))"

definition call_outcome_entry :: "approval_row \<Rightarrow> string \<Rightarrow> string \<Rightarrow> audit_entry" where
  "call_outcome_entry row status summary =
     (let tool = first_tool row in
      queue_entry (ar_run_id row) (''call_'' @ status) (if status = ''ran'' then ''info'' else ''warn'')
        (''approved call '' @ status @ '': '' @ fmt_opt tool @ '' for '' @ fmt_opt (ar_caller row))
        (with_call_id [(''approval_id'', PStr (ar_approval_id row)), (''caller'', opt_str (ar_caller row)),
           (''tool'', opt_str tool), (''status'', PStr status), (''summary'', PStr summary)]
           (ar_call_id row)))"

definition record_call_outcome ::
  "'s audit_sink option \<Rightarrow> approval_row \<Rightarrow> string \<Rightarrow> string \<Rightarrow> 's queue_world \<Rightarrow> unit result \<times> 's queue_world"
where
  "record_call_outcome sink row status summary w =
     (case q_record sink (call_outcome_entry row status summary) (snd w) of (r, s') \<Rightarrow> (r, fst w, s'))"

definition lapse_entry :: "approval_row \<Rightarrow> audit_entry" where
  "lapse_entry row =
     queue_entry (ar_run_id row) ''timed_out'' ''warn''
       (''approval timed out unanswered after '' @ iso19 (ar_timeout_at row)
        @ '' (signal='' @ ar_signal row @ '', policy='' @ ar_policy_on_timeout row @ '')'')
       (with_call_id [(''approval_id'', PStr (ar_approval_id row)), (''signal'', PStr (ar_signal row)),
          (''channel'', PStr (ar_channel row)), (''policy_on_timeout'', PStr (ar_policy_on_timeout row))]
          (ar_call_id row))"

fun record_all :: "'s audit_sink option \<Rightarrow> audit_entry list \<Rightarrow> 's \<Rightarrow> unit result \<times> 's" where
  "record_all sink [] s = (Inr (), s)"
| "record_all sink (e # es) s =
     (case q_record sink e s of (Inl x, s') \<Rightarrow> (Inl x, s') | (Inr _, s') \<Rightarrow> record_all sink es s')"

definition q_expire_stale ::
  "'s audit_sink option \<Rightarrow> timestamp \<Rightarrow> 's queue_world \<Rightarrow> approval_row list result \<times> 's queue_world"
where
  "q_expire_stale sink now w =
     (let (rows, db') = expire_stale now (fst w);
          (r, s') = record_all sink (map lapse_entry rows) (snd w)
      in (case r of Inl e \<Rightarrow> Inl e | Inr _ \<Rightarrow> Inr rows, db', s'))"

section \<open>The polling gate\<close>

text \<open>Read \<open>n\<close> of the row and of the clock are \<open>store n\<close> and \<open>clock n\<close>; fuel bounds the polls.\<close>

fun poll ::
  "nat \<Rightarrow> (nat \<Rightarrow> approval_row option) \<Rightarrow> (nat \<Rightarrow> timestamp) \<Rightarrow> timestamp \<Rightarrow> string \<Rightarrow> nat
    \<Rightarrow> approval_row result option"
where
  "poll 0 store clock deadline approval_id n = None"
| "poll (Suc fuel) store clock deadline approval_id n =
     (case store n of
        None \<Rightarrow> Some (Raise ''ApprovalNotFoundError'' approval_id)
      | Some row \<Rightarrow>
          if ar_status row = ''approved'' then Some (Inr row)
          else if ar_status row = ''rejected'' then
            Some (Raise ''ApprovalRejectedError'' (''approval '' @ repr_str approval_id
              @ '' was rejected (run='' @ ar_run_id row @ '')''))
          else if ar_status row = ''timed_out'' \<or> clock n \<ge> deadline then
            Some (Raise ''ApprovalTimedOutError'' (''approval '' @ repr_str approval_id
              @ '' timed out (run='' @ ar_run_id row @ '')''))
          else poll fuel store clock deadline approval_id (Suc n))"

definition await_approval ::
  "nat \<Rightarrow> (nat \<Rightarrow> approval_row option) \<Rightarrow> (nat \<Rightarrow> timestamp) \<Rightarrow> string \<Rightarrow> int option
    \<Rightarrow> approval_row result option"
where
  "await_approval fuel store clock approval_id timeout =
     (case store 0 of
        None \<Rightarrow> Some (Raise ''ApprovalNotFoundError'' approval_id)
      | Some row \<Rightarrow>
          poll fuel store clock
            (case timeout of None \<Rightarrow> ar_timeout_at row | Some t \<Rightarrow> min (ar_timeout_at row) (clock 0 + t))
            approval_id 1)"

section \<open>Answering\<close>

record resumed_run =
  rr_answer :: string
  rr_session_id :: "string option"

record approved_call_result =
  acr_status :: string
  acr_summary :: string

type_synonym 'w run_resumer = "string \<Rightarrow> int \<Rightarrow> string \<Rightarrow> 'w \<Rightarrow> resumed_run result \<times> 'w"

record 'w executor =
  ex_execute_approved_call :: "approval_row \<Rightarrow> 'w \<Rightarrow> approved_call_result result \<times> 'w"
  ex_settle_unrun_call :: "approval_row \<Rightarrow> string \<Rightarrow> 'w \<Rightarrow> approved_call_result result \<times> 'w"

definition notice :: "approved_call_result \<Rightarrow> string \<Rightarrow> string" where
  "notice r tool =
     (let st = acr_status r;
          head = (if st = ''ran'' then ''The approved call to '' @ tool @ '' ran.''
                  else if st = ''failed'' then ''The approved call to '' @ tool @ '' ran and failed.''
                  else if st = ''denied'' then ''The approved call to '' @ tool @ '' was refused when it came to run.''
                  else if st = ''rejected'' then ''The call to '' @ tool @ '' was rejected; nothing was run.''
                  else if st = ''expired'' then ''The approval for '' @ tool @ '' expired; nothing was run.''
                  else ''The call to '' @ tool @ '': '' @ st @ ''.'')
      in if acr_summary r \<noteq> [] then head @ replicate 2 (char_of (10::nat)) @ acr_summary r else head)"

record approval_outcome =
  ao_row :: approval_row
  ao_resumed :: bool
  ao_detail :: string
  ao_executed :: bool

definition outcome_of :: "approval_row \<Rightarrow> bool \<Rightarrow> string \<Rightarrow> approval_outcome" where
  "outcome_of row resumed detail =
     \<lparr>ao_row = row, ao_resumed = resumed, ao_detail = detail, ao_executed = False\<rparr>"

text \<open>\<open>s.rpartition(":")\<close>: the text before and after the last colon.\<close>

definition rpartition :: "char \<Rightarrow> string \<Rightarrow> string \<times> string" where
  "rpartition c s =
     (if c \<in> set s
      then (rev (tl (dropWhile (\<lambda>x. x \<noteq> c) (rev s))), rev (takeWhile (\<lambda>x. x \<noteq> c) (rev s)))
      else ([], s))"

definition parse_checkpoint_id :: "string option \<Rightarrow> (string \<times> int) option" where
  "parse_checkpoint_id checkpoint_id =
     (if \<not> truthy_str checkpoint_id then None
      else let (run_id, step) = rpartition (CHR '':'') (fmt_opt checkpoint_id)
           in if run_id = [] \<or> \<not> all_digits step then None
              else Some (run_id, int (digits_nat step)))"

definition tool_of :: "approval_row \<Rightarrow> string" where
  "tool_of row = (case first_tool row of Some t \<Rightarrow> t | None \<Rightarrow> [])"

definition settle_unrun ::
  "'s audit_sink option \<Rightarrow> approval_row \<Rightarrow> 's queue_world executor \<Rightarrow> string \<Rightarrow> 's queue_world
    \<Rightarrow> approved_call_result result \<times> 's queue_world"
where
  "settle_unrun sink row ex status w =
     (let (r, w1) = ex_settle_unrun_call ex row status w;
          result = (case r of Inr x \<Rightarrow> x | Inl _ \<Rightarrow> \<lparr>acr_status = status, acr_summary = []\<rparr>)
      in case record_call_outcome sink row status (acr_summary result) w1 of
           (Inl e, w2) \<Rightarrow> (Inl e, w2)
         | (Inr _, w2) \<Rightarrow> (Inr result, w2))"

definition settle_deferred_call ::
  "'s audit_sink option \<Rightarrow> approval_row \<Rightarrow> 's queue_world executor option \<Rightarrow> 's queue_world
    \<Rightarrow> approval_outcome result \<times> 's queue_world"
where
  "settle_deferred_call sink row executor w =
     (if ar_status row \<noteq> ''approved'' then
        (case executor of
           None \<Rightarrow>
             (case record_call_outcome sink row ''rejected'' ''Rejected, nothing was run.'' w of
                (Inl e, w1) \<Rightarrow> (Inl e, w1)
              | (Inr _, w1) \<Rightarrow> (Inr (outcome_of row False ''Rejected, nothing was run.''), w1))
         | Some ex \<Rightarrow>
             (case settle_unrun sink row ex ''rejected'' w of
                (Inl e, w1) \<Rightarrow> (Inl e, w1)
              | (Inr result, w1) \<Rightarrow>
                  (Inr (outcome_of row False (if acr_summary result \<noteq> [] then acr_summary result
                                              else ''Rejected, nothing was run.'')), w1)))
      else
        (case executor of
           None \<Rightarrow> (Inr (outcome_of row False ''Approved, but no runtime is here to run it.''), w)
         | Some ex \<Rightarrow>
             let (r, w1) = ex_execute_approved_call ex row w;
                 result = (case r of
                             Inr x \<Rightarrow> x
                           | Inl exc \<Rightarrow> \<lparr>acr_status = ''failed'',
                                          acr_summary = ''It could not be run: '' @ exn_msg exc\<rparr>)
             in case record_call_outcome sink row (acr_status result) (acr_summary result) w1 of
                  (Inl e, w2) \<Rightarrow> (Inl e, w2)
                | (Inr _, w2) \<Rightarrow>
                    (Inr \<lparr>ao_row = (case get (ar_approval_id row) (fst w2) of Some x \<Rightarrow> x | None \<Rightarrow> row),
                          ao_resumed = False,
                          ao_detail = ''Approved. '' @ notice result (tool_of row),
                          ao_executed = (acr_status result \<in> {''ran'', ''failed''})\<rparr>, w2)))"

text \<open>The drift-exemption lesson of an answered \<open>goal_drift\<close> approval is best effort: an effect on the
  world that cannot fail the answer.\<close>

definition answer_approval ::
  "'s audit_sink option \<Rightarrow> (string \<Rightarrow> bool \<Rightarrow> 's \<Rightarrow> 's) \<Rightarrow> string \<Rightarrow> string \<Rightarrow> string \<Rightarrow> timestamp
    \<Rightarrow> 's queue_world run_resumer option \<Rightarrow> 's queue_world executor option \<Rightarrow> 's queue_world
    \<Rightarrow> approval_outcome result \<times> 's queue_world"
where
  "answer_approval sink settle_drift approval_id status actor now resumer executor w =
     (case q_respond sink approval_id status actor now w of
        (Inl e, w1) \<Rightarrow> (Inl e, w1)
      | (Inr row, w1) \<Rightarrow>
          if is_deferred_call row then settle_deferred_call sink row executor w1
          else
            let w2 = (if ar_signal row \<noteq> ''goal_drift'' then w1
                      else (fst w1, settle_drift (ar_run_id row) (ar_status row = ''approved'') (snd w1)))
            in if ar_status row \<noteq> ''approved'' \<and> ar_items row = None then
                 (Inr (outcome_of row False ''Rejected -- the run stays halted.''), w2)
               else
                 let verb = (if ar_status row = ''approved'' then ''Approved'' else ''Rejected, nothing was changed'')
                 in case parse_checkpoint_id (ar_checkpoint_id row) of
                      None \<Rightarrow>
                        (Inr (outcome_of row False (verb @ ''. No checkpoint is linked to this approval, so ''
                           @ ''there is nothing to continue automatically.'')), w2)
                    | Some (run_id, step_id) \<Rightarrow>
                        (case resumer of
                           None \<Rightarrow>
                             (Inr (outcome_of row False (verb @ ''. Run '' @ run_id @ '' is resumable from step ''
                                @ show_int step_id @ '', but no runtime is available here to continue it.'')), w2)
                         | Some resume \<Rightarrow>
                             (case resume run_id step_id
                                     (if ar_channel row = [] then ''console'' else ar_channel row) w2 of
                                (Inl exc, w3) \<Rightarrow>
                                  (Inr (outcome_of row False
                                     (verb @ '', but the run could not be continued: '' @ exn_msg exc)), w3)
                              | (Inr resumed, w3) \<Rightarrow> (Inr (outcome_of row True (rr_answer resumed)), w3))))"

definition respond_to_approval ::
  "'s audit_sink option \<Rightarrow> (string \<Rightarrow> bool \<Rightarrow> 's \<Rightarrow> 's) \<Rightarrow> string \<Rightarrow> string \<Rightarrow> string \<Rightarrow> timestamp
    \<Rightarrow> 's queue_world run_resumer option \<Rightarrow> 's queue_world executor option \<Rightarrow> 's queue_world
    \<Rightarrow> approval_outcome result \<times> 's queue_world"
where
  "respond_to_approval sink settle_drift approval_id status actor now resumer executor w =
     (case get approval_id (fst w) of
        Some existing \<Rightarrow>
          if is_deferred_call existing \<and> ar_status existing = ''pending'' \<and> status = ''approved''
             \<and> executor = None
          then (Inr (outcome_of existing False
                  (''Not approved yet: this approval runs a call, and no runtime is available ''
                   @ ''here to run it. It is still waiting; answer it where Evarness is running.'')), w)
          else answer_approval sink settle_drift approval_id status actor now resumer executor w
      | None \<Rightarrow> answer_approval sink settle_drift approval_id status actor now resumer executor w)"

section \<open>The lapse sweep\<close>

definition lapse_notice :: "approval_row \<Rightarrow> string" where
  "lapse_notice a =
     (let nl = [char_of (10::nat)] in
      if is_deferred_call a then
        ''The approval I was waiting on has expired, so '' @ lapse_consequence a
        @ ''. Nothing was changed.'' @ nl @ nl
        @ ''What it was for: '' @ ar_context_summary a @ nl
        @ ''No answer arrived before '' @ iso19 (ar_timeout_at a) @ '' UTC.'' @ nl @ nl
        @ ''Ask again if you still want it done.''
      else
        ''The approval I was waiting on has expired, so run '' @ ar_run_id a @ '' is ''
        @ ''still stopped where it was.'' @ nl @ nl
        @ ''Why it stopped: '' @ ar_context_summary a @ nl
        @ ''No answer arrived before '' @ iso19 (ar_timeout_at a) @ '' UTC ''
        @ ''(policy: '' @ ar_policy_on_timeout a @ ''), so nothing further has run.'' @ nl @ nl
        @ ''Tell me how you'd like to proceed and I'll start from there.'')"

type_synonym 'w row_notifier = "approval_row \<Rightarrow> 'w \<Rightarrow> unit result \<times> 'w"
type_synonym 'w lapse_notifier = "string option \<Rightarrow> string \<Rightarrow> string \<Rightarrow> 'w \<Rightarrow> unit result \<times> 'w"

text \<open>A notifier may raise; the sweep goes on.\<close>

definition announce ::
  "'w row_notifier option \<Rightarrow> approval_row \<Rightarrow> 'w \<Rightarrow> 'w"
where
  "announce notify row w = (case notify of None \<Rightarrow> w | Some f \<Rightarrow> snd (f row w))"

fun sweep_rows ::
  "'s audit_sink option \<Rightarrow> 's queue_world row_notifier option \<Rightarrow> 's queue_world lapse_notifier option
    \<Rightarrow> 's queue_world executor option \<Rightarrow> approval_row list \<Rightarrow> 's queue_world \<Rightarrow> unit result \<times> 's queue_world"
where
  "sweep_rows sink notify_timeout notifier executor [] w = (Inr (), w)"
| "sweep_rows sink notify_timeout notifier executor (row # rows) w =
     (let w1 = announce notify_timeout row w in
      case (if is_deferred_call row then executor else None) of
        Some ex \<Rightarrow>
          (case settle_unrun sink row ex ''expired'' w1 of
             (Inl e, w2) \<Rightarrow> (Inl e, w2)
           | (Inr _, w2) \<Rightarrow> sweep_rows sink notify_timeout notifier executor rows w2)
      | None \<Rightarrow>
          sweep_rows sink notify_timeout notifier executor rows
            (announce (map_option (\<lambda>f row. f (ar_session_id row)
               (if ar_channel row = [] then ''console'' else ar_channel row) (lapse_notice row)) notifier)
               row w1))"

definition sweep_expired ::
  "'s audit_sink option \<Rightarrow> 's queue_world row_notifier option \<Rightarrow> 's queue_world lapse_notifier option
    \<Rightarrow> 's queue_world executor option \<Rightarrow> timestamp \<Rightarrow> 's queue_world
    \<Rightarrow> approval_row list result \<times> 's queue_world"
where
  "sweep_expired sink notify_timeout notifier executor now w =
     (case q_expire_stale sink now w of
        (Inl e, w1) \<Rightarrow> (Inl e, w1)
      | (Inr rows, w1) \<Rightarrow>
          (case sweep_rows sink notify_timeout notifier executor rows w1 of
             (Inl e, w2) \<Rightarrow> (Inl e, w2)
           | (Inr _, w2) \<Rightarrow> (Inr rows, w2)))"

section \<open>Polling ends\<close>

lemma poll_ends:
  assumes "\<And>n. clock n < clock (Suc n)" and "nat (deadline - clock n) < fuel"
  shows "\<exists>v. poll fuel store clock deadline approval_id n = Some v"
  using assms(2)
proof (induction fuel arbitrary: n)
  case 0
  then show ?case by simp
next
  case (Suc fuel)
  show ?case
  proof (cases "clock n \<ge> deadline")
    case True
    then show ?thesis by (simp split: option.splits)
  next
    case False
    then have "nat (deadline - clock (Suc n)) < fuel" using Suc.prems assms(1) [of n] by linarith
    then show ?thesis using Suc.IH [of "Suc n"] by (auto split: option.splits)
  qed
qed

lemma poll_sound:
  "poll fuel store clock deadline approval_id n = Some (Inr row) \<Longrightarrow>
   ar_status row = ''approved'' \<and> (\<exists>m. store m = Some row)"
  by (induction fuel arbitrary: n) (auto split: option.splits if_splits)

text \<open>C19. Waiting for an answer always ends, and only an approval lets the run go on. Whatever the
  queue answers to each read, as long as the clock advances between polls, the wait returns or raises
  within a number of polls bounded by the time to the deadline; a row it returns was read from the queue
  as approved.\<close>

theorem await_approval_ends:
  assumes "\<And>n. clock n < clock (Suc n)"
    and "\<And>r. store 0 = Some r \<Longrightarrow> nat (ar_timeout_at r - clock 1) < fuel"
  shows "\<exists>v. await_approval fuel store clock approval_id timeout = Some v
           \<and> (\<forall>row. v = Inr row \<longrightarrow> ar_status row = ''approved'' \<and> (\<exists>m. store m = Some row))"
proof (cases "store 0")
  case None
  then show ?thesis by (simp add: await_approval_def)
next
  case (Some r)
  let ?d = "case timeout of None \<Rightarrow> ar_timeout_at r | Some t \<Rightarrow> min (ar_timeout_at r) (clock 0 + t)"
  have "?d \<le> ar_timeout_at r" by (simp split: option.splits)
  then have "nat (?d - clock 1) < fuel" using assms(2) [OF Some] by linarith
  then obtain v where "poll fuel store clock ?d approval_id 1 = Some v"
    using poll_ends [of clock, OF assms(1)] by blast
  then show ?thesis using poll_sound Some by (auto simp: await_approval_def)
qed

theorem await_approval_ends_witness:
  "\<exists>v. await_approval 1000000000 (\<lambda>_. Some (demo_row ''pending'')) (\<lambda>n. int n) ''a1'' None = Some v"
proof -
  have "\<exists>v. await_approval 1000000000 (\<lambda>_. Some (demo_row ''pending'')) (\<lambda>n. int n) ''a1'' None = Some v
      \<and> (\<forall>row. v = Inr row \<longrightarrow> ar_status row = ''approved'' \<and> (\<exists>m::nat. Some (demo_row ''pending'') = Some row))"
    by (rule await_approval_ends)
      (simp_all add: demo_row_def new_row_def minutes_def approval_request_of_def)
  then show ?thesis by blast
qed

section \<open>Checkpoint links\<close>

lemma all_digits_show_nat: "all_digits (show_nat n)"
proof (induction n rule: show_nat.induct)
  case (1 n)
  have d: "is_digit_char (char_of (48 + k))" if "k < 10" for k :: nat
    using that by (simp add: is_digit_char_def char_in_def)
  show ?case
    using 1 d [of n] d [of "n mod 10"]
    by (subst show_nat.simps) (auto simp: all_digits_def)
qed

lemma digits_nat_snoc: "digits_nat (s @ [c]) = 10 * digits_nat s + (of_char c - 48)"
  by (simp add: digits_nat_def)

lemma digits_nat_show_nat: "digits_nat (show_nat n) = n"
proof (induction n rule: show_nat.induct)
  case (1 n)
  have v: "of_char (char_of (48 + k) :: char) = 48 + k" if "k < 10" for k :: nat
    using that by simp
  show ?case
  proof (cases "n < 10")
    case True
    then show ?thesis using v [of n] by (subst show_nat.simps) (simp add: digits_nat_def)
  next
    case False
    then show ?thesis
      using 1 v [of "n mod 10"] by (subst show_nat.simps) (simp add: digits_nat_snoc)
  qed
qed

lemma rpartition_last: "c \<notin> set t \<Longrightarrow> rpartition c (s @ c # t) = (s, t)"
  by (simp add: rpartition_def takeWhile_append dropWhile_append)

text \<open>A checkpoint link names its checkpoint. The link the loop writes for a run and a step, the run
  id, a colon and the decimal step, is parsed back to exactly that run and step, whatever colons the run
  id holds; and every link that parses names a non-empty run.\<close>

theorem checkpoint_link_roundtrip:
  "parse_checkpoint_id (Some (run_id @ '':'' @ show_nat step)) =
     (if run_id = [] then None else Some (run_id, int step))
   \<and> (\<forall>link r n. parse_checkpoint_id link = Some (r, n) \<longrightarrow> r \<noteq> [] \<and> 0 \<le> n)"
proof
  have "CHR '':'' \<notin> set (show_nat step)"
    using all_digits_show_nat [of step]
    by (auto simp: all_digits_def list_all_iff is_digit_char_def char_in_def)
  then have "rpartition (CHR '':'') (run_id @ '':'' @ show_nat step) = (run_id, show_nat step)"
    using rpartition_last by simp
  then show "parse_checkpoint_id (Some (run_id @ '':'' @ show_nat step)) =
      (if run_id = [] then None else Some (run_id, int step))"
    by (simp add: parse_checkpoint_id_def truthy_str_def fmt_opt_def all_digits_show_nat digits_nat_show_nat)
  show "\<forall>link r n. parse_checkpoint_id link = Some (r, n) \<longrightarrow> r \<noteq> [] \<and> 0 \<le> n"
    by (auto simp: parse_checkpoint_id_def Let_def split: if_splits prod.splits)
qed

theorem checkpoint_link_roundtrip_witness:
  "parse_checkpoint_id (Some (''r:1'' @ '':'' @ show_nat 42)) = Some (''r:1'', 42)"
  using checkpoint_link_roundtrip [of "''r:1''" 42] by simp

section \<open>The answer comes first\<close>

text \<open>A step of the world that reaches the queue only through its own operations, whatever else it does.\<close>

definition via_queue :: "('s queue_world \<Rightarrow> 'r \<times> 's queue_world) \<Rightarrow> bool" where
  "via_queue f \<longleftrightarrow> (\<forall>w. \<exists>ops. fst (snd (f w)) = run_ops approval_next (fst w) ops)"

definition executor_via_queue :: "'s queue_world executor option \<Rightarrow> bool" where
  "executor_via_queue executor \<longleftrightarrow> (\<forall>ex row st. executor = Some ex \<longrightarrow>
     via_queue (ex_execute_approved_call ex row) \<and> via_queue (ex_settle_unrun_call ex row st))"

definition resumer_via_queue :: "'s queue_world run_resumer option \<Rightarrow> bool" where
  "resumer_via_queue resumer \<longleftrightarrow> (\<forall>f run step ch. resumer = Some f \<longrightarrow> via_queue (f run step ch))"

definition audit_never_raises :: "'s audit_sink option \<Rightarrow> bool" where
  "audit_never_raises sink \<longleftrightarrow> (\<forall>f e s. sink = Some f \<longrightarrow> (\<exists>i s'. f e s = (Inr i, s')))"

lemma q_record_ok:
  assumes "audit_never_raises sink"
  shows "\<exists>s'. q_record sink e s = (Inr (), s')"
proof (cases sink)
  case (Some f)
  then obtain i s' where "f e s = (Inr i, s')" using assms unfolding audit_never_raises_def by blast
  then show ?thesis using Some by (simp add: q_record_def)
qed (simp add: q_record_def)

lemma record_call_outcome_ok:
  assumes "audit_never_raises sink"
  shows "\<exists>s'. record_call_outcome sink row st summary w = (Inr (), fst w, s')"
proof -
  obtain s' where "q_record sink (call_outcome_entry row st summary) (snd w) = (Inr (), s')"
    using q_record_ok [OF assms] by blast
  then show ?thesis by (simp add: record_call_outcome_def)
qed

lemma q_respond_ok:
  assumes "audit_never_raises sink" and "approvals_ok (fst w)" and "get i (fst w) = Some r"
    and "ar_status r = ''pending''" and "st \<in> {''approved'', ''rejected''}"
  shows "\<exists>w1. q_respond sink i st actor now w =
             (Inr (r\<lparr>ar_status := st, ar_responded_at := Some now, ar_response_actor := Some actor\<rparr>), w1)
           \<and> approvals_ok (fst w1)
           \<and> get i (fst w1) = Some (r\<lparr>ar_status := st, ar_responded_at := Some now, ar_response_actor := Some actor\<rparr>)"
proof -
  let ?r = "r\<lparr>ar_status := st, ar_responded_at := Some now, ar_response_actor := Some actor\<rparr>"
  let ?db = "snd (respond i st actor now (fst w))"
  have ok: "approvals_ok ?db"
    using approval_next_ok [OF assms(2), of "Respond i st actor now"]
    by (simp add: approval_next_def split_beta)
  have "answerable i r" using get_id [OF assms(3)] assms(4) by (simp add: answerable_def is_pending_def)
  then have g: "get i ?db = Some ?r"
    using get_next [of i "fst w" "Respond i st actor now"] assms(3,5)
    by (simp add: approval_next_def split_beta)
  have fst: "fst (respond i st actor now (fst w)) = Inr ?r"
  proof -
    have "count_where (answerable i) (fst w) = 1"
      using respond_count [OF assms(2), of i] assms(3,4) by (simp add: is_pending_def)
    then show ?thesis
      using assms(3,5) \<open>answerable i r\<close> by (simp add: respond_def Let_def get_update_answer)
  qed
  obtain s' where "q_record sink (respond_entry ?r i st actor) (snd w) = (Inr (), s')"
    using q_record_ok [OF assms(1)] by blast
  then have "q_respond sink i st actor now w = (Inr ?r, ?db, s')"
    using fst by (simp add: q_respond_def split_beta)
  then show ?thesis using ok g by auto
qed

lemma answered_kept:
  assumes "approvals_ok db" and "get i db = Some r" and "ar_status r \<noteq> ''pending''"
  shows "\<exists>r'. get i (run_ops approval_next db ops) = Some r' \<and> ar_status r' = ar_status r
           \<and> ar_response_actor r' = ar_response_actor r \<and> ar_responded_at r' = ar_responded_at r"
proof -
  have "decided i (run_ops approval_next db ops) = decided i db"
    using assms by (intro answer.run_frozen) (simp_all add: answered_def decided_def is_pending_def)
  then obtain z where z: "get i (run_ops approval_next db ops) = Some z"
      "z\<lparr>ar_checkpoint_id := None, ar_executed_at := None\<rparr> = r\<lparr>ar_checkpoint_id := None, ar_executed_at := None\<rparr>"
    using assms(2) by (auto simp: decided_def)
  then show ?thesis by (cases r; cases z) simp
qed

lemma no_ops: "\<exists>ops. db = run_ops approval_next db ops"
  by (rule exI [of _ "[]"]) simp

text \<open>What follows an answer keeps it: each branch returns an outcome and the row as answered.\<close>

lemma settle_deferred_call_keeps:
  assumes "audit_never_raises sink"
    and "executor_via_queue executor"
  shows "\<exists>out s' ops. settle_deferred_call sink row executor w = (Inr out, run_ops approval_next (fst w) ops, s')
           \<and> (ao_executed out \<longrightarrow> ar_status row = ''approved'')"
proof (cases executor)
  case None
  show ?thesis
  proof (cases "ar_status row = ''approved''")
    case True
    then have "settle_deferred_call sink row executor w =
        (Inr (outcome_of row False ''Approved, but no runtime is here to run it.''),
         run_ops approval_next (fst w) [], snd w)"
      using None by (simp add: settle_deferred_call_def)
    then show ?thesis using True by blast
  next
    case False
    obtain s' where "record_call_outcome sink row ''rejected'' ''Rejected, nothing was run.'' w = (Inr (), fst w, s')"
      using record_call_outcome_ok [OF assms(1)] by blast
    then have "settle_deferred_call sink row executor w =
        (Inr (outcome_of row False ''Rejected, nothing was run.''), run_ops approval_next (fst w) [], s')"
      using None False by (simp add: settle_deferred_call_def)
    then show ?thesis using no_ops by (auto simp: outcome_of_def)
  qed
next
  case (Some ex)
  show ?thesis
  proof (cases "ar_status row = ''approved''")
    case True
    obtain r w1 where r: "ex_execute_approved_call ex row w = (r, w1)" by (metis surj_pair)
    obtain ops where ops: "fst w1 = run_ops approval_next (fst w) ops"
      using assms(2) Some r unfolding executor_via_queue_def via_queue_def by (metis snd_conv)
    define result where "result = (case r of Inr x \<Rightarrow> x
      | Inl exc \<Rightarrow> \<lparr>acr_status = ''failed'', acr_summary = ''It could not be run: '' @ exn_msg exc\<rparr>)"
    obtain s' where "record_call_outcome sink row (acr_status result) (acr_summary result) w1 = (Inr (), fst w1, s')"
      using record_call_outcome_ok [OF assms(1)] by blast
    then show ?thesis
      using Some True r ops by (auto simp: settle_deferred_call_def result_def [symmetric])
  next
    case False
    obtain r w1 where r: "ex_settle_unrun_call ex row ''rejected'' w = (r, w1)" by (metis surj_pair)
    obtain ops where ops: "fst w1 = run_ops approval_next (fst w) ops"
      using assms(2) Some r unfolding executor_via_queue_def via_queue_def by (metis snd_conv)
    define result where "result = (case r of Inr x \<Rightarrow> x | Inl _ \<Rightarrow> \<lparr>acr_status = ''rejected'', acr_summary = []\<rparr>)"
    obtain s' where "record_call_outcome sink row ''rejected'' (acr_summary result) w1 = (Inr (), fst w1, s')"
      using record_call_outcome_ok [OF assms(1)] by blast
    then show ?thesis
      using Some False r ops
      by (auto simp: settle_deferred_call_def settle_unrun_def result_def [symmetric] outcome_of_def)
  qed
qed

lemma answer_approval_keeps:
  assumes "audit_never_raises sink"
    and "executor_via_queue executor"
    and "resumer_via_queue resumer"
    and "q_respond sink i st actor now w = (Inr row, w1)"
  shows "\<exists>out s' ops. answer_approval sink drift i st actor now resumer executor w
             = (Inr out, run_ops approval_next (fst w1) ops, s')
           \<and> (ao_executed out \<longrightarrow> ar_status row = ''approved'')
           \<and> (ao_resumed out \<longrightarrow> ar_status row = ''approved'' \<or> ar_items row \<noteq> None)"
proof (cases "is_deferred_call row")
  case True
  then have items: "ar_items row \<noteq> None" by (simp add: is_deferred_call_def)
  show ?thesis
    using settle_deferred_call_keeps [OF assms(1,2), of row w1] assms(4) True items
    by (auto simp: answer_approval_def)
next
  case False
  define w2 where "w2 = (if ar_signal row \<noteq> ''goal_drift'' then w1
      else (fst w1, drift (ar_run_id row) (ar_status row = ''approved'') (snd w1)))"
  have w2: "fst w2 = fst w1" by (simp add: w2_def)
  have stay: "\<exists>ops. fst w2 = run_ops approval_next (fst w1) ops"
    by (rule exI [of _ "[]"]) (simp add: w2)
  show ?thesis
  proof (cases "ar_status row \<noteq> ''approved'' \<and> ar_items row = None")
    case True
    then show ?thesis
      using False assms(4) stay
      by (simp add: answer_approval_def Let_def w2_def [symmetric] outcome_of_def) (metis prod.collapse)
  next
    case go: False
    show ?thesis
    proof (cases "parse_checkpoint_id (ar_checkpoint_id row)")
      case None
      then show ?thesis
        using False go assms(4) stay
        by (simp add: answer_approval_def Let_def w2_def [symmetric] outcome_of_def) (metis prod.collapse)
    next
      case (Some point)
      obtain run step where point: "point = (run, step)" by (cases point)
      show ?thesis
      proof (cases resumer)
        case None
        then show ?thesis
          using False go assms(4) Some point stay
          by (simp add: answer_approval_def Let_def w2_def [symmetric] outcome_of_def) (metis prod.collapse)
      next
        case res: (Some f)
        define ch where "ch = (if ar_channel row = [] then ''console'' else ar_channel row)"
        obtain r w3 where r: "f run step ch w2 = (r, w3)" by (metis surj_pair)
        obtain ops where ops: "fst w3 = run_ops approval_next (fst w1) ops"
          using assms(3) res r w2 unfolding resumer_via_queue_def via_queue_def by (metis snd_conv)
        have w3: "w3 = (run_ops approval_next (fst w1) ops, snd w3)" using ops by (simp add: prod_eq_iff)
        have "\<exists>out. answer_approval sink drift i st actor now resumer executor w = (Inr out, w3)
            \<and> \<not> ao_executed out"
          using False go assms(4) Some point res r
          by (cases r) (auto simp: answer_approval_def Let_def w2_def [symmetric] ch_def [symmetric]
              outcome_of_def)
        then show ?thesis using w3 go by metis
      qed
    qed
  qed
qed

text \<open>The owner's answer is recorded first and survives what follows. For a pending approval (and,
  for a code caller's call, an executor to run it), answering returns an outcome, never an exception, and
  the queue then holds the row with that answer and actor, whatever the resumed run or the executed call
  does, raises or records, as long as it reaches the queue through its own operations. A call is executed
  only if the answer was approval, and without an executor an approval of a code caller's call is not
  recorded: the row keeps waiting.\<close>

theorem answer_recorded_first:
  assumes "audit_never_raises sink" and "approvals_ok (fst w)" and "get i (fst w) = Some r"
    and "ar_status r = ''pending''" and "st \<in> {''approved'', ''rejected''}"
    and "executor_via_queue executor"
    and "resumer_via_queue resumer"
  shows "\<exists>out db' s'. respond_to_approval sink drift i st actor now resumer executor w = (Inr out, db', s')
     \<and> (if is_deferred_call r \<and> st = ''approved'' \<and> executor = None
        then db' = fst w \<and> s' = snd w \<and> \<not> ao_executed out \<and> \<not> ao_resumed out
        else (\<exists>r'. get i db' = Some r' \<and> ar_status r' = st \<and> ar_response_actor r' = Some actor)
             \<and> (ao_executed out \<longrightarrow> st = ''approved''))"
proof (cases "is_deferred_call r \<and> st = ''approved'' \<and> executor = None")
  case True
  then show ?thesis using assms(3,4) by (simp add: respond_to_approval_def outcome_of_def)
next
  case False
  let ?r = "r\<lparr>ar_status := st, ar_responded_at := Some now, ar_response_actor := Some actor\<rparr>"
  obtain w1 where w1: "q_respond sink i st actor now w = (Inr ?r, w1)" "approvals_ok (fst w1)"
      "get i (fst w1) = Some ?r"
    using q_respond_ok [OF assms(1-5)] by blast
  obtain out s' ops where a: "answer_approval sink drift i st actor now resumer executor w =
      (Inr out, run_ops approval_next (fst w1) ops, s')" "ao_executed out \<longrightarrow> st = ''approved''"
    using answer_approval_keeps [OF assms(1,6,7) w1(1), of drift] by auto
  have "\<exists>r'. get i (run_ops approval_next (fst w1) ops) = Some r' \<and> ar_status r' = st
      \<and> ar_response_actor r' = Some actor"
    using answered_kept [OF w1(2,3), of ops] assms(5) by auto
  then show ?thesis using a False assms(3) by (auto simp: respond_to_approval_def)
qed

definition demo_executor :: "unit queue_world executor" where
  "demo_executor = \<lparr>ex_execute_approved_call = (\<lambda>row w. (Raise ''OSError'' ''down'', w)),
     ex_settle_unrun_call = (\<lambda>row st w. (Raise ''OSError'' ''down'', w))\<rparr>"

theorem answer_recorded_first_witness:
  "\<exists>out db' s'. respond_to_approval None (\<lambda>_ _ s. s) ''a1'' ''approved'' ''owner'' 7 None (Some demo_executor)
       ([(demo_row ''pending'')\<lparr>ar_caller := Some ''plugin:mail''\<rparr>], ()) = (Inr out, db', s')
     \<and> (\<exists>r'. get ''a1'' db' = Some r' \<and> ar_status r' = ''approved'')"
proof -
  let ?r = "(demo_row ''pending'')\<lparr>ar_caller := Some ''plugin:mail''\<rparr>"
  have ok: "approvals_ok (fst ([?r], ()))" and g: "get ''a1'' (fst ([?r], ())) = Some ?r"
    and st: "ar_status ?r = ''pending''" and a: "audit_never_raises (None :: unit audit_sink option)"
    by (simp_all add: approvals_ok_def row_ok_def demo_row_def new_row_def get_def audit_never_raises_def)
  have via: "executor_via_queue (Some demo_executor)" and res: "resumer_via_queue (None :: unit queue_world run_resumer option)"
    using no_ops by (auto simp: executor_via_queue_def resumer_via_queue_def via_queue_def demo_executor_def)
  from answer_recorded_first [OF a ok g st _ via res, of "''approved''" "\<lambda>_ _ s. s" "''owner''" 7]
  show ?thesis by auto
qed

end
