(* ===== verification/Destructive_Approval.thy ===== *)
theory Destructive_Approval
  imports Approvals_Service
begin

text \<open>
  The destructive-approval hook (\<open>plugins/destructive_approval.py\<close>): a call that removes or overwrites
  the owner's data, or acts on their behalf, is turned into an approval that pins exactly that call, and
  an approved call is checked against the queue before it runs. The fresh id, the clock and the turn id a
  call reads are arguments; the router's notification is a world effect whose exceptions are swallowed.
\<close>

section \<open>Which calls\<close>

definition DESTRUCTIVE_TIMEOUT_MINUTES :: int where
  "DESTRUCTIVE_TIMEOUT_MINUTES = 60"

definition pinned_by_declaration :: "pyval \<Rightarrow> pyval \<Rightarrow> bool" where
  "pinned_by_declaration effect confirm = (effect = PStr ''destructive'' \<or> confirm = PStr ''approval'')"

definition approved_per_call :: "dict \<Rightarrow> bool" where
  "approved_per_call metadata =
     (pinned_by_declaration (dget metadata K_TOOL_EFFECT) (dget metadata K_TOOL_CONFIRM)
      \<or> dget metadata ''per_call_approval'' = PBool True)"

section \<open>The card\<close>

definition dict_or_empty :: "pyval \<Rightarrow> dict" where
  "dict_or_empty raw = (case raw of PDict d \<Rightarrow> d | _ \<Rightarrow> [])"

definition text_of :: "pyval \<Rightarrow> string" where
  "text_of v = strip (if truthy v then py_str v else [])"

definition card_title :: "string \<Rightarrow> pyval \<Rightarrow> string" where
  "card_title tool raw =
     (let d = dict_or_empty raw; title = text_of (dget d ''title'') in
      if title \<noteq> [] then title
      else if dget d ''effect'' = PStr ''write'' then tool @ '' wants to act on your behalf''
      else tool @ '' wants to delete or overwrite your data'')"

definition positive_days :: "pyval \<Rightarrow> int option" where
  "positive_days v =
     (case v of
        PInt i \<Rightarrow> if i > 0 then Some i else None
      | PBool b \<Rightarrow> if b then Some 1 else None
      | _ \<Rightarrow> None)"

definition build_card :: "approval_item \<Rightarrow> pyval \<Rightarrow> approval_card result" where
  "build_card item raw =
     (let d = dict_or_empty raw in
      case py_iter_or_empty (dget d ''lines'') of
        None \<Rightarrow> Raise ''TypeError'' ''object is not iterable''
      | Some raw_lines \<Rightarrow>
          let kept = filter (\<lambda>l. strip l \<noteq> []) (map py_str raw_lines);
              lines = (if kept = [] then [item_render item] else kept);
              reason = text_of (dget d ''reason'')
          in Inr \<lparr>ac_title = card_title (ai_tool item) raw,
                  ac_lines = (if reason \<noteq> [] then lines @ [reason] else lines),
                  ac_undo_tool = truthy_text d ''undo_tool'',
                  ac_undo_window_days = positive_days (dget d ''undo_window_days''),
                  ac_asked = map_option strip (truthy_text d ''asked''),
                  ac_effect = (if dget d ''effect'' = PStr ''write'' then ''write'' else ''destructive'')\<rparr>)"

definition summarise :: "approval_card \<Rightarrow> approval_item list \<Rightarrow> string" where
  "summarise c items =
     join [char_of (10::nat)]
       ([ac_title c] @ map (\<lambda>l. ''- '' @ l) (ac_lines c) @ [undo_sentence c]
        @ (if truthy_str (ac_asked c)
           then [''You asked: '' @ [char_of (34::nat)] @ fmt_opt (ac_asked c) @ [char_of (34::nat)]] else [])
        @ [''Exact call: '' @ join ''; '' (map item_render items)])"

section \<open>The hook\<close>

text \<open>The queue is \<open>None\<close> when none is configured, else the audit log it writes to (itself optional).\<close>

record 's destructive_hook =
  da_queue :: "'s audit_sink option option"
  da_router :: "'s queue_world row_notifier option"
  da_timeout_minutes :: int

record call_env =
  ce_fresh :: string
  ce_now :: timestamp
  ce_turn_id :: "string option"

definition metadata_str :: "hook_context \<Rightarrow> string \<Rightarrow> string option" where
  "metadata_str ctx key =
     (let value = text_of (dget (hc_metadata ctx) key) in if value = [] then None else Some value)"

definition deny_with :: "string \<Rightarrow> dict \<Rightarrow> hook_decision" where
  "deny_with reason md = (decision Deny reason)\<lparr>hd_severity := SevWarn, hd_audit_metadata := md\<rparr>"

definition verify_audit :: "string \<Rightarrow> approval_item \<Rightarrow> string option \<Rightarrow> approval_row option \<Rightarrow> dict" where
  "verify_audit approval_id item caller row =
     (let audit = [(''tool_name'', PStr (ai_tool item)), (''approval_id'', PStr approval_id),
                   (''caller'', opt_str caller)]
      in case row of
           None \<Rightarrow> audit
         | Some r \<Rightarrow> if truthy_str (ar_call_id r) then dset K_HELD_CALL_ID (opt_str (ar_call_id r)) audit
                     else audit)"

definition verify ::
  "'s audit_sink option \<Rightarrow> timestamp \<Rightarrow> string \<Rightarrow> approval_item \<Rightarrow> string option \<Rightarrow> 's queue_world
    \<Rightarrow> hook_decision result \<times> 's queue_world"
where
  "verify sink now approval_id item caller w =
     (let found = get approval_id (fst w); audit = verify_audit approval_id item caller found;
          allow = (decision Allow (''destructive_approval: pinned by approved '' @ approval_id))
                    \<lparr>hd_audit_metadata := audit\<rparr>
      in case found of
           None \<Rightarrow> (Inr (deny_with (''destructive_approval: approval '' @ approval_id @ '' is missing'') audit), w)
         | Some row \<Rightarrow>
             if ar_status row \<noteq> ''approved'' then
               (Inr (deny_with (''destructive_approval: approval '' @ approval_id @ '' is '' @ ar_status row)
                  audit), w)
             else if item \<notin> set (case ar_items row of None \<Rightarrow> [] | Some items \<Rightarrow> items) then
               (Inr (deny_with (''destructive_approval: '' @ repr_str (ai_tool item)
                  @ '' with these arguments is not what approval '' @ approval_id @ '' pinned'') audit), w)
             else
               (case ar_caller row of
                  None \<Rightarrow> (Inr allow, w)
                | Some row_caller \<Rightarrow>
                    if caller \<noteq> Some row_caller then
                      (Inr (deny_with (''destructive_approval: approval '' @ approval_id @ '' was given to ''
                         @ row_caller @ '', not '' @ fmt_opt caller) audit), w)
                    else
                      (case q_claim_execution sink approval_id now w of
                         (Inl e, w1) \<Rightarrow> (Inl e, w1)
                       | (Inr None, w1) \<Rightarrow>
                           (Inr (deny_with (''destructive_approval: approval '' @ approval_id
                              @ '' has already run'') audit), w1)
                       | (Inr (Some _), w1) \<Rightarrow> (Inr allow, w1))))"

definition request_of ::
  "'s destructive_hook \<Rightarrow> call_env \<Rightarrow> hook_context \<Rightarrow> approval_item \<Rightarrow> approval_card \<Rightarrow> approval_request"
where
  "request_of h env ctx item c =
     \<lparr>rq_run_id = hc_run_id ctx, rq_checkpoint_id = None, rq_signal = ac_title c,
      rq_context_summary = summarise c [item],
      rq_channel = (case metadata_str ctx ''origin_channel'' of Some ch \<Rightarrow> ch | None \<Rightarrow> ''cli''),
      rq_timeout_minutes = da_timeout_minutes h, rq_policy_on_timeout = ''fail_closed'',
      rq_session_id = metadata_str ctx ''session_id'', rq_items = Some [item], rq_card = Some c,
      rq_caller = (if dget (hc_metadata ctx) ''deferred_executor'' = PBool True
                   then metadata_str ctx ''caller'' else None),
      rq_call_id = metadata_str ctx K_CALL_ID, rq_step_id = hc_step_id ctx, rq_turn_id = ce_turn_id env\<rparr>"

definition request ::
  "'s destructive_hook \<Rightarrow> 's audit_sink option \<Rightarrow> call_env \<Rightarrow> hook_context \<Rightarrow> approval_item \<Rightarrow> 's queue_world
    \<Rightarrow> hook_decision result \<times> 's queue_world"
where
  "request h sink env ctx item w =
     (case build_card item (dget (hc_metadata ctx) ''approval_card'') of
        Inl e \<Rightarrow> (Inl e, w)
      | Inr c \<Rightarrow>
          (case q_enqueue sink (request_of h env ctx item c) (ce_fresh env) (ce_now env) w of
             (Inl e, w1) \<Rightarrow> (Inl e, w1)
           | (Inr approval_id, w1) \<Rightarrow>
               let w2 = (case get approval_id (fst w1) of
                           None \<Rightarrow> w1 | Some row \<Rightarrow> announce (da_router h) row w1)
               in (Inr ((decision RequireApproval
                     (''destructive_approval: '' @ repr_str (ai_tool item) @ '' ''
                      @ (if ac_effect c = ''write'' then ''acts on the owner's behalf''
                         else ''deletes or overwrites the owner's data'')
                      @ '' and waits for their approval''))
                     \<lparr>hd_severity := SevWarn, hd_approval_request_id := Some approval_id,
                      hd_audit_metadata := [(''tool_name'', PStr (ai_tool item)),
                        (''approval_id'', PStr approval_id), (''signal'', PStr ''destructive_tool'')]\<rparr>), w2)))"

definition call_item :: "hook_context \<Rightarrow> approval_item" where
  "call_item ctx =
     item_of (let t = dget (hc_payload ctx) K_TOOL_NAME in if truthy t then py_str t else [])
       (case dget (hc_payload ctx) K_ARGS of PDict args \<Rightarrow> args | _ \<Rightarrow> [])"

definition DestructiveApprovalHook_call ::
  "'s destructive_hook \<Rightarrow> call_env \<Rightarrow> hook_context \<Rightarrow> 's queue_world \<Rightarrow> hook_decision result \<times> 's queue_world"
where
  "DestructiveApprovalHook_call h env ctx w =
     (let md = hc_metadata ctx; item = call_item ctx;
          audit = [(''tool_name'', PStr (ai_tool item))]
      in if \<not> approved_per_call md then
           (Inr (decision Allow ''destructive_approval: not approved per call''), w)
         else case da_queue h of
           None \<Rightarrow>
             (Inr (deny_with (''destructive_approval: '' @ repr_str (ai_tool item)
                @ '' needs the owner's approval and no ''
                @ ''approval queue is configured; nothing was changed'') audit), w)
         | Some sink \<Rightarrow>
             if truthy (dget md ''approved_by'') then
               verify sink (ce_now env) (py_str (dget md ''approved_by'')) item (metadata_str ctx ''caller'') w
             else if dget md ''resumable'' \<noteq> PBool True \<and> dget md ''deferred_executor'' \<noteq> PBool True then
               (Inr (deny_with (''destructive_approval: '' @ repr_str (ai_tool item)
                  @ '' needs the owner's approval, and ''
                  @ ''this run cannot pause for one; nothing was changed'') audit), w)
             else request h sink env ctx item w)"

section \<open>What the hook lets through\<close>

lemma deny_with_outcome [simp]: "hd_outcome (deny_with r m) = Deny"
  by (simp add: deny_with_def)

lemma q_claim_db: "fst (snd (q_claim_execution sink i now w)) = approval_next (fst w) (ClaimExecution i now)"
  by (simp add: q_claim_execution_def approval_next_def split: prod.splits option.splits sum.splits)

lemma q_claim_won:
  assumes "q_claim_execution sink i now w = (Inr (Some r), w1)"
  shows "won_claim i (snd (approval_step (fst w) (ClaimExecution i now)))"
proof -
  obtain c db' where c: "claim_execution i now (fst w) = (c, db')" by fastforce
  then obtain row where row: "c = Some row"
    using assms by (auto simp: q_claim_execution_def split: option.splits)
  have "get i db' = Some row"
    using c row by (auto simp: claim_execution_def Let_def split: if_splits)
  then show ?thesis using c row by (simp add: won_claim_def get_id)
qed

definition released :: "'s queue_world \<Rightarrow> string \<Rightarrow> approval_item \<Rightarrow> string option \<Rightarrow> bool" where
  "released w i item caller \<longleftrightarrow> (\<exists>row items. get i (fst w) = Some row
     \<and> ar_status row = ''approved'' \<and> ar_items row = Some items \<and> item \<in> set items
     \<and> (ar_caller row \<noteq> None \<longrightarrow> ar_caller row = caller
          \<and> (\<exists>now. won_claim i (snd (approval_step (fst w) (ClaimExecution i now))))))"

lemma verify_allows:
  assumes "verify sink now i item caller w = (Inr d, w')" and "\<not> stops (hd_outcome d)"
  shows "released w i item caller"
proof (cases "get i (fst w)")
  case None
  then show ?thesis using assms by (auto simp: verify_def Let_def stops_def)
next
  case (Some row)
  have st: "ar_status row = ''approved''"
    using assms Some by (auto simp: verify_def Let_def stops_def split: if_splits)
  then have item: "item \<in> set (case ar_items row of None \<Rightarrow> [] | Some items \<Rightarrow> items)"
    using assms Some by (auto simp: verify_def Let_def stops_def split: if_splits)
  have "ar_caller row = caller \<and> won_claim i (snd (approval_step (fst w) (ClaimExecution i now)))"
    if c: "ar_caller row = Some c" for c
  proof -
    have "caller = Some c"
      using assms Some st item c by (auto simp: verify_def Let_def stops_def split: if_splits)
    moreover obtain r w1 where won: "q_claim_execution sink i now w = (Inr (Some r), w1)"
      using assms Some st item c
      by (auto simp: verify_def Let_def stops_def split: if_splits prod.splits sum.splits option.splits)
    ultimately show ?thesis using q_claim_won [OF won] c by (simp only: simp_thms)
  qed
  moreover obtain items where "ar_items row = Some items" "item \<in> set items"
    using item by (cases "ar_items row") auto
  ultimately show ?thesis using Some st unfolding released_def by blast
qed

lemma request_stops: "request h sink env ctx item w = (Inr d, w') \<Longrightarrow> stops (hd_outcome d)"
  by (auto simp: request_def Let_def stops_def split: sum.splits prod.splits)

lemma passed_call:
  assumes "approved_per_call (hc_metadata ctx)"
    and "DestructiveApprovalHook_call h env ctx w = (Inr d, w')" and "\<not> stops (hd_outcome d)"
  shows passed_call_is_named: "truthy (dget (hc_metadata ctx) ''approved_by'')"
    and passed_call_is_released:
      "released w (py_str (dget (hc_metadata ctx) ''approved_by'')) (call_item ctx) (metadata_str ctx ''caller'')"
proof -
  obtain sink where q: "da_queue h = Some sink"
    using assms by (cases "da_queue h") (auto simp: DestructiveApprovalHook_call_def Let_def stops_def)
  show named: "truthy (dget (hc_metadata ctx) ''approved_by'')"
  proof (rule ccontr)
    assume no: "\<not> truthy (dget (hc_metadata ctx) ''approved_by'')"
    show False
    proof (cases "dget (hc_metadata ctx) ''resumable'' \<noteq> PBool True
        \<and> dget (hc_metadata ctx) ''deferred_executor'' \<noteq> PBool True")
      case True
      then have "hd_outcome d = Deny"
        using assms(1,2) q no by (auto simp: DestructiveApprovalHook_call_def Let_def)
      then show False using assms(3) by (simp add: stops_def)
    next
      case False
      then have "request h sink env ctx (call_item ctx) w = (Inr d, w')"
        using assms(1,2) q no by (auto simp: DestructiveApprovalHook_call_def Let_def)
      then show False using request_stops assms(3) by blast
    qed
  qed
  let ?i = "py_str (dget (hc_metadata ctx) ''approved_by'')"
  show "released w ?i (call_item ctx) (metadata_str ctx ''caller'')"
    by (rule verify_allows [where sink = sink and now = "ce_now env" and d = d and w' = w'])
      (use assms q named in \<open>simp_all add: DestructiveApprovalHook_call_def Let_def\<close>)
qed


definition demo_destructive :: "unit destructive_hook" where
  "demo_destructive = \<lparr>da_queue = Some None, da_router = None,
     da_timeout_minutes = DESTRUCTIVE_TIMEOUT_MINUTES\<rparr>"

definition demo_call :: "dict \<Rightarrow> hook_context" where
  "demo_call md = demo_ctx PRE_TOOL_USE [(K_TOOL_NAME, PStr ''rm''), (K_ARGS, PDict [(''path'', PStr ''x'')])]
     ((K_TOOL_EFFECT, PStr ''destructive'') # md)"

definition demo_call_env :: call_env where
  "demo_call_env = \<lparr>ce_fresh = ''a2'', ce_now = 9, ce_turn_id = None\<rparr>"

lemma demo_call_item: "call_item (demo_call md) = item_of ''rm'' [(''path'', PStr ''x'')]"
  by (simp add: call_item_def demo_call_def demo_ctx_def dict_simps py_str_def)


section \<open>Asking for approval\<close>

text \<open>An unapproved destructive call is held, and the owner is asked about exactly that call. With a
  queue, a run that can pause (or a harness that executes later), a fresh id and a ledger that records,
  the hook asks for approval under that id, and the queue gains one pending row that pins this tool and
  these arguments alone, with a deadline of the hook's timeout, and names the caller only when the
  harness will execute the call itself.\<close>

theorem destructive_call_is_held:
  assumes "approved_per_call (hc_metadata ctx)" and "da_queue h = Some sink"
    and "\<not> truthy (dget (hc_metadata ctx) ''approved_by'')"
    and "dget (hc_metadata ctx) ''resumable'' = PBool True \<or> dget (hc_metadata ctx) ''deferred_executor'' = PBool True"
    and "build_card (call_item ctx) (dget (hc_metadata ctx) ''approval_card'') = Inr c"
    and "get (ce_fresh env) (fst w) = None" and "audit_never_raises sink" and "da_router h = None"
  shows "\<exists>d s' row. DestructiveApprovalHook_call h env ctx w = (Inr d, fst w @ [row], s')
     \<and> hd_outcome d = RequireApproval \<and> hd_approval_request_id d = Some (ce_fresh env)
     \<and> ar_approval_id row = ce_fresh env \<and> ar_status row = ''pending''
     \<and> ar_items row = Some [call_item ctx] \<and> ar_card row = Some c
     \<and> ar_timeout_at row = ce_now env + minutes (da_timeout_minutes h)
     \<and> ar_executed_at row = None
     \<and> (ar_caller row \<noteq> None \<longrightarrow> dget (hc_metadata ctx) ''deferred_executor'' = PBool True)"
proof -
  let ?rq = "request_of h env ctx (call_item ctx) c"
  let ?row = "new_row ?rq (ce_fresh env) (ce_now env)"
  have enq: "enqueue ?rq (ce_fresh env) (ce_now env) (fst w) = (Inr (ce_fresh env), fst w @ [?row])"
    using assms(6) by (simp add: enqueue_def)
  obtain s' where q: "q_enqueue sink ?rq (ce_fresh env) (ce_now env) w = (Inr (ce_fresh env), fst w @ [?row], s')"
    using enq q_record_ok [OF assms(7), of "enqueue_entry ?rq (ce_fresh env)" "snd w"]
    by (auto simp: q_enqueue_def)
  then have "\<exists>d. request h sink env ctx (call_item ctx) w = (Inr d, fst w @ [?row], s')
      \<and> hd_outcome d = RequireApproval \<and> hd_approval_request_id d = Some (ce_fresh env)"
    using assms(5,8) by (simp add: request_def Let_def announce_def split: option.splits)
  then show ?thesis
    using assms(1-4)
    by (auto simp: DestructiveApprovalHook_call_def Let_def new_row_def request_of_def)
qed

theorem destructive_call_is_held_witness:
  "\<exists>d s' row. DestructiveApprovalHook_call demo_destructive demo_call_env (demo_call [(''resumable'', PBool True)]) ([], ())
       = (Inr d, [row], s') \<and> hd_outcome d = RequireApproval \<and> ar_status row = ''pending''
     \<and> ar_timeout_at row = 3600000009"
proof -
  let ?ctx = "demo_call [(''resumable'', PBool True)]"
  have md: "approved_per_call (hc_metadata ?ctx)" "\<not> truthy (dget (hc_metadata ?ctx) ''approved_by'')"
    "dget (hc_metadata ?ctx) ''resumable'' = PBool True"
    by (simp_all add: demo_call_def demo_ctx_def approved_per_call_def pinned_by_declaration_def dict_simps)
  obtain c where c: "build_card (call_item ?ctx) (dget (hc_metadata ?ctx) ''approval_card'') = Inr c"
    by (simp add: build_card_def demo_call_def demo_ctx_def dict_simps dict_or_empty_def py_iter_or_empty_def Let_def)
  have q: "da_queue demo_destructive = Some None" "da_router demo_destructive = None"
    "da_timeout_minutes demo_destructive = 60" "ce_now demo_call_env = 9"
    by (simp_all add: demo_destructive_def DESTRUCTIVE_TIMEOUT_MINUTES_def demo_call_env_def)
  have a: "audit_never_raises (None :: unit audit_sink option)" "get (ce_fresh demo_call_env) (fst ([], ())) = None"
    by (simp_all add: audit_never_raises_def get_def)
  from destructive_call_is_held [OF md(1) q(1) md(2) disjI1 [OF md(3)] c a(2,1) q(2)]
  show ?thesis by (auto simp: q minutes_def)
qed

end
