(* ===== verification/Side_Effects.thy ===== *)
theory Side_Effects
  imports Destructive_Approval
begin

text \<open>
  The side-effect ledger (\<open>side_effects/store.py\<close>) and its two hooks: \<open>plugins/pre_tool_use_ledger.py\<close>
  writes a pending row before a high-risk call runs, \<open>plugins/post_tool_use_ledger.py\<close> settles it, or
  records a plain write, after the call. Clock and fresh ULIDs are arguments; a storage error is the
  argument \<open>fault\<close> of a write (\<open>None\<close>: it works) and \<open>unreadable\<close> of a read. \<open>json.loads\<close> of a result's text is an
  argument of the post hook.
\<close>

section \<open>The ledger\<close>

record side_effect_row =
  se_side_effect_id :: string
  se_run_id :: string
  se_step_id :: int
  se_tool :: string
  se_verification_probe :: string
  se_probe_metadata :: dict
  se_status :: string
  se_completed_at :: "timestamp option"
  se_error :: "string option"
  se_identity :: call_identity
  se_record_id :: string

record side_effect_event =
  ev_event_id :: string
  ev_side_effect_id :: string
  ev_status :: string
  ev_ts :: timestamp
  ev_call_id :: "string option"

record side_effect_db =
  sl_rows :: "side_effect_row list"
  sl_events :: "side_effect_event list"

definition probe_subject :: "side_effect_row \<Rightarrow> string" where
  "probe_subject r =
     (case nonempty_str (dget (se_probe_metadata r) ''subject'') of
        Some s \<Rightarrow> s | None \<Rightarrow> se_side_effect_id r)"

definition se_get :: "string \<Rightarrow> side_effect_db \<Rightarrow> side_effect_row option" where
  "se_get i db = lookup_by se_side_effect_id i (sl_rows db)"

definition append_event ::
  "string \<Rightarrow> timestamp \<Rightarrow> string \<Rightarrow> string \<Rightarrow> string option \<Rightarrow> side_effect_db \<Rightarrow> side_effect_db"
where
  "append_event event_id now i status call_id db =
     db\<lparr>sl_events := sl_events db @ [\<lparr>ev_event_id = event_id, ev_side_effect_id = i, ev_status = status,
          ev_ts = now, ev_call_id = call_id\<rparr>]\<rparr>"

definition se_call_id_of :: "string \<Rightarrow> side_effect_db \<Rightarrow> string option" where
  "se_call_id_of i db = (case se_get i db of None \<Rightarrow> None | Some r \<Rightarrow> ci_call_id (se_identity r))"

record se_request =
  sr_run_id :: string
  sr_step_id :: int
  sr_tool :: string
  sr_verification_probe :: string
  sr_probe_metadata :: dict
  sr_side_effect_id :: "string option"
  sr_exclusive :: bool
  sr_identity :: call_identity

record se_env =
  sv_now :: timestamp
  sv_uuid :: string
  sv_ulid :: string
  sv_ulid2 :: string

definition se_row_of :: "se_request \<Rightarrow> string \<Rightarrow> string \<Rightarrow> side_effect_row" where
  "se_row_of rq key record_id =
     \<lparr>se_side_effect_id = key, se_run_id = sr_run_id rq, se_step_id = sr_step_id rq, se_tool = sr_tool rq,
      se_verification_probe = sr_verification_probe rq, se_probe_metadata = sr_probe_metadata rq,
      se_status = ''pending'', se_completed_at = None, se_error = None, se_identity = sr_identity rq,
      se_record_id = record_id\<rparr>"

definition se_record :: "se_request \<Rightarrow> se_env \<Rightarrow> side_effect_db \<Rightarrow> string result \<times> side_effect_db" where
  "se_record rq env db =
     (let key = (if truthy_str (sr_side_effect_id rq) then fmt_opt (sr_side_effect_id rq) else sv_uuid env) in
      if se_get key db \<noteq> None then
        (if sr_exclusive rq then (Raise ''SideEffectKeyExists'' key, db) else (Inr key, db))
      else
        (Inr key,
         append_event (sv_ulid2 env) (sv_now env) key ''pending'' (ci_call_id (sr_identity rq))
           (db\<lparr>sl_rows := sl_rows db @ [se_row_of rq key (sv_ulid env)]\<rparr>)))"

definition se_pending :: "string \<Rightarrow> side_effect_db \<Rightarrow> side_effect_row list" where
  "se_pending run_id db =
     sort_key se_step_id (filter (\<lambda>r. se_run_id r = run_id \<and> se_status r \<noteq> ''completed'') (sl_rows db))"

definition se_list_by_run :: "string \<Rightarrow> side_effect_db \<Rightarrow> side_effect_row list" where
  "se_list_by_run run_id db = sort_key se_step_id (filter (\<lambda>r. se_run_id r = run_id) (sl_rows db))"

definition completed_at :: "string \<Rightarrow> se_env \<Rightarrow> timestamp option" where
  "completed_at status env = (if status = ''completed'' then Some (sv_now env) else None)"

definition se_set_status ::
  "string \<Rightarrow> string \<Rightarrow> string option \<Rightarrow> se_env \<Rightarrow> side_effect_db \<Rightarrow> side_effect_db"
where
  "se_set_status i status error env db =
     (let db1 = db\<lparr>sl_rows := update_where (\<lambda>r. se_side_effect_id r = i)
                  (\<lambda>r. r\<lparr>se_status := status, se_completed_at := completed_at status env, se_error := error\<rparr>)
                  (sl_rows db)\<rparr>
      in append_event (sv_ulid2 env) (sv_now env) i status (se_call_id_of i db1) db1)"

definition se_finalize ::
  "string \<Rightarrow> string \<Rightarrow> string option \<Rightarrow> string option \<Rightarrow> dict option \<Rightarrow> se_env \<Rightarrow> side_effect_db
    \<Rightarrow> bool \<times> side_effect_db"
where
  "se_finalize i status error probe meta env db =
     (case se_get i db of
        None \<Rightarrow> (False, db)
      | Some row \<Rightarrow>
          let merged = dmerge (se_probe_metadata row) (case meta of None \<Rightarrow> [] | Some m \<Rightarrow> m);
              db1 = db\<lparr>sl_rows := update_where (\<lambda>r. se_side_effect_id r = i)
                  (\<lambda>r. r\<lparr>se_status := status, se_completed_at := completed_at status env, se_error := error,
                        se_verification_probe := (case probe of None \<Rightarrow> se_verification_probe row | Some p \<Rightarrow> p),
                        se_probe_metadata := merged\<rparr>) (sl_rows db)\<rparr>
          in (True, append_event (sv_ulid2 env) (sv_now env) i status (se_call_id_of i db1) db1))"

section \<open>The hook before the call\<close>

definition side_effect_key :: "string \<Rightarrow> int \<Rightarrow> string option \<Rightarrow> string" where
  "side_effect_key run_id step_id call_id =
     run_id @ '':'' @ show_int step_id @ '':'' @ (if truthy_str call_id then fmt_opt call_id else ''-'')"

definition step_or_0 :: "hook_context \<Rightarrow> int" where
  "step_or_0 ctx = (case hc_step_id ctx of None \<Rightarrow> 0 | Some i \<Rightarrow> i)"

definition key_of :: "hook_context \<Rightarrow> string" where
  "key_of ctx = side_effect_key (hc_run_id ctx) (step_or_0 ctx) (call_id_of (hc_metadata ctx))"

text \<open>\<open>record\<close> when the storage may fail.\<close>

definition try_record ::
  "pyexn option \<Rightarrow> se_request \<Rightarrow> se_env \<Rightarrow> side_effect_db \<Rightarrow> string result \<times> side_effect_db"
where
  "try_record fault rq env db = (case fault of Some e \<Rightarrow> (Inl e, db) | None \<Rightarrow> se_record rq env db)"

definition pre_deny :: "string \<Rightarrow> string \<Rightarrow> hook_decision" where
  "pre_deny tool why =
     (decision Deny (''pre_tool_use_ledger: '' @ repr_str tool @ '' is irreversible and needs a durable record ''
        @ ''before it runs, but '' @ why @ ''; nothing was run''))
       \<lparr>hd_severity := SevError, hd_audit_metadata := [(''tool_name'', PStr tool)]\<rparr>"

definition pre_request :: "call_state \<Rightarrow> hook_context \<Rightarrow> se_request" where
  "pre_request calls ctx =
     \<lparr>sr_run_id = hc_run_id ctx, sr_step_id = step_or_0 ctx, sr_tool = tool_name_of (hc_payload ctx),
      sr_verification_probe = [],
      sr_probe_metadata = [(''subject'', PStr (key_of ctx)),
        (''effect'', dget (hc_metadata ctx) K_TOOL_EFFECT), (''pre_recorded'', PBool True)],
      sr_side_effect_id = Some (key_of ctx), sr_exclusive = True,
      sr_identity = identity_kwargs calls (call_id_of (hc_metadata ctx))\<rparr>"

definition high_risk :: "hook_context \<Rightarrow> bool" where
  "high_risk ctx \<longleftrightarrow> tool_name_of (hc_payload ctx) \<noteq> []
     \<and> pinned_by_declaration (dget (hc_metadata ctx) K_TOOL_EFFECT) (dget (hc_metadata ctx) K_TOOL_CONFIRM)"

definition PreToolUseLedgerHook_call ::
  "bool \<Rightarrow> pyexn option \<Rightarrow> call_state \<Rightarrow> se_env \<Rightarrow> hook_context \<Rightarrow> side_effect_db
    \<Rightarrow> hook_decision \<times> side_effect_db"
where
  "PreToolUseLedgerHook_call has_ledger fault calls env ctx db =
     (let tool = tool_name_of (hc_payload ctx) in
      if \<not> high_risk ctx then (decision Allow ''pre_tool_use_ledger: not a high-risk call'', db)
      else if \<not> truthy (dget (hc_metadata ctx) ''approved_by'') \<and> \<not> dhas (hc_payload ctx) ''capability'' then
        (decision Allow ''pre_tool_use_ledger: the call is not approved to run'', db)
      else if \<not> has_ledger then (pre_deny tool ''no side-effect ledger is configured'', db)
      else
        case try_record fault (pre_request calls ctx) env db of
          (Inl e, db1) \<Rightarrow>
            (if exn_class e = ''SideEffectKeyExists''
             then pre_deny tool ''its ledger key already holds a record of another call''
             else pre_deny tool (''the pre-execution record could not be written ('' @ exn_class e @ '')''), db1)
        | (Inr _, db1) \<Rightarrow>
            ((decision Allow (''pre_tool_use_ledger: recorded '' @ tool @ '' before it runs''))
               \<lparr>hd_audit_metadata := [(K_SIDE_EFFECT_ID, PStr (key_of ctx))]\<rparr>, db1))"

section \<open>The hook after the call\<close>

text \<open>\<open>payload.get(k, default)\<close> as text.\<close>

definition get_text :: "dict \<Rightarrow> string \<Rightarrow> string \<Rightarrow> pyval" where
  "get_text payload k dflt = PStr (if dhas payload k then py_str (dget payload k) else dflt)"

definition git_commit_meta :: "dict \<Rightarrow> dict" where
  "git_commit_meta payload = [(''repo_path'', get_text payload ''cwd'' ''.'')]"

definition git_push_meta :: "dict \<Rightarrow> dict" where
  "git_push_meta payload =
     [(''repo_path'', get_text payload ''cwd'' ''.''), (''commit_sha'', get_text payload ''commit_sha'' [])]"

definition TOOL_PROBE_MAP :: "(string \<times> string \<times> string \<times> (dict \<Rightarrow> dict)) list" where
  "TOOL_PROBE_MAP =
     [(''git_commit'', ''git_commit'', ''commit_sha'', git_commit_meta),
      (''git_push'', ''git_push'', ''branch_remote'', git_push_meta),
      (''github_create_pr'', ''github_create_pr'', ''pr_url'', \<lambda>_. []),
      (''write_file'', ''write_file'', ''file_path_sha'', \<lambda>_. []),
      (''create_pull_request'', ''github_create_pr'', ''pr_url'', \<lambda>_. [])]"

definition mapped_subject :: "(string \<Rightarrow> pyval option) \<Rightarrow> string \<Rightarrow> pyval \<Rightarrow> string option" where
  "mapped_subject loads id_field result =
     (let parsed = (case result of
                      PStr s \<Rightarrow> if startswith (lstrip s) ''{'' then loads s else Some result
                    | _ \<Rightarrow> Some result)
      in case parsed of
           Some (PDict d) \<Rightarrow> if truthy (dget d id_field) then Some (py_str (dget d id_field)) else None
         | _ \<Rightarrow> None)"

definition probe_for ::
  "(string \<Rightarrow> pyval option) \<Rightarrow> string \<Rightarrow> hook_context \<Rightarrow> string \<times> string option \<times> dict"
where
  "probe_for loads tool ctx =
     (case map_of TOOL_PROBE_MAP tool of
        Some (probe, id_field, extract) \<Rightarrow>
          (case mapped_subject loads id_field (result_of (hc_payload ctx)) of
             Some subject \<Rightarrow> (probe, Some subject, extract (hc_payload ctx))
           | None \<Rightarrow> ([], None, []))
      | None \<Rightarrow>
          (case nonempty_str (dget (hc_metadata ctx) K_TOOL_VERIFY) of
             Some declared \<Rightarrow> (declared, None, [])
           | None \<Rightarrow> ([], None, [])))"

definition written_before :: "bool \<Rightarrow> string \<Rightarrow> side_effect_db \<Rightarrow> bool" where
  "written_before unreadable key db =
     (\<not> unreadable \<and>
      (case se_get key db of
         None \<Rightarrow> False
       | Some r \<Rightarrow> dget (se_probe_metadata r) ''pre_recorded'' = PBool True \<and> se_status r = ''pending''))"

definition is_own_stream_row :: "bool \<Rightarrow> string \<Rightarrow> string \<Rightarrow> hook_context \<Rightarrow> side_effect_db \<Rightarrow> bool" where
  "is_own_stream_row unreadable key tool ctx db =
     (if dget (hc_payload ctx) ''stream_item'' = PNone
         \<and> dget (hc_payload ctx) ''stream_end'' \<noteq> PBool True then False
      else \<not> unreadable \<and> (case se_get key db of None \<Rightarrow> False | Some r \<Rightarrow> se_tool r = tool))"

text \<open>The error a settled call is recorded with: the class the runner stamped, or a stream that stopped
  part-way.\<close>

definition settle_error :: "hook_context \<Rightarrow> string option" where
  "settle_error ctx =
     (case nonempty_str (dget (hc_metadata ctx) K_TOOL_ERROR) of
        Some e \<Rightarrow> Some e
      | None \<Rightarrow> if dget (hc_payload ctx) ''stream_partial'' = PBool True then Some ''PartialStream'' else None)"

definition warn_allow :: "string \<Rightarrow> hook_decision" where
  "warn_allow reason = (decision Allow reason)\<lparr>hd_severity := SevWarn\<rparr>"

definition settle ::
  "pyexn option \<Rightarrow> se_env \<Rightarrow> string \<Rightarrow> string \<Rightarrow> string \<times> string option \<times> dict \<Rightarrow> hook_context \<Rightarrow> side_effect_db
    \<Rightarrow> hook_decision \<times> side_effect_db"
where
  "settle fault env key tool probe ctx db =
     (if dget (hc_payload ctx) ''stream_item'' \<noteq> PNone then
        (decision Allow ''post_tool_use_ledger: stream item'', db)
      else
        let (probe_name, subject, meta) = probe;
            error = settle_error ctx;
            status = (if error \<noteq> None then ''error'' else ''completed'');
            named = (status = ''completed'' \<and> probe_name \<noteq> []);
            subj = (case subject of Some s \<Rightarrow> if s \<noteq> [] then s else key | None \<Rightarrow> key)
        in case fault of
             Some _ \<Rightarrow> (warn_allow (''post_tool_use_ledger: could not settle '' @ tool), db)
           | None \<Rightarrow>
               ((decision Allow (''post_tool_use_ledger: settled '' @ tool @ '' as '' @ status))
                  \<lparr>hd_audit_metadata := [(K_SIDE_EFFECT_ID, PStr key), (''status'', PStr status)]\<rparr>,
                snd (se_finalize key status error
                  (if named then Some probe_name else None)
                  (if named then Some (dset ''subject'' (PStr subj) meta) else None) env db)))"

definition post_request :: "call_state \<Rightarrow> hook_context \<Rightarrow> string \<Rightarrow> string \<times> string option \<times> dict \<Rightarrow> string \<Rightarrow> se_request" where
  "post_request calls ctx tool probe effect =
     (let (probe_name, subject, meta) = probe; key = key_of ctx;
          subj = (case subject of Some s \<Rightarrow> if s \<noteq> [] then s else key | None \<Rightarrow> key)
      in \<lparr>sr_run_id = hc_run_id ctx, sr_step_id = step_or_0 ctx, sr_tool = tool,
          sr_verification_probe = probe_name,
          sr_probe_metadata = dset ''effect'' (PStr effect) (dset ''subject'' (PStr subj) meta),
          sr_side_effect_id = Some key, sr_exclusive = True,
          sr_identity = identity_kwargs calls (call_id_of (hc_metadata ctx))\<rparr>)"

definition PostToolUseLedgerHook_call ::
  "bool \<Rightarrow> bool \<Rightarrow> pyexn option \<Rightarrow> (string \<Rightarrow> pyval option) \<Rightarrow> call_state \<Rightarrow> se_env \<Rightarrow> hook_context \<Rightarrow> side_effect_db
    \<Rightarrow> hook_decision \<times> side_effect_db"
where
  "PostToolUseLedgerHook_call high_risk_only unreadable fault loads calls env ctx db =
     (let tool = tool_name_of (hc_payload ctx); effect = dget (hc_metadata ctx) K_TOOL_EFFECT;
          key = key_of ctx; probe = probe_for loads tool ctx
      in case effect of
           PStr e \<Rightarrow>
             if tool = [] \<or> e = ''read'' then (decision Allow ''post_tool_use_ledger: not a side effect'', db)
             else if high_risk_only
                  \<and> \<not> pinned_by_declaration effect (dget (hc_metadata ctx) K_TOOL_CONFIRM) then
               (decision Allow ''post_tool_use_ledger: not recorded (high-risk only)'', db)
             else if written_before unreadable key db then settle fault env key tool probe ctx db
             else
               (case try_record fault (post_request calls ctx tool probe e) env db of
                  (Inl exc, db1) \<Rightarrow>
                    (if exn_class exc = ''SideEffectKeyExists'' then
                       (if is_own_stream_row unreadable key tool ctx db1
                        then decision Allow ''post_tool_use_ledger: stream already recorded''
                        else warn_allow (''post_tool_use_ledger: could not record '' @ tool
                               @ '': its key is already taken''))
                     else warn_allow (''post_tool_use_ledger: could not record '' @ tool), db1)
                | (Inr _, db1) \<Rightarrow>
                    ((decision Allow (''post_tool_use_ledger: recorded '' @ tool @ '' side effect''))
                       \<lparr>hd_audit_metadata := [(K_SIDE_EFFECT_ID, PStr key),
                          (''probe'', PStr (if fst probe = [] then ''none'' else fst probe))]\<rparr>, db1))
         | _ \<Rightarrow> (decision Allow ''post_tool_use_ledger: not a side effect'', db))"

section \<open>History\<close>

datatype se_op =
    SeRecord se_request se_env
  | SeSetStatus string string "string option" se_env
  | SeFinalize string string "string option" "string option" "dict option" se_env

fun se_next :: "side_effect_db \<Rightarrow> se_op \<Rightarrow> side_effect_db" where
  "se_next db (SeRecord rq env) = snd (se_record rq env db)"
| "se_next db (SeSetStatus i st err env) = se_set_status i st err env db"
| "se_next db (SeFinalize i st err p m env) = snd (se_finalize i st err p m env db)"

definition history :: "string \<Rightarrow> side_effect_db \<Rightarrow> string list" where
  "history i db = map ev_status (filter (\<lambda>e. ev_side_effect_id e = i) (sl_events db))"

definition ledger_ok :: "side_effect_db \<Rightarrow> bool" where
  "ledger_ok db \<longleftrightarrow> distinct (map se_side_effect_id (sl_rows db))
     \<and> (\<forall>r \<in> set (sl_rows db). history (se_side_effect_id r) db \<noteq> []
          \<and> last (history (se_side_effect_id r) db) = se_status r)"

lemma append_event_rows [simp]: "sl_rows (append_event a b c d e db) = sl_rows db"
  by (simp add: append_event_def)

lemma append_event_events:
  "sl_events (append_event a b i st c db) = sl_events db @
     [\<lparr>ev_event_id = a, ev_side_effect_id = i, ev_status = st, ev_ts = b, ev_call_id = c\<rparr>]"
  by (simp add: append_event_def)

lemma history_append_event [simp]:
  "history j (append_event a b i st c db) = history j db @ (if j = i then [st] else [])"
  by (simp add: history_def append_event_def)

lemma history_rows [simp]: "history i (db\<lparr>sl_rows := rows\<rparr>) = history i db"
  by (simp add: history_def)

lemma ledger_ok_update:
  assumes "ledger_ok db" and "\<And>r. se_side_effect_id (g r) = se_side_effect_id r" and "\<And>r. se_status (g r) = st"
  shows "ledger_ok (append_event a b i st c
           (db\<lparr>sl_rows := update_where (\<lambda>r. se_side_effect_id r = i) g (sl_rows db)\<rparr>))"
  using assms by (auto simp: ledger_ok_def set_update_where)

lemma se_next_ok: "ledger_ok db \<Longrightarrow> ledger_ok (se_next db a)"
proof (cases a)
  case (SeRecord rq env)
  assume ok: "ledger_ok db"
  show ?thesis
    using ok SeRecord
    by (auto simp: se_record_def Let_def ledger_ok_def se_get_def se_row_of_def lookup_by_None_iff image_iff)
next
  case (SeSetStatus i st err env)
  assume "ledger_ok db"
  then show ?thesis
    unfolding SeSetStatus se_next.simps se_set_status_def Let_def by (rule ledger_ok_update) simp_all
next
  case (SeFinalize i st err p m env)
  assume ok: "ledger_ok db"
  show ?thesis
  proof (cases "se_get i db")
    case None
    then show ?thesis using ok SeFinalize by (simp add: se_finalize_def)
  next
    case (Some row)
    have "ledger_ok (snd (se_finalize i st err p m env db))"
      unfolding se_finalize_def Some option.case Let_def snd_conv by (rule ledger_ok_update [OF ok]) simp_all
    then show ?thesis by (simp add: SeFinalize)
  qed
qed

interpretation ledger: invariant_system se_next ledger_ok
  by unfold_locales (rule se_next_ok)

lemma se_next_events: "\<exists>es. sl_events (se_next db a) = sl_events db @ es"
  by (cases a) (auto simp: se_record_def se_set_status_def se_finalize_def Let_def append_event_events
      split: option.splits)

interpretation ledger_events: append_log se_next sl_events
  by unfold_locales (rule se_next_events)


definition demo_se_env :: se_env where
  "demo_se_env = \<lparr>sv_now = 1, sv_uuid = ''u'', sv_ulid = ''l1'', sv_ulid2 = ''l2''\<rparr>"


section \<open>Evidence before the effect\<close>

lemma pre_deny_outcome [simp]: "hd_outcome (pre_deny tool why) = Deny"
  by (simp add: pre_deny_def)

lemma key_of_nonempty: "truthy_str (Some (key_of ctx))"
  by (simp add: key_of_def side_effect_key_def truthy_str_def)

lemma pre_record:
  "se_record (pre_request calls ctx) env db =
     (if se_get (key_of ctx) db \<noteq> None then (Raise ''SideEffectKeyExists'' (key_of ctx), db)
      else (Inr (key_of ctx),
        append_event (sv_ulid2 env) (sv_now env) (key_of ctx) ''pending''
          (ci_call_id (identity_kwargs calls (call_id_of (hc_metadata ctx))))
          (db\<lparr>sl_rows := sl_rows db @ [se_row_of (pre_request calls ctx) (key_of ctx) (sv_ulid env)]\<rparr>)))"
  by (simp add: se_record_def pre_request_def Let_def key_of_nonempty fmt_opt_def)

lemma pre_ledger_outcome:
  assumes "high_risk ctx"
    and "truthy (dget (hc_metadata ctx) ''approved_by'') \<or> dhas (hc_payload ctx) ''capability''"
    and "PreToolUseLedgerHook_call has_ledger fault calls env ctx db = (d, db')"
  shows "if has_ledger \<and> fault = None \<and> se_get (key_of ctx) db = None
         then hd_outcome d = Allow \<and> side_effect_id_of (hd_audit_metadata d) = Some (key_of ctx)
              \<and> (\<exists>row. sl_rows db' = sl_rows db @ [row] \<and> se_side_effect_id row = key_of ctx
                   \<and> se_status row = ''pending'' \<and> se_tool row = tool_name_of (hc_payload ctx)
                   \<and> se_identity row = identity_kwargs calls (call_id_of (hc_metadata ctx))
                   \<and> history (key_of ctx) db' = history (key_of ctx) db @ [''pending''])
         else hd_outcome d = Deny \<and> db' = db"
proof (cases "has_ledger \<and> fault = None \<and> se_get (key_of ctx) db = None")
  case True
  have sid: "side_effect_id_of [(K_SIDE_EFFECT_ID, PStr (key_of ctx))] = Some (key_of ctx)"
    using key_of_nonempty [of ctx] by (simp add: side_effect_id_of_def dict_simps truthy_str_def)
  let ?row = "se_row_of (pre_request calls ctx) (key_of ctx) (sv_ulid env)"
  have row: "se_side_effect_id ?row = key_of ctx" "se_status ?row = ''pending''"
    "se_tool ?row = tool_name_of (hc_payload ctx)"
    "se_identity ?row = identity_kwargs calls (call_id_of (hc_metadata ctx))"
    by (simp_all add: se_row_of_def pre_request_def)
  have "hd_outcome d = Allow \<and> hd_audit_metadata d = [(K_SIDE_EFFECT_ID, PStr (key_of ctx))]
      \<and> sl_rows db' = sl_rows db @ [?row] \<and> history (key_of ctx) db' = history (key_of ctx) db @ [''pending'']"
    using True assms by (auto simp: PreToolUseLedgerHook_call_def try_record_def pre_record Let_def)
  then show ?thesis using True sid row by auto
next
  case False
  then show ?thesis
    using assms
    by (cases fault; cases has_ledger)
      (auto simp: PreToolUseLedgerHook_call_def try_record_def pre_record Let_def split: if_splits)
qed

text \<open>An irreversible call leaves evidence before it runs. When the call is of the high-risk class and
  is approved to run (or is a capability call), the hook lets it pass only after writing its own pending
  row under the call's key, a key no row had, with the call's tool and identity, and confirms that key;
  without a ledger, with a storage error or with a taken key it denies, and the ledger is unchanged.\<close>

theorem high_risk_call_is_recorded_first:
  assumes "high_risk ctx"
    and "truthy (dget (hc_metadata ctx) ''approved_by'') \<or> dhas (hc_payload ctx) ''capability''"
    and "PreToolUseLedgerHook_call has_ledger fault calls env ctx db = (d, db')"
  shows "if has_ledger \<and> fault = None \<and> se_get (key_of ctx) db = None
         then hd_outcome d = Allow \<and> side_effect_id_of (hd_audit_metadata d) = Some (key_of ctx)
              \<and> (\<exists>row. sl_rows db' = sl_rows db @ [row] \<and> se_side_effect_id row = key_of ctx
                   \<and> se_status row = ''pending'' \<and> se_tool row = tool_name_of (hc_payload ctx)
                   \<and> se_identity row = identity_kwargs calls (call_id_of (hc_metadata ctx))
                   \<and> history (key_of ctx) db' = history (key_of ctx) db @ [''pending''])
         else hd_outcome d = Deny \<and> db' = db"
  by (rule pre_ledger_outcome [OF assms])

theorem high_risk_call_is_recorded_first_witness:
  "\<exists>d db'. PreToolUseLedgerHook_call True None empty_call_state demo_se_env
       (demo_call [(''approved_by'', PStr ''a1'')]) \<lparr>sl_rows = [], sl_events = []\<rparr> = (d, db')
     \<and> hd_outcome d = Allow \<and> map se_side_effect_id (sl_rows db') = [''r1:1:-'']"
proof -
  let ?ctx = "demo_call [(''approved_by'', PStr ''a1'')]"
  have h: "high_risk ?ctx" "truthy (dget (hc_metadata ?ctx) ''approved_by'')" "key_of ?ctx = ''r1:1:-''"
    by (simp_all add: demo_call_def demo_ctx_def high_risk_def tool_name_of_def pinned_by_declaration_def
        dict_simps key_of_def side_effect_key_def step_or_0_def show_int_def show_nat.simps call_id_of_def
        truthy_str_def char_of_def bit_0)
  obtain d db' where r: "PreToolUseLedgerHook_call True None empty_call_state demo_se_env ?ctx
      \<lparr>sl_rows = [], sl_events = []\<rparr> = (d, db')" by (metis surj_pair)
  from high_risk_call_is_recorded_first [OF h(1) disjI1 [OF h(2)] r] show ?thesis
    using r h(3) by (auto simp: se_get_def)
qed

section \<open>Settled once\<close>

lemma post_taken_key:
  assumes "se_get (key_of ctx) db \<noteq> None" and "\<not> written_before unreadable (key_of ctx) db"
  shows "snd (PostToolUseLedgerHook_call hro unreadable fault loads calls env ctx db) = db"
proof -
  have key: "sr_side_effect_id (post_request calls ctx tool p e) = Some (key_of ctx)"
    "sr_exclusive (post_request calls ctx tool p e)" for tool p e
    by (simp_all add: post_request_def Let_def split: prod.splits)
  have "\<exists>x. try_record fault (post_request calls ctx tool p e) env db = (Inl x, db)" for tool p e
    using assms(1) key_of_nonempty [of ctx]
    by (cases fault) (auto simp: try_record_def se_record_def Let_def key fmt_opt_def)
  then have refused: "\<exists>x. try_record fault (post_request calls ctx tool p e) env db = (Inl x, db)" for tool p e .
  show ?thesis
  proof (cases "dget (hc_metadata ctx) K_TOOL_EFFECT")
    case (PStr e)
    obtain x where "try_record fault (post_request calls ctx (tool_name_of (hc_payload ctx))
        (probe_for loads (tool_name_of (hc_payload ctx)) ctx) e) env db = (Inl x, db)"
      using refused by blast
    then show ?thesis using PStr assms(2) by (simp add: PostToolUseLedgerHook_call_def Let_def)
  qed (simp_all add: PostToolUseLedgerHook_call_def)
qed

lemma se_get_finalize:
  assumes "se_get i db = Some row"
  shows "se_get j (snd (se_finalize i st err p m env db)) =
    (if j = i then Some (row\<lparr>se_status := st, se_completed_at := completed_at st env, se_error := err,
       se_verification_probe := (case p of None \<Rightarrow> se_verification_probe row | Some q \<Rightarrow> q),
       se_probe_metadata := dmerge (se_probe_metadata row) (case m of None \<Rightarrow> [] | Some x \<Rightarrow> x)\<rparr>)
     else se_get j db)"
proof -
  have id: "se_side_effect_id row = i" using assms by (auto simp: se_get_def dest: lookup_by_SomeD)
  show ?thesis
    using assms id
    by (auto simp: se_finalize_def Let_def se_get_def lookup_by_update_where map_option_case
        split: option.splits dest: lookup_by_SomeD)
qed

text \<open>A recorded call is settled once, as what it was. When the call whose row was written beforehand
  has run, the hook after it never blocks, and turns that one row, under that key, from pending into
  completed, or into error with the exception class the runner stamped (never a message), keeping its
  tool and identity and touching no other row. A further firing for the same key changes nothing.\<close>

theorem recorded_call_is_settled_once:
  assumes "se_get (key_of ctx) db = Some row" and "se_status row = ''pending''"
    and "dget (se_probe_metadata row) ''pre_recorded'' = PBool True"
    and "tool_name_of (hc_payload ctx) \<noteq> []" and "dget (hc_metadata ctx) K_TOOL_EFFECT = PStr effect"
    and "effect \<noteq> ''read''"
    and "pinned_by_declaration (PStr effect) (dget (hc_metadata ctx) K_TOOL_CONFIRM)"
    and "dget (hc_payload ctx) ''stream_item'' = PNone"
    and "PostToolUseLedgerHook_call hro False None loads calls env ctx db = (d, db')"
  shows "hd_outcome d = Allow
     \<and> (\<exists>row'. se_get (key_of ctx) db' = Some row'
          \<and> se_status row' = (if settle_error ctx = None then ''completed'' else ''error'')
          \<and> se_error row' = settle_error ctx \<and> se_tool row' = se_tool row \<and> se_identity row' = se_identity row)
     \<and> (\<forall>j. j \<noteq> key_of ctx \<longrightarrow> se_get j db' = se_get j db)
     \<and> (\<forall>ctx2 hro2 unreadable2 fault2 loads2 calls2 env2. key_of ctx2 = key_of ctx \<longrightarrow>
          snd (PostToolUseLedgerHook_call hro2 unreadable2 fault2 loads2 calls2 env2 ctx2 db') = db')"
proof -
  have wb: "written_before False (key_of ctx) db" using assms(1-3) by (simp add: written_before_def)
  obtain pn sub meta where probe: "probe_for loads (tool_name_of (hc_payload ctx)) ctx = (pn, sub, meta)"
    by (metis surj_pair)
  let ?st = "if settle_error ctx = None then ''completed'' else ''error''"
  have post: "hd_outcome d = Allow \<and> (\<exists>p m. db' = snd (se_finalize (key_of ctx) ?st (settle_error ctx) p m env db))"
    using assms(4-9) wb
    by (auto simp: PostToolUseLedgerHook_call_def settle_def Let_def probe split: if_splits)
  then obtain p m where db': "db' = snd (se_finalize (key_of ctx) ?st (settle_error ctx) p m env db)" by blast
  obtain row' where row': "se_get (key_of ctx) db' = Some row'" "se_status row' = ?st"
      "se_error row' = settle_error ctx" "se_tool row' = se_tool row" "se_identity row' = se_identity row"
    by (simp add: db' se_get_finalize [OF assms(1)])
  have "snd (PostToolUseLedgerHook_call hro2 unreadable2 fault2 loads2 calls2 env2 ctx2 db') = db'"
    if "key_of ctx2 = key_of ctx" for ctx2 hro2 unreadable2 fault2 loads2 calls2 env2
    using that row' by (intro post_taken_key) (auto simp: written_before_def)
  moreover have "\<forall>j. j \<noteq> key_of ctx \<longrightarrow> se_get j db' = se_get j db"
    by (simp add: db' se_get_finalize [OF assms(1)])
  ultimately show ?thesis using post row' by blast
qed

definition demo_se_row :: side_effect_row where
  "demo_se_row = \<lparr>se_side_effect_id = key_of (demo_call []), se_run_id = ''r1'', se_step_id = 1, se_tool = ''rm'',
     se_verification_probe = [], se_probe_metadata = [(''pre_recorded'', PBool True)], se_status = ''pending'',
     se_completed_at = None, se_error = None, se_identity = identity_kwargs empty_call_state None,
     se_record_id = ''l1''\<rparr>"

theorem recorded_call_is_settled_once_witness:
  "\<exists>d db' row'. PostToolUseLedgerHook_call True False None (\<lambda>_. None) empty_call_state demo_se_env
       (demo_call [(K_TOOL_ERROR, PStr ''TimeoutError'')]) \<lparr>sl_rows = [demo_se_row], sl_events = []\<rparr> = (d, db')
     \<and> se_get (key_of (demo_call [])) db' = Some row' \<and> se_status row' = ''error'' \<and> se_error row' = Some ''TimeoutError''"
proof -
  let ?ctx = "demo_call [(K_TOOL_ERROR, PStr ''TimeoutError'')]"
  let ?db = "\<lparr>sl_rows = [demo_se_row], sl_events = []\<rparr>"
  have key: "key_of ?ctx = key_of (demo_call [])"
    by (simp add: demo_call_def demo_ctx_def key_of_def step_or_0_def call_id_of_def dict_simps)
  have row: "se_get (key_of ?ctx) ?db = Some demo_se_row" "se_status demo_se_row = ''pending''"
    "dget (se_probe_metadata demo_se_row) ''pre_recorded'' = PBool True"
    by (simp_all add: se_get_def demo_se_row_def key dict_simps)
  have ctx: "tool_name_of (hc_payload ?ctx) \<noteq> []" "dget (hc_metadata ?ctx) K_TOOL_EFFECT = PStr ''destructive''"
    "''destructive'' \<noteq> ''read''" "pinned_by_declaration (PStr ''destructive'') (dget (hc_metadata ?ctx) K_TOOL_CONFIRM)"
    "dget (hc_payload ?ctx) ''stream_item'' = PNone" "settle_error ?ctx = Some ''TimeoutError''"
    by (simp_all add: demo_call_def demo_ctx_def tool_name_of_def pinned_by_declaration_def dict_simps
        settle_error_def)
  obtain d db' where r: "PostToolUseLedgerHook_call True False None (\<lambda>_. None) empty_call_state demo_se_env ?ctx ?db
      = (d, db')" by (metis surj_pair)
  from recorded_call_is_settled_once [OF row ctx(1-5) r] show ?thesis
    using r ctx(6) key by auto
qed

end
