(* ===== verification/Bots.thy ===== *)
theory Bots
  imports Approvals_Service
begin

text \<open>
  Bot identities (\<open>bots/store.py\<close>, \<open>bots/service.py\<close>): one row per bot, whose status decides whether the
  bot's calls run, and the status hook (\<open>plugins/bot_status.py\<close>) that reads it, through a short cache, at
  every governed call. The clock, a fresh ULID and the file system are arguments.
\<close>

section \<open>Names and paths\<close>

definition name_start :: "char \<Rightarrow> bool" where
  "name_start c = is_lower_char c"

definition name_char :: "char \<Rightarrow> bool" where
  "name_char c = (is_lower_char c \<or> is_digit_char c \<or> c = CHR ''_'' \<or> c = CHR ''-'')"

definition valid_bot_name :: "string \<Rightarrow> bool" where
  "valid_bot_name s =
     (case s of [] \<Rightarrow> False
      | c # cs \<Rightarrow> name_start c \<and> list_all name_char cs \<and> 1 \<le> length cs \<and> length cs \<le> 31)"

definition validate_bot_name :: "string \<Rightarrow> string result" where
  "validate_bot_name name =
     (if valid_bot_name name then Inr name
      else Raise ''ValueError''
        (''a bot name is 2 to 32 lower-case letters, digits, '_' or '-', starting with a ''
         @ ''letter; got '' @ repr_str name))"

definition is_hex_char :: "char \<Rightarrow> bool" where
  "is_hex_char c = (is_digit_char c \<or> char_in 97 102 c)"

definition validate_definition_sha256 :: "string \<Rightarrow> string result" where
  "validate_definition_sha256 digest =
     (let value = py_lower digest in
      if length value = 64 \<and> list_all is_hex_char value then Inr value
      else Raise ''ValueError'' ''definition_sha256 must be 64 hexadecimal characters'')"

definition BOT_STATUSES :: "string list" where
  "BOT_STATUSES = [''active'', ''disabled'', ''revoked'']"

definition validate_bot_status :: "string \<Rightarrow> string result" where
  "validate_bot_status status =
     (if status \<in> set BOT_STATUSES then Inr status
      else Raise ''ValueError'' (''status must be one of '' @ join '', '' BOT_STATUSES @ ''; got ''
             @ repr_str status))"

text \<open>The file system as the code asks it: the resolved home, \<open>expanduser\<close>, \<open>resolve\<close> (follows symbolic
  links), existence and identity. \<open>normcase\<close> is the identity on POSIX.\<close>

record file_system =
  fs_home :: string
  fs_expanduser :: "string \<Rightarrow> string"
  fs_resolve :: "string \<Rightarrow> string"
  fs_exists :: "string \<Rightarrow> bool"
  fs_samefile :: "string \<Rightarrow> string \<Rightarrow> bool"

definition bot_workspace :: "file_system \<Rightarrow> string \<Rightarrow> string result" where
  "bot_workspace fs name =
     (case validate_bot_name name of
        Inl e \<Rightarrow> Inl e | Inr n \<Rightarrow> Inr (fs_home fs @ ''/bots/'' @ n))"

definition resolve_workspace :: "file_system \<Rightarrow> string \<Rightarrow> string \<Rightarrow> string result" where
  "resolve_workspace fs name raw =
     (case bot_workspace fs name of
        Inl e \<Rightarrow> Inl e
      | Inr expected \<Rightarrow>
          if raw = [] then Raise ''ValueError'' ''workspace_path must not be empty''
          else let path = fs_expanduser fs raw in
            if \<not> startswith path ''/'' then
              Raise ''ValueError'' (''workspace_path must be absolute; got '' @ repr_str raw)
            else
              let resolved = fs_resolve fs path;
                  same = (py_lower resolved = py_lower expected);
                  same2 = (if same \<and> fs_exists fs resolved \<and> fs_exists fs expected
                           then fs_samefile fs resolved expected else same)
              in if \<not> same2 then
                   Raise ''ValueError'' (''workspace_path must be '' @ expected @ '' (<home>/bots/<name>); got ''
                     @ repr_str raw)
                 else Inr expected)"

section \<open>Which bot the process runs\<close>

type_synonym process_bot_state = "(string option \<times> string option) option"

definition read_bot_env :: "string \<Rightarrow> string option \<times> string option" where
  "read_bot_env env =
     (let raw = strip env in
      if raw = [] then (None, None)
      else case validate_bot_name raw of Inr n \<Rightarrow> (Some n, None) | Inl e \<Rightarrow> (None, Some (exn_msg e)))"

definition process_bot ::
  "string \<Rightarrow> process_bot_state \<Rightarrow> (string option \<times> string option) \<times> process_bot_state"
where
  "process_bot env st =
     (case st of Some v \<Rightarrow> (v, st) | None \<Rightarrow> (read_bot_env env, Some (read_bot_env env)))"

definition is_bot_process :: "string option \<times> string option \<Rightarrow> bool" where
  "is_bot_process p = (fst p \<noteq> None \<or> snd p \<noteq> None)"

section \<open>The store\<close>

record bot_identity =
  bi_bot_id :: string
  bi_name :: string
  bi_status :: string
  bi_workspace_path :: string
  bi_vault_namespace :: string
  bi_memory_scope :: string
  bi_definition_sha256 :: string
  bi_created_at :: timestamp
  bi_updated_at :: timestamp
  bi_revoked_at :: "timestamp option"

type_synonym bots_db = "bot_identity list"

definition bot_get :: "string \<Rightarrow> bots_db \<Rightarrow> bot_identity option" where
  "bot_get name db = lookup_by bi_name name db"

definition bot_list :: "bots_db \<Rightarrow> bot_identity list" where
  "bot_list db = sort_key bi_created_at (sort_key bi_bot_id db)"

definition bot_update :: "string \<Rightarrow> (bot_identity \<Rightarrow> bot_identity) \<Rightarrow> bots_db \<Rightarrow> bots_db" where
  "bot_update bot_id g db = update_where (\<lambda>r. bi_bot_id r = bot_id) g db"

definition read_back :: "string \<Rightarrow> bots_db \<Rightarrow> bot_identity result" where
  "read_back bot_id db =
     (case lookup_by bi_bot_id bot_id db of None \<Rightarrow> Raise ''TypeError'' [] | Some r \<Rightarrow> Inr r)"

definition new_bot :: "string \<Rightarrow> string \<Rightarrow> string \<Rightarrow> string \<Rightarrow> timestamp \<Rightarrow> bot_identity" where
  "new_bot ulid name workspace digest now =
     \<lparr>bi_bot_id = ulid, bi_name = name, bi_status = ''active'', bi_workspace_path = workspace,
      bi_vault_namespace = ''bot:'' @ name, bi_memory_scope = ''bot:'' @ name,
      bi_definition_sha256 = digest, bi_created_at = now, bi_updated_at = now, bi_revoked_at = None\<rparr>"

definition bot_register ::
  "file_system \<Rightarrow> string \<Rightarrow> string \<Rightarrow> string \<Rightarrow> timestamp \<Rightarrow> string \<Rightarrow> bots_db \<Rightarrow> bot_identity result \<times> bots_db"
where
  "bot_register fs name workspace_path definition_sha256 now ulid db =
     (case validate_bot_name name of Inl e \<Rightarrow> (Inl e, db) | Inr n \<Rightarrow>
      (case validate_definition_sha256 definition_sha256 of Inl e \<Rightarrow> (Inl e, db) | Inr digest \<Rightarrow>
       (case resolve_workspace fs n workspace_path of Inl e \<Rightarrow> (Inl e, db) | Inr workspace \<Rightarrow>
        (case bot_get n db of
           Some row \<Rightarrow>
             if bi_status row = ''revoked'' then
               (Raise ''BotRevokedError'' (''bot '' @ repr_str n @ '' is revoked and cannot be registered''), db)
             else if bi_workspace_path row \<noteq> workspace then
               (Raise ''ValueError'' (''bot '' @ repr_str n @ '' is registered with workspace ''
                  @ repr_str (bi_workspace_path row) @ ''; a register with '' @ repr_str workspace
                  @ '' is refused (the workspace never moves)''), db)
             else
               let db' = bot_update (bi_bot_id row)
                           (\<lambda>r. r\<lparr>bi_definition_sha256 := digest, bi_updated_at := now\<rparr>) db
               in (read_back (bi_bot_id row) db', db')
         | None \<Rightarrow>
             (case find (\<lambda>r. py_lower (bi_workspace_path r) = py_lower workspace) db of
                Some other \<Rightarrow>
                  (Raise ''ValueError'' (''workspace '' @ repr_str workspace @ '' is the workspace of bot ''
                     @ repr_str (bi_name other) @ ''; two bots never share a folder (B3)''), db)
              | None \<Rightarrow>
                  if ulid \<in> bi_bot_id ` set db then
                    (Raise ''IntegrityError'' ''UNIQUE constraint failed: bot_identity.bot_id'', db)
                  else
                    let db' = db @ [new_bot ulid n workspace digest now] in (read_back ulid db', db'))))))"

definition bot_set_status ::
  "string \<Rightarrow> string \<Rightarrow> timestamp \<Rightarrow> bots_db \<Rightarrow> bot_identity result \<times> bots_db"
where
  "bot_set_status name status now db =
     (case validate_bot_status status of
        Inl e \<Rightarrow> (Inl e, db)
      | Inr target \<Rightarrow>
          (case bot_get name db of
             None \<Rightarrow> (Raise ''BotNotFoundError'' name, db)
           | Some row \<Rightarrow>
               if bi_status row = ''revoked'' then
                 (Raise ''BotRevokedError'' (''bot '' @ repr_str name @ '' is revoked; revoked is terminal''), db)
               else
                 let db' = bot_update (bi_bot_id row)
                             (\<lambda>r. if target = ''revoked''
                                  then r\<lparr>bi_status := ''revoked'', bi_revoked_at := Some now, bi_updated_at := now\<rparr>
                                  else r\<lparr>bi_status := target, bi_updated_at := now\<rparr>) db
                 in (read_back (bi_bot_id row) db', db')))"

section \<open>The service\<close>

definition refuse_in_a_bot :: "string \<Rightarrow> string option \<times> string option \<Rightarrow> unit result" where
  "refuse_in_a_bot event process =
     (if is_bot_process process then
        Raise ''BotWriteRefusedError''
          (event @ '': a bot's own process (EVARNESS_BOT set) may not change a bot identity'')
      else Inr ())"

definition bot_entry :: "bot_identity \<Rightarrow> string \<Rightarrow> string \<Rightarrow> string \<Rightarrow> string \<Rightarrow> audit_entry" where
  "bot_entry row actor reason event sev =
     \<lparr>ae_run_id = ''bot:'' @ bi_name row, ae_step_id = None, ae_agent_type = ''bots'',
      ae_hook_point = ''bot_identity'', ae_plugin = ''BotService'', ae_decision = ''allow'',
      ae_severity = sev, ae_reason = reason, ae_classification = None, ae_tier = None,
      ae_payload = [(''event'', PStr event), (''subject_bot_id'', PStr (bi_bot_id row)),
        (''bot_name'', PStr (bi_name row)), (''status'', PStr (bi_status row)),
        (''definition_sha256'', PStr (bi_definition_sha256 row)), (''actor'', PStr actor)]\<rparr>"

text \<open>Record the event and hand the row back; a ledger that raises is the caller's exception, after the
  change is committed.\<close>

definition bot_audited ::
  "'s audit_sink \<Rightarrow> audit_entry \<Rightarrow> bot_identity \<Rightarrow> bots_db \<Rightarrow> 's \<Rightarrow> bot_identity result \<times> bots_db \<times> 's"
where
  "bot_audited sink e row db s =
     (case sink e s of (Inl x, s') \<Rightarrow> (Inl x, db, s') | (Inr _, s') \<Rightarrow> (Inr row, db, s'))"

definition service_register ::
  "'s audit_sink \<Rightarrow> file_system \<Rightarrow> string option \<times> string option \<Rightarrow> string \<Rightarrow> string \<Rightarrow> string \<Rightarrow> string
    \<Rightarrow> timestamp \<Rightarrow> string \<Rightarrow> bots_db \<Rightarrow> 's \<Rightarrow> bot_identity result \<times> bots_db \<times> 's"
where
  "service_register sink fs process name workspace_path sha actor now ulid db s =
     (case refuse_in_a_bot ''bot.register'' process of
        Inl e \<Rightarrow> (Inl e, db, s)
      | Inr _ \<Rightarrow>
          (case bot_register fs name workspace_path sha now ulid db of
             (Inl e, db') \<Rightarrow> (Inl e, db', s)
           | (Inr row, db') \<Rightarrow>
               bot_audited sink
                 (bot_entry row actor
                    (if bot_get name db = None then ''bot '' @ repr_str (bi_name row) @ '' registered''
                     else ''bot '' @ repr_str (bi_name row) @ '' re-registered (definition updated)'')
                    ''bot.register'' ''info'') row db' s))"

definition service_set_status ::
  "'s audit_sink \<Rightarrow> string option \<times> string option \<Rightarrow> bool \<Rightarrow> string \<Rightarrow> string \<Rightarrow> string \<Rightarrow> timestamp \<Rightarrow> bots_db
    \<Rightarrow> 's \<Rightarrow> bot_identity result \<times> bots_db \<times> 's"
where
  "service_set_status sink process file_exists name status actor now db s =
     (case refuse_in_a_bot ''bot.status'' process of
        Inl e \<Rightarrow> (Inl e, db, s)
      | Inr _ \<Rightarrow>
          (case (if file_exists then bot_set_status name status now db
                 else (Raise ''BotNotFoundError'' name, db)) of
             (Inl e, db') \<Rightarrow> (Inl e, db', s)
           | (Inr row, db') \<Rightarrow>
               bot_audited sink
                 (bot_entry row actor (''bot '' @ repr_str (bi_name row) @ '' set to '' @ bi_status row)
                    ''bot.status'' (if bi_status row = ''revoked'' then ''warn'' else ''info'')) row db' s))"

definition current_bot_identity ::
  "string option \<times> string option \<Rightarrow> bots_db option \<Rightarrow> bot_identity option result"
where
  "current_bot_identity process store =
     (case snd process of
        Some error \<Rightarrow> Raise ''ValueError'' error
      | None \<Rightarrow>
          (case fst process of
             None \<Rightarrow> Inr None
           | Some name \<Rightarrow>
               (case (case store of None \<Rightarrow> None | Some db \<Rightarrow> bot_get name db) of
                  None \<Rightarrow> Raise ''BotNotFoundError'' name | Some row \<Rightarrow> Inr (Some row))))"

section \<open>The status hook\<close>

text \<open>Times are microseconds of the monotonic clock. One call asks the clock when it looks at the cache
  and again when it reads; \<open>bc_read\<close> is what opening the store and reading the row answers, an
  exception included.\<close>

definition BOT_STATUS_CACHE_TTL :: int where
  "BOT_STATUS_CACHE_TTL = 2000000"

record bot_hook =
  bh_bot_name :: "string option"
  bh_name_error :: "string option"
  bh_ttl :: int

record bot_cache =
  bk_cached :: "bot_identity option"
  bk_cached_at :: "int option"
  bk_bot_id :: "string option"

record bot_call =
  bc_now_fresh :: int
  bc_now_read :: int
  bc_read :: "bot_identity option result"
  bc_ctx :: hook_context

definition empty_bot_cache :: bot_cache where
  "empty_bot_cache = \<lparr>bk_cached = None, bk_cached_at = None, bk_bot_id = None\<rparr>"

definition is_fresh :: "bot_hook \<Rightarrow> int \<Rightarrow> bot_cache \<Rightarrow> bool" where
  "is_fresh h now c = (case bk_cached_at c of None \<Rightarrow> False | Some t \<Rightarrow> now - t < bh_ttl h)"

definition bot_read ::
  "bot_hook \<Rightarrow> int \<Rightarrow> bot_identity option result \<Rightarrow> bot_cache \<Rightarrow> bot_identity option result \<times> bot_cache"
where
  "bot_read h now read c =
     (if is_fresh h now c then (Inr (bk_cached c), c)
      else case read of
             Inl e \<Rightarrow> (Inl e, c)
           | Inr row \<Rightarrow>
               (Inr row, c\<lparr>bk_cached := row, bk_cached_at := Some now,
                  bk_bot_id := (case row of None \<Rightarrow> bk_bot_id c | Some r \<Rightarrow> Some (bi_bot_id r))\<rparr>))"

definition audit_bot_id ::
  "bot_hook \<Rightarrow> int \<Rightarrow> bot_identity option result \<Rightarrow> bot_cache \<Rightarrow> string option \<times> bot_cache"
where
  "audit_bot_id h now read c =
     (if bh_bot_name h = None then (None, c)
      else if bk_bot_id c = None then
        (case bot_read h now read c of
           (Inl _, c') \<Rightarrow> (None, c')
         | (Inr _, c') \<Rightarrow> (bk_bot_id c', c'))
      else (bk_bot_id c, c))"

definition invalidate :: "bot_cache \<Rightarrow> bot_cache" where
  "invalidate c = c\<lparr>bk_cached := None, bk_cached_at := None\<rparr>"

definition bot_deny :: "string \<Rightarrow> dict \<Rightarrow> hook_decision" where
  "bot_deny reason md = (decision Deny (''bot_status: '' @ reason))
     \<lparr>hd_severity := (if dhas md ''error'' then SevError else SevWarn), hd_audit_metadata := md\<rparr>"

definition bot_verdict :: "string \<Rightarrow> bot_identity option \<Rightarrow> hook_decision" where
  "bot_verdict name row =
     (case row of
        None \<Rightarrow>
          bot_deny (''bot '' @ repr_str name @ '' has no identity row; register it before it runs'')
            [(K_BOT_NAME, PStr name), (''status'', PStr ''unregistered'')]
      | Some r \<Rightarrow>
          if bi_status r = ''active'' then
            (decision Allow (''bot_status: bot '' @ repr_str (bi_name r) @ '' is active''))
              \<lparr>hd_audit_metadata := [(K_BOT_ID, PStr (bi_bot_id r)), (K_BOT_NAME, PStr (bi_name r))]\<rparr>
          else
            bot_deny (''bot '' @ repr_str (bi_name r) @ '' is '' @ bi_status r @ ''; its calls are denied'')
              [(K_BOT_ID, PStr (bi_bot_id r)), (K_BOT_NAME, PStr (bi_name r)), (''status'', PStr (bi_status r))])"

definition BotStatusHook_call :: "bot_hook \<Rightarrow> bot_call \<Rightarrow> bot_cache \<Rightarrow> hook_decision \<times> bot_cache" where
  "BotStatusHook_call h call c =
     (case bh_name_error h of
        Some error \<Rightarrow>
          (bot_deny (''EVARNESS_BOT is not a valid bot name ('' @ error @ ''); every call is denied'')
             [(''error'', PStr ''InvalidBotName'')], c)
      | None \<Rightarrow>
          (case bh_bot_name h of
             None \<Rightarrow> (decision Allow ''bot_status: not a bot process'', c)
           | Some name \<Rightarrow>
               if is_fresh h (bc_now_fresh call) c then (bot_verdict name (bk_cached c), c)
               else
                 (case bot_read h (bc_now_read call) (bc_read call) c of
                    (Inl exc, c') \<Rightarrow>
                      (bot_deny (''the bot identity store could not be read ('' @ exn_class exc
                          @ ''); every call is denied until it can'')
                         [(K_BOT_NAME, PStr name), (''error'', PStr (exn_class exc))], c')
                  | (Inr row, c') \<Rightarrow> (bot_verdict name row, c'))))"

section \<open>Revocation is final\<close>

datatype bot_op =
    BotRegister file_system string string string timestamp string
  | BotSetStatus string string timestamp

fun bot_next :: "bots_db \<Rightarrow> bot_op \<Rightarrow> bots_db" where
  "bot_next db (BotRegister fs n ws sha now ulid) = snd (bot_register fs n ws sha now ulid db)"
| "bot_next db (BotSetStatus n st now) = snd (bot_set_status n st now db)"

definition bot_ok :: "bot_identity \<Rightarrow> bool" where
  "bot_ok r \<longleftrightarrow> bi_status r \<in> set BOT_STATUSES \<and> (bi_revoked_at r \<noteq> None \<longleftrightarrow> bi_status r = ''revoked'')
     \<and> valid_bot_name (bi_name r)
     \<and> bi_vault_namespace r = ''bot:'' @ bi_name r \<and> bi_memory_scope r = ''bot:'' @ bi_name r"

definition bots_ok :: "bots_db \<Rightarrow> bool" where
  "bots_ok db \<longleftrightarrow> distinct (map bi_name db) \<and> distinct (map bi_bot_id db)
     \<and> distinct (map (\<lambda>r. py_lower (bi_workspace_path r)) db) \<and> (\<forall>r \<in> set db. bot_ok r)"

text \<open>Every change is a keyed update of one row, not revoked before, or the addition of a new bot.\<close>

inductive bot_change :: "bots_db \<Rightarrow> bots_db \<Rightarrow> bool" where
  same: "bot_change db db"
| upd: "\<lbrakk>row \<in> set db; bi_status row \<noteq> ''revoked'';
     g = (\<lambda>r. r\<lparr>bi_definition_sha256 := d, bi_updated_at := now\<rparr>)
     \<or> g = (\<lambda>r. r\<lparr>bi_status := ''revoked'', bi_revoked_at := Some now, bi_updated_at := now\<rparr>)
     \<or> (\<exists>st \<in> {''active'', ''disabled''}. g = (\<lambda>r. r\<lparr>bi_status := st, bi_updated_at := now\<rparr>))\<rbrakk>
     \<Longrightarrow> bot_change db (bot_update (bi_bot_id row) g db)"
| add: "\<lbrakk>bot_get n db = None; valid_bot_name n; ulid \<notin> bi_bot_id ` set db;
     \<forall>r \<in> set db. py_lower (bi_workspace_path r) \<noteq> py_lower ws\<rbrakk>
     \<Longrightarrow> bot_change db (db @ [new_bot ulid n ws digest now])"

lemma bot_get_SomeD: "bot_get n db = Some r \<Longrightarrow> r \<in> set db \<and> bi_name r = n"
  by (auto simp: bot_get_def dest: lookup_by_SomeD)

lemma find_None_all: "find P xs = None \<Longrightarrow> x \<in> set xs \<Longrightarrow> \<not> P x"
  by (simp add: find_None_iff)

lemma validate_bot_name_Inr: "validate_bot_name n = Inr m \<Longrightarrow> m = n \<and> valid_bot_name n"
  by (simp add: validate_bot_name_def split: if_splits)

lemma bot_register_change: "bot_change db (snd (bot_register fs n ws sha now ulid db))"
proof (cases "validate_bot_name n")
  case (Inl e)
  then show ?thesis by (simp add: bot_register_def same)
next
  case (Inr m)
  have valid: "valid_bot_name m" using validate_bot_name_Inr [OF Inr] by simp
  show ?thesis
  proof (cases "validate_definition_sha256 sha")
    case (Inl e)
    then show ?thesis by (simp add: bot_register_def Inr same)
  next
    case digest: (Inr digest)
    show ?thesis
    proof (cases "resolve_workspace fs m ws")
      case (Inl e)
      then show ?thesis by (simp add: bot_register_def Inr digest same)
    next
      case w: (Inr w)
      show ?thesis
      proof (cases "bot_get m db")
        case (Some row)
        then show ?thesis
          using bot_get_SomeD [OF Some] by (simp add: bot_register_def Inr digest w Let_def same) (blast intro: upd)
      next
        case None
        show ?thesis
        proof (cases "find (\<lambda>r. py_lower (bi_workspace_path r) = py_lower w) db")
          case (Some other)
          then show ?thesis by (simp add: bot_register_def Inr digest w None same)
        next
          case free: None
          have unshared: "\<forall>r \<in> set db. py_lower (bi_workspace_path r) \<noteq> py_lower w"
            using free by (auto dest: find_None_all)
          then show ?thesis
            using bot_change.add [OF None valid _ unshared]
            by (simp add: bot_register_def Inr digest w None free Let_def same)
        qed
      qed
    qed
  qed
qed

lemma bot_set_status_change: "bot_change db (snd (bot_set_status n st now db))"
proof (cases "validate_bot_status st")
  case (Inl e)
  then show ?thesis by (simp add: bot_set_status_def same)
next
  case (Inr target)
  then have st: "target \<in> {''active'', ''disabled'', ''revoked''}"
    by (auto simp: validate_bot_status_def BOT_STATUSES_def split: if_splits)
  show ?thesis
  proof (cases "bot_get n db")
    case None
    then show ?thesis by (simp add: bot_set_status_def Inr same)
  next
    case (Some row)
    note row = bot_get_SomeD [OF Some]
    show ?thesis
    proof (cases "bi_status row = ''revoked''")
      case True
      then show ?thesis by (simp add: bot_set_status_def Inr Some same)
    next
      case False
      have "bot_change db (bot_update (bi_bot_id row)
          (\<lambda>r. if target = ''revoked'' then r\<lparr>bi_status := ''revoked'', bi_revoked_at := Some now, bi_updated_at := now\<rparr>
               else r\<lparr>bi_status := target, bi_updated_at := now\<rparr>) db)"
        using st row False by (cases "target = ''revoked''") (auto intro: upd)
      then show ?thesis using False by (simp add: bot_set_status_def Inr Some Let_def)
    qed
  qed
qed

lemma bot_next_change: "bot_change db (bot_next db a)"
  by (cases a) (simp_all add: bot_register_change bot_set_status_change)

lemma bot_change_ok: "bot_change db db' \<Longrightarrow> bots_ok db \<Longrightarrow> bots_ok db'"
proof (induction rule: bot_change.induct)
  case (upd row db g d now)
  have keep: "bi_name (g r) = bi_name r" "bi_bot_id (g r) = bi_bot_id r"
    "bi_workspace_path (g r) = bi_workspace_path r" for r
    using upd.hyps(3) by auto
  have ok: "bot_ok (g r)" if "bot_ok r" "bi_status r \<noteq> ''revoked''" for r
    using upd.hyps(3) that by (auto simp: bot_ok_def BOT_STATUSES_def)
  have only: "r = row" if "r \<in> set db" "bi_bot_id r = bi_bot_id row" for r
    using that upd.prems upd.hyps(1) by (auto simp: bots_ok_def distinct_map inj_on_def)
  have "bot_ok r" if "r \<in> set (bot_update (bi_bot_id row) g db)" for r
    using that upd.prems upd.hyps(2) ok only
    by (auto simp: bot_update_def set_update_where bots_ok_def split: if_splits)
  then show ?case
    using upd.prems by (auto simp: bots_ok_def bot_update_def keep)
next
  case (add n db ulid ws digest now)
  then show ?case
    by (auto simp: bots_ok_def bot_ok_def new_bot_def bot_get_def lookup_by_None_iff BOT_STATUSES_def)
qed simp

interpretation bots: invariant_system bot_next bots_ok
  by unfold_locales (rule bot_change_ok [OF bot_next_change])

lemma bot_change_frozen:
  "bot_change db db' \<Longrightarrow> bots_ok db \<Longrightarrow> bot_get n db = Some r \<Longrightarrow> bi_status r = ''revoked'' \<Longrightarrow> bot_get n db' = Some r"
proof (induction rule: bot_change.induct)
  case (upd row db g d now)
  have name: "bi_name (g r) = bi_name r" for r using upd.hyps(3) by auto
  have "r \<in> set db" using bot_get_SomeD [OF upd.prems(2)] by simp
  then have "bi_bot_id r \<noteq> bi_bot_id row"
    using upd.prems(1,3) upd.hyps(1,2) by (auto simp: bots_ok_def distinct_map inj_on_def)
  then show ?case
    using upd.prems(2) by (simp add: bot_get_def bot_update_def lookup_by_update_where name)
qed (auto simp: bot_get_def)

definition revoked_bot :: "bot_identity option \<Rightarrow> bool" where
  "revoked_bot v = (case v of None \<Rightarrow> False | Some r \<Rightarrow> bi_status r = ''revoked'')"

interpretation revoked: frozen_view bot_next bots_ok "bot_get n" revoked_bot for n
proof (unfold_locales, goal_cases)
  case (1 db a)
  then show ?case
    using bot_change_frozen [OF bot_next_change 1(1)] by (cases "bot_get n db") (auto simp: revoked_bot_def)
qed

text \<open>What keeps two bots apart never changes under a bot.\<close>

definition bot_identity_of :: "string \<Rightarrow> bots_db \<Rightarrow> (string \<times> string \<times> string \<times> string \<times> timestamp) option" where
  "bot_identity_of n db = map_option
     (\<lambda>r. (bi_bot_id r, bi_workspace_path r, bi_vault_namespace r, bi_memory_scope r, bi_created_at r)) (bot_get n db)"

lemma bot_change_identity: "bot_change db db' \<Longrightarrow> bot_identity_of n db \<noteq> None \<Longrightarrow> bot_identity_of n db' = bot_identity_of n db"
proof (induction rule: bot_change.induct)
  case (upd row db g d now)
  have keep: "bi_name (g r) = bi_name r" "bi_bot_id (g r) = bi_bot_id r" "bi_workspace_path (g r) = bi_workspace_path r"
    "bi_vault_namespace (g r) = bi_vault_namespace r" "bi_memory_scope (g r) = bi_memory_scope r"
    "bi_created_at (g r) = bi_created_at r" for r
    using upd.hyps(3) by auto
  show ?case
    by (cases "bot_get n db")
      (simp_all add: bot_identity_of_def bot_get_def bot_update_def lookup_by_update_where keep)
qed (auto simp: bot_identity_of_def bot_get_def)

interpretation bot_id: frozen_view bot_next bots_ok "bot_identity_of n" "\<lambda>v. v \<noteq> None" for n
  by unfold_locales (rule bot_change_identity [OF bot_next_change])

text \<open>Revocation is final, and bots stay apart. Through any sequence of registrations and status
  changes, names, ids and (case-insensitively) workspaces are unique, a bot's vault namespace and memory
  scope are those of its name, its id, workspace and scopes never change, and once a bot is revoked its
  row never changes again: no registration and no status change revives it.\<close>

theorem bot_revocation_is_final:
  assumes "bots_ok db" and "bot_get n db = Some r"
  shows "bots_ok (run_ops bot_next db ops)
       \<and> bot_identity_of n (run_ops bot_next db ops) = bot_identity_of n db
       \<and> (bi_status r = ''revoked'' \<longrightarrow> bot_get n (run_ops bot_next db ops) = Some r)"
proof -
  have "bot_get n (run_ops bot_next db ops) = bot_get n db" if "bi_status r = ''revoked''"
    using assms that by (intro revoked.run_frozen) (simp_all add: revoked_bot_def)
  moreover have "bot_identity_of n (run_ops bot_next db ops) = bot_identity_of n db"
    using assms by (intro bot_id.run_frozen) (simp_all add: bot_identity_of_def)
  ultimately show ?thesis using assms bots.run_inv by simp
qed

definition demo_bot :: "string \<Rightarrow> bot_identity" where
  "demo_bot st = (new_bot ''01H'' ''helper'' ''/h/bots/helper'' [] 0)
     \<lparr>bi_status := st, bi_revoked_at := (if st = ''revoked'' then Some 1 else None)\<rparr>"

theorem bot_revocation_is_final_witness:
  "bot_get ''helper'' (run_ops bot_next [demo_bot ''revoked''] [BotSetStatus ''helper'' ''active'' 5])
     = Some (demo_bot ''revoked'')"
proof -
  have "bots_ok [demo_bot ''revoked'']"
    by (simp add: bots_ok_def bot_ok_def demo_bot_def new_bot_def BOT_STATUSES_def valid_bot_name_def
        name_start_def name_char_def is_lower_char_def char_in_def)
  moreover have "bot_get ''helper'' [demo_bot ''revoked''] = Some (demo_bot ''revoked'')"
    "bi_status (demo_bot ''revoked'') = ''revoked''"
    by (simp_all add: bot_get_def demo_bot_def new_bot_def)
  ultimately show ?thesis using bot_revocation_is_final by blast
qed


section \<open>A stopped bot stops within the cache's lifetime\<close>

text \<open>What happens to the hook object over a process's life: governed calls, the auditor asking for the
  bot's id, and an explicit invalidation. \<open>bot_reads\<close> are the store reads that could have filled the
  cache, each with the clock's value at the read.\<close>

datatype bot_event =
    StatusCall bot_call
  | AuditBotId int "bot_identity option result"
  | Invalidate

fun bot_cache_next :: "bot_hook \<Rightarrow> bot_cache \<Rightarrow> bot_event \<Rightarrow> bot_cache" where
  "bot_cache_next h c (StatusCall call) = snd (BotStatusHook_call h call c)"
| "bot_cache_next h c (AuditBotId now read) = snd (audit_bot_id h now read c)"
| "bot_cache_next h c Invalidate = invalidate c"

fun bot_reads :: "bot_event list \<Rightarrow> (int \<times> bot_identity option result) list" where
  "bot_reads [] = []"
| "bot_reads (StatusCall call # evs) = (bc_now_read call, bc_read call) # bot_reads evs"
| "bot_reads (AuditBotId now read # evs) = (now, read) # bot_reads evs"
| "bot_reads (Invalidate # evs) = bot_reads evs"

definition cache_from :: "(int \<times> bot_identity option result) set \<Rightarrow> bot_cache \<Rightarrow> bool" where
  "cache_from R c = (case bk_cached_at c of None \<Rightarrow> True | Some t \<Rightarrow> (t, Inr (bk_cached c)) \<in> R)"

lemma cache_from_mono: "cache_from R c \<Longrightarrow> R \<subseteq> R' \<Longrightarrow> cache_from R' c"
  by (auto simp: cache_from_def split: option.splits)

lemma bot_read_cases:
  obtains (fresh) "is_fresh h now c" "bot_read h now rd c = (Inr (bk_cached c), c)"
  | (failed) e where "\<not> is_fresh h now c" "rd = Inl e" "bot_read h now rd c = (Inl e, c)"
  | (read) row c' where "\<not> is_fresh h now c" "rd = Inr row" "bot_read h now rd c = (Inr row, c')"
      "bk_cached c' = row" "bk_cached_at c' = Some now"
proof (cases "is_fresh h now c")
  case True
  then show thesis by (intro fresh) (simp_all add: bot_read_def)
next
  case False
  show thesis
  proof (cases rd)
    case (Inl e)
    then show thesis using False by (intro failed) (simp_all add: bot_read_def)
  next
    case (Inr row)
    show thesis
      by (rule read [OF False Inr, of "snd (bot_read h now rd c)"]) (use False Inr in \<open>simp_all add: bot_read_def\<close>)
  qed
qed

lemma bot_read_from: "cache_from R c \<Longrightarrow> cache_from (insert (now, rd) R) (snd (bot_read h now rd c))"
  by (rule bot_read_cases [of h now c rd]) (auto simp: cache_from_def split: option.splits)

lemma bot_hook_from:
  "cache_from R c \<Longrightarrow> cache_from (insert (bc_now_read call, bc_read call) R) (snd (BotStatusHook_call h call c))"
  using bot_read_from [of R c "bc_now_read call" "bc_read call" h]
  by (auto simp: BotStatusHook_call_def intro: cache_from_mono split: option.split prod.splits sum.splits)

lemma audit_bot_id_from: "cache_from R c \<Longrightarrow> cache_from (insert (now, rd) R) (snd (audit_bot_id h now rd c))"
  using bot_read_from [of R c now rd h]
  by (auto simp: audit_bot_id_def intro: cache_from_mono split: prod.splits sum.splits)

lemma cache_from_run: "cache_from R c \<Longrightarrow> cache_from (R \<union> set (bot_reads evs)) (run_ops (bot_cache_next h) c evs)"
proof (induction evs arbitrary: R c)
  case (Cons ev evs)
  show ?case
  proof (cases ev)
    case (StatusCall call)
    then show ?thesis using Cons.IH [OF bot_hook_from [OF Cons.prems, of call h]] by simp
  next
    case (AuditBotId now rd)
    then show ?thesis using Cons.IH [OF audit_bot_id_from [OF Cons.prems, of now rd h]] by simp
  next
    case Invalidate
    have "cache_from R (invalidate c)" by (simp add: cache_from_def invalidate_def)
    from Cons.IH [OF this] Invalidate show ?thesis by simp
  qed
qed simp

lemma bot_deny_outcome [simp]: "hd_outcome (bot_deny r md) = Deny"
  by (simp add: bot_deny_def decision_def)

lemma bot_verdict_allow:
  "hd_outcome (bot_verdict name row) = Allow \<Longrightarrow> \<exists>r. row = Some r \<and> bi_status r = ''active''"
  by (auto simp: bot_verdict_def split: option.splits if_splits)

text \<open>A stopped bot stops within the cache's lifetime, and an unreadable answer stops it at once. In a
  bot's process, after any history of calls and invalidations, a call is allowed only if the process's name
  is a valid one and some store read, made less than one lifetime before the call, found the bot's row
  \<open>active\<close>; a missing row, a store that raises, and a name that does not parse all deny.\<close>

theorem bot_call_allowed_is_recent:
  assumes bot: "bh_bot_name h \<noteq> None \<or> bh_name_error h \<noteq> None"
      and ttl: "0 < bh_ttl h" and clock: "bc_now_fresh call \<le> bc_now_read call"
      and allow: "hd_outcome (fst (BotStatusHook_call h call (run_ops (bot_cache_next h) empty_bot_cache evs))) = Allow"
  shows "bh_name_error h = None
       \<and> (\<exists>t r. (t, Inr (Some r)) \<in> set (bot_reads (evs @ [StatusCall call])) \<and> bi_status r = ''active''
            \<and> bc_now_fresh call - t < bh_ttl h)"
proof -
  define c where "c = run_ops (bot_cache_next h) empty_bot_cache evs"
  have allow: "hd_outcome (fst (BotStatusHook_call h call c)) = Allow" using allow by (simp add: c_def)
  have reads: "set (bot_reads (evs @ [StatusCall call])) = insert (bc_now_read call, bc_read call) (set (bot_reads evs))"
    by (induction evs rule: bot_reads.induct) auto
  have "cache_from {} empty_bot_cache" by (simp add: cache_from_def empty_bot_cache_def)
  from cache_from_run [OF this, of evs h] have cf: "cache_from (set (bot_reads evs)) c" by (simp add: c_def)
  have ne: "bh_name_error h = None" using allow by (auto simp: BotStatusHook_call_def split: option.splits)
  then obtain name where name: "bh_bot_name h = Some name" using bot by auto
  have fresh: ?thesis if f: "is_fresh h now c" "bc_now_fresh call \<le> now" and a: "hd_outcome (bot_verdict name (bk_cached c)) = Allow" for now
  proof -
    from f obtain t where t: "bk_cached_at c = Some t" "now - t < bh_ttl h"
      by (auto simp: is_fresh_def split: option.splits)
    from bot_verdict_allow [OF a] obtain r where "bk_cached c = Some r" "bi_status r = ''active''" by blast
    with cf t f(2) ne show ?thesis unfolding reads by (fastforce simp: cache_from_def)
  qed
  show ?thesis
  proof (cases "is_fresh h (bc_now_fresh call) c")
    case True
    then show ?thesis using fresh [OF True] allow ne name by (simp add: BotStatusHook_call_def)
  next
    case False
    show ?thesis
    proof (rule bot_read_cases [of h "bc_now_read call" c "bc_read call"])
      assume "is_fresh h (bc_now_read call) c" "bot_read h (bc_now_read call) (bc_read call) c = (Inr (bk_cached c), c)"
      then show ?thesis using fresh allow ne name False clock by (simp add: BotStatusHook_call_def)
    next
      fix e assume "bot_read h (bc_now_read call) (bc_read call) c = (Inl e, c)"
      then show ?thesis using allow ne name False by (simp add: BotStatusHook_call_def)
    next
      fix row c'
      assume rd: "bc_read call = Inr row" "bot_read h (bc_now_read call) (bc_read call) c = (Inr row, c')"
      then have "hd_outcome (bot_verdict name row) = Allow"
        using allow ne name False by (simp add: BotStatusHook_call_def)
      from bot_verdict_allow [OF this] rd ttl clock ne show ?thesis unfolding reads by force
    qed
  qed
qed

definition demo_bot_hook :: bot_hook where
  "demo_bot_hook = \<lparr>bh_bot_name = Some ''helper'', bh_name_error = None, bh_ttl = BOT_STATUS_CACHE_TTL\<rparr>"

definition demo_bot_call :: "int \<Rightarrow> bot_identity option result \<Rightarrow> bot_call" where
  "demo_bot_call now rd = \<lparr>bc_now_fresh = now, bc_now_read = now, bc_read = rd, bc_ctx = demo_ctx PRE_LLM_CALL [] []\<rparr>"

text \<open>The cached answer of one second ago still allows the call; the read that would now find the bot
  revoked is not made yet.\<close>

theorem bot_call_allowed_is_recent_witness:
  "\<exists>t r. (t, Inr (Some r)) \<in> set (bot_reads ([StatusCall (demo_bot_call 5 (Inr (Some (demo_bot ''active''))))]
        @ [StatusCall (demo_bot_call 1000005 (Inr (Some (demo_bot ''revoked''))))]))
     \<and> bi_status r = ''active'' \<and> 1000005 - t < BOT_STATUS_CACHE_TTL"
proof -
  let ?call = "demo_bot_call 1000005 (Inr (Some (demo_bot ''revoked'')))"
  have "hd_outcome (fst (BotStatusHook_call demo_bot_hook ?call
      (run_ops (bot_cache_next demo_bot_hook) empty_bot_cache
        [StatusCall (demo_bot_call 5 (Inr (Some (demo_bot ''active''))))]))) = Allow"
    by (simp add: BotStatusHook_call_def demo_bot_hook_def demo_bot_call_def empty_bot_cache_def is_fresh_def
        bot_read_def bot_verdict_def demo_bot_def new_bot_def BOT_STATUS_CACHE_TTL_def decision_def)
  from bot_call_allowed_is_recent [OF _ _ _ this] show ?thesis
    by (simp add: demo_bot_hook_def demo_bot_call_def BOT_STATUS_CACHE_TTL_def)
qed

end
