(* ===== verification/Texts.thy ===== *)
theory Texts
  imports Prelude
begin

text \<open>
  String operations of the standard library that several components use (\<open>str.replace\<close>, \<open>str.split\<close>, \<open>str.endswith\<close>, \<open>str.strip\<close> with
  an argument, \<open>str.rstrip\<close>), and how often a text occurs in another.
\<close>

abbreviation "NL \<equiv> char_of (10::nat) :: char"

definition strip_chars :: "char \<Rightarrow> string \<Rightarrow> string" where
  "strip_chars c s = rev (dropWhile (\<lambda>x. x = c) (rev (dropWhile (\<lambda>x. x = c) s)))"

definition endswith :: "string \<Rightarrow> string \<Rightarrow> bool" where
  "endswith s t = startswith (rev s) (rev t)"

lemma endswith_iff: "endswith s t \<longleftrightarrow> (\<exists>u. s = u @ t)"
  by (auto simp: endswith_def startswith_iff) (metis rev_append rev_rev_ident)

definition rstrip :: "string \<Rightarrow> string" where
  "rstrip s = rev (dropWhile is_space (rev s))"

text \<open>\<open>s.replace(p, q)\<close> for a pattern that is not empty: occurrences from left to right that do not overlap.\<close>

function py_replace :: "string \<Rightarrow> string \<Rightarrow> string \<Rightarrow> string" where
  "py_replace p q [] = []"
| "py_replace p q (c # s) =
     (if p \<noteq> [] \<and> startswith (c # s) p then q @ py_replace p q (drop (length p) (c # s)) else c # py_replace p q s)"
  by pat_completeness auto
termination
  by (relation "measure (\<lambda>(_, _, s). length s)") auto

text \<open>\<open>s.split()\<close>, with the word read so far.\<close>

fun split_words :: "string \<Rightarrow> string \<Rightarrow> string list" where
  "split_words w [] = (if w = [] then [] else [w])"
| "split_words w (c # cs) =
     (if is_space c then (if w = [] then split_words [] cs else w # split_words [] cs)
      else split_words (w @ [c]) cs)"

text \<open>\<open>s.split(d)\<close>.\<close>

fun split_on :: "char \<Rightarrow> string \<Rightarrow> string list" where
  "split_on d [] = [[]]"
| "split_on d (c # cs) =
     (if c = d then [] # split_on d cs else case split_on d cs of [] \<Rightarrow> [[c]] | w # ws \<Rightarrow> (c # w) # ws)"

text \<open>How often a text occurs in another.\<close>

fun occurrences :: "string \<Rightarrow> string \<Rightarrow> nat" where
  "occurrences p [] = (if p = [] then 1 else 0)"
| "occurrences p (c # s) = (if startswith (c # s) p then 1 else 0) + occurrences p s"

text \<open>A text does not reach across a character it does not have.\<close>

lemma startswith_sep: "c \<notin> set p \<Longrightarrow> startswith (x @ c # y) p = startswith x p"
proof (induction x p rule: startswith.induct)
  case (2 q qs)
  then show ?case by auto
qed auto

lemma occurrences_sep:
  "c \<notin> set p \<Longrightarrow> p \<noteq> [] \<Longrightarrow> occurrences p (x @ c # y) = occurrences p x + occurrences p y"
proof (induction x)
  case Nil
  then show ?case by (cases p) auto
next
  case (Cons a x)
  have "startswith (a # x @ c # y) p = startswith (a # x) p" using startswith_sep [OF Cons.prems(1), of "a # x" y] by simp
  then show ?case using Cons by simp
qed

end
