(* ===== verification/Devices.thy ===== *)
theory Devices
  imports Kernel Interfaces Texts
begin

text \<open>
  Paired devices: the store of devices and pairing codes (\<open>devices/store.py\<close>), the sliding window over
  failed claims (\<open>devices/throttle.py\<close>) and the service every surface calls (\<open>devices/service.py\<close>).
  Instants are integers (microseconds), compared as the ISO texts of the store are; the random code and
  token, the fresh device id and the readings of the two clocks are arguments, and so is the SHA-256
  \<open>digest\<close>. A ledger is the kernel's audit sink.
\<close>

section \<open>The store\<close>

record device_row =
  dv_device_id :: string
  dv_name :: string
  dv_kind :: string
  dv_scope :: string
  dv_created_at :: timestamp
  dv_last_seen_at :: "timestamp option"
  dv_revoked_at :: "timestamp option"

text \<open>A row of the table also holds the token's hash; \<open>_row\<close> hands the row out without it.\<close>

record stored_device = device_row +
  sd_token_hash :: string

record pairing_code_row =
  pc_code_hash :: string
  pc_scope :: string
  pc_created_at :: timestamp
  pc_expires_at :: timestamp
  pc_attempts :: nat
  pc_used_at :: "timestamp option"

record device_db =
  dd_devices :: "stored_device list"
  dd_codes :: "pairing_code_row list"

definition row_out :: "stored_device \<Rightarrow> device_row" where
  "row_out r = device_row.truncate r"

definition KINDS :: "string list" where
  "KINDS = [''app'', ''browser'']"

definition SCOPES :: "string list" where
  "SCOPES = [''control'', ''read'']"

text \<open>A statement that breaks a constraint of the schema raises, and the connection closes without a
  commit: nothing of the transaction is kept.\<close>

definition integrity_error :: "'a result" where
  "integrity_error = Raise ''IntegrityError'' []"

definition add_pairing_code ::
  "string \<Rightarrow> string \<Rightarrow> timestamp \<Rightarrow> int \<Rightarrow> device_db \<Rightarrow> timestamp result \<times> device_db"
where
  "add_pairing_code code_hash scope now ttl db =
     (let expires_at = now + ttl;
          kept = filter (\<lambda>c. \<not> (pc_used_at c \<noteq> None \<or> pc_expires_at c \<le> now)) (dd_codes db)
      in if code_hash \<in> pc_code_hash ` set kept \<or> scope \<notin> set SCOPES then (integrity_error, db)
         else (Inr expires_at,
               db\<lparr>dd_codes := kept @ [\<lparr>pc_code_hash = code_hash, pc_scope = scope, pc_created_at = now,
                     pc_expires_at = expires_at, pc_attempts = 0, pc_used_at = None\<rparr>]\<rparr>))"

definition code_live :: "timestamp \<Rightarrow> pairing_code_row \<Rightarrow> bool" where
  "code_live now c = (pc_used_at c = None \<and> pc_expires_at c > now)"

definition new_device :: "string \<Rightarrow> string \<Rightarrow> string \<Rightarrow> string \<Rightarrow> string \<Rightarrow> timestamp \<Rightarrow> stored_device" where
  "new_device device_id name kind scope token_hash now =
     \<lparr>dv_device_id = device_id, dv_name = name, dv_kind = kind, dv_scope = scope, dv_created_at = now,
      dv_last_seen_at = None, dv_revoked_at = None, sd_token_hash = token_hash\<rparr>"

definition store_claim ::
  "string \<Rightarrow> string \<Rightarrow> string \<Rightarrow> string \<Rightarrow> timestamp \<Rightarrow> nat \<Rightarrow> string \<Rightarrow> device_db
    \<Rightarrow> device_row option result \<times> device_db"
where
  "store_claim code_hash token_hash name kind now max_attempts uuid db =
     (let claimable = (\<lambda>c. pc_code_hash c = code_hash \<and> code_live now c \<and> pc_attempts c < max_attempts)
      in if count_where claimable (dd_codes db) \<noteq> 1 then (Inr None, db)
         else
           let codes = update_where claimable (\<lambda>c. c\<lparr>pc_used_at := Some now\<rparr>) (dd_codes db)
           in case lookup_by pc_code_hash code_hash codes of
                None \<Rightarrow> (Raise ''TypeError'' [], db)
              | Some c \<Rightarrow>
                  if uuid \<in> dv_device_id ` set (dd_devices db) \<or> token_hash \<in> sd_token_hash ` set (dd_devices db)
                     \<or> kind \<notin> set KINDS
                  then (integrity_error, db)
                  else
                    let d = new_device uuid name kind (pc_scope c) token_hash now
                    in (Inr (Some (row_out d)), db\<lparr>dd_codes := codes, dd_devices := dd_devices db @ [d]\<rparr>))"

definition record_failed_claim :: "timestamp \<Rightarrow> nat \<Rightarrow> device_db \<Rightarrow> nat \<times> device_db" where
  "record_failed_claim now max_attempts db =
     (count_where (\<lambda>c. code_live now c \<and> int (pc_attempts c) = int max_attempts - 1) (dd_codes db),
      db\<lparr>dd_codes := update_where (\<lambda>c. code_live now c \<and> pc_attempts c < max_attempts)
           (\<lambda>c. c\<lparr>pc_attempts := pc_attempts c + 1\<rparr>) (dd_codes db)\<rparr>)"

definition find_live :: "string \<Rightarrow> device_db \<Rightarrow> device_row option" where
  "find_live token_hash db =
     map_option row_out (find (\<lambda>r. sd_token_hash r = token_hash \<and> dv_revoked_at r = None) (dd_devices db))"

definition touch :: "string \<Rightarrow> timestamp \<Rightarrow> int \<Rightarrow> device_db \<Rightarrow> device_db" where
  "touch device_id now min_interval db =
     db\<lparr>dd_devices := update_where
          (\<lambda>r. dv_device_id r = device_id
             \<and> (case dv_last_seen_at r of None \<Rightarrow> True | Some t \<Rightarrow> t < now - min_interval))
          (\<lambda>r. r\<lparr>dv_last_seen_at := Some now\<rparr>) (dd_devices db)\<rparr>"

definition device_get :: "string \<Rightarrow> device_db \<Rightarrow> device_row option" where
  "device_get device_id db = map_option row_out (lookup_by dv_device_id device_id (dd_devices db))"

definition list_devices :: "device_db \<Rightarrow> device_row list" where
  "list_devices db = map row_out (sort_key dv_created_at (sort_key dv_device_id (dd_devices db)))"

definition store_revoke ::
  "string \<Rightarrow> timestamp \<Rightarrow> device_db \<Rightarrow> (device_row \<times> bool) result \<times> device_db"
where
  "store_revoke device_id now db =
     (let hit = (\<lambda>r. dv_device_id r = device_id \<and> dv_revoked_at r = None);
          changed = count_where hit (dd_devices db);
          db' = db\<lparr>dd_devices := update_where hit (\<lambda>r. r\<lparr>dv_revoked_at := Some now\<rparr>) (dd_devices db)\<rparr>
      in case device_get device_id db' of
           None \<Rightarrow> (Raise ''DeviceNotFoundError'' device_id, db')
         | Some r \<Rightarrow> (Inr (r, changed = 1), db'))"

section \<open>The failed-claim window\<close>

definition CLAIM_FAILURE_LIMIT :: int where
  "CLAIM_FAILURE_LIMIT = 10"

definition CLAIM_FAILURE_WINDOW :: int where
  "CLAIM_FAILURE_WINDOW = 60000000"

record claim_throttle =
  th_limit :: int
  th_window :: int
  th_failures :: "int list"
  th_tripped :: bool

definition new_throttle :: "int \<Rightarrow> int \<Rightarrow> claim_throttle result" where
  "new_throttle limit window =
     (if limit < 1 then Raise ''ValueError'' ''limit must be at least 1''
      else if window \<le> 0 then Raise ''ValueError'' ''window must be positive''
      else Inr \<lparr>th_limit = limit, th_window = window, th_failures = [], th_tripped = False\<rparr>)"

definition expire :: "int \<Rightarrow> claim_throttle \<Rightarrow> claim_throttle" where
  "expire now th =
     (let fs = dropWhile (\<lambda>t. now - t \<ge> th_window th) (th_failures th)
      in th\<lparr>th_failures := fs, th_tripped := (if int (length fs) < th_limit th then False else th_tripped th)\<rparr>)"

definition ceil_seconds :: "int \<Rightarrow> int" where
  "ceil_seconds us = - ((- us) div 1000000)"

definition retry_after :: "int \<Rightarrow> claim_throttle \<Rightarrow> int option \<times> claim_throttle" where
  "retry_after now th =
     (let th' = expire now th; fs = th_failures th' in
      if int (length fs) < th_limit th then (None, th')
      else
        let reopening = fs ! (length fs - nat (th_limit th))
        in (Some (max 1 (ceil_seconds (reopening + th_window th - now))), th'))"

definition record_failure :: "int \<Rightarrow> claim_throttle \<Rightarrow> bool \<times> claim_throttle" where
  "record_failure now th =
     (let th1 = expire now th; th2 = th1\<lparr>th_failures := th_failures th1 @ [now]\<rparr> in
      if int (length (th_failures th2)) \<ge> th_limit th \<and> \<not> th_tripped th2
      then (True, th2\<lparr>th_tripped := True\<rparr>) else (False, th2))"

section \<open>The service\<close>

definition TOKEN_PREFIX :: string where
  "TOKEN_PREFIX = ''evarnessd_''"

definition PAIRING_CODE_TTL :: int where
  "PAIRING_CODE_TTL = 300000000"

definition PAIRING_MAX_ATTEMPTS :: nat where
  "PAIRING_MAX_ATTEMPTS = 5"

definition LAST_SEEN_RESOLUTION :: int where
  "LAST_SEEN_RESOLUTION = 60000000"

definition MAX_NAME_LENGTH :: nat where
  "MAX_NAME_LENGTH = 64"

definition is_alnum :: "char \<Rightarrow> bool" where
  "is_alnum c = (is_lower_char c \<or> is_upper_char c \<or> is_digit_char c)"

definition normalise_code :: "string \<Rightarrow> string" where
  "normalise_code code = filter is_alnum (py_upper code)"

definition clean_name :: "string \<Rightarrow> string result" where
  "clean_name name =
     (let cleaned = join '' '' (split_words [] name) in
      if cleaned = [] \<or> length cleaned > MAX_NAME_LENGTH \<or> \<not> list_all (char_in 32 126) cleaned
      then Raise ''ValueError'' (''device name must be 1-'' @ show_nat MAX_NAME_LENGTH @ '' printable characters'')
      else Inr cleaned)"

definition device_entry :: "string \<Rightarrow> string \<Rightarrow> string \<Rightarrow> string \<Rightarrow> dict \<Rightarrow> audit_entry" where
  "device_entry dec subject sev reason payload =
     \<lparr>ae_run_id = ''device:'' @ subject, ae_step_id = None, ae_agent_type = ''devices'',
      ae_hook_point = ''device_pairing'', ae_plugin = ''DeviceService'', ae_decision = dec,
      ae_severity = sev, ae_reason = reason, ae_classification = None, ae_tier = None, ae_payload = payload\<rparr>"

record pairing_code =
  pg_code :: string
  pg_scope :: string
  pg_expires_at :: timestamp

definition start_pairing ::
  "'s audit_sink \<Rightarrow> (string \<Rightarrow> string) \<Rightarrow> string \<Rightarrow> string \<Rightarrow> timestamp \<Rightarrow> string \<Rightarrow> device_db \<Rightarrow> 's
    \<Rightarrow> pairing_code result \<times> device_db \<times> 's"
where
  "start_pairing sink digest scope actor now raw db s =
     (if scope \<notin> set SCOPES then
        (Raise ''ValueError'' (''scope must be one of '' @ py_repr (PList (map PStr SCOPES))), db, s)
      else case add_pairing_code (digest raw) scope now PAIRING_CODE_TTL db of
        (Inl e, db') \<Rightarrow> (Inl e, db', s)
      | (Inr expires_at, db') \<Rightarrow>
          (case sink (device_entry ''pairing_started'' ''pairing'' ''info''
                   (''pairing code issued by '' @ actor @ '' for a '' @ scope @ '' device'')
                   [(''actor'', PStr actor), (''scope'', PStr scope), (''expires_at'', PInt expires_at)]) s of
             (Inl e, s') \<Rightarrow> (Inl e, db', s')
           | (Inr _, s') \<Rightarrow>
               (Inr \<lparr>pg_code = take 4 raw @ ''-'' @ drop 4 raw, pg_scope = scope, pg_expires_at = expires_at\<rparr>,
                db', s')))"

datatype claim_failure = PairingThrottled int | ClaimRaised pyexn

record device_service =
  ds_db :: device_db
  ds_throttle :: claim_throttle

text \<open>The ledger rows of a refused claim, in the order they are written.\<close>

definition refusal_entries :: "nat \<Rightarrow> bool \<Rightarrow> claim_throttle \<Rightarrow> audit_entry list" where
  "refusal_entries voided tripped th =
     (if voided = 0 then [] else
        [device_entry ''pairing_code_voided'' ''pairing'' ''warn''
           (show_nat voided @ '' pairing code(s) voided after '' @ show_nat PAIRING_MAX_ATTEMPTS @ '' failed claims'')
           [(''voided'', PInt (int voided))]])
     @ (if \<not> tripped then [] else
        [device_entry ''pairing_throttled'' ''pairing'' ''warn''
           (''claims paused: '' @ show_int (th_limit th) @ '' failed claims within ''
              @ show_int (th_window th div 1000000) @ ''s'')
           [(''limit'', PInt (th_limit th)), (''window_seconds'', PInt (th_window th div 1000000))]])"

definition paired_entry :: "device_row \<Rightarrow> audit_entry" where
  "paired_entry d =
     device_entry ''paired'' (dv_device_id d) ''info''
       (''device paired: '' @ dv_name d @ '' ('' @ dv_kind d @ '', '' @ dv_scope d @ '')'')
       [(''device_id'', PStr (dv_device_id d)), (''name'', PStr (dv_name d)),
        (''kind'', PStr (dv_kind d)), (''scope'', PStr (dv_scope d))]"

record claim_env =
  cw_clock :: int
  cw_clock2 :: int
  cw_now :: timestamp
  cw_random :: string
  cw_uuid :: string

text \<open>A refused claim charges the live codes and the window. The ledger is written between the two: a
  ledger that raises at the first row ends the call before the window is charged.\<close>

definition refuse_claim ::
  "'s audit_sink \<Rightarrow> claim_env \<Rightarrow> device_service \<Rightarrow> 's
    \<Rightarrow> (claim_failure + device_row \<times> string) \<times> device_service \<times> 's"
where
  "refuse_claim sink env v s =
     (let (voided, db1) = record_failed_claim (cw_now env) PAIRING_MAX_ATTEMPTS (ds_db v);
          v1 = v\<lparr>ds_db := db1\<rparr>;
          first = (case refusal_entries voided False (ds_throttle v) of [] \<Rightarrow> (Inr 0, s) | e # _ \<Rightarrow> sink e s)
      in case first of
           (Inl x, s1) \<Rightarrow> (Inl (ClaimRaised x), v1, s1)
         | (Inr _, s1) \<Rightarrow>
             let (tripped, th1) = record_failure (cw_clock2 env) (ds_throttle v1);
                 v2 = v1\<lparr>ds_throttle := th1\<rparr>;
                 second = (case refusal_entries 0 tripped th1 of [] \<Rightarrow> (Inr 0, s1) | e # _ \<Rightarrow> sink e s1)
             in case second of
                  (Inl x, s2) \<Rightarrow> (Inl (ClaimRaised x), v2, s2)
                | (Inr _, s2) \<Rightarrow>
                    (Inl (ClaimRaised (PyExn ''PairingRefusedError'' ''pairing code is not valid'')), v2, s2))"

definition service_claim ::
  "'s audit_sink \<Rightarrow> (string \<Rightarrow> string) \<Rightarrow> string \<Rightarrow> string \<Rightarrow> string \<Rightarrow> claim_env \<Rightarrow> device_service \<Rightarrow> 's
    \<Rightarrow> (claim_failure + device_row \<times> string) \<times> device_service \<times> 's"
where
  "service_claim sink digest code name kind env v s =
     (case retry_after (cw_clock env) (ds_throttle v) of
        (Some n, th) \<Rightarrow> (Inl (PairingThrottled n), v\<lparr>ds_throttle := th\<rparr>, s)
      | (None, th) \<Rightarrow>
          let v0 = v\<lparr>ds_throttle := th\<rparr> in
          if kind \<notin> set KINDS then
            (Inl (ClaimRaised (PyExn ''ValueError''
               (''kind must be one of '' @ py_repr (PList (map PStr KINDS))))), v0, s)
          else case clean_name name of
            Inl e \<Rightarrow> (Inl (ClaimRaised e), v0, s)
          | Inr cleaned \<Rightarrow>
              let token = TOKEN_PREFIX @ cw_random env in
              (case store_claim (digest (normalise_code code)) (digest token) cleaned kind (cw_now env)
                      PAIRING_MAX_ATTEMPTS (cw_uuid env) (ds_db v0) of
                 (Inl e, db') \<Rightarrow> (Inl (ClaimRaised e), v0\<lparr>ds_db := db'\<rparr>, s)
               | (Inr None, db') \<Rightarrow> refuse_claim sink env (v0\<lparr>ds_db := db'\<rparr>) s
               | (Inr (Some d), db') \<Rightarrow>
                   (case sink (paired_entry d) s of
                      (Inl e, s') \<Rightarrow> (Inl (ClaimRaised e), v0\<lparr>ds_db := db'\<rparr>, s')
                    | (Inr _, s') \<Rightarrow> (Inr (d, token), v0\<lparr>ds_db := db'\<rparr>, s'))))"

definition verify_token ::
  "(string \<Rightarrow> string) \<Rightarrow> string \<Rightarrow> timestamp \<Rightarrow> device_db \<Rightarrow> (string \<times> string) option \<times> device_db"
where
  "verify_token digest token now db =
     (if \<not> startswith token TOKEN_PREFIX then (None, db)
      else case find_live (digest token) db of
             None \<Rightarrow> (None, db)
           | Some d \<Rightarrow> (Some (dv_device_id d, dv_scope d), touch (dv_device_id d) now LAST_SEEN_RESOLUTION db))"

definition service_revoke ::
  "'s audit_sink \<Rightarrow> string \<Rightarrow> string \<Rightarrow> timestamp \<Rightarrow> device_db \<Rightarrow> 's \<Rightarrow> device_row result \<times> device_db \<times> 's"
where
  "service_revoke sink device_id actor now db s =
     (case store_revoke device_id now db of
        (Inl e, db') \<Rightarrow> (Inl e, db', s)
      | (Inr (d, changed), db') \<Rightarrow>
          if \<not> changed then (Inr d, db', s)
          else case sink (device_entry ''revoked'' (dv_device_id d) ''warn''
                      (''device revoked by '' @ actor @ '': '' @ dv_name d)
                      [(''device_id'', PStr (dv_device_id d)), (''name'', PStr (dv_name d)), (''actor'', PStr actor)]) s of
                 (Inl e, s') \<Rightarrow> (Inl e, db', s')
               | (Inr _, s') \<Rightarrow> (Inr d, db', s'))"


section \<open>The window is exact\<close>

datatype throttle_op = AskRetry (op_time: int) | is_Failure: Failure (op_time: int)

fun throttle_next :: "claim_throttle \<Rightarrow> throttle_op \<Rightarrow> claim_throttle" where
  "throttle_next th (AskRetry t) = snd (retry_after t th)"
| "throttle_next th (Failure t) = snd (record_failure t th)"

definition failure_times :: "throttle_op list \<Rightarrow> int list" where
  "failure_times ops = map op_time (filter is_Failure ops)"

text \<open>The specification: the failures less than one window old.\<close>

definition recent :: "int \<Rightarrow> int \<Rightarrow> int list \<Rightarrow> int list" where
  "recent window now fs = filter (\<lambda>t. now - t < window) fs"

lemma dropWhile_recent: "sorted fs \<Longrightarrow> dropWhile (\<lambda>t. now - t \<ge> w) fs = recent w now fs"
proof (induction fs)
  case (Cons t fs)
  then show ?case by (force simp: recent_def intro: filter_True [symmetric])
qed (simp add: recent_def)

lemma sorted_recent [simp]: "sorted fs \<Longrightarrow> sorted (recent w now fs)"
  by (simp add: recent_def sorted_wrt_filter)

lemma recent_recent: "t \<le> now \<Longrightarrow> recent w now (recent w t fs) = recent w now fs"
  by (auto simp: recent_def intro: filter_cong)

lemma length_recent_mono: "t \<le> now \<Longrightarrow> length (recent w now fs) \<le> length (recent w t fs)"
  by (metis length_filter_le recent_def recent_recent)

text \<open>\<open>tracks\<close>: at \<open>t\<close> the deque holds the recent failures of \<open>fs\<close>, and the trip flag says whether they
  fill the window.\<close>

definition tracks :: "int list \<Rightarrow> int \<Rightarrow> claim_throttle \<Rightarrow> bool" where
  "tracks fs t th \<longleftrightarrow> th_failures th = recent (th_window th) t fs
     \<and> (th_tripped th \<longleftrightarrow> th_limit th \<le> int (length (th_failures th)))"

lemma expire_tracks:
  assumes "sorted fs" "tracks fs t th" "t \<le> now"
  shows "tracks fs now (expire now th)"
proof -
  have fs: "dropWhile (\<lambda>t. now - t \<ge> th_window th) (th_failures th) = recent (th_window th) now fs"
    using assms by (simp add: tracks_def dropWhile_recent recent_recent)
  have "length (recent (th_window th) now fs) \<le> length (th_failures th)"
    using assms length_recent_mono by (simp add: tracks_def)
  then show ?thesis using assms(2) unfolding expire_def fs by (auto simp: tracks_def Let_def)
qed

lemma expire_params [simp]: "th_limit (expire now th) = th_limit th" "th_window (expire now th) = th_window th"
  by (simp_all add: expire_def Let_def)

lemma throttle_params [simp]:
  "th_limit (throttle_next th a) = th_limit th" "th_window (throttle_next th a) = th_window th"
  by (cases a; simp add: retry_after_def record_failure_def Let_def)+

lemma retry_after_state: "snd (retry_after now th) = expire now th"
  by (simp add: retry_after_def Let_def)

lemma record_failure_tracks:
  assumes "sorted fs" "tracks fs t th" "t \<le> now" "0 < th_window th"
  shows "tracks (fs @ [now]) now (snd (record_failure now th))"
    and "fst (record_failure now th) \<longleftrightarrow> int (length (recent (th_window th) now fs)) + 1 = th_limit th"
proof -
  note tr = expire_tracks [OF assms(1-3)]
  have fs: "th_failures (expire now th) = recent (th_window th) now fs"
    and tripped: "th_tripped (expire now th) \<longleftrightarrow> th_limit th \<le> int (length (recent (th_window th) now fs))"
    using tr by (simp_all add: tracks_def)
  have app: "recent (th_window th) now (fs @ [now]) = recent (th_window th) now fs @ [now]"
    using assms(4) by (simp add: recent_def)
  show "tracks (fs @ [now]) now (snd (record_failure now th))"
    by (auto simp: record_failure_def Let_def tracks_def fs app tripped)
  show "fst (record_failure now th) \<longleftrightarrow> int (length (recent (th_window th) now fs)) + 1 = th_limit th"
    by (auto simp: record_failure_def Let_def fs tripped)
qed

lemma failure_times_snoc [simp]:
  "failure_times (ops @ [a]) = failure_times ops @ (if is_Failure a then [op_time a] else [])"
  "failure_times [] = []"
  by (simp_all add: failure_times_def)

lemma throttle_run_params [simp]:
  "th_limit (run_ops throttle_next th ops) = th_limit th" "th_window (run_ops throttle_next th ops) = th_window th"
  by (induction ops arbitrary: th) simp_all

lemma sorted_failure_times: "sorted (map op_time ops) \<Longrightarrow> sorted (failure_times ops)"
  unfolding failure_times_def by (rule sorted_filter)

lemma throttle_run_tracks:
  assumes "new_throttle limit window = Inr th0" "sorted (map op_time ops)" "\<forall>a \<in> set ops. op_time a \<le> t"
    "ops = [] \<or> op_time (last ops) = t"
  shows "tracks (failure_times ops) t (run_ops throttle_next th0 ops)"
  using assms(2-)
proof (induction ops arbitrary: t rule: rev_induct)
  case Nil
  then show ?case using assms(1) by (auto simp: new_throttle_def tracks_def recent_def split: if_splits)
next
  case (snoc a ops)
  let ?th = "run_ops throttle_next th0 ops"
  define u where "u = (if ops = [] then t else op_time (last ops))"
  have u: "u \<le> t" using snoc.prems by (auto simp: u_def)
  have "\<forall>b \<in> set ops. op_time b \<le> u"
    using snoc.prems(1) unfolding u_def
    by (cases ops rule: rev_cases) (auto simp: sorted_append)
  then have IH: "tracks (failure_times ops) u ?th"
    using snoc.prems by (intro snoc.IH) (auto simp: u_def sorted_append)
  have s: "sorted (failure_times ops)"
    using snoc.prems(1) by (intro sorted_failure_times) (simp add: sorted_append)
  have w: "0 < th_window ?th" using assms(1) by (auto simp: new_throttle_def split: if_splits)
  show ?case
  proof (cases a)
    case (AskRetry x)
    then show ?thesis using expire_tracks [OF s IH u] snoc.prems by (simp add: retry_after_state)
  next
    case (Failure x)
    then show ?thesis using record_failure_tracks(1) [OF s IH u w] snoc.prems by simp
  qed
qed


lemma recent_split: "recent w now fs = recent w now (take k fs) @ recent w now (drop k fs)"
  unfolding recent_def by (metis append_take_drop_id filter_append)

lemma recent_none: "\<forall>t \<in> set fs. t + w \<le> now \<Longrightarrow> recent w now fs = []"
  by (auto simp: recent_def filter_empty_conv)

lemma recent_all: "\<forall>t \<in> set fs. now < t + w \<Longrightarrow> recent w now fs = fs"
  unfolding recent_def by (intro filter_True) auto

lemma sorted_take_le: "sorted fs \<Longrightarrow> k < length fs \<Longrightarrow> x \<in> set (take (Suc k) fs) \<Longrightarrow> x \<le> fs ! k"
  by (auto simp: in_set_conv_nth sorted_nth_mono less_Suc_eq_le)

lemma sorted_drop_ge:
  assumes "sorted fs" "x \<in> set (drop k fs)"
  shows "fs ! k \<le> x"
proof -
  from assms(2) obtain i where "i < length fs - k" "x = fs ! (k + i)" by (auto simp: in_set_conv_nth)
  then show ?thesis using sorted_nth_mono [OF assms(1), of k "k + i"] by simp
qed

lemma recent_short:
  assumes "sorted fs" "0 < L" "L \<le> int (length fs)"
  shows "int (length (recent w now fs)) < L \<longleftrightarrow> fs ! (length fs - nat L) + w \<le> now"
proof -
  define k where "k = length fs - nat L"
  have k: "k < length fs" "int (length fs) - int k = L" using assms(2,3) by (auto simp: k_def)
  show ?thesis
  proof (cases "fs ! k + w \<le> now")
    case True
    have "recent w now (take (Suc k) fs) = []"
      using sorted_take_le [OF assms(1) k(1)] True by (intro recent_none) force
    moreover have "length (recent w now (drop (Suc k) fs)) \<le> length fs - Suc k"
      unfolding recent_def by (metis length_drop length_filter_le)
    ultimately show ?thesis
      using True k recent_split [of w now fs "Suc k"] unfolding k_def [symmetric] by simp
  next
    case False
    have "recent w now (drop k fs) = drop k fs"
      using sorted_drop_ge [OF assms(1)] False by (intro recent_all) force
    then show ?thesis
      using False k recent_split [of w now fs k] unfolding k_def [symmetric] by simp
  qed
qed

lemma ceil_seconds_le_iff: "ceil_seconds us \<le> n \<longleftrightarrow> us \<le> n * 1000000"
  unfolding ceil_seconds_def by linarith

definition op_times :: "throttle_op list \<Rightarrow> int list" where
  "op_times ops = map op_time ops"

lemma throttle_facts:
  assumes "new_throttle limit window = Inr th0" "sorted (op_times ops)" "\<forall>a \<in> set ops. op_time a \<le> now"
  defines "th \<equiv> run_ops throttle_next th0 ops"
  shows throttle_limit: "th_limit th = limit" "th_window th = window" "0 < limit" "0 < window"
    and throttle_sorted: "sorted (failure_times ops)"
    and throttle_tracks: "tracks (failure_times ops) now (expire now th)"
    and throttle_trip: "fst (record_failure now th) \<longleftrightarrow> int (length (recent window now (failure_times ops))) + 1 = limit"
    and throttle_open: "fst (retry_after now th) = None \<longleftrightarrow> int (length (recent window now (failure_times ops))) < limit"
proof -
  show params: "th_limit th = limit" "th_window th = window" "0 < limit" "0 < window"
    using assms(1) unfolding th_def by (auto simp: new_throttle_def split: if_splits)
  define t where "t = (if ops = [] then now else op_time (last ops))"
  have t: "t \<le> now" using assms(3) by (auto simp: t_def)
  have "\<forall>a \<in> set ops. op_time a \<le> t"
    using assms(2) unfolding t_def op_times_def by (cases ops rule: rev_cases) (auto simp: sorted_append)
  then have tr: "tracks (failure_times ops) t th"
    unfolding th_def using assms(1,2)
    by (intro throttle_run_tracks) (auto simp: t_def op_times_def)
  show s: "sorted (failure_times ops)"
    using assms(2) by (intro sorted_failure_times) (simp add: op_times_def)
  show tracks: "tracks (failure_times ops) now (expire now th)" by (rule expire_tracks [OF s tr t])
  then have fs: "th_failures (expire now th) = recent window now (failure_times ops)"
    by (simp add: tracks_def params)
  show "fst (retry_after now th) = None \<longleftrightarrow> int (length (recent window now (failure_times ops))) < limit"
    by (simp add: retry_after_def Let_def fs params)
  show "fst (record_failure now th) \<longleftrightarrow> int (length (recent window now (failure_times ops))) + 1 = limit"
    using record_failure_tracks(2) [OF s tr t] by (simp add: params)
qed

lemma throttle_reopens:
  assumes "tracks F now th" "sorted F" "0 < th_limit th" "th_limit th \<le> int (length fs)" "fs = recent (th_window th) now F"
    and "0 \<le> m"
  shows "fst (retry_after (now + m * 1000000) th) = None
    \<longleftrightarrow> ceil_seconds (fs ! (length fs - nat (th_limit th)) + th_window th - now) \<le> m"
proof -
  have "tracks F (now + m * 1000000) (expire (now + m * 1000000) th)"
    using assms(6) by (intro expire_tracks [OF assms(2,1)]) simp
  then have "th_failures (expire (now + m * 1000000) th) = recent (th_window th) (now + m * 1000000) fs"
    using assms(6) by (simp add: tracks_def assms(5) recent_recent)
  moreover have "sorted fs" using assms(2) by (simp add: assms(5))
  ultimately show ?thesis
    using recent_short [OF _ assms(3,4), of "th_window th" "now + m * 1000000"]
    unfolding ceil_seconds_le_iff by (simp add: retry_after_def Let_def algebra_simps)
qed

text \<open>The window over failed claims is exact. After any history of questions and failures on a
  monotonic clock, claims are refused exactly when the failures of the last window reach the limit; the
  refusal names the least whole number of seconds, at least one, after which (with no further failure)
  claims are open again; a failure reports a trip exactly when it is the one that closes the window; and a
  claim refused so is refused without reading or changing a pairing code or a device and without a ledger
  row.\<close>

theorem claim_throttle_window:
  assumes "new_throttle limit window = Inr th0" and "sorted (op_times ops)"
      and "\<forall>a \<in> set ops. op_time a \<le> now"
      and "th = run_ops throttle_next th0 ops"
  shows "(fst (retry_after now th) = None \<longleftrightarrow> int (length (recent window now (failure_times ops))) < limit)
    \<and> (\<forall>n. fst (retry_after now th) = Some n \<longrightarrow>
           1 \<le> n \<and> fst (retry_after (now + n * 1000000) (snd (retry_after now th))) = None
           \<and> (\<forall>m. 0 \<le> m \<and> m < n \<longrightarrow> fst (retry_after (now + m * 1000000) (snd (retry_after now th))) \<noteq> None)
           \<and> (ds_throttle v = th \<and> cw_clock env = now \<longrightarrow>
               (\<exists>v'. service_claim sink digest code name kind env v s = (Inl (PairingThrottled n), v', s)
                 \<and> ds_db v' = ds_db v)))
    \<and> (fst (record_failure now th) \<longleftrightarrow> int (length (recent window now (failure_times ops))) + 1 = limit)"
proof -
  note facts = throttle_facts [OF assms(1-3), folded assms(4)]
  define fs where "fs = recent window now (failure_times ops)"
  have "1 \<le> n \<and> fst (retry_after (now + n * 1000000) (expire now th)) = None
      \<and> (\<forall>m. 0 \<le> m \<and> m < n \<longrightarrow> fst (retry_after (now + m * 1000000) (expire now th)) \<noteq> None)"
    if Some: "fst (retry_after now th) = Some n" for n
  proof -
    have full: "limit \<le> int (length fs)" using Some facts(8) unfolding fs_def by fastforce
    let ?r = "fs ! (length fs - nat limit)"
    have exp: "th_failures (expire now th) = fs" using facts(6) by (simp add: tracks_def facts(1,2) fs_def)
    have "?r \<in> set fs" using full facts(3) by (intro nth_mem) auto
    then have "\<not> ceil_seconds (?r + window - now) \<le> 0"
      unfolding ceil_seconds_le_iff by (simp add: fs_def recent_def)
    moreover have "n = max 1 (ceil_seconds (?r + window - now))"
      using Some full by (auto simp: retry_after_def Let_def exp facts(1,2))
    moreover have "fst (retry_after (now + m * 1000000) (expire now th)) = None
        \<longleftrightarrow> ceil_seconds (?r + window - now) \<le> m" if "0 \<le> m" for m
      using throttle_reopens [OF facts(6,5) _ _ _ that, of fs] full facts(1-4) by (simp add: fs_def)
    ultimately show ?thesis by (auto simp: max_def split: if_splits)
  qed
  moreover have "\<exists>v'. service_claim sink digest code name kind env v s = (Inl (PairingThrottled n), v', s)
      \<and> ds_db v' = ds_db v"
    if "fst (retry_after now th) = Some n" "ds_throttle v = th \<and> cw_clock env = now" for n
    using that by (cases "retry_after now th") (auto simp: service_claim_def)
  ultimately show ?thesis using facts(7,8) unfolding retry_after_state by blast
qed


definition demo_throttle :: "nat \<Rightarrow> throttle_op list" where
  "demo_throttle k = map (\<lambda>i. Failure (int i)) [0..<k]"

theorem claim_throttle_window_witness:
  "fst (retry_after 20 (run_ops throttle_next \<lparr>th_limit = 3, th_window = 60000000, th_failures = [], th_tripped = False\<rparr>
      (demo_throttle 3))) \<noteq> None"
proof -
  have "new_throttle 3 60000000 = Inr \<lparr>th_limit = 3, th_window = 60000000, th_failures = [], th_tripped = False\<rparr>"
    by (simp add: new_throttle_def)
  from claim_throttle_window [OF this _ _ refl, of "demo_throttle 3" 20, THEN conjunct1] show ?thesis
    by (simp add: demo_throttle_def upt_rec op_times_def failure_times_def recent_def)
qed

section \<open>Devices and codes through a history\<close>

text \<open>The store's changes as the service makes them, with the service's own constants. A step's outcome is
  the hash of the code it spent, if it spent one.\<close>

datatype device_op =
    AddCode string string timestamp
  | ClaimCode string string string string timestamp string
  | FailedClaim timestamp
  | Touch string timestamp
  | RevokeDevice string timestamp

fun device_step :: "device_db \<Rightarrow> device_op \<Rightarrow> device_db \<times> string option" where
  "device_step db (AddCode ch scope now) = (snd (add_pairing_code ch scope now PAIRING_CODE_TTL db), None)"
| "device_step db (ClaimCode ch th name kind now uuid) =
     (case store_claim ch th name kind now PAIRING_MAX_ATTEMPTS uuid db of
        (Inr (Some _), db') \<Rightarrow> (db', Some ch) | (_, db') \<Rightarrow> (db', None))"
| "device_step db (FailedClaim now) = (snd (record_failed_claim now PAIRING_MAX_ATTEMPTS db), None)"
| "device_step db (Touch i now) = (touch i now LAST_SEEN_RESOLUTION db, None)"
| "device_step db (RevokeDevice i now) = (snd (store_revoke i now db), None)"

definition device_next :: "device_db \<Rightarrow> device_op \<Rightarrow> device_db" where
  "device_next db a = fst (device_step db a)"

definition devices_ok :: "device_db \<Rightarrow> bool" where
  "devices_ok db \<longleftrightarrow> distinct (map dv_device_id (dd_devices db)) \<and> distinct (map sd_token_hash (dd_devices db))
     \<and> distinct (map pc_code_hash (dd_codes db))
     \<and> (\<forall>c \<in> set (dd_codes db). pc_scope c \<in> set SCOPES \<and> pc_attempts c \<le> PAIRING_MAX_ATTEMPTS)
     \<and> (\<forall>d \<in> set (dd_devices db). dv_scope d \<in> set SCOPES \<and> dv_kind d \<in> set KINDS)"

definition code :: "string \<Rightarrow> device_db \<Rightarrow> pairing_code_row option" where
  "code ch db = lookup_by pc_code_hash ch (dd_codes db)"

text \<open>What a claim does, without the row counts of the statements it runs.\<close>

lemma store_claim_spec:
  assumes "distinct (map pc_code_hash (dd_codes db))"
  shows "store_claim ch th name kind now mx uuid db =
    (case code ch db of
       None \<Rightarrow> (Inr None, db)
     | Some c \<Rightarrow>
         if \<not> (code_live now c \<and> pc_attempts c < mx) then (Inr None, db)
         else if uuid \<in> dv_device_id ` set (dd_devices db) \<or> th \<in> sd_token_hash ` set (dd_devices db)
              \<or> kind \<notin> set KINDS then (integrity_error, db)
         else (Inr (Some (row_out (new_device uuid name kind (pc_scope c) th now))),
               db\<lparr>dd_codes := update_where (\<lambda>c. pc_code_hash c = ch \<and> code_live now c \<and> pc_attempts c < mx)
                    (\<lambda>c. c\<lparr>pc_used_at := Some now\<rparr>) (dd_codes db),
                  dd_devices := dd_devices db @ [new_device uuid name kind (pc_scope c) th now]\<rparr>))"
proof -
  let ?p = "\<lambda>c. code_live now c \<and> pc_attempts c < mx"
  have count: "count_where (\<lambda>c. pc_code_hash c = ch \<and> ?p c) (dd_codes db) =
      (case code ch db of None \<Rightarrow> 0 | Some r \<Rightarrow> if ?p r then 1 else 0)"
    unfolding count_where_def code_def using filter_key_distinct [OF assms, of ch ?p] by simp
  have look: "lookup_by pc_code_hash ch (update_where (\<lambda>c. pc_code_hash c = ch \<and> ?p c)
      (\<lambda>c. c\<lparr>pc_used_at := Some now\<rparr>) (dd_codes db)) =
      map_option (\<lambda>c. if pc_code_hash c = ch \<and> ?p c then c\<lparr>pc_used_at := Some now\<rparr> else c) (code ch db)"
    by (simp add: lookup_by_update_where code_def)
  show ?thesis
    unfolding store_claim_def Let_def count look by (cases "code ch db") auto
qed

lemma devices_ok_step: "devices_ok db \<Longrightarrow> devices_ok (device_next db a)"
proof (cases a)
  case (AddCode ch scope now)
  assume ok: "devices_ok db"
  then show ?thesis unfolding AddCode
    by (auto simp: device_next_def add_pairing_code_def Let_def devices_ok_def distinct_map_filter
        integrity_error_def)
next
  case (ClaimCode ch th name kind now uuid)
  assume ok: "devices_ok db"
  then have "distinct (map pc_code_hash (dd_codes db))" by (simp add: devices_ok_def)
  note spec = store_claim_spec [OF this]
  show ?thesis
  proof (cases "code ch db")
    case None
    then show ?thesis using ok by (simp add: ClaimCode device_next_def spec)
  next
    case (Some c)
    then have "c \<in> set (dd_codes db)" by (auto simp: code_def dest: lookup_by_SomeD)
    then have "pc_scope c \<in> set SCOPES" using ok by (simp add: devices_ok_def)
    then show ?thesis using ok Some
      by (auto simp: ClaimCode device_next_def spec integrity_error_def devices_ok_def new_device_def
          set_update_where)
  qed
next
  case (FailedClaim now)
  assume ok: "devices_ok db"
  then show ?thesis unfolding FailedClaim
    by (auto simp: device_next_def record_failed_claim_def devices_ok_def set_update_where)
next
  case (Touch i now)
  assume ok: "devices_ok db"
  then show ?thesis unfolding Touch
    by (auto simp: device_next_def touch_def devices_ok_def set_update_where)
next
  case (RevokeDevice i now)
  assume ok: "devices_ok db"
  then show ?thesis unfolding RevokeDevice
    by (auto simp: device_next_def store_revoke_def Let_def devices_ok_def set_update_where split: option.splits)
qed

interpretation devices: invariant_system device_next devices_ok
  by unfold_locales (rule devices_ok_step)


text \<open>A device's identity: all of its row but when it was last seen, and its revocation once it is set.\<close>

definition stored :: "string \<Rightarrow> device_db \<Rightarrow> stored_device option" where
  "stored i db = lookup_by dv_device_id i (dd_devices db)"

definition device_id_view :: "string \<Rightarrow> device_db \<Rightarrow> stored_device option" where
  "device_id_view i db = map_option (\<lambda>d. d\<lparr>dv_last_seen_at := None, dv_revoked_at := None\<rparr>) (stored i db)"

definition revoked_view :: "string \<Rightarrow> device_db \<Rightarrow> stored_device option" where
  "revoked_view i db = map_option (\<lambda>d. d\<lparr>dv_last_seen_at := None\<rparr>) (stored i db)"

text \<open>One step leaves the devices as they are, changes when one was last seen, revokes one, or adds one.\<close>

inductive device_change :: "device_db \<Rightarrow> device_db \<Rightarrow> bool" where
  same: "dd_devices db' = dd_devices db \<Longrightarrow> device_change db db'"
| seen: "dd_devices db' = update_where p (\<lambda>r. r\<lparr>dv_last_seen_at := Some now\<rparr>) (dd_devices db) \<Longrightarrow> device_change db db'"
| revoke: "dd_devices db' = update_where (\<lambda>r. dv_device_id r = i \<and> dv_revoked_at r = None)
     (\<lambda>r. r\<lparr>dv_revoked_at := Some now\<rparr>) (dd_devices db) \<Longrightarrow> device_change db db'"
| new: "dd_devices db' = dd_devices db @ [d] \<Longrightarrow> dv_device_id d \<notin> dv_device_id ` set (dd_devices db) \<Longrightarrow> device_change db db'"

lemma device_next_change: "devices_ok db \<Longrightarrow> device_change db (device_next db a)"
proof (cases a)
  case (AddCode ch scope now)
  then show ?thesis by (intro same) (simp add: device_next_def add_pairing_code_def Let_def)
next
  case (ClaimCode ch th name kind now uuid)
  assume "devices_ok db"
  then have "distinct (map pc_code_hash (dd_codes db))" by (simp add: devices_ok_def)
  note spec = store_claim_spec [OF this]
  show ?thesis
    by (cases "code ch db")
      (auto simp: ClaimCode device_next_def spec integrity_error_def new_device_def
        intro: device_change.intros)
next
  case (FailedClaim now)
  then show ?thesis by (intro same) (simp add: device_next_def record_failed_claim_def)
next
  case (Touch i now)
  then show ?thesis by (simp add: device_next_def touch_def seen)
next
  case (RevokeDevice i now)
  then show ?thesis
    by (cases "device_get i (db\<lparr>dd_devices := update_where (\<lambda>r. dv_device_id r = i \<and> dv_revoked_at r = None)
          (\<lambda>r. r\<lparr>dv_revoked_at := Some now\<rparr>) (dd_devices db)\<rparr>)")
      (auto simp: device_next_def store_revoke_def Let_def intro: revoke)
qed

lemmas stored_simps = stored_def lookup_by_update_where option.map_comp comp_def

lemma device_change_id: "device_change db db' \<Longrightarrow> device_id_view i db \<noteq> None \<Longrightarrow> device_id_view i db' = device_id_view i db"
  by (induction rule: device_change.induct)
    (auto simp: device_id_view_def stored_simps intro: option.map_cong)

lemma device_change_revoked:
  assumes "device_change db db'" "stored i db = Some d" "dv_revoked_at d \<noteq> None"
  shows "revoked_view i db' = revoked_view i db"
  using assms by (induction rule: device_change.induct) (auto simp: revoked_view_def stored_simps)

interpretation device_id: frozen_view device_next devices_ok "device_id_view i" "\<lambda>v. v \<noteq> None" for i
  by unfold_locales (rule device_change_id [OF device_next_change])

definition revoked_device :: "stored_device option \<Rightarrow> bool" where
  "revoked_device v = (case v of None \<Rightarrow> False | Some d \<Rightarrow> dv_revoked_at d \<noteq> None)"

interpretation revoked_device: frozen_view device_next devices_ok "revoked_view i" revoked_device for i
proof (unfold_locales, goal_cases)
  case (1 db a)
  from 1(2) obtain d where "stored i db = Some d" "dv_revoked_at d \<noteq> None"
    by (cases "stored i db") (auto simp: revoked_view_def revoked_device_def)
  then show ?case by (rule device_change_revoked [OF device_next_change [OF 1(1)]])
qed

lemma token_hash_unique:
  assumes "devices_ok db" "d \<in> set (dd_devices db)" "e \<in> set (dd_devices db)" "sd_token_hash e = sd_token_hash d"
  shows "e = d"
proof -
  have "inj_on sd_token_hash (set (dd_devices db))" using assms(1) by (simp add: devices_ok_def distinct_map)
  then show ?thesis using assms(2-4) by (simp add: inj_on_eq_iff)
qed

lemma find_live_iff:
  assumes "devices_ok db"
  shows "find_live h db = Some r \<longleftrightarrow>
    (\<exists>d \<in> set (dd_devices db). sd_token_hash d = h \<and> dv_revoked_at d = None \<and> r = row_out d)"
proof -
  show ?thesis
  proof (cases "find (\<lambda>r. sd_token_hash r = h \<and> dv_revoked_at r = None) (dd_devices db)")
    case None
    then have none: "\<not> (\<exists>d. d \<in> set (dd_devices db) \<and> sd_token_hash d = h \<and> dv_revoked_at d = None)"
      unfolding find_None_iff .
    from None have "find_live h db = None" by (simp add: find_live_def)
    then show ?thesis using none by auto
  next
    case (Some d)
    then have d: "d \<in> set (dd_devices db)" "sd_token_hash d = h" "dv_revoked_at d = None"
      by (auto simp: find_Some_iff)
    from Some have "find_live h db = Some (row_out d)" by (simp add: find_live_def)
    then show ?thesis using d token_hash_unique [OF assms d(1)] by (metis option.inject)
  qed
qed

lemma seen_only:
  "d\<lparr>dv_last_seen_at := None\<rparr> = e\<lparr>dv_last_seen_at := None\<rparr> \<Longrightarrow> sd_token_hash d = sd_token_hash e \<and> dv_revoked_at d = dv_revoked_at e"
  by (cases d; cases e) simp

lemma row_out_sel [simp]: "dv_device_id (row_out d) = dv_device_id d" "dv_scope (row_out d) = dv_scope d"
  by (simp_all add: row_out_def device_row.defs)

lemma verify_token_iff:
  assumes "devices_ok db"
  shows "fst (verify_token digest token now db) = Some (j, scope) \<longleftrightarrow>
    startswith token TOKEN_PREFIX \<and> (\<exists>r \<in> set (dd_devices db). sd_token_hash r = digest token
      \<and> dv_revoked_at r = None \<and> dv_device_id r = j \<and> dv_scope r = scope)"
proof (cases "find_live (digest token) db")
  case None
  then have "\<not> (\<exists>r \<in> set (dd_devices db). sd_token_hash r = digest token \<and> dv_revoked_at r = None)"
    using find_live_iff [OF assms, of "digest token"] by (metis option.distinct(1))
  then show ?thesis using None by (auto simp: verify_token_def)
next
  case (Some a)
  have live: "row_out r = a" if "r \<in> set (dd_devices db)" "sd_token_hash r = digest token" "dv_revoked_at r = None" for r
    using that Some find_live_iff [OF assms, of "digest token" "row_out r"] by auto
  obtain d where d: "d \<in> set (dd_devices db)" "sd_token_hash d = digest token" "dv_revoked_at d = None" "a = row_out d"
    using Some find_live_iff [OF assms, of "digest token" a] by auto
  have "fst (verify_token digest token now db) = Some (j, scope) \<longleftrightarrow>
      startswith token TOKEN_PREFIX \<and> dv_device_id d = j \<and> dv_scope d = scope"
    by (simp add: verify_token_def Some d(4))
  then show ?thesis using d live row_out_sel by metis
qed

text \<open>C22. A revoked device stays out, and a live one is what it was paired as. In any store reached from a
  sound one, through any sequence of new codes, claims, failed claims, uses and revocations: ids, token
  hashes and code hashes stay unique; a device's name, kind, scope and token never change; a token verifies
  exactly when it carries the prefix and its hash is that of an unrevoked device, and answers that device's
  id and scope; and the token of a device once revoked never verifies again.\<close>

theorem device_revocation_is_final:
  assumes "devices_ok db" and "stored i db = Some d" and db': "db' = run_ops device_next db ops"
  shows "devices_ok db'
    \<and> device_id_view i db' = device_id_view i db
    \<and> (fst (verify_token digest token now db') = Some (j, scope) \<longleftrightarrow>
         startswith token TOKEN_PREFIX \<and> (\<exists>r \<in> set (dd_devices db'). sd_token_hash r = digest token
            \<and> dv_revoked_at r = None \<and> dv_device_id r = j \<and> dv_scope r = scope))
    \<and> (dv_revoked_at d \<noteq> None \<and> digest token = sd_token_hash d \<longrightarrow> fst (verify_token digest token now db') = None)"
proof -
  have ok: "devices_ok db'" using assms devices.run_inv by simp
  have "device_id_view i db' = device_id_view i db"
    unfolding db' using assms(1,2) by (intro device_id.run_frozen) (simp_all add: device_id_view_def)
  moreover have verify: "fst (verify_token digest token now db') = Some (j, scope) \<longleftrightarrow>
      startswith token TOKEN_PREFIX \<and> (\<exists>r \<in> set (dd_devices db'). sd_token_hash r = digest token
         \<and> dv_revoked_at r = None \<and> dv_device_id r = j \<and> dv_scope r = scope)" for j scope
    by (rule verify_token_iff [OF ok])
  moreover have "fst (verify_token digest token now db') = None"
    if rev: "dv_revoked_at d \<noteq> None" and h: "digest token = sd_token_hash d"
  proof -
    have "revoked_view i db' = revoked_view i db"
      unfolding db' using assms(1,2) rev by (intro revoked_device.run_frozen) (simp_all add: revoked_view_def revoked_device_def)
    then obtain d' where d': "stored i db' = Some d'" "sd_token_hash d' = sd_token_hash d" "dv_revoked_at d' = dv_revoked_at d"
      using assms(2) seen_only by (auto simp: revoked_view_def)
    have "r = d'" if "r \<in> set (dd_devices db')" "sd_token_hash r = sd_token_hash d" for r
      using token_hash_unique [OF ok _ that(1)] that(2) d'(2) lookup_by_SomeD [OF d'(1) [unfolded stored_def]] by simp
    then show ?thesis using verify rev h d'(3) by (metis option.exhaust surj_pair)
  qed
  ultimately show ?thesis using ok by blast
qed

definition demo_device_db :: device_db where
  "demo_device_db = \<lparr>dd_devices = [(new_device ''d1'' ''phone'' ''app'' ''read'' ''h1'' 0)\<lparr>dv_revoked_at := Some 5\<rparr>],
     dd_codes = [\<lparr>pc_code_hash = ''c1'', pc_scope = ''control'', pc_created_at = 0, pc_expires_at = 300000000,
       pc_attempts = 0, pc_used_at = None\<rparr>]\<rparr>"

lemma demo_device_db_ok: "devices_ok demo_device_db"
  by (simp add: devices_ok_def demo_device_db_def new_device_def SCOPES_def KINDS_def)

theorem device_revocation_is_final_witness:
  "fst (verify_token (\<lambda>_. ''h1'') (TOKEN_PREFIX @ ''x'') 9
     (run_ops device_next demo_device_db [Touch ''d1'' 7, RevokeDevice ''d1'' 8])) = None"
proof -
  have "stored ''d1'' demo_device_db = Some ((new_device ''d1'' ''phone'' ''app'' ''read'' ''h1'' 0)\<lparr>dv_revoked_at := Some 5\<rparr>)"
    by (simp add: stored_def demo_device_db_def new_device_def)
  from device_revocation_is_final [OF demo_device_db_ok this refl, THEN conjunct2, THEN conjunct2, THEN conjunct2,
      of "\<lambda>_. ''h1''" "TOKEN_PREFIX @ ''x''" 9 "[Touch ''d1'' 7, RevokeDevice ''d1'' 8]"]
  show ?thesis by (simp add: new_device_def)
qed


section \<open>A pairing code's life\<close>

fun issues :: "string \<Rightarrow> device_op \<Rightarrow> bool" where
  "issues ch (AddCode ch' scope now) = (ch' = ch)"
| "issues ch _ = False"

fun charges :: "timestamp \<Rightarrow> device_op \<Rightarrow> bool" where
  "charges expires_at (FailedClaim now) = (now < expires_at)"
| "charges expires_at _ = False"

text \<open>A code that can never pair again: not in the store, used, or out of attempts.\<close>

definition code_dead :: "string \<Rightarrow> device_db \<Rightarrow> bool" where
  "code_dead ch db = (case code ch db of
     None \<Rightarrow> True | Some c \<Rightarrow> pc_used_at c \<noteq> None \<or> PAIRING_MAX_ATTEMPTS \<le> pc_attempts c)"

lemma lookup_by_filter_distinct:
  "distinct (map f xs) \<Longrightarrow> lookup_by f k (filter p xs) =
     (case lookup_by f k xs of None \<Rightarrow> None | Some r \<Rightarrow> if p r then Some r else None)"
proof (induction xs)
  case (Cons x xs)
  have "lookup_by f (f x) xs = None" using Cons.prems by (simp add: lookup_by_None_iff)
  then show ?case using Cons by (auto split: option.splits)
qed simp

text \<open>What a step that does not issue a code does to it: nothing, removal, a charge, or its use.\<close>

lemma code_step:
  assumes "devices_ok db" "\<not> issues ch a"
  shows "code ch (device_next db a) = code ch db
    \<or> code ch (device_next db a) = None \<and> \<not> charges e a
    \<or> (\<exists>c now. code ch db = Some c \<and> a = FailedClaim now \<and> code_live now c \<and> pc_attempts c < PAIRING_MAX_ATTEMPTS
         \<and> code ch (device_next db a) = Some (c\<lparr>pc_attempts := pc_attempts c + 1\<rparr>))
    \<or> (\<exists>c now. code ch db = Some c \<and> code_live now c \<and> pc_attempts c < PAIRING_MAX_ATTEMPTS
         \<and> code ch (device_next db a) = Some (c\<lparr>pc_used_at := Some now\<rparr>) \<and> snd (device_step db a) = Some ch)"
proof (cases a)
  case (AddCode ch' scope now)
  then show ?thesis using assms
    by (cases "code ch db")
      (auto simp: device_next_def add_pairing_code_def Let_def code_def lookup_by_filter_distinct devices_ok_def)
next
  case (ClaimCode ch' th name kind now uuid)
  have d: "distinct (map pc_code_hash (dd_codes db))" using assms(1) by (simp add: devices_ok_def)
  show ?thesis
  proof (cases "ch' = ch")
    case True
    show ?thesis
    proof (cases "code ch db")
      case None
      then show ?thesis by (simp add: ClaimCode True device_next_def store_claim_spec [OF d])
    next
      case (Some c)
      then have "pc_code_hash c = ch" by (auto simp: code_def dest: lookup_by_SomeD)
      then show ?thesis using Some
        by (auto simp: ClaimCode True device_next_def store_claim_spec [OF d] integrity_error_def)
          (auto simp: code_def lookup_by_update_where)
    qed
  next
    case False
    then show ?thesis
      by (cases "code ch' db"; cases "code ch db")
        (auto simp: ClaimCode device_next_def store_claim_spec [OF d] integrity_error_def code_def
          lookup_by_update_where dest: lookup_by_SomeD)
  qed
next
  case (FailedClaim now)
  then show ?thesis
    by (cases "code ch db") (auto simp: device_next_def record_failed_claim_def code_def lookup_by_update_where)
next
  case (Touch i now)
  then show ?thesis by (simp add: device_next_def touch_def code_def)
next
  case (RevokeDevice i now)
  then show ?thesis by (simp add: device_next_def store_revoke_def Let_def code_def split: option.split)
qed


lemma claim_wins:
  assumes "devices_ok db" "snd (device_step db a) = Some ch"
  shows "\<not> code_dead ch db \<and> code_dead ch (device_next db a)"
proof -
  from assms(2) obtain th name kind now uuid where a: "a = ClaimCode ch th name kind now uuid"
    by (cases a) (auto split: prod.splits sum.splits option.splits)
  have d: "distinct (map pc_code_hash (dd_codes db))" using assms(1) by (simp add: devices_ok_def)
  from assms(2) obtain c where c: "code ch db = Some c" "code_live now c" "pc_attempts c < PAIRING_MAX_ATTEMPTS"
    by (cases "code ch db") (auto simp: a store_claim_spec [OF d] integrity_error_def split: if_splits)
  moreover from c(1) have "pc_code_hash c = ch" by (auto simp: code_def dest: lookup_by_SomeD)
  ultimately have "code ch (device_next db a) = Some (c\<lparr>pc_used_at := Some now\<rparr>)"
    using assms(2)
    by (auto simp: a device_next_def store_claim_spec [OF d] integrity_error_def split: if_splits)
      (simp add: code_def lookup_by_update_where)
  then show ?thesis using c by (simp add: code_dead_def code_live_def)
qed

lemma code_dead_stays: "devices_ok db \<Longrightarrow> \<not> issues ch a \<Longrightarrow> code_dead ch db \<Longrightarrow> code_dead ch (device_next db a)"
  using code_step [of db ch a 0] by (auto simp: code_dead_def code_live_def)

definition device_step_no :: "string \<Rightarrow> device_db \<Rightarrow> device_op \<Rightarrow> device_db \<times> string option" where
  "device_step_no ch db a = (if issues ch a then (db, None) else device_step db a)"

interpretation pairing: single_use "device_step_no ch" devices_ok "\<lambda>r. r = Some ch" "code_dead ch" for ch
proof (unfold_locales, goal_cases)
  case (1 db a)
  then show ?case using devices_ok_step [of db a] by (simp add: device_step_no_def device_next_def)
next
  case (2 db a)
  then show ?case using claim_wins [of db a ch] by (auto simp: device_step_no_def device_next_def split: if_splits)
next
  case (3 db a)
  then show ?case using code_dead_stays [of db ch a] by (simp add: device_step_no_def device_next_def)
qed

lemma outcomes_no_issue:
  "\<forall>a \<in> set ops. \<not> issues ch a \<Longrightarrow> outcomes (device_step_no ch) db ops = outcomes device_step db ops"
  by (induction ops arbitrary: db) (simp_all add: device_step_no_def)

lemma code_alive_step:
  assumes "devices_ok db" "\<not> issues ch a" "code ch db = Some c" "pc_used_at c = None"
  shows "code_dead ch (device_next db a)
    \<or> code ch (device_next db a) = Some (c\<lparr>pc_attempts := pc_attempts c + (if charges (pc_expires_at c) a then 1 else 0)\<rparr>)"
proof (cases "charges (pc_expires_at c) a")
  case True
  then obtain now where a: "a = FailedClaim now" "now < pc_expires_at c" by (cases a) auto
  then have "code ch (device_next db a) =
      Some (if pc_attempts c < PAIRING_MAX_ATTEMPTS then c\<lparr>pc_attempts := pc_attempts c + 1\<rparr> else c)"
    using assms(3,4) by (auto simp: device_next_def record_failed_claim_def code_def lookup_by_update_where code_live_def)
  then show ?thesis using True assms(4) by (auto simp: code_dead_def)
next
  case False
  then show ?thesis using code_step [OF assms(1,2), of "pc_expires_at c"] assms(3,4)
    by (auto simp: code_dead_def code_live_def)
qed

lemma code_run:
  assumes "devices_ok db" "\<forall>a \<in> set ops. \<not> issues ch a" "code ch db = Some c"
  shows "code_dead ch (run_ops device_next db ops)
    \<or> code ch (run_ops device_next db ops)
        = Some (c\<lparr>pc_attempts := pc_attempts c + length (filter (charges (pc_expires_at c)) ops)\<rparr>)"
  using assms
proof (induction ops arbitrary: db c)
  case (Cons a ops)
  let ?db = "device_next db a"
  have ok: "devices_ok ?db" by (rule devices_ok_step [OF Cons.prems(1)])
  have no: "\<not> issues ch a" "\<forall>b \<in> set ops. \<not> issues ch b" using Cons.prems(2) by auto
  have dead: "code_dead ch (run_ops device_next ?db ops)" if "code_dead ch ?db"
    using ok no(2) that
  proof (induction ops arbitrary: db rule: rev_induct)
    case (snoc b ops)
    then show ?case using devices.run_inv [OF snoc.prems(1), of ops] by (auto intro: code_dead_stays)
  qed simp
  show ?case
  proof (cases "pc_used_at c = None")
    case True
    from code_alive_step [OF Cons.prems(1) no(1) Cons.prems(3) True] show ?thesis
    proof
      assume "code_dead ch ?db"
      then show ?thesis using dead by simp
    next
      assume "code ch ?db = Some (c\<lparr>pc_attempts := pc_attempts c + (if charges (pc_expires_at c) a then 1 else 0)\<rparr>)"
      from Cons.IH [OF ok no(2) this] show ?thesis by auto
    qed
  next
    case False
    then have "code_dead ch db" using Cons.prems(3) by (simp add: code_dead_def)
    then show ?thesis using dead code_dead_stays [OF Cons.prems(1) no(1)] by simp
  qed
qed simp

text \<open>A pairing code pairs at most one device, only while it is alive, and only with the scope its owner
  gave it. Through any sequence of store changes that does not issue the same code anew: at most one claim
  spends it, and none after; five failed claims before its expiry void it, whichever codes they guessed; and
  a claim with a fresh id and token pairs exactly when the code is neither spent, voided nor removed and has
  not expired, giving a device the code's own scope.\<close>

theorem pairing_code_lifetime:
  assumes "devices_ok db" and "code ch db = Some c" and "\<forall>a \<in> set ops. \<not> issues ch a"
      and db': "db' = run_ops device_next db ops"
  shows "length (filter (\<lambda>r. r = Some ch) (outcomes device_step db ops)) \<le> 1
    \<and> (PAIRING_MAX_ATTEMPTS \<le> pc_attempts c + length (filter (charges (pc_expires_at c)) ops) \<longrightarrow> code_dead ch db')
    \<and> (code_dead ch db' \<longrightarrow> fst (store_claim ch th name kind now PAIRING_MAX_ATTEMPTS uuid db') = Inr None)
    \<and> (\<not> code_dead ch db' \<and> uuid \<notin> dv_device_id ` set (dd_devices db') \<and> th \<notin> sd_token_hash ` set (dd_devices db')
         \<and> kind \<in> set KINDS \<longrightarrow>
         fst (store_claim ch th name kind now PAIRING_MAX_ATTEMPTS uuid db') =
           (if now < pc_expires_at c then Inr (Some (row_out (new_device uuid name kind (pc_scope c) th now)))
            else Inr None))"
proof -
  have "devices_ok db'" unfolding db' by (rule devices.run_inv [OF assms(1)])
  then have d: "distinct (map pc_code_hash (dd_codes db'))" by (simp add: devices_ok_def)
  note spec = store_claim_spec [OF d, of ch th name kind now PAIRING_MAX_ATTEMPTS uuid]
  have once: "length (filter (\<lambda>r. r = Some ch) (outcomes device_step db ops)) \<le> 1"
    using pairing.at_most_one_win [OF assms(1), of ch ops] unfolding outcomes_no_issue [OF assms(3)] .
  have run: "code_dead ch db' \<or> code ch db'
      = Some (c\<lparr>pc_attempts := pc_attempts c + length (filter (charges (pc_expires_at c)) ops)\<rparr>)"
    unfolding db' by (rule code_run [OF assms(1,3,2)])
  show ?thesis
  proof (cases "code_dead ch db'")
    case True
    then have "fst (store_claim ch th name kind now PAIRING_MAX_ATTEMPTS uuid db') = Inr None"
      unfolding spec by (auto simp: code_dead_def code_live_def split: option.splits)
    then show ?thesis using once True by simp
  next
    case False
    with run have c': "code ch db' = Some (c\<lparr>pc_attempts := pc_attempts c + length (filter (charges (pc_expires_at c)) ops)\<rparr>)"
      by simp
    then have "pc_used_at c = None" "pc_attempts c + length (filter (charges (pc_expires_at c)) ops) < PAIRING_MAX_ATTEMPTS"
      using False by (auto simp: code_dead_def)
    then show ?thesis using once False unfolding spec c' by (auto simp: code_live_def)
  qed
qed

theorem pairing_code_lifetime_witness:
  "fst (store_claim ''c1'' ''h2'' ''tablet'' ''app'' 10 PAIRING_MAX_ATTEMPTS ''d2''
     (run_ops device_next demo_device_db (replicate 5 (FailedClaim 1)))) = Inr None"
proof -
  have "code ''c1'' demo_device_db = Some \<lparr>pc_code_hash = ''c1'', pc_scope = ''control'', pc_created_at = 0,
      pc_expires_at = 300000000, pc_attempts = 0, pc_used_at = None\<rparr>"
    by (simp add: code_def demo_device_db_def)
  from pairing_code_lifetime [OF demo_device_db_ok this _ refl, of "replicate 5 (FailedClaim 1)" "''h2''" "''tablet''" "''app''" 10 "''d2''"]
  show ?thesis by (simp add: PAIRING_MAX_ATTEMPTS_def)
qed

end
