(* ===== verification/Globs.thy ===== *)
theory Globs
  imports Prelude
begin

text \<open>
  Shell patterns: \<open>fnmatch.fnmatchcase\<close> of the standard library, which the route policies, the persona surfaces and
  the allowlists of commands, hosts and MCP tools all match with (\<open>fnmatch\<close> is the same function on a POSIX system,
  where \<open>normcase\<close> is the identity), and the substring test \<open>x in s\<close>.
\<close>

section \<open>Shell patterns\<close>

text \<open>\<open>fnmatch.fnmatchcase\<close>: \<open>*\<close>, \<open>?\<close>, and \<open>[seq]\<close> or \<open>[!seq]\<close> with ranges; an unclosed bracket is a
  literal one.\<close>

datatype glob = GAny | GOne | GLit char | GSet bool "(char \<times> char) list"

fun ranges :: "string \<Rightarrow> (char \<times> char) list" where
  "ranges [] = []"
| "ranges [x] = [(x, x)]"
| "ranges [x, y] = [(x, x), (y, y)]"
| "ranges (x # d # y # cs) = (if d = CHR ''-'' then (x, y) # ranges cs else (x, x) # ranges (d # y # cs))"

definition bracket :: "string \<Rightarrow> (glob \<times> string) option" where
  "bracket cs =
     (let neg = startswith cs ''!'';
          cs1 = (if neg then tl cs else cs);
          lead = (if startswith cs1 '']'' then '']'' else []);
          cs2 = drop (length lead) cs1;
          body = takeWhile (\<lambda>c. c \<noteq> CHR '']'') cs2;
          rest = dropWhile (\<lambda>c. c \<noteq> CHR '']'') cs2
      in if rest = [] then None else Some (GSet neg (ranges (lead @ body)), tl rest))"

lemma bracket_shorter: "bracket cs = Some (g, rest) \<Longrightarrow> length rest < Suc (length cs)"
proof -
  assume "bracket cs = Some (g, rest)"
  then have "rest = tl (dropWhile (\<lambda>c. c \<noteq> CHR '']'')
      (drop (if startswith (if startswith cs ''!'' then tl cs else cs) '']'' then 1 else 0)
        (if startswith cs ''!'' then tl cs else cs)))"
    by (simp add: bracket_def Let_def split: if_splits)
  moreover have "length (tl (dropWhile p (drop n xs))) \<le> length xs" for p n and xs :: string
    using length_dropWhile_le [of p "drop n xs"] by simp
  ultimately have "length rest \<le> length (if startswith cs ''!'' then tl cs else cs)" by metis
  then show ?thesis by (auto split: if_splits)
qed

function glob_tokens :: "string \<Rightarrow> glob list" where
  "glob_tokens [] = []"
| "glob_tokens (c # cs) =
     (if c = CHR ''*'' then GAny # glob_tokens cs
      else if c = CHR ''?'' then GOne # glob_tokens cs
      else if c = CHR ''['' then
        (case bracket cs of None \<Rightarrow> GLit c # glob_tokens cs | Some (g, rest) \<Rightarrow> g # glob_tokens rest)
      else GLit c # glob_tokens cs)"
  by pat_completeness auto

termination
  by (relation "measure length") (auto dest: bracket_shorter)

definition in_ranges :: "char \<Rightarrow> (char \<times> char) list \<Rightarrow> bool" where
  "in_ranges c rs = list_ex (\<lambda>(lo, hi). (of_char lo :: nat) \<le> of_char c \<and> (of_char c :: nat) \<le> of_char hi) rs"

fun glob_one :: "glob \<Rightarrow> char \<Rightarrow> bool" where
  "glob_one GAny c = False"
| "glob_one GOne c = True"
| "glob_one (GLit d) c = (c = d)"
| "glob_one (GSet neg rs) c = (in_ranges c rs \<noteq> neg)"

fun glob_match :: "glob list \<Rightarrow> string \<Rightarrow> bool" where
  "glob_match [] s = (s = [])"
| "glob_match (GAny # gs) [] = glob_match gs []"
| "glob_match (GAny # gs) (c # s) = (glob_match gs (c # s) \<or> glob_match (GAny # gs) s)"
| "glob_match (g # gs) [] = False"
| "glob_match (g # gs) (c # s) = (glob_one g c \<and> glob_match gs s)"

definition fnmatchcase :: "string \<Rightarrow> string \<Rightarrow> bool" where
  "fnmatchcase name pat = glob_match (glob_tokens pat) name"

section \<open>What patterns match\<close>

lemma glob_any: "glob_match (GAny # gs) s \<longleftrightarrow> (\<exists>u v. s = u @ v \<and> glob_match gs v)"
proof (induction s)
  case (Cons c s)
  show ?case
  proof
    assume "glob_match (GAny # gs) (c # s)"
    then consider "glob_match gs (c # s)" | "glob_match (GAny # gs) s" by auto
    then show "\<exists>u v. c # s = u @ v \<and> glob_match gs v"
    proof cases
      case 1
      have "c # s = [] @ (c # s)" by simp
      then show ?thesis using 1 by blast
    next
      case 2
      then obtain u v where "s = u @ v" "glob_match gs v" using Cons.IH by blast
      then have "c # s = (c # u) @ v" by simp
      then show ?thesis using \<open>glob_match gs v\<close> by blast
    qed
  next
    assume "\<exists>u v. c # s = u @ v \<and> glob_match gs v"
    then obtain u v where "c # s = u @ v" "glob_match gs v" by blast
    then show "glob_match (GAny # gs) (c # s)" using Cons.IH by (cases u) auto
  qed
qed simp

lemma glob_lits: "glob_match (map GLit p @ gs) s \<longleftrightarrow> (\<exists>v. s = p @ v \<and> glob_match gs v)"
proof (induction p arbitrary: s)
  case (Cons c p)
  show ?case by (cases s) (auto simp: Cons)
qed simp

definition plain :: "string \<Rightarrow> bool" where
  "plain p = (CHR ''*'' \<notin> set p \<and> CHR ''?'' \<notin> set p \<and> CHR ''['' \<notin> set p)"

lemma glob_tokens_plain: "plain p \<Longrightarrow> glob_tokens (p @ q) = map GLit p @ glob_tokens q"
  by (induction p) (auto simp: plain_def)

lemma fnmatchcase_plain: "plain p \<Longrightarrow> fnmatchcase s p \<longleftrightarrow> s = p"
  using glob_tokens_plain [of p "[]"] glob_lits [of p "[]" s] by (auto simp: fnmatchcase_def)

lemma fnmatchcase_star: "plain p \<Longrightarrow> fnmatchcase s (p @ ''*'') \<longleftrightarrow> (\<exists>v. s = p @ v)"
  by (auto simp: fnmatchcase_def glob_tokens_plain glob_lits glob_any)

text \<open>\<open>*suffix\<close> covers exactly the texts that end so.\<close>

lemma fnmatchcase_suffix: "plain p \<Longrightarrow> fnmatchcase s (CHR ''*'' # p) \<longleftrightarrow> (\<exists>u. s = u @ p)"
  using glob_tokens_plain [of p "[]"] glob_lits [of p "[]"] by (simp add: fnmatchcase_def glob_any)

section \<open>Substrings\<close>

fun py_in :: "string \<Rightarrow> string \<Rightarrow> bool" where
  "py_in p [] = (p = [])"
| "py_in p (c # s) = (startswith (c # s) p \<or> py_in p s)"

lemma py_in_iff: "py_in p s \<longleftrightarrow> (\<exists>u v. s = u @ p @ v)"
proof (induction s)
  case (Cons c s)
  note IH = Cons.IH
  show ?case
  proof
    assume "py_in p (c # s)"
    then consider t where "c # s = p @ t" | u v where "s = u @ p @ v"
      using IH by (auto simp: startswith_iff)
    then show "\<exists>u v. c # s = u @ p @ v"
    proof cases
      case 1
      then have "c # s = [] @ p @ t" by simp
      then show ?thesis by blast
    next
      case 2
      then have "c # s = (c # u) @ p @ v" by simp
      then show ?thesis by blast
    qed
  next
    assume "\<exists>u v. c # s = u @ p @ v"
    then obtain u v where uv: "c # s = u @ p @ v" by blast
    show "py_in p (c # s)"
    proof (cases u)
      case Nil
      then have "startswith (c # s) p" using uv by (simp add: startswith_iff)
      then show ?thesis by simp
    next
      case (Cons a u')
      then have "py_in p s" using uv IH by auto
      then show ?thesis by simp
    qed
  qed
qed simp

lemma py_in_Nil [simp]: "py_in [] s"
  by (cases s) auto

lemma py_in_trans: "py_in p q \<Longrightarrow> py_in q s \<Longrightarrow> py_in p s"
  unfolding py_in_iff by (metis append.assoc)

end
