(* ===== verification/Governor.thy ===== *)
theory Governor
  imports Interfaces Globs "HOL-Library.AList"
begin

text \<open>
  The governor (\<open>kernel/governor\<close>): route policies (\<open>policy.py\<close>, \<open>models.py\<close>), the token-bucket rate
  limiter (\<open>rate_limiter.py\<close>), the append-only decision log (\<open>audit.py\<close>) and the guard that composes
  them (\<open>service.py\<close>). The policy is the validated configuration; reading the file is not modelled. The
  clock, a fresh ULID, \<open>float(text)\<close> and whether a write of the log succeeds are arguments. Bucket levels
  are rationals where the code has floats. The message of a validation error is not modelled.
\<close>

section \<open>Policy\<close>

record rate_limit_policy =
  rp_requests :: int
  rp_window_seconds :: int

record route_policy =
  gp_route :: string
  gp_allowed_actions :: "string list"
  gp_requires_approval :: bool
  gp_rate_limit :: "rate_limit_policy option"

record guard_request =
  gr_route :: string
  gr_action :: string
  gr_metadata :: dict
  gr_cost_estimate_usd :: "rat option"

record guard_decision =
  gd_route :: string
  gd_action :: string
  gd_allowed :: bool
  gd_reason :: string
  gd_matched_policy :: "string option"
  gd_requires_approval :: bool
  gd_retry_after_seconds :: "int option"
  gd_metadata :: dict

definition route_matches :: "string \<Rightarrow> string \<Rightarrow> bool" where
  "route_matches pattern route =
     (if pattern = route then True
      else if CHR ''*'' \<notin> set pattern then False
      else fnmatchcase route pattern)"

definition list_routes :: "route_policy list \<Rightarrow> string list" where
  "list_routes routes = map gp_route routes"

definition match_route :: "route_policy list \<Rightarrow> string \<Rightarrow> route_policy option" where
  "match_route routes route = find (\<lambda>p. route_matches (gp_route p) route) routes"

definition has_approval_flag :: "dict \<Rightarrow> bool" where
  "has_approval_flag metadata =
     (truthy (dget metadata ''approval_granted'') \<or> truthy (dget metadata ''approved''))"

definition decide :: "guard_request \<Rightarrow> bool \<Rightarrow> string \<Rightarrow> route_policy option \<Rightarrow> guard_decision" where
  "decide rq allowed reason matched =
     \<lparr>gd_route = gr_route rq, gd_action = gr_action rq, gd_allowed = allowed, gd_reason = reason,
      gd_matched_policy = map_option gp_route matched,
      gd_requires_approval = (case matched of None \<Rightarrow> False | Some p \<Rightarrow> gp_requires_approval p),
      gd_retry_after_seconds = None, gd_metadata = gr_metadata rq\<rparr>"

definition policy_evaluate :: "route_policy list \<Rightarrow> guard_request \<Rightarrow> route_policy option \<Rightarrow> guard_decision" where
  "policy_evaluate routes rq matched_policy =
     (case (case matched_policy of Some p \<Rightarrow> Some p | None \<Rightarrow> match_route routes (gr_route rq)) of
        None \<Rightarrow>
          decide rq False (''route '' @ [CHR 0x27] @ gr_route rq @ [CHR 0x27]
            @ '' is not configured in the Evarness governor policy'') None
      | Some p \<Rightarrow>
          if gp_allowed_actions p \<noteq> [] \<and> gr_action rq \<notin> set (gp_allowed_actions p) then
            decide rq False (''action '' @ [CHR 0x27] @ gr_action rq @ [CHR 0x27]
              @ '' is not allowed for route '' @ [CHR 0x27] @ gr_route rq @ [CHR 0x27]) (Some p)
          else if gp_requires_approval p \<and> \<not> has_approval_flag (gr_metadata rq) then
            decide rq False (''route '' @ [CHR 0x27] @ gr_route rq @ [CHR 0x27]
              @ '' requires metadata.approval_granted=true'') (Some p)
          else decide rq True ''Allowed'' (Some p))"

section \<open>Token buckets\<close>

record token_bucket =
  tb_tokens :: rat
  tb_updated_at :: rat

type_synonym buckets = "(string \<times> token_bucket) list"

record rate_limit_decision =
  rl_allowed :: bool
  rl_retry_after_seconds :: "int option"

definition bucket_put :: "string \<Rightarrow> token_bucket \<Rightarrow> buckets \<Rightarrow> buckets" where
  "bucket_put k b bs = AList.update k b bs"

definition rate_evaluate ::
  "string \<Rightarrow> rate_limit_policy option \<Rightarrow> rat \<Rightarrow> buckets \<Rightarrow> rate_limit_decision \<times> buckets"
where
  "rate_evaluate route_key policy now bs =
     (case policy of
        None \<Rightarrow> (\<lparr>rl_allowed = True, rl_retry_after_seconds = None\<rparr>, bs)
      | Some p \<Rightarrow>
          let capacity = rat_of_int (rp_requests p);
              refill_rate = capacity / rat_of_int (rp_window_seconds p);
              state = (case map_of bs route_key of
                         None \<Rightarrow> \<lparr>tb_tokens = capacity, tb_updated_at = now\<rparr> | Some b \<Rightarrow> b);
              elapsed = max 0 (now - tb_updated_at state);
              available = min capacity (tb_tokens state + elapsed * refill_rate)
          in if available \<ge> 1 then
               (\<lparr>rl_allowed = True, rl_retry_after_seconds = None\<rparr>,
                bucket_put route_key \<lparr>tb_tokens = available - 1, tb_updated_at = now\<rparr> bs)
             else
               (\<lparr>rl_allowed = False, rl_retry_after_seconds = Some (max 1 \<lceil>(1 - available) / refill_rate\<rceil>)\<rparr>,
                bucket_put route_key \<lparr>tb_tokens = available, tb_updated_at = now\<rparr> bs))"

section \<open>The decision log\<close>

record governor_audit_row =
  ga_id :: nat
  ga_decision :: guard_decision
  ga_created_at :: timestamp
  ga_run_id :: "string option"
  ga_call_id :: "string option"
  ga_session_id :: "string option"
  ga_record_id :: "string option"

record governor_log =
  gl_rows :: "governor_audit_row list"
  gl_has_identity :: bool

definition identity_of :: "dict \<Rightarrow> string \<Rightarrow> string option" where
  "identity_of identity key = nonempty_str (dget identity key)"

record guard_env =
  gv_clock :: rat
  gv_now :: timestamp
  gv_ulid :: string
  gv_log_fault :: bool

text \<open>\<open>AUTOINCREMENT\<close>: the log is never deleted from, so the next id is one more than the number of rows.\<close>

definition record_decision ::
  "guard_decision \<Rightarrow> dict \<Rightarrow> guard_env \<Rightarrow> governor_log \<Rightarrow> unit result \<times> governor_log"
where
  "record_decision d identity env lg =
     (if gv_log_fault env then (Raise ''GovernorAuditError'' ''unable to record governor decision'', lg)
      else
        let ids = (\<lambda>k. if gl_has_identity lg then identity_of identity k else None) in
        (Inr (), lg\<lparr>gl_rows := gl_rows lg @
           [\<lparr>ga_id = Suc (length (gl_rows lg)), ga_decision = d, ga_created_at = gv_now env,
             ga_run_id = ids ''run_id'', ga_call_id = ids ''call_id'', ga_session_id = ids ''session_id'',
             ga_record_id = (if gl_has_identity lg then Some (gv_ulid env) else None)\<rparr>]\<rparr>))"

definition list_entries :: "nat \<Rightarrow> governor_log \<Rightarrow> (nat \<times> guard_decision) list" where
  "list_entries limit lg = map (\<lambda>r. (ga_id r, ga_decision r)) (take limit (sort_key ga_id (gl_rows lg)))"

section \<open>The guard\<close>

definition replace_slash :: "string \<Rightarrow> string" where
  "replace_slash s = map (\<lambda>c. if c = CHR ''/'' then CHR ''_'' else c) s"

definition cost_of :: "(string \<Rightarrow> rat option) \<Rightarrow> pyval \<Rightarrow> rat option result" where
  "cost_of float v =
     (case v of
        PNone \<Rightarrow> Inr None
      | PBool b \<Rightarrow> Inr (Some (if b then 1 else 0))
      | PInt i \<Rightarrow> Inr (Some (rat_of_int i))
      | PFloat q \<Rightarrow> Inr (Some q)
      | PStr s \<Rightarrow> (case float s of None \<Rightarrow> Raise ''ValueError'' [] | Some q \<Rightarrow> Inr (Some q))
      | _ \<Rightarrow> Raise ''TypeError'' [])"

definition guard_metadata :: "dict \<Rightarrow> dict result" where
  "guard_metadata body =
     (if dhas body ''metadata'' then
        (case dget body ''metadata'' of
           PNone \<Rightarrow> Inr []
         | PDict d \<Rightarrow> Inr d
         | _ \<Rightarrow> Raise ''ValueError'' ''guard payload field 'metadata' must be a mapping'')
      else Inr (filter (\<lambda>(k, v). k \<noteq> ''action'' \<and> k \<noteq> ''cost_estimate_usd'') body))"

text \<open>The action of a request; the models strip the whitespace around route and action, refuse an empty one
  and refuse a negative cost.\<close>

definition guard_action :: "string \<Rightarrow> dict \<Rightarrow> string" where
  "guard_action route body =
     (let a = strip (if truthy (dget body ''action'') then py_str (dget body ''action'') else replace_slash route)
      in if a = [] then replace_slash route else a)"

definition coerce_guard_request :: "(string \<Rightarrow> rat option) \<Rightarrow> string \<Rightarrow> dict \<Rightarrow> guard_request result" where
  "coerce_guard_request float route body =
     (case guard_metadata body of Inl e \<Rightarrow> Inl e | Inr metadata \<Rightarrow>
      (case cost_of float (dget body ''cost_estimate_usd'') of Inl e \<Rightarrow> Inl e | Inr cost \<Rightarrow>
       let r = strip route; a = strip (guard_action route body) in
       if r = [] \<or> a = [] \<or> (case cost of None \<Rightarrow> False | Some q \<Rightarrow> q < 0) then Raise ''ValidationError'' []
       else Inr \<lparr>gr_route = r, gr_action = a, gr_metadata = metadata, gr_cost_estimate_usd = cost\<rparr>))"

record governor =
  gs_routes :: "route_policy list"
  gs_buckets :: buckets
  gs_log :: governor_log

definition limited :: "guard_request \<Rightarrow> int option \<Rightarrow> guard_decision \<Rightarrow> guard_decision" where
  "limited rq retry d =
     d\<lparr>gd_allowed := False,
       gd_reason := ''rate limit exceeded for route '' @ [CHR 0x27] @ gr_route rq @ [CHR 0x27],
       gd_retry_after_seconds := retry\<rparr>"

definition guard ::
  "(string \<Rightarrow> rat option) \<Rightarrow> string \<Rightarrow> dict \<Rightarrow> dict \<Rightarrow> guard_env \<Rightarrow> governor \<Rightarrow> guard_decision result \<times> governor"
where
  "guard float route payload identity env g =
     (case coerce_guard_request float route payload of
        Inl e \<Rightarrow> (Inl e, g)
      | Inr rq \<Rightarrow>
          let matched = match_route (gs_routes g) (gr_route rq);
              d0 = policy_evaluate (gs_routes g) rq matched;
              (d, bs) = (case matched of
                 None \<Rightarrow> (d0, gs_buckets g)
               | Some p \<Rightarrow>
                   if \<not> gd_allowed d0 then (d0, gs_buckets g)
                   else case rate_evaluate (gp_route p) (gp_rate_limit p) (gv_clock env) (gs_buckets g) of
                          (rl, bs') \<Rightarrow>
                            (if rl_allowed rl then d0 else limited rq (rl_retry_after_seconds rl) d0, bs'))
          in case record_decision d identity env (gs_log g) of
               (Inl e, lg) \<Rightarrow> (Inl e, g\<lparr>gs_buckets := bs, gs_log := lg\<rparr>)
             | (Inr _, lg) \<Rightarrow> (Inr d, g\<lparr>gs_buckets := bs, gs_log := lg\<rparr>))"


section \<open>Patterns match as the shell reads them\<close>

lemma route_matches_plain: "plain p \<Longrightarrow> route_matches p r \<longleftrightarrow> p = r"
  by (simp add: route_matches_def plain_def)

text \<open>A pattern \<open>prefix*\<close> covers exactly the routes with that prefix.\<close>

lemma route_matches_prefix: "plain p \<Longrightarrow> route_matches (p @ ''*'') r \<longleftrightarrow> (\<exists>v. r = p @ v)"
  by (auto simp: route_matches_def fnmatchcase_def glob_tokens_plain glob_lits glob_any)

lemma match_route_first:
  "match_route routes r = Some p \<longleftrightarrow>
     (\<exists>i < length routes. routes ! i = p \<and> route_matches (gp_route p) r
        \<and> (\<forall>j < i. \<not> route_matches (gp_route (routes ! j)) r))"
  by (auto simp: match_route_def find_Some_iff)

section \<open>The bucket bounds the rate\<close>

type_synonym rate_op = "string \<times> rate_limit_policy option \<times> rat"

fun rate_step :: "buckets \<Rightarrow> rate_op \<Rightarrow> buckets \<times> string \<times> bool" where
  "rate_step bs (k, p, now) = (case rate_evaluate k p now bs of (d, bs') \<Rightarrow> (bs', k, rl_allowed d))"

definition granted :: "string \<Rightarrow> buckets \<Rightarrow> rate_op list \<Rightarrow> nat" where
  "granted k bs ops = length (filter (\<lambda>r. r = (k, True)) (outcomes rate_step bs ops))"

definition refill :: "rate_limit_policy \<Rightarrow> rat" where
  "refill p = rat_of_int (rp_requests p) / rat_of_int (rp_window_seconds p)"

definition policy_ok :: "rate_limit_policy \<Rightarrow> bool" where
  "policy_ok p \<longleftrightarrow> 1 \<le> rp_requests p \<and> 1 \<le> rp_window_seconds p"

definition available :: "rate_limit_policy \<Rightarrow> rat \<Rightarrow> string \<Rightarrow> buckets \<Rightarrow> rat" where
  "available p now k bs =
     (case map_of bs k of
        None \<Rightarrow> rat_of_int (rp_requests p)
      | Some b \<Rightarrow> min (rat_of_int (rp_requests p)) (tb_tokens b + max 0 (now - tb_updated_at b) * refill p))"

lemma map_of_bucket_put [simp]: "map_of (bucket_put k b bs) = (map_of bs)(k \<mapsto> b)"
  by (simp add: bucket_put_def update_conv')

lemma refill_pos: "policy_ok p \<Longrightarrow> 0 < refill p"
  by (simp add: refill_def policy_ok_def)

lemma rate_evaluate_spec:
  "rate_evaluate k (Some p) now bs =
     (if available p now k bs \<ge> 1 then
        (\<lparr>rl_allowed = True, rl_retry_after_seconds = None\<rparr>,
         bucket_put k \<lparr>tb_tokens = available p now k bs - 1, tb_updated_at = now\<rparr> bs)
      else (\<lparr>rl_allowed = False, rl_retry_after_seconds = Some (max 1 \<lceil>(1 - available p now k bs) / refill p\<rceil>)\<rparr>,
         bucket_put k \<lparr>tb_tokens = available p now k bs, tb_updated_at = now\<rparr> bs))"
  by (cases "map_of bs k") (simp_all add: rate_evaluate_def available_def refill_def Let_def)

lemma rate_other: "j \<noteq> k \<Longrightarrow> map_of (snd (rate_evaluate j p now bs)) k = map_of bs k"
  by (cases p) (simp_all add: rate_evaluate_spec, simp add: rate_evaluate_def)

text \<open>Asking route \<open>k\<close> always under its own policy, at times that never go back and end by \<open>t1\<close>.\<close>

definition asks :: "string \<Rightarrow> rate_limit_policy \<Rightarrow> rat \<Rightarrow> rat \<Rightarrow> rate_op list \<Rightarrow> bool" where
  "asks k p t0 t1 ops \<longleftrightarrow> sorted (map (\<lambda>a. snd (snd a)) ops)
     \<and> (\<forall>(j, q, t) \<in> set ops. t0 \<le> t \<and> t \<le> t1 \<and> (j = k \<longrightarrow> q = Some p))"

lemma asks_Cons:
  "asks k p t0 t1 ((j, q, t) # ops) \<longleftrightarrow>
     t0 \<le> t \<and> t \<le> t1 \<and> (j = k \<longrightarrow> q = Some p) \<and> asks k p t t1 ops"
  by (auto simp: asks_def dest: bspec)

lemma granted_Cons:
  "granted k bs ((j, q, t) # ops) =
     (if j = k \<and> rl_allowed (fst (rate_evaluate j q t bs)) then 1 else 0) + granted k (snd (rate_evaluate j q t bs)) ops"
  by (cases "rate_evaluate j q t bs") (auto simp: granted_def)

lemma granted_bucket:
  assumes "policy_ok p" "map_of bs k = Some b" "tb_updated_at b \<le> t0" "t0 \<le> t1" "0 \<le> tb_tokens b" "asks k p t0 t1 ops"
  shows "rat_of_nat (granted k bs ops) \<le> tb_tokens b + (t1 - tb_updated_at b) * refill p"
  using assms(2-)
proof (induction ops arbitrary: bs b t0)
  case Nil
  have "0 \<le> (t1 - tb_updated_at b) * refill p" using Nil.prems refill_pos [OF assms(1)] by simp
  then show ?case using Nil.prems by (simp add: granted_def)
next
  case (Cons a ops)
  obtain j q t where a: "a = (j, q, t)" by (metis surj_pair)
  have t: "t0 \<le> t" "t \<le> t1" "j = k \<longrightarrow> q = Some p" "asks k p t t1 ops" using Cons.prems by (auto simp: a asks_Cons)
  show ?case
  proof (cases "j = k")
    case False
    then show ?thesis
      using Cons.IH [of "snd (rate_evaluate j q t bs)" b t] Cons.prems t
      by (simp add: a granted_Cons rate_other)
  next
    case True
    let ?av = "available p t k bs"
    have "t - tb_updated_at b \<ge> 0" using Cons.prems(2) t(1) by simp
    then have av: "?av \<le> tb_tokens b + (t - tb_updated_at b) * refill p" "0 \<le> ?av"
      using Cons.prems(1,4) assms(1) refill_pos [OF assms(1)]
      by (auto simp: available_def policy_ok_def min_def max_def)
    have split: "(t1 - tb_updated_at b) * refill p = (t - tb_updated_at b) * refill p + (t1 - t) * refill p"
      by (simp add: algebra_simps)
    have step: "rat_of_nat (granted k (snd (rate_evaluate k (Some p) t bs)) ops)
        \<le> (if 1 \<le> ?av then ?av - 1 else ?av) + (t1 - t) * refill p"
      using Cons.IH [of "snd (rate_evaluate k (Some p) t bs)"
          "\<lparr>tb_tokens = if 1 \<le> ?av then ?av - 1 else ?av, tb_updated_at = t\<rparr>" t] av t
      by (simp add: rate_evaluate_spec split: if_splits)
    show ?thesis
      using step av(1) split t True by (simp add: a granted_Cons rate_evaluate_spec split: if_splits)
  qed
qed

lemma granted_window:
  assumes "policy_ok p" "case map_of bs k of None \<Rightarrow> True | Some b \<Rightarrow> tb_updated_at b \<le> t0 \<and> 0 \<le> tb_tokens b"
    "t0 \<le> t1" "asks k p t0 t1 ops"
  shows "rat_of_nat (granted k bs ops) \<le> rat_of_int (rp_requests p) + (t1 - t0) * refill p"
  using assms(2-)
proof (induction ops arbitrary: bs t0)
  case Nil
  then show ?case using refill_pos [OF assms(1)] assms(1) by (simp add: granted_def policy_ok_def)
next
  case (Cons a ops)
  obtain j q t where a: "a = (j, q, t)" by (metis surj_pair)
  have t: "t0 \<le> t" "t \<le> t1" "j = k \<longrightarrow> q = Some p" "asks k p t t1 ops" using Cons.prems by (auto simp: a asks_Cons)
  have later: "(t1 - t) * refill p \<le> (t1 - t0) * refill p" using t(1) refill_pos [OF assms(1)] by simp
  show ?case
  proof (cases "j = k")
    case False
    have "rat_of_nat (granted k (snd (rate_evaluate j q t bs)) ops) \<le> rat_of_int (rp_requests p) + (t1 - t) * refill p"
      using Cons.prems(1) t False by (intro Cons.IH) (auto simp: rate_other split: option.splits)
    then show ?thesis using later False by (simp add: a granted_Cons)
  next
    case True
    let ?av = "available p t k bs"
    have av: "?av \<le> rat_of_int (rp_requests p)" "0 \<le> ?av"
      using Cons.prems(1) assms(1) refill_pos [OF assms(1)] t(1)
      by (auto simp: available_def policy_ok_def split: option.splits)
    have "rat_of_nat (granted k (snd (rate_evaluate k (Some p) t bs)) ops)
        \<le> (if 1 \<le> ?av then ?av - 1 else ?av) + (t1 - t) * refill p"
      using granted_bucket [OF assms(1), of "snd (rate_evaluate k (Some p) t bs)" k
          "\<lparr>tb_tokens = if 1 \<le> ?av then ?av - 1 else ?av, tb_updated_at = t\<rparr>" t t1 ops] av t
      by (simp add: rate_evaluate_spec split: if_splits)
    then show ?thesis using later av(1) t True by (simp add: a granted_Cons rate_evaluate_spec split: if_splits)
  qed
qed




section \<open>The guard decides and records\<close>

definition policy_passes :: "route_policy \<Rightarrow> guard_request \<Rightarrow> bool" where
  "policy_passes p rq \<longleftrightarrow> (gp_allowed_actions p = [] \<or> gr_action rq \<in> set (gp_allowed_actions p))
     \<and> (gp_requires_approval p \<longrightarrow> has_approval_flag (gr_metadata rq))"

lemma policy_evaluate_allowed:
  "gd_allowed (policy_evaluate routes rq (match_route routes (gr_route rq))) \<longleftrightarrow>
     (\<exists>p. match_route routes (gr_route rq) = Some p \<and> policy_passes p rq)"
  by (cases "match_route routes (gr_route rq)") (auto simp: policy_evaluate_def decide_def policy_passes_def)

datatype guard_op = Guard string dict dict guard_env

fun guard_next :: "(string \<Rightarrow> rat option) \<Rightarrow> governor \<Rightarrow> guard_op \<Rightarrow> governor" where
  "guard_next float g (Guard route payload identity env) = snd (guard float route payload identity env g)"

text \<open>The log after one decision.\<close>

lemma record_decision_log:
  "record_decision d identity env lg = (r, lg') \<Longrightarrow>
     (r = Inr () \<and> (\<exists>row. ga_decision row = d \<and> gl_rows lg' = gl_rows lg @ [row]) \<and> \<not> gv_log_fault env)
   \<or> ((\<exists>e. r = Inl e) \<and> lg' = lg \<and> gv_log_fault env)"
  by (auto simp: record_decision_def Let_def split: if_splits)

lemma guard_log: "\<exists>es. gl_rows (gs_log (guard_next float g a)) = gl_rows (gs_log g) @ es"
proof (cases a)
  case (Guard route payload identity env)
  have "\<exists>es. gl_rows (snd (record_decision d identity env lg)) = gl_rows lg @ es" for d lg
    using record_decision_log [of d identity env lg] by (cases "record_decision d identity env lg") auto
  then show ?thesis
    by (auto simp: Guard guard_def Let_def split: sum.split prod.splits) (metis snd_conv)+
qed

interpretation governor_rows: append_log "guard_next float" "\<lambda>g. gl_rows (gs_log g)" for float
  by unfold_locales (rule guard_log)

text \<open>The guard as one decision, its buckets, and the write of the log.\<close>

lemma guard_shape:
  assumes "coerce_guard_request float route payload = Inr rq"
  obtains d bs where "guard float route payload identity env g =
      (case record_decision d identity env (gs_log g) of
         (Inl e, lg) \<Rightarrow> (Inl e, g\<lparr>gs_buckets := bs, gs_log := lg\<rparr>)
       | (Inr _, lg) \<Rightarrow> (Inr d, g\<lparr>gs_buckets := bs, gs_log := lg\<rparr>))"
    and "gd_allowed d \<longleftrightarrow> (\<exists>p. match_route (gs_routes g) (gr_route rq) = Some p \<and> policy_passes p rq
           \<and> rl_allowed (fst (rate_evaluate (gp_route p) (gp_rate_limit p) (gv_clock env) (gs_buckets g))))"
    and "(\<forall>p. match_route (gs_routes g) (gr_route rq) = Some p \<longrightarrow> \<not> policy_passes p rq) \<Longrightarrow> bs = gs_buckets g"
proof -
  define m where "m = match_route (gs_routes g) (gr_route rq)"
  define d0 where "d0 = policy_evaluate (gs_routes g) rq m"
  have d0: "gd_allowed d0 \<longleftrightarrow> (\<exists>p. m = Some p \<and> policy_passes p rq)"
    unfolding d0_def m_def by (rule policy_evaluate_allowed)
  have shape: "guard float route payload identity env g =
    (case (case m of None \<Rightarrow> (d0, gs_buckets g)
           | Some p \<Rightarrow>
               if \<not> gd_allowed d0 then (d0, gs_buckets g)
               else case rate_evaluate (gp_route p) (gp_rate_limit p) (gv_clock env) (gs_buckets g) of
                      (rl, bs') \<Rightarrow> (if rl_allowed rl then d0 else limited rq (rl_retry_after_seconds rl) d0, bs')) of
       (d, bs) \<Rightarrow>
         (case record_decision d identity env (gs_log g) of
            (Inl e, lg) \<Rightarrow> (Inl e, g\<lparr>gs_buckets := bs, gs_log := lg\<rparr>)
          | (Inr _, lg) \<Rightarrow> (Inr d, g\<lparr>gs_buckets := bs, gs_log := lg\<rparr>)))"
    unfolding d0_def m_def by (simp add: guard_def assms Let_def)
  show thesis
  proof (cases "gd_allowed d0")
    case False
    have "guard float route payload identity env g =
      (case record_decision d0 identity env (gs_log g) of
         (Inl e, lg) \<Rightarrow> (Inl e, g\<lparr>gs_buckets := gs_buckets g, gs_log := lg\<rparr>)
       | (Inr _, lg) \<Rightarrow> (Inr d0, g\<lparr>gs_buckets := gs_buckets g, gs_log := lg\<rparr>))"
      unfolding shape using False by (cases m) simp_all
    then show thesis by (rule that) (use False d0 in \<open>auto simp: m_def\<close>)
  next
    case True
    then obtain p where p: "m = Some p" "policy_passes p rq" using d0 by blast
    obtain rl bs where rl: "rate_evaluate (gp_route p) (gp_rate_limit p) (gv_clock env) (gs_buckets g) = (rl, bs)"
      by (metis surj_pair)
    let ?d = "if rl_allowed rl then d0 else limited rq (rl_retry_after_seconds rl) d0"
    have "guard float route payload identity env g =
      (case record_decision ?d identity env (gs_log g) of
         (Inl e, lg) \<Rightarrow> (Inl e, g\<lparr>gs_buckets := bs, gs_log := lg\<rparr>)
       | (Inr _, lg) \<Rightarrow> (Inr ?d, g\<lparr>gs_buckets := bs, gs_log := lg\<rparr>))"
      unfolding shape using True p(1) rl by simp
    then show thesis
      by (rule that) (use True p rl in \<open>auto simp: m_def [symmetric] limited_def\<close>)
  qed
qed

text \<open>The governor's guard. A request that reads as one is answered only after its decision is the newest
  row of the log, and rows are never changed: what is returned is what is recorded, and a log that cannot be
  written answers nothing. The answer allows exactly when the first policy whose pattern matches the route
  accepts the action and its approval, and that policy's bucket grants the request; a request the policy
  refuses takes nothing from a bucket.\<close>

theorem guard_decides_and_records:
  assumes "coerce_guard_request float route payload = Inr rq"
      and "guard float route payload identity env g = (r, g')"
  shows "(case r of
            Inl e \<Rightarrow> gv_log_fault env \<and> gl_rows (gs_log g') = gl_rows (gs_log g)
          | Inr d \<Rightarrow>
              (\<exists>row. gl_rows (gs_log g') = gl_rows (gs_log g) @ [row] \<and> ga_decision row = d)
              \<and> (gd_allowed d \<longleftrightarrow>
                   (\<exists>p. match_route (gs_routes g) (gr_route rq) = Some p \<and> policy_passes p rq
                      \<and> rl_allowed (fst (rate_evaluate (gp_route p) (gp_rate_limit p) (gv_clock env) (gs_buckets g))))))
       \<and> ((\<forall>p. match_route (gs_routes g) (gr_route rq) = Some p \<longrightarrow> \<not> policy_passes p rq)
            \<longrightarrow> gs_buckets g' = gs_buckets g)
       \<and> (\<forall>ops. \<forall>i < length (gl_rows (gs_log g')).
            gl_rows (gs_log (run_ops (guard_next float) g' ops)) ! i = gl_rows (gs_log g') ! i)"
proof -
  define m where "m = match_route (gs_routes g) (gr_route rq)"
  define rl where "rl p = rate_evaluate (gp_route p) (gp_rate_limit p) (gv_clock env) (gs_buckets g)" for p :: route_policy
  obtain d bs where d: "guard float route payload identity env g =
      (case record_decision d identity env (gs_log g) of
         (Inl e, lg) \<Rightarrow> (Inl e, g\<lparr>gs_buckets := bs, gs_log := lg\<rparr>)
       | (Inr _, lg) \<Rightarrow> (Inr d, g\<lparr>gs_buckets := bs, gs_log := lg\<rparr>))"
    and allowed: "gd_allowed d \<longleftrightarrow> (\<exists>p. m = Some p \<and> policy_passes p rq \<and> rl_allowed (fst (rl p)))"
    and untouched: "(\<forall>p. m = Some p \<longrightarrow> \<not> policy_passes p rq) \<longrightarrow> bs = gs_buckets g"
    by (rule guard_shape [OF assms(1)]) (auto simp: m_def rl_def)
  obtain r0 lg where rec: "record_decision d identity env (gs_log g) = (r0, lg)" by (metis surj_pair)
  have g': "gs_log g' = lg" "gs_buckets g' = bs" and r: "r = (case r0 of Inl e \<Rightarrow> Inl e | Inr _ \<Rightarrow> Inr d)"
    using assms(2) unfolding d rec by (auto split: sum.splits)
  have "case r of
      Inl e \<Rightarrow> gv_log_fault env \<and> gl_rows (gs_log g') = gl_rows (gs_log g)
    | Inr d \<Rightarrow> (\<exists>row. gl_rows (gs_log g') = gl_rows (gs_log g) @ [row] \<and> ga_decision row = d)
        \<and> (gd_allowed d \<longleftrightarrow> (\<exists>p. m = Some p \<and> policy_passes p rq \<and> rl_allowed (fst (rl p))))"
    using record_decision_log [OF rec] allowed unfolding r g' by auto
  moreover have "gl_rows (gs_log (run_ops (guard_next float) g' ops)) ! i = gl_rows (gs_log g') ! i"
    if "i < length (gl_rows (gs_log g'))" for ops i
    using governor_rows.run_keeps_entry [of i g' float ops] that by simp
  ultimately show ?thesis using untouched unfolding g' m_def rl_def by blast
qed

definition demo_governor :: governor where
  "demo_governor =
     \<lparr>gs_routes = [\<lparr>gp_route = ''mcp/*'', gp_allowed_actions = [''call''], gp_requires_approval = True,
                    gp_rate_limit = None\<rparr>],
      gs_buckets = [], gs_log = \<lparr>gl_rows = [], gl_has_identity = True\<rparr>\<rparr>"

definition demo_guard_env :: guard_env where
  "demo_guard_env = \<lparr>gv_clock = 0, gv_now = 0, gv_ulid = ''01H'', gv_log_fault = False\<rparr>"

theorem guard_decides_and_records_witness:
  "case fst (guard (\<lambda>_. None) ''mcp/x'' [(''action'', PStr ''call''), (''approved'', PBool True)] [] demo_guard_env demo_governor) of
     Inl e \<Rightarrow> False | Inr d \<Rightarrow> gd_allowed d"
proof -
  let ?body = "[(''action'', PStr ''call''), (''approved'', PBool True)]"
  let ?rq = "\<lparr>gr_route = ''mcp/x'', gr_action = ''call'', gr_metadata = [(''approved'', PBool True)], gr_cost_estimate_usd = None\<rparr>"
  have rq: "coerce_guard_request (\<lambda>_. None) ''mcp/x'' ?body = Inr ?rq"
    by (simp add: coerce_guard_request_def guard_metadata_def cost_of_def guard_action_def dict_simps py_str_def
        strip_def lstrip_def is_space_def char_in_def Let_def)
  obtain r g' where g: "guard (\<lambda>_. None) ''mcp/x'' ?body [] demo_guard_env demo_governor = (r, g')" by (metis surj_pair)
  have "plain ''mcp/''" by (simp add: plain_def)
  from route_matches_prefix [OF this, of "''mcp/x''"] have "route_matches ''mcp/*'' ''mcp/x''" by simp
  then have m: "match_route (gs_routes demo_governor) (gr_route ?rq) = Some (hd (gs_routes demo_governor))"
    by (simp add: match_route_def demo_governor_def)
  have "policy_passes (hd (gs_routes demo_governor)) ?rq"
    by (simp add: policy_passes_def demo_governor_def has_approval_flag_def dict_simps)
  then have "case r of Inl e \<Rightarrow> False | Inr d \<Rightarrow> gd_allowed d"
    using guard_decides_and_records [OF rq g, THEN conjunct1] m
    by (cases r) (auto simp: demo_guard_env_def demo_governor_def rate_evaluate_def)
  then show ?thesis by (simp add: g)
qed


text \<open>The approval the governor asks for is any truthy value under either key.\<close>

lemma approval_flag_is_any_truthy_value:
  "has_approval_flag [(''approved'', PStr ''false'')] \<and> has_approval_flag [(''approval_granted'', PInt (- 1))]"
  by (simp add: has_approval_flag_def dict_simps)

end
