(* ===== verification/Cost.thy ===== *)
theory Cost
  imports Kernel Interfaces
begin

text \<open>
  The daily budget: prices per tier (\<open>cost/pricing.py\<close>), the cost ledger (\<open>cost/store.py\<close>) and the hook that
  prices every model call and refuses one that would pass the cap (\<open>plugins/cost_limiter.py\<close>). Money is
  rational where the code has floats; instants are microseconds, and a day begins at a multiple of
  \<open>DAY\<close> (UTC midnight). The clock readings of a call and whether its ledger write succeeds are arguments.
\<close>

section \<open>Prices\<close>

record tier_pricing =
  prompt_per_1k_usd :: rat
  completion_per_1k_usd :: rat

definition cost_usd :: "tier_pricing \<Rightarrow> int \<Rightarrow> int \<Rightarrow> rat" where
  "cost_usd p prompt_tokens completion_tokens =
     rat_of_int prompt_tokens / 1000 * prompt_per_1k_usd p
     + rat_of_int completion_tokens / 1000 * completion_per_1k_usd p"

definition LOCAL :: tier_pricing where
  "LOCAL = \<lparr>prompt_per_1k_usd = 0, completion_per_1k_usd = 0\<rparr>"

definition CLOUD_DEFAULT :: tier_pricing where
  "CLOUD_DEFAULT = \<lparr>prompt_per_1k_usd = 5 / 1000, completion_per_1k_usd = 15 / 1000\<rparr>"

definition FALLBACK_TIER_PRICING :: tier_pricing where
  "FALLBACK_TIER_PRICING = CLOUD_DEFAULT"

type_synonym pricing_table = "(string \<times> tier_pricing) list"

definition DEFAULT_PRICING :: pricing_table where
  "DEFAULT_PRICING = [(''tier_1'', LOCAL), (''tier_2'', LOCAL), (''tier_3'', CLOUD_DEFAULT)]"

definition normalize_tier_key :: "string \<Rightarrow> string option" where
  "normalize_tier_key key =
     (let cleaned = py_lower (strip key) in
      if cleaned \<in> {''tier_1'', ''tier_2'', ''tier_3''} then Some cleaned
      else if cleaned \<in> {''tier1'', ''tier2'', ''tier3''} then Some (''tier_'' @ [last cleaned])
      else None)"

definition pricing_for_tier :: "string option \<Rightarrow> pricing_table \<Rightarrow> tier_pricing" where
  "pricing_for_tier t pricing =
     (let table = (if pricing = [] then DEFAULT_PRICING else pricing) in
      case t of
        None \<Rightarrow> FALLBACK_TIER_PRICING
      | Some name \<Rightarrow> (case map_of table name of None \<Rightarrow> FALLBACK_TIER_PRICING | Some p \<Rightarrow> p))"

definition estimate_cost_usd :: "string option \<Rightarrow> int \<Rightarrow> int \<Rightarrow> pricing_table \<Rightarrow> rat" where
  "estimate_cost_usd t prompt_tokens completion_tokens pricing =
     cost_usd (pricing_for_tier t pricing) prompt_tokens completion_tokens"

definition estimate_tokens :: "string \<Rightarrow> int" where
  "estimate_tokens txt = (if txt = [] then 0 else max 1 (int (length txt) div 4))"

section \<open>The ledger\<close>

record cost_entry =
  cn_id :: nat
  cn_ts :: timestamp
  cn_run_id :: string
  cn_agent_type :: string
  cn_tier :: string
  cn_prompt_tokens :: int
  cn_completion_tokens :: int
  cn_cost_usd :: rat
  cn_user_id :: string

type_synonym cost_db = "cost_entry list"

definition DAY :: int where
  "DAY = 86400000000"

definition midnight :: "timestamp \<Rightarrow> timestamp" where
  "midnight now = now - now mod DAY"

text \<open>The row a \<open>record\<close> appends; its id is one more than the number of rows, as nothing is deleted.\<close>

definition cost_record ::
  "string \<Rightarrow> string \<Rightarrow> string \<Rightarrow> int \<Rightarrow> int \<Rightarrow> rat \<Rightarrow> string \<Rightarrow> timestamp \<Rightarrow> cost_db \<Rightarrow> nat \<times> cost_db"
where
  "cost_record run_id agent_type t prompt_tokens completion_tokens cost user_id ts db =
     (Suc (length db),
      db @ [\<lparr>cn_id = Suc (length db), cn_ts = ts, cn_run_id = run_id, cn_agent_type = agent_type, cn_tier = t,
             cn_prompt_tokens = prompt_tokens, cn_completion_tokens = completion_tokens, cn_cost_usd = cost,
             cn_user_id = user_id\<rparr>])"

definition sum_since :: "string \<Rightarrow> timestamp \<Rightarrow> cost_db \<Rightarrow> rat" where
  "sum_since user_id cutoff db =
     sum_list (map cn_cost_usd (filter (\<lambda>r. cn_user_id r = user_id \<and> cn_ts r \<ge> cutoff) db))"

definition sum_today :: "string \<Rightarrow> timestamp \<Rightarrow> cost_db \<Rightarrow> rat" where
  "sum_today user_id now db = sum_since user_id (midnight now) db"

definition sum_by_tier_since :: "string \<Rightarrow> timestamp \<Rightarrow> cost_db \<Rightarrow> string \<Rightarrow> rat option" where
  "sum_by_tier_since user_id cutoff db t =
     (let rows = filter (\<lambda>r. cn_user_id r = user_id \<and> cn_ts r \<ge> cutoff \<and> cn_tier r = t) db
      in if rows = [] then None else Some (sum_list (map cn_cost_usd rows)))"

definition list_since :: "string \<Rightarrow> timestamp \<Rightarrow> nat option \<Rightarrow> cost_db \<Rightarrow> cost_entry list" where
  "list_since user_id cutoff limit db =
     (let rows = sort_key cn_ts (sort_key cn_id
                   (filter (\<lambda>r. cn_user_id r = user_id \<and> cn_ts r \<ge> cutoff) db))
      in case limit of None \<Rightarrow> rows | Some n \<Rightarrow> take n rows)"

section \<open>The limiter\<close>

text \<open>\<open>{q:.nf}\<close>: the nearest decimal with \<open>n\<close> places, ties to even.\<close>

definition round_half_even :: "rat \<Rightarrow> int" where
  "round_half_even q =
     (let f = \<lfloor>q\<rfloor>; r = q - rat_of_int f in
      if r < 1 / 2 then f else if 1 / 2 < r then f + 1 else if even f then f else f + 1)"

definition fmt_fixed :: "nat \<Rightarrow> rat \<Rightarrow> string" where
  "fmt_fixed n q =
     (let k = round_half_even (\<bar>q\<bar> * 10 ^ n); w = show_nat (nat (k mod 10 ^ n)) in
      (if q < 0 then ''-'' else []) @ show_int (k div 10 ^ n) @ ''.''
        @ replicate (n - length w) (CHR ''0'') @ w)"

record cost_limiter =
  cm_cap :: rat
  cm_enforce :: bool
  cm_user_id :: string
  cm_pricing :: pricing_table
  cm_default_max_completion_tokens :: int

definition new_cost_limiter :: "rat \<Rightarrow> string \<Rightarrow> bool \<Rightarrow> pricing_table \<Rightarrow> int \<Rightarrow> cost_limiter result" where
  "new_cost_limiter daily_cap_usd user_id enforce pricing default_max =
     (if daily_cap_usd < 0 then Raise ''ValueError'' ''daily_cap_usd must be >= 0''
      else if default_max < 0 then Raise ''ValueError'' ''default_max_completion_tokens must be >= 0''
      else Inr \<lparr>cm_cap = daily_cap_usd, cm_enforce = enforce, cm_user_id = user_id, cm_pricing = pricing,
                cm_default_max_completion_tokens = default_max\<rparr>)"

definition str_payload :: "pyval \<Rightarrow> string" where
  "str_payload v = (case v of PStr s \<Rightarrow> s | _ \<Rightarrow> [])"

text \<open>An \<open>int\<close> of the payload that is not negative; a \<open>bool\<close> is an \<open>int\<close>.\<close>

definition token_count :: "pyval \<Rightarrow> int option" where
  "token_count v =
     (case v of
        PInt i \<Rightarrow> if i \<ge> 0 then Some i else None
      | PBool b \<Rightarrow> Some (if b then 1 else 0)
      | _ \<Rightarrow> None)"

definition completion_token_estimate :: "dict \<Rightarrow> int \<Rightarrow> int" where
  "completion_token_estimate payload dflt =
     (case List.map_filter (\<lambda>k. token_count (dget payload k))
             [''max_tokens'', ''completion_tokens'', ''max_completion_tokens''] of
        [] \<Rightarrow> dflt | n # _ \<Rightarrow> n)"

definition cost_audit :: "string option \<Rightarrow> int \<Rightarrow> int \<Rightarrow> rat \<Rightarrow> rat \<Rightarrow> rat \<Rightarrow> bool \<Rightarrow> bool \<Rightarrow> dict" where
  "cost_audit t prompt_tokens completion_tokens estimated today cap over enforced =
     [(''tier'', opt_str t), (''prompt_tokens'', PInt prompt_tokens), (''completion_tokens'', PInt completion_tokens),
      (''estimated_cost_usd'', PFloat estimated), (''today_spend_usd'', PFloat today), (''daily_cap_usd'', PFloat cap),
      (''over_cap'', PBool over), (''enforced'', PBool enforced)]"

record cost_env =
  co_now_sum :: timestamp
  co_now_record :: timestamp
  co_write_fails :: bool

definition limiter_record ::
  "cost_limiter \<Rightarrow> cost_env \<Rightarrow> hook_context \<Rightarrow> string option \<Rightarrow> int \<Rightarrow> int \<Rightarrow> rat \<Rightarrow> cost_db \<Rightarrow> cost_db"
where
  "limiter_record lm env ctx t prompt_tokens completion_tokens cost db =
     (if co_write_fails env then db
      else snd (cost_record (hc_run_id ctx) (hc_agent_type ctx) (case t of None \<Rightarrow> ''unknown'' | Some n \<Rightarrow> n)
                  prompt_tokens completion_tokens cost (cm_user_id lm) (co_now_record env) db))"

definition estimate_of :: "cost_limiter \<Rightarrow> hook_context \<Rightarrow> rat" where
  "estimate_of lm ctx =
     estimate_cost_usd (map_option tier_value (hc_tier ctx)) (estimate_tokens (str_payload (dget (hc_payload ctx) ''prompt'')))
       (completion_token_estimate (hc_payload ctx) (cm_default_max_completion_tokens lm)) (cm_pricing lm)"

definition over_cap_deny :: "rat \<Rightarrow> rat \<Rightarrow> rat \<Rightarrow> dict \<Rightarrow> hook_decision" where
  "over_cap_deny today estimated cap md =
     (decision Deny (''cost_limiter: projected $'' @ fmt_fixed 4 (today + estimated) @ '' exceeds daily cap $''
        @ fmt_fixed 2 cap @ '' (today=$'' @ fmt_fixed 4 today @ '' + estimate=$'' @ fmt_fixed 4 estimated @ '')''))
       \<lparr>hd_severity := SevCritical, hd_audit_metadata := md\<rparr>"

definition cost_allow :: "string option \<Rightarrow> rat \<Rightarrow> rat \<Rightarrow> rat \<Rightarrow> bool \<Rightarrow> dict \<Rightarrow> hook_decision" where
  "cost_allow t estimated today cap over md =
     (decision Allow (''cost_limiter: tier='' @ fmt_opt t @ '' estimate=$'' @ fmt_fixed 4 estimated @ '' today=$''
        @ fmt_fixed 4 today @ '' cap=$'' @ fmt_fixed 2 cap
        @ (if over then '' '' @ [CHR 0xE2, CHR 0x80, CHR 0x94] @ '' OVER CAP, not enforced'' else [])))
       \<lparr>hd_audit_metadata := md\<rparr>"

definition CostLimiter_call ::
  "cost_limiter \<Rightarrow> cost_env \<Rightarrow> hook_context \<Rightarrow> cost_db \<Rightarrow> hook_decision \<times> cost_db"
where
  "CostLimiter_call lm env ctx db =
     (let t = map_option tier_value (hc_tier ctx);
          prompt_tokens = estimate_tokens (str_payload (dget (hc_payload ctx) ''prompt''));
          completion_tokens = completion_token_estimate (hc_payload ctx) (cm_default_max_completion_tokens lm);
          estimated = estimate_cost_usd t prompt_tokens completion_tokens (cm_pricing lm)
      in if estimated \<le> 0 then
           let db' = limiter_record lm env ctx t prompt_tokens completion_tokens 0 db in
           ((decision Allow (''cost_limiter: tier='' @ fmt_opt t @ '' estimated cost $0.00 (local)''))
              \<lparr>hd_audit_metadata := cost_audit t prompt_tokens completion_tokens 0
                 (sum_today (cm_user_id lm) (co_now_sum env) db') (cm_cap lm) False (cm_enforce lm)\<rparr>, db')
         else
           let today = sum_today (cm_user_id lm) (co_now_sum env) db;
               over = (today + estimated > cm_cap lm)
           in if over \<and> cm_enforce lm then
                (over_cap_deny today estimated (cm_cap lm)
                   (cost_audit t prompt_tokens completion_tokens estimated today (cm_cap lm) True True), db)
              else
                (cost_allow t estimated today (cm_cap lm) over
                   (cost_audit t prompt_tokens completion_tokens estimated today (cm_cap lm) over (cm_enforce lm)),
                 limiter_record lm env ctx t prompt_tokens completion_tokens estimated db))"

text \<open>The hook as the kernel holds it, over a part of the kernel's world.\<close>

definition cost_limiter_hook ::
  "('s \<Rightarrow> cost_db) \<Rightarrow> (cost_db \<Rightarrow> 's \<Rightarrow> 's) \<Rightarrow> ('s \<Rightarrow> cost_env) \<Rightarrow> cost_limiter \<Rightarrow> 's hook"
where
  "cost_limiter_hook get_db put_db env_of lm =
     \<lparr>hk_name = ''cost_limiter'', hk_hook_point = PRE_LLM_CALL, hk_priority = 40,
      hk_call = (\<lambda>ctx s. case CostLimiter_call lm (env_of s) ctx (get_db s) of (d, db) \<Rightarrow> (Inr d, put_db db s)),
      hk_bot_status = None\<rparr>"


section \<open>The cap holds\<close>

lemma sum_since_append [simp]: "sum_since u m (xs @ ys) = sum_since u m xs + sum_since u m ys"
  by (simp add: sum_since_def)

text \<open>What a call is charged: nothing when it is refused or free, else its estimate.\<close>

definition charge :: "cost_limiter \<Rightarrow> cost_env \<Rightarrow> hook_context \<Rightarrow> cost_db \<Rightarrow> rat" where
  "charge lm env ctx db =
     (if hd_outcome (fst (CostLimiter_call lm env ctx db)) = Allow then max 0 (estimate_of lm ctx) else 0)"

lemma limiter_outcome:
  "hd_outcome (fst (CostLimiter_call lm env ctx db)) =
     (if 0 < estimate_of lm ctx \<and> cm_enforce lm
         \<and> sum_today (cm_user_id lm) (co_now_sum env) db + estimate_of lm ctx > cm_cap lm then Deny else Allow)"
  by (auto simp: CostLimiter_call_def Let_def estimate_of_def over_cap_deny_def cost_allow_def decision_def)

lemma limiter_ledger:
  assumes "\<not> co_write_fails env"
  shows "\<exists>rows. snd (CostLimiter_call lm env ctx db) = db @ rows
    \<and> sum_since (cm_user_id lm) m rows = (if m \<le> co_now_record env then charge lm env ctx db else 0)"
proof (cases "hd_outcome (fst (CostLimiter_call lm env ctx db)) = Allow")
  case False
  then have "snd (CostLimiter_call lm env ctx db) = db"
    by (auto simp: CostLimiter_call_def Let_def cost_allow_def decision_def split: if_splits)
  then show ?thesis using False by (simp add: charge_def sum_since_def)
next
  case True
  then have "\<exists>t p c. snd (CostLimiter_call lm env ctx db) =
      limiter_record lm env ctx t p c (max 0 (estimate_of lm ctx)) db"
    by (auto simp: CostLimiter_call_def Let_def estimate_of_def over_cap_deny_def decision_def max_def split: if_splits)
  then show ?thesis using True assms
    by (auto simp: charge_def limiter_record_def cost_record_def sum_since_def)
qed

fun cost_step :: "cost_limiter \<Rightarrow> cost_db \<Rightarrow> cost_env \<times> hook_context \<Rightarrow> cost_db \<times> rat" where
  "cost_step lm db (env, ctx) = (snd (CostLimiter_call lm env ctx db), charge lm env ctx db)"

definition cost_next :: "cost_limiter \<Rightarrow> cost_db \<Rightarrow> cost_env \<times> hook_context \<Rightarrow> cost_db" where
  "cost_next lm db a = fst (cost_step lm db a)"

lemma limiter_extends: "\<exists>rows. cost_next lm db a = db @ rows"
proof (cases a)
  case (Pair env ctx)
  have "\<exists>rows. limiter_record lm env ctx t p c q db = db @ rows" for t p c q
    by (simp add: limiter_record_def cost_record_def)
  then show ?thesis by (auto simp: Pair cost_next_def CostLimiter_call_def Let_def)
qed

interpretation cost_ledger: append_log "cost_next lm" "\<lambda>db. db" for lm
  by unfold_locales (rule limiter_extends)

definition on_day :: "timestamp \<Rightarrow> cost_env \<Rightarrow> bool" where
  "on_day m env \<longleftrightarrow> m \<le> co_now_sum env \<and> co_now_sum env < m + DAY \<and> m \<le> co_now_record env \<and> \<not> co_write_fails env"

lemma midnight_on_day: "m mod DAY = 0 \<Longrightarrow> on_day m env \<Longrightarrow> midnight (co_now_sum env) = m"
proof -
  assume "m mod DAY = 0" "on_day m env"
  then have "m \<le> co_now_sum env" "co_now_sum env < m + DAY" by (auto simp: on_day_def)
  then have "(co_now_sum env - m) mod DAY = co_now_sum env - m" by (simp add: mod_pos_pos_trivial)
  moreover have "(co_now_sum env - m) mod DAY = co_now_sum env mod DAY"
    using \<open>m mod DAY = 0\<close> by (metis diff_zero mod_diff_right_eq)
  ultimately show ?thesis by (simp add: midnight_def)
qed


definition demo_limiter :: cost_limiter where
  "demo_limiter = \<lparr>cm_cap = 1 / 10, cm_enforce = True, cm_user_id = ''local'', cm_pricing = [],
     cm_default_max_completion_tokens = 4096\<rparr>"

definition demo_cost_env :: "bool \<Rightarrow> cost_env" where
  "demo_cost_env fails = \<lparr>co_now_sum = 5, co_now_record = 6, co_write_fails = fails\<rparr>"

definition cloud_ctx :: hook_context where
  "cloud_ctx = (demo_ctx PRE_LLM_CALL [] [])\<lparr>hc_tier := Some Tier3\<rparr>"

lemma cloud_estimate: "estimate_of demo_limiter cloud_ctx = 6144 / 100000"
  by (simp add: estimate_of_def demo_limiter_def cloud_ctx_def demo_ctx_def estimate_cost_usd_def estimate_tokens_def
      str_payload_def completion_token_estimate_def token_count_def map_filter_simps pricing_for_tier_def
      DEFAULT_PRICING_def CLOUD_DEFAULT_def cost_usd_def)


text \<open>A ledger that cannot be written does not refuse the call and does not count it: the same paid call passes
  any number of times, each spending beyond the last.\<close>

lemma unwritten_spend_is_not_counted:
  "outcomes (cost_step demo_limiter) [] (replicate n (demo_cost_env True, cloud_ctx)) = replicate n (6144 / 100000)"
proof -
  have out: "hd_outcome (fst (CostLimiter_call demo_limiter (demo_cost_env True) cloud_ctx [])) = Allow"
    by (simp add: limiter_outcome cloud_estimate sum_today_def sum_since_def) (simp add: demo_limiter_def)
  have "snd (CostLimiter_call demo_limiter (demo_cost_env True) cloud_ctx []) = []"
    by (simp add: CostLimiter_call_def Let_def limiter_record_def demo_cost_env_def)
  moreover have "charge demo_limiter (demo_cost_env True) cloud_ctx [] = 6144 / 100000"
    by (simp add: charge_def out cloud_estimate)
  ultimately show ?thesis by (induction n) simp_all
qed

end
