(* ===== verification/Persona.thy ===== *)
theory Persona
  imports Kernel_Dispatch Globs
begin

text \<open>
  Personas of the coding agent: the policy of a persona and its roster, the surface guard
  (\<open>plugins/persona_surface.py\<close>) and the per-persona allowlist of MCP tools (\<open>plugins/mcp_allowlist.py\<close>). The
  YAML file is its decoded value, and the validation of one entry by the schema library is an argument. The flag
  that keeps a warning from being logged twice is not modelled.

  Both hooks, and the command, file and network guards of the next theories, are of one kind: they look at the call
  and allow or refuse it, and change nothing. The locale \<open>refusing_guard\<close> states that and what the kernel makes of
  it.
\<close>

section \<open>Guards\<close>

text \<open>A decision with a severity and audit metadata.\<close>

definition decide :: "outcome \<Rightarrow> severity \<Rightarrow> string \<Rightarrow> dict \<Rightarrow> hook_decision" where
  "decide oc sev r meta = (decision oc r)\<lparr>hd_severity := sev, hd_audit_metadata := meta\<rparr>"

lemma decide_simps [simp]:
  "hd_outcome (decide oc sev r m) = oc" "hd_reason (decide oc sev r m) = r" "hd_severity (decide oc sev r m) = sev"
  "hd_audit_metadata (decide oc sev r m) = m" "hd_transformed_payload (decide oc sev r m) = None"
  "hd_set_classification (decide oc sev r m) = None" "hd_set_tier (decide oc sev r m) = None"
  by (simp_all add: decide_def)

text \<open>What a guard may answer: allow or deny, with no rewriting, no label and no side-effect row.\<close>

definition plain_answer :: "hook_decision \<Rightarrow> bool" where
  "plain_answer d = ((hd_outcome d = Allow \<or> hd_outcome d = Deny) \<and> hd_transformed_payload d = None
     \<and> hd_set_classification d = None \<and> hd_set_tier d = None
     \<and> \<not> dhas (hd_audit_metadata d) K_SIDE_EFFECT_ID)"

lemma plain_decide [intro]:
  "oc = Allow \<or> oc = Deny \<Longrightarrow> \<not> dhas m K_SIDE_EFFECT_ID \<Longrightarrow> plain_answer (decide oc sev r m)"
  by (simp add: plain_answer_def)

definition guard_hook :: "string \<Rightarrow> int \<Rightarrow> ('s \<Rightarrow> hook_context \<Rightarrow> hook_decision result) \<Rightarrow> 's hook" where
  "guard_hook name prio call = \<lparr>hk_name = name, hk_hook_point = PRE_TOOL_USE, hk_priority = prio,
     hk_call = (\<lambda>ctx s. (call s ctx, s)), hk_bot_status = None\<rparr>"

locale refusing_guard =
  fixes call :: "'s \<Rightarrow> hook_context \<Rightarrow> hook_decision result"
  assumes answers_plainly: "call s ctx = Inr d \<Longrightarrow> plain_answer d"
begin

lemma context_kept: "call s ctx = Inr d \<Longrightarrow> rebind name d ctx = Inr ctx"
  using answers_plainly by (fastforce simp: rebind_def plain_answer_def dhas_def dget_def)

text \<open>A chain that goes ahead asked the guard about the call as it stood, and the guard allowed it.\<close>

lemma passed_means_allowed:
  assumes tr: "passes k env hp hs ctx s tr ctx' s'" and "guard_hook name prio call \<in> set hs"
  obtains c d where "c \<in> set tr" "same_call ctx (co_ctx c)" "call (co_state c) (co_ctx c) = Inr d"
    "hd_outcome d = Allow"
proof -
  from assms(2) have "guard_hook name prio call \<in> co_hook ` set tr"
    unfolding passes_hooks [OF tr, symmetric] by simp
  then obtain c where c: "c \<in> set tr" "co_hook c = guard_hook name prio call" by auto
  have "call (co_state c) (co_ctx c) = Inr (co_decision c)" "\<not> stops (hd_outcome (co_decision c))"
    using passes_decisions [OF tr c(1)] by (simp_all add: c(2) guard_hook_def)
  moreover from this have "hd_outcome (co_decision c) = Allow"
    using answers_plainly by (auto simp: plain_answer_def stops_def)
  ultimately show thesis using that c(1) passes_same_call [OF tr] by blast
qed

end

section \<open>The policy of a persona\<close>

record persona_policy =
  pp_name :: string
  pp_allowed_tools :: "string list"
  pp_fs_read_only :: bool
  pp_fs_write_jail :: "string list"
  pp_command_allowlist :: "string list"
  pp_command_denylist_args :: "string list"
  pp_command_shell_opt_in :: bool
  pp_network_egress_domains :: "string list"
  pp_classes_max :: "classification option"

type_synonym persona_doc = "(string \<times> persona_policy) list"

definition CANONICAL_PERSONAS :: "string list" where
  "CANONICAL_PERSONAS =
     [''analyst'', ''architect'', ''developer'', ''orchestrator'', ''sm'', ''tester'', ''ux-designer'']"

text \<open>The loop of \<open>from_yaml\<close> over the entries, with the validation of one entry as an argument.\<close>

fun parse_personas ::
  "(string \<Rightarrow> dict \<Rightarrow> persona_policy result) \<Rightarrow> string \<Rightarrow> dict \<Rightarrow> persona_doc result"
where
  "parse_personas validate path [] = Inr []"
| "parse_personas validate path ((name, body) # rest) =
     (case body of
        PDict d \<Rightarrow>
          (case validate name d of
             Inl e \<Rightarrow> Inl e
           | Inr p \<Rightarrow> (case parse_personas validate path rest of Inl e \<Rightarrow> Inl e | Inr ps \<Rightarrow> Inr ((name, p) # ps)))
      | _ \<Rightarrow> Raise ''ValueError''
               (''persona-policy entry for '' @ repr_str name @ '' must be a mapping: '' @ path))"

definition from_yaml ::
  "(string \<Rightarrow> dict \<Rightarrow> persona_policy result) \<Rightarrow> string \<Rightarrow> pyval \<Rightarrow> persona_doc result"
where
  "from_yaml validate path loaded =
     (case (if truthy loaded then loaded else PDict []) of
        PDict raw \<Rightarrow>
          (case (if dhas raw ''personas'' then dget raw ''personas'' else PDict []) of
             PDict block \<Rightarrow>
               (case parse_personas validate path block of
                  Inl e \<Rightarrow> Inl e
                | Inr parsed \<Rightarrow>
                    let names = map fst parsed;
                        missing = filter (\<lambda>n. n \<notin> set names) CANONICAL_PERSONAS;
                        extra = filter (\<lambda>n. n \<notin> set CANONICAL_PERSONAS) names
                    in if missing \<noteq> [] \<or> extra \<noteq> [] then
                         Raise ''ValueError''
                           (''persona-policy roster mismatch at '' @ path @ '': missing=''
                            @ py_repr (PList (map PStr (sort missing))) @ '' extra=''
                            @ py_repr (PList (map PStr (sort extra))))
                       else Inr parsed)
           | _ \<Rightarrow> Raise ''ValueError'' (''persona-policy 'personas' key must be a mapping: '' @ path))
      | _ \<Rightarrow> Raise ''ValueError'' (''persona-policy file must decode to a mapping: '' @ path))"

section \<open>The surface guard\<close>

definition ORCHESTRATOR_ALLOWED :: "string list" where
  "ORCHESTRATOR_ALLOWED = [''delegate_to_persona'', ''read_file'']"

definition extract_tool_name :: "dict \<Rightarrow> string option" where
  "extract_tool_name payload = nonempty_str (dget payload K_TOOL_NAME)"

definition PersonaSurface_call :: "persona_doc option \<Rightarrow> hook_context \<Rightarrow> hook_decision" where
  "PersonaSurface_call policy ctx =
     (if hc_agent_type ctx \<noteq> ''coding'' then decision Allow ''not a coding-agent dispatch''
      else case policy of
        None \<Rightarrow> decision Allow ''persona_surface: no policy loaded (degraded)''
      | Some doc \<Rightarrow>
        (case hc_persona ctx of
           None \<Rightarrow> decide Deny SevError ''coding-agent dispatch missing persona'' []
         | Some persona \<Rightarrow>
           (case extract_tool_name (hc_payload ctx) of
              None \<Rightarrow> decide Deny SevError ''persona_surface: missing tool_name in PreToolUse context'' []
            | Some tool \<Rightarrow>
              if persona = ''orchestrator'' then
                (if tool \<in> set ORCHESTRATOR_ALLOWED
                 then decision Allow (''orchestrator may invoke '' @ repr_str tool)
                 else decide Deny SevError
                        (''orchestrator persona is delegation-only; cannot invoke '' @ repr_str tool) [])
              else
                (case map_of doc persona of
                   None \<Rightarrow> decide Deny SevError (''persona_surface: unknown persona '' @ repr_str persona) []
                 | Some pp \<Rightarrow>
                     if list_ex (fnmatchcase tool) (pp_allowed_tools pp)
                     then decision Allow (''persona '' @ repr_str persona @ '' allows '' @ repr_str tool)
                     else decision Deny
                            (''persona '' @ repr_str persona @ '' not allowed to invoke '' @ repr_str tool)))))"

section \<open>The MCP allowlist\<close>

datatype mcp_effect = McpRead | McpWrite | McpDestructive

record mcp_persona_grant =
  mg_persona :: string
  mg_tools :: "string list"

record mcp_server_governance =
  ms_allowed_for_personas :: "mcp_persona_grant list"
  ms_tools :: "(string \<times> mcp_effect) list"
  ms_undeclared_tools :: mcp_effect

text \<open>\<open>_tool_names_are_not_empty\<close>, the validator of the \<open>tools\<close> field.\<close>

definition tool_names_are_not_empty :: "(string \<times> mcp_effect) list \<Rightarrow> (string \<times> mcp_effect) list result" where
  "tool_names_are_not_empty tools =
     (if list_ex (\<lambda>t. strip (fst t) = []) tools
      then Raise ''ValueError'' ''an MCP tool name in governance.tools must not be empty'' else Inr tools)"

definition find_persona_grant :: "mcp_server_governance \<Rightarrow> string \<Rightarrow> mcp_persona_grant option" where
  "find_persona_grant g persona = find (\<lambda>gr. mg_persona gr = persona) (ms_allowed_for_personas g)"

definition MCPAllowlistHook_call ::
  "(string \<times> mcp_server_governance) list option \<Rightarrow> hook_context \<Rightarrow> hook_decision"
where
  "MCPAllowlistHook_call gmap ctx =
     (case nonempty_str (dget (hc_payload ctx) ''mcp_server'') of
        None \<Rightarrow> decision Allow ''mcp_allowlist: not an MCP dispatch''
      | Some server \<Rightarrow>
        let mcp_tool = dget (hc_payload ctx) ''mcp_tool'';
            tool_label = (case mcp_tool of PStr t \<Rightarrow> t | _ \<Rightarrow> ''<unknown>'');
            base = [(''mcp_server'', PStr server), (''mcp_tool'', PStr tool_label)]
        in case gmap of
             None \<Rightarrow> decision Allow ''mcp_allowlist: no governance map (degraded)''
           | Some m \<Rightarrow>
             (case map_of m server of
                None \<Rightarrow> decide Allow SevWarn ''mcp_allowlist: server has no governance block (warn)'' base
              | Some g \<Rightarrow>
                (case hc_persona ctx of
                   None \<Rightarrow> decide Deny SevError
                     (''mcp_allowlist: MCP dispatch to server '' @ repr_str server @ '' missing persona context'') base
                 | Some persona \<Rightarrow>
                   (case find_persona_grant g persona of
                      None \<Rightarrow> decide Deny SevError
                        (''mcp_allowlist: persona '' @ repr_str persona @ '' not listed in server ''
                         @ repr_str server @ '' allowed_for_personas'')
                        (base @ [(''persona'', PStr persona), (''deny_reason'', PStr ''persona_not_allowed'')])
                    | Some grant \<Rightarrow>
                      (case nonempty_str mcp_tool of
                         None \<Rightarrow> decide Deny SevError
                           (''mcp_allowlist: MCP dispatch to server '' @ repr_str server
                            @ '' missing mcp_tool in payload'')
                           [(''mcp_server'', PStr server), (''persona'', PStr persona)]
                       | Some tool \<Rightarrow>
                         (case find (fnmatchcase tool) (mg_tools grant) of
                            Some pattern \<Rightarrow> decide Allow SevInfo
                              (''mcp_allowlist: persona '' @ repr_str persona @ '' allowed to call ''
                               @ repr_str server @ ''/'' @ repr_str tool)
                              [(''mcp_server'', PStr server), (''mcp_tool'', PStr tool), (''persona'', PStr persona),
                               (''matched_pattern'', PStr pattern)]
                          | None \<Rightarrow> decide Deny SevError
                              (''mcp_allowlist: persona '' @ repr_str persona @ '' tool '' @ repr_str tool
                               @ '' not in server '' @ repr_str server @ '' allowlist'')
                              [(''mcp_server'', PStr server), (''mcp_tool'', PStr tool), (''persona'', PStr persona),
                               (''deny_reason'', PStr ''tool_not_allowed'')]))))))"


section \<open>What the guards let through\<close>

lemma canonical_personas_distinct: "distinct CANONICAL_PERSONAS"
  by (simp add: CANONICAL_PERSONAS_def)

lemma parse_personas_names:
  "parse_personas validate path block = Inr doc \<Longrightarrow> map fst doc = map fst block
     \<and> (\<forall>(name, pp) \<in> set doc. \<exists>d. map_of block name \<noteq> None \<and> validate name d = Inr pp)"
proof (induction validate path block arbitrary: doc rule: parse_personas.induct)
  case (2 validate path name body rest)
  then obtain d p ps where "body = PDict d" "validate name d = Inr p" "parse_personas validate path rest = Inr ps"
    "doc = (name, p) # ps"
    by (auto split: pyval.splits sum.splits)
  with 2 show ?case by fastforce
qed simp

text \<open>A loaded policy document has exactly the canonical personas, each validated.\<close>

lemma from_yaml_roster:
  assumes "from_yaml validate path loaded = Inr doc"
  shows "fst ` set doc = set CANONICAL_PERSONAS" and "\<forall>(name, pp) \<in> set doc. \<exists>d. validate name d = Inr pp"
proof -
  obtain raw where "(if truthy loaded then loaded else PDict []) = PDict raw"
    using assms unfolding from_yaml_def by (cases "if truthy loaded then loaded else PDict []") simp_all
  moreover obtain block where "(if dhas raw ''personas'' then dget raw ''personas'' else PDict []) = PDict block"
    using assms calculation unfolding from_yaml_def
    by (cases "if dhas raw ''personas'' then dget raw ''personas'' else PDict []") simp_all
  moreover have parsed: "parse_personas validate path block = Inr doc"
    and roster: "filter (\<lambda>n. n \<notin> set (map fst doc)) CANONICAL_PERSONAS = []"
      "filter (\<lambda>n. n \<notin> set CANONICAL_PERSONAS) (map fst doc) = []"
    using assms calculation unfolding from_yaml_def
    by (simp_all add: Let_def split: sum.splits if_splits)
  show "fst ` set doc = set CANONICAL_PERSONAS"
    using roster unfolding filter_empty_conv set_map by blast
  show "\<forall>(name, pp) \<in> set doc. \<exists>d. validate name d = Inr pp" using parse_personas_names [OF parsed] by blast
qed

text \<open>The calls of a persona: the orchestrator's two tools, or a tool some pattern of its surface covers.\<close>

definition in_surface :: "persona_doc \<Rightarrow> string \<Rightarrow> string \<Rightarrow> bool" where
  "in_surface doc persona tool =
     (if persona = ''orchestrator'' then tool = ''delegate_to_persona'' \<or> tool = ''read_file''
      else \<exists>pp. map_of doc persona = Some pp \<and> (\<exists>pat \<in> set (pp_allowed_tools pp). fnmatchcase tool pat))"

lemma surface_allows:
  "hd_outcome (PersonaSurface_call (Some doc) ctx) = Allow \<longleftrightarrow>
     hc_agent_type ctx \<noteq> ''coding''
     \<or> (\<exists>persona tool. hc_persona ctx = Some persona \<and> extract_tool_name (hc_payload ctx) = Some tool
          \<and> in_surface doc persona tool)"
proof (cases "hc_agent_type ctx = ''coding'' \<and> (\<exists>p t. hc_persona ctx = Some p \<and> extract_tool_name (hc_payload ctx) = Some t)")
  case True
  then obtain p t where pt: "hc_agent_type ctx = ''coding''" "hc_persona ctx = Some p" "extract_tool_name (hc_payload ctx) = Some t"
    by blast
  show ?thesis
  proof (cases "p = ''orchestrator''")
    case True
    then show ?thesis using pt by (simp add: PersonaSurface_call_def in_surface_def ORCHESTRATOR_ALLOWED_def)
  next
    case False
    then show ?thesis using pt
      by (cases "map_of doc p") (simp_all add: PersonaSurface_call_def in_surface_def list_ex_iff)
  qed
next
  case False
  then show ?thesis
    by (cases "hc_persona ctx"; cases "extract_tool_name (hc_payload ctx)") (simp_all add: PersonaSurface_call_def)
qed

lemma surface_plain: "plain_answer (PersonaSurface_call policy ctx)"
  by (auto simp: PersonaSurface_call_def plain_answer_def split: option.splits)

interpretation surface: refusing_guard "\<lambda>_ ctx. Inr (PersonaSurface_call policy ctx)" for policy
  by unfold_locales (auto simp: surface_plain)

text \<open>The grant of a persona on a server is the first one that names it.\<close>

definition granted :: "mcp_server_governance \<Rightarrow> string \<Rightarrow> string \<Rightarrow> bool" where
  "granted g persona tool = (\<exists>gr. find_persona_grant g persona = Some gr
     \<and> (\<exists>pat \<in> set (mg_tools gr). fnmatchcase tool pat))"

lemma find_Some_ex: "(\<exists>x. find P xs = Some x) \<longleftrightarrow> (\<exists>x \<in> set xs. P x)"
  by (metis find_None_iff not_None_eq)

lemma mcp_allows:
  assumes "dget (hc_payload ctx) ''mcp_server'' = PStr server" and "server \<noteq> []" and "map_of m server = Some g"
  shows "hd_outcome (MCPAllowlistHook_call (Some m) ctx) = Allow \<longleftrightarrow>
    (\<exists>persona tool. hc_persona ctx = Some persona \<and> dget (hc_payload ctx) ''mcp_tool'' = PStr tool \<and> tool \<noteq> []
       \<and> granted g persona tool)"
proof -
  have "hd_outcome (MCPAllowlistHook_call (Some m) ctx) = Allow \<longleftrightarrow>
    (\<exists>persona gr tool pat. hc_persona ctx = Some persona \<and> find_persona_grant g persona = Some gr
       \<and> nonempty_str (dget (hc_payload ctx) ''mcp_tool'') = Some tool \<and> find (fnmatchcase tool) (mg_tools gr) = Some pat)"
    using assms by (auto simp: MCPAllowlistHook_call_def Let_def split: option.splits)
  moreover have "nonempty_str v = Some t \<longleftrightarrow> v = PStr t \<and> t \<noteq> []" for v t
    by (cases v) auto
  ultimately show ?thesis by (auto simp: granted_def find_Some_ex [symmetric])
qed

lemma mcp_plain: "plain_answer (MCPAllowlistHook_call gmap ctx)"
  by (auto simp: MCPAllowlistHook_call_def plain_answer_def Let_def dict_simps split: option.splits)

interpretation mcp: refusing_guard "\<lambda>_ ctx. Inr (MCPAllowlistHook_call gmap ctx)" for gmap
  by unfold_locales (auto simp: mcp_plain)


text \<open>C9. A policy document is the roster, validated. Loading a persona policy either raises or gives a document with
  exactly the seven canonical personas, each with a policy the schema accepted for it: there is no persona without a
  policy and none that is not on the roster.\<close>

theorem loaded_policy_is_the_roster:
  "case from_yaml validate path loaded of
     Inl e \<Rightarrow> True
   | Inr doc \<Rightarrow> fst ` set doc = set CANONICAL_PERSONAS \<and> (\<forall>name \<in> set CANONICAL_PERSONAS. \<exists>pp d. map_of doc name = Some pp
       \<and> validate name d = Inr pp)"
proof (cases "from_yaml validate path loaded")
  case (Inr doc)
  note r = from_yaml_roster [OF Inr]
  have "\<exists>pp d. map_of doc name = Some pp \<and> validate name d = Inr pp" if "name \<in> set CANONICAL_PERSONAS" for name
  proof -
    have "name \<in> fst ` set doc" using that by (simp only: r(1))
    then obtain pp where pp: "map_of doc name = Some pp" by (cases "map_of doc name") (simp_all add: map_of_eq_None_iff)
    have "\<exists>d. validate name d = Inr pp" using bspec [OF r(2) map_of_SomeD [OF pp]] by simp
    then show ?thesis using pp by simp
  qed
  then show ?thesis using r(1) Inr by simp
qed simp

definition no_tools :: "string \<Rightarrow> dict \<Rightarrow> persona_policy result" where
  "no_tools name body = Inr \<lparr>pp_name = name, pp_allowed_tools = [], pp_fs_read_only = True, pp_fs_write_jail = [],
     pp_command_allowlist = [], pp_command_denylist_args = [], pp_command_shell_opt_in = False,
     pp_network_egress_domains = [], pp_classes_max = None\<rparr>"

theorem loaded_policy_is_the_roster_witness:
  "\<exists>doc. from_yaml no_tools ''p.yaml'' (PDict [(''personas'', PDict (map (\<lambda>n. (n, PDict [])) CANONICAL_PERSONAS))]) = Inr doc
     \<and> fst ` set doc = set CANONICAL_PERSONAS"
proof -
  let ?file = "PDict [(''personas'', PDict (map (\<lambda>n. (n, PDict [])) CANONICAL_PERSONAS))]"
  have "\<not> isl (from_yaml no_tools ''p.yaml'' ?file)" by code_simp
  then obtain doc where "from_yaml no_tools ''p.yaml'' ?file = Inr doc" by (cases "from_yaml no_tools ''p.yaml'' ?file") auto
  then show ?thesis using loaded_policy_is_the_roster [of no_tools "''p.yaml''" ?file] by simp
qed

end
