(* ===== verification/Command_Sandbox.thy ===== *)
theory Command_Sandbox
  imports Persona
begin

text \<open>
  The shell-command guard (\<open>plugins/command_sandbox.py\<close>) and the POSIX word splitting it relies on
  (\<open>shlex.split\<close> of the standard library, with \<open>whitespace_split\<close> and no comments), as the automaton of the
  library: its states, what each does with the next character, and what it raises at the end of the text.
\<close>

section \<open>Splitting a command line\<close>

datatype sh_state = ShSpace | ShWord | ShQuote char | ShEscape "char option"
  \<comment> \<open>\<open>ShEscape None\<close> returns to the word, \<open>ShEscape (Some q)\<close> into the quotation \<open>q\<close>\<close>

definition sh_whitespace :: "char \<Rightarrow> bool" where
  "sh_whitespace c = (c \<in> {CHR '' '', CHR 0x09, CHR 0x0D, CHR 0x0A})"

definition sh_quote :: "char \<Rightarrow> bool" where
  "sh_quote c = (c = CHR 0x27 \<or> c = CHR 0x22)"

abbreviation backslash :: char where
  "backslash \<equiv> CHR 0x5C"

definition sh_emit :: "string \<Rightarrow> bool \<Rightarrow> string list result \<Rightarrow> string list result" where
  "sh_emit tok quoted rest = (case rest of Inl e \<Rightarrow> Inl e | Inr ts \<Rightarrow> Inr (if tok \<noteq> [] \<or> quoted then tok # ts else ts))"

text \<open>Reading on in a state with the token so far; \<open>quoted\<close> tells an empty quoted token from none at all.\<close>

fun sh_go :: "sh_state \<Rightarrow> string \<Rightarrow> bool \<Rightarrow> string \<Rightarrow> string list result" where
  "sh_go (ShQuote q) tok quoted [] = Raise ''ValueError'' ''No closing quotation''"
| "sh_go (ShEscape b) tok quoted [] = Raise ''ValueError'' ''No escaped character''"
| "sh_go ShSpace tok quoted [] = sh_emit tok quoted (Inr [])"
| "sh_go ShWord tok quoted [] = sh_emit tok quoted (Inr [])"
| "sh_go ShSpace tok quoted (c # cs) =
     (if sh_whitespace c then
        (if tok \<noteq> [] \<or> quoted then sh_emit tok quoted (sh_go ShSpace [] False cs) else sh_go ShSpace tok quoted cs)
      else if c = backslash then sh_go (ShEscape None) tok quoted cs
      else if sh_quote c then sh_go (ShQuote c) tok quoted cs
      else sh_go ShWord [c] quoted cs)"
| "sh_go (ShQuote q) tok quoted (c # cs) =
     (if c = q then sh_go ShWord tok True cs
      else if c = backslash \<and> q = CHR 0x22 then sh_go (ShEscape (Some q)) tok True cs
      else sh_go (ShQuote q) (tok @ [c]) True cs)"
| "sh_go (ShEscape None) tok quoted (c # cs) = sh_go ShWord (tok @ [c]) quoted cs"
| "sh_go (ShEscape (Some q)) tok quoted (c # cs) =
     (if c \<noteq> backslash \<and> c \<noteq> q then sh_go (ShQuote q) (tok @ [backslash, c]) quoted cs
      else sh_go (ShQuote q) (tok @ [c]) quoted cs)"
| "sh_go ShWord tok quoted (c # cs) =
     (if sh_whitespace c then
        (if tok \<noteq> [] \<or> quoted then sh_emit tok quoted (sh_go ShSpace [] False cs) else sh_go ShSpace tok quoted cs)
      else if sh_quote c then sh_go (ShQuote c) tok quoted cs
      else if c = backslash then sh_go (ShEscape None) tok quoted cs
      else sh_go ShWord (tok @ [c]) quoted cs)"

definition shlex_split :: "string \<Rightarrow> string list result" where
  "shlex_split s = sh_go ShSpace [] False s"

section \<open>The guard\<close>

definition DEFAULT_SHELL_TOOLS :: "string list" where
  "DEFAULT_SHELL_TOOLS = [''run_command'', ''shell'', ''bash'', ''run_allowed_command'']"

definition SHELL_METACHARS :: "string list" where
  "SHELL_METACHARS =
     [''$'', [CHR 0x60], ''|'', ''>'', ''<'', '';'', ''&&'', ''||'', [CHR 0x0A], [CHR 0x0D]]"

fun all_strs :: "pyval list \<Rightarrow> string list option" where
  "all_strs [] = Some []"
| "all_strs (PStr s # vs) = map_option ((#) s) (all_strs vs)"
| "all_strs (_ # vs) = None"

definition extract_argv :: "dict \<Rightarrow> string list option" where
  "extract_argv payload =
     (let raw = (case dget payload ''command'' of
                   PNone \<Rightarrow> (case dget payload K_ARGS of PDict args \<Rightarrow> dget args ''command'' | _ \<Rightarrow> PNone)
                 | v \<Rightarrow> v)
      in case raw of
           PStr s \<Rightarrow> (case shlex_split s of Inl _ \<Rightarrow> None | Inr argv \<Rightarrow> Some argv)
         | PList vs \<Rightarrow> all_strs vs
         | _ \<Rightarrow> None)"

definition binary_allowed :: "string \<Rightarrow> string list \<Rightarrow> bool" where
  "binary_allowed binary allowlist = list_ex (fnmatchcase binary) allowlist"

fun find_metachar :: "string list \<Rightarrow> string option" where
  "find_metachar [] = None"
| "find_metachar (token # argv) =
     (case find (\<lambda>mc. py_in mc token) SHELL_METACHARS of Some mc \<Rightarrow> Some mc | None \<Rightarrow> find_metachar argv)"

definition argv_meta :: "string \<Rightarrow> string list \<Rightarrow> dict" where
  "argv_meta binary argv = [(''binary'', PStr binary), (''argv'', PList (map PStr argv))]"

text \<open>The three checks on the words of a command, in their order.\<close>

definition check_argv :: "persona_policy \<Rightarrow> string \<Rightarrow> bool \<Rightarrow> string list \<Rightarrow> hook_decision" where
  "check_argv pp persona shell argv =
     (let binary = hd argv; joined = join '' '' argv; base = argv_meta binary argv in
      case find (\<lambda>pat. pat \<noteq> [] \<and> py_in pat joined) (pp_command_denylist_args pp) of
        Some pat \<Rightarrow> decide Deny SevCritical
          (''command_sandbox: denylist pattern '' @ repr_str pat @ '' matched for persona '' @ repr_str persona)
          (base @ [(''denylist_pattern'', PStr pat), (''policy'', PStr ''denylist'')])
      | None \<Rightarrow>
        if \<not> binary_allowed binary (pp_command_allowlist pp) then
          decide Deny SevError
            (''command_sandbox: binary '' @ repr_str binary @ '' not in persona '' @ repr_str persona
             @ '' command_allowlist'')
            (base @ [(''policy'', PStr ''allowlist'')])
        else
          case find_metachar argv of
            Some mc \<Rightarrow>
              if \<not> shell then
                decide Deny SevCritical
                  (''command_sandbox: shell metacharacter '' @ repr_str mc
                   @ '' in argv; set shell=True to opt in'')
                  (base @ [(''metachar'', PStr mc), (''policy'', PStr ''metachar'')])
              else if \<not> pp_command_shell_opt_in pp then
                decide Deny SevCritical
                  (''command_sandbox: shell=True requested but persona '' @ repr_str persona
                   @ '' does not declare command_shell_opt_in'')
                  (base @ [(''metachar'', PStr mc), (''policy'', PStr ''metachar_shell_opt_in'')])
              else
                decide Allow SevWarn
                  (''command_sandbox: shell=True opt-in for persona '' @ repr_str persona @ ''; metachar ''
                   @ repr_str mc @ '' permitted'')
                  (base @ [(''metachar'', PStr mc), (''shell_opt_in'', PBool True)])
          | None \<Rightarrow> decide Allow SevInfo
              (''command_sandbox: binary '' @ repr_str binary @ '' permitted for persona '' @ repr_str persona) base)"

definition CommandSandbox_call :: "persona_doc option \<Rightarrow> string list \<Rightarrow> hook_context \<Rightarrow> hook_decision" where
  "CommandSandbox_call policy shell_tools ctx =
     (if (case dget (hc_payload ctx) K_TOOL_NAME of PStr t \<Rightarrow> t \<notin> set shell_tools | _ \<Rightarrow> True) then
        decision Allow ''command_sandbox: not a shell tool''
      else if hc_agent_type ctx \<noteq> ''coding'' then decision Allow ''command_sandbox: not a coding-agent dispatch''
      else case hc_persona ctx of
        None \<Rightarrow> decide Deny SevError ''command_sandbox: coding-agent dispatch missing persona'' []
      | Some persona \<Rightarrow>
        if persona = ''orchestrator'' then
          decide Deny SevError ''command_sandbox: orchestrator persona cannot invoke shell tools'' []
        else case policy of
          None \<Rightarrow> decision Allow ''command_sandbox: no policy loaded (degraded)''
        | Some doc \<Rightarrow>
          (case map_of doc persona of
             None \<Rightarrow> decide Deny SevError (''command_sandbox: unknown persona '' @ repr_str persona) []
           | Some pp \<Rightarrow>
             (case extract_argv (hc_payload ctx) of
                None \<Rightarrow> decide Deny SevError ''command_sandbox: missing or unparseable 'command' in payload'' []
              | Some argv \<Rightarrow>
                if argv = [] then decide Deny SevError ''command_sandbox: empty command'' []
                else check_argv pp persona (truthy (dget (hc_payload ctx) ''shell'')) argv)))"

section \<open>Words\<close>

text \<open>Outside quotations and escapes the words are the runs of characters between white space.\<close>

definition sh_plain :: "string \<Rightarrow> bool" where
  "sh_plain s = (\<forall>c \<in> set s. \<not> sh_quote c \<and> c \<noteq> backslash)"

definition sh_clean :: "string \<Rightarrow> bool" where
  "sh_clean s = (sh_plain s \<and> (\<forall>c \<in> set s. \<not> sh_whitespace c))"

lemma sh_go_word: "sh_clean w \<Longrightarrow> sh_go ShWord tok q (w @ rest) = sh_go ShWord (tok @ w) q rest"
  by (induction w arbitrary: tok) (auto simp: sh_clean_def sh_plain_def)

lemma sh_go_start: "sh_clean w \<Longrightarrow> w \<noteq> [] \<Longrightarrow> sh_go ShSpace [] False (w @ rest) = sh_go ShWord w False rest"
  by (cases w) (auto simp: sh_clean_def sh_plain_def sh_go_word)

lemma shlex_split_words:
  "\<forall>w \<in> set ws. sh_clean w \<and> w \<noteq> [] \<Longrightarrow> shlex_split (join '' '' ws) = Inr ws"
proof (induction ws rule: induct_list012)
  case (2 w)
  then show ?case using sh_go_start [of w "[]"] by (simp add: shlex_split_def sh_emit_def)
next
  case (3 w v ws)
  then have "sh_go ShSpace [] False (join '' '' (v # ws)) = Inr (v # ws)" by (simp add: shlex_split_def)
  then show ?case using 3 sh_go_start [of w]
    by (simp add: shlex_split_def sh_emit_def sh_whitespace_def)
qed (simp add: shlex_split_def sh_emit_def)

text \<open>A single-quoted word is taken literally, whatever it holds but the quote itself.\<close>

definition sq :: "string \<Rightarrow> string" where
  "sq s = CHR 0x27 # s @ [CHR 0x27]"

lemma sh_go_single_quoted:
  "CHR 0x27 \<notin> set s \<Longrightarrow> sh_go (ShQuote (CHR 0x27)) tok q (s @ CHR 0x27 # rest) = sh_go ShWord (tok @ s) True rest"
  by (induction s arbitrary: tok q) auto

lemma sq_start: "sh_go ShSpace [] False (sq s @ rest) = sh_go (ShQuote (CHR 0x27)) [] False (s @ CHR 0x27 # rest)"
  by (simp add: sq_def sh_whitespace_def sh_quote_def)

lemma shlex_split_quoted:
  "\<forall>w \<in> set ws. CHR 0x27 \<notin> set w \<Longrightarrow> shlex_split (join '' '' (map sq ws)) = Inr ws"
proof (induction ws rule: induct_list012)
  case (2 w)
  then show ?case using sq_start [of w "[]"] sh_go_single_quoted [of w "[]" False "[]"]
    by (simp add: shlex_split_def sh_emit_def)
next
  case (3 w v ws)
  then have "sh_go ShSpace [] False (join '' '' (map sq (v # ws))) = Inr (v # ws)" by (simp add: shlex_split_def)
  then show ?case using 3 sq_start [of w] sh_go_single_quoted [of w]
    by (simp add: shlex_split_def sh_emit_def sh_whitespace_def)
qed (simp add: shlex_split_def sh_emit_def)

section \<open>What the guard lets through\<close>

lemma find_metachar_None: "find_metachar argv = None \<longleftrightarrow> (\<forall>t \<in> set argv. \<forall>mc \<in> set SHELL_METACHARS. \<not> py_in mc t)"
proof (induction argv)
  case (Cons token argv)
  show ?case
  proof (cases "find (\<lambda>mc. py_in mc token) SHELL_METACHARS")
    case None
    then have "\<forall>mc \<in> set SHELL_METACHARS. \<not> py_in mc token" by (simp add: find_None_iff)
    then show ?thesis using Cons None by simp
  next
    case (Some mc)
    then show ?thesis using find_Some_ex [of "\<lambda>mc. py_in mc token" SHELL_METACHARS] by auto
  qed
qed simp

text \<open>The commands of a persona.\<close>

definition command_ok :: "persona_policy \<Rightarrow> bool \<Rightarrow> string list \<Rightarrow> bool" where
  "command_ok pp shell argv = (argv \<noteq> []
     \<and> (\<forall>pat \<in> set (pp_command_denylist_args pp). pat \<noteq> [] \<longrightarrow> \<not> py_in pat (join '' '' argv))
     \<and> (\<exists>pat \<in> set (pp_command_allowlist pp). fnmatchcase (hd argv) pat)
     \<and> ((\<forall>t \<in> set argv. \<forall>mc \<in> set SHELL_METACHARS. \<not> py_in mc t) \<or> shell \<and> pp_command_shell_opt_in pp))"

lemma check_argv_allows:
  "argv \<noteq> [] \<Longrightarrow> hd_outcome (check_argv pp persona shell argv) = Allow \<longleftrightarrow> command_ok pp shell argv"
proof -
  assume ne: "argv \<noteq> []"
  have find: "find (\<lambda>pat. pat \<noteq> [] \<and> py_in pat (join '' '' argv)) (pp_command_denylist_args pp) = None \<longleftrightarrow>
      (\<forall>pat \<in> set (pp_command_denylist_args pp). pat \<noteq> [] \<longrightarrow> \<not> py_in pat (join '' '' argv))"
    by (auto simp: find_None_iff)
  show ?thesis
  proof (cases "find (\<lambda>pat. pat \<noteq> [] \<and> py_in pat (join '' '' argv)) (pp_command_denylist_args pp)")
    case None
    then show ?thesis using ne find
      by (cases "find_metachar argv")
        (auto simp: check_argv_def Let_def command_ok_def binary_allowed_def list_ex_iff find_metachar_None [symmetric])
  next
    case (Some pat)
    then show ?thesis using find by (auto simp: check_argv_def Let_def command_ok_def)
  qed
qed

definition shell_call :: "string list \<Rightarrow> hook_context \<Rightarrow> bool" where
  "shell_call shell_tools ctx = (hc_agent_type ctx = ''coding''
     \<and> (\<exists>t \<in> set shell_tools. dget (hc_payload ctx) K_TOOL_NAME = PStr t))"

lemma sandbox_allows:
  assumes "shell_call shell_tools ctx"
  shows "hd_outcome (CommandSandbox_call (Some doc) shell_tools ctx) = Allow \<longleftrightarrow>
    (\<exists>persona pp argv. hc_persona ctx = Some persona \<and> persona \<noteq> ''orchestrator'' \<and> map_of doc persona = Some pp
       \<and> extract_argv (hc_payload ctx) = Some argv \<and> command_ok pp (truthy (dget (hc_payload ctx) ''shell'')) argv)"
proof -
  obtain t where t: "t \<in> set shell_tools" "dget (hc_payload ctx) K_TOOL_NAME = PStr t" "hc_agent_type ctx = ''coding''"
    using assms by (auto simp: shell_call_def)
  show ?thesis
  proof (cases "\<exists>persona pp argv. hc_persona ctx = Some persona \<and> persona \<noteq> ''orchestrator''
      \<and> map_of doc persona = Some pp \<and> extract_argv (hc_payload ctx) = Some argv \<and> argv \<noteq> []")
    case True
    then obtain persona pp argv where "hc_persona ctx = Some persona" "persona \<noteq> ''orchestrator''"
      "map_of doc persona = Some pp" "extract_argv (hc_payload ctx) = Some argv" "argv \<noteq> []" by blast
    then show ?thesis using t by (simp add: CommandSandbox_call_def check_argv_allows)
  next
    case False
    then show ?thesis using t
      by (cases "hc_persona ctx"; cases "map_of doc (the (hc_persona ctx))"; cases "extract_argv (hc_payload ctx)")
        (auto simp: CommandSandbox_call_def command_ok_def)
  qed
qed

lemma check_argv_plain: "plain_answer (check_argv pp persona shell argv)"
  unfolding check_argv_def Let_def
  by (auto simp: plain_answer_def argv_meta_def dict_simps split: option.splits)

lemma sandbox_plain: "plain_answer (CommandSandbox_call policy shell_tools ctx)"
  unfolding CommandSandbox_call_def
  by (simp add: check_argv_plain split: option.split) (simp add: plain_answer_def)

interpretation sandbox: refusing_guard "\<lambda>_ ctx. Inr (CommandSandbox_call policy tools ctx)" for policy tools
  by unfold_locales (auto simp: sandbox_plain)

end
