(* ===== verification/Paths.thy ===== *)
theory Paths
  imports Prelude
begin

text \<open>
  Paths as \<open>pathlib\<close> and \<open>os.path\<close> of the standard library treat them on a POSIX system: parsing, joining,
  \<open>expanduser\<close>, \<open>abspath\<close>, and \<open>realpath\<close> over a table of symbolic links.

  The file system is the table of its symbolic links: an absolute path, as the list of its components, with the text of
  the link. \<open>realpath\<close> keeps a dictionary of the links it has met and whether it is still resolving them; its
  recursion into the text of a link is written with a worklist, in which an entry \<open>RDone\<close> stands for the return from
  that recursion. It ends because a link enters the dictionary at most once.
\<close>

section \<open>Pure paths\<close>

record pure_path =
  pa_root :: string
  pa_parts :: "string list"

fun split_slash :: "string \<Rightarrow> string list" where
  "split_slash [] = [[]]"
| "split_slash (c # cs) =
     (if c = CHR ''/'' then [] # split_slash cs
      else case split_slash cs of [] \<Rightarrow> [[c]] | w # ws \<Rightarrow> (c # w) # ws)"

definition path_root :: "string \<Rightarrow> string" where
  "path_root s = (if \<not> startswith s ''/'' then []
     else if startswith s ''//'' \<and> \<not> startswith s ''///'' then ''//'' else ''/'')"

definition path_of :: "string \<Rightarrow> pure_path" where
  "path_of s = \<lparr>pa_root = path_root s, pa_parts = filter (\<lambda>w. w \<noteq> [] \<and> w \<noteq> ''.'') (split_slash s)\<rparr>"

definition path_str :: "pure_path \<Rightarrow> string" where
  "path_str p = (if pa_root p = [] \<and> pa_parts p = [] then ''.'' else pa_root p @ join ''/'' (pa_parts p))"

definition is_absolute :: "pure_path \<Rightarrow> bool" where
  "is_absolute p = (pa_root p \<noteq> [])"

definition path_join :: "pure_path \<Rightarrow> pure_path \<Rightarrow> pure_path" where
  "path_join a b = (if is_absolute b then b else a\<lparr>pa_parts := pa_parts a @ pa_parts b\<rparr>)"

text \<open>\<open>path.relative_to(root)\<close> does not raise.\<close>

definition is_relative_to :: "pure_path \<Rightarrow> pure_path \<Rightarrow> bool" where
  "is_relative_to p base = (pa_root p = pa_root base \<and> take (length (pa_parts base)) (pa_parts p) = pa_parts base)"

lemma is_relative_to_iff:
  "is_relative_to p base \<longleftrightarrow> pa_root p = pa_root base \<and> (\<exists>rest. pa_parts p = pa_parts base @ rest)"
  unfolding is_relative_to_def by (metis append_eq_conv_conj append_take_drop_id)

lemma is_relative_to_refl [simp]: "is_relative_to p p"
  by (simp add: is_relative_to_def)

lemma is_relative_to_trans: "is_relative_to a b \<Longrightarrow> is_relative_to b c \<Longrightarrow> is_relative_to a c"
  unfolding is_relative_to_iff by auto

section \<open>The environment of a path\<close>

type_synonym link_table = "(string list \<times> string) list"

record fs_env =
  fe_links :: link_table
  fe_home :: "string \<Rightarrow> string option"
    \<comment> \<open>the directory \<open>os.path.expanduser\<close> finds for \<open>~\<close> or \<open>~user\<close>\<close>
  fe_cwd :: "string list"
    \<comment> \<open>\<open>os.getcwd()\<close>, which has no links\<close>
  fe_eloop_raises :: bool
    \<comment> \<open>\<open>Path.resolve\<close> raises on a loop of links (before Python 3.13)\<close>

definition expanduser :: "fs_env \<Rightarrow> pure_path \<Rightarrow> pure_path result" where
  "expanduser env p =
     (if pa_root p = [] \<and> pa_parts p \<noteq> [] \<and> startswith (hd (pa_parts p)) ''~'' then
        (case fe_home env (hd (pa_parts p)) of
           None \<Rightarrow> Raise ''RuntimeError'' ''Could not determine home directory.''
         | Some h \<Rightarrow> Inr \<lparr>pa_root = path_root h, pa_parts = pa_parts (path_of h) @ tl (pa_parts p)\<rparr>)
      else Inr p)"

text \<open>\<open>normpath\<close> of an absolute path: \<open>..\<close> takes back the component before it, and nothing at the root.\<close>

fun norm_parts :: "string list \<Rightarrow> string list \<Rightarrow> string list" where
  "norm_parts acc [] = acc"
| "norm_parts acc (c # cs) =
     (if c = [] \<or> c = ''.'' then norm_parts acc cs
      else if c = ''..'' then norm_parts (butlast acc) cs
      else norm_parts (acc @ [c]) cs)"

definition absparts :: "fs_env \<Rightarrow> pure_path \<Rightarrow> string list" where
  "absparts env p = (if is_absolute p then pa_parts p else fe_cwd env @ pa_parts p)"

definition abspath :: "fs_env \<Rightarrow> pure_path \<Rightarrow> pure_path" where
  "abspath env p = \<lparr>pa_root = (if is_absolute p then pa_root p else ''/''), pa_parts = norm_parts [] (absparts env p)\<rparr>"

section \<open>Real paths\<close>

datatype rp_item = RName string | RRoot | RDone "string list"

type_synonym seen_links = "(string list \<times> string list option) list"

definition link_items :: "string \<Rightarrow> rp_item list" where
  "link_items target = (if startswith target ''/'' then [RRoot] else []) @ map RName (split_slash target)"

text \<open>\<open>join(path, rest)\<close> when a loop is met: the rest of each text that was being read is put behind the
  path, and replaces it when it begins with a slash.\<close>

definition rp_join :: "string list \<Rightarrow> string list \<Rightarrow> string list" where
  "rp_join p rest = (if 2 \<le> length rest \<and> hd rest = [] then rest else p @ rest)"

fun rp_leave :: "string list \<Rightarrow> string list \<Rightarrow> rp_item list \<Rightarrow> string list" where
  "rp_leave p rest [] = rp_join p rest"
| "rp_leave p rest (RName n # todo) = rp_leave p (rest @ [n]) todo"
| "rp_leave p rest (RRoot # todo) = rp_leave p rest todo"
| "rp_leave p rest (RDone q # todo) = rp_leave (rp_join p rest) [] todo"

definition unseen :: "link_table \<Rightarrow> seen_links \<Rightarrow> nat" where
  "unseen links seen = length (filter (\<lambda>l. map_of seen (fst l) = None) links)"

function joinrealpath ::
  "link_table \<Rightarrow> rp_item list \<Rightarrow> string list \<Rightarrow> seen_links \<Rightarrow> (string list \<times> bool) result"
where
  "joinrealpath links [] path seen = Inr (path, True)"
| "joinrealpath links (RRoot # todo) path seen = joinrealpath links todo [] seen"
| "joinrealpath links (RDone q # todo) path seen = joinrealpath links todo path ((q, Some path) # seen)"
| "joinrealpath links (RName n # todo) path seen =
     (if n = [] \<or> n = ''.'' then joinrealpath links todo path seen
      else if n = ''..'' then joinrealpath links todo (butlast path) seen
      else if CHR 0x00 \<in> set n then Raise ''ValueError'' ''lstat: embedded null character in path''
      else
        case map_of links (path @ [n]) of
          None \<Rightarrow> joinrealpath links todo (path @ [n]) seen
        | Some target \<Rightarrow>
            (case map_of seen (path @ [n]) of
               Some (Some p) \<Rightarrow> joinrealpath links todo p seen
             | Some None \<Rightarrow> Inr (rp_leave (path @ [n]) [] todo, False)
             | None \<Rightarrow> joinrealpath links (link_items target @ RDone (path @ [n]) # todo) path
                         ((path @ [n], None) # seen)))"
  by pat_completeness auto

lemma unseen_mono: "unseen links ((q, v) # seen) \<le> unseen links seen"
  unfolding unseen_def by (induction links) auto

lemma unseen_less:
  assumes "map_of links q = Some t" and "map_of seen q = None"
  shows "unseen links ((q, v) # seen) < unseen links seen"
  using assms
proof (induction links)
  case (Cons l links)
  show ?case
  proof (cases "fst l = q")
    case True
    then show ?thesis using Cons.prems(2) unseen_mono [of links q v seen] by (simp add: unseen_def)
  next
    case False
    then have "unseen links ((q, v) # seen) < unseen links seen" using Cons by (cases l) auto
    then show ?thesis using False by (simp add: unseen_def)
  qed
qed simp

termination joinrealpath
proof (relation "measures [\<lambda>(links, todo, path, seen). unseen links seen, \<lambda>(links, todo, path, seen). length todo]",
    goal_cases)
  case (3 links q todo path seen)
  show ?case using unseen_mono [of links q "Some path" seen] by auto
qed (auto simp: unseen_less)


text \<open>\<open>realpath\<close> and \<open>Path.resolve(strict=False)\<close>. A relative path starts at the working directory. When a loop
  was met, \<open>resolve\<close> of Python 3.12 looks at the result once more and raises if that loops too; a loop whose text goes
  on with a doubled slash is read as if it went on with a single one.\<close>

definition realpath :: "fs_env \<Rightarrow> pure_path \<Rightarrow> (string list \<times> bool) result" where
  "realpath env p =
     (case joinrealpath (fe_links env) (map RName (pa_parts p)) (if is_absolute p then [] else fe_cwd env) [] of
        Inl e \<Rightarrow> Inl e
      | Inr (q, ok) \<Rightarrow> Inr (norm_parts [] q, ok))"

definition absolute :: "string list \<Rightarrow> pure_path" where
  "absolute q = \<lparr>pa_root = ''/'', pa_parts = q\<rparr>"

definition resolve :: "fs_env \<Rightarrow> pure_path \<Rightarrow> pure_path result" where
  "resolve env p =
     (case realpath env p of
        Inl e \<Rightarrow> Inl e
      | Inr (q, ok) \<Rightarrow>
          if ok \<or> \<not> fe_eloop_raises env then Inr (absolute q)
          else (case joinrealpath (fe_links env) (map RName q) [] [] of
                  Inl e \<Rightarrow> Inl e
                | Inr (_, ok') \<Rightarrow> if ok' then Inr (absolute q)
                    else Raise ''RuntimeError'' (''Symlink loop from '' @ repr_str (path_str (absolute q)))))"

lemma absolute_simps [simp]: "pa_root (absolute q) = ''/''" "pa_parts (absolute q) = q" "is_absolute (absolute q)"
  by (simp_all add: absolute_def is_absolute_def)

section \<open>Real paths go through no link\<close>

definition proper_name :: "string \<Rightarrow> bool" where
  "proper_name n = (n \<noteq> [] \<and> n \<noteq> ''.'' \<and> n \<noteq> ''..'' \<and> CHR 0x00 \<notin> set n)"

text \<open>A location: proper names only, and none of the directories on the way, nor the end, is a link.\<close>

definition canonical :: "link_table \<Rightarrow> string list \<Rightarrow> bool" where
  "canonical links p = ((\<forall>n \<in> set p. proper_name n) \<and> (\<forall>k \<le> length p. 0 < k \<longrightarrow> map_of links (take k p) = None))"

lemma canonical_Nil [simp]: "canonical links []"
  by (simp add: canonical_def)

lemma canonical_snoc:
  "canonical links (p @ [n]) \<longleftrightarrow> canonical links p \<and> proper_name n \<and> map_of links (p @ [n]) = None"
  by (auto simp: canonical_def le_Suc_eq)

lemma canonical_prefix: "canonical links (p @ q) \<Longrightarrow> canonical links p"
proof -
  assume c: "canonical links (p @ q)"
  have "map_of links (take k p) = None" if "k \<le> length p" "0 < k" for k
  proof -
    have "take k (p @ q) = take k p" using that by simp
    then show ?thesis using c that unfolding canonical_def by (metis le_add1 le_trans length_append)
  qed
  then show ?thesis using c by (simp add: canonical_def)
qed

lemma canonical_butlast: "canonical links p \<Longrightarrow> canonical links (butlast p)"
  by (cases p rule: rev_cases) (simp_all add: canonical_snoc)

lemma joinrealpath_canonical:
  "joinrealpath links todo path seen = Inr (r, True) \<Longrightarrow> canonical links path \<Longrightarrow>
   \<forall>q p. (q, Some p) \<in> set seen \<longrightarrow> canonical links p \<Longrightarrow> canonical links r"
proof (induction links todo path seen rule: joinrealpath.induct)
  case (4 links n todo path seen)
  have "CHR 0x00 \<notin> set n" if "n \<noteq> []" "n \<noteq> ''.''" "n \<noteq> ''..''"
    using "4.prems"(1) that by (simp split: if_splits)
  then consider "n = [] \<or> n = ''.''" | "n = ''..''" | "proper_name n"
    unfolding proper_name_def by blast
  then show ?case
  proof cases
    case 1
    then show ?thesis using 4 by auto
  next
    case 2
    then show ?thesis using 4 canonical_butlast by auto
  next
    case 3
    then have n: "n \<noteq> []" "n \<noteq> ''.''" "n \<noteq> ''..''" "CHR 0x00 \<notin> set n" by (simp_all add: proper_name_def)
    show ?thesis
    proof (cases "map_of links (path @ [n])")
      case None
      then show ?thesis using 4 n 3 by (simp add: canonical_snoc)
    next
      case (Some target)
      note link = Some
      show ?thesis
      proof (cases "map_of seen (path @ [n])")
        case None
        then show ?thesis using 4 n link by simp
      next
        case (Some v)
        then obtain p where v: "v = Some p" using "4.prems"(1) n link Some by (cases v) auto
        then have "canonical links p" using "4.prems"(3) map_of_SomeD [OF Some] by blast
        then show ?thesis using "4.IH" "4.prems" n link Some v by simp
      qed
    qed
  qed
qed auto

text \<open>A location is its own real path.\<close>

lemma joinrealpath_fixed:
  "canonical links (path @ p) \<Longrightarrow> joinrealpath links (map RName p) path seen = Inr (path @ p, True)"
proof (induction p arbitrary: path)
  case (Cons n p)
  then have "canonical links ((path @ [n]) @ p)" by simp
  then show ?case using Cons.IH [of "path @ [n]"] canonical_prefix [of links "path @ [n]" p]
    by (auto simp: canonical_snoc proper_name_def)
qed simp

lemma norm_parts_proper: "\<forall>n \<in> set p. proper_name n \<Longrightarrow> norm_parts acc p = acc @ p"
  by (induction p arbitrary: acc) (auto simp: proper_name_def)

lemma norm_parts_canonical: "canonical links p \<Longrightarrow> norm_parts [] p = p"
  by (simp add: norm_parts_proper canonical_def)

lemma realpath_canonical:
  assumes "realpath env p = Inr (q, True)" and "canonical (fe_links env) (fe_cwd env)"
  shows "canonical (fe_links env) q"
proof -
  obtain r where r: "joinrealpath (fe_links env) (map RName (pa_parts p)) (if is_absolute p then [] else fe_cwd env) []
      = Inr (r, True)" and q: "q = norm_parts [] r"
    using assms(1) by (auto simp: realpath_def split: sum.splits)
  have "canonical (fe_links env) r" using joinrealpath_canonical [OF r] assms(2) by auto
  then show ?thesis by (simp add: q norm_parts_canonical)
qed

lemma resolve_fixed: "canonical (fe_links env) q \<Longrightarrow> resolve env (absolute q) = Inr (absolute q)"
  using joinrealpath_fixed [of "fe_links env" "[]" q "[]"]
  by (simp add: resolve_def realpath_def norm_parts_canonical)

text \<open>What \<open>resolve\<close> answers is a location, unless a loop of links was met.\<close>

definition no_loop :: "fs_env \<Rightarrow> pure_path \<Rightarrow> bool" where
  "no_loop env p = (case realpath env p of Inl _ \<Rightarrow> True | Inr (_, ok) \<Rightarrow> ok)"

lemma resolve_location:
  assumes "resolve env p = Inr r" and "no_loop env p" and "canonical (fe_links env) (fe_cwd env)"
  shows "pa_root r = ''/''" and "canonical (fe_links env) (pa_parts r)" and "resolve env r = Inr r"
proof -
  obtain q where q: "realpath env p = Inr (q, True)" "r = absolute q"
    using assms(1,2) by (auto simp: resolve_def no_loop_def split: sum.splits)
  then show "pa_root r = ''/''" "canonical (fe_links env) (pa_parts r)" "resolve env r = Inr r"
    using realpath_canonical [OF q(1) assms(3)] resolve_fixed by simp_all
qed

lemma resolve_root: "resolve env p = Inr r \<Longrightarrow> pa_root r = ''/''"
  by (auto simp: resolve_def split: sum.splits if_splits)

end
