(* ===== verification/FS_Jail.thy ===== *)
theory FS_Jail
  imports Persona Paths
begin

text \<open>
  The write jail of the coding agent (\<open>plugins/fs_jail.py\<close>): the targets of a write tool, resolved through
  symbolic links, must lie under a prefix of the persona's jail and away from the governance files. The file system is
  an argument of a call (the table of links of \<^emph>\<open>Paths\<close>). A value of the metadata is plain data, so the case of
  a \<open>Path\<close> object under \<open>workspace_root\<close> does not arise; protected names are resolved in the order of the list.
\<close>

section \<open>Errors in a sequence\<close>

fun try_map :: "('a \<Rightarrow> 'b result) \<Rightarrow> 'a list \<Rightarrow> 'b list result" where
  "try_map f [] = Inr []"
| "try_map f (x # xs) =
     (case f x of
        Inl e \<Rightarrow> Inl e
      | Inr y \<Rightarrow> (case try_map f xs of Inl e \<Rightarrow> Inl e | Inr ys \<Rightarrow> Inr (y # ys)))"

lemma try_map_Inr: "try_map f xs = Inr ys \<longleftrightarrow> map f xs = map Inr ys"
proof (induction xs arbitrary: ys)
  case (Cons x xs)
  show ?case
  proof (cases "f x")
    case (Inr y)
    show ?thesis
    proof (cases "try_map f xs")
      case (Inl e)
      then have "\<forall>zs. map f xs \<noteq> map Inr zs" using Cons.IH by (metis sum.distinct(1))
      then show ?thesis using Inl Inr by (cases ys) auto
    next
      case (Inr zs)
      then have "map f xs = map Inr zs" using Cons.IH by blast
      then show ?thesis using \<open>f x = Inr y\<close> Inr by (cases ys) auto
    qed
  qed (cases ys; simp)
qed auto

lemma try_map_image:
  assumes "try_map f xs = Inr ys"
  shows "f ` set xs = Inr ` set ys"
proof -
  have "set (map f xs) = set (map Inr ys)" using assms unfolding try_map_Inr by simp
  then show ?thesis by simp
qed

lemma try_map_mem: "try_map f xs = Inr ys \<Longrightarrow> y \<in> set ys \<Longrightarrow> \<exists>x \<in> set xs. f x = Inr y"
  using try_map_image [of f xs ys] by (metis imageE image_eqI)

section \<open>State\<close>

definition DEFAULT_WRITE_TOOLS :: "string list" where
  "DEFAULT_WRITE_TOOLS =
     [''write_file'', ''create_file'', ''edit_file'', ''mkdir'', ''rmtree'', ''git_add'', ''rename'']"

definition CONFIG_DENY_FILENAMES :: "string list" where
  "CONFIG_DENY_FILENAMES = [''vault.db'', ''evaluator.db'', ''approvals.db'', ''evaluator-policy.yaml'']"

definition LOCAL_DATA_DENY_FILENAMES :: "string list" where
  "LOCAL_DATA_DENY_FILENAMES = [''audit.db'', ''evaluator.db'', ''approvals.db'', ''evaluator-policy.yaml'']"

record jail_prefix =
  jp_raw :: string
  jp_lexical :: pure_path
  jp_resolved :: pure_path

record resolved_target =
  rt_label :: string
  rt_requested_path :: string
  rt_requested_abs :: pure_path
  rt_resolved_path :: pure_path

record fs_jail =
  fj_policy :: "persona_doc option"
  fj_write_tools :: "string list"
  fj_workspace_root :: "pure_path option"
  fj_config_root :: pure_path
  fj_runs_root :: pure_path
  fj_local_data_root :: pure_path

text \<open>\<open>Path.home() / ...\<close>, the default of a root that is not given.\<close>

definition under_home :: "fs_env \<Rightarrow> string list \<Rightarrow> pure_path result" where
  "under_home env names =
     (case expanduser env (path_of ''~'') of
        Inl e \<Rightarrow> Inl e | Inr h \<Rightarrow> resolve env (h\<lparr>pa_parts := pa_parts h @ names\<rparr>))"

definition FSJail_init ::
  "fs_env \<Rightarrow> persona_doc option \<Rightarrow> string list \<Rightarrow> pure_path option \<Rightarrow> pure_path option \<Rightarrow> pure_path option
    \<Rightarrow> fs_jail result"
where
  "FSJail_init env policy write_tools ws config local =
     (case (case ws of None \<Rightarrow> Inr None | Some w \<Rightarrow> map_sum id Some (resolve env w)) of
        Inl e \<Rightarrow> Inl e
      | Inr ws' \<Rightarrow>
        (case (case config of Some c \<Rightarrow> resolve env c | None \<Rightarrow> under_home env [''.config'', ''evarness'']) of
           Inl e \<Rightarrow> Inl e
         | Inr cfg \<Rightarrow>
           (case resolve env (cfg\<lparr>pa_parts := pa_parts cfg @ [''runs'']\<rparr>) of
              Inl e \<Rightarrow> Inl e
            | Inr runs \<Rightarrow>
              (case (case local of Some l \<Rightarrow> resolve env l
                       | None \<Rightarrow> under_home env [''.local'', ''share'', ''evarness'']) of
                 Inl e \<Rightarrow> Inl e
               | Inr data \<Rightarrow> Inr \<lparr>fj_policy = policy, fj_write_tools = write_tools, fj_workspace_root = ws',
                   fj_config_root = cfg, fj_runs_root = runs, fj_local_data_root = data\<rparr>))))"

section \<open>Targets\<close>

definition payload_containers :: "dict \<Rightarrow> dict list" where
  "payload_containers payload = (case dget payload K_ARGS of PDict args \<Rightarrow> [args, payload] | _ \<Rightarrow> [payload])"

definition stripped :: "pyval \<Rightarrow> string option" where
  "stripped v = (case v of PStr s \<Rightarrow> if strip s = [] then None else Some (strip s) | _ \<Rightarrow> None)"

fun first_some :: "('a \<Rightarrow> 'b option) \<Rightarrow> 'a list \<Rightarrow> 'b option" where
  "first_some f [] = None"
| "first_some f (x # xs) = (case f x of None \<Rightarrow> first_some f xs | Some y \<Rightarrow> Some y)"

definition first_string :: "dict list \<Rightarrow> string list \<Rightarrow> string option" where
  "first_string containers keys = first_some (\<lambda>c. first_some (\<lambda>k. stripped (dget c k)) keys) containers"

definition first_string_sequence :: "dict list \<Rightarrow> string list \<Rightarrow> string list" where
  "first_string_sequence containers keys =
     (case first_some (\<lambda>c. first_some (\<lambda>k. case dget c k of
                PList vs \<Rightarrow> (case List.map_filter stripped vs of [] \<Rightarrow> None | ts \<Rightarrow> Some ts)
              | _ \<Rightarrow> None) keys) containers of
        None \<Rightarrow> [] | Some ts \<Rightarrow> ts)"

definition candidate_path :: "fs_env \<Rightarrow> pure_path \<Rightarrow> string \<Rightarrow> pure_path result" where
  "candidate_path env ws raw =
     (case expanduser env (path_of raw) of
        Inl e \<Rightarrow> Inl e | Inr p \<Rightarrow> Inr (if is_absolute p then p else path_join ws p))"

definition resolve_target :: "fs_env \<Rightarrow> pure_path \<Rightarrow> string \<times> string \<Rightarrow> resolved_target result" where
  "resolve_target env ws lp =
     (case candidate_path env ws (snd lp) of
        Inl e \<Rightarrow> Inl e
      | Inr cand \<Rightarrow>
          (case resolve env cand of
             Inl e \<Rightarrow> Inl e
           | Inr r \<Rightarrow> Inr \<lparr>rt_label = fst lp, rt_requested_path = snd lp,
                          rt_requested_abs = abspath env cand, rt_resolved_path = r\<rparr>))"

text \<open>The labelled paths a write call names.\<close>

definition labelled_paths :: "dict \<Rightarrow> string \<Rightarrow> (string \<times> string) list" where
  "labelled_paths payload tool =
     (let containers = payload_containers payload;
          single = (case first_string containers [''path'', ''target''] of None \<Rightarrow> [] | Some p \<Rightarrow> [(''path'', p)])
      in if tool = ''rename'' then
           (case first_string containers [''source'', ''src'', ''from_path'', ''old_path'', ''path''] of
              None \<Rightarrow> [] | Some p \<Rightarrow> [(''source'', p)])
           @ (case first_string containers
                     [''target'', ''destination'', ''dest'', ''dst'', ''to_path'', ''new_path''] of
                None \<Rightarrow> [] | Some p \<Rightarrow> [(''target'', p)])
         else if tool = ''git_add'' \<and> first_string_sequence containers [''paths''] \<noteq> [] then
           map (\<lambda>(i, p). (''paths['' @ show_nat i @ '']'', p))
             (List.enumerate 0 (first_string_sequence containers [''paths'']))
         else single)"

definition extract_targets :: "fs_env \<Rightarrow> dict \<Rightarrow> string \<Rightarrow> pure_path \<Rightarrow> resolved_target list result" where
  "extract_targets env payload tool ws = try_map (resolve_target env ws) (labelled_paths payload tool)"

definition resolve_workspace_root :: "fs_env \<Rightarrow> hook_context \<Rightarrow> pure_path option \<Rightarrow> pure_path result" where
  "resolve_workspace_root env ctx def =
     (case stripped (dget (hc_metadata ctx) ''workspace_root'') of
        Some _ \<Rightarrow>
          (case expanduser env (path_of (py_str (dget (hc_metadata ctx) ''workspace_root''))) of
             Inl e \<Rightarrow> Inl e | Inr p \<Rightarrow> resolve env p)
      | None \<Rightarrow> (case def of Some w \<Rightarrow> Inr w | None \<Rightarrow> resolve env (absolute (fe_cwd env))))"

section \<open>The jail\<close>

definition resolve_prefix :: "fs_env \<Rightarrow> pure_path \<Rightarrow> string \<Rightarrow> jail_prefix result" where
  "resolve_prefix env ws raw =
     (case candidate_path env ws raw of
        Inl e \<Rightarrow> Inl e
      | Inr cand \<Rightarrow>
          (case resolve env cand of
             Inl e \<Rightarrow> Inl e
           | Inr r \<Rightarrow> Inr \<lparr>jp_raw = raw, jp_lexical = abspath env cand, jp_resolved = r\<rparr>))"

definition resolve_jail_prefixes :: "fs_env \<Rightarrow> pure_path \<Rightarrow> persona_policy \<Rightarrow> jail_prefix list result" where
  "resolve_jail_prefixes env ws pp =
     try_map (resolve_prefix env ws) (filter (\<lambda>r. r \<noteq> []) (map strip (pp_fs_write_jail pp)))"

definition is_within_any :: "pure_path \<Rightarrow> pure_path list \<Rightarrow> bool" where
  "is_within_any p roots = list_ex (is_relative_to p) roots"

definition protected_names :: "fs_jail \<Rightarrow> pure_path list" where
  "protected_names j =
     map (\<lambda>n. (fj_local_data_root j)\<lparr>pa_parts := pa_parts (fj_local_data_root j) @ [n]\<rparr>) LOCAL_DATA_DENY_FILENAMES
     @ map (\<lambda>n. (fj_config_root j)\<lparr>pa_parts := pa_parts (fj_config_root j) @ [n]\<rparr>) CONFIG_DENY_FILENAMES"

definition is_globally_denied :: "fs_env \<Rightarrow> fs_jail \<Rightarrow> pure_path \<Rightarrow> bool result" where
  "is_globally_denied env j path =
     (case resolve env path of
        Inl e \<Rightarrow> Inl e
      | Inr r \<Rightarrow>
          if is_relative_to r (fj_config_root j) then Inr (\<not> is_relative_to r (fj_runs_root j))
          else (case try_map (resolve env) (protected_names j) of
                  Inl e \<Rightarrow> Inl e | Inr ps \<Rightarrow> Inr (r \<in> set ps)))"

section \<open>Audit metadata\<close>

definition target_row :: "resolved_target \<Rightarrow> dict" where
  "target_row t = [(''label'', PStr (rt_label t)), (''requested_path'', PStr (rt_requested_path t)),
     (''requested_abs'', PStr (path_str (rt_requested_abs t))), (''resolved_path'', PStr (path_str (rt_resolved_path t)))]"

definition audit_metadata_for_targets :: "resolved_target list \<Rightarrow> pure_path \<Rightarrow> dict" where
  "audit_metadata_for_targets ts ws =
     [(''workspace_root'', PStr (path_str ws)), (''targets'', PList (map (PDict \<circ> target_row) ts))]
     @ (case ts of [t] \<Rightarrow> tl (target_row t) | _ \<Rightarrow> [])"

definition audit_metadata_for_target :: "resolved_target \<Rightarrow> pure_path \<Rightarrow> string \<Rightarrow> dict" where
  "audit_metadata_for_target t ws trip =
     audit_metadata_for_targets [t] ws @ [(''trip_reason'', PStr trip), (''target_label'', PStr (rt_label t))]"

section \<open>The hook\<close>

text \<open>The loop over the targets: the first that is protected, belongs to a read-only persona or leaves the jail
  refuses the call.\<close>

fun check_targets ::
  "fs_env \<Rightarrow> fs_jail \<Rightarrow> string \<Rightarrow> persona_policy \<Rightarrow> string \<Rightarrow> pure_path \<Rightarrow> jail_prefix list
    \<Rightarrow> resolved_target list \<Rightarrow> hook_decision option result"
where
  "check_targets env j persona pp tool ws jail [] = Inr None"
| "check_targets env j persona pp tool ws jail (t # ts) =
     (case is_globally_denied env j (rt_resolved_path t) of
        Inl e \<Rightarrow> Inl e
      | Inr denied \<Rightarrow>
          if denied then
            Inr (Some (decide Deny SevCritical
              (''fs_jail: target '' @ repr_str (rt_requested_path t)
               @ '' resolves to a globally protected governance path'')
              (audit_metadata_for_target t ws ''global_deny'')))
          else if pp_fs_read_only pp then
            Inr (Some (decide Deny SevError
              (''fs_jail: persona '' @ repr_str persona @ '' is read-only and cannot invoke write tool ''
               @ repr_str tool)
              (audit_metadata_for_target t ws ''read_only'')))
          else if is_within_any (rt_resolved_path t) (map jp_resolved jail) then
            check_targets env j persona pp tool ws jail ts
          else
            let trip = (if is_within_any (rt_requested_abs t) (map jp_lexical jail) then ''symlink_escape''
                        else ''prefix_mismatch'')
            in Inr (Some (decide Deny SevError
                 (''fs_jail: target '' @ repr_str (rt_requested_path t) @ '' resolves outside persona ''
                  @ repr_str persona @ '' fs_write_jail ('' @ trip @ '')'')
                 (audit_metadata_for_target t ws trip))))"

definition jail_decision ::
  "fs_env \<Rightarrow> fs_jail \<Rightarrow> string \<Rightarrow> persona_policy \<Rightarrow> string \<Rightarrow> pure_path \<Rightarrow> resolved_target list
    \<Rightarrow> hook_decision result"
where
  "jail_decision env j persona pp tool ws targets =
     (case resolve_jail_prefixes env ws pp of
        Inl e \<Rightarrow> Inl e
      | Inr jail \<Rightarrow>
          if jail = [] \<and> \<not> pp_fs_read_only pp then
            Inr (decide Deny SevError
              (''fs_jail: persona '' @ repr_str persona @ '' has no fs_write_jail configured'')
              (audit_metadata_for_target (hd targets) ws ''prefix_mismatch''))
          else
            (case check_targets env j persona pp tool ws jail targets of
               Inl e \<Rightarrow> Inl e
             | Inr (Some d) \<Rightarrow> Inr d
             | Inr None \<Rightarrow> Inr (decide Allow SevInfo
                 (''fs_jail: write targets permitted for persona '' @ repr_str persona)
                 (audit_metadata_for_targets targets ws))))"

definition FSJail_call :: "fs_env \<Rightarrow> fs_jail \<Rightarrow> hook_context \<Rightarrow> hook_decision result" where
  "FSJail_call env j ctx =
     (case dget (hc_payload ctx) K_TOOL_NAME of
        PStr tool \<Rightarrow>
          if tool \<notin> set (fj_write_tools j) then Inr (decision Allow ''fs_jail: not a write tool'')
          else if hc_agent_type ctx \<noteq> ''coding'' then Inr (decision Allow ''fs_jail: not a coding-agent dispatch'')
          else
            (case hc_persona ctx of
               None \<Rightarrow> Inr (decide Deny SevError ''fs_jail: coding-agent dispatch missing persona'' [])
             | Some persona \<Rightarrow>
               if persona = ''orchestrator'' then
                 Inr (decide Deny SevError ''fs_jail: orchestrator persona cannot invoke write tools'' [])
               else
                 (case fj_policy j of
                    None \<Rightarrow> Inr (decision Allow ''fs_jail: no policy loaded (degraded)'')
                  | Some doc \<Rightarrow>
                    (case map_of doc persona of
                       None \<Rightarrow> Inr (decide Deny SevError (''fs_jail: unknown persona '' @ repr_str persona) [])
                     | Some pp \<Rightarrow>
                       (case resolve_workspace_root env ctx (fj_workspace_root j) of
                          Inl e \<Rightarrow> Inl e
                        | Inr ws \<Rightarrow>
                          (case extract_targets env (hc_payload ctx) tool ws of
                             Inl e \<Rightarrow> Inl e
                           | Inr targets \<Rightarrow>
                             if targets = [] then
                               Inr (decide Deny SevError ''fs_jail: missing target path in write-tool payload''
                                      [(''workspace_root'', PStr (path_str ws))])
                             else jail_decision env j persona pp tool ws targets)))))
      | _ \<Rightarrow> Inr (decision Allow ''fs_jail: not a write tool''))"


section \<open>What the jail lets through\<close>

text \<open>A location lies in the jail of a persona: under the real location of one of its prefixes.\<close>

definition in_jail :: "fs_env \<Rightarrow> pure_path \<Rightarrow> persona_policy \<Rightarrow> pure_path \<Rightarrow> bool" where
  "in_jail env ws pp r = (\<exists>raw \<in> set (pp_fs_write_jail pp). strip raw \<noteq> []
     \<and> (\<exists>cand base. candidate_path env ws (strip raw) = Inr cand \<and> resolve env cand = Inr base \<and> is_relative_to r base))"

text \<open>A location is none of the governance files: under the configuration root only in the directory of the runs, and
  elsewhere none of the protected files.\<close>

definition spared :: "fs_env \<Rightarrow> fs_jail \<Rightarrow> pure_path \<Rightarrow> bool" where
  "spared env j r = (if is_relative_to r (fj_config_root j) then is_relative_to r (fj_runs_root j)
     else \<forall>p \<in> set (protected_names j). resolve env p \<noteq> Inr r)"

lemma prefix_in_jail:
  assumes "resolve_jail_prefixes env ws pp = Inr jail" and "is_within_any r (map jp_resolved jail)"
  shows "in_jail env ws pp r"
proof -
  obtain p where p: "p \<in> set jail" "is_relative_to r (jp_resolved p)"
    using assms(2) by (auto simp: is_within_any_def list_ex_iff)
  obtain raw where raw: "raw \<in> set (filter (\<lambda>r. r \<noteq> []) (map strip (pp_fs_write_jail pp)))"
      "resolve_prefix env ws raw = Inr p"
    using try_map_mem [OF assms(1) [unfolded resolve_jail_prefixes_def] p(1)] by blast
  obtain cand where cand: "candidate_path env ws raw = Inr cand" "resolve env cand = Inr (jp_resolved p)"
    using raw(2) by (auto simp: resolve_prefix_def split: sum.splits)
  obtain entry where "entry \<in> set (pp_fs_write_jail pp)" "raw = strip entry" "raw \<noteq> []" using raw(1) by auto
  then show ?thesis using cand p(2) unfolding in_jail_def by metis
qed

lemma not_denied_spared:
  assumes "is_globally_denied env j p = Inr False" and "resolve env p = Inr p"
  shows "spared env j p"
proof (cases "is_relative_to p (fj_config_root j)")
  case True
  then show ?thesis using assms by (simp add: is_globally_denied_def spared_def)
next
  case False
  then obtain ps where ps: "try_map (resolve env) (protected_names j) = Inr ps" "p \<notin> set ps"
    using assms by (auto simp: is_globally_denied_def split: sum.splits)
  have "resolve env q \<noteq> Inr p" if "q \<in> set (protected_names j)" for q
  proof
    assume "resolve env q = Inr p"
    then have "Inr p \<in> resolve env ` set (protected_names j)" using that by (metis imageI)
    then show False using ps(2) try_map_image [OF ps(1)] by auto
  qed
  then show ?thesis using False by (simp add: spared_def)
qed

lemma check_targets_None:
  "check_targets env j persona pp tool ws jail ts = Inr None \<Longrightarrow> t \<in> set ts \<Longrightarrow>
     is_globally_denied env j (rt_resolved_path t) = Inr False \<and> \<not> pp_fs_read_only pp
     \<and> is_within_any (rt_resolved_path t) (map jp_resolved jail)"
  by (induction ts) (auto simp: Let_def split: sum.splits if_splits)

lemma check_targets_Some_Deny:
  "check_targets env j persona pp tool ws jail ts = Inr (Some d) \<Longrightarrow> hd_outcome d = Deny"
  by (induction ts) (auto simp: Let_def split: sum.splits if_splits)

lemma jail_decision_allows:
  assumes "jail_decision env j persona pp tool ws ts = Inr d" and "hd_outcome d = Allow" and "ts \<noteq> []"
  shows "\<not> pp_fs_read_only pp"
    and "\<forall>t \<in> set ts. in_jail env ws pp (rt_resolved_path t) \<and> is_globally_denied env j (rt_resolved_path t) = Inr False"
proof -
  obtain jail where jail: "resolve_jail_prefixes env ws pp = Inr jail"
      "check_targets env j persona pp tool ws jail ts = Inr None"
    using assms(1,2) check_targets_Some_Deny unfolding jail_decision_def
    by (fastforce split: sum.splits if_splits option.splits)
  show "\<not> pp_fs_read_only pp" using check_targets_None [OF jail(2)] assms(3) by (cases ts) auto
  show "\<forall>t \<in> set ts. in_jail env ws pp (rt_resolved_path t) \<and> is_globally_denied env j (rt_resolved_path t) = Inr False"
    using check_targets_None [OF jail(2)] prefix_in_jail [OF jail(1)] by blast
qed

definition write_call :: "fs_jail \<Rightarrow> hook_context \<Rightarrow> string \<Rightarrow> bool" where
  "write_call j ctx tool = (hc_agent_type ctx = ''coding'' \<and> dget (hc_payload ctx) K_TOOL_NAME = PStr tool
     \<and> tool \<in> set (fj_write_tools j))"

lemma FSJail_call_allows:
  assumes call: "FSJail_call env j ctx = Inr d" "hd_outcome d = Allow"
    and w: "write_call j ctx tool" and doc: "fj_policy j = Some doc"
  obtains persona pp ws ts where "hc_persona ctx = Some persona" "persona \<noteq> ''orchestrator''"
    "map_of doc persona = Some pp" "resolve_workspace_root env ctx (fj_workspace_root j) = Inr ws"
    "extract_targets env (hc_payload ctx) tool ws = Inr ts" "ts \<noteq> []" "jail_decision env j persona pp tool ws ts = Inr d"
proof -
  note c = call(1) [unfolded FSJail_call_def]
  have w: "hc_agent_type ctx = ''coding''" "dget (hc_payload ctx) K_TOOL_NAME = PStr tool" "tool \<in> set (fj_write_tools j)"
    using w by (simp_all add: write_call_def)
  obtain persona where p: "hc_persona ctx = Some persona" using c w call(2) by (cases "hc_persona ctx") auto
  have o: "persona \<noteq> ''orchestrator''" using c w p call(2) by (auto split: if_splits)
  obtain pp where pp: "map_of doc persona = Some pp" using c w p o doc call(2) by (cases "map_of doc persona") auto
  obtain ws where ws: "resolve_workspace_root env ctx (fj_workspace_root j) = Inr ws"
    using c w p o doc pp by (cases "resolve_workspace_root env ctx (fj_workspace_root j)") auto
  obtain ts where ts: "extract_targets env (hc_payload ctx) tool ws = Inr ts"
    using c w p o doc pp ws by (cases "extract_targets env (hc_payload ctx) tool ws") auto
  have ne: "ts \<noteq> []" using c w p o doc pp ws ts call(2) by (auto split: if_splits)
  have "jail_decision env j persona pp tool ws ts = Inr d" using c w p o doc pp ws ts ne by simp
  then show thesis using that p o pp ws ts ne by blast
qed

lemma resolve_target_facts:
  assumes "resolve_target env ws lp = Inr t"
  obtains cand where "rt_requested_path t = snd lp" "candidate_path env ws (rt_requested_path t) = Inr cand"
    "resolve env cand = Inr (rt_resolved_path t)"
  using assms that by (auto simp: resolve_target_def split: sum.splits)

lemma check_targets_plain:
  "check_targets env j persona pp tool ws jail ts = Inr (Some d) \<Longrightarrow> plain_answer d"
  by (induction ts)
    (auto simp: plain_answer_def audit_metadata_for_target_def audit_metadata_for_targets_def target_row_def dict_simps
      Let_def split: sum.splits if_splits)

lemma targets_meta_plain: "\<not> dhas (audit_metadata_for_targets ts ws) K_SIDE_EFFECT_ID"
  by (auto simp: audit_metadata_for_targets_def target_row_def dict_simps split: list.splits)

lemma jail_decision_plain: "jail_decision env j persona pp tool ws ts = Inr d \<Longrightarrow> plain_answer d"
proof -
  assume a: "jail_decision env j persona pp tool ws ts = Inr d"
  then obtain jail where jail: "resolve_jail_prefixes env ws pp = Inr jail" by (cases "resolve_jail_prefixes env ws pp") (auto simp: jail_decision_def)
  have meta: "\<not> dhas (audit_metadata_for_target t ws r) K_SIDE_EFFECT_ID" for t r
    by (simp add: audit_metadata_for_target_def audit_metadata_for_targets_def target_row_def dict_simps)
  show ?thesis
  proof (cases "jail = [] \<and> \<not> pp_fs_read_only pp")
    case True
    then show ?thesis using a jail meta by (auto simp: jail_decision_def)
  next
    case False
    then obtain od where od: "check_targets env j persona pp tool ws jail ts = Inr od"
      using a jail by (cases "check_targets env j persona pp tool ws jail ts") (auto simp: jail_decision_def)
    then show ?thesis using a jail False check_targets_plain [of env j persona pp tool ws jail ts] targets_meta_plain
      by (cases od) (auto simp: jail_decision_def)
  qed
qed

lemma FSJail_plain: "FSJail_call env j ctx = Inr d \<Longrightarrow> plain_answer d"
proof -
  assume a: "FSJail_call env j ctx = Inr d"
  have easy: "plain_answer (decision Allow r)" "plain_answer (decide Deny sev r [])"
      "plain_answer (decide Deny sev r [(''workspace_root'', v)])" for r sev v
    by (simp_all add: plain_answer_def dict_simps)
  from a show ?thesis unfolding FSJail_call_def
    by (simp split: pyval.splits if_splits option.splits sum.splits) (use easy jail_decision_plain in blast)+
qed

interpretation jail: refusing_guard "\<lambda>s ctx. FSJail_call (env_of s) j ctx" for env_of j
  by unfold_locales (rule FSJail_plain)


section \<open>The jail holds\<close>

text \<open>C7. A write the jail allows stays inside it. When the jail lets a write tool of the coding agent run, the persona
  is a known one that may write and is not the orchestrator, and every path the call names was resolved from the
  workspace to a place under the real location of one of the persona's jail prefixes that is none of the protected
  governance files; unless a loop of links was met, no directory on the way to that place and not the place itself is a
  symbolic link.\<close>

theorem jailed_write_stays_inside:
  assumes "FSJail_call env j ctx = Inr d" and "hd_outcome d = Allow" and "write_call j ctx tool"
      and "fj_policy j = Some doc" and "canonical (fe_links env) (fe_cwd env)"
  shows "\<exists>persona pp ws targets. hc_persona ctx = Some persona \<and> persona \<noteq> ''orchestrator''
    \<and> map_of doc persona = Some pp \<and> \<not> pp_fs_read_only pp
    \<and> resolve_workspace_root env ctx (fj_workspace_root j) = Inr ws
    \<and> targets \<noteq> [] \<and> map (resolve_target env ws) (labelled_paths (hc_payload ctx) tool) = map Inr targets
    \<and> (\<forall>t \<in> set targets. in_jail env ws pp (rt_resolved_path t)
         \<and> (\<exists>cand. candidate_path env ws (rt_requested_path t) = Inr cand \<and> resolve env cand = Inr (rt_resolved_path t)
              \<and> (no_loop env cand \<longrightarrow> canonical (fe_links env) (pa_parts (rt_resolved_path t))
                    \<and> spared env j (rt_resolved_path t))))"
proof -
  obtain persona pp ws ts where f: "hc_persona ctx = Some persona" "persona \<noteq> ''orchestrator''"
      "map_of doc persona = Some pp" "resolve_workspace_root env ctx (fj_workspace_root j) = Inr ws"
    and ts: "extract_targets env (hc_payload ctx) tool ws = Inr ts" "ts \<noteq> []"
    and d: "jail_decision env j persona pp tool ws ts = Inr d"
    using FSJail_call_allows [OF assms(1-4)] by metis
  note ok = jail_decision_allows [OF d assms(2) ts(2)]
  have "\<exists>cand. candidate_path env ws (rt_requested_path t) = Inr cand \<and> resolve env cand = Inr (rt_resolved_path t)
      \<and> (no_loop env cand \<longrightarrow> canonical (fe_links env) (pa_parts (rt_resolved_path t)) \<and> spared env j (rt_resolved_path t))"
    if t: "t \<in> set ts" for t
  proof -
    obtain lp where "resolve_target env ws lp = Inr t"
      using try_map_mem [OF ts(1) [unfolded extract_targets_def] t] by blast
    then obtain cand where cand: "candidate_path env ws (rt_requested_path t) = Inr cand"
        "resolve env cand = Inr (rt_resolved_path t)"
      by (rule resolve_target_facts)
    then show ?thesis using resolve_location [OF cand(2) _ assms(5)] not_denied_spared ok(2) t by blast
  qed
  then show ?thesis using f ok ts unfolding extract_targets_def try_map_Inr by blast
qed

definition demo_fs :: fs_env where
  "demo_fs = \<lparr>fe_links = [([''w'', ''src'', ''out''], ''/etc''), ([''w'', ''src'', ''in''], ''../src/lib'')],
     fe_home = (\<lambda>_. None), fe_cwd = [''w''], fe_eloop_raises = True\<rparr>"

definition demo_persona :: persona_policy where
  "demo_persona = \<lparr>pp_name = ''developer'', pp_allowed_tools = [''write_*''], pp_fs_read_only = False,
     pp_fs_write_jail = [''src''], pp_command_allowlist = [''git''], pp_command_denylist_args = [''rm -rf''],
     pp_command_shell_opt_in = False, pp_network_egress_domains = [''*.example.org''], pp_classes_max = None\<rparr>"

definition demo_jail :: fs_jail where
  "demo_jail = \<lparr>fj_policy = Some [(''developer'', demo_persona)], fj_write_tools = DEFAULT_WRITE_TOOLS,
     fj_workspace_root = Some (absolute [''w'']), fj_config_root = absolute [''c''],
     fj_runs_root = absolute [''c'', ''runs''], fj_local_data_root = absolute [''d'']\<rparr>"

definition demo_coding :: "string \<Rightarrow> dict \<Rightarrow> hook_context" where
  "demo_coding tool args = (demo_ctx PRE_TOOL_USE [(K_TOOL_NAME, PStr tool), (K_ARGS, PDict args)] [])
     \<lparr>hc_agent_type := ''coding'', hc_persona := Some ''developer''\<rparr>"

lemma demo_jail_decides:
  "map_sum (\<lambda>_. ()) hd_outcome (FSJail_call demo_fs demo_jail (demo_coding ''write_file'' [(''path'', PStr ''src/in/a.py'')]))
     = Inr Allow"
  "map_sum (\<lambda>_. ()) (\<lambda>d. (hd_outcome d, dget (hd_audit_metadata d) ''trip_reason''))
     (FSJail_call demo_fs demo_jail (demo_coding ''write_file'' [(''path'', PStr ''src/out/a.py'')]))
     = Inr (Deny, PStr ''symlink_escape'')"
  "map_sum (\<lambda>_. ()) (\<lambda>d. (hd_outcome d, dget (hd_audit_metadata d) ''trip_reason''))
     (FSJail_call demo_fs demo_jail (demo_coding ''write_file'' [(''path'', PStr ''src/../../etc/passwd'')]))
     = Inr (Deny, PStr ''prefix_mismatch'')"
  by code_simp+

theorem jailed_write_stays_inside_witness:
  "\<exists>d ws. FSJail_call demo_fs demo_jail (demo_coding ''write_file'' [(''path'', PStr ''src/in/a.py'')]) = Inr d
     \<and> hd_outcome d = Allow
     \<and> (\<exists>t. resolve_target demo_fs ws (''path'', ''src/in/a.py'') = Inr t \<and> in_jail demo_fs ws demo_persona (rt_resolved_path t))"
proof -
  let ?ctx = "demo_coding ''write_file'' [(''path'', PStr ''src/in/a.py'')]"
  obtain d where d: "FSJail_call demo_fs demo_jail ?ctx = Inr d" "hd_outcome d = Allow"
    using demo_jail_decides(1) by (cases "FSJail_call demo_fs demo_jail ?ctx") auto
  have "write_call demo_jail ?ctx ''write_file''"
    by (simp add: write_call_def demo_coding_def demo_ctx_def demo_jail_def DEFAULT_WRITE_TOOLS_def dict_simps)
  moreover have "fj_policy demo_jail = Some [(''developer'', demo_persona)]" by (simp add: demo_jail_def)
  moreover have "canonical (fe_links demo_fs) (fe_cwd demo_fs)"
    by (simp add: demo_fs_def canonical_def proper_name_def le_Suc_eq)
  moreover have "labelled_paths (hc_payload ?ctx) ''write_file'' = [(''path'', ''src/in/a.py'')]" by code_simp
  ultimately obtain pp ws targets where "pp = demo_persona" "targets \<noteq> []"
      "map (resolve_target demo_fs ws) [(''path'', ''src/in/a.py'')] = map Inr targets"
      "\<forall>t \<in> set targets. in_jail demo_fs ws pp (rt_resolved_path t)"
    using jailed_write_stays_inside [OF d] by (fastforce split: if_splits)
  then show ?thesis using d by (cases targets) auto
qed

text \<open>A directory that holds governance files is not protected. The global deny knows the configuration directory
  with what is below it, and single files; a directory above them is neither, so removing or renaming it (when the
  persona's jail covers it) passes although it takes the protected files with it.\<close>

theorem parent_of_protected_is_not_denied:
  assumes "canonical (fe_links env) q" and "fj_config_root j = absolute (q @ n # rest)"
      and "\<forall>p \<in> set (protected_names j). resolve env p = Inr p"
      and "fj_local_data_root j = absolute (q @ ds)"
  shows "is_globally_denied env j (absolute q) = Inr False"
proof -
  have "\<not> is_relative_to (absolute q) (fj_config_root j)" by (simp add: assms(2) is_relative_to_iff)
  moreover have "absolute q \<notin> set (protected_names j)"
    by (auto simp: protected_names_def assms(2,4) absolute_def)
  moreover have "try_map (resolve env) (protected_names j) = Inr (protected_names j)"
    unfolding try_map_Inr using assms(3) by simp
  ultimately show ?thesis by (simp add: is_globally_denied_def resolve_fixed [OF assms(1)])
qed

definition home_jail :: fs_jail where
  "home_jail = demo_jail\<lparr>fj_policy := Some [(''developer'', demo_persona\<lparr>pp_fs_write_jail := [''/h'']\<rparr>)],
     fj_config_root := absolute [''h'', ''.config'', ''evarness''],
     fj_runs_root := absolute [''h'', ''.config'', ''evarness'', ''runs''],
     fj_local_data_root := absolute [''h'', ''.local'']\<rparr>"

lemma home_jail_removal:
  "map_sum (\<lambda>_. ()) hd_outcome (FSJail_call demo_fs home_jail (demo_coding ''rmtree'' [(''path'', PStr ''/h/.config'')])) = Inr Allow"
  "map_sum (\<lambda>_. ()) hd_outcome
     (FSJail_call demo_fs home_jail (demo_coding ''rmtree'' [(''path'', PStr ''/h/.config/evarness'')])) = Inr Deny"
  by code_simp+

theorem parent_of_protected_is_not_denied_witness:
  "is_globally_denied demo_fs home_jail (absolute [''h'']) = Inr False
   \<and> map_sum (\<lambda>_. ()) hd_outcome
       (FSJail_call demo_fs home_jail (demo_coding ''rmtree'' [(''path'', PStr ''/h/.config'')])) = Inr Allow"
proof -
  have "is_globally_denied demo_fs home_jail (absolute [''h'']) = Inr False"
  proof (rule parent_of_protected_is_not_denied [where q = "[''h'']" and n = "''.config''" and rest = "[''evarness'']" and ds = "[''.local'']"])
    show "canonical (fe_links demo_fs) [''h'']" by (simp add: demo_fs_def canonical_def proper_name_def le_Suc_eq)
    show "\<forall>p \<in> set (protected_names home_jail). resolve demo_fs p = Inr p" by code_simp
  qed (simp_all add: home_jail_def)
  then show ?thesis using home_jail_removal(1) by simp
qed

end
