(* ===== verification/Urls.thy ===== *)
theory Urls
  imports Prelude
begin

text \<open>
  URLs as \<open>urllib.parse\<close> of the standard library reads and writes them (\<open>urlparse\<close>, the \<open>hostname\<close> of the result,
  \<open>urlunparse\<close>), for text of code points below 256 (where the compatibility normalisation the library checks for
  introduces no delimiter). Whether a bracketed host is a valid IPv6 or future address is an argument: the library's
  answer depends on its patch version.
\<close>

section \<open>Cutting text\<close>

text \<open>\<open>s.partition(c)\<close> without the middle part, \<open>s.rpartition(c)[2]\<close>.\<close>

definition before :: "char \<Rightarrow> string \<Rightarrow> string" where
  "before c s = takeWhile (\<lambda>x. x \<noteq> c) s"

definition after :: "char \<Rightarrow> string \<Rightarrow> string" where
  "after c s = tl (dropWhile (\<lambda>x. x \<noteq> c) s)"

definition after_last :: "char \<Rightarrow> string \<Rightarrow> string" where
  "after_last c s = rev (takeWhile (\<lambda>x. x \<noteq> c) (rev s))"

lemma not_in_takeWhile: "c \<notin> set (takeWhile (\<lambda>x. x \<noteq> c) s)"
  by (auto dest: set_takeWhileD)

lemma set_before: "set (before c s) \<subseteq> set s - {c}"
  unfolding before_def by (auto dest: set_takeWhileD)

lemma set_after: "set (after c s) \<subseteq> set s"
  unfolding after_def by (metis set_dropWhileD list.set_sel(2) subsetI tl_Nil)

lemma set_after_last: "set (after_last c s) \<subseteq> set s - {c}"
  unfolding after_last_def by (auto dest: set_takeWhileD)

section \<open>Splitting\<close>

record split_url =
  su_scheme :: string
  su_netloc :: string
  su_path :: string
  su_params :: string
  su_query :: string
  su_fragment :: string

definition is_alpha :: "char \<Rightarrow> bool" where
  "is_alpha c = (is_lower_char c \<or> is_upper_char c)"

definition scheme_char :: "char \<Rightarrow> bool" where
  "scheme_char c = (is_alpha c \<or> is_digit_char c \<or> c \<in> {CHR ''+'', CHR ''-'', CHR ''.''})"

definition clean_input :: "string \<Rightarrow> string" where
  "clean_input url = filter (\<lambda>c. c \<notin> {CHR 0x09, CHR 0x0D, CHR 0x0A}) (dropWhile (char_in 0 32) url)"

definition split_scheme :: "string \<Rightarrow> string \<times> string" where
  "split_scheme url =
     (if CHR '':'' \<in> set url \<and> before (CHR '':'') url \<noteq> [] \<and> is_alpha (hd url) \<and> list_all scheme_char (before (CHR '':'') url)
      then (py_lower (before (CHR '':'') url), after (CHR '':'') url) else ([], url))"

definition netloc_char :: "char \<Rightarrow> bool" where
  "netloc_char c = (c \<notin> {CHR ''/'', CHR ''?'', CHR ''#''})"

definition uses_params :: "string list" where
  "uses_params = [[], ''ftp'', ''hdl'', ''prospero'', ''http'', ''https'', ''shttp'', ''rtsp'', ''rtsps'', ''rtspu'', ''sip'',
     ''sips'', ''mms'', ''sftp'', ''tel'']"

text \<open>\<open>_splitparams\<close>: the parameters of the last segment of the path.\<close>

definition split_params :: "string \<Rightarrow> string \<times> string" where
  "split_params path =
     (let seg = after_last (CHR ''/'') path; dir = take (length path - length seg) path in
      if CHR '';'' \<notin> set seg then (path, []) else (dir @ before (CHR '';'') seg, after (CHR '';'') seg))"

definition urlsplit :: "(string \<Rightarrow> bool) \<Rightarrow> string \<Rightarrow> split_url result" where
  "urlsplit brackets_ok url0 =
     (let (scheme, url) = split_scheme (clean_input url0);
          has_netloc = startswith url ''//'';
          netloc = (if has_netloc then takeWhile netloc_char (drop 2 url) else []);
          rest = (if has_netloc then dropWhile netloc_char (drop 2 url) else url)
      in if (CHR ''['' \<in> set netloc) \<noteq> (CHR '']'' \<in> set netloc) then Raise ''ValueError'' ''Invalid IPv6 URL''
         else if CHR ''['' \<in> set netloc \<and> \<not> brackets_ok netloc then Raise ''ValueError'' ''Invalid IPv6 URL''
         else
           let no_frag = before (CHR ''#'') rest; path = before (CHR ''?'') no_frag
           in Inr \<lparr>su_scheme = scheme, su_netloc = netloc, su_path = path, su_params = [],
                   su_query = after (CHR ''?'') no_frag, su_fragment = after (CHR ''#'') rest\<rparr>)"

definition urlparse :: "(string \<Rightarrow> bool) \<Rightarrow> string \<Rightarrow> split_url result" where
  "urlparse brackets_ok url =
     (case urlsplit brackets_ok url of
        Inl e \<Rightarrow> Inl e
      | Inr u \<Rightarrow>
          if su_scheme u \<in> set uses_params \<and> CHR '';'' \<in> set (su_path u)
          then (case split_params (su_path u) of (p, ps) \<Rightarrow> Inr (u\<lparr>su_path := p, su_params := ps\<rparr>))
          else Inr u)"

text \<open>\<open>SplitResult.hostname\<close>: without user, port and brackets, in lower case but for the zone.\<close>

definition hostname :: "split_url \<Rightarrow> string" where
  "hostname u =
     (let hostinfo = after_last (CHR ''@'') (su_netloc u);
          host = (if CHR ''['' \<in> set hostinfo then before (CHR '']'') (after (CHR ''['') hostinfo)
                  else before (CHR '':'') hostinfo)
      in py_lower (before (CHR ''%'') host) @ dropWhile (\<lambda>c. c \<noteq> CHR ''%'') host)"

text \<open>\<open>urlunparse\<close> of a URL that has an authority.\<close>

definition urlunparse :: "split_url \<Rightarrow> string" where
  "urlunparse u =
     (let path = su_path u @ (if su_params u = [] then [] else CHR '';'' # su_params u);
          url = ''//'' @ su_netloc u @ (if path \<noteq> [] \<and> hd path \<noteq> CHR ''/'' then CHR ''/'' # path else path);
          url = (if su_scheme u = [] then url else su_scheme u @ CHR '':'' # url);
          url = (if su_query u = [] then url else url @ CHR ''?'' # su_query u)
      in if su_fragment u = [] then url else url @ CHR ''#'' # su_fragment u)"

section \<open>What the parts hold\<close>

lemma set_lower: "x \<in> set (py_lower s) \<Longrightarrow> \<not> is_lower_char x \<Longrightarrow> x \<in> set s"
  unfolding py_lower_def lower_char_def is_lower_char_def is_upper_char_def char_in_def
  by (auto split: if_splits)

lemma urlsplit_netloc:
  assumes "urlsplit b url = Inr u"
  shows "\<forall>c \<in> set (su_netloc u). netloc_char c"
  using assms by (auto simp: urlsplit_def Let_def split: prod.splits if_splits dest: set_takeWhileD)

lemma urlsplit_path:
  assumes "urlsplit b url = Inr u"
  shows "CHR ''?'' \<notin> set (su_path u)" and "CHR ''#'' \<notin> set (su_path u)"
proof -
  obtain rest where "su_path u = before (CHR ''?'') (before (CHR ''#'') rest)"
    using assms by (auto simp: urlsplit_def Let_def split: prod.splits if_splits)
  then show "CHR ''?'' \<notin> set (su_path u)" "CHR ''#'' \<notin> set (su_path u)"
    using set_before [of "CHR ''?''" "before (CHR ''#'') rest"] set_before [of "CHR ''#''" rest] by auto
qed

lemma urlsplit_scheme:
  assumes "urlsplit b url = Inr u"
  shows "\<forall>c \<in> set (su_scheme u). scheme_char c"
proof -
  have "su_scheme u = fst (split_scheme (clean_input url))"
    using assms by (auto simp: urlsplit_def Let_def split: prod.splits if_splits)
  moreover have "scheme_char (lower_char c)" if "scheme_char c" for c
    using that by (cases "is_upper_char c") (auto simp: scheme_char_def is_alpha_def lower_char_def is_lower_char_def
        is_upper_char_def char_in_def)
  ultimately show ?thesis by (auto simp: split_scheme_def py_lower_def list_all_iff)
qed

lemma split_params_set: "split_params p = (a, b) \<Longrightarrow> set a \<union> set b \<subseteq> set p"
proof -
  assume s: "split_params p = (a, b)"
  have seg: "set (after_last (CHR ''/'') p) \<subseteq> set p" using set_after_last by fastforce
  have "set (before (CHR '';'') (after_last (CHR ''/'') p)) \<subseteq> set p" "set (after (CHR '';'') (after_last (CHR ''/'') p)) \<subseteq> set p"
    using seg set_before set_after by fastforce+
  then show ?thesis using s set_take_subset [of "length p - length (after_last (CHR ''/'') p)" p]
    by (auto simp: split_params_def Let_def split: if_splits)
qed

lemma urlparse_parts:
  assumes "urlparse b url = Inr u"
  shows "\<forall>c \<in> set (su_netloc u). netloc_char c" and "\<forall>c \<in> set (su_scheme u). scheme_char c"
    and "\<forall>c \<in> set (su_path u) \<union> set (su_params u). c \<noteq> CHR ''?'' \<and> c \<noteq> CHR ''#''"
proof -
  obtain v where v: "urlsplit b url = Inr v" using assms by (auto simp: urlparse_def split: sum.splits)
  have "su_netloc u = su_netloc v" "su_scheme u = su_scheme v" "set (su_path u) \<union> set (su_params u) \<subseteq> set (su_path v)"
    using assms v split_params_set [of "su_path v"]
    by (auto simp: urlparse_def urlsplit_def Let_def split: if_splits prod.splits)
  then show "\<forall>c \<in> set (su_netloc u). netloc_char c" "\<forall>c \<in> set (su_scheme u). scheme_char c"
    "\<forall>c \<in> set (su_path u) \<union> set (su_params u). c \<noteq> CHR ''?'' \<and> c \<noteq> CHR ''#''"
    using urlsplit_netloc [OF v] urlsplit_scheme [OF v] urlsplit_path [OF v] by auto
qed

text \<open>The host lies in the authority: none of the characters that end it, and no user part, can be in it.\<close>

lemma hostname_chars:
  assumes "urlparse b url = Inr u"
  shows "\<forall>c \<in> set (hostname u). c \<notin> {CHR ''/'', CHR ''?'', CHR ''#'', CHR ''@''}"
proof
  fix c assume c: "c \<in> set (hostname u)"
  define hi where "hi = after_last (CHR ''@'') (su_netloc u)"
  define host where "host = (if CHR ''['' \<in> set hi then before (CHR '']'') (after (CHR ''['') hi) else before (CHR '':'') hi)"
  have "set host \<subseteq> set hi" unfolding host_def
    using set_before [of "CHR '']''" "after (CHR ''['') hi"] set_after [of "CHR ''[''" hi] set_before [of "CHR '':''" hi]
    by auto
  moreover have "c \<in> set host \<or> is_lower_char c"
    using c set_lower [of c "before (CHR ''%'') host"] set_before [of "CHR ''%''" host]
    by (auto simp: hostname_def Let_def hi_def [symmetric] host_def [symmetric] dest: set_dropWhileD)
  moreover have "set hi \<subseteq> set (su_netloc u) - {CHR ''@''}" unfolding hi_def by (rule set_after_last)
  ultimately show "c \<notin> {CHR ''/'', CHR ''?'', CHR ''#'', CHR ''@''}"
    using urlparse_parts(1) [OF assms] by (auto simp: netloc_char_def is_lower_char_def char_in_def)
qed

text \<open>A URL written without its query and fragment holds neither.\<close>

lemma urlunparse_bare:
  assumes "urlparse b url = Inr u"
  shows "\<forall>c \<in> set (urlunparse (u\<lparr>su_query := [], su_fragment := []\<rparr>)). c \<noteq> CHR ''?'' \<and> c \<noteq> CHR ''#''"
proof -
  note p = urlparse_parts [OF assms]
  have "\<not> scheme_char (CHR ''?'')" "\<not> scheme_char (CHR ''#'')"
    by (simp_all add: scheme_char_def is_alpha_def is_lower_char_def is_upper_char_def is_digit_char_def char_in_def)
  then have "CHR ''?'' \<notin> set (su_scheme u)" "CHR ''#'' \<notin> set (su_scheme u)" using p(2) by blast+
  moreover have "CHR ''?'' \<notin> set (su_netloc u)" "CHR ''#'' \<notin> set (su_netloc u)"
    using p(1) by (auto simp: netloc_char_def)
  ultimately show ?thesis using p(3) by (auto simp: urlunparse_def Let_def split: if_splits)
qed

end
