(* ===== verification/Network_Egress.thy ===== *)
theory Network_Egress
  imports Persona Urls
begin

text \<open>
  The outbound guard of network tools (\<open>plugins/network_egress.py\<close>): no literal of the owner's identity in the
  arguments, for every agent, and for the coding agent a host the persona's policy names. The corpus of identity
  literals is an argument, \<open>None\<close> when no provider is registered; so is the validity of a bracketed host (see \<^emph>\<open>Urls\<close>).
\<close>

section \<open>The hook\<close>

definition DEFAULT_NETWORK_TOOLS :: "string list" where
  "DEFAULT_NETWORK_TOOLS = [''web_fetch'', ''research'', ''http_request'', ''github_*'', ''mcp_*'']"

definition CLOUD_LLM_HOSTNAMES :: "string list" where
  "CLOUD_LLM_HOSTNAMES =
     [''api.openai.com'', ''api.anthropic.com'', ''openrouter.ai'', ''models.inference.ai.azure.com'']"

definition is_network_tool :: "string \<Rightarrow> string list \<Rightarrow> bool" where
  "is_network_tool tool tools = list_ex (fnmatchcase tool) tools"

definition identity_secret_literals :: "string list option \<Rightarrow> string list" where
  "identity_secret_literals corpus = (case corpus of None \<Rightarrow> [] | Some ls \<Rightarrow> ls)"

definition url_in :: "dict \<Rightarrow> string option" where
  "url_in c =
     (case dget c ''url'' of
        PStr s \<Rightarrow> if strip s \<noteq> [] then Some (strip s)
                  else (case dget c ''endpoint'' of PStr e \<Rightarrow> if strip e \<noteq> [] then Some (strip e) else None | _ \<Rightarrow> None)
      | _ \<Rightarrow> (case dget c ''endpoint'' of PStr e \<Rightarrow> if strip e \<noteq> [] then Some (strip e) else None | _ \<Rightarrow> None))"

definition extract_url :: "dict \<Rightarrow> string option" where
  "extract_url payload =
     (case dget payload K_ARGS of
        PDict args \<Rightarrow> (case url_in args of Some u \<Rightarrow> Some u | None \<Rightarrow> url_in payload)
      | _ \<Rightarrow> url_in payload)"

definition parse_url :: "(string \<Rightarrow> bool) \<Rightarrow> string \<Rightarrow> (string \<times> string) option" where
  "parse_url brackets_ok url =
     (case urlparse brackets_ok url of
        Inl _ \<Rightarrow> None
      | Inr u \<Rightarrow>
          if su_scheme u = [] \<or> su_netloc u = [] then None
          else if hostname u = [] then None
          else Some (hostname u, urlunparse (u\<lparr>su_query := [], su_fragment := []\<rparr>)))"

definition leaks :: "string list option \<Rightarrow> dict \<Rightarrow> bool" where
  "leaks corpus payload =
     (let haystack = (if dhas payload K_ARGS then py_str (dget payload K_ARGS) else [])
      in list_ex (\<lambda>lit. py_in lit haystack) (identity_secret_literals corpus))"

record network_egress =
  ne_policy :: "persona_doc option"
  ne_network_tools :: "string list"
  ne_cloud_llm_hostnames :: "string list"

definition host_decision ::
  "network_egress \<Rightarrow> persona_policy \<Rightarrow> string \<Rightarrow> string \<Rightarrow> string \<Rightarrow> string \<Rightarrow> hook_decision"
where
  "host_decision ne pp persona tool host clean =
     (let seen = [(''hostname'', PStr host), (''url'', PStr clean)];
          denied = (''tool_name'', PStr tool) # seen @ [(''deny_reason'', PStr ''hostname_not_allowed'')]
      in if host \<in> set (ne_cloud_llm_hostnames ne) then
           decide Allow SevInfo ''network_egress: hostname governed by EgressGate'' seen
         else if pp_network_egress_domains pp = [] then
           decide Deny SevError
             (''network_egress: persona '' @ repr_str persona
              @ '' has no network_egress_domains configured (default-deny); hostname_not_allowed'') denied
         else if list_ex (fnmatchcase host) (pp_network_egress_domains pp) then
           decide Allow SevInfo
             (''network_egress: hostname '' @ repr_str host @ '' permitted for persona '' @ repr_str persona) seen
         else
           decide Deny SevError
             (''network_egress: hostname '' @ repr_str host @ '' not in persona '' @ repr_str persona
              @ '' network_egress_domains; hostname_not_allowed'') denied)"

definition NetworkEgress_call ::
  "network_egress \<Rightarrow> (string \<Rightarrow> bool) \<Rightarrow> string list option \<Rightarrow> hook_context \<Rightarrow> hook_decision"
where
  "NetworkEgress_call ne brackets_ok corpus ctx =
     (case dget (hc_payload ctx) K_TOOL_NAME of
        PStr tool \<Rightarrow>
          if \<not> is_network_tool tool (ne_network_tools ne) then decision Allow ''network_egress: not a network tool''
          else if leaks corpus (hc_payload ctx) then
            decide Deny SevError ''network_egress: outbound request contains a protected identity/vault secret'' []
          else if hc_agent_type ctx \<noteq> ''coding'' then decision Allow ''network_egress: not a coding-agent dispatch''
          else
            (case hc_persona ctx of
               None \<Rightarrow> decide Deny SevError ''network_egress: coding-agent dispatch missing persona'' []
             | Some persona \<Rightarrow>
               if persona = ''orchestrator'' then
                 decide Deny SevError ''network_egress: orchestrator persona cannot invoke network tools'' []
               else
                 (case ne_policy ne of
                    None \<Rightarrow> decision Allow ''network_egress: no policy loaded (degraded)''
                  | Some doc \<Rightarrow>
                    (case map_of doc persona of
                       None \<Rightarrow> decide Deny SevError (''network_egress: unknown persona '' @ repr_str persona) []
                     | Some pp \<Rightarrow>
                       (case extract_url (hc_payload ctx) of
                          None \<Rightarrow> decide Deny SevError ''network_egress: missing URL in network-tool payload''
                                    [(''tool_name'', PStr tool)]
                        | Some url \<Rightarrow>
                          (case parse_url brackets_ok url of
                             None \<Rightarrow> decide Deny SevError
                               ''network_egress: unparseable_url -- no scheme or netloc''
                               [(''tool_name'', PStr tool), (''url_raw'', PStr url)]
                           | Some (host, clean) \<Rightarrow> host_decision ne pp persona tool host clean)))))
      | _ \<Rightarrow> decision Allow ''network_egress: not a network tool'')"

section \<open>Literals in the printed arguments\<close>

text \<open>The strings a value holds, keys included.\<close>

fun str_leaves :: "pyval \<Rightarrow> string list" where
  "str_leaves (PStr s) = [s]"
| "str_leaves (PList vs) = concat (map str_leaves vs)"
| "str_leaves (PDict d) = concat (map (\<lambda>kv. fst kv # str_leaves (snd kv)) d)"
| "str_leaves _ = []"

text \<open>A character that \<open>repr\<close> prints as it is, whatever the quotes.\<close>

definition printable :: "char \<Rightarrow> bool" where
  "printable c = (let n = of_char c :: nat in 32 \<le> n \<and> n \<noteq> 34 \<and> n \<noteq> 39 \<and> n \<noteq> 92 \<and> \<not> (127 \<le> n \<and> n \<le> 160) \<and> n \<noteq> 173)"

lemma repr_char_printable: "printable c \<Longrightarrow> q = CHR 0x22 \<or> q = CHR 0x27 \<Longrightarrow> repr_char q c = [c]"
  by (auto simp: repr_char_def printable_def Let_def)

lemma concat_repr_printable:
  "\<forall>c \<in> set s. printable c \<Longrightarrow> q = CHR 0x22 \<or> q = CHR 0x27 \<Longrightarrow> concat (map (repr_char q) s) = s"
  by (induction s) (auto simp: repr_char_printable)

lemma py_in_append [intro]: "py_in p s \<Longrightarrow> py_in p (s @ t)" "py_in p t \<Longrightarrow> py_in p (s @ t)"
  unfolding py_in_iff by (metis append.assoc)+

lemma py_in_Cons [intro]: "py_in p t \<Longrightarrow> py_in p (c # t)"
  by simp

lemma repr_str_in:
  assumes "py_in lit s" and "\<forall>c \<in> set lit. printable c"
  shows "py_in lit (repr_str s)"
proof -
  obtain u v where s: "s = u @ lit @ v" using assms(1) by (auto simp: py_in_iff)
  define q where "q = (if char_of (39::nat) \<in> set s \<and> char_of (34::nat) \<notin> set s then char_of (34::nat)
      else char_of (39::nat) :: char)"
  have "char_of (39::nat) = CHR 0x27" "char_of (34::nat) = CHR 0x22" by code_simp+
  then have "q = CHR 0x22 \<or> q = CHR 0x27" by (auto simp: q_def)
  then have "concat (map (repr_char q) s) = concat (map (repr_char q) u) @ lit @ concat (map (repr_char q) v)"
    using concat_repr_printable [OF assms(2)] by (simp add: s)
  then have "py_in lit (concat (map (repr_char q) s))" by (auto simp: py_in_iff)
  then show ?thesis by (simp add: repr_str_def q_def [symmetric] Let_def py_in_append)
qed

lemma py_in_join: "x \<in> set xs \<Longrightarrow> py_in p x \<Longrightarrow> py_in p (join sep xs)"
  by (induction sep xs rule: join.induct) (auto intro: py_in_append)

lemma py_repr_in:
  "s \<in> set (str_leaves v) \<Longrightarrow> py_in lit s \<Longrightarrow> \<forall>c \<in> set lit. printable c \<Longrightarrow> py_in lit (py_repr v)"
proof (induction v arbitrary: s rule: py_repr.induct)
  case (6 xs)
  then obtain x where x: "x \<in> set xs" "s \<in> set (str_leaves x)" by auto
  then have "py_in lit (py_repr x)" using 6 by blast
  then have "py_in lit (join '', '' (map py_repr xs))" using x(1) by (intro py_in_join [of "py_repr x"]) auto
  then show ?case by (simp add: py_in_append)
next
  case (7 d)
  then obtain k x where kv: "(k, x) \<in> set d" "s = k \<or> s \<in> set (str_leaves x)" by auto
  let ?item = "\<lambda>kv. repr_str (fst kv) @ '': '' @ py_repr (snd kv)"
  have "py_in lit (?item (k, x))"
  proof (cases "s = k")
    case True
    then show ?thesis using 7 repr_str_in by (simp add: py_in_append)
  next
    case False
    then have "py_in lit (py_repr x)" using 7 kv by (metis snd_conv)
    then show ?thesis by (simp add: py_in_append)
  qed
  then have "py_in lit (join '', '' (map ?item d))" using kv(1) by (intro py_in_join [of "?item (k, x)"]) (auto intro!: image_eqI)
  then show ?case by (simp add: py_in_append)
qed (auto simp: repr_str_in)

lemma leaks_printable:
  assumes "corpus = Some ls" and "lit \<in> set ls" and "\<forall>c \<in> set lit. printable c" and "dhas payload K_ARGS"
    and "s \<in> set (str_leaves (dget payload K_ARGS))" and "py_in lit s"
  shows "leaks corpus payload"
proof -
  have "py_in lit (py_str (dget payload K_ARGS))"
    using py_repr_in [OF assms(5,6,3)] assms(5,6) by (cases "dget payload K_ARGS") (auto simp: py_str_def)
  then show ?thesis using assms by (auto simp: leaks_def identity_secret_literals_def list_ex_iff)
qed


section \<open>What the guard lets through\<close>

definition network_call :: "network_egress \<Rightarrow> hook_context \<Rightarrow> bool" where
  "network_call ne ctx = (\<exists>tool. dget (hc_payload ctx) K_TOOL_NAME = PStr tool \<and> is_network_tool tool (ne_network_tools ne))"

definition host_ok :: "network_egress \<Rightarrow> persona_policy \<Rightarrow> string \<Rightarrow> bool" where
  "host_ok ne pp host = (host \<in> set (ne_cloud_llm_hostnames ne)
     \<or> (\<exists>pat \<in> set (pp_network_egress_domains pp). fnmatchcase host pat))"

lemma host_decision_allows: "hd_outcome (host_decision ne pp persona tool host clean) = Allow \<longleftrightarrow> host_ok ne pp host"
  by (auto simp: host_decision_def host_ok_def list_ex_iff Let_def)

lemma host_decision_plain: "plain_answer (host_decision ne pp persona tool host clean)"
  by (simp add: host_decision_def plain_answer_def dict_simps Let_def)

lemma network_allows:
  assumes "network_call ne ctx" and "hd_outcome (NetworkEgress_call ne b corpus ctx) = Allow"
  shows "\<not> leaks corpus (hc_payload ctx)"
    and "hc_agent_type ctx = ''coding'' \<Longrightarrow> ne_policy ne = Some doc \<Longrightarrow>
      \<exists>persona pp url host clean. hc_persona ctx = Some persona \<and> persona \<noteq> ''orchestrator'' \<and> map_of doc persona = Some pp
        \<and> extract_url (hc_payload ctx) = Some url \<and> parse_url b url = Some (host, clean) \<and> host_ok ne pp host"
proof -
  obtain tool where tool: "dget (hc_payload ctx) K_TOOL_NAME = PStr tool" "is_network_tool tool (ne_network_tools ne)"
    using assms(1) by (auto simp: network_call_def)
  note c = assms(2) [unfolded NetworkEgress_call_def]
  show nl: "\<not> leaks corpus (hc_payload ctx)" using c tool by (cases "leaks corpus (hc_payload ctx)") simp_all
  assume a: "hc_agent_type ctx = ''coding''" "ne_policy ne = Some doc"
  obtain persona where p: "hc_persona ctx = Some persona" using c tool nl a by (cases "hc_persona ctx") simp_all
  have o: "persona \<noteq> ''orchestrator''" using c tool nl a p by (cases "persona = ''orchestrator''") simp_all
  obtain pp where pp: "map_of doc persona = Some pp" using c tool nl a p o by (cases "map_of doc persona") simp_all
  obtain url where url: "extract_url (hc_payload ctx) = Some url"
    using c tool nl a p o pp by (cases "extract_url (hc_payload ctx)") simp_all
  obtain host clean where host: "parse_url b url = Some (host, clean)"
    using c tool nl a p o pp url by (cases "parse_url b url") auto
  have "host_ok ne pp host" using c tool nl a p o pp url host by (simp add: host_decision_allows)
  then show "\<exists>persona pp url host clean. hc_persona ctx = Some persona \<and> persona \<noteq> ''orchestrator'' \<and> map_of doc persona = Some pp
        \<and> extract_url (hc_payload ctx) = Some url \<and> parse_url b url = Some (host, clean) \<and> host_ok ne pp host"
    using p o pp url host by blast
qed

lemma network_plain: "plain_answer (NetworkEgress_call ne b corpus ctx)"
proof -
  have easy: "plain_answer (decision Allow r)" "plain_answer (decide Deny sev r [])"
      "plain_answer (decide Deny sev r [(''tool_name'', v)])"
      "plain_answer (decide Deny sev r [(''tool_name'', v), (''url_raw'', w)])" for r sev v w
    by (simp_all add: plain_answer_def dict_simps)
  show ?thesis unfolding NetworkEgress_call_def
    by (simp add: easy host_decision_plain split: pyval.split option.split)
qed

interpretation network: refusing_guard "\<lambda>s ctx. Inr (NetworkEgress_call ne b (corpus_of s) ctx)" for ne b corpus_of
  by unfold_locales (auto simp: network_plain)

lemma parse_url_facts:
  assumes "parse_url b url = Some (host, clean)"
  shows "\<forall>c \<in> set host. c \<notin> {CHR ''/'', CHR ''?'', CHR ''#'', CHR ''@''}"
    and "\<forall>c \<in> set clean. c \<noteq> CHR ''?'' \<and> c \<noteq> CHR ''#''"
proof -
  obtain u where u: "urlparse b url = Inr u" "host = hostname u"
      "clean = urlunparse (u\<lparr>su_query := [], su_fragment := []\<rparr>)"
    using assms by (auto simp: parse_url_def split: sum.splits if_splits)
  show "\<forall>c \<in> set host. c \<notin> {CHR ''/'', CHR ''?'', CHR ''#'', CHR ''@''}" unfolding u(2) by (rule hostname_chars [OF u(1)])
  show "\<forall>c \<in> set clean. c \<noteq> CHR ''?'' \<and> c \<noteq> CHR ''#''" unfolding u(3) by (rule urlunparse_bare [OF u(1)])
qed


definition demo_net_policy :: persona_policy where
  "demo_net_policy = \<lparr>pp_name = ''developer'', pp_allowed_tools = [''web_fetch''], pp_fs_read_only = True,
     pp_fs_write_jail = [], pp_command_allowlist = [], pp_command_denylist_args = [],
     pp_command_shell_opt_in = False, pp_network_egress_domains = [''*.example.org''], pp_classes_max = None\<rparr>"

definition demo_egress :: network_egress where
  "demo_egress = \<lparr>ne_policy = Some [(''developer'', demo_net_policy)], ne_network_tools = DEFAULT_NETWORK_TOOLS,
     ne_cloud_llm_hostnames = CLOUD_LLM_HOSTNAMES\<rparr>"

definition demo_fetch :: "string \<Rightarrow> hook_context" where
  "demo_fetch url = (demo_ctx PRE_TOOL_USE [(K_TOOL_NAME, PStr ''web_fetch''), (K_ARGS, PDict [(''url'', PStr url)])] [])
     \<lparr>hc_agent_type := ''coding'', hc_persona := Some ''developer''\<rparr>"

lemma demo_fetches:
  "hd_outcome (NetworkEgress_call demo_egress (\<lambda>_. True) (Some [''s3cret'']) (demo_fetch ''https://u@API.example.org:443/x?q=1'')) = Allow"
  "hd_outcome (NetworkEgress_call demo_egress (\<lambda>_. True) (Some [''s3cret'']) (demo_fetch ''https://api.example.org/s3cret'')) = Deny"
  "hd_outcome (NetworkEgress_call demo_egress (\<lambda>_. True) (Some [''s3cret'']) (demo_fetch ''https://api.example.org@evil.net/'')) = Deny"
  by code_simp+

lemma demo_fetch_is_network: "network_call demo_egress (demo_fetch url)"
proof -
  have "is_network_tool ''web_fetch'' (ne_network_tools demo_egress)" by code_simp
  then show ?thesis by (simp add: network_call_def demo_fetch_def demo_ctx_def dict_simps)
qed


section \<open>Two ways around\<close>

lemma split_at_pair:
  "xs @ c # ys = x0 @ c # c # y0 \<Longrightarrow> c \<notin> set x0 \<Longrightarrow> c \<notin> set y0 \<Longrightarrow>
     (xs = x0 \<and> ys = c # y0) \<or> (xs = x0 @ [c] \<and> ys = y0)"
proof (induction x0 arbitrary: xs)
  case Nil
  then show ?case
  proof (cases xs)
    case (Cons a xs')
    then show ?thesis using Nil by (cases xs') (auto simp: append_eq_Cons_conv)
  qed auto
next
  case (Cons a x0)
  then show ?case by (cases xs) auto
qed

text \<open>A secret with a backslash is not recognised. The guard looks for a literal in the printed form of the
  arguments, where a backslash is doubled: a literal of printable text with a backslash inside leaves in an argument
  that is exactly that literal, from any agent but the coding one, to any host.\<close>

theorem backslash_secret_is_not_recognised:
  assumes "\<forall>c \<in> set (a @ b). printable c" and "a \<noteq> []" and "b \<noteq> []"
      and "hc_agent_type ctx \<noteq> ''coding''"
      and "dget (hc_payload ctx) K_ARGS = PDict [(''q'', PStr (a @ CHR 0x5C # b))]"
  shows "hd_outcome (NetworkEgress_call ne br (Some [a @ CHR 0x5C # b]) ctx) = Allow"
proof -
  let ?lit = "a @ CHR 0x5C # b"
  have bs: "c \<noteq> CHR 0x27 \<and> c \<noteq> CHR 0x22 \<and> c \<noteq> CHR 0x5C" if "printable c" for c
    using that by (auto simp: printable_def)
  have codes: "char_of (39::nat) = CHR 0x27" "char_of (34::nat) = CHR 0x22" "char_of (92::nat) = CHR 0x5C" by code_simp+
  have noquote: "CHR 0x27 \<notin> set ?lit" using assms(1) bs by auto
  have ab: "concat (map (repr_char (CHR 0x27)) a) = a" "concat (map (repr_char (CHR 0x27)) b) = b"
    using assms(1) concat_repr_printable by auto
  have "repr_char (CHR 0x27) (CHR 0x5C) = [CHR 0x5C, CHR 0x5C]" by code_simp
  then have "repr_str ?lit = CHR 0x27 # a @ CHR 0x5C # CHR 0x5C # b @ [CHR 0x27]"
    using noquote by (simp add: repr_str_def codes Let_def ab)
  moreover have "repr_str ''q'' = CHR 0x27 # ''q'' @ [CHR 0x27]" by code_simp
  ultimately have hay: "py_str (dget (hc_payload ctx) K_ARGS) =
      (''{'' @ CHR 0x27 # ''q'' @ CHR 0x27 # '': '' @ CHR 0x27 # a) @ CHR 0x5C # CHR 0x5C # (b @ [CHR 0x27] @ ''}'')"
    by (simp add: assms(5) py_str_def)
  have "\<not> py_in ?lit (py_str (dget (hc_payload ctx) K_ARGS))"
  proof
    assume "py_in ?lit (py_str (dget (hc_payload ctx) K_ARGS))"
    then obtain u v where "py_str (dget (hc_payload ctx) K_ARGS) = u @ (a @ CHR 0x5C # b) @ v" by (auto simp: py_in_iff)
    then have eq: "(u @ a) @ CHR 0x5C # (b @ v) =
        (''{'' @ CHR 0x27 # ''q'' @ CHR 0x27 # '': '' @ CHR 0x27 # a) @ CHR 0x5C # CHR 0x5C # (b @ [CHR 0x27] @ ''}'')"
      using hay by simp
    have "CHR 0x5C \<notin> set (''{'' @ CHR 0x27 # ''q'' @ CHR 0x27 # '': '' @ CHR 0x27 # a)"
      "CHR 0x5C \<notin> set (b @ [CHR 0x27] @ ''}'')" using assms(1) bs by auto
    from split_at_pair [OF eq this] show False
    proof
      assume "u @ a = ''{'' @ CHR 0x27 # ''q'' @ CHR 0x27 # '': '' @ CHR 0x27 # a \<and> b @ v = CHR 0x5C # b @ [CHR 0x27] @ ''}''"
      then have "hd b = CHR 0x5C" using assms(3) by (metis hd_append2 list.sel(1))
      then show False using assms(1,3) bs by (metis Un_iff hd_in_set set_append)
    next
      assume "u @ a = (''{'' @ CHR 0x27 # ''q'' @ CHR 0x27 # '': '' @ CHR 0x27 # a) @ [CHR 0x5C] \<and> b @ v = b @ [CHR 0x27] @ ''}''"
      then have "last a = CHR 0x5C" using assms(2) by (metis last_appendR last_snoc)
      then show False using assms(1,2) bs by (metis Un_iff last_in_set set_append)
    qed
  qed
  then have "\<not> leaks (Some [?lit]) (hc_payload ctx)" by (simp add: leaks_def identity_secret_literals_def)
  then show ?thesis using assms(4) by (simp add: NetworkEgress_call_def split: pyval.split)
qed

definition chat_search :: "string \<Rightarrow> hook_context" where
  "chat_search q = demo_ctx PRE_TOOL_USE [(K_TOOL_NAME, PStr ''web_fetch''), (K_ARGS, PDict [(''q'', PStr q)])] []"

theorem backslash_secret_is_not_recognised_witness:
  "is_network_tool ''web_fetch'' DEFAULT_NETWORK_TOOLS
   \<and> hd_outcome (NetworkEgress_call demo_egress (\<lambda>_. True) (Some [''CORP'' @ CHR 0x5C # ''ada'']) (chat_search (''CORP'' @ CHR 0x5C # ''ada''))) = Allow"
proof -
  have "\<forall>c \<in> set (''CORP'' @ ''ada''). printable c" by code_simp
  moreover have "hc_agent_type (chat_search x) \<noteq> ''coding''" for x by (simp add: chat_search_def demo_ctx_def)
  moreover have "dget (hc_payload (chat_search x)) K_ARGS = PDict [(''q'', PStr x)]" for x
    by (simp add: chat_search_def demo_ctx_def dict_simps)
  moreover have "is_network_tool ''web_fetch'' DEFAULT_NETWORK_TOOLS" by code_simp
  ultimately show ?thesis using backslash_secret_is_not_recognised [of "''CORP''" "''ada''"] by blast
qed

text \<open>The query of a URL is kept out of the ledger only when the URL is well formed. The URL in the audit metadata
  of a decision never holds a query or a fragment; but a URL the guard cannot take apart is put there whole, as
  \<open>url_raw\<close>, with its query.\<close>

theorem audited_url_has_no_query_unless_unparseable:
  assumes "hc_agent_type ctx = ''coding''" and "hc_persona ctx = Some persona" and "persona \<noteq> ''orchestrator''"
      and "ne_policy ne = Some doc" and "map_of doc persona = Some pp" and "network_call ne ctx"
      and "\<not> leaks corpus (hc_payload ctx)" and "extract_url (hc_payload ctx) = Some url"
  shows "(case parse_url b url of
            Some _ \<Rightarrow> \<exists>clean. dget (hd_audit_metadata (NetworkEgress_call ne b corpus ctx)) ''url'' = PStr clean
                        \<and> CHR ''?'' \<notin> set clean \<and> CHR ''#'' \<notin> set clean
                        \<and> \<not> dhas (hd_audit_metadata (NetworkEgress_call ne b corpus ctx)) ''url_raw''
          | None \<Rightarrow> dget (hd_audit_metadata (NetworkEgress_call ne b corpus ctx)) ''url_raw'' = PStr url)"
proof -
  obtain tool where tool: "dget (hc_payload ctx) K_TOOL_NAME = PStr tool" "is_network_tool tool (ne_network_tools ne)"
    using assms(6) by (auto simp: network_call_def)
  show ?thesis
  proof (cases "parse_url b url")
    case None
    then show ?thesis using assms tool by (simp add: NetworkEgress_call_def dict_simps)
  next
    case (Some hc)
    obtain host clean where hc: "hc = (host, clean)" by (cases hc)
    have "NetworkEgress_call ne b corpus ctx = host_decision ne pp persona tool host clean"
      using assms tool Some hc by (simp add: NetworkEgress_call_def)
    moreover have "dget (hd_audit_metadata (host_decision ne pp persona tool host clean)) ''url'' = PStr clean"
      "\<not> dhas (hd_audit_metadata (host_decision ne pp persona tool host clean)) ''url_raw''"
      by (simp_all add: host_decision_def Let_def dict_simps)
    ultimately show ?thesis using parse_url_facts(2) [of b url host clean] Some hc by auto
  qed
qed

theorem audited_url_has_no_query_unless_unparseable_witness:
  "dget (hd_audit_metadata (NetworkEgress_call demo_egress (\<lambda>_. True) None (demo_fetch ''api.example.org/x?token=t''))) ''url_raw''
     = PStr ''api.example.org/x?token=t''
   \<and> dget (hd_audit_metadata (NetworkEgress_call demo_egress (\<lambda>_. True) None (demo_fetch ''https://api.example.org/x?token=t''))) ''url''
     = PStr ''https://api.example.org/x''"
proof
  have base: "hc_agent_type (demo_fetch u) = ''coding''" "hc_persona (demo_fetch u) = Some ''developer''"
      "\<not> leaks None (hc_payload (demo_fetch u))" "ne_policy demo_egress = Some [(''developer'', demo_net_policy)]" for u
    by (simp_all add: demo_fetch_def demo_egress_def leaks_def identity_secret_literals_def)
  have "extract_url (hc_payload (demo_fetch ''api.example.org/x?token=t'')) = Some ''api.example.org/x?token=t''"
    "parse_url (\<lambda>_. True) ''api.example.org/x?token=t'' = None" by code_simp+
  with audited_url_has_no_query_unless_unparseable
    [OF base(1,2) _ base(4) _ demo_fetch_is_network base(3), where pp = demo_net_policy
      and url = "''api.example.org/x?token=t''" and b = "\<lambda>_. True"]
  show "dget (hd_audit_metadata (NetworkEgress_call demo_egress (\<lambda>_. True) None (demo_fetch ''api.example.org/x?token=t''))) ''url_raw''
      = PStr ''api.example.org/x?token=t''" by simp
  show "dget (hd_audit_metadata (NetworkEgress_call demo_egress (\<lambda>_. True) None (demo_fetch ''https://api.example.org/x?token=t''))) ''url''
      = PStr ''https://api.example.org/x''" by code_simp
qed

end
