(* ===== verification/Evaluator_Signals.thy ===== *)
theory Evaluator_Signals
  imports Cost Interfaces
begin

text \<open>
  The signals of the step evaluator (\<open>evaluator/types.py\<close>, \<open>evaluator/signals\<close>), cosine similarity
  (\<open>evaluator/embeddings.py\<close>) and the exemptions an approval teaches (\<open>evaluator/drift_exemptions.py\<close>).

  A signal reads one step and its own dictionary for the run and returns a verdict. The dictionary of a signal is a
  record with the keys any signal uses, a key that is absent being \<open>None\<close>. The embedding model is an argument (a
  third-party network, which may raise), so are the square rt of the floating-point unit, the writer of flagged
  thoughts and the answers of the clock. Everything else a signal can touch is the world \<open>'w\<close>.
\<close>

section \<open>Steps, verdicts and per-run state\<close>

datatype verdict = VOk | VWarn | VRequireApproval | VHalt

fun verdict_value :: "verdict \<Rightarrow> string" where
  "verdict_value VOk = ''ok''"
| "verdict_value VWarn = ''warn''"
| "verdict_value VRequireApproval = ''require_approval''"
| "verdict_value VHalt = ''halt''"

record step_record =
  sr_run_id :: string
  sr_step_id :: int
  sr_agent_type :: string
  sr_thought :: "string option"
  sr_tool_name :: "string option"
  sr_tool_args_hash :: "string option"
  sr_tool_args_text :: "string option"
  sr_tool_error :: "string option"
  sr_tier :: "tier option"
  sr_classification :: "classification option"
  sr_cost_usd :: "rat option"
  sr_original_task :: "string option"
  sr_metadata :: dict

record signal_result =
  rs_name :: string
  rs_verdict :: verdict
  rs_reason :: string
  rs_severity :: severity
  rs_audit_metadata :: dict

definition signal_result_of :: "string \<Rightarrow> verdict \<Rightarrow> string \<Rightarrow> severity \<Rightarrow> dict \<Rightarrow> signal_result" where
  "signal_result_of n v r sev meta =
     \<lparr>rs_name = n, rs_verdict = v, rs_reason = r, rs_severity = sev, rs_audit_metadata = meta\<rparr>"

lemma signal_result_of_simps [simp]:
  "rs_name (signal_result_of n v r sev m) = n" "rs_verdict (signal_result_of n v r sev m) = v"
  "rs_severity (signal_result_of n v r sev m) = sev" "rs_audit_metadata (signal_result_of n v r sev m) = m"
  by (simp_all add: signal_result_of_def)

type_synonym action_key = "string \<times> string"

record drift_exemption =
  dx_exemption_id :: string
  dx_run_id :: string
  dx_step_id :: int
  dx_original_task :: string
  dx_task_vector :: "rat list"
  dx_keywords :: "string list"
  dx_thought :: string
  dx_status :: string
  dx_created_at :: timestamp

record signal_state =
  st_counts :: "(action_key \<times> int) list option"
  st_streak :: "int option"
  st_embeddings :: "(int \<times> string \<times> rat list) list option"
  st_judged_actions :: "action_key list option"
  st_judged_a_step :: bool
  st_original :: "(string \<times> rat list option) option"
  st_approved_exemptions :: "drift_exemption list option"

definition no_state :: signal_state where
  "no_state = \<lparr>st_counts = None, st_streak = None, st_embeddings = None, st_judged_actions = None,
     st_judged_a_step = False, st_original = None, st_approved_exemptions = None\<rparr>"

type_synonym 'w signal_call = "step_record \<Rightarrow> signal_state \<Rightarrow> 'w \<Rightarrow> signal_result result \<times> signal_state \<times> 'w"

record 'w signal =
  sg_name :: string
  sg_priority :: int
  sg_call :: "'w signal_call"

definition dflt :: "'a \<Rightarrow> 'a option \<Rightarrow> 'a" where
  "dflt d x = (case x of None \<Rightarrow> d | Some v \<Rightarrow> v)"

lemma dflt_simps [simp]: "dflt d None = d" "dflt d (Some v) = v"
  by (simp_all add: dflt_def)

definition opt_tier_val :: "tier option \<Rightarrow> pyval" where
  "opt_tier_val t = opt_str (map_option tier_value t)"

definition opt_class_val :: "classification option \<Rightarrow> pyval" where
  "opt_class_val c = opt_str (map_option classification_value c)"

section \<open>The four cheap signals\<close>

definition ClassificationViolation_call :: "step_record \<Rightarrow> signal_result" where
  "ClassificationViolation_call step =
     (let t = sr_tier step; c = sr_classification step in
      if t \<noteq> Some Tier3 \<or> c \<notin> {Some Personal, Some Secret} then
        signal_result_of ''classification_violation'' VOk
          (''classification_violation: tier='' @ py_str (opt_tier_val t) @ '' class='' @ py_str (opt_class_val c) @ '' ok'')
          SevInfo [(''tier'', opt_tier_val t), (''classification'', opt_class_val c)]
      else
        signal_result_of ''classification_violation'' VHalt
          (''classification_violation: classification='' @ py_repr (opt_class_val c)
            @ '' reached tier_3 (cloud) -- should never happen if EgressGate is wired'')
          SevCritical
          [(''tier'', opt_tier_val t), (''classification'', opt_class_val c), (''policy'', PStr ''personal_or_secret_to_cloud'')])"

record step_cap =
  sc_thresholds :: "(string \<times> int) list"
  sc_default :: int

definition DEFAULT_THRESHOLDS :: "(string \<times> int) list" where
  "DEFAULT_THRESHOLDS = [(''chat'', 20), (''coding'', 50)]"

definition new_step_cap :: "(string \<times> int) list option \<Rightarrow> int \<Rightarrow> step_cap" where
  "new_step_cap thresholds default_threshold =
     \<lparr>sc_thresholds = (case thresholds of None \<Rightarrow> DEFAULT_THRESHOLDS
                                        | Some ts \<Rightarrow> if ts = [] then DEFAULT_THRESHOLDS else ts),
      sc_default = default_threshold\<rparr>"

definition threshold_for :: "step_cap \<Rightarrow> string \<Rightarrow> int" where
  "threshold_for sc agent_type = dflt (sc_default sc) (map_of (sc_thresholds sc) agent_type)"

definition StepCap_call :: "step_cap \<Rightarrow> step_record \<Rightarrow> signal_result" where
  "StepCap_call sc step =
     (let threshold = threshold_for sc (sr_agent_type step); i = sr_step_id step in
      if i < threshold then
        signal_result_of ''step_cap'' VOk (''step '' @ show_int i @ ''/'' @ show_int threshold) SevInfo
          [(''step_id'', PInt i), (''threshold'', PInt threshold)]
      else
        signal_result_of ''step_cap'' VHalt
          (''step_cap: step '' @ show_int i @ '' reached threshold '' @ show_int threshold @ '' for agent_type=''
            @ sr_agent_type step) SevWarn
          [(''step_id'', PInt i), (''threshold'', PInt threshold), (''agent_type'', PStr (sr_agent_type step))])"

text \<open>The tool and its arguments as one key, when the step has both.\<close>

definition action_key :: "step_record \<Rightarrow> action_key option" where
  "action_key step =
     (if truthy_str (sr_tool_name step) \<and> truthy_str (sr_tool_args_hash step)
      then Some (the (sr_tool_name step), the (sr_tool_args_hash step)) else None)"

definition new_action_repeat :: "int \<Rightarrow> int result" where
  "new_action_repeat threshold =
     (if threshold < 2 then Raise ''ValueError'' ''action_repeat threshold must be >= 2'' else Inr threshold)"

definition ActionRepeat_call :: "int \<Rightarrow> step_record \<Rightarrow> signal_state \<Rightarrow> signal_result \<times> signal_state" where
  "ActionRepeat_call threshold step st =
     (case action_key step of
        None \<Rightarrow> (signal_result_of ''action_repeat'' VOk ''action_repeat: step had no tool call'' SevInfo [], st)
      | Some key \<Rightarrow>
          let counts = dflt [] (st_counts st);
              count = dflt 0 (map_of counts key) + 1;
              st' = st\<lparr>st_counts := Some (aset key count counts)\<rparr>;
              audit = [(''tool_name'', PStr (fst key)), (''tool_args_hash'', PStr (snd key)),
                       (''count'', PInt count), (''threshold'', PInt threshold)]
          in if threshold \<le> count then
               (signal_result_of ''action_repeat'' VHalt
                  (''action_repeat: tool '' @ repr_str (fst key) @ '' called '' @ show_int count
                    @ '' times with the same args (threshold='' @ show_int threshold @ '')'') SevWarn audit, st')
             else
               (signal_result_of ''action_repeat'' VOk
                  (''action_repeat: '' @ show_int count @ ''/'' @ show_int threshold) SevInfo audit, st'))"

definition new_tool_failure_streak :: "int \<Rightarrow> int result" where
  "new_tool_failure_streak threshold =
     (if threshold < 1 then Raise ''ValueError'' ''tool_failure_streak threshold must be >= 1'' else Inr threshold)"

definition ToolFailureStreak_call :: "int \<Rightarrow> step_record \<Rightarrow> signal_state \<Rightarrow> signal_result \<times> signal_state" where
  "ToolFailureStreak_call threshold step st =
     (if \<not> truthy_str (sr_tool_name step) then
        let current = dflt 0 (st_streak st) in
        (signal_result_of ''tool_failure_streak'' VOk
           (''tool_failure_streak: no tool call (streak='' @ show_int current @ '')'') SevInfo
           [(''streak'', PInt current), (''threshold'', PInt threshold)], st)
      else
        let streak = (if truthy_str (sr_tool_error step) then dflt 0 (st_streak st) + 1 else 0);
            st' = st\<lparr>st_streak := Some streak\<rparr>;
            audit = [(''streak'', PInt streak), (''threshold'', PInt threshold),
                     (''tool_name'', opt_str (sr_tool_name step))]
        in if threshold \<le> streak then
             (signal_result_of ''tool_failure_streak'' VHalt
                (''tool_failure_streak: '' @ show_int streak @ '' consecutive tool errors (threshold=''
                  @ show_int threshold @ '')'') SevError audit, st')
           else
             (signal_result_of ''tool_failure_streak'' VOk
                (''tool_failure_streak: '' @ show_int streak @ ''/'' @ show_int threshold) SevInfo audit, st'))"

section \<open>The budget signal\<close>

record cost_budget =
  cb_cap :: rat
  cb_user_id :: string
  cb_warn_ratio :: rat

definition new_cost_budget :: "rat \<Rightarrow> string \<Rightarrow> rat \<Rightarrow> cost_budget result" where
  "new_cost_budget daily_cap_usd user_id warn_ratio =
     (if daily_cap_usd < 0 then Raise ''ValueError'' ''daily_cap_usd must be >= 0''
      else if \<not> (0 < warn_ratio \<and> warn_ratio \<le> 1) then Raise ''ValueError'' ''warn_ratio must be in (0.0, 1.0]''
      else Inr \<lparr>cb_cap = daily_cap_usd, cb_user_id = user_id, cb_warn_ratio = warn_ratio\<rparr>)"

text \<open>The reading of the ledger may raise; the clock is read inside it.\<close>

definition CostBudget_call :: "cost_budget \<Rightarrow> rat result \<Rightarrow> signal_result result" where
  "CostBudget_call cb spend =
     (if cb_cap cb \<le> 0 then
        Inr (signal_result_of ''cost_budget'' VOk ''cost_budget: cap disabled (<= 0)'' SevInfo [])
      else case spend of
        Inl e \<Rightarrow> Inl e
      | Inr today \<Rightarrow>
          let ratio = today / cb_cap cb;
              audit = [(''today_spend_usd'', PFloat today), (''daily_cap_usd'', PFloat (cb_cap cb)),
                       (''ratio'', PFloat ratio), (''warn_ratio'', PFloat (cb_warn_ratio cb)),
                       (''user_id'', PStr (cb_user_id cb))]
          in if 1 \<le> ratio then
               Inr (signal_result_of ''cost_budget'' VHalt
                 (''cost_budget: today=$'' @ fmt_fixed 4 today @ '' >= cap=$'' @ fmt_fixed 2 (cb_cap cb)
                   @ '' (ratio='' @ fmt_fixed 2 ratio @ '')'') SevCritical audit)
             else if cb_warn_ratio cb \<le> ratio then
               Inr (signal_result_of ''cost_budget'' VWarn
                 (''cost_budget: today=$'' @ fmt_fixed 4 today @ '' approaching cap=$'' @ fmt_fixed 2 (cb_cap cb)
                   @ '' (ratio='' @ fmt_fixed 2 ratio @ '')'') SevWarn audit)
             else
               Inr (signal_result_of ''cost_budget'' VOk
                 (''cost_budget: today=$'' @ fmt_fixed 4 today @ '' / cap=$'' @ fmt_fixed 2 (cb_cap cb)
                   @ '' ('' @ fmt_fixed 2 ratio @ '')'') SevInfo audit))"

section \<open>Similarity\<close>

text \<open>\<open>math.sqrt\<close> rounds its result; it is the argument \<open>rt\<close>.\<close>

fun dot :: "rat list \<Rightarrow> rat list \<Rightarrow> rat" where
  "dot (x # xs) (y # ys) = x * y + dot xs ys"
| "dot _ _ = 0"

definition cosine_similarity :: "(rat \<Rightarrow> rat) \<Rightarrow> rat list \<Rightarrow> rat list \<Rightarrow> rat" where
  "cosine_similarity rt a b =
     (if a = [] \<or> b = [] \<or> length a \<noteq> length b then 0
      else if dot a a = 0 \<or> dot b b = 0 then 0
      else dot a b / (rt (dot a a) * rt (dot b b)))"

fun pairwise_similarities :: "(rat \<Rightarrow> rat) \<Rightarrow> rat list list \<Rightarrow> rat list" where
  "pairwise_similarities rt [] = []"
| "pairwise_similarities rt (v # vs) = map (cosine_similarity rt v) vs @ pairwise_similarities rt vs"

text \<open>A thought a signal flagged, as the writer gets it.\<close>

record flagged_thought =
  ft_run_id :: string
  ft_signal :: string
  ft_step_id :: int
  ft_thought :: string
  ft_embedding :: "rat list"
  ft_classification :: "classification option"
  ft_metadata :: dict

type_synonym 'w flag_writer = "flagged_thought \<Rightarrow> 'w \<Rightarrow> unit result \<times> 'w"

section \<open>Loops\<close>

record loop_detect =
  ld_threshold :: rat
  ld_window :: nat

definition new_loop_detect :: "rat \<Rightarrow> int \<Rightarrow> loop_detect result" where
  "new_loop_detect threshold window =
     (if window < 2 then Raise ''ValueError'' ''loop_detect window must be >= 2''
      else if \<not> (- 1 \<le> threshold \<and> threshold \<le> 1) then
        Raise ''ValueError'' ''loop_detect threshold must be in [-1.0, 1.0]''
      else Inr \<lparr>ld_threshold = threshold, ld_window = nat window\<rparr>)"

definition step_text :: "step_record \<Rightarrow> string \<Rightarrow> string" where
  "step_text step thought =
     (if \<not> truthy_str (sr_tool_name step) then thought
      else thought @ [char_of (10::nat)] @ ''Action: '' @ fmt_opt (sr_tool_name step)
        @ (if truthy_str (sr_tool_args_text step) then '' '' @ fmt_opt (sr_tool_args_text step) else []))"

fun persist_flagged_window ::
  "'w flag_writer option \<Rightarrow> step_record \<Rightarrow> rat \<Rightarrow> (int \<times> string \<times> rat list) list \<Rightarrow> 'w \<Rightarrow> 'w"
where
  "persist_flagged_window None step m buf w = w"
| "persist_flagged_window (Some write) step m [] w = w"
| "persist_flagged_window (Some write) step m ((sid, txt, v) # buf) w =
     (case write \<lparr>ft_run_id = sr_run_id step, ft_signal = ''loop_detect'', ft_step_id = sid, ft_thought = txt,
                  ft_embedding = v, ft_classification = sr_classification step,
                  ft_metadata = [(''min_similarity'', PFloat m)]\<rparr> w of
        (Inl _, w1) \<Rightarrow> w1
      | (Inr _, w1) \<Rightarrow> persist_flagged_window (Some write) step m buf w1)"

text \<open>The last \<open>n\<close> entries of a list: \<open>del buffer[: len(buffer) - n]\<close>.\<close>

definition last_n :: "nat \<Rightarrow> 'a list \<Rightarrow> 'a list" where
  "last_n n xs = drop (length xs - n) xs"

definition LoopDetect_call ::
  "('w \<Rightarrow> string \<Rightarrow> rat list result) \<Rightarrow> (rat \<Rightarrow> rat) \<Rightarrow> 'w flag_writer option \<Rightarrow> loop_detect \<Rightarrow> step_record
    \<Rightarrow> signal_state \<Rightarrow> 'w \<Rightarrow> signal_result \<times> signal_state \<times> 'w"
where
  "LoopDetect_call embedder rt flag ld step st w =
     (let nm = ''loop_detect''; thought = strip (dflt [] (sr_thought step)) in
      if thought = [] then (signal_result_of nm VOk ''loop_detect: step had no thought'' SevInfo [], st, w)
      else let txt = step_text step thought in
      case embedder w txt of
        Inl e \<Rightarrow>
          (signal_result_of nm VWarn (''loop_detect: embedder error ('' @ exn_class e @ '')'') SevWarn
             [(''error'', PStr (exn_msg e))], st, w)
      | Inr v \<Rightarrow>
          if v = [] then (signal_result_of nm VOk ''loop_detect: empty embedding'' SevInfo [], st, w)
          else
            let buffer = last_n (ld_window ld) (dflt [] (st_embeddings st) @ [(sr_step_id step, txt, v)]);
                st' = st\<lparr>st_embeddings := Some buffer\<rparr>
            in if length buffer < ld_window ld then
                 (signal_result_of nm VOk
                    (''loop_detect: '' @ show_nat (length buffer) @ ''/'' @ show_nat (ld_window ld) @ '' steps collected'')
                    SevInfo [(''collected'', PInt (int (length buffer))), (''window'', PInt (int (ld_window ld))),
                             (''threshold'', PFloat (ld_threshold ld))], st', w)
               else
                 let sims = pairwise_similarities rt (map (snd \<circ> snd) buffer);
                     lo = Min (set sims); hi = Max (set sims);
                     audit = [(''step_ids'', PList (map (PInt \<circ> fst) buffer)), (''min_similarity'', PFloat lo),
                              (''max_similarity'', PFloat hi), (''threshold'', PFloat (ld_threshold ld)),
                              (''window'', PInt (int (ld_window ld)))]
                 in if ld_threshold ld \<le> lo then
                      (signal_result_of nm VHalt
                         (''loop_detect: last '' @ show_nat (ld_window ld) @ '' steps pairwise cosine >= ''
                           @ show_rat (ld_threshold ld) @ '' (min='' @ fmt_fixed 3 lo @ '')'') SevWarn audit,
                       st', persist_flagged_window flag step lo buffer w)
                    else
                      (signal_result_of nm VOk
                         (''loop_detect: min pairwise cosine '' @ fmt_fixed 3 lo @ '' < '' @ show_rat (ld_threshold ld))
                         SevInfo audit, st', w))"

section \<open>Exemptions from the drift signal\<close>

definition MIN_SHARED_KEYWORDS :: nat where "MIN_SHARED_KEYWORDS = 2"

definition MIN_COVERAGE :: rat where "MIN_COVERAGE = 6 / 10"

text \<open>\<open>[a-z0-9']+\<close>\<close>

definition word_char :: "char \<Rightarrow> bool" where
  "word_char c = (is_lower_char c \<or> is_digit_char c \<or> c = char_of (39::nat))"

function find_words :: "string \<Rightarrow> string list" where
  "find_words s =
     (let t = dropWhile (Not \<circ> word_char) s in
      if t = [] then [] else takeWhile word_char t # find_words (dropWhile word_char t))"
  by pat_completeness auto
termination
proof (relation "measure length")
  fix s :: string and t
  assume t: "t = dropWhile (Not \<circ> word_char) s" and "t \<noteq> []"
  have "word_char (hd t)" using hd_dropWhile [of "Not \<circ> word_char" s] \<open>t \<noteq> []\<close> by (simp add: t)
  then have "length (dropWhile word_char t) < length t"
    using \<open>t \<noteq> []\<close> by (cases t) (auto intro: le_imp_less_Suc length_dropWhile_le)
  moreover have "length t \<le> length s" by (simp add: t length_dropWhile_le)
  ultimately show "(dropWhile word_char t, s) \<in> measure length" by simp
qed simp

declare find_words.simps [simp del]

definition STOPWORDS :: "string list" where
  "STOPWORDS =
     [''a'', ''an'', ''the'', ''and'', ''or'', ''but'', ''if'', ''then'', ''than'', ''that'', ''this'', ''these'', ''those'',
      ''to'', ''of'', ''in'', ''on'', ''at'', ''for'', ''with'', ''from'', ''by'', ''as'', ''is'', ''are'', ''was'', ''were'',
      ''be'', ''been'', ''being'', ''am'', ''do'', ''does'', ''did'', ''doing'', ''have'', ''has'', ''had'', ''having'',
      ''i'', ''me'', ''my'', ''we'', ''our'', ''you'', ''your'', ''it'', ''its'', ''they'', ''them'', ''their'', ''he'',
      ''she'', ''his'', ''her'', ''not'', ''no'', ''nor'', ''so'', ''such'', ''can'', ''could'', ''will'', ''would'',
      ''shall'', ''should'', ''may'', ''might'', ''must'', ''need'', ''needs'', ''let'', ''lets'', ''now'', ''next'',
      ''also'', ''more'', ''most'', ''some'', ''any'', ''all'', ''each'', ''both'', ''few'', ''other'', ''into'', ''over'',
      ''under'', ''again'', ''further'', ''once'', ''here'', ''there'', ''when'', ''where'', ''why'', ''how'', ''what'',
      ''which'', ''who'', ''whom'', ''about'', ''against'', ''between'', ''through'', ''during'', ''before'', ''after'',
      ''above'', ''below'', ''up'', ''down'', ''out'', ''off'', ''only'', ''own'', ''same'', ''too'', ''very'', ''just'']"

definition extract_keywords :: "string \<Rightarrow> string list" where
  "extract_keywords txt =
     sort (remdups (filter (\<lambda>w. 3 \<le> length w \<and> w \<notin> set STOPWORDS) (find_words (py_lower txt))))"

definition keyword_match :: "drift_exemption \<Rightarrow> string list \<Rightarrow> rat option" where
  "keyword_match x thought_keywords =
     (if dx_keywords x = [] then None
      else let shared = filter (\<lambda>k. k \<in> set thought_keywords) (dx_keywords x) in
        if length shared < MIN_SHARED_KEYWORDS then None
        else let coverage = of_nat (length shared) / of_nat (length (dx_keywords x)) in
             if MIN_COVERAGE \<le> coverage then Some coverage else None)"

type_synonym exemptions_db = "drift_exemption list"

definition record_candidate ::
  "string \<Rightarrow> int \<Rightarrow> string \<Rightarrow> rat list \<Rightarrow> string \<Rightarrow> string \<Rightarrow> timestamp \<Rightarrow> exemptions_db \<Rightarrow> string result \<times> exemptions_db"
where
  "record_candidate run_id step_id original_task task_vector thought fresh now db =
     (if fresh \<in> dx_exemption_id ` set db then
        (Raise ''IntegrityError'' ''UNIQUE constraint failed: drift_exemptions.exemption_id'', db)
      else (Inr fresh,
        db @ [\<lparr>dx_exemption_id = fresh, dx_run_id = run_id, dx_step_id = step_id, dx_original_task = original_task,
               dx_task_vector = task_vector, dx_keywords = extract_keywords thought, dx_thought = thought,
               dx_status = ''pending'', dx_created_at = now\<rparr>]))"

definition settle_run :: "string \<Rightarrow> bool \<Rightarrow> exemptions_db \<Rightarrow> nat \<times> exemptions_db" where
  "settle_run run_id approve db =
     (let hit = (\<lambda>r. dx_run_id r = run_id \<and> dx_status r = ''pending'') in
      (count_where hit db,
       update_where hit (\<lambda>r. r\<lparr>dx_status := (if approve then ''approved'' else ''rejected'')\<rparr>) db))"

definition approved_rows :: "exemptions_db \<Rightarrow> drift_exemption list" where
  "approved_rows db = sort_key dx_created_at (filter (\<lambda>r. dx_status r = ''approved'') db)"

definition all_exemptions :: "exemptions_db \<Rightarrow> drift_exemption list" where
  "all_exemptions db = sort_key dx_created_at db"

definition clear_exemptions :: "exemptions_db \<Rightarrow> nat \<times> exemptions_db" where
  "clear_exemptions db = (length db, [])"

section \<open>Drift\<close>

definition new_goal_drift :: "rat \<Rightarrow> rat result" where
  "new_goal_drift max_distance =
     (if 0 \<le> max_distance \<and> max_distance \<le> 2 then Inr max_distance
      else Raise ''ValueError'' ''goal_drift max_distance must be in [0.0, 2.0]'')"

text \<open>The exemption store as the signal reaches it: its table in the world, a fault that makes every operation raise, and
  what the next insertion reads of the id generator and the clock.\<close>

record 'w exemption_store =
  xs_get :: "'w \<Rightarrow> exemptions_db"
  xs_put :: "exemptions_db \<Rightarrow> 'w \<Rightarrow> 'w"
  xs_fault :: "'w \<Rightarrow> pyexn option"
  xs_fresh :: "'w \<Rightarrow> string"
  xs_now :: "'w \<Rightarrow> timestamp"

definition approved_exemptions ::
  "'w exemption_store option \<Rightarrow> signal_state \<Rightarrow> 'w \<Rightarrow> drift_exemption list \<times> signal_state"
where
  "approved_exemptions store st w =
     (case st_approved_exemptions st of
        Some rows \<Rightarrow> (rows, st)
      | None \<Rightarrow>
          let rows = (case store of
                        None \<Rightarrow> []
                      | Some x \<Rightarrow> if xs_fault x w = None then approved_rows (xs_get x w) else [])
          in (rows, st\<lparr>st_approved_exemptions := Some rows\<rparr>))"

text \<open>The loop of \<open>_matching_exemption\<close>, with the best grant so far.\<close>

fun best_exemption ::
  "(rat \<Rightarrow> rat) \<Rightarrow> rat \<Rightarrow> string list \<Rightarrow> rat list \<Rightarrow> drift_exemption list \<Rightarrow> (drift_exemption \<times> rat) option
    \<Rightarrow> (drift_exemption \<times> rat) option"
where
  "best_exemption rt max_distance kws original [] best = best"
| "best_exemption rt max_distance kws original (x # xs) best =
     best_exemption rt max_distance kws original xs
       (if dx_task_vector x = [] \<or> max_distance < 1 - cosine_similarity rt original (dx_task_vector x) then best
        else case keyword_match x kws of
               None \<Rightarrow> best
             | Some coverage \<Rightarrow>
                 (case best of
                    None \<Rightarrow> Some (x, coverage)
                  | Some b \<Rightarrow> if snd b < coverage then Some (x, coverage) else best))"

definition matching_exemption ::
  "(rat \<Rightarrow> rat) \<Rightarrow> rat \<Rightarrow> 'w exemption_store option \<Rightarrow> string \<Rightarrow> rat list \<Rightarrow> signal_state \<Rightarrow> 'w
    \<Rightarrow> (drift_exemption \<times> rat) option \<times> signal_state"
where
  "matching_exemption rt max_distance store thought original st w =
     (let (rows, st') = approved_exemptions store st w; kws = extract_keywords thought in
      (if rows = [] \<or> kws = [] then None else best_exemption rt max_distance kws original rows None, st'))"

definition bank_candidate :: "'w exemption_store option \<Rightarrow> step_record \<Rightarrow> string \<Rightarrow> rat list \<Rightarrow> 'w \<Rightarrow> 'w" where
  "bank_candidate store step thought original w =
     (case store of
        None \<Rightarrow> w
      | Some x \<Rightarrow>
          if xs_fault x w \<noteq> None then w
          else xs_put x (snd (record_candidate (sr_run_id step) (sr_step_id step)
                 (strip (dflt [] (sr_original_task step))) original thought (xs_fresh x w) (xs_now x w) (xs_get x w))) w)"

definition resolve_original_vector ::
  "(string \<Rightarrow> rat list result) \<Rightarrow> string \<Rightarrow> signal_state \<Rightarrow> rat list option \<times> signal_state"
where
  "resolve_original_vector emb original st =
     (let fresh = (case emb original of
                     Inl _ \<Rightarrow> (None, st\<lparr>st_original := Some (original, None)\<rparr>)
                   | Inr v \<Rightarrow> if v = [] then (None, st\<lparr>st_original := Some (original, None)\<rparr>)
                             else (Some v, st\<lparr>st_original := Some (original, Some v)\<rparr>))
      in case st_original st of
           Some (t, Some v) \<Rightarrow> if t = original then (Some v, st) else fresh
         | _ \<Rightarrow> fresh)"

definition persist_flagged_thought ::
  "'w flag_writer option \<Rightarrow> step_record \<Rightarrow> string \<Rightarrow> rat list \<Rightarrow> rat \<Rightarrow> 'w \<Rightarrow> 'w"
where
  "persist_flagged_thought flag step thought v distance w =
     (case flag of
        None \<Rightarrow> w
      | Some write \<Rightarrow>
          snd (write \<lparr>ft_run_id = sr_run_id step, ft_signal = ''goal_drift'', ft_step_id = sr_step_id step,
                      ft_thought = thought, ft_embedding = v, ft_classification = sr_classification step,
                      ft_metadata = [(''distance'', PFloat distance)]\<rparr> w))"

text \<open>A step beyond the threshold: an approved exemption lets it pass, else the thought is flagged and banked.\<close>

definition judge_distance ::
  "(rat \<Rightarrow> rat) \<Rightarrow> 'w flag_writer option \<Rightarrow> 'w exemption_store option \<Rightarrow> rat \<Rightarrow> step_record \<Rightarrow> string \<Rightarrow> rat list
    \<Rightarrow> rat list \<Rightarrow> signal_state \<Rightarrow> 'w \<Rightarrow> signal_result \<times> signal_state \<times> 'w"
where
  "judge_distance rt flag store max_distance step thought original v st w =
     (let similarity = cosine_similarity rt original v; distance = 1 - similarity;
          audit = [(''similarity'', PFloat similarity), (''distance'', PFloat distance),
                   (''max_distance'', PFloat max_distance)]
      in if max_distance < distance then
           (case matching_exemption rt max_distance store thought original st w of
              (Some (x, coverage), st') \<Rightarrow>
                (signal_result_of ''goal_drift'' VOk
                   (''goal_drift: distance '' @ fmt_fixed 3 distance @ '' > '' @ show_rat max_distance
                     @ '', allowed by an approved exemption ('' @ dx_exemption_id x @ '')'') SevInfo
                   (dmerge audit [(''exemption_id'', PStr (dx_exemption_id x)), (''exemption_run_id'', PStr (dx_run_id x)),
                      (''keyword_coverage'', PFloat coverage)]), st', w)
            | (None, st') \<Rightarrow>
                (signal_result_of ''goal_drift'' VRequireApproval
                   (''goal_drift: thought drifted from original task (distance='' @ fmt_fixed 3 distance @ '' > ''
                     @ show_rat max_distance @ '')'') SevWarn audit, st',
                 bank_candidate store step thought original (persist_flagged_thought flag step thought v distance w)))
         else
           (signal_result_of ''goal_drift'' VOk
              (''goal_drift: distance '' @ fmt_fixed 3 distance @ '' <= '' @ show_rat max_distance) SevInfo audit, st, w))"

definition judged :: "signal_state \<Rightarrow> action_key list" where
  "judged st = dflt [] (st_judged_actions st)"

definition add_judged :: "action_key option \<Rightarrow> signal_state \<Rightarrow> signal_state" where
  "add_judged key st =
     (case key of None \<Rightarrow> st | Some k \<Rightarrow> st\<lparr>st_judged_actions := Some (List.insert k (judged st))\<rparr>)"

definition GoalDrift_call ::
  "('w \<Rightarrow> string \<Rightarrow> rat list result) \<Rightarrow> (rat \<Rightarrow> rat) \<Rightarrow> 'w flag_writer option \<Rightarrow> 'w exemption_store option \<Rightarrow> rat
    \<Rightarrow> step_record \<Rightarrow> signal_state \<Rightarrow> 'w \<Rightarrow> signal_result \<times> signal_state \<times> 'w"
where
  "GoalDrift_call embedder rt flag store max_distance step st0 w =
     (let nm = ''goal_drift''; thought = strip (dflt [] (sr_thought step));
          original = strip (dflt [] (sr_original_task step)); key = action_key step;
          st = st0\<lparr>st_judged_actions := Some (judged st0)\<rparr>
      in if original = [] then
           (signal_result_of nm VOk ''goal_drift: no original_task supplied by caller'' SevInfo [], st0, w)
         else if thought = [] then (signal_result_of nm VOk ''goal_drift: step had no thought'' SevInfo [], st0, w)
         else if (case key of None \<Rightarrow> False | Some k \<Rightarrow> k \<in> set (judged st)) then
           (signal_result_of nm VOk
              (''goal_drift: repeat of an already-judged action ('' @ fmt_opt (sr_tool_name step)
                @ '') -- action_repeat owns this case'') SevInfo
              [(''skipped'', PStr ''repeat_action''), (''tool_name'', opt_str (sr_tool_name step)),
               (''tool_args_hash'', opt_str (sr_tool_args_hash step))], st, w)
         else if \<not> st_judged_a_step st then
           (signal_result_of nm VOk ''goal_drift: first step of the run -- no trajectory to drift from'' SevInfo
              [(''skipped'', PStr ''first_step'')], add_judged key (st\<lparr>st_judged_a_step := True\<rparr>), w)
         else
           case resolve_original_vector (embedder w) original st of
             (None, st') \<Rightarrow> (signal_result_of nm VWarn ''goal_drift: could not embed original_task'' SevWarn [], st', w)
           | (Some ov, st') \<Rightarrow>
               (case embedder w thought of
                  Inl e \<Rightarrow>
                    (signal_result_of nm VWarn (''goal_drift: embedder error ('' @ exn_class e @ '')'') SevWarn
                       [(''error'', PStr (exn_msg e))], st', w)
                | Inr v \<Rightarrow>
                    if v = [] then (signal_result_of nm VOk ''goal_drift: empty thought embedding'' SevInfo [], st', w)
                    else judge_distance rt flag store max_distance step thought ov v (add_judged key st') w))"

section \<open>What the exemption store promises\<close>

datatype exemption_op =
    RecordCandidate string int string "rat list" string string timestamp
  | SettleRun string bool
  | ClearExemptions

fun exemption_next :: "exemptions_db \<Rightarrow> exemption_op \<Rightarrow> exemptions_db" where
  "exemption_next db (RecordCandidate run_id step_id task v thought fresh now) =
     snd (record_candidate run_id step_id task v thought fresh now db)"
| "exemption_next db (SettleRun run_id approve) = snd (settle_run run_id approve db)"
| "exemption_next db ClearExemptions = snd (clear_exemptions db)"

definition STATUSES :: "string set" where
  "STATUSES = {''pending'', ''approved'', ''rejected''}"

definition exemptions_ok :: "exemptions_db \<Rightarrow> bool" where
  "exemptions_ok db \<longleftrightarrow> distinct (map dx_exemption_id db)
     \<and> (\<forall>r \<in> set db. dx_status r \<in> STATUSES \<and> dx_keywords r = extract_keywords (dx_thought r))"

lemma exemption_inv: "exemptions_ok db \<Longrightarrow> exemptions_ok (exemption_next db a)"
  by (cases a) (auto simp: exemptions_ok_def record_candidate_def settle_run_def clear_exemptions_def Let_def
      set_update_where STATUSES_def)

interpretation exemptions: invariant_system exemption_next exemptions_ok
  by unfold_locales (rule exemption_inv)

definition exemption_of :: "string \<Rightarrow> exemptions_db \<Rightarrow> drift_exemption option" where
  "exemption_of i db = lookup_by dx_exemption_id i db"

lemma exemption_of_next:
  "exemption_of i (exemption_next db a) =
     (case a of
        RecordCandidate run_id step_id task v thought fresh now \<Rightarrow>
          (case exemption_of i db of
             Some r \<Rightarrow> Some r
           | None \<Rightarrow> if i = fresh \<and> fresh \<notin> dx_exemption_id ` set db then
               Some \<lparr>dx_exemption_id = fresh, dx_run_id = run_id, dx_step_id = step_id, dx_original_task = task,
                     dx_task_vector = v, dx_keywords = extract_keywords thought, dx_thought = thought,
                     dx_status = ''pending'', dx_created_at = now\<rparr> else None)
      | SettleRun run_id approve \<Rightarrow>
          map_option (\<lambda>r. if dx_run_id r = run_id \<and> dx_status r = ''pending''
                          then r\<lparr>dx_status := (if approve then ''approved'' else ''rejected'')\<rparr> else r) (exemption_of i db)
      | ClearExemptions \<Rightarrow> None)"
  by (cases a) (auto simp: exemption_of_def record_candidate_def settle_run_def clear_exemptions_def Let_def
      lookup_by_update_where split: option.splits)

text \<open>A refused thought stays refused: once an exemption is rejected, no later operation makes it approved.\<close>

definition refused :: "string \<Rightarrow> exemptions_db \<Rightarrow> bool" where
  "refused i db \<longleftrightarrow> (\<forall>r. exemption_of i db = Some r \<longrightarrow> dx_status r = ''rejected'')"

definition recorded_as :: "exemption_op \<Rightarrow> string option" where
  "recorded_as a = (case a of RecordCandidate _ _ _ _ _ fresh _ \<Rightarrow> Some fresh | _ \<Rightarrow> None)"

lemma refused_next: "refused i db \<Longrightarrow> recorded_as a \<noteq> Some i \<Longrightarrow> refused i (exemption_next db a)"
  unfolding refused_def exemption_of_next
  by (cases a) (auto simp: recorded_as_def split: option.splits)

lemma refused_stays:
  assumes "refused i db" and "\<forall>a \<in> set ops. recorded_as a \<noteq> Some i"
  shows "refused i (run_ops exemption_next db ops)"
  using assms by (induction ops arbitrary: db) (auto simp: refused_next)

lemma refused_not_approved: "distinct (map dx_exemption_id db) \<Longrightarrow> refused i db \<Longrightarrow> i \<notin> dx_exemption_id ` set (approved_rows db)"
  by (auto simp: refused_def approved_rows_def exemption_of_def lookup_by_distinct)

section \<open>What lets a drifting thought pass\<close>

text \<open>A grant covers a thought: it is close enough to this task and shares enough of the words of the approved thought.\<close>

definition covers :: "(rat \<Rightarrow> rat) \<Rightarrow> rat \<Rightarrow> string list \<Rightarrow> rat list \<Rightarrow> drift_exemption \<Rightarrow> bool" where
  "covers rt max_distance kws original x \<longleftrightarrow>
     dx_task_vector x \<noteq> [] \<and> 1 - cosine_similarity rt original (dx_task_vector x) \<le> max_distance
     \<and> 2 \<le> length (filter (\<lambda>k. k \<in> set kws) (dx_keywords x))
     \<and> 6 * length (dx_keywords x) \<le> 10 * length (filter (\<lambda>k. k \<in> set kws) (dx_keywords x))"

lemma keyword_match_covers:
  assumes "keyword_match x kws = Some c"
  shows "2 \<le> length (filter (\<lambda>k. k \<in> set kws) (dx_keywords x))
    \<and> 6 * length (dx_keywords x) \<le> 10 * length (filter (\<lambda>k. k \<in> set kws) (dx_keywords x))"
proof -
  let ?n = "length (filter (\<lambda>k. k \<in> set kws) (dx_keywords x))" and ?m = "length (dx_keywords x)"
  have pos: "0 < ?m" and two: "2 \<le> ?n" and cov: "(6 / 10 :: rat) \<le> of_nat ?n / of_nat ?m"
    using assms by (auto simp: keyword_match_def Let_def MIN_SHARED_KEYWORDS_def MIN_COVERAGE_def split: if_splits)
  from cov pos have "(6 :: rat) * of_nat ?m \<le> 10 * of_nat ?n" by (simp add: field_simps)
  then have "(of_nat (6 * ?m) :: rat) \<le> of_nat (10 * ?n)" by simp
  then show ?thesis using two by (simp only: of_nat_le_iff)
qed

lemma best_exemption_covers:
  assumes "best_exemption rt md kws original xs best = Some (x, c)"
  shows "best = Some (x, c) \<or> x \<in> set xs \<and> covers rt md kws original x"
  using assms
proof (induction xs arbitrary: best)
  case Nil
  then show ?case by simp
next
  case (Cons y ys)
  let ?b = "if dx_task_vector y = [] \<or> md < 1 - cosine_similarity rt original (dx_task_vector y) then best
        else case keyword_match y kws of None \<Rightarrow> best | Some coverage \<Rightarrow>
          (case best of None \<Rightarrow> Some (y, coverage) | Some b \<Rightarrow> if snd b < coverage then Some (y, coverage) else best)"
  have "?b = Some (x, c) \<or> x \<in> set ys \<and> covers rt md kws original x" using Cons.IH [of ?b] Cons.prems by simp
  moreover have "?b = best \<or> covers rt md kws original y \<and> (\<exists>q. ?b = Some (y, q))"
    using keyword_match_covers [of y kws] by (auto simp: covers_def not_less split: option.splits)
  ultimately show ?case by auto
qed

lemma matching_exemption_covers:
  assumes "matching_exemption rt md store thought original st w = (Some (x, c), st')"
  shows "x \<in> set (fst (approved_exemptions store st w)) \<and> covers rt md (extract_keywords thought) original x"
  using assms best_exemption_covers [of rt md "extract_keywords thought" original _ None x c]
  by (auto simp: matching_exemption_def Let_def split: prod.splits if_splits)

lemma judge_distance_ok:
  assumes "judge_distance rt flag store md step thought original v st w = (r, st', w')" and "rs_verdict r \<noteq> VRequireApproval"
  shows "rs_verdict r = VOk \<and> w' = w
    \<and> (1 - cosine_similarity rt original v \<le> md
       \<or> (\<exists>x \<in> set (fst (approved_exemptions store st w)). covers rt md (extract_keywords thought) original x))"
  using assms matching_exemption_covers [of rt md store thought original st w]
  by (fastforce simp: judge_distance_def Let_def split: if_splits prod.splits option.splits)

text \<open>A drifting thought needs a grant that still stands. Take a step that the drift signal judges (it has a
  thought and a task, does not repeat a judged call and is not the first), whose thought is further from the task than
  the threshold, in a run that reads the exemption table as any sequence of recordings, settlements and clearings left
  it. Either the signal asks for approval, or a row of the table that is approved covers the thought: it was given on a
  task within the threshold of this one, and the thought has at least two and at least six tenths of the words of the
  approved thought. A thought the person refused is never that row, whatever was approved later.\<close>

theorem drifting_thought_needs_a_grant:
  assumes call: "GoalDrift_call embedder rt flag (Some store) md step st w = (r, st', w')"
      and thought: "thought = strip (dflt [] (sr_thought step))" "thought \<noteq> []"
      and task: "original = strip (dflt [] (sr_original_task step))" "original \<noteq> []"
      and judged: "st_judged_a_step st" "\<forall>k. action_key step = Some k \<longrightarrow> k \<notin> set (judged st)"
      and fresh: "st_original st = None" "st_approved_exemptions st = None"
      and emb: "embedder w original = Inr ov" "ov \<noteq> []" "embedder w thought = Inr v" "v \<noteq> []"
      and far: "md < 1 - cosine_similarity rt ov v"
      and table: "xs_get store w = run_ops exemption_next db ops" "exemptions_ok db"
      and refusal: "refused i db" "\<forall>a \<in> set ops. recorded_as a \<noteq> Some i"
  shows "rs_verdict r = VRequireApproval
    \<or> rs_verdict r = VOk \<and> (\<exists>x \<in> set (xs_get store w). dx_status x = ''approved'' \<and> dx_exemption_id x \<noteq> i
        \<and> covers rt md (extract_keywords thought) ov x)"
proof (cases "rs_verdict r = VRequireApproval")
  case False
  let ?st = "st\<lparr>st_judged_actions := Some (judged st), st_original := Some (original, Some ov)\<rparr>"
  have j: "(case action_key step of None \<Rightarrow> False
      | Some k \<Rightarrow> k \<in> set (judged (st\<lparr>st_judged_actions := Some (judged st)\<rparr>))) = False"
    using judged(2) by (auto simp: judged_def split: option.splits)
  have "judge_distance rt flag (Some store) md step thought ov v (add_judged (action_key step) ?st) w = (r, st', w')"
    using call judged(1) thought(2) task(2) emb fresh(1)
    by (simp add: GoalDrift_call_def Let_def thought(1) [symmetric] task(1) [symmetric] j resolve_original_vector_def)
  then obtain x where ok: "rs_verdict r = VOk" and
      x: "x \<in> set (fst (approved_exemptions (Some store) (add_judged (action_key step) ?st) w))"
        "covers rt md (extract_keywords thought) ov x"
    using judge_distance_ok False far by (metis not_less)
  have "st_approved_exemptions (add_judged (action_key step) ?st) = None"
    using fresh(2) by (simp add: add_judged_def split: option.splits)
  then have row: "x \<in> set (approved_rows (xs_get store w))"
    using x(1) by (auto simp: approved_exemptions_def Let_def split: if_splits)
  have "distinct (map dx_exemption_id (xs_get store w))"
    using exemptions.run_inv [OF table(2), of ops] by (simp add: table(1) exemptions_ok_def)
  moreover have "refused i (xs_get store w)" unfolding table(1) by (rule refused_stays [OF refusal])
  ultimately have "dx_exemption_id x \<noteq> i" using refused_not_approved row by blast
  then show ?thesis using ok x(2) row by (auto simp: approved_rows_def)
qed simp

text \<open>A refused thought and an approved one of another run: the later approval of the run that refused changes nothing,
  and the same words on a close task pass.\<close>

definition demo_thought :: string where
  "demo_thought = ''search the inbox for unpaid invoices''"

definition demo_exemption_ops :: "exemption_op list" where
  "demo_exemption_ops =
     [RecordCandidate ''run2'' 3 ''how does my day look'' [1] demo_thought ''x2'' 10, SettleRun ''run2'' True,
      SettleRun ''run1'' True]"

definition demo_refused :: drift_exemption where
  "demo_refused = \<lparr>dx_exemption_id = ''x1'', dx_run_id = ''run1'', dx_step_id = 2, dx_original_task = ''how does my day look'',
     dx_task_vector = [1], dx_keywords = extract_keywords demo_thought, dx_thought = demo_thought,
     dx_status = ''rejected'', dx_created_at = 5\<rparr>"

definition demo_exemptions :: "exemptions_db exemption_store" where
  "demo_exemptions = \<lparr>xs_get = (\<lambda>w. w), xs_put = (\<lambda>db _. db), xs_fault = (\<lambda>_. None), xs_fresh = (\<lambda>_. ''x3''),
     xs_now = (\<lambda>_. 20)\<rparr>"

definition demo_embedder :: "exemptions_db \<Rightarrow> string \<Rightarrow> rat list result" where
  "demo_embedder _ txt = Inr [if txt = demo_thought then - 1 else 1]"

definition demo_step :: step_record where
  "demo_step = \<lparr>sr_run_id = ''run3'', sr_step_id = 4, sr_agent_type = ''chat'', sr_thought = Some demo_thought,
     sr_tool_name = Some ''search_inbox'', sr_tool_args_hash = Some ''h1'', sr_tool_args_text = None, sr_tool_error = None,
     sr_tier = None, sr_classification = None, sr_cost_usd = None, sr_original_task = Some ''plan my day'',
     sr_metadata = []\<rparr>"

definition demo_drift_state :: signal_state where
  "demo_drift_state = no_state\<lparr>st_judged_a_step := True\<rparr>"

definition demo_drift :: "signal_result \<times> signal_state \<times> exemptions_db" where
  "demo_drift = GoalDrift_call demo_embedder (\<lambda>q. q) None (Some demo_exemptions) (9 / 10) demo_step demo_drift_state
     (run_ops exemption_next [demo_refused] demo_exemption_ops)"

theorem drifting_thought_needs_a_grant_witness:
  "rs_verdict (fst demo_drift) = VOk
   \<and> (\<exists>x \<in> set (run_ops exemption_next [demo_refused] demo_exemption_ops). dx_status x = ''approved''
        \<and> dx_exemption_id x \<noteq> ''x1'' \<and> covers (\<lambda>q. q) (9 / 10) (extract_keywords demo_thought) [1] x)"
proof -
  have v: "rs_verdict (fst demo_drift) = VOk" by code_simp
  have strips: "demo_thought = strip (dflt [] (sr_thought demo_step))" "demo_thought \<noteq> []"
    "''plan my day'' = strip (dflt [] (sr_original_task demo_step))" by code_simp+
  have st: "st_judged_a_step demo_drift_state" "st_original demo_drift_state = None"
    "st_approved_exemptions demo_drift_state = None" "judged demo_drift_state = []"
    by (simp_all add: demo_drift_state_def no_state_def judged_def)
  have ok: "exemptions_ok [demo_refused]" by (simp add: exemptions_ok_def demo_refused_def STATUSES_def)
  have ref: "refused ''x1'' [demo_refused]" by (simp add: refused_def exemption_of_def demo_refused_def)
  have ops: "\<forall>a \<in> set demo_exemption_ops. recorded_as a \<noteq> Some ''x1''"
    by (simp add: demo_exemption_ops_def recorded_as_def)
  have embeds: "demo_embedder w ''plan my day'' = Inr [1]" "demo_embedder w demo_thought = Inr [- 1]" for w
    by (simp_all add: demo_embedder_def demo_thought_def)
  have far: "9 / 10 < 1 - cosine_similarity (\<lambda>q. q) [1] [- 1]" by (simp add: cosine_similarity_def)
  obtain r st' w' where call: "demo_drift = (r, st', w')" by (metis surj_pair)
  have get: "xs_get demo_exemptions w = w" for w by (simp add: demo_exemptions_def)
  have "rs_verdict r = VOk" using v unfolding call by (simp only: fst_conv)
  then show ?thesis
    using drifting_thought_needs_a_grant [OF call [unfolded demo_drift_def] strips(1,2,3) _ st(1) _ st(2,3)
        embeds(1) _ embeds(2) _ far get ok ref ops] v st(4) by (simp add: get)
qed

end
