(* ===== verification/Evaluator.thy ===== *)
theory Evaluator
  imports Evaluator_Signals Destructive_Approval
begin

text \<open>
  The step evaluator: the registry that asks every signal and keeps their per-run state (\<open>evaluator/registry.py\<close>),
  the remote client with the same surface (\<open>evaluator/client.py\<close>), the hook that turns the worst verdict into a
  decision and an approval (\<open>evaluator/hook.py\<close>), and the registry the wiring builds
  (\<open>_build_default_evaluator_registry\<close>).

  The signals of a registry are fixed once it is locked; what changes is the state of every run and signal, a function
  that is \<open>no_state\<close> where the code's default dictionary has no entry yet. The remote service is an argument: what it
  answers to a request, or that it cannot be reached.
\<close>

section \<open>The registry\<close>

record 'w registry =
  er_signals :: "'w signal list"
  er_init_locked :: bool

definition new_registry :: "'w registry" where
  "new_registry = \<lparr>er_signals = [], er_init_locked = False\<rparr>"

definition register_signal :: "'w signal \<Rightarrow> 'w registry \<Rightarrow> 'w registry result" where
  "register_signal sg reg =
     (if er_init_locked reg then
        Raise ''EvaluatorRegistryLockedError''
          (''signal '' @ repr_str (sg_name sg) @ '' cannot be registered after init_lock(); ''
            @ ''registration is frozen at process start (design '' @ [CHR 0xA7] @ ''5.3).'')
      else Inr (reg\<lparr>er_signals := sort_key sg_priority (er_signals reg @ [sg])\<rparr>))"

definition registry_init_lock :: "'w registry \<Rightarrow> 'w registry" where
  "registry_init_lock reg = reg\<lparr>er_init_locked := True\<rparr>"

definition signal_count :: "'w registry \<Rightarrow> int" where
  "signal_count reg = int (length (er_signals reg))"

type_synonym run_states = "string \<Rightarrow> string \<Rightarrow> signal_state"

definition no_states :: run_states where
  "no_states = (\<lambda>_ _. no_state)"

definition reset_run_state :: "string \<Rightarrow> run_states \<Rightarrow> run_states" where
  "reset_run_state run_id rs = rs(run_id := (\<lambda>_. no_state))"

text \<open>The result for a signal that raised.\<close>

definition raised_result :: "string \<Rightarrow> pyexn \<Rightarrow> signal_result" where
  "raised_result n e =
     signal_result_of n VHalt (''signal '' @ repr_str n @ '' raised: '' @ exn_class e) SevError
       [(''exception'', PStr (exn_msg e))]"

text \<open>The loop of \<open>evaluate\<close>, on the states of the step's run.\<close>

fun evaluate_loop ::
  "'w signal list \<Rightarrow> step_record \<Rightarrow> (string \<Rightarrow> signal_state) \<Rightarrow> 'w \<Rightarrow> signal_result list \<times> (string \<Rightarrow> signal_state) \<times> 'w"
where
  "evaluate_loop [] step sts w = ([], sts, w)"
| "evaluate_loop (sg # sgs) step sts w =
     (case sg_call sg step (sts (sg_name sg)) w of
        (r, st', w1) \<Rightarrow>
          (case evaluate_loop sgs step (sts(sg_name sg := st')) w1 of
             (rs, sts', w2) \<Rightarrow>
               ((case r of Inl e \<Rightarrow> raised_result (sg_name sg) e | Inr x \<Rightarrow> x) # rs, sts', w2)))"

definition evaluate ::
  "'w signal list \<Rightarrow> step_record \<Rightarrow> run_states \<times> 'w \<Rightarrow> signal_result list \<times> run_states \<times> 'w"
where
  "evaluate sgs step s =
     (case evaluate_loop sgs step (fst s (sr_run_id step)) (snd s) of
        (results, sts', w') \<Rightarrow> (results, (fst s)(sr_run_id step := sts'), w'))"

fun verdict_rank :: "verdict \<Rightarrow> nat" where
  "verdict_rank VOk = 0"
| "verdict_rank VWarn = 1"
| "verdict_rank VRequireApproval = 2"
| "verdict_rank VHalt = 3"

text \<open>\<open>max(results, key=...)\<close>: the first of the worst.\<close>

definition worst :: "signal_result list \<Rightarrow> signal_result option" where
  "worst results =
     (case results of
        [] \<Rightarrow> None
      | r # rs \<Rightarrow>
          Some (foldl (\<lambda>b x. if verdict_rank (rs_verdict b) < verdict_rank (rs_verdict x) then x else b) r rs))"

section \<open>Backends\<close>

record 'v backend =
  eb_signal_count :: "'v \<Rightarrow> int result \<times> 'v"
  eb_evaluate :: "step_record \<Rightarrow> 'v \<Rightarrow> signal_result list \<times> 'v"
  eb_reset_run_state :: "string \<Rightarrow> 'v \<Rightarrow> 'v"

text \<open>The registry in the process; its states and the signals' world are a part of the hook's world.\<close>

definition local_backend ::
  "('v \<Rightarrow> run_states \<times> 'w) \<Rightarrow> (run_states \<times> 'w \<Rightarrow> 'v \<Rightarrow> 'v) \<Rightarrow> 'w registry \<Rightarrow> 'v backend"
where
  "local_backend get_s put_s reg =
     \<lparr>eb_signal_count = (\<lambda>v. (Inr (signal_count reg), v)),
      eb_evaluate = (\<lambda>step v. case evaluate (er_signals reg) step (get_s v) of (results, s') \<Rightarrow> (results, put_s s' v)),
      eb_reset_run_state = (\<lambda>run_id v. put_s (reset_run_state run_id (fst (get_s v)), snd (get_s v)) v)\<rparr>"

text \<open>What an HTTP request to the remote evaluator gives: a decoded body, or an error of the request, of its status or of
  the decoding.\<close>

datatype http_reply = Unreachable string | Body pyval

record 'v remote_service =
  sv_evaluate :: "step_record \<Rightarrow> 'v \<Rightarrow> http_reply \<times> 'v"
  sv_reset :: "string \<Rightarrow> 'v \<Rightarrow> 'v"
  sv_healthz :: "'v \<Rightarrow> http_reply \<times> 'v"

definition unavailable_result :: "tier option \<Rightarrow> string \<Rightarrow> signal_result" where
  "unavailable_result t err =
     (if t = Some Tier3 then
        signal_result_of ''evaluator_unavailable'' VHalt
          (''remote evaluator unavailable on cloud route (tier_3); fail-closed: '' @ err) SevCritical
          [(''error'', PStr err), (''tier'', opt_tier_val t), (''posture'', PStr ''fail-closed'')]
      else
        signal_result_of ''evaluator_unavailable'' VWarn
          (''remote evaluator unavailable on local route (tier='' @ py_str (opt_tier_val t) @ ''); fail-open: '' @ err) SevWarn
          [(''error'', PStr err), (''tier'', opt_tier_val t), (''posture'', PStr ''fail-open'')])"

fun validate_all :: "(pyval \<Rightarrow> signal_result result) \<Rightarrow> pyval list \<Rightarrow> signal_result list result" where
  "validate_all validate [] = Inr []"
| "validate_all validate (x # xs) =
     (case validate x of
        Inl e \<Rightarrow> Inl e
      | Inr r \<Rightarrow> (case validate_all validate xs of Inl e \<Rightarrow> Inl e | Inr rs \<Rightarrow> Inr (r # rs)))"

definition remote_evaluate ::
  "(pyval \<Rightarrow> signal_result result) \<Rightarrow> 'v remote_service \<Rightarrow> step_record \<Rightarrow> 'v \<Rightarrow> signal_result list \<times> 'v"
where
  "remote_evaluate validate sv step v =
     (case sv_evaluate sv step v of
        (Unreachable err, v') \<Rightarrow> ([unavailable_result (sr_tier step) err], v')
      | (Body body, v') \<Rightarrow>
          (case (case body of PDict d \<Rightarrow> dget d ''signals'' | _ \<Rightarrow> PNone) of
             PList raw \<Rightarrow>
               (case validate_all validate raw of
                  Inl e \<Rightarrow> ([unavailable_result (sr_tier step) (exn_msg e)], v')
                | Inr rs \<Rightarrow> (rs, v'))
           | _ \<Rightarrow> ([unavailable_result (sr_tier step) ''malformed response''], v')))"

text \<open>The health probe: an answer that is not an object has no \<open>get\<close>, and that error is not among the caught ones.\<close>

definition remote_signal_count :: "'v remote_service \<Rightarrow> 'v \<Rightarrow> int result \<times> 'v" where
  "remote_signal_count sv v =
     (case sv_healthz sv v of
        (Unreachable _, v') \<Rightarrow> (Inr 0, v')
      | (Body (PDict d), v') \<Rightarrow>
          (Inr (dflt 0 (py_int (if dhas d ''signal_count'' then dget d ''signal_count'' else PInt 0))), v')
      | (Body _, v') \<Rightarrow> (Raise ''AttributeError'' ''object has no attribute get'', v'))"

definition remote_backend :: "(pyval \<Rightarrow> signal_result result) \<Rightarrow> 'v remote_service \<Rightarrow> 'v backend" where
  "remote_backend validate sv =
     \<lparr>eb_signal_count = remote_signal_count sv, eb_evaluate = remote_evaluate validate sv,
      eb_reset_run_state = sv_reset sv\<rparr>"

section \<open>The hook\<close>

fun outcome_for_verdict :: "verdict \<Rightarrow> outcome" where
  "outcome_for_verdict VOk = Allow"
| "outcome_for_verdict VWarn = Allow"
| "outcome_for_verdict VRequireApproval = RequireApproval"
| "outcome_for_verdict VHalt = Deny"

definition STEP_KEYS :: "string list" where
  "STEP_KEYS = [''thought'', ''tool_name'', ''tool_args_hash'', ''tool_args_text'', ''tool_error'', ''cost_usd'',
     ''original_task'']"

definition pick :: "hook_context \<Rightarrow> string \<Rightarrow> pyval" where
  "pick ctx key = (if dhas (hc_payload ctx) key then dget (hc_payload ctx) key else dget (hc_metadata ctx) key)"

definition float_or_none :: "pyval \<Rightarrow> rat option" where
  "float_or_none v =
     (case v of
        PInt i \<Rightarrow> Some (rat_of_int i) | PBool b \<Rightarrow> Some (if b then 1 else 0) | PFloat q \<Rightarrow> Some q | _ \<Rightarrow> None)"

text \<open>\<open>StepRecord\<close> refuses an empty run id or agent type and a negative step.\<close>

definition build_step_record :: "hook_context \<Rightarrow> step_record result" where
  "build_step_record ctx =
     (let step_id = dflt 0 (hc_step_id ctx) in
      if hc_run_id ctx = [] \<or> step_id < 0 \<or> hc_agent_type ctx = [] then
        Raise ''ValidationError'' ''StepRecord''
      else Inr
        \<lparr>sr_run_id = hc_run_id ctx, sr_step_id = step_id, sr_agent_type = hc_agent_type ctx,
         sr_thought = nonempty_str (pick ctx ''thought''), sr_tool_name = nonempty_str (pick ctx ''tool_name''),
         sr_tool_args_hash = nonempty_str (pick ctx ''tool_args_hash''),
         sr_tool_args_text = nonempty_str (pick ctx ''tool_args_text''),
         sr_tool_error = nonempty_str (pick ctx ''tool_error''), sr_tier = hc_tier ctx,
         sr_classification = hc_classification ctx, sr_cost_usd = float_or_none (pick ctx ''cost_usd''),
         sr_original_task = nonempty_str (pick ctx ''original_task''),
         sr_metadata = filter (\<lambda>kv. fst kv \<notin> set STEP_KEYS) (hc_metadata ctx)\<rparr>)"

definition signal_entry :: "signal_result \<Rightarrow> pyval" where
  "signal_entry r =
     PDict (dmerge [(''name'', PStr (rs_name r)), (''verdict'', PStr (verdict_value (rs_verdict r))),
                    (''severity'', PStr (severity_value (rs_severity r))), (''reason'', PStr (rs_reason r))]
              (rs_audit_metadata r))"

definition collect_audit_metadata :: "signal_result list \<Rightarrow> dict" where
  "collect_audit_metadata results = [(''signals'', PList (map signal_entry results))]"

definition origin_channel :: "hook_context \<Rightarrow> string" where
  "origin_channel ctx =
     (let channel = py_lower (text_of (dget (hc_metadata ctx) ''origin_channel'')) in
      if channel = [] then ''cli'' else channel)"

text \<open>The approval queue and the router as the hook reaches them; the notification may raise, and nothing catches it.\<close>

record ('s, 'v) hook_queue =
  hq_sink :: "'s audit_sink option"
  hq_get :: "'v \<Rightarrow> 's queue_world"
  hq_put :: "'s queue_world \<Rightarrow> 'v \<Rightarrow> 'v"
  hq_router :: "'s queue_world row_notifier option"
  hq_fresh :: "'v \<Rightarrow> string"
  hq_now :: "'v \<Rightarrow> timestamp"

definition halt_request :: "hook_context \<Rightarrow> step_record \<Rightarrow> signal_result \<Rightarrow> approval_request" where
  "halt_request ctx step r =
     (approval_request_of (sr_run_id step) None (rs_name r)
        (''Signal '' @ [char_of (39::nat)] @ rs_name r @ [char_of (39::nat)] @ '' triggered: '' @ rs_reason r))
       \<lparr>rq_channel := origin_channel ctx, rq_session_id := metadata_str ctx ''session_id''\<rparr>"

definition raise_approval ::
  "('s, 'v) hook_queue \<Rightarrow> hook_context \<Rightarrow> step_record \<Rightarrow> signal_result \<Rightarrow> 'v \<Rightarrow> string result \<times> 'v"
where
  "raise_approval hq ctx step r v =
     (case q_enqueue (hq_sink hq) (halt_request ctx step r) (hq_fresh hq v) (hq_now hq v) (hq_get hq v) of
        (Inl e, q1) \<Rightarrow> (Inl e, hq_put hq q1 v)
      | (Inr approval_id, q1) \<Rightarrow>
          (case (get approval_id (fst q1), hq_router hq) of
             (Some row, Some notify) \<Rightarrow>
               (case notify row q1 of
                  (Inl e, q2) \<Rightarrow> (Inl e, hq_put hq q2 v)
                | (Inr _, q2) \<Rightarrow> (Inr approval_id, hq_put hq q2 v))
           | _ \<Rightarrow> (Inr approval_id, hq_put hq q1 v)))"

definition verdict_reason :: "signal_result \<Rightarrow> string" where
  "verdict_reason r = ''evaluator: '' @ rs_name r @ '' -> '' @ verdict_value (rs_verdict r) @ '': '' @ rs_reason r"

text \<open>From the worst result to the decision.\<close>

definition decide_worst ::
  "('s, 'v) hook_queue option \<Rightarrow> hook_context \<Rightarrow> step_record \<Rightarrow> signal_result list \<Rightarrow> signal_result \<Rightarrow> 'v
    \<Rightarrow> hook_decision result \<times> 'v"
where
  "decide_worst queue ctx step results r v =
     (let oc = outcome_for_verdict (rs_verdict r); md = collect_audit_metadata results;
          plain = (decision oc (verdict_reason r))\<lparr>hd_severity := rs_severity r, hd_audit_metadata := md\<rparr>
      in if oc = RequireApproval \<and> rs_severity r = SevCritical then
           (Inr ((decision Deny (''evaluator: '' @ rs_name r @ '' -> critical severity (hard halt): '' @ rs_reason r))
              \<lparr>hd_severity := rs_severity r, hd_audit_metadata := md\<rparr>), v)
         else case (oc, queue) of
           (RequireApproval, Some hq) \<Rightarrow>
             (case raise_approval hq ctx step r v of
                (Inl e, v1) \<Rightarrow> (Inl e, v1)
              | (Inr i, v1) \<Rightarrow>
                  (Inr (plain\<lparr>hd_audit_metadata := dset ''approval_id'' (PStr i) md, hd_approval_request_id := Some i\<rparr>),
                   v1))
         | _ \<Rightarrow> (Inr plain, v))"

definition EvaluatorHook_call ::
  "'v backend \<Rightarrow> ('s, 'v) hook_queue option \<Rightarrow> hook_context \<Rightarrow> 'v \<Rightarrow> hook_decision result \<times> 'v"
where
  "EvaluatorHook_call eb queue ctx v =
     (case eb_signal_count eb v of
        (Inl e, v1) \<Rightarrow> (Inl e, v1)
      | (Inr n, v1) \<Rightarrow>
          if n = 0 then (Inr (decision Allow ''evaluator: no signals registered''), v1)
          else
            (case build_step_record ctx of
               Inl e \<Rightarrow> (Inl e, v1)
             | Inr step \<Rightarrow>
                 (case eb_evaluate eb step v1 of
                    (results, v2) \<Rightarrow>
                      (case worst results of
                         None \<Rightarrow> (Inr (decision Allow ''evaluator: no signal results''), v2)
                       | Some r \<Rightarrow>
                           decide_worst queue ctx step results r
                             (if rs_verdict r \<in> {VHalt, VRequireApproval}
                              then eb_reset_run_state eb (sr_run_id step) v2 else v2)))))"

section \<open>The default registry\<close>

definition stateless_signal :: "string \<Rightarrow> int \<Rightarrow> (step_record \<Rightarrow> signal_result) \<Rightarrow> 'w signal" where
  "stateless_signal n p f = \<lparr>sg_name = n, sg_priority = p, sg_call = (\<lambda>step st w. (Inr (f step), st, w))\<rparr>"

definition stateful_signal ::
  "string \<Rightarrow> int \<Rightarrow> (step_record \<Rightarrow> signal_state \<Rightarrow> signal_result \<times> signal_state) \<Rightarrow> 'w signal"
where
  "stateful_signal n p f =
     \<lparr>sg_name = n, sg_priority = p, sg_call = (\<lambda>step st w. case f step st of (r, st') \<Rightarrow> (Inr r, st', w))\<rparr>"

definition world_signal ::
  "string \<Rightarrow> int \<Rightarrow> (step_record \<Rightarrow> signal_state \<Rightarrow> 'w \<Rightarrow> signal_result \<times> signal_state \<times> 'w) \<Rightarrow> 'w signal"
where
  "world_signal n p f =
     \<lparr>sg_name = n, sg_priority = p, sg_call = (\<lambda>step st w. case f step st w of (r, st', w') \<Rightarrow> (Inr r, st', w'))\<rparr>"

definition classification_violation_signal :: "'w signal" where
  "classification_violation_signal = stateless_signal ''classification_violation'' 5 ClassificationViolation_call"

definition step_cap_signal :: "step_cap \<Rightarrow> 'w signal" where
  "step_cap_signal sc = stateless_signal ''step_cap'' 10 (StepCap_call sc)"

definition action_repeat_signal :: "int \<Rightarrow> 'w signal" where
  "action_repeat_signal t = stateful_signal ''action_repeat'' 20 (ActionRepeat_call t)"

definition tool_failure_streak_signal :: "int \<Rightarrow> 'w signal" where
  "tool_failure_streak_signal t = stateful_signal ''tool_failure_streak'' 30 (ToolFailureStreak_call t)"

definition cost_budget_signal :: "('w \<Rightarrow> string \<Rightarrow> rat result) \<Rightarrow> cost_budget \<Rightarrow> 'w signal" where
  "cost_budget_signal spend cb =
     \<lparr>sg_name = ''cost_budget'', sg_priority = 30,
      sg_call = (\<lambda>step st w. (CostBudget_call cb (spend w (cb_user_id cb)), st, w))\<rparr>"

definition loop_detect_signal ::
  "('w \<Rightarrow> string \<Rightarrow> rat list result) \<Rightarrow> (rat \<Rightarrow> rat) \<Rightarrow> 'w flag_writer option \<Rightarrow> loop_detect \<Rightarrow> 'w signal"
where
  "loop_detect_signal embedder rt flag ld = world_signal ''loop_detect'' 40 (LoopDetect_call embedder rt flag ld)"

definition goal_drift_signal ::
  "('w \<Rightarrow> string \<Rightarrow> rat list result) \<Rightarrow> (rat \<Rightarrow> rat) \<Rightarrow> 'w flag_writer option \<Rightarrow> 'w exemption_store option \<Rightarrow> rat
    \<Rightarrow> 'w signal"
where
  "goal_drift_signal embedder rt flag store md =
     world_signal ''goal_drift'' 45 (GoalDrift_call embedder rt flag store md)"

text \<open>What \<open>_build_default_evaluator_registry\<close> is called with.\<close>

record 'w evaluator_settings =
  es_embedder :: "('w \<Rightarrow> string \<Rightarrow> rat list result) option"
  es_sqrt :: "rat \<Rightarrow> rat"
  es_flagged_writer :: "'w flag_writer option"
  es_exemptions :: "'w exemption_store option"
  es_max_distance :: "rat option"
  es_spend :: "('w \<Rightarrow> string \<Rightarrow> rat result) option"
  es_daily_cap :: "rat option"
  es_cost_user :: string

definition semantic_signals :: "'w evaluator_settings \<Rightarrow> 'w signal list result" where
  "semantic_signals es =
     (case es_embedder es of
        None \<Rightarrow> Inr []
      | Some embedder \<Rightarrow>
          (case new_loop_detect (92 / 100) 3 of
             Inl e \<Rightarrow> Inl e
           | Inr ld \<Rightarrow>
               (case new_goal_drift (dflt (9 / 10) (es_max_distance es)) of
                  Inl e \<Rightarrow> Inl e
                | Inr md \<Rightarrow>
                    Inr [loop_detect_signal embedder (es_sqrt es) (es_flagged_writer es) ld,
                         goal_drift_signal embedder (es_sqrt es) (es_flagged_writer es) (es_exemptions es) md])))"

definition budget_signals :: "'w evaluator_settings \<Rightarrow> 'w signal list result" where
  "budget_signals es =
     (case (es_spend es, es_daily_cap es) of
        (Some spend, Some cap) \<Rightarrow>
          (case new_cost_budget cap (es_cost_user es) (8 / 10) of
             Inl e \<Rightarrow> Inl e | Inr cb \<Rightarrow> Inr [cost_budget_signal spend cb])
      | _ \<Rightarrow> Inr [])"

fun register_signals :: "'w signal list \<Rightarrow> 'w registry \<Rightarrow> 'w registry result" where
  "register_signals [] reg = Inr reg"
| "register_signals (sg # sgs) reg = (case register_signal sg reg of Inl e \<Rightarrow> Inl e | Inr reg' \<Rightarrow> register_signals sgs reg')"

definition cheap_signals :: "'w signal list" where
  "cheap_signals =
     [classification_violation_signal, step_cap_signal (new_step_cap None 20), action_repeat_signal 3,
      tool_failure_streak_signal 3]"

definition build_default_evaluator_registry :: "'w evaluator_settings \<Rightarrow> 'w registry result" where
  "build_default_evaluator_registry es =
     (case semantic_signals es of
        Inl e \<Rightarrow> Inl e
      | Inr sem \<Rightarrow>
          (case budget_signals es of
             Inl e \<Rightarrow> Inl e
           | Inr bud \<Rightarrow> register_signals (cheap_signals @ sem @ bud) new_registry))"

section \<open>Worst wins\<close>

lemma foldl_worst:
  "let b = foldl (\<lambda>b x. if verdict_rank (rs_verdict b) < verdict_rank (rs_verdict x) then x else b) r rs in
   b \<in> insert r (set rs) \<and> (\<forall>x \<in> insert r (set rs). verdict_rank (rs_verdict x) \<le> verdict_rank (rs_verdict b))"
proof (induction rs arbitrary: r)
  case Nil
  then show ?case by simp
next
  case (Cons x rs)
  show ?case
    using Cons [of "if verdict_rank (rs_verdict r) < verdict_rank (rs_verdict x) then x else r"]
    by (auto simp: Let_def not_less split: if_splits)
qed

lemma worst_None [simp]: "worst results = None \<longleftrightarrow> results = []"
  by (simp add: worst_def split: list.splits)

lemma worst_is_max:
  assumes "worst results = Some r"
  shows "r \<in> set results" "x \<in> set results \<Longrightarrow> verdict_rank (rs_verdict x) \<le> verdict_rank (rs_verdict r)"
proof -
  obtain y ys where "results = y # ys" using assms by (cases results) (auto simp: worst_def)
  then show "r \<in> set results" "x \<in> set results \<Longrightarrow> verdict_rank (rs_verdict x) \<le> verdict_rank (rs_verdict r)"
    using assms foldl_worst [of y ys] by (auto simp: worst_def Let_def)
qed

definition passing :: "verdict \<Rightarrow> bool" where
  "passing v \<longleftrightarrow> v = VOk \<or> v = VWarn"

lemma passing_rank: "passing v \<longleftrightarrow> verdict_rank v \<le> 1"
  by (cases v) (simp_all add: passing_def)

lemma passing_outcome: "passing v \<longleftrightarrow> outcome_for_verdict v = Allow"
  by (cases v) (simp_all add: passing_def)

lemma worst_passing: "worst results = Some r \<Longrightarrow> passing (rs_verdict r) \<Longrightarrow> x \<in> set results \<Longrightarrow> passing (rs_verdict x)"
  unfolding passing_rank using worst_is_max(2) le_trans by blast

section \<open>Every signal is asked, with its own state\<close>

lemma evaluate_loop_other: "n \<notin> sg_name ` set sgs \<Longrightarrow> fst (snd (evaluate_loop sgs step sts w)) n = sts n"
  by (induction sgs arbitrary: sts w) (auto simp: split_beta)

definition settled_result :: "string \<Rightarrow> signal_result result \<Rightarrow> signal_result" where
  "settled_result n r = (case r of Inl e \<Rightarrow> raised_result n e | Inr x \<Rightarrow> x)"

lemma evaluate_loop_signal:
  assumes "distinct (map sg_name sgs)" and "sg \<in> set sgs" and "evaluate_loop sgs step sts w = (rs, sts', w')"
  shows "\<exists>w0 r w1. sg_call sg step (sts (sg_name sg)) w0 = (r, sts' (sg_name sg), w1) \<and> settled_result (sg_name sg) r \<in> set rs"
  using assms
proof (induction sgs arbitrary: sts w rs sts' w')
  case Nil
  then show ?case by simp
next
  case (Cons a sgs)
  obtain r st1 w1 where c: "sg_call a step (sts (sg_name a)) w = (r, st1, w1)" by (metis surj_pair)
  obtain rs2 sts2 w2 where l: "evaluate_loop sgs step (sts(sg_name a := st1)) w1 = (rs2, sts2, w2)" by (metis surj_pair)
  have out: "rs = settled_result (sg_name a) r # rs2" "sts' = sts2" "w' = w2"
    using Cons.prems(3) by (simp_all add: c l settled_result_def)
  show ?case
  proof (cases "sg = a")
    case True
    have "sts2 (sg_name a) = st1"
      using evaluate_loop_other [of "sg_name a" sgs step "sts(sg_name a := st1)" w1] Cons.prems(1) by (simp add: l)
    then show ?thesis using c out True by auto
  next
    case False
    then have "sg \<in> set sgs" using Cons.prems(2) by simp
    moreover from this have "sg_name sg \<noteq> sg_name a" using Cons.prems(1) by (metis distinct.simps(2) image_eqI list.simps(9) list.set_map)
    ultimately show ?thesis using Cons.IH [OF _ _ l] Cons.prems(1) out by auto
  qed
qed

section \<open>The signals of the default registry\<close>

lemmas signal_defs = classification_violation_signal_def step_cap_signal_def action_repeat_signal_def
  tool_failure_streak_signal_def cost_budget_signal_def loop_detect_signal_def goal_drift_signal_def
  stateless_signal_def stateful_signal_def world_signal_def

lemma default_registry_signals:
  assumes "build_default_evaluator_registry es = Inr reg"
  shows "\<exists>sem bud. semantic_signals es = Inr sem \<and> budget_signals es = Inr bud
    \<and> er_signals reg = cheap_signals @ bud @ sem \<and> \<not> er_init_locked reg"
proof -
  obtain sem bud where sb: "semantic_signals es = Inr sem" "budget_signals es = Inr bud"
    "register_signals (cheap_signals @ sem @ bud) new_registry = Inr reg"
    using assms by (auto simp: build_default_evaluator_registry_def split: sum.splits)
  have sem: "sem = [] \<or> (\<exists>e ld md. sem = [loop_detect_signal e (es_sqrt es) (es_flagged_writer es) ld,
      goal_drift_signal e (es_sqrt es) (es_flagged_writer es) (es_exemptions es) md])"
    using sb(1) by (auto simp: semantic_signals_def split: option.splits sum.splits)
  have bud: "bud = [] \<or> (\<exists>sp cb. bud = [cost_budget_signal sp cb])"
    using sb(2) by (auto simp: budget_signals_def split: option.splits sum.splits)
  have "er_signals reg = cheap_signals @ bud @ sem \<and> \<not> er_init_locked reg"
    using sb(3) sem bud
    by (auto simp: cheap_signals_def new_registry_def register_signal_def signal_defs)
  then show ?thesis using sb by blast
qed

lemma default_registry_names:
  assumes "build_default_evaluator_registry es = Inr reg"
  shows "distinct (map sg_name (er_signals reg))" "set cheap_signals \<subseteq> set (er_signals reg)" "signal_count reg \<noteq> 0"
proof -
  obtain sem bud where sb: "semantic_signals es = Inr sem" "budget_signals es = Inr bud"
    "er_signals reg = cheap_signals @ bud @ sem"
    using default_registry_signals [OF assms] by blast
  have sem: "map sg_name sem = [] \<or> map sg_name sem = [''loop_detect'', ''goal_drift'']"
    using sb(1) by (auto simp: semantic_signals_def signal_defs split: option.splits sum.splits)
  have bud: "map sg_name bud = [] \<or> map sg_name bud = [''cost_budget'']"
    using sb(2) by (auto simp: budget_signals_def signal_defs split: option.splits sum.splits)
  have cheap: "map sg_name (cheap_signals :: 'a signal list)
      = [''classification_violation'', ''step_cap'', ''action_repeat'', ''tool_failure_streak'']"
    by (simp add: cheap_signals_def signal_defs)
  show "distinct (map sg_name (er_signals reg))"
    unfolding sb(3) map_append cheap using sem bud by auto
  show "set cheap_signals \<subseteq> set (er_signals reg)" "signal_count reg \<noteq> 0"
    unfolding sb(3) signal_count_def by (auto simp: cheap_signals_def)
qed

section \<open>What an allowed step satisfies\<close>

text \<open>The worst result decides; a result that does not pass stops the step.\<close>

lemma decide_worst_allows:
  assumes "decide_worst queue ctx step results r v = (Inr d, v')" and "\<not> stops (hd_outcome d)"
  shows "passing (rs_verdict r) \<and> v' = v"
  using assms
  by (cases "rs_verdict r")
    (auto simp: decide_worst_def Let_def passing_def stops_def split: option.splits if_splits sum.splits prod.splits)

definition within_step_limits :: "step_record \<Rightarrow> bool" where
  "within_step_limits step \<longleftrightarrow>
     sr_step_id step < (if sr_agent_type step = ''coding'' then 50 else 20)
     \<and> \<not> (sr_tier step = Some Tier3 \<and> sr_classification step \<in> {Some Personal, Some Secret})"

lemma cheap_passing:
  assumes "passing (rs_verdict (ClassificationViolation_call step))" "passing (rs_verdict (StepCap_call (new_step_cap None 20) step))"
  shows "within_step_limits step"
  using assms
  by (auto simp: within_step_limits_def ClassificationViolation_call_def StepCap_call_def Let_def passing_def
      threshold_for_def new_step_cap_def DEFAULT_THRESHOLDS_def split: if_splits)

text \<open>The calls of the two counting signals, on the states of the step's run before it.\<close>

definition counts_ok :: "step_record \<Rightarrow> (string \<Rightarrow> signal_state) \<Rightarrow> (string \<Rightarrow> signal_state) \<Rightarrow> bool" where
  "counts_ok step sts sts' \<longleftrightarrow>
     (\<exists>r. ActionRepeat_call 3 step (sts ''action_repeat'') = (r, sts' ''action_repeat'') \<and> passing (rs_verdict r))
     \<and> (\<exists>r. ToolFailureStreak_call 3 step (sts ''tool_failure_streak'') = (r, sts' ''tool_failure_streak'')
            \<and> passing (rs_verdict r))"

lemma passing_evaluation:
  fixes reg :: "'w registry"
  assumes reg: "build_default_evaluator_registry es = Inr reg"
      and ev: "evaluate_loop (er_signals reg) step sts w = (results, sts', w')"
      and ok: "\<forall>x \<in> set results. passing (rs_verdict x)"
  shows "within_step_limits step \<and> counts_ok step sts sts'"
proof -
  have one: "\<exists>w0 r w1. sg_call sg step (sts (sg_name sg)) w0 = (r, sts' (sg_name sg), w1)
      \<and> passing (rs_verdict (settled_result (sg_name sg) r))" if "sg \<in> set cheap_signals" for sg :: "'w signal"
    using evaluate_loop_signal [OF default_registry_names(1) [OF reg] _ ev, of sg] default_registry_names(2) [OF reg]
      that ok by blast
  have "passing (rs_verdict (ClassificationViolation_call step))"
    using one [of classification_violation_signal] by (simp add: cheap_signals_def signal_defs settled_result_def)
  moreover have "passing (rs_verdict (StepCap_call (new_step_cap None 20) step))"
    using one [of "step_cap_signal (new_step_cap None 20)"] by (simp add: cheap_signals_def signal_defs settled_result_def)
  moreover have "\<exists>r. ActionRepeat_call 3 step (sts ''action_repeat'') = (r, sts' ''action_repeat'') \<and> passing (rs_verdict r)"
    using one [of "action_repeat_signal 3"] by (auto simp: cheap_signals_def signal_defs settled_result_def split_beta prod_eq_iff)
  moreover have "\<exists>r. ToolFailureStreak_call 3 step (sts ''tool_failure_streak'') = (r, sts' ''tool_failure_streak'')
      \<and> passing (rs_verdict r)"
    using one [of "tool_failure_streak_signal 3"] by (auto simp: cheap_signals_def signal_defs settled_result_def split_beta prod_eq_iff)
  ultimately show ?thesis by (simp add: cheap_passing counts_ok_def)
qed

text \<open>An allowed call of the hook on the default registry: the step was built, every signal passed, no signal raised, and
  the run's states are those the signals left.\<close>

lemma hook_allows:
  assumes reg: "build_default_evaluator_registry es = Inr reg0" "er_signals reg = er_signals reg0"
      and call: "EvaluatorHook_call (local_backend get_s put_s reg) queue ctx v = (Inr d, v')" "\<not> stops (hd_outcome d)"
  obtains step results sts' w' where "build_step_record ctx = Inr step"
    "evaluate_loop (er_signals reg) step (fst (get_s v) (sr_run_id step)) (snd (get_s v)) = (results, sts', w')"
    "\<forall>x \<in> set results. passing (rs_verdict x)"
    "v' = put_s ((fst (get_s v))(sr_run_id step := sts'), w') v"
    "within_step_limits step" "counts_ok step (fst (get_s v) (sr_run_id step)) sts'"
proof -
  have n0: "signal_count reg \<noteq> 0" using default_registry_names(3) [OF reg(1)] by (simp add: signal_count_def reg(2))
  then obtain step where step: "build_step_record ctx = Inr step"
    using call(1) by (cases "build_step_record ctx") (auto simp: EvaluatorHook_call_def local_backend_def)
  obtain results sts' w' where ev:
    "evaluate_loop (er_signals reg) step (fst (get_s v) (sr_run_id step)) (snd (get_s v)) = (results, sts', w')"
    by (metis surj_pair)
  let ?v = "put_s ((fst (get_s v))(sr_run_id step := sts'), w') v"
  have "results \<noteq> []"
  proof
    assume "results = []"
    moreover obtain sg where "sg \<in> set (er_signals reg)" using n0 by (cases "er_signals reg") (auto simp: signal_count_def)
    ultimately show False
      using evaluate_loop_signal [OF default_registry_names(1) [OF reg(1)], of sg step] ev reg(2) by fastforce
  qed
  then obtain r where r: "worst results = Some r" using worst_None by (cases "worst results") auto
  let ?v2 = "if rs_verdict r \<in> {VHalt, VRequireApproval} then eb_reset_run_state (local_backend get_s put_s reg) (sr_run_id step) ?v
      else ?v"
  have "decide_worst queue ctx step results r ?v2 = (Inr d, v')"
    using call(1) n0 step r by (auto simp: EvaluatorHook_call_def local_backend_def evaluate_def ev split: if_splits)
  from decide_worst_allows [OF this call(2)] have p: "passing (rs_verdict r)" and v': "v' = ?v2" by auto
  have ok: "\<forall>x \<in> set results. passing (rs_verdict x)" using worst_passing [OF r p] by blast
  have "v' = ?v" using v' p by (auto simp: passing_def)
  then show thesis
    using that [OF step ev ok] passing_evaluation [OF reg(1) _ ok] ev reg(2) by auto
qed

section \<open>Runs of the hook\<close>

text \<open>Many calls of one hook, of any runs in any order. Between two calls only the states of the runs are kept: what the
  signals' world and the approval queue are at a call is a part of the call.\<close>

type_synonym ('w, 's) hook_world = "(run_states \<times> 'w) \<times> 's queue_world"

definition queue_beside ::
  "'s audit_sink option \<Rightarrow> 's queue_world row_notifier option \<Rightarrow> string \<Rightarrow> timestamp \<Rightarrow> ('s, ('w, 's) hook_world) hook_queue"
where
  "queue_beside sink router fresh now =
     \<lparr>hq_sink = sink, hq_get = snd, hq_put = (\<lambda>q v. (fst v, q)), hq_router = router, hq_fresh = (\<lambda>_. fresh),
      hq_now = (\<lambda>_. now)\<rparr>"

record ('w, 's) hook_use =
  hu_ctx :: hook_context
  hu_world :: 'w
  hu_queue :: "'s queue_world"
  hu_approvals :: "('s audit_sink option \<times> 's queue_world row_notifier option \<times> string \<times> timestamp) option"

definition eval_step ::
  "'w registry \<Rightarrow> run_states \<Rightarrow> ('w, 's) hook_use \<Rightarrow> run_states \<times> hook_decision result"
where
  "eval_step reg rs u =
     (case EvaluatorHook_call (local_backend fst (\<lambda>s v. (s, snd v)) reg)
             (map_option (\<lambda>(sink, router, fresh, now). queue_beside sink router fresh now) (hu_approvals u))
             (hu_ctx u) ((rs, hu_world u), hu_queue u) of
        (r, v') \<Rightarrow> (fst (fst v'), r))"

lemma raise_approval_beside: "fst (snd (raise_approval (queue_beside sink router fresh now) ctx step r v)) = fst v"
  by (auto simp: raise_approval_def queue_beside_def split: prod.splits sum.splits option.splits)

lemma decide_worst_beside:
  "fst (snd (decide_worst (map_option (\<lambda>(sink, router, fresh, now). queue_beside sink router fresh now) q)
     ctx step results r v)) = fst v"
proof (cases q)
  case (Some p)
  then obtain sink router fresh now where "q = Some (sink, router, fresh, now)" by (metis surj_pair)
  then show ?thesis
    using raise_approval_beside [of sink router fresh now ctx step r v]
    by (cases "rs_verdict r") (auto simp: decide_worst_def Let_def split: prod.splits sum.splits)
qed (cases "rs_verdict r", simp_all add: decide_worst_def Let_def)

text \<open>A call leaves the states of every other run alone.\<close>

lemma build_step_run: "build_step_record ctx = Inr step \<Longrightarrow> sr_run_id step = hc_run_id ctx"
  by (auto simp: build_step_record_def Let_def split: if_splits)

lemma eval_step_other:
  assumes "hc_run_id (hu_ctx u) \<noteq> run"
  shows "fst (eval_step reg rs u) run = rs run"
proof (cases "build_step_record (hu_ctx u)")
  case (Inl e)
  then show ?thesis by (simp add: eval_step_def EvaluatorHook_call_def local_backend_def)
next
  case (Inr step)
  then have "sr_run_id step \<noteq> run" using assms build_step_run by metis
  then show ?thesis
    by (simp add: eval_step_def EvaluatorHook_call_def local_backend_def Inr evaluate_def reset_run_state_def
        decide_worst_beside split_beta split: option.split)
qed

definition allowed :: "hook_decision result \<Rightarrow> bool" where
  "allowed r \<longleftrightarrow> (\<exists>d. r = Inr d \<and> \<not> stops (hd_outcome d))"

lemma eval_step_allowed:
  assumes "build_default_evaluator_registry es = Inr reg" and "allowed (snd (eval_step reg rs u))"
  obtains step where "build_step_record (hu_ctx u) = Inr step" "within_step_limits step"
    "counts_ok step (rs (sr_run_id step)) (fst (eval_step reg rs u) (sr_run_id step))"
proof -
  obtain d v' where c: "EvaluatorHook_call (local_backend fst (\<lambda>s v. (s, snd v)) reg)
        (map_option (\<lambda>(sink, router, fresh, now). queue_beside sink router fresh now) (hu_approvals u))
        (hu_ctx u) ((rs, hu_world u), hu_queue u) = (Inr d, v')" "\<not> stops (hd_outcome d)"
    using assms(2) by (auto simp: allowed_def eval_step_def split: prod.splits)
  show thesis
    by (rule hook_allows [OF assms(1) _ c]) (use that in \<open>auto simp: eval_step_def c(1)\<close>)
qed

section \<open>The history of a run\<close>

definition step_of :: "hook_context \<Rightarrow> step_record option" where
  "step_of ctx = (case build_step_record ctx of Inl _ \<Rightarrow> None | Inr s \<Rightarrow> Some s)"

definition steps_of :: "string \<Rightarrow> ('w, 's) hook_use list \<Rightarrow> step_record list" where
  "steps_of run us = filter (\<lambda>s. sr_run_id s = run) (List.map_filter (step_of \<circ> hu_ctx) us)"

definition times_done :: "action_key \<Rightarrow> step_record list \<Rightarrow> nat" where
  "times_done k steps = length (filter (\<lambda>s. action_key s = Some k) steps)"

text \<open>The tool errors since the last tool call that succeeded.\<close>

definition failing_tail :: "step_record list \<Rightarrow> nat" where
  "failing_tail steps =
     length (takeWhile (\<lambda>s. truthy_str (sr_tool_error s)) (rev (filter (\<lambda>s. truthy_str (sr_tool_name s)) steps)))"

definition remembers :: "(string \<Rightarrow> signal_state) \<Rightarrow> step_record list \<Rightarrow> bool" where
  "remembers sts steps \<longleftrightarrow>
     (\<forall>k. dflt 0 (map_of (dflt [] (st_counts (sts ''action_repeat''))) k) = int (times_done k steps))
     \<and> dflt 0 (st_streak (sts ''tool_failure_streak'')) = int (failing_tail steps)"

definition well_behaved :: "step_record list \<Rightarrow> bool" where
  "well_behaved steps \<longleftrightarrow>
     (\<forall>k. times_done k steps < 3) \<and> (\<forall>n. failing_tail (take n steps) < 3) \<and> (\<forall>s \<in> set steps. within_step_limits s)"

lemma action_repeat_call:
  "rs_verdict (fst (ActionRepeat_call t step st)) =
     (case action_key step of None \<Rightarrow> VOk
      | Some k \<Rightarrow> if t \<le> dflt 0 (map_of (dflt [] (st_counts st)) k) + 1 then VHalt else VOk)"
  "dflt 0 (map_of (dflt [] (st_counts (snd (ActionRepeat_call t step st)))) k) =
     dflt 0 (map_of (dflt [] (st_counts st)) k) + (if action_key step = Some k then 1 else 0)"
  by (simp_all add: ActionRepeat_call_def Let_def split: option.split)

lemma tool_failure_streak_call:
  "rs_verdict (fst (ToolFailureStreak_call t step st)) =
     (if truthy_str (sr_tool_name step) \<and> t \<le> dflt 0 (st_streak (snd (ToolFailureStreak_call t step st))) then VHalt
      else VOk)"
  "dflt 0 (st_streak (snd (ToolFailureStreak_call t step st))) =
     (if \<not> truthy_str (sr_tool_name step) then dflt 0 (st_streak st)
      else if truthy_str (sr_tool_error step) then dflt 0 (st_streak st) + 1 else 0)"
  by (simp_all add: ToolFailureStreak_call_def Let_def)

lemma counts_ok_history:
  assumes "counts_ok step sts sts'" and "remembers sts steps"
  shows "remembers sts' (steps @ [step])" "times_done k steps < 3 \<Longrightarrow> times_done k (steps @ [step]) < 3"
    "failing_tail steps < 3 \<Longrightarrow> failing_tail (steps @ [step]) < 3"
proof -
  let ?a = "ActionRepeat_call 3 step (sts ''action_repeat'')"
  let ?f = "ToolFailureStreak_call 3 step (sts ''tool_failure_streak'')"
  have a: "snd ?a = sts' ''action_repeat''" "passing (rs_verdict (fst ?a))"
    and f: "snd ?f = sts' ''tool_failure_streak''" "passing (rs_verdict (fst ?f))"
    using assms(1) by (auto simp: counts_ok_def)
  have cnt: "dflt 0 (map_of (dflt [] (st_counts (sts ''action_repeat''))) k) = int (times_done k steps)" for k
    using assms(2) unfolding remembers_def by blast
  have str: "dflt 0 (st_streak (sts ''tool_failure_streak'')) = int (failing_tail steps)"
    using assms(2) by (simp add: remembers_def)
  have new: "times_done k (steps @ [step]) = times_done k steps + (if action_key step = Some k then 1 else 0)" for k
    by (simp add: times_done_def)
  have tail: "failing_tail (steps @ [step]) =
      (if \<not> truthy_str (sr_tool_name step) then failing_tail steps
       else if truthy_str (sr_tool_error step) then Suc (failing_tail steps) else 0)"
    by (simp add: failing_tail_def)
  have "dflt 0 (map_of (dflt [] (st_counts (sts' ''action_repeat''))) k) = int (times_done k (steps @ [step]))" for k
    unfolding a(1) [symmetric] action_repeat_call new cnt by simp
  moreover have streak: "dflt 0 (st_streak (sts' ''tool_failure_streak'')) = int (failing_tail (steps @ [step]))"
    unfolding f(1) [symmetric] tool_failure_streak_call tail str by simp
  ultimately show "remembers sts' (steps @ [step])" unfolding remembers_def by blast
  show "times_done k steps < 3 \<Longrightarrow> times_done k (steps @ [step]) < 3"
    using a(2) by (auto simp: action_repeat_call(1) new cnt passing_def split: option.splits if_splits)
  show "failing_tail steps < 3 \<Longrightarrow> failing_tail (steps @ [step]) < 3"
    using f(2) by (auto simp: tool_failure_streak_call(1) f(1) streak passing_def tail split: if_splits)
qed

lemma well_behaved_snoc:
  assumes "well_behaved steps" "counts_ok step sts sts'" "remembers sts steps" "within_step_limits step"
  shows "well_behaved (steps @ [step])"
proof -
  have "failing_tail (take n (steps @ [step])) < 3" for n
    using counts_ok_history(3) [OF assms(2,3)] assms(1)
    by (cases "n \<le> length steps") (auto simp: well_behaved_def take_all dest: spec [of _ "length steps"])
  then show ?thesis
    using counts_ok_history(2) [OF assms(2,3)] assms(1,4) by (auto simp: well_behaved_def)
qed

lemma allowed_history:
  assumes reg: "build_default_evaluator_registry es = Inr reg"
      and "\<forall>(u, r) \<in> set (zip us (outcomes (eval_step reg) rs us)). hc_run_id (hu_ctx u) = run \<longrightarrow> allowed r"
      and "remembers (rs run) hist" "well_behaved hist"
  shows "well_behaved (hist @ steps_of run us)"
  using assms(2-)
proof (induction us arbitrary: rs hist)
  case Nil
  then show ?case by (simp add: steps_of_def map_filter_simps)
next
  case (Cons u us)
  let ?rs = "fst (eval_step reg rs u)"
  have rest: "\<forall>(u, r) \<in> set (zip us (outcomes (eval_step reg) ?rs us)). hc_run_id (hu_ctx u) = run \<longrightarrow> allowed r"
    using Cons.prems(1) by simp
  show ?case
  proof (cases "hc_run_id (hu_ctx u) = run")
    case False
    then have "steps_of run (u # us) = steps_of run us"
      using build_step_run by (fastforce simp: steps_of_def map_filter_simps step_of_def split: option.splits sum.splits)
    moreover have "remembers (?rs run) hist" using Cons.prems(2) eval_step_other [OF False] by simp
    ultimately show ?thesis using Cons.IH [OF rest _ Cons.prems(3)] by simp
  next
    case True
    then have "allowed (snd (eval_step reg rs u))" using Cons.prems(1) by simp
    then obtain step where s: "build_step_record (hu_ctx u) = Inr step" "within_step_limits step"
        "counts_ok step (rs (sr_run_id step)) (?rs (sr_run_id step))"
      using eval_step_allowed [OF reg] by blast
    then have run: "sr_run_id step = run" using True build_step_run by metis
    then have "remembers (?rs run) (hist @ [step])" "well_behaved (hist @ [step])"
      using s counts_ok_history(1) well_behaved_snoc Cons.prems(2,3) by auto
    from Cons.IH [OF rest this] have "well_behaved ((hist @ [step]) @ steps_of run us)" .
    moreover have "steps_of run (u # us) = step # steps_of run us"
      using s(1) run by (simp add: steps_of_def map_filter_simps step_of_def)
    ultimately show ?thesis by simp
  qed
qed

text \<open>C25. A run that keeps being allowed is not stuck. Let the hook of the default registry be called for any runs in
  any order, whatever the signals' world and the approval queue are at each call. In the steps of a run whose calls were
  all allowed no call of a tool with the same arguments occurs three times, at no moment did the last three tool calls
  all fail, every step is below the cap of its agent type (50 for the coding agent, else 20), and none had personal or
  secret data on the cloud tier. What other runs do has no influence on this.\<close>

theorem allowed_run_is_not_stuck:
  assumes "build_default_evaluator_registry es = Inr reg"
      and "\<forall>(u, r) \<in> set (zip us (outcomes (eval_step reg) no_states us)). hc_run_id (hu_ctx u) = run \<longrightarrow> allowed r"
  shows "(\<forall>k. times_done k (steps_of run us) \<le> 2) \<and> (\<forall>n. failing_tail (take n (steps_of run us)) \<le> 2)
    \<and> (\<forall>s \<in> set (steps_of run us). sr_step_id s < (if sr_agent_type s = ''coding'' then 50 else 20)
         \<and> \<not> (sr_tier s = Some Tier3 \<and> sr_classification s \<in> {Some Personal, Some Secret}))"
proof -
  have "remembers (no_states run) []" by (simp add: remembers_def no_states_def no_state_def times_done_def failing_tail_def)
  moreover have "well_behaved []" by (simp add: well_behaved_def times_done_def failing_tail_def)
  ultimately have "well_behaved (steps_of run us)" using allowed_history [OF assms, of "[]"] by simp
  moreover have "n < 3 \<longleftrightarrow> n \<le> 2" for n :: nat by auto
  ultimately show ?thesis unfolding well_behaved_def within_step_limits_def by simp
qed

definition cheap_settings :: "unit evaluator_settings" where
  "cheap_settings = \<lparr>es_embedder = None, es_sqrt = (\<lambda>q. q), es_flagged_writer = None, es_exemptions = None,
     es_max_distance = None, es_spend = None, es_daily_cap = None, es_cost_user = ''local''\<rparr>"

definition cheap_registry :: "unit registry" where
  "cheap_registry = \<lparr>er_signals = cheap_signals, er_init_locked = False\<rparr>"

definition step_use :: "string \<Rightarrow> int \<Rightarrow> string \<Rightarrow> (unit, unit) hook_use" where
  "step_use run i h = \<lparr>hu_ctx = \<lparr>hc_hook_point = POST_STEP, hc_run_id = run, hc_agent_type = ''chat'', hc_step_id = Some i,
       hc_persona = None, hc_route = None,
       hc_payload = [(''tool_name'', PStr ''search''), (''tool_args_hash'', PStr h)], hc_classification = None,
       hc_tier = None, hc_metadata = []\<rparr>,
     hu_world = (), hu_queue = ([], ()), hu_approvals = None\<rparr>"

text \<open>Two runs that interleave: the third call of the same tool with the same arguments is only the second of its run.\<close>

definition demo_uses :: "(unit, unit) hook_use list" where
  "demo_uses = [step_use ''a'' 1 ''h1'', step_use ''b'' 1 ''h1'', step_use ''a'' 2 ''h1'']"

lemma cheap_registry_built: "build_default_evaluator_registry cheap_settings = Inr cheap_registry"
  by (simp add: build_default_evaluator_registry_def semantic_signals_def budget_signals_def cheap_settings_def
      cheap_signals_def new_registry_def register_signal_def signal_defs cheap_registry_def)

theorem allowed_run_is_not_stuck_witness:
  "map (\<lambda>r. case r of Inl _ \<Rightarrow> Deny | Inr d \<Rightarrow> hd_outcome d) (outcomes (eval_step cheap_registry) no_states demo_uses)
     = [Allow, Allow, Allow]
   \<and> times_done (''search'', ''h1'') (steps_of ''a'' demo_uses) \<le> 2"
proof -
  let ?oc = "\<lambda>r. case r of Inl _ \<Rightarrow> Deny | Inr d \<Rightarrow> hd_outcome d"
  let ?rs = "outcomes (eval_step cheap_registry) no_states demo_uses"
  have oc: "map ?oc ?rs = [Allow, Allow, Allow]" by code_simp
  have "allowed r" if "r \<in> set ?rs" for r
  proof -
    have "?oc r \<in> set (map ?oc ?rs)" using that by (metis image_eqI set_map)
    then have "?oc r = Allow" unfolding oc by simp
    then show ?thesis by (cases r) (simp_all add: allowed_def stops_def)
  qed
  then have "\<forall>(u, r) \<in> set (zip demo_uses ?rs). hc_run_id (hu_ctx u) = ''a'' \<longrightarrow> allowed r"
    using set_zip_rightD by fast
  from allowed_run_is_not_stuck [OF cheap_registry_built this] oc show ?thesis by blast
qed

section \<open>The remote evaluator that cannot be reached\<close>

text \<open>A remote evaluator that cannot be reached lets every step through. The client answers a failed evaluation of a
  cloud step with a halt, but the hook asks for the number of signals first, and the client answers 0 when the service
  cannot be reached: the hook then allows the step as one without signals, on every tier and for every class of data.\<close>

theorem unreachable_evaluator_allows:
  assumes "sv_healthz sv v = (Unreachable err, v')"
  shows "EvaluatorHook_call (remote_backend validate sv) queue ctx v
      = (Inr (decision Allow ''evaluator: no signals registered''), v')
    \<and> rs_verdict (unavailable_result (Some Tier3) err) = VHalt"
  using assms
  by (simp add: EvaluatorHook_call_def remote_backend_def remote_signal_count_def unavailable_result_def)

definition down_service :: "unit remote_service" where
  "down_service = \<lparr>sv_evaluate = (\<lambda>_ v. (Unreachable ''refused'', v)), sv_reset = (\<lambda>_ v. v),
     sv_healthz = (\<lambda>v. (Unreachable ''refused'', v))\<rparr>"

theorem unreachable_evaluator_allows_witness:
  "fst (EvaluatorHook_call (remote_backend (\<lambda>_. Inl (PyExn ''ValueError'' [])) down_service)
      (None :: (unit, unit) hook_queue option) cloud_ctx ())
    = Inr (decision Allow ''evaluator: no signals registered'')"
proof -
  have "sv_healthz down_service () = (Unreachable ''refused'', ())" by (simp add: down_service_def)
  from unreachable_evaluator_allows [OF this, THEN conjunct1] show ?thesis by (metis fst_conv)
qed

end
