(* ===== verification/Wiring.thy ===== *)
theory Wiring
  imports Kernel_Dispatch Persona Texts
begin

text \<open>
  How the default kernel is put together (\<open>kernel/governance/wiring.py\<close>): which hook classes are registered, at
  which points, in which order, under which settings, and how the settings are read from the environment.

  A hook class is its identity here (\<open>hook_id\<close>, with the class attributes \<open>name\<close>, \<open>hook_point\<close> and \<open>priority\<close>); what its
  instances do is an argument, which the theories that compose the kernel instantiate with the models of the hooks.
  Opening a store, importing an optional package and parsing a number are arguments too. Log lines are not modelled,
  but one of them reads a variable, and that read is.
\<close>

section \<open>Hook classes\<close>

datatype hook_id =
    HBotStatus | HPromptGuardInbound | HDataClassifier | HInputSafety | HResponseSafety | HRedactionFilter
  | HEgressGate | HCredentialBroker | HPersonaSurface | HCallerPolicy | HPluginEgress | HPluginEgressOutcome
  | HToolPolicy | HCommandSandbox | HFSJail | HNetworkEgress | HOwnerPiiShadow | HMCPAllowlist | HCostLimiter
  | HOutputClassifier | HCapabilityRedaction | HPostToolUseLedger | HPreToolUseLedger | HPromptGuardRetrieved
  | HExternalContentFloor | HMcpClientEgress | HDestructiveApproval | HEvaluator

fun hook_name :: "hook_id \<Rightarrow> string" where
  "hook_name HBotStatus = ''bot_status''"
| "hook_name HPromptGuardInbound = ''prompt_guard_inbound''"
| "hook_name HDataClassifier = ''data_classifier''"
| "hook_name HInputSafety = ''input_safety''"
| "hook_name HResponseSafety = ''response_safety''"
| "hook_name HRedactionFilter = ''redaction_filter''"
| "hook_name HEgressGate = ''egress_gate''"
| "hook_name HCredentialBroker = ''credential_broker''"
| "hook_name HPersonaSurface = ''persona_surface''"
| "hook_name HCallerPolicy = ''caller_policy''"
| "hook_name HPluginEgress = ''plugin_egress''"
| "hook_name HPluginEgressOutcome = ''plugin_egress_outcome''"
| "hook_name HToolPolicy = ''tool_policy''"
| "hook_name HCommandSandbox = ''command_sandbox''"
| "hook_name HFSJail = ''fs_jail''"
| "hook_name HNetworkEgress = ''network_egress''"
| "hook_name HOwnerPiiShadow = ''owner_pii_shadow''"
| "hook_name HMCPAllowlist = ''mcp_allowlist''"
| "hook_name HCostLimiter = ''cost_limiter''"
| "hook_name HOutputClassifier = ''output_classifier''"
| "hook_name HCapabilityRedaction = ''capability_redaction''"
| "hook_name HPostToolUseLedger = ''post_tool_use_ledger''"
| "hook_name HPreToolUseLedger = ''pre_tool_use_ledger''"
| "hook_name HPromptGuardRetrieved = ''prompt_guard_retrieved''"
| "hook_name HExternalContentFloor = ''external_content_floor''"
| "hook_name HMcpClientEgress = ''mcp_client_egress''"
| "hook_name HDestructiveApproval = ''destructive_approval''"
| "hook_name HEvaluator = ''evaluator''"

fun class_point :: "hook_id \<Rightarrow> hook_point" where
  "class_point HPromptGuardInbound = PRE_CLASSIFY"
| "class_point HDataClassifier = PRE_CLASSIFY"
| "class_point HInputSafety = PRE_TURN"
| "class_point HResponseSafety = PRE_RESPONSE"
| "class_point HRedactionFilter = PRE_LLM_CALL"
| "class_point HEgressGate = PRE_LLM_CALL"
| "class_point HCostLimiter = PRE_LLM_CALL"
| "class_point HPluginEgress = PRE_EGRESS"
| "class_point HPluginEgressOutcome = POST_EGRESS"
| "class_point HOutputClassifier = POST_TOOL_USE"
| "class_point HCapabilityRedaction = POST_TOOL_USE"
| "class_point HPostToolUseLedger = POST_TOOL_USE"
| "class_point HPromptGuardRetrieved = POST_TOOL_USE"
| "class_point HExternalContentFloor = POST_TOOL_USE"
| "class_point HMcpClientEgress = POST_TOOL_USE"
| "class_point HEvaluator = POST_STEP"
| "class_point _ = PRE_TOOL_USE"

fun class_priority :: "hook_id \<Rightarrow> int" where
  "class_priority HOwnerPiiShadow = 1"
| "class_priority HBotStatus = 5"
| "class_priority HPromptGuardInbound = 5"
| "class_priority HCapabilityRedaction = 5"
| "class_priority HInputSafety = 7"
| "class_priority HDataClassifier = 10"
| "class_priority HResponseSafety = 10"
| "class_priority HOutputClassifier = 10"
| "class_priority HCallerPolicy = 12"
| "class_priority HPersonaSurface = 15"
| "class_priority HMCPAllowlist = 18"
| "class_priority HRedactionFilter = 20"
| "class_priority HPluginEgress = 20"
| "class_priority HPluginEgressOutcome = 20"
| "class_priority HToolPolicy = 20"
| "class_priority HCommandSandbox = 25"
| "class_priority HEgressGate = 30"
| "class_priority HFSJail = 30"
| "class_priority HNetworkEgress = 35"
| "class_priority HCostLimiter = 40"
| "class_priority HPostToolUseLedger = 40"
| "class_priority HMcpClientEgress = 42"
| "class_priority HPromptGuardRetrieved = 45"
| "class_priority HExternalContentFloor = 46"
| "class_priority HDestructiveApproval = 50"
| "class_priority HEvaluator = 50"
| "class_priority HCredentialBroker = 90"
| "class_priority HPreToolUseLedger = 100"

text \<open>An instance: what it does when called, and for the bot status hook its identity.\<close>

type_synonym 's hook_calls = "hook_id \<Rightarrow> hook_context \<Rightarrow> 's \<Rightarrow> hook_decision result \<times> 's"

definition hook_of :: "'s hook_calls \<Rightarrow> nat \<times> 's bot_source \<Rightarrow> hook_id \<Rightarrow> 's hook" where
  "hook_of calls bh h = \<lparr>hk_name = hook_name h, hk_hook_point = class_point h, hk_priority = class_priority h,
     hk_call = calls h, hk_bot_status = (if h = HBotStatus then Some bh else None)\<rparr>"

lemma hook_of_simps [simp]:
  "hk_name (hook_of calls bh h) = hook_name h" "hk_hook_point (hook_of calls bh h) = class_point h"
  "hk_priority (hook_of calls bh h) = class_priority h" "hk_call (hook_of calls bh h) = calls h"
  by (simp_all add: hook_of_def)

section \<open>Building the kernel\<close>

record kernel_settings =
  ks_guards_a_bot :: bool
  ks_prompt_guard_inbound :: bool
  ks_prompt_guard_retrieved :: bool
  ks_external_content_floor :: bool
  ks_input_safety :: bool
  ks_command_sandbox :: bool
  ks_fs_jail :: bool
  ks_network_egress :: bool
  ks_owner_pii_shadow :: bool
  ks_mcp_allowlist :: bool
  ks_cost_store :: bool
  ks_daily_cost_cap :: "rat option"
  ks_ledger_passed :: bool
  ks_ledger_enabled :: bool
  ks_remote_evaluator :: bool

definition SHADOW_POINTS :: "hook_point list" where
  "SHADOW_POINTS = [PRE_TOOL_USE, PRE_LLM_CALL, PRE_RESPONSE, PRE_EGRESS]"

definition opt :: "bool \<Rightarrow> 'a list \<Rightarrow> 'a list" where
  "opt b xs = (if b then xs else [])"

definition register_side_effect_ledger :: "bool \<Rightarrow> (hook_id \<times> hook_point option) list" where
  "register_side_effect_ledger has_ledger =
     opt has_ledger [(HPostToolUseLedger, None)] @ [(HPreToolUseLedger, None)]"

text \<open>The ledger the kernel gets: the one passed, or else the process's shared one unless it is switched off.\<close>

definition has_ledger :: "kernel_settings \<Rightarrow> bool" where
  "has_ledger ks = (ks_ledger_passed ks \<or> ks_ledger_enabled ks)"

definition ledger_high_risk_only :: "kernel_settings \<Rightarrow> bool" where
  "ledger_high_risk_only ks = (\<not> ks_ledger_passed ks \<and> ks_ledger_enabled ks)"

definition registrations :: "kernel_settings \<Rightarrow> (hook_id \<times> hook_point option) list" where
  "registrations ks =
     opt (ks_guards_a_bot ks) [(HBotStatus, None), (HBotStatus, Some PRE_LLM_CALL)]
     @ opt (ks_prompt_guard_inbound ks) [(HPromptGuardInbound, None)]
     @ [(HDataClassifier, None)]
     @ opt (ks_prompt_guard_inbound ks) [(HPromptGuardInbound, Some PRE_TURN)]
     @ [(HDataClassifier, Some PRE_TURN)]
     @ opt (ks_input_safety ks) [(HInputSafety, None)]
     @ [(HResponseSafety, None), (HRedactionFilter, None), (HEgressGate, None), (HCredentialBroker, None),
        (HPersonaSurface, None), (HCallerPolicy, None), (HPluginEgress, None), (HPluginEgressOutcome, None),
        (HToolPolicy, None)]
     @ opt (ks_command_sandbox ks) [(HCommandSandbox, None)]
     @ opt (ks_fs_jail ks) [(HFSJail, None)]
     @ opt (ks_network_egress ks) [(HNetworkEgress, None)]
     @ opt (ks_owner_pii_shadow ks) (map (\<lambda>p. (HOwnerPiiShadow, Some p)) SHADOW_POINTS)
     @ opt (ks_mcp_allowlist ks) [(HMCPAllowlist, None)]
     @ opt (ks_cost_store ks \<and> ks_daily_cost_cap ks \<noteq> None) [(HCostLimiter, None)]
     @ [(HOutputClassifier, None), (HCapabilityRedaction, None)]
     @ register_side_effect_ledger (has_ledger ks)
     @ opt (ks_prompt_guard_retrieved ks) [(HPromptGuardRetrieved, None)]
     @ opt (ks_external_content_floor ks) [(HExternalContentFloor, None)]
     @ [(HMcpClientEgress, None), (HDestructiveApproval, None), (HEvaluator, None)]"

text \<open>The last log line reads \<open>registry.signal_count()\<close>, and \<open>registry\<close> is bound in the branch of the in-process
  evaluator only.\<close>

definition build_default_kernel ::
  "'s hook_calls \<Rightarrow> nat \<times> 's bot_source \<Rightarrow> 's audit_sink \<Rightarrow> kernel_settings \<Rightarrow> 's bot_source option
    \<Rightarrow> ('s kernel \<times> 's bot_source option) result"
where
  "build_default_kernel calls bh sink ks src =
     (case register_hooks (map (\<lambda>(h, pt). (hook_of calls bh h, pt)) (registrations ks)) (new_kernel (Some sink)) src of
        Inl e \<Rightarrow> Inl e
      | Inr (k, src') \<Rightarrow>
          let locked = init_lock k
          in if ks_remote_evaluator ks then
               Raise ''UnboundLocalError''
                 ''cannot access local variable 'registry' where it is not associated with a value''
             else Inr (locked, src'))"

section \<open>Reading the environment\<close>

type_synonym os_env = "string \<Rightarrow> string option"

definition getenv :: "os_env \<Rightarrow> string \<Rightarrow> string \<Rightarrow> string" where
  "getenv ev name dflt = (case ev name of None \<Rightarrow> dflt | Some v \<Rightarrow> v)"

definition flag_text :: "os_env \<Rightarrow> string \<Rightarrow> string \<Rightarrow> string" where
  "flag_text ev name dflt = py_lower (strip (getenv ev name dflt))"

definition TRUTHY :: "string list" where
  "TRUTHY = [''1'', ''true'', ''yes'', ''on'']"

definition FALSY :: "string list" where
  "FALSY = [''0'', ''false'', ''no'', ''off'']"

definition kernel_enabled :: "os_env \<Rightarrow> bool" where
  "kernel_enabled ev = (flag_text ev ''EVARNESS_GOVERNANCE_ENABLED'' [] \<notin> set FALSY)"

definition parse_csv_env :: "os_env \<Rightarrow> string \<Rightarrow> string list option" where
  "parse_csv_env ev name =
     (let raw = strip (getenv ev name []);
          values = remdups (filter (\<lambda>t. t \<noteq> []) (map strip (split_on (CHR '','') raw)))
      in if raw = [] \<or> values = [] then None else Some values)"

definition confirm_once_tools_from_env :: "os_env \<Rightarrow> string list" where
  "confirm_once_tools_from_env ev =
     (let raw = strip (getenv ev ''EVARNESS_GOVERNANCE_CONFIRM_ONCE_TOOLS'' []) in
      if raw = [] \<or> py_lower raw = ''none'' then []
      else case parse_csv_env ev ''EVARNESS_GOVERNANCE_CONFIRM_ONCE_TOOLS'' of None \<Rightarrow> [] | Some ts \<Rightarrow> ts)"

definition cloud_class :: "string \<Rightarrow> classification option" where
  "cloud_class t = (if t = ''personal'' then Some Personal else if t = ''internal'' then Some Internal else None)"

definition parse_cloud_for_from_env :: "os_env \<Rightarrow> classification list" where
  "parse_cloud_for_from_env ev =
     (let raw = strip (getenv ev ''EVARNESS_GOVERNANCE_TRUSTED_CLOUD_FOR'' []) in
      if raw = [] then []
      else remdups (List.map_filter (\<lambda>t. cloud_class (py_lower (strip t))) (split_on (CHR '','') raw)))"

text \<open>\<open>_command_sandbox_from_env\<close>, \<open>_fs_jail_from_env\<close>, \<open>_network_egress_from_env\<close> and the switch of the MCP
  allowlist: the same reading of four flags.\<close>

definition auto_on :: "os_env \<Rightarrow> string \<Rightarrow> bool" where
  "auto_on ev name = (let raw = flag_text ev name [] in raw = [] \<or> raw \<in> set TRUTHY)"

definition command_sandbox_from_env :: "os_env \<Rightarrow> bool" where
  "command_sandbox_from_env ev = auto_on ev ''EVARNESS_GOVERNANCE_COMMAND_SANDBOX''"

definition fs_jail_from_env :: "os_env \<Rightarrow> bool" where
  "fs_jail_from_env ev = auto_on ev ''EVARNESS_GOVERNANCE_FS_JAIL''"

definition network_egress_from_env :: "os_env \<Rightarrow> bool" where
  "network_egress_from_env ev = auto_on ev ''EVARNESS_GOVERNANCE_NETWORK_EGRESS''"

text \<open>The governance blocks of the MCP servers: the parsed file and the schema validation of one block are arguments. A
  later block of the same server replaces an earlier one; an invalid one is skipped.\<close>

fun set_server ::
  "string \<Rightarrow> mcp_server_governance \<Rightarrow> (string \<times> mcp_server_governance) list \<Rightarrow> (string \<times> mcp_server_governance) list"
where
  "set_server n g [] = [(n, g)]"
| "set_server n g ((m, h) # rest) = (if m = n then (n, g) # rest else (m, h) # set_server n g rest)"

definition add_server ::
  "(dict \<Rightarrow> mcp_server_governance result) \<Rightarrow> (string \<times> mcp_server_governance) list \<Rightarrow> pyval
    \<Rightarrow> (string \<times> mcp_server_governance) list"
where
  "add_server validate acc entry =
     (case entry of
        PDict e \<Rightarrow>
          (case nonempty_str (dget e ''name'') of
             None \<Rightarrow> acc
           | Some name \<Rightarrow>
             (case dget e ''governance'' of
                PDict g \<Rightarrow> (case validate g of Inl _ \<Rightarrow> acc | Inr gov \<Rightarrow> set_server name gov acc)
              | _ \<Rightarrow> acc))
      | _ \<Rightarrow> acc)"

definition parse_mcp_governance_map ::
  "(dict \<Rightarrow> mcp_server_governance result) \<Rightarrow> dict \<Rightarrow> (string \<times> mcp_server_governance) list option"
where
  "parse_mcp_governance_map validate raw_doc =
     (case dget raw_doc ''servers'' of
        PList entries \<Rightarrow> (case foldl (add_server validate) [] entries of [] \<Rightarrow> None | m \<Rightarrow> Some m)
      | _ \<Rightarrow> None)"

text \<open>The file as read: \<open>None\<close> when it is missing, an exception when reading or decoding it raises.\<close>

definition mcp_allowlist_from_env ::
  "(dict \<Rightarrow> mcp_server_governance result) \<Rightarrow> os_env \<Rightarrow> pyval result option
    \<Rightarrow> bool \<times> (string \<times> mcp_server_governance) list option"
where
  "mcp_allowlist_from_env validate ev file =
     (if \<not> auto_on ev ''EVARNESS_GOVERNANCE_MCP_ALLOWLIST'' then (False, None)
      else case file of
             Some (Inr loaded) \<Rightarrow>
               (case (if truthy loaded then loaded else PDict []) of
                  PDict d \<Rightarrow> (True, parse_mcp_governance_map validate d)
                | _ \<Rightarrow> (True, None))
           | _ \<Rightarrow> (True, None))"

section \<open>The side-effect ledger settings\<close>

record ledger_setting =
  lg_enabled :: bool
  lg_record_all :: bool
  lg_problems :: "string list"
  lg_notices :: "string list"

definition LEDGER_ENV :: string where
  "LEDGER_ENV = ''EVARNESS_GOVERNANCE_SIDE_EFFECT_LEDGER''"

definition LEDGER_ALL_ENV :: string where
  "LEDGER_ALL_ENV = ''EVARNESS_GOVERNANCE_SIDE_EFFECT_LEDGER_ALL''"

definition ACCEPTED_BOOLEANS :: string where
  "ACCEPTED_BOOLEANS = ''on: 1/true/yes/on, off: 0/false/no/off''"

definition unrecognised :: "string \<Rightarrow> bool" where
  "unrecognised t = (t \<noteq> [] \<and> t \<notin> set FALSY \<and> t \<notin> set TRUTHY)"

definition parse_side_effect_ledger_settings :: "string option \<Rightarrow> string option \<Rightarrow> ledger_setting" where
  "parse_side_effect_ledger_settings ledger_raw all_raw =
     (let ledger = py_lower (strip (case ledger_raw of None \<Rightarrow> [] | Some t \<Rightarrow> t));
          scope = py_lower (strip (case all_raw of None \<Rightarrow> [] | Some t \<Rightarrow> t));
          enabled = (ledger \<notin> set FALSY);
          record_all = (scope \<in> set TRUTHY);
          p1 = (if unrecognised ledger then
                  [''governance: '' @ LEDGER_ENV @ ''='' @ repr_str ledger @ '' is not recognised ('' @ ACCEPTED_BOOLEANS
                   @ ''); applying the default, on: the side-effect ledger for high-risk calls.''] else []);
          p2 = (if unrecognised scope then
                  [''governance: '' @ LEDGER_ALL_ENV @ ''='' @ repr_str scope @ '' is not recognised ('' @ ACCEPTED_BOOLEANS
                   @ ''); applying the default, off: high-risk calls only.''] else []);
          p3 = (if record_all \<and> \<not> enabled then
                  [''governance: '' @ LEDGER_ALL_ENV @ ''='' @ repr_str scope @ '' has no effect while '' @ LEDGER_ENV
                   @ '' is off: there is no ledger to record into.''] else []);
          all' = (record_all \<and> enabled);
          n1 = (if ledger \<in> set TRUTHY \<and> \<not> all' \<and> scope \<notin> set TRUTHY then
                  [''governance: '' @ LEDGER_ENV @ ''='' @ repr_str ledger
                   @ '' covers high-risk calls only (destructive tools and pinned writes). It no longer also records ''
                   @ ''every other non-read call; set '' @ LEDGER_ALL_ENV @ ''=1 for that.''] else [])
      in \<lparr>lg_enabled = enabled, lg_record_all = all', lg_problems = p1 @ p2 @ p3, lg_notices = n1\<rparr>)"

text \<open>Whether a ledger is passed to the build and whether one is wanted at all; opening it may fail.\<close>

definition side_effect_ledger_from_env :: "os_env \<Rightarrow> bool \<Rightarrow> bool \<times> bool" where
  "side_effect_ledger_from_env ev opens =
     (let st = parse_side_effect_ledger_settings (ev LEDGER_ENV) (ev LEDGER_ALL_ENV) in
      if \<not> lg_enabled st then (False, False)
      else if \<not> lg_record_all st then (False, True)
      else (opens, opens))"

section \<open>Cost and evaluator settings\<close>

definition DEFAULT_DAILY_CAP_USD :: rat where
  "DEFAULT_DAILY_CAP_USD = 5"

record cost_settings =
  cs_store :: bool
  cs_cap :: "rat option"
  cs_user_id :: string
  cs_enforce :: bool

definition cost_limiter_from_env :: "(string \<Rightarrow> rat option) \<Rightarrow> os_env \<Rightarrow> bool \<Rightarrow> cost_settings" where
  "cost_limiter_from_env float_of ev opens =
     (let u = getenv ev ''EVARNESS_USER_ID'' [];
          u1 = strip (if u = [] then ''local'' else u);
          user = (if u1 = [] then ''local'' else u1);
          enforce = (flag_text ev ''EVARNESS_GOVERNANCE_COST_ENFORCE'' ''1'' \<in> set TRUTHY);
          off = \<lparr>cs_store = False, cs_cap = None, cs_user_id = user, cs_enforce = enforce\<rparr>
      in if flag_text ev ''EVARNESS_GOVERNANCE_COST_LIMITER_ENABLED'' ''0'' \<notin> set TRUTHY then off
         else
           let cap_raw = strip (getenv ev ''EVARNESS_GOVERNANCE_DAILY_COST_CAP_USD'' []);
               cap = (if cap_raw = [] then DEFAULT_DAILY_CAP_USD
                      else case float_of cap_raw of None \<Rightarrow> DEFAULT_DAILY_CAP_USD | Some c \<Rightarrow> c)
           in if \<not> opens then off else off\<lparr>cs_store := True, cs_cap := Some cap\<rparr>)"

definition goal_drift_overrides :: "(string \<Rightarrow> rat option) \<Rightarrow> os_env \<Rightarrow> rat option" where
  "goal_drift_overrides float_of ev =
     (let raw = strip (getenv ev ''EVARNESS_GOVERNANCE_GOAL_DRIFT_MAX_DISTANCE'' []) in
      if raw = [] then None
      else case float_of raw of
             None \<Rightarrow> None
           | Some v \<Rightarrow> if 0 \<le> v \<and> v \<le> 2 then Some v else None)"

definition remote_evaluator_from_env :: "os_env \<Rightarrow> bool \<Rightarrow> bool" where
  "remote_evaluator_from_env ev client_ok =
     (flag_text ev ''EVARNESS_GOVERNANCE_EVALUATOR_MODE'' ''local'' = ''remote'' \<and> client_ok)"

definition approvals_from_env :: "os_env \<Rightarrow> bool \<Rightarrow> bool" where
  "approvals_from_env ev opens = (flag_text ev ''EVARNESS_GOVERNANCE_APPROVALS_ENABLED'' ''1'' \<in> set TRUTHY \<and> opens)"

definition FLOOR_ENV :: string where
  "FLOOR_ENV = ''EVARNESS_GOVERNANCE_EXTERNAL_CONTENT_FLOOR''"

definition floor_enabled :: "os_env \<Rightarrow> bool" where
  "floor_enabled ev = (flag_text ev FLOOR_ENV [] \<notin> set FALSY)"

text \<open>\<open>parse_owner_pii_mode\<close> (\<open>plugins/owner_pii_shadow.py\<close>): whether the shadow mode runs, and the warning.\<close>

definition parse_owner_pii_mode :: "string option \<Rightarrow> bool \<times> string option" where
  "parse_owner_pii_mode raw =
     (let value = py_lower (strip (case raw of None \<Rightarrow> [] | Some t \<Rightarrow> t)) in
      if value \<in> {[], ''off'', ''0'', ''false'', ''no''} then (False, None)
      else if value = ''shadow'' then (True, None)
      else (True, Some (''EVARNESS_GOVERNANCE_OWNER_PII='' @ repr_str value @ '': ''
              @ (if value = ''enforce'' then ''enforce is not built yet (ADR-0125 PR 5)''
                 else repr_str value @ '' is not a mode'')
              @ ''; accepted values are off, shadow. Running shadow: ''
              @ ''owner PII is audited and NOTHING is masked or denied.'')))"

text \<open>What lies outside the environment: whether the stores open and the optional parts build.\<close>

record build_outcomes =
  bo_guards_a_bot :: bool
  bo_prompt_guards :: "bool \<times> bool"
  bo_input_safety :: bool
  bo_cost_store_opens :: bool
  bo_ledger_opens :: bool
  bo_evaluator_client :: bool

definition settings_from_env :: "(string \<Rightarrow> rat option) \<Rightarrow> os_env \<Rightarrow> build_outcomes \<Rightarrow> kernel_settings option" where
  "settings_from_env float_of ev bo =
     (if \<not> kernel_enabled ev then None
      else
        let cost = cost_limiter_from_env float_of ev (bo_cost_store_opens bo);
            (passed, wanted) = side_effect_ledger_from_env ev (bo_ledger_opens bo);
            guards = (flag_text ev ''EVARNESS_GOVERNANCE_PROMPT_GUARD'' [] \<in> set TRUTHY)
        in Some \<lparr>ks_guards_a_bot = bo_guards_a_bot bo,
             ks_prompt_guard_inbound = (guards \<and> fst (bo_prompt_guards bo)),
             ks_prompt_guard_retrieved = (guards \<and> snd (bo_prompt_guards bo)),
             ks_external_content_floor = floor_enabled ev,
             ks_input_safety = (flag_text ev ''EVARNESS_GOVERNANCE_INPUT_SAFETY'' [] \<in> set TRUTHY \<and> bo_input_safety bo),
             ks_command_sandbox = command_sandbox_from_env ev, ks_fs_jail = fs_jail_from_env ev,
             ks_network_egress = network_egress_from_env ev, ks_owner_pii_shadow = fst (parse_owner_pii_mode (ev ''EVARNESS_GOVERNANCE_OWNER_PII'')),
             ks_mcp_allowlist = auto_on ev ''EVARNESS_GOVERNANCE_MCP_ALLOWLIST'',
             ks_cost_store = cs_store cost, ks_daily_cost_cap = cs_cap cost,
             ks_ledger_passed = passed, ks_ledger_enabled = wanted,
             ks_remote_evaluator = remote_evaluator_from_env ev (bo_evaluator_client bo)\<rparr>)"


section \<open>The registry of the default kernel\<close>

text \<open>The hooks of each point, in the order they run.\<close>

fun default_hooks :: "kernel_settings \<Rightarrow> hook_point \<Rightarrow> hook_id list" where
  "default_hooks ks PRE_TURN = opt (ks_prompt_guard_inbound ks) [HPromptGuardInbound]
     @ opt (ks_input_safety ks) [HInputSafety] @ [HDataClassifier]"
| "default_hooks ks PRE_CLASSIFY = opt (ks_prompt_guard_inbound ks) [HPromptGuardInbound] @ [HDataClassifier]"
| "default_hooks ks PRE_LLM_CALL = opt (ks_owner_pii_shadow ks) [HOwnerPiiShadow] @ opt (ks_guards_a_bot ks) [HBotStatus]
     @ [HRedactionFilter, HEgressGate] @ opt (ks_cost_store ks \<and> ks_daily_cost_cap ks \<noteq> None) [HCostLimiter]"
| "default_hooks ks PRE_TOOL_USE = opt (ks_owner_pii_shadow ks) [HOwnerPiiShadow] @ opt (ks_guards_a_bot ks) [HBotStatus]
     @ [HCallerPolicy, HPersonaSurface] @ opt (ks_mcp_allowlist ks) [HMCPAllowlist] @ [HToolPolicy]
     @ opt (ks_command_sandbox ks) [HCommandSandbox] @ opt (ks_fs_jail ks) [HFSJail]
     @ opt (ks_network_egress ks) [HNetworkEgress] @ [HDestructiveApproval, HCredentialBroker, HPreToolUseLedger]"
| "default_hooks ks POST_TOOL_USE = [HCapabilityRedaction, HOutputClassifier] @ opt (has_ledger ks) [HPostToolUseLedger]
     @ [HMcpClientEgress] @ opt (ks_prompt_guard_retrieved ks) [HPromptGuardRetrieved]
     @ opt (ks_external_content_floor ks) [HExternalContentFloor]"
| "default_hooks ks POST_STEP = [HEvaluator]"
| "default_hooks ks PRE_RESPONSE = opt (ks_owner_pii_shadow ks) [HOwnerPiiShadow] @ [HResponseSafety]"
| "default_hooks ks PRE_EGRESS = opt (ks_owner_pii_shadow ks) [HOwnerPiiShadow] @ [HPluginEgress]"
| "default_hooks ks POST_EGRESS = [HPluginEgressOutcome]"

lemma opt_simps [simp]:
  "filter P (opt b xs) = opt b (filter P xs)" "map f (opt b xs) = opt b (map f xs)" "opt b [] = []"
  "mset (opt b xs) = (if b then mset xs else {#})" "x \<in> set (opt b xs) \<longleftrightarrow> b \<and> x \<in> set xs"
  by (simp_all add: opt_def)

lemma opt_ball [simp]: "(\<forall>x \<in> set (opt b xs). P x) \<longleftrightarrow> (b \<longrightarrow> (\<forall>x \<in> set xs. P x))"
  by (cases b) (simp_all add: opt_def)

lemma sorted_wrt_opt [simp]: "sorted_wrt R (opt b [x])"
  by (simp add: opt_def)

lemma sort_key_map: "sort_key f (map g xs) = map g (sort_key (\<lambda>x. f (g x)) xs)"
proof (induction xs)
  case (Cons x xs)
  have "insort_key f (g x) (map g ys) = map g (insort_key (\<lambda>x. f (g x)) x ys)" for ys by (induction ys) auto
  then show ?case using Cons by simp
qed simp

lemma sort_key_is:
  assumes "mset ys = mset xs" and "sorted (map f ys)" and "distinct (map f ys)"
  shows "sort_key f xs = ys"
proof (rule properties_for_sort_key [OF assms(1) _ assms(2)])
  fix k assume "k \<in> set ys"
  have inj: "inj_on f (set ys)" using assms(3) by (simp add: distinct_map)
  have len: "length (filter (\<lambda>x. f k = f x) zs) \<le> 1" if "mset zs = mset ys" for zs
  proof -
    have "distinct zs" "set zs = set ys" using that assms(3) by (metis distinct_map mset_eq_imp_distinct_iff, metis mset_eq_setD)
    then have "set (filter (\<lambda>x. f k = f x) zs) \<subseteq> {k}" using inj \<open>k \<in> set ys\<close> by (auto simp: inj_on_def)
    then show ?thesis using \<open>distinct zs\<close> by (metis card_mono distinct_card distinct_filter finite.emptyI finite.insertI is_singletonI is_singleton_altdef)
  qed
  have "mset (filter (\<lambda>x. f k = f x) ys) = mset (filter (\<lambda>x. f k = f x) xs)" using assms(1) by simp
  moreover have "length (filter (\<lambda>x. f k = f x) ys) \<le> 1" "length (filter (\<lambda>x. f k = f x) xs) \<le> 1"
    using len assms(1) by metis+
  ultimately show "filter (\<lambda>x. f k = f x) ys = filter (\<lambda>x. f k = f x) xs"
    by (cases "filter (\<lambda>x. f k = f x) ys"; cases "filter (\<lambda>x. f k = f x) xs") auto
qed

definition at_point :: "kernel_settings \<Rightarrow> hook_point \<Rightarrow> hook_id list" where
  "at_point ks p = map fst (filter (\<lambda>(h, pt). (case pt of Some q \<Rightarrow> q | None \<Rightarrow> class_point h) = p) (registrations ks))"

lemma default_hooks_mset: "mset (default_hooks ks p) = mset (at_point ks p)"
  by (cases p) (simp_all add: at_point_def registrations_def register_side_effect_ledger_def SHADOW_POINTS_def)

lemma default_hooks_strict: "sorted_wrt (<) (map class_priority (default_hooks ks p))"
  by (cases p) (simp_all add: sorted_wrt_append ball_Un)

lemma default_hooks_sorted:
  "sorted (map class_priority (default_hooks ks p))" "distinct (map class_priority (default_hooks ks p))"
  using default_hooks_strict [of ks p] unfolding strict_sorted_iff by simp_all

lemma sorted_registrations: "sort_key class_priority (at_point ks p) = default_hooks ks p"
  by (rule sort_key_is [OF default_hooks_mset default_hooks_sorted])

lemma register_hook_of:
  assumes "\<not> k_init_locked k" and "k_bot_hook k = None \<or> k_bot_hook k = Some bh"
  shows "\<exists>k' src'. register (hook_of calls bh h) pt k src = Inr (k', src') \<and> \<not> k_init_locked k'
    \<and> (k_bot_hook k' = None \<or> k_bot_hook k' = Some bh)"
  using assms by (cases bh) (auto simp: register_def hook_of_def Let_def split: option.split)

lemma register_hooks_of:
  "\<not> k_init_locked k \<Longrightarrow> k_bot_hook k = None \<or> k_bot_hook k = Some bh \<Longrightarrow>
   \<exists>k' src'. register_hooks (map (\<lambda>(h, pt). (hook_of calls bh h, pt)) regs) k src = Inr (k', src')
     \<and> (k_bot_hook k' = None \<or> k_bot_hook k' = Some bh)"
proof (induction regs arbitrary: k src)
  case (Cons r regs)
  obtain h pt where r: "r = (h, pt)" by (cases r)
  obtain k1 src1 where "register (hook_of calls bh h) pt k src = Inr (k1, src1)" "\<not> k_init_locked k1"
    "k_bot_hook k1 = None \<or> k_bot_hook k1 = Some bh"
    using register_hook_of [OF Cons.prems] by blast
  then show ?case using Cons.IH r by simp
qed simp

lemma register_hooks_audit: "register_hooks regs k src = Inr (k', src') \<Longrightarrow> k_audit_log k' = k_audit_log k"
proof (induction regs arbitrary: k src)
  case (Cons ha regs)
  then obtain k1 src1 where "register (fst ha) (snd ha) k src = Inr (k1, src1)" "register_hooks regs k1 src1 = Inr (k', src')"
    by (auto split: sum.splits prod.splits)
  then show ?case using Cons.IH register_result(3) by metis
qed simp

text \<open>What the build returns.\<close>

lemma build_result:
  assumes "\<not> ks_remote_evaluator ks"
  obtains k src' where "build_default_kernel calls bh sink ks src = Inr (k, src')" "k_init_locked k"
    "k_audit_log k = Some sink" "k_bot_hook k = None \<or> k_bot_hook k = Some bh"
    "\<And>p. k_hooks k p = map (hook_of calls bh) (default_hooks ks p)"
proof -
  let ?regs = "map (\<lambda>(h, pt). (hook_of calls bh h, pt)) (registrations ks)"
  have "\<not> k_init_locked (new_kernel (Some sink))" "k_bot_hook (new_kernel (Some sink)) = None \<or> k_bot_hook (new_kernel (Some sink)) = Some bh"
    by (simp_all add: new_kernel_def)
  from register_hooks_of [OF this] obtain k src'
    where k: "register_hooks ?regs (new_kernel (Some sink)) src = Inr (k, src')"
      and bot: "k_bot_hook k = None \<or> k_bot_hook k = Some bh" by blast
  have hooks: "k_hooks k p = map (hook_of calls bh) (default_hooks ks p)" for p
  proof -
    have "(\<lambda>ha. point_of ha = p) \<circ> (\<lambda>(h, pt). (hook_of calls bh h, pt))
        = (\<lambda>(h, pt). (case pt of Some q \<Rightarrow> q | None \<Rightarrow> class_point h) = p)"
      by (auto simp: fun_eq_iff point_of_def split: option.split)
    then have "map fst (filter (\<lambda>ha. point_of ha = p) ?regs) = map (hook_of calls bh) (at_point ks p)"
      by (simp add: at_point_def filter_map split_beta)
    then show ?thesis using registry_is_stable_sort [OF k, of p] by (simp add: sort_key_map sorted_registrations)
  qed
  have "k_audit_log (init_lock k) = Some sink"
    using register_hooks_audit [OF k] by (simp add: init_lock_def new_kernel_def)
  moreover have "build_default_kernel calls bh sink ks src = Inr (init_lock k, src')"
    using k assms by (simp add: build_default_kernel_def Let_def)
  moreover have "k_hooks (init_lock k) p = map (hook_of calls bh) (default_hooks ks p)" for p
    using hooks by (simp add: init_lock_def)
  ultimately show thesis using that [of "init_lock k" src'] bot by (simp add: init_lock_def)
qed


section \<open>What the build guarantees\<close>

text \<open>The default kernel has the hooks the wiring says, in the order the code says. With the evaluator in process,
  the build returns a locked kernel with its ledger, whose hooks at every point are exactly \<open>default_hooks\<close>, in that
  order: at a tool call the caller policy, the persona surface and the tool policy, the approval hook, then the
  credential broker, then the pre-execution ledger, with the optional guards at their places between, and at a model
  call redaction, then the egress gate, then the cost limiter if there is one.\<close>

theorem default_kernel_registry:
  assumes "\<not> ks_remote_evaluator ks"
  shows "\<exists>k src'. build_default_kernel calls bh sink ks src = Inr (k, src') \<and> k_init_locked k \<and> k_audit_log k = Some sink
    \<and> (\<forall>p. k_hooks k p = map (hook_of calls bh) (default_hooks ks p))
    \<and> (\<forall>p. sorted_wrt (<) (map hk_priority (k_hooks k p)))
    \<and> (\<forall>h. \<exists>e. register h None k src' = Inl e)"
proof -
  obtain k src' where k: "build_default_kernel calls bh sink ks src = Inr (k, src')" "k_init_locked k"
      "k_audit_log k = Some sink" "\<And>p. k_hooks k p = map (hook_of calls bh) (default_hooks ks p)"
    using build_result [OF assms, of calls bh sink src] by metis
  have "map hk_priority (k_hooks k p) = map class_priority (default_hooks ks p)" for p by (simp add: k(4))
  then have "sorted_wrt (<) (map hk_priority (k_hooks k p))" for p by (simp add: default_hooks_strict)
  then show ?thesis using k by (auto simp: register_def)
qed

definition plain_settings :: kernel_settings where
  "plain_settings = \<lparr>ks_guards_a_bot = False, ks_prompt_guard_inbound = False, ks_prompt_guard_retrieved = False,
     ks_external_content_floor = True, ks_input_safety = False, ks_command_sandbox = True, ks_fs_jail = True,
     ks_network_egress = True, ks_owner_pii_shadow = True, ks_mcp_allowlist = True, ks_cost_store = False,
     ks_daily_cost_cap = None, ks_ledger_passed = False, ks_ledger_enabled = True, ks_remote_evaluator = False\<rparr>"

theorem default_kernel_registry_witness:
  "\<exists>(k :: unit kernel) src'. build_default_kernel (\<lambda>h ctx s. (Inr (decision Allow []), s)) (0, Pair None) (\<lambda>e s. (Inr 1, s))
       plain_settings None = Inr (k, src')
     \<and> hook_names k PRE_TOOL_USE =
         [''owner_pii_shadow'', ''caller_policy'', ''persona_surface'', ''mcp_allowlist'', ''tool_policy'', ''command_sandbox'',
          ''fs_jail'', ''network_egress'', ''destructive_approval'', ''credential_broker'', ''pre_tool_use_ledger'']"
proof -
  have "\<not> ks_remote_evaluator plain_settings" by (simp add: plain_settings_def)
  from default_kernel_registry [OF this, where ?'a = unit and calls = "\<lambda>h ctx s. (Inr (decision Allow []), s)"
      and bh = "(0, Pair None)" and sink = "\<lambda>e s. (Inr 1, s)" and src = None]
  obtain k :: "unit kernel" and src' where k: "build_default_kernel (\<lambda>h ctx s. (Inr (decision Allow []), s)) (0, Pair None) (\<lambda>e s. (Inr 1, s))
       plain_settings None = Inr (k, src')"
    "k_hooks k PRE_TOOL_USE = map (hook_of (\<lambda>h ctx s. (Inr (decision Allow []), s)) (0, Pair None)) (default_hooks plain_settings PRE_TOOL_USE)"
    by blast
  then show ?thesis by (auto simp: hook_names_def plain_settings_def opt_def)
qed


definition remote_env :: os_env where
  "remote_env n = (if n = ''EVARNESS_GOVERNANCE_EVALUATOR_MODE'' then Some ''remote'' else None)"

definition demo_outcomes :: build_outcomes where
  "demo_outcomes = \<lparr>bo_guards_a_bot = False, bo_prompt_guards = (False, False), bo_input_safety = False,
     bo_cost_store_opens = True, bo_ledger_opens = True, bo_evaluator_client = True\<rparr>"


text \<open>A mistyped switch turns a guard off. A value that is neither an accepted on nor an accepted off spelling
  leaves the kernel, the ledger and the external-content floor on, as their comments say; the same value switches off
  the command sandbox, the write jail, the network guard and the MCP allowlist, whose comments name only the off
  spellings as turning them off.\<close>

theorem mistyped_switch_turns_a_guard_off:
  assumes "\<forall>n \<in> {''EVARNESS_GOVERNANCE_ENABLED'', LEDGER_ENV, FLOOR_ENV, ''EVARNESS_GOVERNANCE_COMMAND_SANDBOX'',
       ''EVARNESS_GOVERNANCE_FS_JAIL'', ''EVARNESS_GOVERNANCE_NETWORK_EGRESS'', ''EVARNESS_GOVERNANCE_MCP_ALLOWLIST''}.
         ev n = Some t" and "unrecognised (py_lower (strip t))"
  shows "\<exists>ks. settings_from_env float_of ev bo = Some ks \<and> ks_external_content_floor ks
    \<and> (bo_ledger_opens bo \<longrightarrow> has_ledger ks)
    \<and> \<not> ks_command_sandbox ks \<and> \<not> ks_fs_jail ks \<and> \<not> ks_network_egress ks \<and> \<not> ks_mcp_allowlist ks"
proof -
  have t: "py_lower (strip t) \<noteq> []" "py_lower (strip t) \<notin> set FALSY" "py_lower (strip t) \<notin> set TRUTHY"
    using assms(2) by (simp_all add: unrecognised_def)
  have flag: "ev n = Some t \<Longrightarrow> flag_text ev n dflt = py_lower (strip t)" for n dflt
    by (simp add: flag_text_def getenv_def)
  have off: "ev n = Some t \<Longrightarrow> \<not> auto_on ev n" for n
    unfolding auto_on_def Let_def using flag [of n] t by simp
  have set: "ev ''EVARNESS_GOVERNANCE_ENABLED'' = Some t" "ev LEDGER_ENV = Some t" "ev FLOOR_ENV = Some t"
    "ev ''EVARNESS_GOVERNANCE_COMMAND_SANDBOX'' = Some t" "ev ''EVARNESS_GOVERNANCE_FS_JAIL'' = Some t"
    "ev ''EVARNESS_GOVERNANCE_NETWORK_EGRESS'' = Some t" "ev ''EVARNESS_GOVERNANCE_MCP_ALLOWLIST'' = Some t"
    using assms(1) by simp_all
  have on: "kernel_enabled ev" unfolding kernel_enabled_def flag [OF set(1)] using t(2) by simp
  have floor: "floor_enabled ev" unfolding floor_enabled_def flag [OF set(3)] using t(2) by simp
  have enabled: "lg_enabled (parse_side_effect_ledger_settings (ev LEDGER_ENV) a)" for a
    unfolding set(2) parse_side_effect_ledger_settings_def Let_def using t(2) by simp
  obtain passed wanted where pw: "side_effect_ledger_from_env ev (bo_ledger_opens bo) = (passed, wanted)" by (metis surj_pair)
  then have ledger: "wanted" if "bo_ledger_opens bo"
    using enabled that by (auto simp: side_effect_ledger_from_env_def Let_def split: if_splits)
  have off4: "\<not> command_sandbox_from_env ev" "\<not> fs_jail_from_env ev" "\<not> network_egress_from_env ev"
    "\<not> auto_on ev ''EVARNESS_GOVERNANCE_MCP_ALLOWLIST''"
    unfolding command_sandbox_from_env_def fs_jail_from_env_def network_egress_from_env_def
    using off [OF set(4)] off [OF set(5)] off [OF set(6)] off [OF set(7)] by simp_all
  show ?thesis
    using off4 ledger unfolding settings_from_env_def has_ledger_def
    by (simp add: on floor pw Let_def)
qed

theorem mistyped_switch_turns_a_guard_off_witness:
  "\<exists>ks. settings_from_env (\<lambda>_. None) (\<lambda>_. Some ''enabled'') demo_outcomes = Some ks
     \<and> has_ledger ks \<and> \<not> ks_fs_jail ks \<and> \<not> ks_network_egress ks"
proof -
  have "unrecognised (py_lower (strip ''enabled''))" by code_simp
  moreover have "bo_ledger_opens demo_outcomes" by (simp add: demo_outcomes_def)
  ultimately show ?thesis using mistyped_switch_turns_a_guard_off [where ev = "\<lambda>_. Some ''enabled''" and t = "''enabled''"] by blast
qed

text \<open>The ledger settings: on unless switched off by name, the wider scope only with the ledger on, and a warning for
  every value that was not understood or has no effect.\<close>

lemma ledger_settings_fail_safe:
  fixes lr ar :: "string option"
  defines "st \<equiv> parse_side_effect_ledger_settings lr ar"
    and "l \<equiv> py_lower (strip (case lr of None \<Rightarrow> [] | Some t \<Rightarrow> t))"
    and "a \<equiv> py_lower (strip (case ar of None \<Rightarrow> [] | Some t \<Rightarrow> t))"
  shows "lg_enabled st = (l \<notin> set FALSY)" "lg_record_all st = (a \<in> set TRUTHY \<and> l \<notin> set FALSY)"
    "lg_problems st = [] \<longleftrightarrow> \<not> unrecognised l \<and> \<not> unrecognised a \<and> (a \<in> set TRUTHY \<longrightarrow> l \<notin> set FALSY)"
  unfolding st_def l_def a_def parse_side_effect_ledger_settings_def Let_def by simp_all

end
