(* ===== verification/Judge.thy ===== *)
theory Judge
  imports Wiring Evaluator_Signals Texts
begin

text \<open>
  The opt-in judge of finished runs (\<open>evaluator/judge.py\<close>) and its prompt (\<open>evaluator/judge_template.py\<close>). The
  model behind the judge, the JSON decoder and the schema validation of its answer are arguments; the audit log is the
  kernel's.
\<close>

section \<open>The prompt\<close>

definition FENCE_OPEN :: string where "FENCE_OPEN = ''<trace>''"
definition FENCE_CLOSE :: string where "FENCE_CLOSE = ''</trace>''"
definition FENCE_ESCAPE :: string where "FENCE_ESCAPE = ''</_trace>''"

definition sanitize :: "string \<Rightarrow> string" where
  "sanitize txt = (if txt = [] then [] else py_replace FENCE_CLOSE FENCE_ESCAPE txt)"

definition render_user_prompt :: "string \<Rightarrow> string \<Rightarrow> string" where
  "render_user_prompt original_task trace_text =
     ''<original_task>'' @ NL # sanitize original_task @ NL # ''</original_task>'' @ NL # NL # FENCE_OPEN
       @ NL # sanitize trace_text @ NL # FENCE_CLOSE @ [NL]"

definition step_line :: "dict \<Rightarrow> string \<Rightarrow> string \<Rightarrow> string list" where
  "step_line step key label = (let v = dget step key in if truthy v then [''  '' @ label @ '': '' @ py_str v] else [])"

definition render_step :: "nat \<Rightarrow> dict \<Rightarrow> string list" where
  "render_step idx step =
     [''Step '' @ show_nat idx @ '':''] @ step_line step ''thought'' ''Thought'' @ step_line step ''action'' ''Action''
     @ step_line step ''action_input'' ''Action Input'' @ step_line step ''observation'' ''Observation''
     @ step_line step ''final_answer'' ''Final Answer'' @ [[]]"

definition render_trace_text :: "dict list \<Rightarrow> string" where
  "render_trace_text steps =
     rstrip (join [NL] (concat (map (\<lambda>(idx, step). render_step idx step) (enumerate 0 steps))))"

section \<open>The judge\<close>

datatype recommendation = RecAllow | RecWarn | RecHaltNext

fun recommendation_value :: "recommendation \<Rightarrow> string" where
  "recommendation_value RecAllow = ''allow''"
| "recommendation_value RecWarn = ''warn''"
| "recommendation_value RecHaltNext = ''halt_next''"

record judge_verdict =
  jv_hallucination :: rat
  jv_goal_alignment :: rat
  jv_tool_misuse :: rat
  jv_danger :: rat
  jv_recommend :: recommendation
  jv_rationale :: string

definition verdict_dump :: "judge_verdict \<Rightarrow> dict" where
  "verdict_dump v =
     [(''hallucination'', PFloat (jv_hallucination v)), (''goal_alignment'', PFloat (jv_goal_alignment v)),
      (''tool_misuse'', PFloat (jv_tool_misuse v)), (''danger'', PFloat (jv_danger v)),
      (''recommend'', PStr (recommendation_value (jv_recommend v))), (''rationale'', PStr (jv_rationale v))]"

record 's judge =
  jd_audit_log :: "'s audit_sink option"
  jd_enabled :: bool
  jd_model_tier :: tier
  jd_timeout_s :: rat

definition resolve_model_tier :: "os_env \<Rightarrow> tier \<Rightarrow> tier" where
  "resolve_model_tier ev requested =
     (if requested \<noteq> Tier3 then requested
      else if flag_text ev ''EVARNESS_GOVERNANCE_JUDGE_CLOUD_OPT_IN'' [] \<in> set TRUTHY then Tier3 else Tier2)"

definition new_judge :: "os_env \<Rightarrow> 's audit_sink option \<Rightarrow> bool \<Rightarrow> tier \<Rightarrow> rat \<Rightarrow> 's judge result" where
  "new_judge ev sink enabled model_tier timeout_s =
     (if timeout_s \<le> 0 then Raise ''ValueError'' ''timeout_s must be > 0''
      else Inr \<lparr>jd_audit_log = sink, jd_enabled = enabled, jd_model_tier = resolve_model_tier ev model_tier,
                jd_timeout_s = timeout_s\<rparr>)"

definition judge_row :: "'s judge \<Rightarrow> string \<Rightarrow> string \<Rightarrow> string \<Rightarrow> string \<Rightarrow> dict \<Rightarrow> audit_entry" where
  "judge_row j run_id agent_type sev reason payload =
     \<lparr>ae_run_id = run_id, ae_step_id = None, ae_agent_type = agent_type, ae_hook_point = ''post_run'',
      ae_plugin = ''llm_judge'', ae_decision = ''allow'', ae_severity = sev, ae_reason = reason,
      ae_classification = None, ae_tier = Some (tier_value (jd_model_tier j)), ae_payload = payload\<rparr>"

text \<open>A write to the audit log whose exceptions are swallowed.\<close>

definition judge_record :: "'s judge \<Rightarrow> audit_entry \<Rightarrow> 's \<Rightarrow> 's" where
  "judge_record j e s = (case jd_audit_log j of None \<Rightarrow> s | Some sink \<Rightarrow> snd (sink e s))"

definition audit_verdict :: "'s judge \<Rightarrow> string \<Rightarrow> string \<Rightarrow> judge_verdict \<Rightarrow> audit_entry" where
  "audit_verdict j run_id agent_type v =
     judge_row j run_id agent_type (if jv_recommend v \<noteq> RecAllow then ''warn'' else ''info'')
       (''llm_judge: recommend='' @ recommendation_value (jv_recommend v)) (verdict_dump v)"

definition strip_backticks :: "string \<Rightarrow> string" where
  "strip_backticks s = dropWhile (\<lambda>c. c = CHR ''`'') s"

text \<open>The text to decode: without a surrounding code fence.\<close>

definition unfence :: "string \<Rightarrow> string" where
  "unfence raw =
     (let candidate = strip raw in
      if startswith candidate ''```'' then
        let c1 = strip_backticks candidate;
            c2 = (if startswith (py_lower c1) ''json'' then drop 4 c1 else c1)
        in strip (rev (strip_backticks (rev (dropWhile (\<lambda>c. c = NL) c2))))
      else candidate)"

definition parse_verdict ::
  "(string \<Rightarrow> pyval result) \<Rightarrow> (dict \<Rightarrow> judge_verdict result) \<Rightarrow> string \<Rightarrow> judge_verdict result"
where
  "parse_verdict loads validate raw =
     (case loads (unfence raw) of
        Inl e \<Rightarrow> Raise ''ValueError'' (''judge output is not valid JSON: '' @ exn_msg e)
      | Inr data \<Rightarrow>
          (case data of
             PDict d \<Rightarrow> validate d
           | _ \<Rightarrow> Raise ''ValueError'' ''judge output must be a JSON object''))"

text \<open>The client is asked with the tier and the prompt, and may raise.\<close>

definition judge_trace ::
  "(tier \<Rightarrow> string \<Rightarrow> 's \<Rightarrow> string result \<times> 's) \<Rightarrow> (string \<Rightarrow> pyval result) \<Rightarrow> (dict \<Rightarrow> judge_verdict result) \<Rightarrow> 's judge
    \<Rightarrow> string \<Rightarrow> string \<Rightarrow> string \<Rightarrow> dict list \<Rightarrow> 's \<Rightarrow> judge_verdict option \<times> 's"
where
  "judge_trace client loads validate j run_id agent_type original_task steps s =
     (if \<not> jd_enabled j then (None, s)
      else
        case client (jd_model_tier j) (render_user_prompt original_task (render_trace_text steps)) s of
          (Inl e, s1) \<Rightarrow>
            (None, judge_record j (judge_row j run_id agent_type ''warn''
               (''llm_judge: client error ('' @ exn_class e @ '')'') [(''error'', PStr (exn_msg e))]) s1)
        | (Inr raw, s1) \<Rightarrow>
            (case parse_verdict loads validate raw of
               Inl e \<Rightarrow>
                 (None, judge_record j (judge_row j run_id agent_type ''warn''
                    (''llm_judge: parse failure ('' @ exn_class e @ '')'')
                    [(''error'', PStr (exn_msg e)), (''raw_excerpt'', PStr (take 500 raw))]) s1)
             | Inr v \<Rightarrow> (Some v, judge_record j (audit_verdict j run_id agent_type v) s1)))"

definition tier_named :: "string \<Rightarrow> tier option" where
  "tier_named s = (if s = ''tier_1'' then Some Tier1 else if s = ''tier_2'' then Some Tier2
     else if s = ''tier_3'' then Some Tier3 else None)"

definition judge_from_env :: "(string \<Rightarrow> rat option) \<Rightarrow> os_env \<Rightarrow> 's audit_sink option \<Rightarrow> 's judge result" where
  "judge_from_env parse_float ev sink =
     (let enabled = (flag_text ev ''EVARNESS_GOVERNANCE_JUDGE_ENABLED'' ''0'' \<in> set TRUTHY);
          model_tier = dflt Tier2 (tier_named (flag_text ev ''EVARNESS_GOVERNANCE_JUDGE_MODEL_TIER'' ''tier_2''));
          timeout_s = dflt 30 (parse_float (strip (getenv ev ''EVARNESS_GOVERNANCE_JUDGE_TIMEOUT_S'' ''30.0'')))
      in new_judge ev sink enabled model_tier (if timeout_s \<le> 0 then 30 else timeout_s))"

section \<open>The fence holds\<close>

lemma py_replace_head:
  assumes "startswith (py_replace FENCE_CLOSE FENCE_ESCAPE s) w" and "CHR ''<'' \<notin> set w"
  shows "startswith s w"
  using assms
proof (induction w arbitrary: s)
  case Nil
  then show ?case by simp
next
  case (Cons a w)
  obtain c t where s: "s = c # t" using Cons.prems(1) by (cases s) auto
  have nf: "\<not> startswith s FENCE_CLOSE"
  proof
    assume "startswith s FENCE_CLOSE"
    then have "py_replace FENCE_CLOSE FENCE_ESCAPE s = FENCE_ESCAPE @ py_replace FENCE_CLOSE FENCE_ESCAPE (drop (length FENCE_CLOSE) s)"
      by (simp add: s FENCE_CLOSE_def)
    then show False using Cons.prems by (simp add: FENCE_ESCAPE_def)
  qed
  then have "py_replace FENCE_CLOSE FENCE_ESCAPE s = c # py_replace FENCE_CLOSE FENCE_ESCAPE t" by (simp add: s)
  then show ?case using Cons by (simp add: s)
qed

lemma py_replace_none: "occurrences FENCE_CLOSE (py_replace FENCE_CLOSE FENCE_ESCAPE s) = 0"
proof (induction s rule: length_induct)
  case (1 s)
  show ?case
  proof (cases s)
    case (Cons c t)
    show ?thesis
    proof (cases "startswith s FENCE_CLOSE")
      case True
      then have "py_replace FENCE_CLOSE FENCE_ESCAPE s = FENCE_ESCAPE @ py_replace FENCE_CLOSE FENCE_ESCAPE (drop (length FENCE_CLOSE) s)"
        by (simp add: Cons FENCE_CLOSE_def)
      moreover have "occurrences FENCE_CLOSE (FENCE_ESCAPE @ u) = occurrences FENCE_CLOSE u" for u
        by (simp add: FENCE_ESCAPE_def FENCE_CLOSE_def)
      moreover have "length (drop (length FENCE_CLOSE) s) < length s" by (simp add: Cons FENCE_CLOSE_def)
      ultimately show ?thesis using 1 by simp
    next
      case False
      then have r: "py_replace FENCE_CLOSE FENCE_ESCAPE s = c # py_replace FENCE_CLOSE FENCE_ESCAPE t" by (simp add: Cons)
      have "\<not> startswith (c # py_replace FENCE_CLOSE FENCE_ESCAPE t) FENCE_CLOSE"
      proof
        assume "startswith (c # py_replace FENCE_CLOSE FENCE_ESCAPE t) FENCE_CLOSE"
        then have "c = CHR ''<''" "startswith (py_replace FENCE_CLOSE FENCE_ESCAPE t) ''/trace>''"
          by (simp_all add: FENCE_CLOSE_def)
        then have "startswith s FENCE_CLOSE" using py_replace_head [of t "''/trace>''"] by (simp add: Cons FENCE_CLOSE_def)
        then show False using False by simp
      qed
      moreover have "occurrences FENCE_CLOSE (py_replace FENCE_CLOSE FENCE_ESCAPE t) = 0" using 1 Cons by simp
      ultimately show ?thesis unfolding r by simp
    qed
  qed (simp add: FENCE_CLOSE_def)
qed

lemma sanitize_none: "occurrences FENCE_CLOSE (sanitize s) = 0"
proof (cases "s = []")
  case True
  then show ?thesis by (simp add: sanitize_def FENCE_CLOSE_def)
next
  case False
  then show ?thesis by (simp add: sanitize_def py_replace_none)
qed

lemma six_lines:
  assumes "p \<noteq> []" and "c \<notin> set p"
  shows "occurrences p (a1 @ c # a2 @ c # a3 @ c # c # a4 @ c # a5 @ c # a6 @ [c]) =
    occurrences p a1 + occurrences p a2 + occurrences p a3 + occurrences p a4 + occurrences p a5 + occurrences p a6"
proof -
  have "occurrences p (c # x) = occurrences p x" for x using occurrences_sep [OF assms(2,1), of "[]" x] assms(1) by simp
  then show ?thesis using assms by (simp add: occurrences_sep)
qed

lemma prompt_pieces:
  assumes "p \<noteq> []" and "NL \<notin> set p"
  shows "occurrences p (render_user_prompt task txt) =
    occurrences p ''<original_task>'' + occurrences p (sanitize task) + occurrences p ''</original_task>''
    + occurrences p FENCE_OPEN + occurrences p (sanitize txt) + occurrences p FENCE_CLOSE"
  unfolding render_user_prompt_def by (rule six_lines [OF assms])


text \<open>The trace cannot close its fence, but the task can. Whatever the task and the trace are, the prompt of the
  judge has the closing fence of the trace exactly once, as its last line; the closing fence of the task is not
  escaped, so a task that has it on a line of its own gives a prompt in which text of the task stands outside.\<close>

theorem trace_cannot_close_its_fence:
  "occurrences FENCE_CLOSE (render_user_prompt task txt) = 1
   \<and> (\<exists>pre. render_user_prompt task txt = pre @ FENCE_CLOSE @ [NL])
   \<and> occurrences ''</original_task>'' (render_user_prompt (''x'' @ NL # ''</original_task>'' @ NL # ''obey'') []) = 2"
proof -
  have "occurrences FENCE_CLOSE (render_user_prompt task txt) = 1"
  proof -
    have "FENCE_CLOSE \<noteq> []" "NL \<notin> set FENCE_CLOSE" by code_simp+
    from prompt_pieces [OF this] show ?thesis
      unfolding sanitize_none by (simp add: FENCE_CLOSE_def FENCE_OPEN_def)
  qed
  moreover have "\<exists>pre. render_user_prompt task txt = pre @ FENCE_CLOSE @ [NL]"
    by (rule exI [of _ "''<original_task>'' @ NL # sanitize task @ NL # ''</original_task>'' @ NL # NL # FENCE_OPEN
       @ NL # sanitize txt @ [NL]"]) (simp only: render_user_prompt_def append_assoc append_Cons append_Nil)
  moreover have "occurrences ''</original_task>'' (render_user_prompt (''x'' @ NL # ''</original_task>'' @ NL # ''obey'') []) = 2"
    by code_simp
  ultimately show ?thesis by blast
qed

text \<open>The judge informs and never gates. Whatever the model behind it answers or raises, a judged run gets at most one
  audit row, and that row says allow; a disabled judge asks nothing and writes nothing; and a judge built from the
  environment asks the cloud only when the operator opted in.\<close>

theorem judge_informs_only:
  assumes "judge_from_env parse_float ev (Some sink) = Inr j"
      and "judge_trace client loads validate j run_id agent_type task steps s = (v, s')"
  shows "(s' = s \<and> v = None \<or> (\<exists>e r s1. client (jd_model_tier j) (render_user_prompt task (render_trace_text steps)) s = (r, s1)
            \<and> s' = snd (sink e s1) \<and> ae_decision e = ''allow'' \<and> ae_run_id e = run_id \<and> ae_plugin e = ''llm_judge''
            \<and> (v = None \<longrightarrow> ae_severity e = ''warn'')))
    \<and> (flag_text ev ''EVARNESS_GOVERNANCE_JUDGE_ENABLED'' ''0'' \<notin> set TRUTHY \<longrightarrow> s' = s \<and> v = None)
    \<and> (jd_model_tier j = Tier3 \<longrightarrow> flag_text ev ''EVARNESS_GOVERNANCE_JUDGE_CLOUD_OPT_IN'' [] \<in> set TRUTHY)"
proof -
  have j: "jd_audit_log j = Some sink" "jd_enabled j = (flag_text ev ''EVARNESS_GOVERNANCE_JUDGE_ENABLED'' ''0'' \<in> set TRUTHY)"
    "\<exists>t. jd_model_tier j = resolve_model_tier ev t"
    using assms(1) by (auto simp: judge_from_env_def new_judge_def Let_def split: if_splits)
  have "jd_model_tier j = Tier3 \<longrightarrow> flag_text ev ''EVARNESS_GOVERNANCE_JUDGE_CLOUD_OPT_IN'' [] \<in> set TRUTHY"
    using j(3) by (auto simp: resolve_model_tier_def split: if_splits)
  moreover have "\<not> jd_enabled j \<Longrightarrow> s' = s \<and> v = None" using assms(2) by (simp add: judge_trace_def)
  moreover have "\<exists>e r s1. client (jd_model_tier j) (render_user_prompt task (render_trace_text steps)) s = (r, s1)
      \<and> s' = snd (sink e s1) \<and> ae_decision e = ''allow'' \<and> ae_run_id e = run_id \<and> ae_plugin e = ''llm_judge''
      \<and> (v = None \<longrightarrow> ae_severity e = ''warn'')" if "jd_enabled j"
  proof -
    obtain r s1 where c: "client (jd_model_tier j) (render_user_prompt task (render_trace_text steps)) s = (r, s1)"
      by (metis surj_pair)
    have row: "ae_decision (judge_row j run_id agent_type sev rs p) = ''allow''" "ae_run_id (judge_row j run_id agent_type sev rs p) = run_id"
      "ae_plugin (judge_row j run_id agent_type sev rs p) = ''llm_judge''" "ae_severity (judge_row j run_id agent_type sev rs p) = sev"
      for sev rs p by (simp_all add: judge_row_def)
    show ?thesis
      using assms(2) that c
      by (cases r; cases "parse_verdict loads validate (projr r)")
        (auto simp: judge_trace_def judge_record_def j(1) audit_verdict_def intro!: exI row)
  qed
  ultimately show ?thesis using j(2) by blast
qed

definition judge_env :: os_env where
  "judge_env n = (if n = ''EVARNESS_GOVERNANCE_JUDGE_ENABLED'' then Some ''1''
     else if n = ''EVARNESS_GOVERNANCE_JUDGE_MODEL_TIER'' then Some ''tier_3'' else None)"

definition demo_judge :: "audit_entry list judge" where
  "demo_judge = \<lparr>jd_audit_log = Some (\<lambda>e s. (Inr 1, s @ [e])), jd_enabled = True, jd_model_tier = Tier2, jd_timeout_s = 30\<rparr>"

theorem judge_informs_only_witness:
  "\<exists>e. snd (judge_trace (\<lambda>_ _ s. (Inl (PyExn ''TimeoutError'' ''30s''), s)) (\<lambda>_. Inr PNone)
      (\<lambda>_. Inl (PyExn ''ValidationError'' [])) demo_judge ''run1'' ''chat'' ''task'' [] []) = [e]
    \<and> ae_decision e = ''allow'' \<and> jd_model_tier demo_judge \<noteq> Tier3"
proof -
  let ?client = "(\<lambda>_ _ s. (Inl (PyExn ''TimeoutError'' ''30s''), s)) :: tier \<Rightarrow> string \<Rightarrow> audit_entry list \<Rightarrow> string result \<times> audit_entry list"
  let ?run = "judge_trace ?client (\<lambda>_. Inr PNone) (\<lambda>_. Inl (PyExn ''ValidationError'' [])) demo_judge ''run1'' ''chat'' ''task'' [] []"
  have texts: "flag_text judge_env ''EVARNESS_GOVERNANCE_JUDGE_ENABLED'' ''0'' \<in> set TRUTHY"
    "dflt Tier2 (tier_named (flag_text judge_env ''EVARNESS_GOVERNANCE_JUDGE_MODEL_TIER'' ''tier_2'')) = Tier3"
    "resolve_model_tier judge_env Tier3 = Tier2" by code_simp+
  have j: "judge_from_env (\<lambda>_. Some 30) judge_env (Some (\<lambda>e s. (Inr 1, s @ [e]))) = Inr demo_judge"
    using texts by (simp add: judge_from_env_def Let_def new_judge_def demo_judge_def)
  obtain v s' where r: "?run = (v, s')" by (metis surj_pair)
  have "s' \<noteq> []" using r by (auto simp: judge_trace_def judge_record_def demo_judge_def)
  then show ?thesis using judge_informs_only [OF j r] r by (auto simp: demo_judge_def)
qed

end
