(* ===== verification/Plugin_Egress.thy ===== *)
theory Plugin_Egress
  imports Persona Tool_Policy Texts
begin

text \<open>
  Where a plugin's requests may go: the public suffix test (\<open>public_suffix.py\<close>), the normal form of hosts and of
  declared host patterns, the compiled declarations and their decision (\<open>plugin_egress.py\<close>), the two egress hooks
  (\<open>plugins/plugin_egress.py\<close>) and the hook that withholds private results from MCP clients
  (\<open>mcp_clients.py\<close>, \<open>plugins/mcp_client_egress.py\<close>).

  The lines of the vendored suffix list, the address parser \<open>ipaddress\<close> and the IDNA decoder are arguments.
\<close>

section \<open>Public suffixes\<close>

record suffix_rules =
  sx_exact :: "string list"
  sx_wildcard :: "string list"
  sx_exceptions :: "string list"

fun add_rule :: "suffix_rules \<Rightarrow> string \<Rightarrow> suffix_rules" where
  "add_rule rules line =
     (let rule = strip line in
      if rule = [] \<or> startswith rule ''//'' then rules
      else if startswith rule ''!'' then rules\<lparr>sx_exceptions := drop 1 rule # sx_exceptions rules\<rparr>
      else if startswith rule ''*.'' then rules\<lparr>sx_wildcard := drop 2 rule # sx_wildcard rules\<rparr>
      else rules\<lparr>sx_exact := rule # sx_exact rules\<rparr>)"

definition suffix_rules_of :: "string list \<Rightarrow> suffix_rules" where
  "suffix_rules_of lines = foldl add_rule \<lparr>sx_exact = [], sx_wildcard = [], sx_exceptions = []\<rparr> lines"

definition after_dot :: "string \<Rightarrow> string" where
  "after_dot s = drop 1 (dropWhile (\<lambda>c. c \<noteq> CHR ''.'') s)"

definition is_public_suffix :: "suffix_rules \<Rightarrow> string \<Rightarrow> bool" where
  "is_public_suffix rules domain =
     (let name = strip_chars (CHR ''.'') (py_lower domain) in
      if name = [] then False
      else if name \<in> set (sx_exceptions rules) then False
      else if CHR ''.'' \<notin> set name then True
      else if name \<in> set (sx_exact rules) then True
      else after_dot name \<in> set (sx_wildcard rules))"

section \<open>Hosts\<close>

fun split_dots :: "string \<Rightarrow> string list" where
  "split_dots [] = [[]]"
| "split_dots (c # s) =
     (if c = CHR ''.'' then [] # split_dots s
      else case split_dots s of [] \<Rightarrow> [[c]] | w # ws \<Rightarrow> (c # w) # ws)"

definition MAX_LABEL_LENGTH :: nat where "MAX_LABEL_LENGTH = 63"
definition MAX_HOST_LENGTH :: nat where "MAX_HOST_LENGTH = 253"

definition alnum :: "char \<Rightarrow> bool" where
  "alnum c = (is_lower_char c \<or> is_digit_char c)"

text \<open>\<open>[a-z0-9]([a-z0-9-]{0,61}[a-z0-9])?\<close>, matched whole.\<close>

definition declared_label :: "string \<Rightarrow> bool" where
  "declared_label l = (l \<noteq> [] \<and> length l \<le> 63 \<and> alnum (hd l) \<and> alnum (last l) \<and> list_all (\<lambda>c. alnum c \<or> c = CHR ''-'') l)"

definition hex_char :: "char \<Rightarrow> bool" where
  "hex_char c = (is_digit_char c \<or> char_in 97 102 c)"

text \<open>\<open>0x[0-9a-f]*|[0-9]+\<close>, matched whole.\<close>

definition number_label :: "string \<Rightarrow> bool" where
  "number_label l = (startswith l ''0x'' \<and> list_all hex_char (drop 2 l) \<or> l \<noteq> [] \<and> list_all is_digit_char l)"

definition refuse :: "string \<Rightarrow> string \<Rightarrow> 'a result" where
  "refuse value why = Raise ''ValueError'' (repr_str value @ '': '' @ why)"

lemma if_refuse: "(if c then refuse value why else x) = Inr y \<longleftrightarrow> \<not> c \<and> x = Inr y"
  by (simp add: refuse_def)

lemma case_refuse: "(case e of Some why \<Rightarrow> refuse value why | None \<Rightarrow> x) = Inr y \<longleftrightarrow> e = None \<and> x = Inr y"
  by (simp add: refuse_def split: option.splits)

text \<open>ASCII without white space or control characters.\<close>

definition plain_text :: "string \<Rightarrow> bool" where
  "plain_text s = (s \<noteq> [] \<and> list_all (char_in 33 126) s)"

definition drop_final_dot :: "string \<Rightarrow> string" where
  "drop_final_dot s = (if endswith s ''.'' then butlast s else s)"

definition normalize_host :: "string \<Rightarrow> string result" where
  "normalize_host value =
     (let host = drop_final_dot (py_lower value) in
      if \<not> plain_text value then refuse value ''is not a host (ASCII only, no whitespace or control characters)''
      else if host = [] \<or> MAX_HOST_LENGTH < length host then refuse value ''is empty or longer than 253 characters''
      else if list_ex (\<lambda>l. MAX_LABEL_LENGTH < length l \<or> \<not> declared_label l) (split_dots host) then
        refuse value ''is not a host name (letters, digits and hyphens per label)''
      else Inr host)"

definition is_ip_literal :: "(string \<Rightarrow> bool) \<Rightarrow> string \<Rightarrow> bool" where
  "is_ip_literal ip_address host =
     (number_label (last (split_dots host))
      \<or> ip_address (rev (dropWhile (\<lambda>c. c \<in> {CHR ''['', CHR '']''}) (rev (dropWhile (\<lambda>c. c \<in> {CHR ''['', CHR '']''}) host)))))"

definition INTERNAL_NAME_SUFFIXES :: "string list" where
  "INTERNAL_NAME_SUFFIXES = [''localhost'', ''local'', ''internal'', ''localdomain'']"

definition is_internal_name :: "string \<Rightarrow> bool" where
  "is_internal_name host = list_ex (\<lambda>s. host = s \<or> endswith host (CHR ''.'' # s)) INTERNAL_NAME_SUFFIXES"

text \<open>The first label of a declared host that is refused, with the reason.\<close>

fun label_error :: "(string \<Rightarrow> bool) \<Rightarrow> string list \<Rightarrow> string option" where
  "label_error idna_ok [] = None"
| "label_error idna_ok (l # ls) =
     (if MAX_LABEL_LENGTH < length l \<or> \<not> declared_label l then
        Some ''is not a host (labels of letters, digits and hyphens, at most 63 characters; no scheme, port, path or userinfo)''
      else if startswith l ''xn--'' \<and> \<not> idna_ok l then Some (''label '' @ repr_str l @ '' is not valid punycode'')
      else label_error idna_ok ls)"

definition normalize_host_pattern ::
  "suffix_rules \<Rightarrow> (string \<Rightarrow> bool) \<Rightarrow> (string \<Rightarrow> bool) \<Rightarrow> string \<Rightarrow> string result"
where
  "normalize_host_pattern rules ip_address idna_ok value =
     (let host = drop_final_dot (py_lower value);
          wildcard = startswith host ''*.'';
          body = (if wildcard then drop 2 host else host);
          labels = split_dots body
      in if \<not> plain_text value then refuse value ''is not a host (ASCII only, no whitespace or control characters)''
         else if host = ''*'' \<or> startswith host ''*'' \<and> \<not> wildcard then
           refuse value ''a wildcard is only `*.<domain>`; to allow any host declare `open_web: true`''
         else if body = [] \<or> MAX_HOST_LENGTH < length body then refuse value ''is empty or longer than 253 characters''
         else case label_error idna_ok labels of
           Some why \<Rightarrow> refuse value why
         | None \<Rightarrow>
             if is_internal_name body then
               refuse value ''localhost and the local-network names (.local, .internal, .localdomain) are not hosts a plugin may declare''
             else if number_label (last labels) then
               refuse value ''an IP address (in any spelling) is not a declarable host''
             else if ip_address body then refuse value ''an IP address is not a declarable host''
             else if wildcard \<and> length labels < 2 then
               refuse value ''a wildcard needs a registrable domain (`*.example.org`)''
             else if wildcard \<and> is_public_suffix rules body then
               refuse value (''`'' @ body @ ''` is a public suffix, so the wildcard would cover every registrant under it; declare the domain you mean (`*.example.'' @ body @ ''`)'')
             else Inr host)"

section \<open>Declarations\<close>

record host_rule =
  hr_host :: string
  hr_schemes :: "string list"
  hr_ports :: "int list"
  hr_data :: string

definition matches_host :: "host_rule \<Rightarrow> string \<Rightarrow> bool" where
  "matches_host r host =
     (if startswith (hr_host r) ''*.'' then endswith host (drop 1 (hr_host r)) \<and> length (hr_host r) - 1 < length host
      else host = hr_host r)"

definition default_port :: "string \<Rightarrow> int option" where
  "default_port scheme = map_of [(''http'', 80), (''https'', 443)] scheme"

definition allows_port :: "host_rule \<Rightarrow> string \<Rightarrow> int \<Rightarrow> bool" where
  "allows_port r scheme port = (if hr_ports r \<noteq> [] then port \<in> set (hr_ports r) else default_port scheme = Some port)"

record plugin_egress =
  pe_hosts :: "host_rule list"
  pe_open_web :: bool
  pe_max_response_bytes :: "int option"

definition declares_egress :: "plugin_egress \<Rightarrow> bool" where
  "declares_egress p = (pe_hosts p \<noteq> [] \<or> pe_open_web p)"

type_synonym egress_declarations = "(string \<times> plugin_egress) list"

record egress_verdict =
  ev_allowed :: bool
  ev_reason :: string
  ev_data :: "string option"
  ev_rule :: "string option"

definition refused_verdict :: "string \<Rightarrow> egress_verdict" where
  "refused_verdict reason = \<lparr>ev_allowed = False, ev_reason = reason, ev_data = None, ev_rule = None\<rparr>"

definition DEFAULT_RESPONSE_BYTES :: int where "DEFAULT_RESPONSE_BYTES = 10 * 1024 * 1024"
definition MAX_RESPONSE_BYTES_CEILING :: int where "MAX_RESPONSE_BYTES_CEILING = 64 * 1024 * 1024"

definition response_cap :: "egress_declarations \<Rightarrow> string \<Rightarrow> int" where
  "response_cap ps plugin =
     (case Option.bind (map_of ps plugin) pe_max_response_bytes of
        None \<Rightarrow> DEFAULT_RESPONSE_BYTES
      | Some declared \<Rightarrow> max 1 (min declared MAX_RESPONSE_BYTES_CEILING))"

text \<open>An unknown label counts as the most sensitive one.\<close>

definition class_rank :: "string \<Rightarrow> nat" where
  "class_rank c =
     (case map_of [(''public'', 0), (''internal'', 1), (''personal'', 2), (''secret'', 3)] c of None \<Rightarrow> 3 | Some n \<Rightarrow> n)"

fun decide_hosts :: "string \<Rightarrow> string \<Rightarrow> string \<Rightarrow> int \<Rightarrow> string option \<Rightarrow> host_rule list \<Rightarrow> egress_verdict" where
  "decide_hosts plugin scheme host port cls [] =
     refused_verdict (host @ '' is not in plugin '' @ repr_str plugin @ char_of (39::nat) # ''s egress.hosts'')"
| "decide_hosts plugin scheme host port cls (r # rs) =
     (if \<not> matches_host r host then decide_hosts plugin scheme host port cls rs
      else if scheme \<notin> set (hr_schemes r) then
        refused_verdict (host @ '' is declared for '' @ join ''/'' (hr_schemes r) @ '' only, not '' @ scheme)
      else if \<not> allows_port r scheme port then
        refused_verdict (host @ '' is not declared for port '' @ show_int port)
      else if (case cls of None \<Rightarrow> False | Some c \<Rightarrow> class_rank (hr_data r) < class_rank c) then
        refused_verdict (''this run holds '' @ fmt_opt cls @ '' data and '' @ host @ '' is declared to receive '' @ hr_data r
          @ ''; declare `data: '' @ fmt_opt cls @ ''` only if the plugin means to send it'')
      else \<lparr>ev_allowed = True, ev_reason = ''declared'', ev_data = Some (hr_data r), ev_rule = Some (hr_host r)\<rparr>)"

definition decide_egress ::
  "(string \<Rightarrow> bool) \<Rightarrow> egress_declarations \<Rightarrow> string \<Rightarrow> string \<Rightarrow> string \<Rightarrow> int \<Rightarrow> string option \<Rightarrow> egress_verdict"
where
  "decide_egress ip_address ps plugin scheme0 host0 port cls =
     (let scheme = py_lower scheme0 in
      case normalize_host host0 of
        Inl _ \<Rightarrow> refused_verdict (repr_str host0 @ '' is not a valid host name'')
      | Inr host \<Rightarrow>
          if is_ip_literal ip_address host then
            refused_verdict (host @ '' is an IP address; a plugin may contact only a declared host name'')
          else if is_internal_name host then
            refused_verdict (host @ '' is a local-network name; a plugin may not contact it'')
          else case map_of ps plugin of
            None \<Rightarrow> refused_verdict (''plugin '' @ repr_str plugin @ '' has no mounted manifest'')
          | Some p \<Rightarrow>
              if \<not> declares_egress p then
                refused_verdict (''plugin '' @ repr_str plugin @ '' declares no egress, so it may contact no host'')
              else if pe_open_web p then
                if scheme \<notin> {''http'', ''https''} then
                  refused_verdict (''scheme '' @ repr_str scheme @ '' is not an HTTP scheme'')
                else \<lparr>ev_allowed = True, ev_reason = ''open_web'', ev_data = Some ''personal'', ev_rule = Some ''*''\<rparr>
              else decide_hosts plugin scheme host port cls (pe_hosts p))"

section \<open>The egress hooks\<close>

text \<open>What the process has registered: the compiled declarations, and how many finished requests have no outcome row.\<close>

record egress_state =
  eg_policy_of :: "egress_declarations option"
  eg_unrecorded :: nat

definition register_egress_policy :: "egress_declarations option \<Rightarrow> egress_state \<Rightarrow> egress_state" where
  "register_egress_policy p s = s\<lparr>eg_policy_of := p\<rparr>"

definition note_unrecorded_outcome :: "egress_state \<Rightarrow> egress_state" where
  "note_unrecorded_outcome s = s\<lparr>eg_unrecorded := Suc (eg_unrecorded s)\<rparr>"

definition egress_of :: "hook_context \<Rightarrow> dict" where
  "egress_of ctx = (case dget (hc_payload ctx) ''egress'' of PDict d \<Rightarrow> d | _ \<Rightarrow> [])"

text \<open>A value in an f-string with the empty text for a missing key.\<close>

definition shown :: "dict \<Rightarrow> string \<Rightarrow> string" where
  "shown d k = (if dhas d k then py_str (dget d k) else [])"

definition egress_row :: "dict \<Rightarrow> dict \<Rightarrow> dict" where
  "egress_row egress extra = [(''egress'', PDict (dmerge egress extra))]"

definition deny_egress :: "dict \<Rightarrow> string \<Rightarrow> hook_decision" where
  "deny_egress egress reason =
     decide Deny SevWarn (''plugin_egress: '' @ reason) (egress_row egress [(''allowed'', PBool False)])"

text \<open>\<open>int(port or 0)\<close> raises on a text that is no number and on a container.\<close>

definition PluginEgressHook_call ::
  "(string \<Rightarrow> bool) \<Rightarrow> (pyval \<Rightarrow> int result) \<Rightarrow> egress_declarations option \<Rightarrow> hook_context \<Rightarrow> hook_decision result"
where
  "PluginEgressHook_call ip_address py_int_of policy ctx =
     (let egress = egress_of ctx;
          plugin = str_or_empty (dget egress ''plugin'');
          host = str_or_empty (dget egress ''host'');
          place = shown egress ''scheme'' @ ''://'' @ host @ '':'' @ shown egress ''port''
      in if truthy (dget egress ''malformed'') then Inr (deny_egress egress (py_str (dget egress ''malformed'')))
         else case policy of
           None \<Rightarrow>
             Inr (deny_egress egress (''no egress policy is loaded, so '' @ repr_str plugin @ '' may not contact '' @ repr_str host))
         | Some ps \<Rightarrow>
             (case py_int_of (if truthy (dget egress ''port'') then dget egress ''port'' else PInt 0) of
                Inl e \<Rightarrow> Inl e
              | Inr port \<Rightarrow>
                  let v = decide_egress ip_address ps plugin (str_or_empty (dget egress ''scheme'')) host port
                            (map_option classification_value (hc_classification ctx))
                  in if \<not> ev_allowed v then Inr (deny_egress egress (ev_reason v @ '' ('' @ place @ '')''))
                     else Inr (decide Allow SevInfo
                       (''plugin_egress: '' @ plugin @ '' may contact '' @ host @ '' ('' @ ev_reason v @ '')'')
                       (egress_row egress [(''allowed'', PBool True), (''data'', opt_str (ev_data v)),
                          (''rule'', opt_str (ev_rule v))]))))"

definition PluginEgressOutcomeHook_call :: "hook_context \<Rightarrow> hook_decision" where
  "PluginEgressOutcomeHook_call ctx =
     (let egress = egress_of ctx; err = dget egress ''error'';
          ended = (if truthy err then ''failed ('' @ py_str err @ '')'' else ''-> '' @ py_str (dget egress ''status''))
                  @ (if truthy (dget egress ''aborted'') then '', cut off: '' @ py_str (dget egress ''aborted'') else [])
      in decide Allow (if truthy err then SevWarn else SevInfo)
           (''plugin_egress_outcome: '' @ shown egress ''method'' @ '' '' @ shown egress ''host'' @ '' '' @ ended) [])"

section \<open>MCP clients\<close>

definition mcp_client_is_local :: "string list \<Rightarrow> string \<Rightarrow> bool" where
  "mcp_client_is_local local caller = (is_mcp_caller (PStr caller) \<and> caller \<in> set local)"

definition McpClientEgressHook_call :: "string list \<Rightarrow> hook_context \<Rightarrow> hook_decision" where
  "McpClientEgressHook_call local ctx =
     (let caller = str_or_empty (dget (hc_metadata ctx) ''caller''); lbl = hc_classification ctx;
          is_local = mcp_client_is_local local caller;
          meta = [(''caller'', PStr caller), (''classification'', opt_str (map_option classification_value lbl)),
                  (''local'', PBool is_local)]
      in if \<not> is_mcp_caller (PStr caller) then decision Allow ''mcp_client_egress: not an MCP client''
         else if lbl = Some Secret then
           decide Deny SevWarn
             (''mcp_client_egress: the result is classified secret, and a secret never leaves Evarness, not even for a local client; withheld from ''
               @ caller) meta
         else if lbl = Some Personal \<and> \<not> is_local then
           decide Deny SevWarn
             (''mcp_client_egress: the result holds the owner's personal data and '' @ caller
               @ '' is not declared local in the owner's mcp-serve.yaml; withheld'') meta
         else
           decide Allow SevInfo
             (''mcp_client_egress: '' @ (case lbl of None \<Rightarrow> ''unlabelled'' | Some c \<Rightarrow> classification_value c)
               @ '' result may go to '' @ caller) meta)"

section \<open>Where a request may go\<close>

lemma split_dots_not_Nil [simp]: "split_dots s \<noteq> []"
  by (induction s) (auto split: list.splits)

text \<open>What the decision guarantees of an allowed request.\<close>

definition request_allowed_by :: "plugin_egress \<Rightarrow> string \<Rightarrow> string \<Rightarrow> int \<Rightarrow> string option \<Rightarrow> bool" where
  "request_allowed_by p scheme host port cls \<longleftrightarrow>
     (if pe_open_web p then scheme \<in> {''http'', ''https''}
      else \<exists>r \<in> set (pe_hosts p). matches_host r host \<and> scheme \<in> set (hr_schemes r) \<and> allows_port r scheme port
             \<and> (\<forall>c. cls = Some c \<longrightarrow> class_rank c \<le> class_rank (hr_data r)))"

lemma decide_hosts_allowed:
  assumes "ev_allowed (decide_hosts plugin scheme host port cls rs)"
  shows "\<exists>r \<in> set rs. matches_host r host \<and> scheme \<in> set (hr_schemes r) \<and> allows_port r scheme port
    \<and> (\<forall>c. cls = Some c \<longrightarrow> class_rank c \<le> class_rank (hr_data r))"
  using assms
proof (induction rs)
  case Nil
  then show ?case by (simp add: refused_verdict_def)
next
  case (Cons r rs)
  then show ?case by (auto simp: refused_verdict_def not_less split: if_splits option.splits)
qed

lemma decide_egress_allowed:
  assumes "ev_allowed (decide_egress ip ps plugin scheme host0 port cls)"
  shows "\<exists>host p. normalize_host host0 = Inr host \<and> map_of ps plugin = Some p \<and> declares_egress p
    \<and> \<not> is_ip_literal ip host \<and> \<not> is_internal_name host \<and> request_allowed_by p (py_lower scheme) host port cls"
proof -
  obtain host where h: "normalize_host host0 = Inr host" "\<not> is_ip_literal ip host" "\<not> is_internal_name host"
    using assms by (auto simp: decide_egress_def Let_def refused_verdict_def split: sum.splits if_splits)
  obtain p where p: "map_of ps plugin = Some p" "declares_egress p"
    using assms h by (auto simp: decide_egress_def Let_def refused_verdict_def split: option.splits if_splits)
  have "request_allowed_by p (py_lower scheme) host port cls"
  proof (cases "pe_open_web p")
    case True
    then show ?thesis using assms h p
      by (auto simp: decide_egress_def Let_def refused_verdict_def request_allowed_by_def split: if_splits)
  next
    case False
    then have "decide_egress ip ps plugin scheme host0 port cls = decide_hosts plugin (py_lower scheme) host port cls (pe_hosts p)"
      using h p by (simp add: decide_egress_def Let_def)
    then show ?thesis using assms decide_hosts_allowed False unfolding request_allowed_by_def by metis
  qed
  then show ?thesis using h p by blast
qed

lemma hook_allowed_egress:
  assumes "PluginEgressHook_call ip py_int_of policy ctx = Inr d" and "hd_outcome d = Allow"
  shows "\<exists>ps port. policy = Some ps \<and> \<not> truthy (dget (egress_of ctx) ''malformed'')
    \<and> py_int_of (if truthy (dget (egress_of ctx) ''port'') then dget (egress_of ctx) ''port'' else PInt 0) = Inr port
    \<and> ev_allowed (decide_egress ip ps (str_or_empty (dget (egress_of ctx) ''plugin'')) (str_or_empty (dget (egress_of ctx) ''scheme''))
        (str_or_empty (dget (egress_of ctx) ''host'')) port (map_option classification_value (hc_classification ctx)))"
  using assms
  by (auto simp: PluginEgressHook_call_def Let_def deny_egress_def split: if_splits option.splits sum.splits)

text \<open>A pattern that was accepted covers only its own host, or the hosts below a registrable domain.\<close>

lemma length_split_dots: "length (split_dots s) = Suc (length (filter (\<lambda>c. c = CHR ''.'') s))"
  by (induction s) (auto split: list.splits)

lemma filter_absent: "x \<notin> set xs \<Longrightarrow> filter (\<lambda>c. c = x) xs = []"
  by (induction xs) auto

lemma accepted_wildcard:
  assumes "normalize_host_pattern rules ip idna_ok value = Inr host" and "startswith host ''*.''"
  shows "\<exists>base. host = ''*.'' @ base \<and> \<not> is_public_suffix rules base \<and> CHR ''.'' \<in> set base"
proof -
  let ?host = "drop_final_dot (py_lower value)"
  have all: "?host = host
      \<and> \<not> (startswith ?host ''*.'' \<and> length (split_dots (if startswith ?host ''*.'' then drop 2 ?host else ?host)) < 2)
      \<and> \<not> (startswith ?host ''*.'' \<and> is_public_suffix rules (if startswith ?host ''*.'' then drop 2 ?host else ?host))"
    using assms(1) unfolding normalize_host_pattern_def Let_def if_refuse case_refuse sum.inject
    by (elim conjE) (intro conjI, assumption+)
  note h = all [THEN conjunct1] and w = all [THEN conjunct2]
  obtain base where b: "host = ''*.'' @ base" using assms(2) by (auto simp: startswith_iff)
  have wild: "startswith ?host ''*.''" and base: "drop 2 ?host = base" using assms(2) unfolding h b by simp_all
  have two: "2 \<le> length (split_dots base)" and pub: "\<not> is_public_suffix rules base"
    using w unfolding if_P [OF wild] base by (simp_all only: wild simp_thms not_less)
  have "CHR ''.'' \<in> set base"
  proof (rule ccontr)
    assume "CHR ''.'' \<notin> set base"
    then have "filter (\<lambda>c. c = CHR ''.'') base = []" by (rule filter_absent)
    then show False using two by (simp add: length_split_dots)
  qed
  then show ?thesis using b pub by (intro exI [of _ base] conjI)
qed

definition reaches :: "suffix_rules \<Rightarrow> string \<Rightarrow> string \<Rightarrow> bool" where
  "reaches rules pattern host \<longleftrightarrow>
     host = pattern
     \<or> (\<exists>base x. pattern = ''*.'' @ base \<and> host = x @ CHR ''.'' # base \<and> x \<noteq> [] \<and> \<not> is_public_suffix rules base
           \<and> CHR ''.'' \<in> set base)"

lemma matches_reaches:
  assumes "matches_host r host" and "normalize_host_pattern rules ip idna_ok value = Inr (hr_host r)"
  shows "reaches rules (hr_host r) host"
proof (cases "startswith (hr_host r) ''*.''")
  case True
  obtain base where b: "hr_host r = ''*.'' @ base" "\<not> is_public_suffix rules base" "CHR ''.'' \<in> set base"
    using accepted_wildcard [OF assms(2) True] by blast
  have "endswith host (CHR ''.'' # base)" "length base + 1 < length host"
    using assms(1) by (simp_all add: matches_host_def b(1))
  then obtain x where x: "host = x @ CHR ''.'' # base" "length base + 1 < length host" unfolding endswith_iff by blast
  then have "x \<noteq> []" by (cases x) simp_all
  show ?thesis
    unfolding reaches_def
    by (rule disjI2, rule exI [of _ base], rule exI [of _ x]) (intro conjI b x(1) \<open>x \<noteq> []\<close>)
qed (use assms(1) in \<open>simp add: matches_host_def reaches_def\<close>)


definition demo_rule :: host_rule where
  "demo_rule = \<lparr>hr_host = ''*.example.org'', hr_schemes = [''https''], hr_ports = [], hr_data = ''internal''\<rparr>"

definition demo_declarations :: "bool \<Rightarrow> egress_declarations" where
  "demo_declarations web = [(''weather'', \<lparr>pe_hosts = [demo_rule], pe_open_web = web, pe_max_response_bytes = None\<rparr>)]"

definition demo_request :: "classification \<Rightarrow> hook_context" where
  "demo_request c = (demo_ctx PRE_EGRESS [(''egress'', PDict [(''plugin'', PStr ''weather''), (''scheme'', PStr ''https''),
      (''host'', PStr ''api.example.org''), (''port'', PInt 443)])] [])\<lparr>hc_classification := Some c\<rparr>"

definition port_of :: "pyval \<Rightarrow> int result" where
  "port_of v = (case v of PInt i \<Rightarrow> Inr i | _ \<Rightarrow> Raise ''ValueError'' [])"

definition demo_rules :: suffix_rules where
  "demo_rules = suffix_rules_of [''// ICANN'', ''org'', ''co.uk'', ''*.ck'', ''!www.ck'']"


lemma host_rule_covers:
  "request_allowed_by p scheme host port (Some c) \<Longrightarrow> \<not> pe_open_web p \<Longrightarrow>
   \<exists>r \<in> set (pe_hosts p). class_rank c \<le> class_rank (hr_data r)"
  by (auto simp: request_allowed_by_def)

text \<open>The open web takes secrets. A plugin that declares the open web gets a request of a run that holds secret data
  allowed, to any host name that is no address and no local name, and the row says the host may receive personal data;
  a plugin with declared hosts, each for a class a manifest may name, never does.\<close>

theorem open_web_takes_secrets:
  assumes "egress_of ctx = egress" and "\<not> truthy (dget egress ''malformed'')" and "hc_classification ctx = Some Secret"
      and "map_of ps (str_or_empty (dget egress ''plugin'')) = Some p"
      and "normalize_host (str_or_empty (dget egress ''host'')) = Inr host" "\<not> is_ip_literal ip host" "\<not> is_internal_name host"
      and "py_lower (str_or_empty (dget egress ''scheme'')) = ''https''"
      and "py_int_of (if truthy (dget egress ''port'') then dget egress ''port'' else PInt 0) = Inr port"
  shows "(pe_open_web p \<longrightarrow> (\<exists>d e. PluginEgressHook_call ip py_int_of (Some ps) ctx = Inr d \<and> hd_outcome d = Allow
            \<and> map_of (hd_audit_metadata d) ''egress'' = Some (PDict e) \<and> dget e ''data'' = PStr ''personal''))
    \<and> (\<not> pe_open_web p \<and> (\<forall>r \<in> set (pe_hosts p). hr_data r \<in> {''public'', ''internal'', ''personal''}) \<longrightarrow>
         (\<exists>d. PluginEgressHook_call ip py_int_of (Some ps) ctx = Inr d \<and> hd_outcome d = Deny))"
proof -
  let ?v = "decide_egress ip ps (str_or_empty (dget egress ''plugin'')) (str_or_empty (dget egress ''scheme''))
      (str_or_empty (dget egress ''host'')) port (Some ''secret'')"
  have call: "\<exists>d. PluginEgressHook_call ip py_int_of (Some ps) ctx = Inr d
      \<and> (ev_allowed ?v \<longrightarrow> hd_outcome d = Allow \<and> hd_audit_metadata d = egress_row egress
           [(''allowed'', PBool True), (''data'', opt_str (ev_data ?v)), (''rule'', opt_str (ev_rule ?v))])
      \<and> (\<not> ev_allowed ?v \<longrightarrow> hd_outcome d = Deny)"
    using assms(1-3,9) by (simp add: PluginEgressHook_call_def Let_def deny_egress_def)
  have web: "ev_allowed ?v \<and> ev_data ?v = Some ''personal''" if "pe_open_web p"
    using assms(4-8) that by (simp add: decide_egress_def Let_def declares_egress_def)
  have hosts: "\<not> ev_allowed ?v" if "\<not> pe_open_web p" "\<forall>r \<in> set (pe_hosts p). hr_data r \<in> {''public'', ''internal'', ''personal''}"
  proof
    assume "ev_allowed ?v"
    from decide_egress_allowed [OF this] obtain h where
        "request_allowed_by p (py_lower (str_or_empty (dget egress ''scheme''))) h port (Some ''secret'')"
      using assms(4) by auto
    from host_rule_covers [OF this that(1)] obtain r where "r \<in> set (pe_hosts p)" "class_rank ''secret'' \<le> class_rank (hr_data r)"
      by blast
    then show False using that(2) by (auto simp: class_rank_def)
  qed
  have row: "map_of (egress_row egress x) ''egress'' = Some (PDict (dmerge egress x))"
    "dget (dmerge egress [(''allowed'', PBool True), (''data'', y), (''rule'', z)]) ''data'' = y" for x y z
    by (simp_all add: egress_row_def dmerge_def)
  obtain d where d: "PluginEgressHook_call ip py_int_of (Some ps) ctx = Inr d"
      "ev_allowed ?v \<Longrightarrow> hd_outcome d = Allow \<and> hd_audit_metadata d = egress_row egress
           [(''allowed'', PBool True), (''data'', opt_str (ev_data ?v)), (''rule'', opt_str (ev_rule ?v))]"
      "\<not> ev_allowed ?v \<Longrightarrow> hd_outcome d = Deny"
    using call by blast
  show ?thesis
  proof (cases "pe_open_web p")
    case True
    then show ?thesis using d(1) d(2) web row by simp
  next
    case False
    then show ?thesis using d(1) d(3) hosts by simp
  qed
qed

theorem open_web_takes_secrets_witness:
  "\<exists>d. PluginEgressHook_call (\<lambda>_. False) port_of (Some (demo_declarations True)) (demo_request Secret) = Inr d
     \<and> hd_outcome d = Allow"
proof -
  let ?e = "[(''plugin'', PStr ''weather''), (''scheme'', PStr ''https''), (''host'', PStr ''api.example.org''), (''port'', PInt 443)]"
  have eg: "egress_of (demo_request Secret) = ?e" "\<not> truthy (dget ?e ''malformed'')" "hc_classification (demo_request Secret) = Some Secret"
    by code_simp+
  have p: "map_of (demo_declarations True) (str_or_empty (dget ?e ''plugin'')) =
      Some \<lparr>pe_hosts = [demo_rule], pe_open_web = True, pe_max_response_bytes = None\<rparr>"
    by (simp add: demo_declarations_def str_or_empty_def dget_def py_str_def)
  have h: "normalize_host (str_or_empty (dget ?e ''host'')) = Inr ''api.example.org''"
    "\<not> is_ip_literal (\<lambda>_. False) ''api.example.org''" "\<not> is_internal_name ''api.example.org''"
    "py_lower (str_or_empty (dget ?e ''scheme'')) = ''https''"
    "port_of (if truthy (dget ?e ''port'') then dget ?e ''port'' else PInt 0) = Inr 443" by code_simp+
  show ?thesis using open_web_takes_secrets [where py_int_of = port_of and ip = "\<lambda>_. False", OF eg p h] by auto
qed

text \<open>A result that the MCP hook lets pass to an MCP client is not secret, and is personal only for a client the owner
  declared local.\<close>

lemma mcp_client_gets_no_secret:
  assumes "hd_outcome (McpClientEgressHook_call local ctx) = Allow" and "is_mcp_caller (PStr (str_or_empty (dget (hc_metadata ctx) ''caller'')))"
  shows "hc_classification ctx \<noteq> Some Secret
    \<and> (hc_classification ctx = Some Personal \<longrightarrow> str_or_empty (dget (hc_metadata ctx) ''caller'') \<in> set local)"
  using assms by (auto simp: McpClientEgressHook_call_def Let_def mcp_client_is_local_def split: if_splits)

end
