(* ===== verification/Content_Allow.thy ===== *)
theory Content_Allow
  imports External_Content
begin

text \<open>
  The owner's allow-list for the external-content floor (\<open>external_content_allow.py\<close>): scopes, the validation of an entry
  and of the file, the cached list of live entries and the owner's edits with their ledger rows.

  A date is its day number, shown by \<open>iso_date\<close>; parsing one (\<open>date.fromisoformat\<close>) is an argument. What YAML makes of a
  file is the argument of the operations that read it: the value under \<open>until\<close> is told apart by its type, since YAML reads
  a date or a date with a time as such.
\<close>

section \<open>Scopes\<close>

definition WILDCARD_CHARS :: "char list" where "WILDCARD_CHARS = ''*?[]''"

definition NAMESPACES :: "string list" where "NAMESPACES = [''plugin:'', ''skill:'', ''mcp:'', ''core:'']"

definition no_wildcard :: "string \<Rightarrow> bool" where
  "no_wildcard s \<longleftrightarrow> (\<forall>c \<in> set s. c \<notin> set WILDCARD_CHARS)"

text \<open>\<open>_SOURCE_RE\<close>, on a text without surrounding white space.\<close>

definition source_name :: "string \<Rightarrow> bool" where
  "source_name s \<longleftrightarrow> (\<exists>ns \<in> set NAMESPACES. startswith s ns \<and> drop (length ns) s \<noteq> []
     \<and> (\<forall>c \<in> set (drop (length ns) s). \<not> is_space c \<and> c \<notin> set WILDCARD_CHARS))"

definition namespaced :: "string \<Rightarrow> bool" where
  "namespaced s = (startswith s ''skill:'' \<or> startswith s ''mcp:'')"

definition scope_source :: "string option \<Rightarrow> string \<Rightarrow> string" where
  "scope_source stamped tool =
     (case stamped of
        None \<Rightarrow> ''core:'' @ tool
      | Some p \<Rightarrow> if p = [] \<or> p = ''system'' then ''core:'' @ tool else if namespaced p then p else ''plugin:'' @ p)"

definition scope_for_label :: "string \<Rightarrow> string" where
  "scope_for_label label = (if namespaced label then label else ''core:'' @ label)"

section \<open>Entries\<close>

record allow_entry =
  al_pattern :: string
  al_source :: string
  al_tool :: "string option"
  al_reason :: string
  al_added :: string
  al_until :: "string option"

definition scope_text :: "allow_entry \<Rightarrow> string" where
  "scope_text e = join '' '' ([''source='' @ al_source e] @ (case al_tool e of None \<Rightarrow> [] | Some t \<Rightarrow> [''tool='' @ t]))"

type_synonym date_parser = "string \<Rightarrow> int result"

definition iso_date :: "int \<Rightarrow> string" where
  "iso_date n = (let (y, m, d) = civil_of_days n in pad 4 y @ ''-'' @ pad 2 m @ ''-'' @ pad 2 d)"

definition expired :: "date_parser \<Rightarrow> int \<Rightarrow> allow_entry \<Rightarrow> bool result" where
  "expired from_iso today e =
     (case al_until e of None \<Rightarrow> Inr False | Some t \<Rightarrow> map_sum id (\<lambda>d. d < today) (from_iso t))"

definition covers_call :: "allow_entry \<Rightarrow> string \<Rightarrow> string option \<Rightarrow> bool" where
  "covers_call e source tool = (if al_source e \<noteq> source then False else al_tool e = None \<or> al_tool e = tool)"

definition allowlistable_ids :: "string list" where
  "allowlistable_ids = map fp_id (filter (\<lambda>p. fp_id p \<notin> set HIDDEN_IDS) PATTERNS)"

text \<open>An entry as the file gives it: its keys but \<open>until\<close>, and what is under \<open>until\<close>: nothing, a date, a date with a time
  (its text in ISO form), or another value (its text).\<close>

datatype until_value = NoUntil | UntilDate int | UntilDateTime string | UntilOther string

datatype raw_entry = NoMapping string | Mapping dict until_value

abbreviation Refused :: "string \<Rightarrow> 'a result" where "Refused msg \<equiv> Raise ''AllowListError'' msg"

definition refuse_entry :: "string option \<Rightarrow> 'a result \<Rightarrow> 'a result" where
  "refuse_entry problem r = (case problem of None \<Rightarrow> r | Some msg \<Rightarrow> Refused msg)"

definition blank_value :: "pyval \<Rightarrow> bool" where
  "blank_value v = (case v of PStr s \<Rightarrow> strip s = [] | _ \<Rightarrow> True)"

definition text_in :: "pyval \<Rightarrow> string" where
  "text_in v = (case v of PStr s \<Rightarrow> s | _ \<Rightarrow> [])"

definition pattern_problem :: "pyval \<Rightarrow> string option" where
  "pattern_problem v =
     (let p = text_in v in
      if blank_value v then Some ''pattern is required: the id of one floor pattern''
      else if \<not> no_wildcard p then Some (''pattern '' @ repr_str p @ '': wildcards are not allowed'')
      else if p \<notin> set allowlistable_ids then
        Some (''pattern '' @ repr_str p @ '': ''
          @ (if p \<in> set HIDDEN_IDS then ''a hidden-character pattern can never be allowed'' else ''not a floor pattern id''))
      else None)"

definition scope_problem :: "string \<Rightarrow> pyval \<Rightarrow> string option" where
  "scope_problem key v =
     (if v = PNone then None
      else if blank_value v then Some (repr_str key @ '' must be a non-empty string'')
      else if \<not> no_wildcard (text_in v) then Some (key @ '' '' @ repr_str (text_in v) @ '': wildcards are not allowed'')
      else None)"

definition scope_value :: "pyval \<Rightarrow> string option" where
  "scope_value v = (if v = PNone then None else Some (strip (text_in v)))"

definition source_problem :: "string option \<Rightarrow> string option" where
  "source_problem source =
     (case source of
        None \<Rightarrow> Some ''an entry needs a source; a tool name alone is not a scope''
      | Some s \<Rightarrow> if source_name s then None else Some (''source '' @ repr_str s @ '' must name its namespace''))"

definition parse_until :: "date_parser \<Rightarrow> until_value \<Rightarrow> string option result" where
  "parse_until from_iso u =
     (case u of
        NoUntil \<Rightarrow> Inr None
      | UntilDate d \<Rightarrow> Inr (Some (iso_date d))
      | UntilDateTime t \<Rightarrow> Inr (Some t)
      | UntilOther t \<Rightarrow>
          (case from_iso t of
             Inr d \<Rightarrow> Inr (Some (iso_date d))
           | Inl e \<Rightarrow> if exn_class e = ''ValueError'' then Refused (''until must be an ISO date (YYYY-MM-DD): '' @ exn_msg e) else Inl e))"

definition ENTRY_KEYS :: "string list" where
  "ENTRY_KEYS = [''pattern'', ''source'', ''tool'', ''reason'', ''added'', ''until'']"

text \<open>The checks in the order of the code, each with its refusal; some messages are shortened.\<close>

definition validate_entry :: "date_parser \<Rightarrow> int \<Rightarrow> raw_entry \<Rightarrow> allow_entry result" where
  "validate_entry from_iso today raw =
     (case raw of
        NoMapping kind \<Rightarrow> Refused (''an entry must be a mapping, not '' @ kind)
      | Mapping d u \<Rightarrow>
          let pattern = dget d ''pattern''; source = dget d ''source''; tool = dget d ''tool'';
              reason = dget d ''reason''; added = dget d ''added'';
              unknown = filter (\<lambda>k. k \<notin> set ENTRY_KEYS) (map fst d)
          in refuse_entry (if unknown = [] then None else Some (''unknown key(s) '' @ py_repr (PList (map PStr (sort unknown)))))
            (refuse_entry (pattern_problem pattern)
              (refuse_entry (scope_problem ''source'' source)
                (refuse_entry (scope_problem ''tool'' tool)
                  (refuse_entry (source_problem (scope_value source))
                    (refuse_entry (if blank_value reason then Some ''reason is required: why this source is fine'' else None)
                      (map_sum id
                         (\<lambda>until. \<lparr>al_pattern = text_in pattern, al_source = the (scope_value source), al_tool = scope_value tool,
                            al_reason = strip (text_in reason),
                            al_added = (if added = PNone then iso_date today else py_str added), al_until = until\<rparr>)
                         (parse_until from_iso u))))))))"

section \<open>The file\<close>

text \<open>What the YAML parser makes of the file: nothing, a mapping whose only key is \<open>allow\<close> with a list or with another
  value that is true, or anything else.\<close>

datatype allow_document = EmptyDocument | AllowList "raw_entry list" | AllowNoList | OtherDocument

definition prefix_error :: "nat \<Rightarrow> pyexn \<Rightarrow> pyexn" where
  "prefix_error i e =
     (if exn_class e = ''AllowListError'' then PyExn ''AllowListError'' (''allow['' @ show_nat i @ '']: '' @ exn_msg e) else e)"

fun validate_all_entries :: "date_parser \<Rightarrow> int \<Rightarrow> nat \<Rightarrow> raw_entry list \<Rightarrow> allow_entry list result" where
  "validate_all_entries from_iso today i [] = Inr []"
| "validate_all_entries from_iso today i (raw # raws) =
     (case validate_entry from_iso today raw of
        Inl e \<Rightarrow> Inl (prefix_error i e)
      | Inr x \<Rightarrow> map_sum id (\<lambda>xs. x # xs) (validate_all_entries from_iso today (Suc i) raws))"

definition parse_allow :: "date_parser \<Rightarrow> int \<Rightarrow> allow_document \<Rightarrow> allow_entry list result" where
  "parse_allow from_iso today doc =
     (case doc of
        EmptyDocument \<Rightarrow> Inr []
      | AllowList raws \<Rightarrow> validate_all_entries from_iso today 0 raws
      | AllowNoList \<Rightarrow> Refused ''allow must be a list''
      | OtherDocument \<Rightarrow> Refused ''the file holds one key, allow, a list of entries'')"

text \<open>Reading the file: it is absent, reading or parsing it raises (the class of the exception tells an \<open>OSError\<close> and a
  \<open>YAMLError\<close> from the others), or there is a document.\<close>

datatype allow_file = NoFile | Unreadable pyexn | Document allow_document

definition load_allow :: "date_parser \<Rightarrow> int \<Rightarrow> allow_file \<Rightarrow> allow_entry list result" where
  "load_allow from_iso today file =
     (case file of
        NoFile \<Rightarrow> Inr []
      | Unreadable e \<Rightarrow>
          if exn_class e \<in> {''OSError'', ''YAMLError''}
          then Refused (''external-content.yaml could not be read: '' @ exn_msg e) else Inl e
      | Document doc \<Rightarrow> parse_allow from_iso today doc)"

section \<open>The live entries\<close>

type_synonym allow_cache = "(int \<times> allow_entry list) option"

fun live_entries :: "date_parser \<Rightarrow> int \<Rightarrow> allow_entry list \<Rightarrow> allow_entry list result" where
  "live_entries from_iso today [] = Inr []"
| "live_entries from_iso today (e # es) =
     (case expired from_iso today e of
        Inl x \<Rightarrow> Inl x
      | Inr gone \<Rightarrow> map_sum id (\<lambda>r. if gone then r else e # r) (live_entries from_iso today es))"

text \<open>\<open>mtime\<close> is \<open>None\<close> when the file cannot be asked for its time.\<close>

definition current_allow ::
  "date_parser \<Rightarrow> int \<Rightarrow> int option \<Rightarrow> allow_file \<Rightarrow> allow_cache \<Rightarrow> allow_entry list result \<times> allow_cache"
where
  "current_allow from_iso today mtime file cache =
     (case mtime of
        None \<Rightarrow> (Inr [], cache)
      | Some m \<Rightarrow>
          (case cache of
             Some (m', es) \<Rightarrow> if m' = m then (live_entries from_iso today es, cache)
               else (case load_allow from_iso today file of
                       Inl e \<Rightarrow> if exn_class e = ''AllowListError'' then (Inr [], Some (m, [])) else (Inl e, cache)
                     | Inr es' \<Rightarrow> (live_entries from_iso today es', Some (m, es')))
           | None \<Rightarrow>
               (case load_allow from_iso today file of
                  Inl e \<Rightarrow> if exn_class e = ''AllowListError'' then (Inr [], Some (m, [])) else (Inl e, cache)
                | Inr es' \<Rightarrow> (live_entries from_iso today es', Some (m, es')))))"

definition allowed_ids :: "allow_entry list \<Rightarrow> string \<Rightarrow> string option \<Rightarrow> string list" where
  "allowed_ids es source tool = map al_pattern (filter (\<lambda>e. covers_call e source tool) es)"

definition allow_status :: "date_parser \<Rightarrow> int \<Rightarrow> allow_file \<Rightarrow> (nat \<times> string option) result" where
  "allow_status from_iso today file =
     (case load_allow from_iso today file of
        Inl e \<Rightarrow> if exn_class e = ''AllowListError'' then Inr (0, Some (exn_msg e)) else Inl e
      | Inr es \<Rightarrow> map_sum id (\<lambda>live. (length live, None)) (live_entries from_iso today es))"

section \<open>The owner's edits\<close>

definition entry_dict :: "allow_entry \<Rightarrow> dict" where
  "entry_dict e =
     [(''pattern'', PStr (al_pattern e)), (''source'', PStr (al_source e))]
     @ (case al_tool e of None \<Rightarrow> [] | Some t \<Rightarrow> [(''tool'', PStr t)])
     @ [(''reason'', PStr (al_reason e)), (''added'', PStr (al_added e))]"

text \<open>An entry as it is written and read again; the date is written as a text, which YAML quotes.\<close>

definition raw_of :: "allow_entry \<Rightarrow> raw_entry" where
  "raw_of e = Mapping (entry_dict e) (case al_until e of None \<Rightarrow> NoUntil | Some t \<Rightarrow> UntilOther t)"

definition write_allow :: "allow_entry list \<Rightarrow> allow_file" where
  "write_allow es = Document (AllowList (map raw_of es))"

definition edit_row :: "string \<Rightarrow> allow_entry \<Rightarrow> string \<Rightarrow> audit_entry" where
  "edit_row action e actor =
     \<lparr>ae_run_id = ''allow:'' @ actor, ae_step_id = None, ae_agent_type = ''owner'', ae_hook_point = ''owner_action'',
      ae_plugin = ''external_content_allow'', ae_decision = action, ae_severity = ''warn'',
      ae_reason = ''external_content_allow: '' @ action @ '' '' @ al_pattern e @ '' for '' @ scope_text e,
      ae_classification = None, ae_tier = None,
      ae_payload = entry_dict e @ (case al_until e of None \<Rightarrow> [] | Some t \<Rightarrow> [(''until'', PStr t)]) @ [(''actor'', PStr actor)]\<rparr>"

definition entry_key :: "allow_entry \<Rightarrow> string \<times> string \<times> string option" where
  "entry_key e = (al_pattern e, al_source e, al_tool e)"

text \<open>Writing the file may fail, which the argument \<open>fault\<close> says; a failing ledger write is the edit's exception, after
  the file has been written.\<close>

definition finish_edit ::
  "pyexn option \<Rightarrow> 's audit_sink \<Rightarrow> string \<Rightarrow> string \<Rightarrow> allow_entry \<Rightarrow> allow_entry list \<Rightarrow> allow_file \<times> 's
    \<Rightarrow> allow_entry result \<times> allow_file \<times> 's"
where
  "finish_edit fault sink action actor e es fs =
     (case fault of
        Some x \<Rightarrow> (Inl x, fs)
      | None \<Rightarrow> (case sink (edit_row action e actor) (snd fs) of (r, s') \<Rightarrow> (map_sum id (\<lambda>_. e) r, write_allow es, s')))"

definition add_entry ::
  "date_parser \<Rightarrow> int \<Rightarrow> pyexn option \<Rightarrow> 's audit_sink \<Rightarrow> raw_entry \<Rightarrow> string \<Rightarrow> allow_file \<times> 's \<Rightarrow> allow_entry result \<times> allow_file \<times> 's"
where
  "add_entry from_iso today fault sink raw actor fs =
     (case validate_entry from_iso today raw of
        Inl x \<Rightarrow> (Inl x, fs)
      | Inr e \<Rightarrow>
          (case load_allow from_iso today (fst fs) of
             Inl x \<Rightarrow> (Inl x, fs)
           | Inr existing \<Rightarrow>
               if entry_key e \<in> entry_key ` set existing
               then (Refused (al_pattern e @ '' for '' @ scope_text e @ '' is already allowed''), fs)
               else finish_edit fault sink ''add'' actor e (existing @ [e]) fs))"

definition remove_entry ::
  "date_parser \<Rightarrow> int \<Rightarrow> pyexn option \<Rightarrow> 's audit_sink \<Rightarrow> string \<times> string \<times> string option \<Rightarrow> string \<Rightarrow> allow_file \<times> 's
    \<Rightarrow> allow_entry result \<times> allow_file \<times> 's"
where
  "remove_entry from_iso today fault sink key actor fs =
     (case load_allow from_iso today (fst fs) of
        Inl x \<Rightarrow> (Inl x, fs)
      | Inr existing \<Rightarrow>
          (case find (\<lambda>e. entry_key e = key) existing of
             None \<Rightarrow> (Refused ''no such entry (the pattern and scope must match exactly)'', fs)
           | Some gone \<Rightarrow> finish_edit fault sink ''remove'' actor gone (filter (\<lambda>e. entry_key e \<noteq> key) existing) fs))"

section \<open>What an entry can allow\<close>

definition narrow :: "allow_entry \<Rightarrow> bool" where
  "narrow e \<longleftrightarrow> al_pattern e \<in> set allowlistable_ids \<and> source_name (al_source e)
     \<and> (\<forall>t. al_tool e = Some t \<longrightarrow> no_wildcard t)"

lemma refuse_entry_Inr: "refuse_entry p r = Inr x \<longleftrightarrow> p = None \<and> r = Inr x"
  by (cases p) (auto simp: refuse_entry_def)

lemma set_strip: "set (strip s) \<subseteq> set s"
  unfolding strip_def lstrip_def by (metis set_dropWhileD set_rev subsetI)

lemma no_wildcard_strip: "no_wildcard s \<Longrightarrow> no_wildcard (strip s)"
  using set_strip [of s] by (auto simp: no_wildcard_def)

lemma map_sum_Inr: "map_sum id f r = Inr y \<longleftrightarrow> (\<exists>x. r = Inr x \<and> y = f x)"
  by (cases r) auto

lemma problem_None:
  "pattern_problem v = None \<longleftrightarrow> \<not> blank_value v \<and> no_wildcard (text_in v) \<and> text_in v \<in> set allowlistable_ids"
  "scope_problem key v = None \<longleftrightarrow> v = PNone \<or> \<not> blank_value v \<and> no_wildcard (text_in v)"
  "source_problem src = None \<longleftrightarrow> (\<exists>s. src = Some s \<and> source_name s)"
  unfolding pattern_problem_def scope_problem_def source_problem_def Let_def by (simp_all split: option.split)

lemma validate_Inr:
  "validate_entry from_iso today (Mapping d u) = Inr e \<longleftrightarrow>
     filter (\<lambda>k. k \<notin> set ENTRY_KEYS) (map fst d) = []
     \<and> pattern_problem (dget d ''pattern'') = None \<and> scope_problem ''source'' (dget d ''source'') = None
     \<and> scope_problem ''tool'' (dget d ''tool'') = None \<and> source_problem (scope_value (dget d ''source'')) = None
     \<and> \<not> blank_value (dget d ''reason'')
     \<and> (\<exists>until. parse_until from_iso u = Inr until
        \<and> e = \<lparr>al_pattern = text_in (dget d ''pattern''), al_source = the (scope_value (dget d ''source'')),
              al_tool = scope_value (dget d ''tool''), al_reason = strip (text_in (dget d ''reason'')),
              al_added = (if dget d ''added'' = PNone then iso_date today else py_str (dget d ''added'')), al_until = until\<rparr>)"
  unfolding validate_entry_def Let_def raw_entry.case refuse_entry_Inr map_sum_Inr by (simp only: option.distinct simp_thms split: if_split) blast

lemma validate_narrow: "validate_entry from_iso today raw = Inr e \<Longrightarrow> narrow e"
proof (cases raw)
  case (Mapping d u)
  assume v: "validate_entry from_iso today raw = Inr e"
  note p = v [unfolded Mapping validate_Inr problem_None]
  show ?thesis
    unfolding narrow_def using p by (auto simp only: allow_entry.simps scope_value_def no_wildcard_strip option.sel split: if_splits)
qed (simp add: validate_entry_def)

lemma validate_all_narrow: "validate_all_entries from_iso today i raws = Inr es \<Longrightarrow> \<forall>e \<in> set es. narrow e"
  by (induction raws arbitrary: i es) (auto simp: map_sum_Inr split: sum.splits dest: validate_narrow)

lemma load_narrow: "load_allow from_iso today file = Inr es \<Longrightarrow> \<forall>e \<in> set es. narrow e"
  by (auto simp: load_allow_def parse_allow_def split: allow_file.splits allow_document.splits if_splits dest: validate_all_narrow)

lemma live_narrow: "live_entries from_iso today es = Inr r \<Longrightarrow> set r \<subseteq> set es \<and> (\<forall>e \<in> set r. expired from_iso today e = Inr False)"
  by (induction es arbitrary: r) (fastforce simp: map_sum_Inr split: sum.splits if_splits)+

definition cache_narrow :: "allow_cache \<Rightarrow> bool" where
  "cache_narrow c \<longleftrightarrow> (\<forall>m es. c = Some (m, es) \<longrightarrow> (\<forall>e \<in> set es. narrow e))"

text \<open>A reading at a day, with what the file is then.\<close>

type_synonym allow_reading = "int \<times> int option \<times> allow_file"

definition read_step :: "date_parser \<Rightarrow> allow_cache \<Rightarrow> allow_reading \<Rightarrow> allow_cache" where
  "read_step from_iso c r = (case r of (today, mtime, file) \<Rightarrow> snd (current_allow from_iso today mtime file c))"

lemma current_allow_narrow:
  assumes "cache_narrow c" "current_allow from_iso today mtime file c = (r, c')"
  shows "cache_narrow c'" "r = Inr es \<Longrightarrow> (\<forall>e \<in> set es. narrow e \<and> expired from_iso today e = Inr False)"
  using assms
  by (auto simp: current_allow_def cache_narrow_def split: option.splits sum.splits if_splits dest!: load_narrow live_narrow) blast+

interpretation allow_reads: invariant_system "read_step from_iso" cache_narrow for from_iso
proof
  fix c r assume "cache_narrow c"
  then show "cache_narrow (read_step from_iso c r)"
    using current_allow_narrow(1) by (auto simp: read_step_def split_beta) (metis prod.collapse)
qed

lemma one_refused:
  assumes "r \<in> set raws" "validate_entry from_iso today r = Refused msg"
      and only: "\<forall>r e. validate_entry from_iso today r = Inl e \<longrightarrow> exn_class e = ''AllowListError''"
  shows "\<exists>msg. validate_all_entries from_iso today i raws = Refused msg"
  using assms(1,2)
proof (induction raws arbitrary: i)
  case (Cons a raws)
  show ?case
  proof (cases "validate_entry from_iso today a")
    case (Inl e)
    then show ?thesis using only by (simp add: prefix_error_def)
  next
    case (Inr x)
    then have "r \<in> set raws" using Cons.prems by auto
    from Cons.IH [where i = "Suc i", OF this Cons.prems(2)] show ?thesis using Inr by auto
  qed
qed simp

lemma refused_class: "(\<And>t e. from_iso t = Inl e \<Longrightarrow> exn_class e = ''ValueError'') \<Longrightarrow>
    validate_entry from_iso today r = Inl e \<Longrightarrow> exn_class e = ''AllowListError''"
  by (auto simp: validate_entry_def Let_def refuse_entry_def parse_until_def map_sum_def split: raw_entry.splits option.splits until_value.splits sum.splits if_splits)

lemma not_hidden: "i \<in> set allowlistable_ids \<Longrightarrow> i \<notin> set HIDDEN_IDS"
  by (auto simp: allowlistable_ids_def)

text \<open>C33. The allow-list is narrow, and a refused file allows nothing. After any history of readings of the file, whatever
  it held and however it changed, a pattern that is allowed for a call is one of the floor's phrase patterns, never a
  hidden-character pattern, and stands in an entry that has not expired, whose source is exactly the call's scope, is
  namespaced and has no wildcard, and whose tool, if it names one, is the call's. If one entry of a changed file is
  refused, nothing is allowed, whatever the others say.\<close>

theorem allow_list_is_narrow:
  assumes reads: "run_ops (read_step from_iso) None history = cache"
      and now: "current_allow from_iso today mtime file cache = (r, cache')"
      and parser: "\<forall>t e. from_iso t = Inl e \<longrightarrow> exn_class e = ''ValueError''"
  shows "(r = Inr es \<longrightarrow> (\<forall>i \<in> set (allowed_ids es source tool).
            i \<in> set allowlistable_ids \<and> i \<notin> set HIDDEN_IDS \<and> source_name source
            \<and> (\<exists>e \<in> set es. al_pattern e = i \<and> al_source e = source \<and> al_tool e \<in> {None, tool} \<and> expired from_iso today e = Inr False)))
    \<and> (file = Document (AllowList raws) \<and> raw \<in> set raws \<and> validate_entry from_iso today raw = Refused msg
         \<and> mtime = Some m \<and> (\<forall>es. cache \<noteq> Some (m, es)) \<longrightarrow> r = Inr [])"
proof (intro conjI impI ballI)
  have narrow: "cache_narrow cache" using allow_reads.run_inv [of None from_iso history] reads by (simp add: cache_narrow_def)
  fix i assume es: "r = Inr es" and "i \<in> set (allowed_ids es source tool)"
  then obtain e where e: "e \<in> set es" "al_pattern e = i" "covers_call e source tool" by (auto simp: allowed_ids_def)
  then have here: "al_source e = source" "al_tool e \<in> {None, tool}" by (auto simp: covers_call_def split: if_splits)
  have ok: "narrow e" "expired from_iso today e = Inr False" using current_allow_narrow(2) [OF narrow now es] e(1) by auto
  show "i \<in> set allowlistable_ids" "i \<notin> set HIDDEN_IDS" "source_name source"
    using ok(1) e(2) here(1) not_hidden by (auto simp: narrow_def)
  show "\<exists>e \<in> set es. al_pattern e = i \<and> al_source e = source \<and> al_tool e \<in> {None, tool} \<and> expired from_iso today e = Inr False"
    using e here ok(2) by blast
next
  assume a: "file = Document (AllowList raws) \<and> raw \<in> set raws \<and> validate_entry from_iso today raw = Refused msg
         \<and> mtime = Some m \<and> (\<forall>es. cache \<noteq> Some (m, es))"
  then obtain msg' where "load_allow from_iso today file = Refused msg'"
    using one_refused [of raw raws from_iso today msg 0] refused_class [of from_iso today] parser
    by (auto simp: load_allow_def parse_allow_def)
  then show "r = Inr []" using now a by (auto simp: current_allow_def split: option.splits if_splits)
qed

section \<open>Edits\<close>

lemma strip_strip [simp]: "strip (strip s) = strip s"
proof -
  let ?u = "strip s"
  have stable: "dropWhile is_space (rev ?u) = rev ?u" by (simp add: strip_def dropWhile_idem)
  have "lstrip ?u = ?u"
  proof (cases ?u)
    case (Cons c cs)
    have "lstrip s = ?u @ rev (takeWhile is_space (rev (lstrip s)))"
      unfolding strip_def by (metis rev_append rev_rev_ident takeWhile_dropWhile_id)
    then have "lstrip s \<noteq> []" "hd (lstrip s) = c" using Cons by (metis Nil_is_append_conv list.distinct(1), metis append_Cons list.sel(1))
    then have "\<not> is_space c" using hd_dropWhile [of is_space s] by (simp add: lstrip_def)
    then show ?thesis using Cons by (simp add: lstrip_def)
  qed (simp add: lstrip_def)
  then show ?thesis using stable by (simp add: strip_def [of ?u])
qed

text \<open>An entry that validation gave, with a date that is parsed back.\<close>

definition written_ok :: "date_parser \<Rightarrow> allow_entry \<Rightarrow> bool" where
  "written_ok from_iso e \<longleftrightarrow> (\<exists>today raw. validate_entry from_iso today raw = Inr e)
     \<and> (\<forall>t. al_until e = Some t \<longrightarrow> (\<exists>d. from_iso t = Inr d \<and> iso_date d = t))"

lemma entry_dict_get:
  "dget (entry_dict e) ''pattern'' = PStr (al_pattern e)" "dget (entry_dict e) ''source'' = PStr (al_source e)"
  "dget (entry_dict e) ''tool'' = opt_str (al_tool e)" "dget (entry_dict e) ''reason'' = PStr (al_reason e)"
  "dget (entry_dict e) ''added'' = PStr (al_added e)"
  by (cases "al_tool e"; simp add: entry_dict_def dget_def)+

lemma entry_dict_keys: "filter (\<lambda>k. k \<notin> set ENTRY_KEYS) (map fst (entry_dict e)) = []"
  by (cases "al_tool e") (simp_all add: entry_dict_def ENTRY_KEYS_def)

lemma validate_raw_of: "written_ok from_iso e \<Longrightarrow> validate_entry from_iso today (raw_of e) = Inr e"
proof -
  assume w: "written_ok from_iso e"
  then obtain day raw where "validate_entry from_iso day raw = Inr e" unfolding written_ok_def by blast
  then obtain d u where v: "validate_entry from_iso day (Mapping d u) = Inr e" by (cases raw) (auto simp: validate_entry_def)
  have parts: "pattern_problem (PStr (al_pattern e)) = None" "scope_problem ''source'' (PStr (al_source e)) = None"
      "source_problem (Some (al_source e)) = None" "strip (al_source e) = al_source e" "strip (al_reason e) = al_reason e"
      "\<not> blank_value (PStr (al_reason e))" "scope_problem ''tool'' (opt_str (al_tool e)) = None" "scope_value (opt_str (al_tool e)) = al_tool e"
    using v unfolding validate_Inr problem_None
    by (auto simp: blank_value_def text_in_def scope_value_def no_wildcard_strip split: pyval.splits)
  have "parse_until from_iso (case al_until e of None \<Rightarrow> NoUntil | Some t \<Rightarrow> UntilOther t) = Inr (al_until e)"
    using w by (auto simp: written_ok_def parse_until_def split: option.splits)
  then show ?thesis
    using parts by (simp add: validate_entry_def raw_of_def entry_dict_keys entry_dict_get refuse_entry_def Let_def scope_value_def text_in_def py_str_def)
qed

lemma load_written: "\<forall>e \<in> set es. written_ok from_iso e \<Longrightarrow> load_allow from_iso today (write_allow es) = Inr es"
proof -
  have "validate_all_entries from_iso today i (map raw_of es) = Inr es" if "\<forall>e \<in> set es. written_ok from_iso e" for i
    using that by (induction es arbitrary: i) (simp_all add: validate_raw_of)
  then show "\<forall>e \<in> set es. written_ok from_iso e \<Longrightarrow> ?thesis" by (simp add: load_allow_def write_allow_def parse_allow_def)
qed

text \<open>An edit on a day, with the fault its write meets, and what it does to the list of entries the owner thinks of.\<close>

datatype allow_edit =
    AddEntry int "pyexn option" raw_entry string
  | RemoveEntry int "pyexn option" "string \<times> string \<times> string option" string

fun edit_step :: "date_parser \<Rightarrow> 's audit_sink \<Rightarrow> allow_file \<times> 's \<Rightarrow> allow_edit \<Rightarrow> allow_file \<times> 's" where
  "edit_step from_iso sink fs (AddEntry today fault raw actor) = snd (add_entry from_iso today fault sink raw actor fs)"
| "edit_step from_iso sink fs (RemoveEntry today fault key actor) = snd (remove_entry from_iso today fault sink key actor fs)"

fun list_edit :: "date_parser \<Rightarrow> allow_entry list \<Rightarrow> allow_edit \<Rightarrow> allow_entry list" where
  "list_edit from_iso es (AddEntry today fault raw actor) =
     (case validate_entry from_iso today raw of
        Inl _ \<Rightarrow> es
      | Inr e \<Rightarrow> if fault \<noteq> None \<or> entry_key e \<in> entry_key ` set es then es else es @ [e])"
| "list_edit from_iso es (RemoveEntry today fault key actor) =
     (if fault \<noteq> None then es else filter (\<lambda>e. entry_key e \<noteq> key) es)"

text \<open>An edit whose date, if it gives one, is a date that is parsed back.\<close>

fun edit_ok :: "date_parser \<Rightarrow> allow_edit \<Rightarrow> bool" where
  "edit_ok from_iso (AddEntry today fault raw actor) \<longleftrightarrow>
     (case validate_entry from_iso today raw of Inl _ \<Rightarrow> True
      | Inr e \<Rightarrow> (case al_until e of None \<Rightarrow> True | Some t \<Rightarrow> (case from_iso t of Inl _ \<Rightarrow> False | Inr d \<Rightarrow> iso_date d = t)))"
| "edit_ok from_iso (RemoveEntry today fault key actor) \<longleftrightarrow> True"

lemma written_okI:
  assumes "edit_ok from_iso (AddEntry today fault raw actor)" "validate_entry from_iso today raw = Inr e"
  shows "written_ok from_iso e"
  using assms by (auto simp: written_ok_def split: option.splits sum.splits)

lemma edit_step_written:
  assumes ok: "\<forall>e \<in> set es. written_ok from_iso e" and op: "edit_ok from_iso op"
  shows "fst (edit_step from_iso sink (write_allow es, s) op) = write_allow (list_edit from_iso es op)
    \<and> (\<forall>e \<in> set (list_edit from_iso es op). written_ok from_iso e)"
proof (cases op)
  case (AddEntry today fault raw actor)
  show ?thesis
  proof (cases "validate_entry from_iso today raw")
    case (Inr e)
    then have "written_ok from_iso e" using op written_okI AddEntry by blast
    then show ?thesis using ok Inr AddEntry
      by (auto simp: add_entry_def load_written finish_edit_def split_beta split: option.splits)
  qed (use AddEntry ok in \<open>simp add: add_entry_def\<close>)
next
  case (RemoveEntry today fault key actor)
  have "filter (\<lambda>e. entry_key e \<noteq> key) es = es" if "find (\<lambda>e. entry_key e = key) es = None"
    using that by (simp add: find_None_iff filter_id_conv)
  then show ?thesis using ok RemoveEntry
    by (auto simp: remove_entry_def load_written finish_edit_def split_beta split: option.splits)
qed

text \<open>C34. The file is the owner's list. Through any sequence of edits, of refused ones and of edits whose write fails, the
  file read on any day holds exactly the entries of the plain list the edits describe: an add puts a new entry at the
  end, once per pattern, source and tool; a remove drops exactly the entry with that key; nothing else changes. The dates
  are ones the parser reads back as they were written.\<close>

theorem edits_are_the_owners_list:
  assumes "\<forall>e \<in> set es. written_ok from_iso e" "\<forall>op \<in> set ops. edit_ok from_iso op"
      and "run_ops (edit_step from_iso sink) (write_allow es, s) ops = (file, s')"
  shows "load_allow from_iso today file = Inr (run_ops (list_edit from_iso) es ops)
    \<and> (distinct (map entry_key es) \<longrightarrow> distinct (map entry_key (run_ops (list_edit from_iso) es ops)))"
  using assms
proof (induction ops arbitrary: es s)
  case Nil
  then show ?case by (auto simp: load_written)
next
  case (Cons op ops)
  obtain f1 s1 where one: "edit_step from_iso sink (write_allow es, s) op = (f1, s1)" by (metis surj_pair)
  have ok: "edit_ok from_iso op" "\<forall>op \<in> set ops. edit_ok from_iso op" using Cons.prems(2) by auto
  note step = edit_step_written [OF Cons.prems(1) ok(1), of sink s]
  have run: "run_ops (edit_step from_iso sink) (write_allow (list_edit from_iso es op), s1) ops = (file, s')"
    using Cons.prems(3) step by (simp add: one)
  have d: "distinct (map entry_key es) \<longrightarrow> distinct (map entry_key (list_edit from_iso es op))"
    by (cases op) (auto simp: distinct_map_filter split: sum.splits)
  then show ?case using Cons.IH [OF _ ok(2) run] step by simp
qed

definition demo_dates :: date_parser where
  "demo_dates t = (if t = ''2030-01-01'' then Inr 21915 else Raise ''ValueError'' ''Invalid isoformat string'')"

definition demo_raw :: raw_entry where
  "demo_raw = Mapping [(''pattern'', PStr ''override_instructions''), (''source'', PStr ''plugin:news''), (''reason'', PStr ''quotes attacks'')]
     (UntilOther ''2030-01-01'')"

definition demo_edits :: "allow_edit list" where
  "demo_edits = [AddEntry 20000 None demo_raw ''ada'', AddEntry 20001 None demo_raw ''ada'',
     RemoveEntry 20002 None (''override_instructions'', ''skill:news'', None) ''ada'']"

definition demo_entry :: allow_entry where
  "demo_entry = \<lparr>al_pattern = ''override_instructions'', al_source = ''plugin:news'', al_tool = None,
     al_reason = ''quotes attacks'', al_added = ''2024-10-04'', al_until = Some ''2030-01-01''\<rparr>"

lemma demo_validate: "validate_entry demo_dates 20000 demo_raw = Inr demo_entry"
  by code_simp

theorem edits_are_the_owners_list_witness:
  "load_allow demo_dates 20003 (fst (run_ops (edit_step demo_dates (\<lambda>_ s. (Inr 1, s))) (write_allow [], ()) demo_edits)) = Inr [demo_entry]"
proof -
  obtain f s' where run: "run_ops (edit_step demo_dates (\<lambda>_ s. (Inr 1, s))) (write_allow [], ()) demo_edits = (f, s')"
    by (metis surj_pair)
  have ok: "list_all (edit_ok demo_dates) demo_edits" by code_simp
  have es: "run_ops (list_edit demo_dates) [] demo_edits = [demo_entry]" by code_simp
  have "\<forall>e \<in> set []. written_ok demo_dates e" by simp
  from edits_are_the_owners_list [OF this ok [unfolded list_all_iff] run] show ?thesis by (simp only: run fst_conv es)
qed

definition demo_history :: "allow_reading list" where
  "demo_history = [(20000, Some 1, NoFile), (20000, Some 2, write_allow [demo_entry])]"

theorem allow_list_is_narrow_witness:
  "fst (current_allow demo_dates 20001 (Some 2) NoFile (run_ops (read_step demo_dates) None demo_history)) = Inr [demo_entry]
   \<and> allowed_ids [demo_entry] ''plugin:news'' (Some ''fetch'') = [''override_instructions'']
   \<and> ''override_instructions'' \<notin> set HIDDEN_IDS \<and> source_name ''plugin:news''"
proof -
  obtain r cache' where now: "current_allow demo_dates 20001 (Some 2) NoFile (run_ops (read_step demo_dates) None demo_history) = (r, cache')"
    by (metis surj_pair)
  have "fst (current_allow demo_dates 20001 (Some 2) NoFile (run_ops (read_step demo_dates) None demo_history)) = Inr [demo_entry]"
    by code_simp
  then have r: "r = Inr [demo_entry]" by (simp only: now fst_conv)
  have ids: "allowed_ids [demo_entry] ''plugin:news'' (Some ''fetch'') = [''override_instructions'']" by code_simp
  have "\<forall>t e. demo_dates t = Inl e \<longrightarrow> exn_class e = ''ValueError''" by (auto simp: demo_dates_def split: if_splits)
  from allow_list_is_narrow [OF refl now this, THEN conjunct1, rule_format, OF r, of "''override_instructions''" "''plugin:news''" "Some ''fetch''"]
  show ?thesis unfolding now fst_conv r ids by simp
qed

end
