(* ===== verification/Content_Floor.thy ===== *)
theory Content_Floor
  imports Content_Allow
begin

text \<open>
  The hook of the external-content floor (\<open>plugins/external_content_floor.py\<close>): every result of a tool that declares
  external content is scanned, with the owner's allow-list for its source, and text for a model goes into the envelope.
\<close>

definition TEXT_KEYS :: "string list" where "TEXT_KEYS = [''text'', ''content'', ''output'', ''result'', ''body'']"

definition floor_source :: "dict \<Rightarrow> string \<Rightarrow> string" where
  "floor_source payload tool =
     (case nonempty_str (dget payload ''tool_plugin'') of None \<Rightarrow> tool | Some p \<Rightarrow> if p = ''system'' then tool else p)"

definition with_allowed :: "dict \<Rightarrow> string list \<Rightarrow> dict" where
  "with_allowed row used = (if used = [] then row else dset ''allowed'' (PList (map PStr (sort used))) row)"

definition floor_allow :: "string \<Rightarrow> dict \<Rightarrow> hook_decision" where
  "floor_allow reason row = (decision Allow reason)\<lparr>hd_audit_metadata := row\<rparr>"

definition clean_audit :: "dict \<Rightarrow> dict" where
  "clean_audit row = dset ''spans'' (PInt 0) (dset ''marked'' (PBool False) row)"

definition redacted_decision :: "dict \<Rightarrow> dict \<Rightarrow> string list \<Rightarrow> nat \<Rightarrow> bool \<Rightarrow> hook_decision" where
  "redacted_decision payload row ids spans marked =
     (decision Transform (''external_content_floor: redacted '' @ show_nat spans @ '' instruction-like span(s)''))
       \<lparr>hd_transformed_payload := Some payload, hd_severity := SevWarn,
        hd_audit_metadata := dset ''marked'' (PBool marked) (dset ''spans'' (PInt (int spans)) (dset ''patterns'' (PList (map PStr ids)) row))\<rparr>"

definition marked_decision :: "dict \<Rightarrow> dict \<Rightarrow> hook_decision" where
  "marked_decision payload row =
     (decision Transform ''external_content_floor: marked untrusted'')
       \<lparr>hd_transformed_payload := Some payload,
        hd_audit_metadata := dset ''spans'' (PInt 0) (dset ''marked'' (PBool True) row)\<rparr>"

text \<open>The ids and the kept ids of several scans, and their spans.\<close>

definition ids_of :: "scan_result list \<Rightarrow> string list" where "ids_of rs = fold (\<lambda>r ids. extend_new ids (sc_ids r)) rs []"
definition used_of :: "scan_result list \<Rightarrow> string list" where "used_of rs = fold (\<lambda>r ids. extend_new ids (sc_allowed r)) rs []"
definition spans_of :: "scan_result list \<Rightarrow> nat" where "spans_of rs = sum_list (map sc_spans rs)"

section \<open>Typed fields\<close>

definition typed_field :: "(string \<Rightarrow> scan_result) \<Rightarrow> pyval \<Rightarrow> pyval" where
  "typed_field sc v = (case v of PStr t \<Rightarrow> PStr (sc_text (sc t)) | _ \<Rightarrow> v)"

definition typed_found :: "(string \<Rightarrow> scan_result) \<Rightarrow> dict \<Rightarrow> scan_result list" where
  "typed_found sc flds = concat (map (\<lambda>kv. case snd kv of PStr t \<Rightarrow> [sc t] | _ \<Rightarrow> []) flds)"

definition floor_typed :: "(string \<Rightarrow> scan_result) \<Rightarrow> dict \<Rightarrow> dict \<Rightarrow> dict \<Rightarrow> hook_decision" where
  "floor_typed sc payload flds row0 =
     (let new_fields = map (\<lambda>kv. (fst kv, typed_field sc (snd kv))) flds; found = typed_found sc flds;
          row = with_allowed row0 (used_of found)
      in if spans_of found = 0
         then floor_allow ''external_content_floor: no instruction-like text (typed fields)'' (clean_audit row)
         else redacted_decision
                (dset K_RESULT (PStr (join [NL] (map (py_str \<circ> snd) new_fields))) (dset ''fields'' (PDict new_fields) payload))
                row (ids_of found) (spans_of found) False)"

section \<open>Text\<close>

definition floor_text :: "(string \<Rightarrow> scan_result) \<Rightarrow> (string \<Rightarrow> string) option \<Rightarrow> dict \<Rightarrow> string \<Rightarrow> dict \<Rightarrow> hook_decision" where
  "floor_text sc mark payload t row0 =
     (if strip t = [] then decision Allow ''external_content_floor: no text''
      else let found = sc t; row = with_allowed row0 (sc_allowed found);
               out = (case mark of None \<Rightarrow> sc_text found | Some w \<Rightarrow> w (sc_text found))
        in if \<not> sc_matched found \<and> mark = None
           then floor_allow ''external_content_floor: no instruction-like text'' (clean_audit row)
           else let payload' = dset K_RESULT (PStr out) payload in
             if sc_matched found then redacted_decision payload' row (sc_ids found) (sc_spans found) (mark \<noteq> None)
             else marked_decision payload' row)"

section \<open>Structured results\<close>

text \<open>The walk, as its three results: the new value, the scans in the order they are made, and whether a text was marked.
  \<open>key\<close> says that the value stands in a mapping under one of the text keys.\<close>

definition text_key :: "string \<Rightarrow> bool" where "text_key k \<longleftrightarrow> k \<in> set TEXT_KEYS"

fun walk_value :: "(string \<Rightarrow> scan_result) \<Rightarrow> (string \<Rightarrow> string) option \<Rightarrow> bool \<Rightarrow> pyval \<Rightarrow> pyval" where
  "walk_value sc mark key (PStr t) =
     (if strip t = [] then PStr t
      else PStr (case mark of Some w \<Rightarrow> if key then w (sc_text (sc t)) else sc_text (sc t) | None \<Rightarrow> sc_text (sc t)))"
| "walk_value sc mark key (PDict d) = PDict (map (\<lambda>kv. (fst kv, walk_value sc mark (text_key (fst kv)) (snd kv))) d)"
| "walk_value sc mark key (PList vs) = PList (map (walk_value sc mark False) vs)"
| "walk_value sc mark key v = v"

fun walk_found :: "(string \<Rightarrow> scan_result) \<Rightarrow> pyval \<Rightarrow> scan_result list" where
  "walk_found sc (PStr t) = (if strip t = [] then [] else [sc t])"
| "walk_found sc (PDict d) = concat (map (\<lambda>kv. walk_found sc (snd kv)) d)"
| "walk_found sc (PList vs) = concat (map (walk_found sc) vs)"
| "walk_found sc v = []"

fun walk_marks :: "bool \<Rightarrow> pyval \<Rightarrow> bool" where
  "walk_marks key (PStr t) = (key \<and> strip t \<noteq> [])"
| "walk_marks key (PDict d) = list_ex (\<lambda>kv. walk_marks (text_key (fst kv)) (snd kv)) d"
| "walk_marks key (PList vs) = list_ex (walk_marks False) vs"
| "walk_marks key v = False"

definition floor_structured :: "(string \<Rightarrow> scan_result) \<Rightarrow> (string \<Rightarrow> string) option \<Rightarrow> dict \<Rightarrow> pyval \<Rightarrow> dict \<Rightarrow> hook_decision" where
  "floor_structured sc mark payload result row0 =
     (let found = walk_found sc result; marked = (mark \<noteq> None \<and> walk_marks False result);
          row = with_allowed row0 (used_of found);
          payload' = dset K_RESULT (walk_value sc mark False result) payload
      in if spans_of found = 0 \<and> \<not> marked
         then floor_allow ''external_content_floor: no instruction-like text'' (clean_audit row)
         else if spans_of found \<noteq> 0 then redacted_decision payload' row (ids_of found) (spans_of found) marked
         else marked_decision payload' row)"

section \<open>The hook\<close>

text \<open>The caller is code, not a model; the tool did not raise.\<close>

definition code_caller :: "dict \<Rightarrow> bool" where
  "code_caller metadata = (case dget metadata ''caller'' of PStr c \<Rightarrow> startswith c ''plugin:'' \<or> startswith c ''core:'' | _ \<Rightarrow> False)"

definition reads_as_text :: "dict \<Rightarrow> bool" where
  "reads_as_text metadata \<longleftrightarrow>
     (dget metadata K_TOOL_ERROR = PNone \<or> dget metadata K_TOOL_ERROR = PStr ''ToolReportedError'') \<and> \<not> code_caller metadata"

definition floor_mark :: "hook_context \<Rightarrow> (string \<Rightarrow> string) option" where
  "floor_mark ctx =
     (let tool = tool_name_of (hc_payload ctx) in
      if reads_as_text (hc_metadata ctx) then Some (wrap (clean_label (floor_source (hc_payload ctx) tool)) (clean_label tool)) else None)"

definition floor_row :: "hook_context \<Rightarrow> dict" where
  "floor_row ctx =
     (let tool = tool_name_of (hc_payload ctx) in
      [(''tool'', PStr (clean_label tool)), (''source'', PStr (clean_label (floor_source (hc_payload ctx) tool)))])"

definition floor_answer :: "matcher \<Rightarrow> hook_context \<Rightarrow> string list \<Rightarrow> hook_decision" where
  "floor_answer finditer ctx allow =
     (let payload = hc_payload ctx; sc = scan finditer allow in
      case dget payload ''fields'' of
        PDict (kv # flds) \<Rightarrow> floor_typed sc payload (kv # flds) (floor_row ctx)
      | _ \<Rightarrow>
          (case result_of payload of
             PStr t \<Rightarrow> floor_text sc (floor_mark ctx) payload t (floor_row ctx)
           | PDict d \<Rightarrow> floor_structured sc (floor_mark ctx) payload (PDict d) (floor_row ctx)
           | PList vs \<Rightarrow> floor_structured sc (floor_mark ctx) payload (PList vs) (floor_row ctx)
           | _ \<Rightarrow> decision Allow ''external_content_floor: no text result''))"

definition floor_scope :: "hook_context \<Rightarrow> string" where
  "floor_scope ctx = scope_source (nonempty_str (dget (hc_payload ctx) ''tool_plugin'')) (tool_name_of (hc_payload ctx))"

text \<open>\<open>allowed\<close> is the allow-list as the process reads it: the ids for a scope and a tool, or the exception of the reading.
  The harness stamps the owning plugin as a text, or not at all.\<close>

definition ExternalContentFloorHook_call ::
  "matcher \<Rightarrow> (string \<Rightarrow> string option \<Rightarrow> 's \<Rightarrow> string list result \<times> 's) \<Rightarrow> hook_context \<Rightarrow> 's \<Rightarrow> hook_decision result \<times> 's"
where
  "ExternalContentFloorHook_call finditer allowed ctx s =
     (let payload = hc_payload ctx; tool = tool_name_of payload in
      if tool = [] \<or> \<not> is_external (hc_metadata ctx)
      then (Inr (decision Allow ''external_content_floor: not external content''), s)
      else (case allowed (floor_scope ctx) (Some tool) s of
              (Inl e, s') \<Rightarrow> (Inl e, s')
            | (Inr allow, s') \<Rightarrow> (Inr (floor_answer finditer ctx allow), s')))"

text \<open>The allow-list read from the owner's file, with the process's cache as the state.\<close>

definition allowed_from ::
  "date_parser \<Rightarrow> int \<Rightarrow> int option \<Rightarrow> allow_file \<Rightarrow> string \<Rightarrow> string option \<Rightarrow> allow_cache \<Rightarrow> string list result \<times> allow_cache"
where
  "allowed_from from_iso today mtime file source tool cache =
     (case current_allow from_iso today mtime file cache of
        (r, cache') \<Rightarrow> (map_sum id (\<lambda>es. allowed_ids es source tool) r, cache'))"

definition external_content_floor_hook :: "matcher \<Rightarrow> (string \<Rightarrow> string option \<Rightarrow> 's \<Rightarrow> string list result \<times> 's) \<Rightarrow> 's hook" where
  "external_content_floor_hook finditer allowed =
     \<lparr>hk_name = ''external_content_floor'', hk_hook_point = POST_TOOL_USE, hk_priority = 46,
      hk_call = ExternalContentFloorHook_call finditer allowed, hk_bot_status = None\<rparr>"

section \<open>What the hook guarantees\<close>

lemma scan_unmatched: "\<not> sc_matched (scan finditer allow t) \<Longrightarrow> sc_text (scan finditer allow t) = t"
proof -
  assume un: "\<not> sc_matched (scan finditer allow t)"
  have more: "sc_spans cur \<le> sc_spans (scan_more finditer allow n cur)" for n cur
  proof (induction n arbitrary: cur)
    case (Suc n)
    show ?case
    proof (cases "sc_matched (scan_pass finditer allow (sc_text cur))")
      case True
      show ?thesis using True by (simp add: Let_def) (rule order_trans [OF _ Suc.IH], simp)
    qed (simp add: Let_def)
  qed simp
  have "\<not> sc_matched (scan_pass finditer allow t)"
    using un more [of "scan_pass finditer allow t" "MAX_SCAN_PASSES - 1"] by (auto simp: scan_def sc_matched_def Let_def split: if_splits)
  then show ?thesis by (simp add: scan_def Let_def scan_pass_unmatched)
qed

text \<open>The texts of a value in their order, each with whether it stands where a model reads it.\<close>

fun texts :: "bool \<Rightarrow> pyval \<Rightarrow> (bool \<times> string) list" where
  "texts key (PStr t) = [(key, t)]"
| "texts key (PDict d) = concat (map (\<lambda>kv. texts (text_key (fst kv)) (snd kv)) d)"
| "texts key (PList vs) = concat (map (texts False) vs)"
| "texts key v = []"

definition shown_as :: "(string \<Rightarrow> scan_result) \<Rightarrow> (string \<Rightarrow> string) option \<Rightarrow> bool \<times> string \<Rightarrow> bool \<times> string" where
  "shown_as sc mark kt =
     (case kt of (k, t) \<Rightarrow>
        (k, if strip t = [] then t
            else case mark of Some w \<Rightarrow> if k then w (sc_text (sc t)) else sc_text (sc t) | None \<Rightarrow> sc_text (sc t)))"

lemma texts_walk: "texts key (walk_value sc mark key v) = map (shown_as sc mark) (texts key v)"
proof (induction sc mark key v rule: walk_value.induct)
  case (1 sc mark key t)
  then show ?case by (simp add: shown_as_def split: option.splits)
next
  case (2 sc mark key d)
  then show ?case by (simp add: map_concat comp_def cong: map_cong)
next
  case (3 sc mark key vs)
  then show ?case by (simp add: map_concat comp_def cong: map_cong)
qed auto

lemma walk_found_texts: "walk_found sc v = map (sc \<circ> snd) (filter (\<lambda>kt. strip (snd kt) \<noteq> []) (texts key v))"
  by (induction key v rule: texts.induct) (simp_all add: filter_concat map_concat comp_def cong: map_cong)

lemma walk_marks_texts: "walk_marks key v \<longleftrightarrow> (\<exists>kt \<in> set (texts key v). fst kt \<and> strip (snd kt) \<noteq> [])"
  by (induction key v rule: walk_marks.induct) (auto simp: list_ex_iff)

lemma shown_as_id:
  assumes "spans_of (walk_found (scan finditer allow) v) = 0" "mark = None \<or> \<not> walk_marks key v"
  shows "map (shown_as (scan finditer allow) mark) (texts key v) = texts key v"
proof (rule map_idI)
  fix kt assume kt: "kt \<in> set (texts key v)"
  obtain k t where kt_eq: "kt = (k, t)" by (metis surj_pair)
  have plain: "sc_text (scan finditer allow t) = t" if "strip t \<noteq> []"
  proof -
    have "scan finditer allow t \<in> set (walk_found (scan finditer allow) v)"
      unfolding walk_found_texts [where key = key] using kt that by (force simp: kt_eq)
    then have "\<not> sc_matched (scan finditer allow t)" using assms(1) by (auto simp: spans_of_def sc_matched_def)
    then show ?thesis by (rule scan_unmatched)
  qed
  show "shown_as (scan finditer allow) mark kt = kt"
    using plain assms(2) kt unfolding walk_marks_texts by (auto simp: kt_eq shown_as_def split: option.splits)
qed

text \<open>What the model sees of a decision on a result.\<close>

definition result_after :: "hook_context \<Rightarrow> hook_decision \<Rightarrow> pyval" where
  "result_after ctx d = result_of (case hd_transformed_payload d of None \<Rightarrow> hc_payload ctx | Some p \<Rightarrow> p)"

definition is_text :: "pyval \<Rightarrow> bool" where "is_text v = (case v of PStr _ \<Rightarrow> True | _ \<Rightarrow> False)"

lemma result_set [simp]: "result_of (dset K_RESULT v p) = v"
  by (simp add: result_of_def)

lemma floor_text_shows:
  "result_of (hc_payload ctx) = PStr t \<Longrightarrow>
   texts True (result_after ctx (floor_text (scan finditer allow) mark (hc_payload ctx) t row))
     = map (shown_as (scan finditer allow) mark) (texts True (PStr t))"
  using scan_unmatched [of finditer allow t]
  by (cases mark) (auto simp: floor_text_def result_after_def shown_as_def floor_allow_def redacted_decision_def marked_decision_def Let_def)

lemma floor_structured_shows:
  "result_of (hc_payload ctx) = v \<Longrightarrow>
   texts False (result_after ctx (floor_structured (scan finditer allow) mark (hc_payload ctx) v row))
     = map (shown_as (scan finditer allow) mark) (texts False v)"
  using shown_as_id [of finditer allow v mark False]
  by (auto simp: floor_structured_def result_after_def texts_walk floor_allow_def redacted_decision_def marked_decision_def Let_def)

lemma floor_decisions_go_on:
  "\<not> stops (hd_outcome (floor_text sc mark p t row))" "\<not> stops (hd_outcome (floor_structured sc mark p v row))"
  "\<not> stops (hd_outcome (floor_typed sc p flds row))"
  by (auto simp: floor_text_def floor_structured_def floor_typed_def floor_allow_def redacted_decision_def marked_decision_def Let_def stops_def)


definition feed_ctx :: hook_context where
  "feed_ctx = \<lparr>hc_hook_point = POST_TOOL_USE, hc_run_id = ''r'', hc_agent_type = ''chat'', hc_step_id = None, hc_persona = None,
     hc_route = None, hc_payload = [(K_TOOL_NAME, PStr ''fetch''), (''tool_plugin'', PStr ''news''), (K_RESULT, PDict [(''text'', PStr ''hi''), (''id'', PStr ''7'')])],
     hc_classification = None, hc_tier = None, hc_metadata = [(K_TOOL_CONTENT, PStr ''external'')]\<rparr>"


section \<open>A date with a time\<close>

text \<open>C35. One \<open>until\<close> with a time of day takes every external result away. An entry whose date YAML reads as a date with a
  time passes validation, since such a value is a date; its text is one the date parser refuses when the entry's expiry is
  checked, and nothing catches that. So while the file holds the entry, the hook raises on every result of a tool that
  declares external content, where a refused file would have meant no more than that nothing is allowed.\<close>

theorem time_of_day_breaks_the_floor:
  assumes entry: "validate_entry from_iso today (Mapping d NoUntil) = Inr e"
      and parser: "from_iso t = Raise ''ValueError'' msg"
      and cached: "\<forall>es. cache \<noteq> Some (m, es)"
      and ext: "is_external (hc_metadata ctx)" "tool_name_of (hc_payload ctx) \<noteq> []"
  shows "load_allow from_iso today (Document (AllowList [Mapping d (UntilDateTime t)])) = Inr [e\<lparr>al_until := Some t\<rparr>]
    \<and> fst (ExternalContentFloorHook_call finditer
             (allowed_from from_iso today (Some m) (Document (AllowList [Mapping d (UntilDateTime t)]))) ctx cache)
        = Raise ''ValueError'' msg"
proof -
  have "validate_entry from_iso today (Mapping d (UntilDateTime t)) = Inr (e\<lparr>al_until := Some t\<rparr>)"
    using entry unfolding validate_Inr by (auto simp: parse_until_def)
  then have load: "load_allow from_iso today (Document (AllowList [Mapping d (UntilDateTime t)])) = Inr [e\<lparr>al_until := Some t\<rparr>]"
    by (simp add: load_allow_def parse_allow_def)
  have "live_entries from_iso today [e\<lparr>al_until := Some t\<rparr>] = Raise ''ValueError'' msg"
    by (simp add: expired_def parser)
  then have "fst (current_allow from_iso today (Some m) (Document (AllowList [Mapping d (UntilDateTime t)])) cache) = Raise ''ValueError'' msg"
    using load cached by (cases cache) (auto simp: current_allow_def)
  then have "fst (allowed_from from_iso today (Some m) (Document (AllowList [Mapping d (UntilDateTime t)])) source tool cache)
      = Raise ''ValueError'' msg" for source tool
    by (auto simp: allowed_from_def split: prod.splits)
  then show ?thesis using load ext by (simp add: ExternalContentFloorHook_call_def Let_def split_beta)
qed

theorem time_of_day_breaks_the_floor_witness:
  "fst (ExternalContentFloorHook_call demo_finditer
          (allowed_from demo_dates 20000 (Some 1)
             (Document (AllowList [Mapping [(''pattern'', PStr ''override_instructions''), (''source'', PStr ''plugin:news''), (''reason'', PStr ''quotes'')]
                (UntilDateTime ''2030-01-01T00:00:00'')]))) feed_ctx None)
     = Raise ''ValueError'' ''Invalid isoformat string''"
proof -
  let ?d = "[(''pattern'', PStr ''override_instructions''), (''source'', PStr ''plugin:news''), (''reason'', PStr ''quotes'')]"
  have entry: "validate_entry demo_dates 20000 (Mapping ?d NoUntil) = Inr (demo_entry\<lparr>al_reason := ''quotes'', al_until := None\<rparr>)" by code_simp
  have bad: "demo_dates ''2030-01-01T00:00:00'' = Raise ''ValueError'' ''Invalid isoformat string''" by code_simp
  have ext: "is_external (hc_metadata feed_ctx)" "tool_name_of (hc_payload feed_ctx) \<noteq> []" by code_simp+
  show ?thesis by (rule time_of_day_breaks_the_floor [THEN conjunct2, OF entry bad _ ext]) simp
qed

end
