(* ===== verification/Reentry.thy ===== *)
theory Reentry
  imports External_Content "HOL-Library.Log_Nat"
begin

text \<open>
  The scan of stored text on its way back into a prompt (\<open>reentry.py\<close>): the memo of scans, the limits per text and per
  call, the envelope of turns with third-party text, and the audit rows with their count of sightings.

  The hash (\<open>blake2b\<close>) and the matches of the patterns are arguments; the two ordered dictionaries of the module are
  association lists, oldest first.
\<close>

unbundle bit_operations_syntax

section \<open>Limits and markers\<close>

definition MAX_ITEM_CHARS :: nat where "MAX_ITEM_CHARS = 16 * 1024"
definition MAX_CALL_CHARS :: nat where "MAX_CALL_CHARS = 128 * 1024"

definition CUT_MARKER :: string where
  "CUT_MARKER = ''[not scanned: text over the re-entry limit was cut]''"

definition SPENT_MARKER :: string where
  "SPENT_MARKER = ''[not scanned: this read passed the re-entry limit]''"

definition REENTRY_MARKER :: string where
  "REENTRY_MARKER = ''[redacted: instruction-like text in stored content]''"

definition FIRST_PARTY_ROLES :: "string list" where "FIRST_PARTY_ROLES = [''user'']"

definition MEMORY_ROLE :: string where "MEMORY_ROLE = ''memory''"
definition EXTERNAL_TURN :: string where "EXTERNAL_TURN = ''external''"
definition ENVELOPE_SOURCE :: string where "ENVELOPE_SOURCE = ''stored_transcript''"
definition MEMORY_ENVELOPE_SOURCE :: string where "MEMORY_ENVELOPE_SOURCE = ''learned_memory''"

definition MEMO_MAX :: nat where "MEMO_MAX = 2048"
definition SIGHTINGS_MAX :: nat where "SIGHTINGS_MAX = 4096"

record reentry =
  re_text :: string
  re_ids :: "string list"
  re_spans :: nat
  re_chars :: nat
  re_capped :: bool
  re_cached :: bool
  re_enveloped :: bool
  re_digest :: string

text \<open>\<open>Reentry(text)\<close>, with the defaults of the class.\<close>

definition plain_reentry :: "string \<Rightarrow> reentry" where
  "plain_reentry t = \<lparr>re_text = t, re_ids = [], re_spans = 0, re_chars = 0, re_capped = False, re_cached = False,
     re_enveloped = False, re_digest = []\<rparr>"

section \<open>The memo\<close>

text \<open>An \<open>OrderedDict\<close>: a key that is moved to the end, and the oldest that is dropped.\<close>

definition move_to_end :: "'k \<Rightarrow> ('k \<times> 'v) list \<Rightarrow> ('k \<times> 'v) list" where
  "move_to_end k d = filter (\<lambda>kv. fst kv \<noteq> k) d @ filter (\<lambda>kv. fst kv = k) d"

definition drop_oldest :: "nat \<Rightarrow> ('k \<times> 'v) list \<Rightarrow> ('k \<times> 'v) list" where
  "drop_oldest limit d = (if limit < length d then tl d else d)"

type_synonym memo = "(string \<times> (string \<times> string list \<times> nat)) list"

text \<open>What a scan leaves in the memo: the text with the markers worded for stored content.\<close>

definition fresh_scan :: "matcher \<Rightarrow> string \<Rightarrow> string \<times> string list \<times> nat" where
  "fresh_scan finditer t =
     (let r = scan finditer [] t in
      (if 0 < sc_spans r then py_replace MARKER REENTRY_MARKER (sc_text r) else sc_text r, sc_ids r, sc_spans r))"

definition scan_cached ::
  "matcher \<Rightarrow> (string \<Rightarrow> string) \<Rightarrow> string \<Rightarrow> memo \<Rightarrow> ((string \<times> string list \<times> nat) \<times> bool \<times> string) \<times> memo"
where
  "scan_cached finditer digest t memo =
     (let key = digest t in
      case map_of memo key of
        Some hit \<Rightarrow> ((hit, True, key), move_to_end key memo)
      | None \<Rightarrow> ((fresh_scan finditer t, False, key), drop_oldest MEMO_MAX (aset key (fresh_scan finditer t) memo)))"

section \<open>One text\<close>

text \<open>How one reader call shows a text: the reader's name, the length of its excerpt, and whether a redacted text is
  put in the envelope.\<close>

record read_as =
  ra_reader :: string
  ra_limit :: "nat option"
  ra_envelope_if_redacted :: bool

definition shown_text :: "read_as \<Rightarrow> string \<Rightarrow> bool \<Rightarrow> bool \<Rightarrow> string \<Rightarrow> string" where
  "shown_text ra role capped enveloped scanned =
     (let marked = (if capped then scanned @ CUT_MARKER else scanned);
          line = (case ra_limit ra of None \<Rightarrow> marked | Some n \<Rightarrow> take n (join '' '' (split_words [] marked)))
      in if \<not> enveloped then marked
         else wrap (if role = MEMORY_ROLE then MEMORY_ENVELOPE_SOURCE else ENVELOPE_SOURCE)
                (if ra_reader ra = [] then ''transcript'' else ra_reader ra) line)"

definition spent_reentry :: "(string \<Rightarrow> string) \<Rightarrow> string \<Rightarrow> reentry" where
  "spent_reentry digest t = (plain_reentry SPENT_MARKER)\<lparr>re_capped := True, re_digest := digest t\<rparr>"

definition reenter_one ::
  "matcher \<Rightarrow> (string \<Rightarrow> string) \<Rightarrow> read_as \<Rightarrow> string \<Rightarrow> string \<Rightarrow> string option \<Rightarrow> int option \<Rightarrow> memo \<Rightarrow> reentry \<times> int option \<times> memo"
where
  "reenter_one finditer digest ra role t turn_origin remaining memo =
     (if role \<in> set FIRST_PARTY_ROLES \<or> t = [] then (plain_reentry t, remaining, memo)
      else let item = take MAX_ITEM_CHARS t; over = MAX_ITEM_CHARS < length t in
        case remaining of
          Some b \<Rightarrow>
            if b \<le> 0 then (spent_reentry digest item, remaining, memo)
            else let read = take (nat b) item; capped = (over \<or> b < int (length item));
                     (((scanned, ids, spans), cached, key), memo') = scan_cached finditer digest read memo;
                     enveloped = (turn_origin = Some EXTERNAL_TURN \<or> ra_envelope_if_redacted ra \<and> 0 < spans)
                 in (\<lparr>re_text = shown_text ra role capped enveloped scanned, re_ids = ids, re_spans = spans,
                      re_chars = length read, re_capped = capped, re_cached = cached, re_enveloped = enveloped,
                      re_digest = key\<rparr>, Some (b - int (length read)), memo')
        | None \<Rightarrow>
            (let (((scanned, ids, spans), cached, key), memo') = scan_cached finditer digest item memo;
                 enveloped = (turn_origin = Some EXTERNAL_TURN \<or> ra_envelope_if_redacted ra \<and> 0 < spans)
             in (\<lparr>re_text = shown_text ra role over enveloped scanned, re_ids = ids, re_spans = spans,
                  re_chars = length item, re_capped = over, re_cached = cached, re_enveloped = enveloped,
                  re_digest = key\<rparr>, None, memo')))"

section \<open>The audit of one call\<close>

record reentry_audit =
  au_reader :: string
  au_origin :: string
  au_role_counts :: "(string \<times> nat) list"
  au_items :: nat
  au_chars_scanned :: nat
  au_spans :: nat
  au_ids :: "string list"
  au_capped_items :: nat
  au_cache_hits :: nat
  au_enveloped_items :: nat
  au_sightings :: nat

definition as_payload :: "reentry_audit \<Rightarrow> dict" where
  "as_payload e =
     [(''reader'', PStr (au_reader e)), (''origin'', PStr (au_origin e)),
      (''role_counts'', PDict (map (\<lambda>(r, n). (r, PInt (int n))) (au_role_counts e))), (''items'', PInt (int (au_items e))),
      (''chars_scanned'', PInt (int (au_chars_scanned e))), (''spans'', PInt (int (au_spans e))),
      (''patterns'', PList (map PStr (au_ids e))), (''capped_items'', PInt (int (au_capped_items e))),
      (''cache_hits'', PInt (int (au_cache_hits e))), (''enveloped_items'', PInt (int (au_enveloped_items e))),
      (''sightings'', PInt (int (au_sightings e)))]"

text \<open>The recorder over an audit log, with the trace and the session as they are when the row is written.\<close>

definition reentry_entry :: "string option \<Rightarrow> string option \<Rightarrow> reentry_audit \<Rightarrow> audit_entry" where
  "reentry_entry trace_id session_id e =
     \<lparr>ae_run_id = (if truthy_str session_id then the session_id else ''reentry''), ae_step_id = None,
      ae_agent_type = ''reentry'', ae_hook_point = ''reentry_scan'', ae_plugin = ''reentry'',
      ae_decision = (if 0 < au_spans e then ''transform'' else ''allow''),
      ae_severity = (if 0 < au_spans e then ''warn'' else ''info''),
      ae_reason = (if 0 < au_spans e
                   then ''reentry: redacted '' @ show_nat (au_spans e) @ '' instruction-like span(s) in stored text''
                   else ''reentry: stored text over the scan limit was cut''),
      ae_classification = None, ae_tier = None,
      ae_payload = dstamp ''session_id'' (map_option PStr session_id) (dstamp ''trace_id'' (map_option PStr trace_id) (as_payload e))\<rparr>"

type_synonym 's recorder = "reentry_audit \<Rightarrow> 's \<Rightarrow> unit result \<times> 's"

definition audit_recorder :: "'s audit_sink \<Rightarrow> string option \<Rightarrow> string option \<Rightarrow> 's recorder" where
  "audit_recorder sink trace_id session_id e s =
     (case sink (reentry_entry trace_id session_id e) s of (r, s') \<Rightarrow> (map_sum id (\<lambda>_. ()) r, s'))"

type_synonym sighting_key = "string \<times> string \<times> string \<times> string list"

record reentry_state =
  es_memo :: memo
  es_sightings :: "(sighting_key \<times> nat) list"

definition clear_memo :: "reentry_state \<Rightarrow> reentry_state" where
  "clear_memo st = \<lparr>es_memo = [], es_sightings = []\<rparr>"

definition sighting_key_of :: "string option \<Rightarrow> string \<Rightarrow> string \<Rightarrow> (string \<times> reentry) list \<Rightarrow> sighting_key" where
  "sighting_key_of session_id reader origin results =
     (case session_id of None \<Rightarrow> [] | Some s \<Rightarrow> s, reader, origin,
      sort (remdups (map (re_digest \<circ> snd) (filter (\<lambda>(_, r). 0 < re_spans r \<or> re_capped r) results))))"

definition sighting :: "sighting_key \<Rightarrow> (sighting_key \<times> nat) list \<Rightarrow> nat \<times> (sighting_key \<times> nat) list" where
  "sighting key d =
     (let count = Suc (case map_of d key of None \<Rightarrow> 0 | Some n \<Rightarrow> n)
      in (count, drop_oldest SIGHTINGS_MAX (move_to_end key (aset key count d))))"

definition role_counts :: "(string \<times> reentry) list \<Rightarrow> (string \<times> nat) list" where
  "role_counts results = fold (\<lambda>(role, _) d. aset role (Suc (case map_of d role of None \<Rightarrow> 0 | Some n \<Rightarrow> n)) d) results []"

definition audit_of :: "string \<Rightarrow> string \<Rightarrow> (string \<times> reentry) list \<Rightarrow> nat \<Rightarrow> reentry_audit" where
  "audit_of reader origin results sightings =
     \<lparr>au_reader = reader, au_origin = origin, au_role_counts = role_counts results, au_items = length results,
      au_chars_scanned = sum_list (map (re_chars \<circ> snd) results), au_spans = sum_list (map (re_spans \<circ> snd) results),
      au_ids = fold (\<lambda>(_, r) ids. extend_new ids (re_ids r)) results [],
      au_capped_items = count_where (re_capped \<circ> snd) results, au_cache_hits = count_where (re_cached \<circ> snd) results,
      au_enveloped_items = count_where (re_enveloped \<circ> snd) results, au_sightings = sightings\<rparr>"

definition emit ::
  "'s recorder option \<Rightarrow> string option \<Rightarrow> string \<Rightarrow> string \<Rightarrow> (string \<times> reentry) list \<Rightarrow> (sighting_key \<times> nat) list \<Rightarrow> 's
    \<Rightarrow> (sighting_key \<times> nat) list \<times> 's"
where
  "emit recorder session_id reader origin results seen s =
     (if sum_list (map (re_spans \<circ> snd) results) = 0 \<and> count_where (re_capped \<circ> snd) results = 0 then (seen, s)
      else case recorder of
        None \<Rightarrow> (seen, s)
      | Some record \<Rightarrow>
          (case sighting (sighting_key_of session_id reader origin results) seen of
            (n, seen') \<Rightarrow>
              (seen', if n AND (n - 1) \<noteq> 0 then s else snd (record (audit_of reader origin results n) s))))"

section \<open>The readers\<close>

text \<open>What a reader call finds in the process: the matcher and the hash, the floor's switch, the recorder, the session.\<close>

record 's reentry_env =
  en_finditer :: matcher
  en_digest :: "string \<Rightarrow> string"
  en_floor :: bool
  en_recorder :: "'s recorder option"
  en_session :: "string option"

definition emit_in ::
  "'s reentry_env \<Rightarrow> string \<Rightarrow> string \<Rightarrow> (string \<times> reentry) list \<Rightarrow> memo \<Rightarrow> (sighting_key \<times> nat) list \<Rightarrow> 's \<Rightarrow> reentry_state \<times> 's"
where
  "emit_in en reader origin results memo seen s =
     (case emit (en_recorder en) (en_session en) reader origin results seen s of
        (seen', s') \<Rightarrow> (\<lparr>es_memo = memo, es_sightings = seen'\<rparr>, s'))"

definition reenter_text ::
  "'s reentry_env \<Rightarrow> string \<Rightarrow> string \<Rightarrow> string \<Rightarrow> string \<Rightarrow> int option \<Rightarrow> string option \<Rightarrow> bool \<Rightarrow> reentry_state \<Rightarrow> 's
    \<Rightarrow> reentry \<times> reentry_state \<times> 's"
where
  "reenter_text en t reader origin role budget turn_origin env st s =
     (if \<not> en_floor en then (plain_reentry t, st, s)
      else
        (case reenter_one (en_finditer en) (en_digest en) \<lparr>ra_reader = reader, ra_limit = None, ra_envelope_if_redacted = env\<rparr>
                role t turn_origin (Some (case budget of None \<Rightarrow> int MAX_CALL_CHARS | Some b \<Rightarrow> b)) (es_memo st) of
           (r, _, memo) \<Rightarrow> (r, emit_in en reader origin [(role, r)] memo (es_sightings st) s)))"

text \<open>The loop of \<open>reenter_many\<close>, over the items in the order the budget is spent.\<close>

fun reenter_loop ::
  "matcher \<Rightarrow> (string \<Rightarrow> string) \<Rightarrow> read_as \<Rightarrow> ((string \<times> string) \<times> string option) list \<Rightarrow> int option \<Rightarrow> memo \<Rightarrow> reentry list \<times> memo"
where
  "reenter_loop finditer digest ra [] remaining memo = ([], memo)"
| "reenter_loop finditer digest ra (((role, t), turn_origin) # items) remaining memo =
     (let (r, remaining', memo') = reenter_one finditer digest ra role t turn_origin remaining memo;
          (rs, memo'') = reenter_loop finditer digest ra items remaining' memo'
      in (r # rs, memo''))"

text \<open>The turn origins of the items; a caller that gives them gives one for each.\<close>

definition with_origins :: "'a list \<Rightarrow> 'b option list option \<Rightarrow> ('a \<times> 'b option) list" where
  "with_origins items origins = zip items (case origins of None \<Rightarrow> map (\<lambda>_. None) items | Some os \<Rightarrow> os)"

definition in_order :: "bool \<Rightarrow> 'a list \<Rightarrow> 'a list" where
  "in_order chronological xs = (if chronological then rev xs else xs)"

definition reenter_many ::
  "'s reentry_env \<Rightarrow> (string \<times> string) list \<Rightarrow> string \<Rightarrow> string \<Rightarrow> bool \<Rightarrow> string option list option \<Rightarrow> nat option \<Rightarrow> bool
    \<Rightarrow> reentry_state \<Rightarrow> 's \<Rightarrow> reentry list \<times> reentry_state \<times> 's"
where
  "reenter_many en items reader origin chronological origins limit env st s =
     (if \<not> en_floor en then (map (\<lambda>(_, t). plain_reentry t) items, st, s)
      else
        (case reenter_loop (en_finditer en) (en_digest en) \<lparr>ra_reader = reader, ra_limit = limit, ra_envelope_if_redacted = env\<rparr>
                (in_order chronological (with_origins items origins)) (Some (int MAX_CALL_CHARS)) (es_memo st) of
           (rs, memo) \<Rightarrow>
             (in_order chronological rs,
              emit_in en reader origin (zip (map fst items) (in_order chronological rs)) memo (es_sightings st) s)))"

definition reenter_memory :: "'s reentry_env \<Rightarrow> string \<Rightarrow> string \<Rightarrow> reentry_state \<Rightarrow> 's \<Rightarrow> string \<times> reentry_state \<times> 's" where
  "reenter_memory en t reader st s =
     (if t = [] then (t, st, s)
      else case reenter_text en t reader ''learned_memory'' MEMORY_ROLE None None True st s of
        (r, out) \<Rightarrow> (re_text r, out))"

definition reenter_memory_lines ::
  "'s reentry_env \<Rightarrow> string list \<Rightarrow> string \<Rightarrow> reentry_state \<Rightarrow> 's \<Rightarrow> string list \<times> reentry_state \<times> 's"
where
  "reenter_memory_lines en lines reader st s =
     (case reenter_many en (map (Pair MEMORY_ROLE) lines) reader ''learned_memory'' False None None True st s of
        (rs, out) \<Rightarrow> (map re_text rs, out))"

definition one_line :: "reentry \<Rightarrow> nat \<Rightarrow> string" where
  "one_line r limit = (if re_enveloped r then re_text r else take limit (join '' '' (split_words [] (re_text r))))"

section \<open>Rows at powers of two\<close>

lemma and_pred_iff: "n AND (n - 1) = 0 \<longleftrightarrow> n = 0 \<or> (\<exists>k. n = 2 ^ k)" for n :: nat
proof (induction n rule: less_induct)
  case (less n)
  show ?case
  proof (cases "even n")
    case False
    then obtain m where n: "n = 2 * m + 1" by (metis oddE)
    have "Suc (2 * m) AND 2 * m = 2 * m" by (subst and_rec) simp
    then have "n AND (n - 1) = 2 * m" using n by simp
    moreover have "(\<exists>k. n = 2 ^ k) \<longleftrightarrow> m = 0"
    proof
      assume "\<exists>k. n = 2 ^ k"
      then obtain k where "2 * m + 1 = (2::nat) ^ k" using n by auto
      then show "m = 0" by (cases k) (simp_all, presburger)
    qed (auto simp: n intro: exI [of _ 0])
    ultimately show ?thesis using n by simp
  next
    case True
    then obtain m where n: "n = 2 * m" by blast
    show ?thesis
    proof (cases m)
      case (Suc p)
      have "2 * Suc p AND Suc (2 * p) = 2 * (Suc p AND p)" by (subst and_rec) simp
      then have "n AND (n - 1) = 2 * (m AND (m - 1))" using n Suc by simp
      moreover have "(\<exists>k. n = 2 ^ k) \<longleftrightarrow> (\<exists>k. m = 2 ^ k)"
      proof
        assume "\<exists>k. n = 2 ^ k"
        then obtain k where "2 * m = (2::nat) ^ k" using n by auto
        then show "\<exists>k. m = 2 ^ k" by (cases k) auto
      qed (auto simp: n intro: power_Suc [symmetric])
      ultimately show ?thesis using less.IH [of m] n Suc by simp
    qed (simp add: n)
  qed
qed

lemma floorlog_Suc:
  "floorlog 2 (Suc n) = (if \<exists>k. Suc n = 2 ^ k then Suc (floorlog 2 n) else floorlog 2 n)"
  "Suc n = 2 ^ k \<Longrightarrow> k = floorlog 2 n"
proof -
  let ?f = "floorlog 2 n"
  have up: "n < 2 ^ ?f" by (rule floorlog_leD) auto
  have low: "n \<noteq> 0 \<Longrightarrow> 2 ^ (?f - 1) \<le> n" using floorlog_bounds [of n 2] by auto
  have k: "k = ?f" if "Suc n = 2 ^ k" for k
  proof (rule ccontr)
    assume ne: "k \<noteq> ?f"
    have "2 ^ k \<le> (2::nat) ^ ?f" using up that by linarith
    then have "k \<le> ?f" by (rule power_le_imp_le_exp [rotated]) simp
    then have "k < ?f" using ne by simp
    then have "2 ^ k \<le> (2::nat) ^ (?f - 1)" by (intro power_increasing) auto
    moreover have "n \<noteq> 0" using \<open>k < ?f\<close> by (auto simp: floorlog_def split: if_splits)
    ultimately show False using low that by linarith
  qed
  then show "Suc n = 2 ^ k \<Longrightarrow> k = ?f" .
  show "floorlog 2 (Suc n) = (if \<exists>k. Suc n = 2 ^ k then Suc ?f else ?f)"
  proof (cases "\<exists>k. Suc n = 2 ^ k")
    case True
    then have "Suc n = 1 * 2 ^ ?f" using k by auto
    moreover have "floorlog 2 (1 * 2 ^ ?f) = floorlog 2 1 + ?f" by (rule floorlog_power) auto
    moreover have "floorlog 2 1 = 1" by (simp add: floorlog_def)
    ultimately show ?thesis using True by simp
  next
    case False
    then have "Suc n \<noteq> 2 ^ ?f" by blast
    then have "Suc n < 2 ^ ?f" using up by simp
    then have "floorlog 2 (Suc n) \<le> ?f" by (intro floorlog_leI) auto
    moreover have "?f \<le> floorlog 2 (Suc n)" by (rule floorlog_mono) simp
    ultimately show ?thesis using False by simp
  qed
qed

lemma powers_upto: "filter (\<lambda>n. \<exists>k. n = 2 ^ k) [1..<Suc n] = map (\<lambda>i. 2 ^ i) [0..<floorlog 2 n]"
proof (induction n)
  case 0
  then show ?case by (simp add: floorlog_def)
next
  case (Suc n)
  have split: "[1..<Suc (Suc n)] = [1..<Suc n] @ [Suc n]" by simp
  show ?case
  proof (cases "\<exists>k. Suc n = 2 ^ k")
    case True
    then have "Suc n = 2 ^ floorlog 2 n" using floorlog_Suc(2) by blast
    with True show ?thesis unfolding split filter_append Suc floorlog_Suc(1) by simp
  next
    case False
    then show ?thesis unfolding split filter_append Suc floorlog_Suc(1) by simp
  qed
qed

text \<open>A history of reads: session, reader, origin and results of each. The rows one key has got so far are those of the
  reads with this key.\<close>

type_synonym read = "string option \<times> string \<times> string \<times> (string \<times> reentry) list"

definition noteworthy :: "read \<Rightarrow> bool" where
  "noteworthy h = (case h of (_, _, _, rs) \<Rightarrow> sum_list (map (re_spans \<circ> snd) rs) \<noteq> 0 \<or> count_where (re_capped \<circ> snd) rs \<noteq> 0)"

definition key_of_read :: "read \<Rightarrow> sighting_key" where
  "key_of_read h = (case h of (sess, reader, origin, rs) \<Rightarrow> sighting_key_of sess reader origin rs)"

definition emit_read :: "'s recorder option \<Rightarrow> read \<Rightarrow> (sighting_key \<times> nat) list \<Rightarrow> 's \<Rightarrow> (sighting_key \<times> nat) list \<times> 's" where
  "emit_read rec h seen s = (case h of (sess, reader, origin, rs) \<Rightarrow> emit rec sess reader origin rs seen s)"

definition keep_rows :: "reentry_audit list recorder" where
  "keep_rows e es = (Inr (), es @ [e])"

fun rows_of :: "sighting_key \<Rightarrow> (sighting_key \<times> nat) list \<Rightarrow> read list \<Rightarrow> reentry_audit list" where
  "rows_of k seen [] = []"
| "rows_of k seen (h # hs) =
     (case emit_read (Some keep_rows) h seen [] of
        (seen', es) \<Rightarrow> (if key_of_read h = k then es else []) @ rows_of k seen' hs)"

definition counts_of :: "(sighting_key \<Rightarrow> nat) \<Rightarrow> (sighting_key \<times> nat) list \<Rightarrow> bool" where
  "counts_of c seen \<longleftrightarrow> distinct (map fst seen) \<and> (\<forall>k. map_of seen k = (if c k = 0 then None else Some (c k)))"

lemma keys_aset: "map fst (aset k v d) = (if k \<in> set (map fst d) then map fst d else map fst d @ [k])"
  by (induction d) force+

lemma distinct_aset: "distinct (map fst d) \<Longrightarrow> distinct (map fst (aset k v d))"
  by (simp add: keys_aset del: set_map)

lemma move_to_end_facts:
  assumes "distinct (map fst d)"
  shows "distinct (map fst (move_to_end k d))" "map_of (move_to_end k d) = map_of d" "set (move_to_end k d) = set d"
    "length (move_to_end k d) = length d"
proof -
  show s: "set (move_to_end k d) = set d" by (auto simp: move_to_end_def)
  show l: "length (move_to_end k d) = length d" by (simp add: move_to_end_def) (metis sum_length_filter_compl add.commute)
  have "card (set (map fst (move_to_end k d))) = length (map fst (move_to_end k d))"
    using distinct_card [OF assms] by (simp add: s l)
  then show d: "distinct (map fst (move_to_end k d))" by (rule card_distinct)
  show "map_of (move_to_end k d) = map_of d"
    using map_of_inject_set [OF d assms] s by simp
qed

lemma sighting_counts:
  assumes c: "counts_of c seen" and room: "length seen \<le> SIGHTINGS_MAX" and fits: "k \<in> fst ` set seen \<or> length seen < SIGHTINGS_MAX"
  shows "fst (sighting k seen) = Suc (c k)" "counts_of (c(k := Suc (c k))) (snd (sighting k seen))"
    "length (snd (sighting k seen)) \<le> SIGHTINGS_MAX"
    "fst ` set (snd (sighting k seen)) = insert k (fst ` set seen)"
proof -
  have look: "map_of seen k = (if c k = 0 then None else Some (c k))" and d: "distinct (map fst seen)"
    using c [unfolded counts_of_def, THEN conjunct2, THEN spec, of k] c [unfolded counts_of_def, THEN conjunct1] by blast+
  have old: "(case map_of seen k of None \<Rightarrow> 0 | Some n \<Rightarrow> n) = c k" by (simp add: look)
  let ?new = "aset k (Suc (c k)) seen"
  have keys: "map fst ?new = (if k \<in> fst ` set seen then map fst seen else map fst seen @ [k])"
    by (simp add: keys_aset)
  then have "length ?new = (if k \<in> fst ` set seen then length seen else Suc (length seen))"
    by (metis length_append_singleton length_map)
  then have len: "length ?new \<le> SIGHTINGS_MAX" using room fits by auto
  note end_facts = move_to_end_facts [OF distinct_aset [OF d], of k k "Suc (c k)"]
  have out: "sighting k seen = (Suc (c k), move_to_end k ?new)"
    using len end_facts(4) by (simp add: sighting_def old drop_oldest_def)
  show "fst (sighting k seen) = Suc (c k)" by (simp add: out)
  show "counts_of (c(k := Suc (c k))) (snd (sighting k seen))"
    using c end_facts(1,2) by (simp add: out counts_of_def)
  show "length (snd (sighting k seen)) \<le> SIGHTINGS_MAX" using len end_facts(4) by (simp add: out)
  have "fst ` set ?new = insert k (fst ` set seen)" using arg_cong [OF keys, of set] by (auto split: if_splits)
  then show "fst ` set (snd (sighting k seen)) = insert k (fst ` set seen)" using end_facts(3) by (simp add: out)
qed

lemma rows_of_counts:
  assumes "counts_of c seen" "length seen \<le> SIGHTINGS_MAX"
      "card (fst ` set seen \<union> set (map key_of_read (filter noteworthy hs))) \<le> SIGHTINGS_MAX"
  shows "map au_sightings (rows_of k seen hs)
      = filter (\<lambda>n. \<exists>j. n = 2 ^ j) [Suc (c k)..<Suc (c k + count_list (map key_of_read (filter noteworthy hs)) k)]"
  using assms
proof (induction hs arbitrary: c seen)
  case Nil
  then show ?case by simp
next
  case (Cons h hs)
  obtain sess reader origin rs where h: "h = (sess, reader, origin, rs)" by (metis prod_cases4)
  show ?case
  proof (cases "noteworthy h")
    case False
    then have "emit_read (Some keep_rows) h seen [] = (seen, [])"
      by (simp add: h noteworthy_def emit_read_def emit_def)
    then show ?thesis using Cons False by simp
  next
    case True
    let ?k = "key_of_read h"
    let ?seen = "snd (sighting ?k seen)"
    have fits: "?k \<in> fst ` set seen \<or> length seen < SIGHTINGS_MAX"
    proof (rule disjCI)
      assume new: "\<not> length seen < SIGHTINGS_MAX"
      have "card (fst ` set seen) = length seen"
        using Cons.prems(1) distinct_card [of "map fst seen"] by (simp add: counts_of_def)
      then have "card (fst ` set seen) = SIGHTINGS_MAX" using new Cons.prems(2) by simp
      moreover have "card (insert ?k (fst ` set seen)) \<le> SIGHTINGS_MAX"
        by (rule order_trans [OF card_mono Cons.prems(3)]) (use True in auto)
      ultimately show "?k \<in> fst ` set seen" by (auto simp: card_insert_if split: if_splits)
    qed
    note step = sighting_counts [OF Cons.prems(1,2) fits]
    let ?row = "audit_of reader origin rs (Suc (c ?k))"
    have emit: "emit_read (Some keep_rows) h seen [] = (?seen, if \<exists>j. Suc (c ?k) = 2 ^ j then [?row] else [])"
      using True step(1) and_pred_iff [of "Suc (c ?k)"]
      by (cases "sighting ?k seen") (auto simp: h noteworthy_def emit_read_def emit_def key_of_read_def keep_rows_def)
    have rest: "map au_sightings (rows_of k ?seen hs)
        = filter (\<lambda>n. \<exists>j. n = 2 ^ j)
            [Suc ((c(?k := Suc (c ?k))) k)..<Suc ((c(?k := Suc (c ?k))) k + count_list (map key_of_read (filter noteworthy hs)) k)]"
      using Cons.prems(3) True by (intro Cons.IH step(2,3)) (simp add: step(4))
    show ?thesis
    proof (cases "?k = k")
      case False
      then show ?thesis using rest True by (simp add: emit)
    next
      case k: True
      let ?n = "count_list (map key_of_read (filter noteworthy hs)) k"
      have "[Suc (c k)..<Suc (c k + Suc ?n)] = Suc (c k) # [Suc (Suc (c k))..<Suc (Suc (c k) + ?n)]"
        by (simp add: upt_conv_Cons)
      then show ?thesis using rest True k by (simp add: emit audit_of_def)
    qed
  qed
qed


definition demo_read :: read where
  "demo_read = (Some ''s'', ''history'', ''transcript'',
     [(''assistant'', (plain_reentry REENTRY_MARKER)\<lparr>re_spans := 1, re_ids := [''ignore_previous''], re_digest := ''d''\<rparr>)])"


section \<open>Reading without a memo\<close>

text \<open>What a reader call means: each text gets a share of the call's characters in the order the budget is spent, and is
  read on its own, without a memo.\<close>

definition wanted :: "(string \<times> string) \<times> string option \<Rightarrow> nat" where
  "wanted i = (case i of ((role, t), _) \<Rightarrow> if role \<in> set FIRST_PARTY_ROLES then 0 else min MAX_ITEM_CHARS (length t))"

fun shares :: "nat \<Rightarrow> nat list \<Rightarrow> nat list" where
  "shares b [] = []"
| "shares b (n # ns) = min n b # shares (b - min n b) ns"

definition read_alone ::
  "matcher \<Rightarrow> (string \<Rightarrow> string) \<Rightarrow> read_as \<Rightarrow> (string \<times> string) \<times> string option \<Rightarrow> nat \<Rightarrow> reentry"
where
  "read_alone finditer digest ra i n =
     (case i of ((role, t), turn_origin) \<Rightarrow>
        if role \<in> set FIRST_PARTY_ROLES \<or> t = [] then plain_reentry t
        else if n = 0 then spent_reentry digest (take MAX_ITEM_CHARS t)
        else case fresh_scan finditer (take n t) of (scanned, ids, spans) \<Rightarrow>
          let enveloped = (turn_origin = Some EXTERNAL_TURN \<or> ra_envelope_if_redacted ra \<and> 0 < spans) in
          \<lparr>re_text = shown_text ra role (n < length t) enveloped scanned, re_ids = ids, re_spans = spans, re_chars = n,
           re_capped = (n < length t), re_cached = False, re_enveloped = enveloped, re_digest = digest (take n t)\<rparr>)"

abbreviation uncached :: "reentry \<Rightarrow> reentry" where "uncached r \<equiv> r\<lparr>re_cached := False\<rparr>"

definition memo_ok :: "matcher \<Rightarrow> (string \<Rightarrow> string) \<Rightarrow> memo \<Rightarrow> bool" where
  "memo_ok finditer digest memo \<longleftrightarrow>
     (\<forall>(k, v) \<in> set memo. \<exists>t. k = digest t \<and> v = fresh_scan finditer t) \<and> distinct (map fst memo) \<and> length memo \<le> MEMO_MAX"

lemma drop_oldest_set: "set (drop_oldest n d) \<subseteq> set d"
  by (auto simp: drop_oldest_def dest: list.set_sel(2) split: if_splits) (metis list.sel(2) list.set_sel(2))

lemma scan_cached_fresh:
  assumes inj: "inj digest" and ok: "memo_ok finditer digest memo"
    and s: "scan_cached finditer digest t memo = ((v, cached, key), memo')"
  shows "v = fresh_scan finditer t \<and> key = digest t \<and> memo_ok finditer digest memo'"
proof (cases "map_of memo (digest t)")
  case None
  then have v: "v = fresh_scan finditer t" "key = digest t"
    and m: "memo' = drop_oldest MEMO_MAX (aset (digest t) (fresh_scan finditer t) memo)"
    using s by (auto simp: scan_cached_def Let_def)
  let ?new = "aset (digest t) (fresh_scan finditer t) memo"
  have d: "distinct (map fst ?new)" using ok by (simp add: memo_ok_def distinct_aset)
  have "x = (digest t, fresh_scan finditer t) \<or> x \<in> set memo" if "x \<in> set ?new" for x
    using that by (induction memo) (auto split: if_splits)
  moreover have "length ?new \<le> Suc (length memo)" by (induction memo) auto
  ultimately have "memo_ok finditer digest memo'"
    using ok d drop_oldest_set [of MEMO_MAX ?new]
    by (fastforce simp: memo_ok_def m drop_oldest_def distinct_tl map_tl)
  then show ?thesis using v by simp
next
  case (Some hit)
  then obtain u where "digest t = digest u" "hit = fresh_scan finditer u"
    using ok by (fastforce simp: memo_ok_def dest: map_of_SomeD)
  then have "hit = fresh_scan finditer t" using inj by (auto dest: injD)
  moreover have "v = hit" "key = digest t" "memo' = move_to_end (digest t) memo"
    using s Some by (auto simp: scan_cached_def Let_def)
  moreover have "distinct (map fst memo)" using ok by (simp add: memo_ok_def)
  ultimately show ?thesis using ok move_to_end_facts [of memo "digest t"] by (simp add: memo_ok_def)
qed

lemma take_eq_conv_min: "take b (take m t) = take (min (min m (length t)) b) t"
  by (cases "m \<le> length t"; cases "b \<le> length t") (auto simp: min_def take_take)

lemma reenter_one_alone:
  assumes inj: "inj digest" and ok: "memo_ok finditer digest memo"
    and r: "reenter_one finditer digest ra role t turn_origin (Some (int b)) memo = (r, b', memo')"
  defines "n \<equiv> min (wanted ((role, t), turn_origin)) b"
  shows "uncached r = read_alone finditer digest ra ((role, t), turn_origin) n \<and> b' = Some (int (b - n))
    \<and> memo_ok finditer digest memo'"
proof (cases "role \<in> set FIRST_PARTY_ROLES \<or> t = [] \<or> b = 0")
  case True
  then show ?thesis using r ok
    by (auto simp: reenter_one_def read_alone_def wanted_def n_def plain_reentry_def spent_reentry_def Let_def)
next
  case False
  then have role: "role \<notin> set FIRST_PARTY_ROLES" "t \<noteq> []" "0 < b" by auto
  have pos: "0 < n" using role by (cases t) (auto simp: n_def wanted_def MAX_ITEM_CHARS_def)
  obtain v cached key memo2 where sc: "scan_cached finditer digest (take n t) memo = ((v, cached, key), memo2)"
    by (metis prod_cases4 surj_pair)
  obtain scanned ids spans where v: "v = (scanned, ids, spans)" by (metis prod_cases3)
  have item: "take (nat (int b)) (take MAX_ITEM_CHARS t) = take n t"
    using role by (simp only: n_def wanted_def nat_int prod.case if_False take_eq_conv_min)
  have cap: "(MAX_ITEM_CHARS < length t \<or> int b < int (length (take MAX_ITEM_CHARS t))) = (n < length t)"
    using role by (auto simp: n_def wanted_def)
  have len: "length (take n t) = n" using role by (auto simp: n_def wanted_def)
  have "n \<le> b" by (simp add: n_def)
  let ?env = "turn_origin = Some EXTERNAL_TURN \<or> ra_envelope_if_redacted ra \<and> 0 < spans"
  have "reenter_one finditer digest ra role t turn_origin (Some (int b)) memo =
      (\<lparr>re_text = shown_text ra role (n < length t) ?env scanned, re_ids = ids, re_spans = spans, re_chars = n,
        re_capped = (n < length t), re_cached = cached, re_enveloped = ?env, re_digest = key\<rparr>,
       Some (int b - int n), memo2)"
    using role unfolding reenter_one_def Let_def
    by (simp only: item cap len sc v prod.case option.case if_False disj_not1 simp_thms of_nat_le_0_iff neq0_conv [symmetric])
  then show ?thesis
    using r v role pos \<open>n \<le> b\<close> scan_cached_fresh [OF inj ok sc] by (auto simp: read_alone_def Let_def)
qed

lemma reenter_loop_alone:
  assumes "inj digest" "memo_ok finditer digest memo"
      and "reenter_loop finditer digest ra its (Some (int b)) memo = (rs, memo')"
  shows "map uncached rs = map2 (read_alone finditer digest ra) its (shares b (map wanted its)) \<and> memo_ok finditer digest memo'"
  using assms(2,3)
proof (induction its arbitrary: b memo rs)
  case Nil
  then show ?case by simp
next
  case (Cons i its)
  obtain role t turn_origin where i: "i = ((role, t), turn_origin)" by (metis surj_pair)
  obtain r b' memo1 where one: "reenter_one finditer digest ra role t turn_origin (Some (int b)) memo = (r, b', memo1)"
    by (metis prod_cases3)
  note r = reenter_one_alone [OF assms(1) Cons.prems(1) one]
  obtain rs' memo2 where rest: "reenter_loop finditer digest ra its b' memo1 = (rs', memo2)" by (metis surj_pair)
  have "rs = r # rs'" "memo' = memo2" using Cons.prems(2) one rest by (auto simp: i Let_def)
  then show ?case using r rest Cons.IH [of memo1 "b - min (wanted i) b" rs'] by (simp add: i)
qed

lemma shares_facts:
  "length (shares b ns) = length ns" "sum_list (shares b ns) \<le> b" "list_all2 (\<le>) (shares b ns) ns"
proof (induction ns arbitrary: b)
  case (Cons n ns)
  {
    case 1
    show ?case using Cons by simp
  next
    case 2
    have "sum_list (shares (b - min n b) ns) \<le> b - min n b" by (rule Cons(2))
    then show ?case by (simp add: min_def split: if_splits)
  next
    case 3
    show ?case using Cons by simp
  }
qed auto

lemma read_alone_chars: "n \<le> wanted i \<Longrightarrow> re_chars (read_alone finditer digest ra i n) = n"
  by (auto simp: read_alone_def wanted_def plain_reentry_def spent_reentry_def Let_def split: prod.split if_splits)

section \<open>Histories of readers\<close>

text \<open>The calls a process can make, each with the floor's switch, the recorder and the session it finds.\<close>

datatype 's reader_call =
    ReadText bool "'s recorder option" "string option" string string string string "int option" "string option" bool
  | ReadMany bool "'s recorder option" "string option" "(string \<times> string) list" string string bool "string option list option" "nat option" bool
  | ClearMemo

fun reader_step :: "matcher \<Rightarrow> (string \<Rightarrow> string) \<Rightarrow> reentry_state \<times> 's \<Rightarrow> 's reader_call \<Rightarrow> reentry_state \<times> 's" where
  "reader_step finditer digest (st, s) (ReadText fl rec sess t reader origin role budget turn_origin env) =
     snd (reenter_text \<lparr>en_finditer = finditer, en_digest = digest, en_floor = fl, en_recorder = rec, en_session = sess\<rparr>
            t reader origin role budget turn_origin env st s)"
| "reader_step finditer digest (st, s) (ReadMany fl rec sess items reader origin chronological origins limit env) =
     snd (reenter_many \<lparr>en_finditer = finditer, en_digest = digest, en_floor = fl, en_recorder = rec, en_session = sess\<rparr>
            items reader origin chronological origins limit env st s)"
| "reader_step finditer digest (st, s) ClearMemo = (clear_memo st, s)"

lemma emit_in_memo [simp]: "es_memo (fst (emit_in en reader origin results memo seen s)) = memo"
  by (simp add: emit_in_def split_beta)

lemma emit_in_memoD: "emit_in en reader origin results memo seen s = (st', s') \<Longrightarrow> es_memo st' = memo"
  using emit_in_memo [of en reader origin results memo seen s] by simp

lemma reenter_one_memo:
  assumes "inj digest" "memo_ok finditer digest memo" "reenter_one finditer digest ra role t turn_origin (Some b) memo = (r, b', memo')"
  shows "memo_ok finditer digest memo'"
proof (cases "b \<le> 0")
  case True
  then have "memo' = memo" using assms(3) by (auto simp: reenter_one_def Let_def split: if_splits)
  then show ?thesis using assms(2) by simp
next
  case False
  then have "Some b = Some (int (nat b))" by simp
  then show ?thesis using reenter_one_alone [OF assms(1,2)] assms(3) by metis
qed

lemma reenter_many_alone:
  assumes "inj (en_digest en)" "memo_ok (en_finditer en) (en_digest en) (es_memo st)" "en_floor en"
      and "reenter_many en items reader origin chronological origins limit env st s = (rs, st', s')"
  defines "its \<equiv> in_order chronological (with_origins items origins)"
  defines "ns \<equiv> shares MAX_CALL_CHARS (map wanted its)"
  shows "in_order chronological (map uncached rs)
       = map2 (read_alone (en_finditer en) (en_digest en) \<lparr>ra_reader = reader, ra_limit = limit, ra_envelope_if_redacted = env\<rparr>) its ns
     \<and> memo_ok (en_finditer en) (en_digest en) (es_memo st')"
proof -
  let ?ra = "\<lparr>ra_reader = reader, ra_limit = limit, ra_envelope_if_redacted = env\<rparr>"
  obtain rs0 memo where loop: "reenter_loop (en_finditer en) (en_digest en) ?ra its (Some (int MAX_CALL_CHARS)) (es_memo st) = (rs0, memo)"
    by (metis surj_pair)
  then have rs: "rs = in_order chronological rs0" and st: "es_memo st' = memo"
    using assms(3,4) by (auto simp: reenter_many_def its_def dest: emit_in_memoD)
  have "in_order chronological (map uncached rs) = map uncached rs0" by (simp add: rs in_order_def rev_map)
  then show ?thesis using reenter_loop_alone [OF assms(1,2) loop] by (simp add: ns_def st)
qed

lemma reader_step_memo:
  assumes "inj digest" "memo_ok finditer digest (es_memo (fst sts))"
  shows "memo_ok finditer digest (es_memo (fst (reader_step finditer digest sts call)))"
proof (cases call)
  case (ReadText fl rec sess t reader origin role budget turn_origin env)
  obtain st s where sts: "sts = (st, s)" by (metis surj_pair)
  let ?ra = "\<lparr>ra_reader = reader, ra_limit = None, ra_envelope_if_redacted = env\<rparr>"
  obtain r b' memo' where one: "reenter_one finditer digest ?ra role t turn_origin
      (Some (case budget of None \<Rightarrow> int MAX_CALL_CHARS | Some b \<Rightarrow> b)) (es_memo st) = (r, b', memo')"
    by (metis prod_cases3)
  have "memo_ok finditer digest memo'" using reenter_one_memo [OF assms(1) _ one] assms(2) by (simp add: sts)
  then show ?thesis using assms(2) one by (simp add: ReadText sts reenter_text_def)
next
  case (ReadMany fl rec sess items reader origin chronological origins limit env)
  obtain st s where sts: "sts = (st, s)" by (metis surj_pair)
  let ?en = "\<lparr>en_finditer = finditer, en_digest = digest, en_floor = fl, en_recorder = rec, en_session = sess\<rparr>"
  obtain rs st' s' where m: "reenter_many ?en items reader origin chronological origins limit env st s = (rs, st', s')"
    by (metis prod_cases3)
  show ?thesis
  proof (cases fl)
    case True
    then show ?thesis using reenter_many_alone [OF _ _ _ m] assms m by (simp add: ReadMany sts)
  qed (use assms(2) in \<open>simp add: ReadMany sts reenter_many_def\<close>)
next
  case ClearMemo
  then show ?thesis by (cases sts) (simp add: clear_memo_def memo_ok_def)
qed

interpretation readers: invariant_system "reader_step finditer digest"
    "\<lambda>sts. inj digest \<and> memo_ok finditer digest (es_memo (fst sts))" for finditer digest
  by unfold_locales (auto simp: reader_step_memo)

definition no_reentry :: reentry_state where
  "no_reentry = \<lparr>es_memo = [], es_sightings = []\<rparr>"

lemma memo_ok_Nil [simp]: "memo_ok finditer digest []"
  by (simp add: memo_ok_def)

text \<open>C31. Stored text enters a prompt as if it were scanned afresh, within its share. After any history of reader calls,
  with a hash that does not collide, what a call returns does not depend on the memo: the owner's own words and empty
  texts come back as they are; every other text is the scan of its first characters, at most 16384 of them and at most
  what the call's 131072 have left when its turn comes, the newest text first for a history; a text with nothing left is
  replaced by a marker, a text that was cut ends in one, and the rest of it is passed to nobody. The characters counted
  for the audit are those shares.\<close>

theorem stored_text_is_scanned_within_its_share:
  assumes inj: "inj digest"
      and st: "run_ops (reader_step finditer digest) (no_reentry, s0) calls = (st, s)"
      and len: "\<forall>os. origins = Some os \<longrightarrow> length os = length items"
      and rs: "reenter_many \<lparr>en_finditer = finditer, en_digest = digest, en_floor = True, en_recorder = rec, en_session = sess\<rparr>
                 items reader origin chronological origins limit env st s = (rs, st', s')"
  shows "let its = in_order chronological (with_origins items origins);
             ns = shares MAX_CALL_CHARS (map wanted its);
             ra = \<lparr>ra_reader = reader, ra_limit = limit, ra_envelope_if_redacted = env\<rparr>
         in length rs = length items
            \<and> in_order chronological (map uncached rs) = map2 (read_alone finditer digest ra) its ns
            \<and> in_order chronological (map re_chars rs) = ns
            \<and> sum_list ns \<le> 131072 \<and> (\<forall>n \<in> set ns. n \<le> 16384)"
proof -
  let ?en = "\<lparr>en_finditer = finditer, en_digest = digest, en_floor = True, en_recorder = rec, en_session = sess\<rparr>"
  let ?ra = "\<lparr>ra_reader = reader, ra_limit = limit, ra_envelope_if_redacted = env\<rparr>"
  let ?its = "in_order chronological (with_origins items origins)"
  let ?ns = "shares MAX_CALL_CHARS (map wanted ?its)"
  have "memo_ok finditer digest (es_memo st)"
    using readers.run_inv [of digest finditer "(no_reentry, s0)" calls] inj st by (simp add: no_reentry_def)
  then have alone: "in_order chronological (map uncached rs) = map2 (read_alone finditer digest ?ra) ?its ?ns"
    using reenter_many_alone [OF _ _ _ rs] inj by simp
  have n: "length ?ns = length ?its" "list_all2 (\<le>) ?ns (map wanted ?its)" "sum_list ?ns \<le> MAX_CALL_CHARS"
    using shares_facts [of MAX_CALL_CHARS "map wanted ?its"] by auto
  have "map re_chars (map2 (read_alone finditer digest ?ra) ?its ?ns) = ?ns"
  proof (rule nth_equalityI)
    fix i
    assume "i < length (map re_chars (map2 (read_alone finditer digest ?ra) ?its ?ns))"
    then have i: "i < length ?ns" "i < length ?its" using n(1) by auto
    have "?ns ! i \<le> wanted (?its ! i)" using list_all2_nthD [OF n(2) i(1)] i by simp
    from read_alone_chars [OF this]
    show "map re_chars (map2 (read_alone finditer digest ?ra) ?its ?ns) ! i = ?ns ! i" using i by simp
  qed (use n in simp)
  moreover have "map re_chars (in_order chronological (map uncached rs)) = in_order chronological (map re_chars rs)"
    by (simp add: in_order_def rev_map comp_def)
  ultimately have chars: "in_order chronological (map re_chars rs) = ?ns" unfolding alone by simp
  have "length (with_origins items origins) = length items"
    using len by (cases origins) (auto simp: with_origins_def)
  then have "length rs = length items"
    using arg_cong [OF chars, of length] n(1) by (auto simp: in_order_def split: if_splits)
  moreover have "\<forall>n \<in> set ?ns. n \<le> 16384"
  proof
    fix k assume "k \<in> set ?ns"
    then obtain i where i: "i < length ?ns" "?ns ! i = k" by (auto simp: in_set_conv_nth)
    have "k \<le> wanted (?its ! i)" using list_all2_nthD [OF n(2) i(1)] i n(1) by simp
    then show "k \<le> 16384" by (auto simp: wanted_def MAX_ITEM_CHARS_def split: prod.splits if_splits)
  qed
  ultimately show ?thesis using alone chars n(3) by (simp add: MAX_CALL_CHARS_def)
qed

definition demo_reader_env :: "unit reentry_env" where
  "demo_reader_env = \<lparr>en_finditer = demo_finditer, en_digest = (\<lambda>t. t), en_floor = True, en_recorder = None, en_session = None\<rparr>"

definition demo_reads :: "unit reader_call list" where
  "demo_reads = [ReadText True None None ''ab'' ''history'' ''transcript'' ''assistant'' None None False]"

definition demo_reentry :: "reentry list" where
  "demo_reentry = (case run_ops (reader_step demo_finditer (\<lambda>t. t)) (no_reentry, ()) demo_reads of
     (st, s) \<Rightarrow> fst (reenter_many demo_reader_env [(''user'', ''hi''), (''assistant'', ''ab'')] ''history'' ''transcript'' True None None False st s))"

theorem stored_text_is_scanned_within_its_share_witness:
  "map re_chars demo_reentry = [0, 2] \<and> map re_text demo_reentry = [''hi'', ''ab'']"
proof -
  obtain st s where st: "run_ops (reader_step demo_finditer (\<lambda>t. t)) (no_reentry, ()) demo_reads = (st, s)" by (metis surj_pair)
  obtain rs st' s' where rs: "reenter_many demo_reader_env [(''user'', ''hi''), (''assistant'', ''ab'')] ''history'' ''transcript'' True None None False st s
      = (rs, st', s')" by (metis prod_cases3)
  have inj: "inj (\<lambda>t :: string. t)" by (simp add: inj_def)
  let ?alone = "read_alone demo_finditer (\<lambda>t. t) \<lparr>ra_reader = ''history'', ra_limit = None, ra_envelope_if_redacted = False\<rparr>"
  have user: "?alone ((''user'', ''hi''), None) 0 = plain_reentry ''hi''" by (simp add: read_alone_def FIRST_PARTY_ROLES_def)
  from stored_text_is_scanned_within_its_share [OF inj st _ rs [unfolded demo_reader_env_def]] user
  have "rev (map re_chars rs) = [Suc (Suc 0), 0]"
    and "rev (map uncached rs) = [?alone ((''assistant'', ''ab''), None) (Suc (Suc 0)), plain_reentry ''hi'']"
    by (simp_all add: in_order_def with_origins_def wanted_def FIRST_PARTY_ROLES_def MAX_ITEM_CHARS_def MAX_CALL_CHARS_def Let_def)
  moreover have "re_text (?alone ((''assistant'', ''ab''), None) (Suc (Suc 0))) = ''ab''" by code_simp
  moreover have "map re_text (map uncached rs) = map re_text rs" by simp
  moreover have "demo_reentry = rs" unfolding demo_reentry_def st prod.case rs by simp
  ultimately show ?thesis by (auto simp: rev_swap plain_reentry_def simp del: map_map)
qed

end
