(* ===== verification/MCP_Signing.thy ===== *)
theory MCP_Signing
  imports Paths Texts Persona "HOL-Library.Char_ord" "HOL-Library.List_Lexorder" "HOL-Library.Multiset"
begin

text \<open>
  Signed MCP servers (\<open>mcp_signing/spec.py\<close>, \<open>trust.py\<close>, \<open>verifier.py\<close>, \<open>launcher.py\<close>, \<open>config.py\<close>) and the gate the
  bridge puts before a launch (\<open>tools/mcp_bridge.py\<close>).

  Checking an Ed25519 signature is an argument, and so is what the file system says of an argument: whether it names a
  file, and the hash of a file or of a package.
\<close>

section \<open>The signed text\<close>

record server_spec =
  sp_name :: string
  sp_transport :: string
  sp_command :: "string option"
  sp_args :: "string list"
  sp_url :: "string option"
  sp_env_keys :: "string list"
  sp_package :: "string option"
  sp_inherit_env :: "string list"
  sp_entrypoint :: "string option"
  sp_pinned_env :: "(string \<times> string) list"

text \<open>\<open>json.dumps(..., sort_keys=True, separators=(",", ":"), ensure_ascii=False)\<close> of texts, lists, mappings and \<open>None\<close>.\<close>

definition compact_char :: "char \<Rightarrow> string" where
  "compact_char c =
     (let n = of_char c :: nat; bs = char_of (92::nat) in
      if n = 34 \<or> n = 92 then [bs, c]
      else if n = 10 then [bs, CHR ''n'']
      else if n = 13 then [bs, CHR ''r'']
      else if n = 9 then [bs, CHR ''t'']
      else if n = 8 then [bs, CHR ''b'']
      else if n = 12 then [bs, CHR ''f'']
      else if n < 32 then bs # ''u00'' @ hex2 n
      else [c])"

abbreviation QUOTE :: char where "QUOTE \<equiv> char_of (34::nat)"

definition compact_str :: "string \<Rightarrow> string" where
  "compact_str s = QUOTE # concat (map compact_char s) @ [QUOTE]"

fun compact_items :: "string list \<Rightarrow> string" where
  "compact_items [] = ''''"
| "compact_items [t] = t"
| "compact_items (t # ts) = t @ CHR '','' # compact_items ts"

datatype signed_value = SNull | SText string | SList "string list" | SDict "(string \<times> string) list"

fun compact_value :: "signed_value \<Rightarrow> string" where
  "compact_value SNull = ''null''"
| "compact_value (SText s) = compact_str s"
| "compact_value (SList xs) = CHR ''['' # compact_items (map compact_str xs) @ '']''"
| "compact_value (SDict ps) = CHR ''{'' # compact_items (map (\<lambda>kv. compact_str (fst kv) @ CHR '':'' # compact_str (snd kv)) ps) @ ''}''"

definition opt_value :: "string option \<Rightarrow> signed_value" where
  "opt_value x = (case x of None \<Rightarrow> SNull | Some s \<Rightarrow> SText s)"

text \<open>\<open>dict(sorted(...))\<close>.\<close>

definition sorted_env :: "(string \<times> string) list \<Rightarrow> (string \<times> string) list" where
  "sorted_env ps = fold (\<lambda>kv. aset (fst kv) (snd kv)) (sort_key fst (sort_key snd ps)) []"

text \<open>The payload in the order of its keys; three keys are there only when they are set.\<close>

definition signed_payload :: "server_spec \<Rightarrow> (string \<times> signed_value) list" where
  "signed_payload sp =
     [(''args'', SList (sp_args sp)), (''command'', opt_value (sp_command sp))]
     @ (if truthy_str (sp_entrypoint sp) then [(''entrypoint_sha256'', opt_value (sp_entrypoint sp))] else [])
     @ [(''env_keys'', SList (sort (sp_env_keys sp)))]
     @ (if sp_inherit_env sp \<noteq> [] then [(''inherit_env'', SList (sort (sp_inherit_env sp)))] else [])
     @ [(''name'', SText (sp_name sp)), (''package_sha256'', opt_value (sp_package sp))]
     @ (if sp_pinned_env sp \<noteq> [] then [(''pinned_env'', SDict (sorted_env (sp_pinned_env sp)))] else [])
     @ [(''transport'', SText (sp_transport sp)), (''url'', opt_value (sp_url sp))]"

definition canonical_text :: "server_spec \<Rightarrow> string" where
  "canonical_text sp =
     CHR ''{'' # compact_items (map (\<lambda>kv. compact_str (fst kv) @ CHR '':'' # compact_value (snd kv)) (signed_payload sp)) @ ''}''"

section \<open>Trust\<close>

record trust_store =
  ts_keys :: "(string \<times> string) list"
  ts_revoked_key_ids :: "string list"
  ts_revoked_signatures :: "string list"

definition empty_trust :: trust_store where
  "empty_trust = \<lparr>ts_keys = [], ts_revoked_key_ids = [], ts_revoked_signatures = []\<rparr>"

definition public_key_for :: "trust_store \<Rightarrow> string \<Rightarrow> string option" where
  "public_key_for ts key_id = (if key_id \<in> set (ts_revoked_key_ids ts) then None else map_of (ts_keys ts) key_id)"

definition is_revoked :: "trust_store \<Rightarrow> string \<Rightarrow> string \<Rightarrow> bool" where
  "is_revoked ts key_id signature \<longleftrightarrow> key_id \<in> set (ts_revoked_key_ids ts) \<or> signature \<in> set (ts_revoked_signatures ts)"

text \<open>The keys of the file, as its entries come: an id given twice is refused.\<close>

fun load_keys :: "(string \<times> string) list \<Rightarrow> (string \<times> string) list \<Rightarrow> (string \<times> string) list result" where
  "load_keys acc [] = Inr acc"
| "load_keys acc ((k, pub) # rest) =
     (if k \<in> set (map fst acc) then Raise ''ValueError'' (''duplicate trust-store key_id: '' @ k) else load_keys (acc @ [(k, pub)]) rest)"

section \<open>Verdicts\<close>

datatype signature_status = Verified | Unsigned | Untrusted | Invalid

record signature_verdict =
  sv_status :: signature_status
  sv_reason :: string
  sv_key_id :: "string option"

definition is_trusted :: "signature_verdict \<Rightarrow> bool" where "is_trusted v \<longleftrightarrow> sv_status v = Verified"

definition signature_verdict_of :: "signature_status \<Rightarrow> string \<Rightarrow> string option \<Rightarrow> signature_verdict" where
  "signature_verdict_of st r k = \<lparr>sv_status = st, sv_reason = r, sv_key_id = k\<rparr>"

type_synonym signature_check = "string \<Rightarrow> string \<Rightarrow> string \<Rightarrow> bool"

definition verify_server_signature ::
  "signature_check \<Rightarrow> server_spec \<Rightarrow> string option \<Rightarrow> string option \<Rightarrow> trust_store \<Rightarrow> signature_verdict"
where
  "verify_server_signature check sp signature signed_by ts =
     (if \<not> truthy_str signature \<or> \<not> truthy_str signed_by then signature_verdict_of Unsigned ''no signature on server entry'' None
      else let sig = the signature; by_key = the signed_by in
        if is_revoked ts by_key sig then signature_verdict_of Untrusted (''signer '' @ repr_str by_key @ '' is revoked'') (Some by_key)
        else case public_key_for ts by_key of
          None \<Rightarrow> signature_verdict_of Untrusted (''unknown signer '' @ repr_str by_key) (Some by_key)
        | Some pub \<Rightarrow>
            if check pub (canonical_text sp) sig then signature_verdict_of Verified ''signature verified'' (Some by_key)
            else signature_verdict_of Invalid ''signature does not match server spec (config or binary changed)'' (Some by_key))"

datatype signing_mode = Shadow | Enforce
datatype signing_action = ActAllow | ActWarn | ActDeny

record signing_config =
  sc_enabled :: bool
  sc_mode :: signing_mode
  sc_unsigned_policy :: signing_action

definition default_signing :: signing_config where
  "default_signing = \<lparr>sc_enabled = True, sc_mode = Shadow, sc_unsigned_policy = ActWarn\<rparr>"

definition resolve_signing_action :: "signature_verdict \<Rightarrow> signing_config \<Rightarrow> signing_action" where
  "resolve_signing_action v cfg =
     (if \<not> sc_enabled cfg \<or> is_trusted v then ActAllow
      else if sc_mode cfg = Shadow then ActWarn else sc_unsigned_policy cfg)"

section \<open>The signed text is read in one way\<close>

text \<open>A code whose words can be told apart whatever follows.\<close>

definition prefix_code :: "('a \<Rightarrow> string) \<Rightarrow> bool" where
  "prefix_code f \<longleftrightarrow> (\<forall>x y r r'. f x @ r = f y @ r' \<longrightarrow> x = y \<and> r = r')"

lemma prefix_codeD: "prefix_code f \<Longrightarrow> f x @ r = f y @ r' \<Longrightarrow> x = y \<and> r = r'"
  by (simp add: prefix_code_def)

definition unhex :: "char \<Rightarrow> nat" where
  "unhex c = (let n = of_char c in if n < 58 then n - 48 else n - 87)"

definition escaped :: "nat \<Rightarrow> nat" where
  "escaped n = (if n = 110 then 10 else if n = 114 then 13 else if n = 116 then 9 else if n = 98 then 8 else if n = 102 then 12 else n)"

definition read_char :: "string \<Rightarrow> char \<times> string" where
  "read_char t =
     (if of_char (hd t) \<noteq> (92::nat) then (hd t, tl t)
      else if of_char (t ! 1) = (117::nat) then (char_of (16 * unhex (t ! 4) + unhex (t ! 5)), drop 6 t)
      else (char_of (escaped (of_char (t ! 1))), drop 2 t))"

lemma letter_codes: "of_char (CHR ''n'') = (110::nat)" "of_char (CHR ''r'') = (114::nat)" "of_char (CHR ''t'') = (116::nat)"
    "of_char (CHR ''b'') = (98::nat)" "of_char (CHR ''f'') = (102::nat)" "of_char (CHR ''u'') = (117::nat)"
  by code_simp+

lemma unhex_digit: "k < 16 \<Longrightarrow> unhex (hex_digit k) = k"
  by (simp add: unhex_def hex_digit_def Let_def)

lemma read_compact: "read_char (compact_char c @ r) = (c, r)"
proof -
  let ?n = "of_char c :: nat"
  consider "?n = 34" | "?n = 92" | "?n = 10" | "?n = 13" | "?n = 9" | "?n = 8" | "?n = 12"
    | "?n < 32" "?n \<notin> {10, 13, 9, 8, 12}" | "32 \<le> ?n" "?n \<notin> {34, 92}" by force
  then show ?thesis
  proof cases
    case 1
    then have c: "c = char_of (34::nat)" by (metis char_of_char)
    show ?thesis unfolding c by (simp add: compact_char_def read_char_def escaped_def letter_codes Let_def)
  next
    case 2
    then have c: "c = char_of (92::nat)" by (metis char_of_char)
    show ?thesis unfolding c by (simp add: compact_char_def read_char_def escaped_def letter_codes Let_def)
  next
    case 3
    then have c: "c = char_of (10::nat)" by (metis char_of_char)
    show ?thesis unfolding c by (simp add: compact_char_def read_char_def escaped_def letter_codes Let_def)
  next
    case 4
    then have c: "c = char_of (13::nat)" by (metis char_of_char)
    show ?thesis unfolding c by (simp add: compact_char_def read_char_def escaped_def letter_codes Let_def)
  next
    case 5
    then have c: "c = char_of (9::nat)" by (metis char_of_char)
    show ?thesis unfolding c by (simp add: compact_char_def read_char_def escaped_def letter_codes Let_def)
  next
    case 6
    then have c: "c = char_of (8::nat)" by (metis char_of_char)
    show ?thesis unfolding c by (simp add: compact_char_def read_char_def escaped_def letter_codes Let_def)
  next
    case 7
    then have c: "c = char_of (12::nat)" by (metis char_of_char)
    show ?thesis unfolding c by (simp add: compact_char_def read_char_def escaped_def letter_codes Let_def)
  next
    case 8
    then have "16 * unhex (hex_digit (?n div 16)) + unhex (hex_digit (?n mod 16)) = ?n" by (simp add: unhex_digit)
    moreover have "compact_char c = char_of (92::nat) # ''u00'' @ hex2 ?n" using 8 by (simp add: compact_char_def Let_def)
    ultimately show ?thesis by (simp add: read_char_def hex2_def letter_codes)
  next
    case 9
    then show ?thesis using 9 by (simp add: compact_char_def read_char_def Let_def)
  qed
qed

lemma compact_char_code: "prefix_code compact_char"
  unfolding prefix_code_def by (metis read_compact prod.inject)

lemma compact_char_head: "\<exists>c' t. compact_char c = c' # t \<and> c' \<noteq> QUOTE"
  by (auto simp: compact_char_def Let_def)

lemma str_body_code:
  "concat (map compact_char s) @ QUOTE # r = concat (map compact_char t) @ QUOTE # r' \<Longrightarrow> s = t \<and> r = r'"
proof (induction s arbitrary: t)
  case Nil
  show ?case
  proof (cases t)
    case Nil
    then show ?thesis using Nil.prems by simp
  next
    case (Cons c cs)
    obtain c' u where "compact_char c = c' # u" "c' \<noteq> QUOTE" using compact_char_head by blast
    then show ?thesis using Nil.prems Cons by simp
  qed
next
  case (Cons a s)
  show ?case
  proof (cases t)
    case Nil
    obtain c' u where "compact_char a = c' # u" "c' \<noteq> QUOTE" using compact_char_head by blast
    then show ?thesis using Nil Cons.prems by simp
  next
    case t: (Cons c cs)
    with Cons.prems have "compact_char a @ concat (map compact_char s) @ QUOTE # r = compact_char c @ concat (map compact_char cs) @ QUOTE # r'"
      by simp
    from prefix_codeD [OF compact_char_code this] have "a = c"
      and rest: "concat (map compact_char s) @ QUOTE # r = concat (map compact_char cs) @ QUOTE # r'" by auto
    then show ?thesis using Cons.IH [OF rest] t by simp
  qed
qed

lemma compact_str_code: "prefix_code compact_str"
  unfolding prefix_code_def
proof (intro allI impI)
  fix s t r r' assume "compact_str s @ r = compact_str t @ r'"
  then have "concat (map compact_char s) @ QUOTE # r = concat (map compact_char t) @ QUOTE # r'" by (simp add: compact_str_def)
  then show "s = t \<and> r = r'" by (rule str_body_code)
qed

text \<open>Words that begin with a character other than the closing one, separated by commas.\<close>

lemma compact_items_cons: "compact_items (map f (x # xs)) @ e # r = f x @ (if xs = [] then e # r else CHR '','' # compact_items (map f xs) @ e # r)"
  by (cases xs) simp_all

lemma compact_items_code:
  assumes f: "prefix_code f" and e: "e \<noteq> CHR '',''" "\<And>x. f x \<noteq> [] \<and> hd (f x) \<noteq> e"
  shows "compact_items (map f xs) @ e # r = compact_items (map f ys) @ e # r' \<Longrightarrow> xs = ys \<and> r = r'"
proof (induction xs arbitrary: ys)
  case Nil
  then show ?case
  proof (cases ys)
    case (Cons y zs)
    have "hd (compact_items (map f (y # zs)) @ e # r') \<noteq> e" unfolding compact_items_cons using e(2) [of y] by (metis hd_append2)
    moreover have "e # r = compact_items (map f (y # zs)) @ e # r'" using Nil Cons by simp
    ultimately show ?thesis by (metis list.sel(1))
  qed simp
next
  case (Cons x xs)
  show ?case
  proof (cases ys)
    case Nil
    have "hd (compact_items (map f (x # xs)) @ e # r) \<noteq> e" unfolding compact_items_cons using e(2) [of x] by (metis hd_append2)
    moreover have "compact_items (map f (x # xs)) @ e # r = e # r'" using Nil Cons.prems by simp
    ultimately show ?thesis by (metis list.sel(1))
  next
    case (Cons y zs)
    with Cons.prems have eq: "f x @ (if xs = [] then e # r else CHR '','' # compact_items (map f xs) @ e # r)
        = f y @ (if zs = [] then e # r' else CHR '','' # compact_items (map f zs) @ e # r')"
      unfolding Cons compact_items_cons by simp
    from prefix_codeD [OF f this] have "x = y"
      and rest: "(if xs = [] then e # r else CHR '','' # compact_items (map f xs) @ e # r)
        = (if zs = [] then e # r' else CHR '','' # compact_items (map f zs) @ e # r')" by auto
    then show ?thesis using Cons Cons.IH [of zs] e(1) by (cases xs; cases zs) auto
  qed
qed

lemma compact_str_head: "compact_str s \<noteq> [] \<and> hd (compact_str s) = QUOTE"
  by (simp add: compact_str_def)

lemma pair_code: "prefix_code g \<Longrightarrow> prefix_code (\<lambda>kv. compact_str (fst kv) @ CHR '':'' # g (snd kv))"
  unfolding prefix_code_def
proof (intro allI impI)
  fix x y :: "string \<times> 'a" and r r'
  assume g: "\<forall>x y r r'. g x @ r = g y @ r' \<longrightarrow> x = y \<and> r = r'"
    and eq: "(compact_str (fst x) @ CHR '':'' # g (snd x)) @ r = (compact_str (fst y) @ CHR '':'' # g (snd y)) @ r'"
  then have "compact_str (fst x) @ (CHR '':'' # g (snd x) @ r) = compact_str (fst y) @ (CHR '':'' # g (snd y) @ r')" by simp
  from prefix_codeD [OF compact_str_code this] show "x = y \<and> r = r'" using g by (auto simp: prod_eq_iff)
qed

lemma quote_codes: "QUOTE \<noteq> CHR '']''" "QUOTE \<noteq> CHR ''}''" "QUOTE \<noteq> CHR '',''"
  by code_simp+

lemma value_heads: "CHR ''n'' \<noteq> QUOTE" "CHR ''n'' \<noteq> CHR ''[''" "CHR ''n'' \<noteq> CHR ''{''" "QUOTE \<noteq> CHR ''n''" "QUOTE \<noteq> CHR ''[''"
    "QUOTE \<noteq> CHR ''{''" "CHR ''['' \<noteq> CHR ''n''" "CHR ''['' \<noteq> QUOTE" "CHR ''['' \<noteq> CHR ''{''" "CHR ''{'' \<noteq> CHR ''n''"
    "CHR ''{'' \<noteq> QUOTE" "CHR ''{'' \<noteq> CHR ''[''"
  by code_simp+

lemma compact_value_code: "prefix_code compact_value"
  unfolding prefix_code_def
proof (intro allI impI)
  fix x y r r' assume eq: "compact_value x @ r = compact_value y @ r'"
  have list: "us = vs \<and> r = r'" if "compact_items (map compact_str us) @ CHR '']'' # r = compact_items (map compact_str vs) @ CHR '']'' # r'" for us vs
    using compact_items_code [OF compact_str_code _ _ that] compact_str_head quote_codes(1) by auto
  have dict: "us = vs \<and> r = r'" if "compact_items (map (\<lambda>kv. compact_str (fst kv) @ CHR '':'' # compact_str (snd kv)) us) @ CHR ''}'' # r
      = compact_items (map (\<lambda>kv. compact_str (fst kv) @ CHR '':'' # compact_str (snd kv)) vs) @ CHR ''}'' # r'" for us vs
    using compact_items_code [OF pair_code [OF compact_str_code] _ _ that] compact_str_head quote_codes(2) by (auto simp: hd_append)
  have str: "s = t \<and> r = r'" if "compact_str s @ r = compact_str t @ r'" for s t using prefix_codeD [OF compact_str_code that] .
  have h: "hd (compact_value SNull @ t) = CHR ''n''" "hd (compact_value (SText s) @ t) = QUOTE"
    "hd (compact_value (SList us) @ t) = CHR ''[''" "hd (compact_value (SDict ps) @ t) = CHR ''{''" for s us ps t
    by (simp_all add: compact_str_def)
  have heads: "hd (compact_value x @ r) = hd (compact_value y @ r')" using eq by simp
  show "x = y \<and> r = r'"
  proof (cases x)
    case SNull
    then have "y = SNull" using heads by (cases y) (simp_all only: h value_heads)
    then show ?thesis using eq SNull by simp
  next
    case (SText s)
    then have "\<exists>t. y = SText t" using heads by (cases y) (simp_all only: h value_heads, simp_all)
    then obtain t where y: "y = SText t" by blast
    then show ?thesis using eq SText str [of s t] by simp
  next
    case (SList us)
    then have "\<exists>vs. y = SList vs" using heads by (cases y) (simp_all only: h value_heads, simp_all)
    then obtain vs where y: "y = SList vs" by blast
    then show ?thesis using eq SList list [of us vs] by simp
  next
    case (SDict us)
    then have "\<exists>vs. y = SDict vs" using heads by (cases y) (simp_all only: h value_heads, simp_all)
    then obtain vs where y: "y = SDict vs" by blast
    then show ?thesis using eq SDict dict [of us vs] by simp
  qed
qed

lemma canonical_payload: "canonical_text a = canonical_text b \<Longrightarrow> signed_payload a = signed_payload b"
proof -
  assume "canonical_text a = canonical_text b"
  then have "compact_items (map (\<lambda>kv. compact_str (fst kv) @ CHR '':'' # compact_value (snd kv)) (signed_payload a)) @ CHR ''}'' # []
      = compact_items (map (\<lambda>kv. compact_str (fst kv) @ CHR '':'' # compact_value (snd kv)) (signed_payload b)) @ CHR ''}'' # []"
    by (simp add: canonical_text_def)
  from compact_items_code [OF pair_code [OF compact_value_code] _ _ this] show "signed_payload a = signed_payload b"
    using compact_str_head quote_codes(2) by (auto simp: hd_append)
qed

text \<open>What a signature binds of two specifications with the same signed text. The optional keys are told apart by name.\<close>

definition payload_value :: "string \<Rightarrow> server_spec \<Rightarrow> signed_value option" where
  "payload_value k sp = map_of (signed_payload sp) k"

lemma payload_values:
  "payload_value ''args'' sp = Some (SList (sp_args sp))" "payload_value ''command'' sp = Some (opt_value (sp_command sp))"
  "payload_value ''entrypoint_sha256'' sp = (if truthy_str (sp_entrypoint sp) then Some (opt_value (sp_entrypoint sp)) else None)"
  "payload_value ''env_keys'' sp = Some (SList (sort (sp_env_keys sp)))"
  "payload_value ''inherit_env'' sp = (if sp_inherit_env sp \<noteq> [] then Some (SList (sort (sp_inherit_env sp))) else None)"
  "payload_value ''name'' sp = Some (SText (sp_name sp))" "payload_value ''package_sha256'' sp = Some (opt_value (sp_package sp))"
  "payload_value ''pinned_env'' sp = (if sp_pinned_env sp \<noteq> [] then Some (SDict (sorted_env (sp_pinned_env sp))) else None)"
  "payload_value ''transport'' sp = Some (SText (sp_transport sp))" "payload_value ''url'' sp = Some (opt_value (sp_url sp))"
  by (simp_all add: payload_value_def signed_payload_def)

lemma opt_value_inj [simp]: "opt_value x = opt_value y \<longleftrightarrow> x = y"
  by (auto simp: opt_value_def split: option.splits)

lemma sort_nonempty: "sort xs = sort ys \<longleftrightarrow> mset xs = mset ys"
  by (metis mset_sort properties_for_sort sorted_sort)

text \<open>C38. A signature binds the whole specification. Two servers with the same signed text have the same name, transport,
  command, arguments in order, URL, binary hash, script hash, pinned values, and the same declared and inherited names;
  no text put into one field can be read as another field.\<close>

theorem signature_binds_the_spec:
  assumes "canonical_text a = canonical_text b"
  shows "sp_name a = sp_name b \<and> sp_transport a = sp_transport b \<and> sp_command a = sp_command b \<and> sp_args a = sp_args b
    \<and> sp_url a = sp_url b \<and> sp_package a = sp_package b
    \<and> mset (sp_env_keys a) = mset (sp_env_keys b) \<and> mset (sp_inherit_env a) = mset (sp_inherit_env b)
    \<and> (truthy_str (sp_entrypoint a) \<or> truthy_str (sp_entrypoint b) \<longrightarrow> sp_entrypoint a = sp_entrypoint b)
    \<and> sorted_env (sp_pinned_env a) = sorted_env (sp_pinned_env b)"
proof -
  have v: "payload_value k a = payload_value k b" for k
    using canonical_payload [OF assms] by (simp add: payload_value_def)
  show ?thesis
  proof (intro conjI impI)
    show "sp_entrypoint a = sp_entrypoint b" if "truthy_str (sp_entrypoint a) \<or> truthy_str (sp_entrypoint b)"
      using v [of "''entrypoint_sha256''"] that unfolding payload_values by (auto split: if_splits)
    show "mset (sp_inherit_env a) = mset (sp_inherit_env b)"
      using v [of "''inherit_env''"] unfolding payload_values by (auto simp: sort_nonempty split: if_splits)
    show "sorted_env (sp_pinned_env a) = sorted_env (sp_pinned_env b)"
      using v [of "''pinned_env''"] unfolding payload_values by (auto split: if_splits)
  qed (use v [of "''name''"] v [of "''transport''"] v [of "''command''"] v [of "''args''"] v [of "''url''"] v [of "''package_sha256''"]
      v [of "''env_keys''"] in \<open>simp_all add: payload_values sort_nonempty\<close>)
qed

definition sample_spec :: "string list \<Rightarrow> server_spec" where
  "sample_spec keys = \<lparr>sp_name = ''files'', sp_transport = ''stdio'', sp_command = Some ''node'', sp_args = [''server.js''], sp_url = None,
     sp_env_keys = keys, sp_package = None, sp_inherit_env = [], sp_entrypoint = Some ''sha256:00'', sp_pinned_env = []\<rparr>"

theorem signature_binds_the_spec_witness:
  "mset (sp_env_keys (sample_spec [''A'', ''B''])) = mset (sp_env_keys (sample_spec [''B'', ''A'']))"
proof -
  have "sort [''A'', ''B''] = sort [''B'', ''A'']" by code_simp
  then have "canonical_text (sample_spec [''A'', ''B'']) = canonical_text (sample_spec [''B'', ''A''])"
    by (simp add: canonical_text_def signed_payload_def sample_spec_def del: sort_key_simps)
  from signature_binds_the_spec [OF this] show ?thesis by blast
qed


text \<open>The package digest: each module's path and the hash of its bytes, in the order of the paths.\<close>

record launch_fs =
  lf_is_file :: "pure_path \<Rightarrow> bool"
  lf_is_dir :: "pure_path \<Rightarrow> bool"
  lf_read :: "pure_path \<Rightarrow> string option"
  lf_modules :: "pure_path \<Rightarrow> pure_path list"

type_synonym hash = "string \<Rightarrow> string"

definition hexdigest :: "string \<Rightarrow> string" where
  "hexdigest d = concat (map (\<lambda>c. hex2 (of_char c)) d)"

definition file_sha256 :: "hash \<Rightarrow> launch_fs \<Rightarrow> pure_path \<Rightarrow> string option" where
  "file_sha256 sha fs p = map_option (\<lambda>data. ''sha256:'' @ hexdigest (sha data)) (lf_read fs p)"

text \<open>\<open>path.relative_to(base).as_posix()\<close>, for a path under the base.\<close>

definition relative_posix :: "pure_path \<Rightarrow> pure_path \<Rightarrow> string" where
  "relative_posix base p = join ''/'' (drop (length (pa_parts base)) (pa_parts p))"

abbreviation NUL :: char where "NUL \<equiv> char_of (0::nat)"

definition module_entry :: "hash \<Rightarrow> string \<times> string \<Rightarrow> string" where
  "module_entry sha e = fst e @ NUL # sha (snd e)"

fun tree_entries :: "launch_fs \<Rightarrow> pure_path \<Rightarrow> pure_path list \<Rightarrow> (string \<times> string) list option" where
  "tree_entries fs base [] = Some []"
| "tree_entries fs base (p # ps) =
     (case lf_read fs p of
        None \<Rightarrow> None
      | Some data \<Rightarrow> map_option (\<lambda>es. (relative_posix base p, data) # es) (tree_entries fs base ps))"

definition tree_paths :: "launch_fs \<Rightarrow> pure_path \<Rightarrow> pure_path list" where
  "tree_paths fs base = sort_key pa_parts (filter (\<lambda>p. ''__pycache__'' \<notin> set (pa_parts p)) (lf_modules fs base))"

definition tree_sha256 :: "hash \<Rightarrow> launch_fs \<Rightarrow> pure_path \<Rightarrow> string option" where
  "tree_sha256 sha fs base =
     (if lf_is_file fs base then file_sha256 sha fs base
      else if \<not> lf_is_dir fs base then None
      else case tree_entries fs base (tree_paths fs base) of
        None \<Rightarrow> None
      | Some es \<Rightarrow> if es = [] then None else Some (''sha256:'' @ hexdigest (sha (concat (map (module_entry sha) es)))))"

section \<open>Regular expressions\<close>

text \<open>The patterns of \<open>launcher.py\<close> as expressions, matched by derivatives; \<open>rx_lang\<close> says what they match.\<close>

datatype rx = Rx_None | Rx_Empty | Rx_Char "char \<Rightarrow> bool" | Rx_Seq rx rx | Rx_Alt rx rx | Rx_Star rx

inductive rx_lang :: "rx \<Rightarrow> string \<Rightarrow> bool" where
  rx_empty: "rx_lang Rx_Empty []"
| rx_char: "P c \<Longrightarrow> rx_lang (Rx_Char P) [c]"
| rx_seq: "rx_lang a s \<Longrightarrow> rx_lang b t \<Longrightarrow> rx_lang (Rx_Seq a b) (s @ t)"
| rx_left: "rx_lang a s \<Longrightarrow> rx_lang (Rx_Alt a b) s"
| rx_right: "rx_lang b s \<Longrightarrow> rx_lang (Rx_Alt a b) s"
| rx_stop: "rx_lang (Rx_Star a) []"
| rx_more: "rx_lang a s \<Longrightarrow> rx_lang (Rx_Star a) t \<Longrightarrow> rx_lang (Rx_Star a) (s @ t)"

inductive_cases rx_NoneE: "rx_lang Rx_None s"
inductive_cases rx_EmptyE: "rx_lang Rx_Empty s"
inductive_cases rx_CharE: "rx_lang (Rx_Char P) s"
inductive_cases rx_SeqE: "rx_lang (Rx_Seq a b) s"
inductive_cases rx_AltE: "rx_lang (Rx_Alt a b) s"
inductive_cases rx_StarE: "rx_lang (Rx_Star a) s"

lemmas rx_elims = rx_NoneE rx_EmptyE rx_CharE rx_SeqE rx_AltE

fun nullable :: "rx \<Rightarrow> bool" where
  "nullable Rx_None = False"
| "nullable Rx_Empty = True"
| "nullable (Rx_Char P) = False"
| "nullable (Rx_Seq a b) = (nullable a \<and> nullable b)"
| "nullable (Rx_Alt a b) = (nullable a \<or> nullable b)"
| "nullable (Rx_Star a) = True"

fun rx_then :: "rx \<Rightarrow> rx \<Rightarrow> rx" where
  "rx_then Rx_None b = Rx_None"
| "rx_then Rx_Empty b = b"
| "rx_then a b = Rx_Seq a b"

fun rx_or :: "rx \<Rightarrow> rx \<Rightarrow> rx" where
  "rx_or Rx_None b = b"
| "rx_or a Rx_None = a"
| "rx_or a b = Rx_Alt a b"

fun deriv :: "char \<Rightarrow> rx \<Rightarrow> rx" where
  "deriv c Rx_None = Rx_None"
| "deriv c Rx_Empty = Rx_None"
| "deriv c (Rx_Char P) = (if P c then Rx_Empty else Rx_None)"
| "deriv c (Rx_Seq a b) = (if nullable a then rx_or (rx_then (deriv c a) b) (deriv c b) else rx_then (deriv c a) b)"
| "deriv c (Rx_Alt a b) = rx_or (deriv c a) (deriv c b)"
| "deriv c (Rx_Star a) = rx_then (deriv c a) (Rx_Star a)"

definition rx_match :: "rx \<Rightarrow> string \<Rightarrow> bool" where
  "rx_match r s = nullable (fold deriv s r)"

lemma nullable_lang: "nullable r \<longleftrightarrow> rx_lang r []"
proof (induction r)
  case (Rx_Seq a b)
  show ?case
  proof
    assume "nullable (Rx_Seq a b)"
    then show "rx_lang (Rx_Seq a b) []" using rx_seq [of a "[]" b "[]"] Rx_Seq by simp
  next
    assume "rx_lang (Rx_Seq a b) []"
    then show "nullable (Rx_Seq a b)" using Rx_Seq by (auto elim!: rx_SeqE)
  qed
qed (auto intro: rx_lang.intros elim: rx_elims)

lemma rx_seq_iff: "rx_lang (Rx_Seq a b) s \<longleftrightarrow> (\<exists>u v. s = u @ v \<and> rx_lang a u \<and> rx_lang b v)"
  by (blast intro: rx_seq elim: rx_SeqE)

lemma rx_alt_iff: "rx_lang (Rx_Alt a b) s \<longleftrightarrow> rx_lang a s \<or> rx_lang b s"
  by (auto intro: rx_left rx_right elim: rx_AltE)

lemma rx_none_iff [simp]: "\<not> rx_lang Rx_None s"
  by (auto elim: rx_NoneE)

lemma rx_empty_iff [simp]: "rx_lang Rx_Empty s \<longleftrightarrow> s = []"
  by (auto intro: rx_empty elim: rx_EmptyE)

lemma rx_then_lang [simp]: "rx_lang (rx_then a b) s \<longleftrightarrow> rx_lang (Rx_Seq a b) s"
  by (cases a) (auto simp: rx_seq_iff)

lemma rx_or_lang [simp]: "rx_lang (rx_or a b) s \<longleftrightarrow> rx_lang (Rx_Alt a b) s"
  by (cases "(a, b)" rule: rx_or.cases) (auto simp: rx_alt_iff)

lemma rx_star_cons: "rx_lang (Rx_Star a) (c # s) \<Longrightarrow> \<exists>u v. s = u @ v \<and> rx_lang a (c # u) \<and> rx_lang (Rx_Star a) v"
proof (induction "Rx_Star a" "c # s" arbitrary: c s rule: rx_lang.induct)
  case (rx_more u v)
  then show ?case by (cases u) auto
qed

lemma deriv_lang: "rx_lang (deriv c r) s \<longleftrightarrow> rx_lang r (c # s)"
proof (induction r arbitrary: s)
  case (Rx_Char P)
  show ?case by (auto intro: rx_char elim!: rx_CharE)
next
  case (Rx_Seq a b)
  have "rx_lang (Rx_Seq a b) (c # s) \<longleftrightarrow> rx_lang a [] \<and> rx_lang b (c # s) \<or> (\<exists>u v. s = u @ v \<and> rx_lang a (c # u) \<and> rx_lang b v)"
    unfolding rx_seq_iff by (auto simp: Cons_eq_append_conv)
  then show ?case using Rx_Seq by (auto simp: rx_seq_iff rx_alt_iff nullable_lang)
next
  case (Rx_Star a)
  have "rx_lang (Rx_Star a) (c # s) \<longleftrightarrow> (\<exists>u v. s = u @ v \<and> rx_lang a (c # u) \<and> rx_lang (Rx_Star a) v)"
    using rx_star_cons rx_more [of a "c # u" "v" for u v] by fastforce
  then show ?case using Rx_Star by (auto simp: rx_seq_iff)
qed (auto simp: rx_alt_iff)

lemma rx_match_lang: "rx_match r s \<longleftrightarrow> rx_lang r s"
  unfolding rx_match_def by (induction s arbitrary: r) (simp_all add: nullable_lang deriv_lang)


section \<open>Launchers\<close>

definition rx_plus :: "rx \<Rightarrow> rx" where "rx_plus r = Rx_Seq r (Rx_Star r)"

definition rx_opt :: "rx \<Rightarrow> rx" where "rx_opt r = Rx_Alt r Rx_Empty"

definition rx_seqs :: "rx list \<Rightarrow> rx" where "rx_seqs rs = foldr Rx_Seq rs Rx_Empty"

definition rx_in :: "string \<Rightarrow> rx" where "rx_in cs = Rx_Char (\<lambda>c. c \<in> set cs)"

definition is_alnum_char :: "char \<Rightarrow> bool" where
  "is_alnum_char c \<longleftrightarrow> is_digit_char c \<or> is_upper_char c \<or> is_lower_char c"

definition VERSION :: rx where
  "VERSION =
     (let digits = rx_plus (Rx_Char is_digit_char); part = Rx_Seq (rx_in ''.'') digits in
      rx_seqs [digits, part, rx_opt (Rx_Seq part (rx_opt part)),
        rx_opt (Rx_Seq (rx_in ''-+.'') (rx_plus (Rx_Char (\<lambda>c. is_alnum_char c \<or> c \<in> set ''.-''))))])"

definition AT_PINNED :: rx where
  "AT_PINNED =
     (let word = rx_plus (Rx_Char (\<lambda>c. c \<notin> set ''/@'' \<and> \<not> is_space c)) in
      rx_seqs [rx_opt (rx_seqs [rx_in ''@'', word, rx_in ''/'']), word, rx_in ''@'', VERSION])"

definition EQ_PINNED :: rx where
  "EQ_PINNED =
     rx_seqs [rx_plus (Rx_Char (\<lambda>c. is_alnum_char c \<or> c \<in> set ''._-'')),
       rx_opt (rx_seqs [rx_in ''['', Rx_Star (Rx_Char (\<lambda>c. c \<noteq> CHR '']'')), rx_in '']'']),
       rx_in ''='', rx_in ''='', rx_opt (rx_in ''=''), VERSION]"

text \<open>A pattern that ends in \<open>$\<close> also matches before a newline at the end.\<close>

definition match_line :: "rx \<Rightarrow> string \<Rightarrow> bool" where
  "match_line r s \<longleftrightarrow> rx_match r s \<or> s \<noteq> [] \<and> last s = NL \<and> rx_match r (butlast s)"

definition is_hex_lower :: "char \<Rightarrow> bool" where
  "is_hex_lower c \<longleftrightarrow> is_digit_char c \<or> char_in 97 102 c"

definition ends_in_digest :: "string \<Rightarrow> bool" where
  "ends_in_digest s =
     (let t = drop (length s - 72) s in length t = 72 \<and> take 8 t = ''@sha256:'' \<and> list_all is_hex_lower (drop 8 t))"

definition DIGEST_search :: "string \<Rightarrow> bool" where
  "DIGEST_search s \<longleftrightarrow> ends_in_digest s \<or> s \<noteq> [] \<and> last s = NL \<and> ends_in_digest (butlast s)"

definition NODE_RUNNERS :: "string list" where "NODE_RUNNERS = [''npx'', ''bunx'']"
definition PYTHON_RUNNERS :: "string list" where "PYTHON_RUNNERS = [''uvx'', ''pipx'']"
definition CONTAINER_RUNNERS :: "string list" where "CONTAINER_RUNNERS = [''docker'', ''podman'']"

fun drop_suffix :: "string list \<Rightarrow> string \<Rightarrow> string" where
  "drop_suffix [] s = s"
| "drop_suffix (x # xs) s = (if endswith s x then take (length s - length x) s else drop_suffix xs s)"

definition launcher_name :: "string \<Rightarrow> string" where
  "launcher_name command =
     drop_suffix [''.exe'', ''.cmd'', ''.bat'']
       (py_lower (rev (takeWhile (\<lambda>c. c \<noteq> CHR ''/'' \<and> c \<noteq> char_of (92::nat)) (rev command))))"

definition is_python :: "string \<Rightarrow> bool" where
  "is_python name \<longleftrightarrow> name = ''python''
     \<or> rx_match (rx_seqs (map (\<lambda>c. rx_in [c]) ''python3'' @ [rx_opt (Rx_Seq (rx_in ''.'') (rx_plus (Rx_Char is_digit_char)))])) name"

fun first_positional :: "string list \<Rightarrow> nat \<Rightarrow> string option" where
  "first_positional [] skip = None"
| "first_positional (a # args) skip =
     (if startswith a ''-'' then first_positional args skip
      else case skip of 0 \<Rightarrow> Some a | Suc k \<Rightarrow> first_positional args k)"

fun module_after :: "string list \<Rightarrow> string option" where
  "module_after (a # b # args) = (if a = ''-m'' then Some b else module_after (b # args))"
| "module_after _ = None"

definition python_module :: "string option \<Rightarrow> string list \<Rightarrow> string option" where
  "python_module command args =
     (case command of None \<Rightarrow> None | Some c \<Rightarrow> if is_python (launcher_name c) then module_after args else None)"

definition backquoted :: "string \<Rightarrow> string" where
  "backquoted s = strip (CHR ''`'' # s @ ''`'')"

definition python_candidates :: "string \<Rightarrow> string list \<Rightarrow> string list" where
  "python_candidates name args =
     (let positional = (if name = ''pipx'' \<and> ''run'' \<in> set args then tl (dropWhile (\<lambda>a. a \<noteq> ''run'') args) else args) in
      if ''--from'' \<in> set positional then take 1 (tl (dropWhile (\<lambda>a. a \<noteq> ''--from'') positional))
      else case first_positional positional 0 of Some a \<Rightarrow> if a \<noteq> [] then [a] else [] | None \<Rightarrow> [])"

definition unpinned_launcher :: "string option \<Rightarrow> string list \<Rightarrow> string option" where
  "unpinned_launcher command args =
     (case command of
        None \<Rightarrow> None
      | Some c \<Rightarrow>
          if c = [] then None
          else let name = launcher_name c in
            case python_module command args of
              Some m \<Rightarrow> Some (''`-m '' @ m @ ''` runs a module that is not a package under the server's directory, ''
                @ ''so its code is not hashed; run it from a script file or a local package'')
            | None \<Rightarrow>
                if name \<in> set NODE_RUNNERS then
                  (let target = first_positional args 0 in
                   case target of
                     Some t \<Rightarrow>
                       if match_line AT_PINNED t then None
                       else Some (backquoted (name @ '' '' @ t) @ '' is not pinned to an exact version; use `pkg@1.2.3`'')
                   | None \<Rightarrow> Some (backquoted (name @ '' '') @ '' is not pinned to an exact version; use `pkg@1.2.3`''))
                else if name \<in> set PYTHON_RUNNERS then
                  (let candidates = python_candidates name args in
                   if list_ex (\<lambda>x. match_line EQ_PINNED x \<or> match_line AT_PINNED x) candidates then None
                   else Some (backquoted (name @ '' '' @ (case candidates of [] \<Rightarrow> '''' | x # _ \<Rightarrow> x))
                     @ '' is not pinned to an exact version; use `pkg==1.2.3`''))
                else if name \<in> set CONTAINER_RUNNERS then
                  (if list_ex DIGEST_search args then None
                   else Some (CHR ''`'' # name @ ''` image is not pinned to a digest; use `image@sha256:<64 hex>`''))
                else None)"

text \<open>The launchers of the repository's own tests.\<close>

lemma pinned_launchers:
  "unpinned_launcher (Some ''npx'') [''-y'', ''@modelcontextprotocol/server-github@1.2.3''] = None"
  "unpinned_launcher (Some ''bunx'') [''pkg@2.0.0-rc.1''] = None"
  "unpinned_launcher (Some ''uvx'') [''--from'', ''mcp-server-git==0.6.2'', ''mcp-server-git''] = None"
  "unpinned_launcher (Some ''pipx'') [''run'', ''pkg==1.2.3''] = None"
  "unpinned_launcher (Some ''node'') [''-e'', ''1''] = None"
  by code_simp+

lemma unpinned_launchers:
  "unpinned_launcher (Some ''npx'') [''-y'', ''pkg@latest''] \<noteq> None"
  "unpinned_launcher (Some ''npx'') [''-y'', ''pkg@^1.2.0''] \<noteq> None"
  "unpinned_launcher (Some ''npx'') [] \<noteq> None"
  "unpinned_launcher (Some ''uvx'') [''pkg>=1.0''] \<noteq> None"
  "unpinned_launcher (Some ''podman'') [''run'', ''img:1.2.3''] \<noteq> None"
  "unpinned_launcher (Some ''python3.12'') [''-m'', ''a.b''] \<noteq> None"
  by code_simp+


section \<open>A server and its environment\<close>

record mcp_server =
  mc_name :: string
  mc_enabled :: bool
  mc_transport :: string
  mc_command :: "string option"
  mc_args :: "string list"
  mc_url :: "string option"
  mc_env :: "(string \<times> string) list"
  mc_inherit_env :: "string list"
  mc_pinned_env :: "string list"
  mc_max_result_bytes :: nat
  mc_governance :: "mcp_server_governance option"
  mc_signature :: "string option"
  mc_signed_by :: "string option"

definition CHILD_ENV_BASE :: "string list" where
  "CHILD_ENV_BASE = [''PATH'', ''HOME'', ''USER'', ''LOGNAME'', ''LANG'', ''TERM'', ''TMPDIR'', ''TZ'']"

definition WINDOWS_CHILD_ENV :: "string list" where
  "WINDOWS_CHILD_ENV = [''SYSTEMROOT'', ''WINDIR'', ''SYSTEMDRIVE'', ''COMSPEC'', ''PATHEXT'', ''TEMP'', ''TMP'', ''USERPROFILE'',
     ''HOMEDRIVE'', ''HOMEPATH'', ''APPDATA'', ''LOCALAPPDATA'', ''PROGRAMDATA'', ''PROGRAMFILES'']"

definition CREDENTIAL_WORDS :: "string list" where
  "CREDENTIAL_WORDS = [''KEY'', ''TOKEN'', ''SECRET'', ''PASSWORD'', ''PASSWD'', ''CREDENTIAL'', ''AUTH'', ''DSN'', ''BEARER'',
     ''COOKIE'', ''PRIVATE'']"

definition env_name :: "string \<Rightarrow> bool" where
  "env_name s = rx_match
     (Rx_Seq (Rx_Char (\<lambda>c. is_upper_char c \<or> is_lower_char c \<or> c = CHR ''_'')) (Rx_Star (Rx_Char (\<lambda>c. is_alnum_char c \<or> c = CHR ''_'')))) s"

definition env_passes :: "bool \<Rightarrow> mcp_server \<Rightarrow> string \<Rightarrow> bool" where
  "env_passes windows sv name =
     ((if windows then py_upper name \<in> set (map py_upper (CHILD_ENV_BASE @ mc_inherit_env sv @ WINDOWS_CHILD_ENV))
       else name \<in> set (CHILD_ENV_BASE @ mc_inherit_env sv))
      \<or> startswith name ''LC_'')"

definition child_environment :: "bool \<Rightarrow> mcp_server \<Rightarrow> (string \<times> string) list \<Rightarrow> (string \<times> string) list" where
  "child_environment windows sv host =
     fold (\<lambda>kv. aset (fst kv) (snd kv)) (mc_env sv) (filter (\<lambda>kv. env_passes windows sv (fst kv)) host)"

text \<open>The validators of the entry: the names it inherits, the names it pins, and what an enabled server must have.\<close>

fun check_inherit :: "string list \<Rightarrow> unit result" where
  "check_inherit [] = Inr ()"
| "check_inherit (n # ns) =
     (if \<not> env_name n then Raise ''ValueError'' (''inherit_env: '' @ repr_str n @ '' is not an environment variable name'')
      else if startswith (py_upper n) ''EVARNESS_'' then
        Raise ''ValueError'' (''inherit_env: '' @ n @ '' is an Evarness setting and is never passed on; ''
          @ ''set a value for it under env: if the server needs one'')
      else check_inherit ns)"

definition validate_inherit_env :: "string list \<Rightarrow> string list result" where
  "validate_inherit_env ns = (case check_inherit ns of Inl e \<Rightarrow> Inl e | Inr _ \<Rightarrow> Inr (rev (remdups (rev ns))))"

fun check_pinned :: "string list \<Rightarrow> unit result" where
  "check_pinned [] = Inr ()"
| "check_pinned (n # ns) =
     (if \<not> env_name n then Raise ''ValueError'' (''pinned_env: '' @ repr_str n @ '' is not an environment variable name'')
      else if list_ex (\<lambda>w. 0 < occurrences w (py_upper n)) CREDENTIAL_WORDS then
        Raise ''ValueError'' (''pinned_env: refusing to pin '' @ repr_str n @ '': it looks like a credential. ''
          @ ''pinned_env is for non-secret runtime invariants (an upstream URL, a log ''
          @ ''level); its values are hashed into the signed spec. Move credentials to ''
          @ ''the vault (a vault:// handle under env:).'')
      else check_pinned ns)"

definition validate_pinned_env :: "string list \<Rightarrow> string list result" where
  "validate_pinned_env ns = (case check_pinned ns of Inl e \<Rightarrow> Inl e | Inr _ \<Rightarrow> Inr (rev (remdups (rev ns))))"

definition validate_pinned_env_is_set :: "mcp_server \<Rightarrow> mcp_server result" where
  "validate_pinned_env_is_set sv =
     (let missing = filter (\<lambda>n. map_of (mc_env sv) n = None) (mc_pinned_env sv) in
      if missing \<noteq> [] then Raise ''ValueError'' (''pinned_env: '' @ join '', '' missing @ '' not set under env:'') else Inr sv)"

definition validate_enabled_transport :: "mcp_server \<Rightarrow> mcp_server result" where
  "validate_enabled_transport sv =
     (if \<not> mc_enabled sv then Inr sv
      else if mc_transport sv = ''stdio'' \<and> \<not> truthy_str (mc_command sv) then Raise ''ValueError'' ''enabled stdio MCP servers require a command''
      else if mc_transport sv \<in> {''http'', ''sse''} \<and> \<not> truthy_str (mc_url sv) then Raise ''ValueError'' ''enabled HTTP/SSE MCP servers require a url''
      else Inr sv)"

section \<open>The gate before a launch\<close>

fun entrypoint_script :: "launch_fs \<Rightarrow> pure_path option \<Rightarrow> string list \<Rightarrow> pure_path option" where
  "entrypoint_script fs base [] = None"
| "entrypoint_script fs base (a # args) =
     (if startswith a ''-'' then entrypoint_script fs base args
      else let p = path_of a; candidate = (case base of Some b \<Rightarrow> if is_absolute p then p else path_join b p | None \<Rightarrow> p) in
        if lf_is_file fs candidate then Some candidate else entrypoint_script fs base args)"

text \<open>\<open>relative.with_suffix(".py")\<close> of a path whose last part has no dot: it comes from a text split at its dots.\<close>

definition with_py_suffix :: "pure_path \<Rightarrow> pure_path result" where
  "with_py_suffix p =
     (if pa_parts p = [] then Raise ''ValueError'' (''PosixPath('' @ repr_str (path_str p) @ '') has an empty name'')
      else Inr (p\<lparr>pa_parts := butlast (pa_parts p) @ [last (pa_parts p) @ ''.py'']\<rparr>))"

definition local_module :: "launch_fs \<Rightarrow> pure_path option \<Rightarrow> string option \<Rightarrow> string list \<Rightarrow> pure_path option result" where
  "local_module fs base command args =
     (case python_module command args of
        None \<Rightarrow> Inr None
      | Some m \<Rightarrow>
          let relative = foldl path_join (path_of []) (map path_of (split_on CHR ''.'' m));
              b = (case base of Some b \<Rightarrow> b | None \<Rightarrow> path_of []);
              local = (\<lambda>p. lf_is_dir fs p \<and> lf_modules fs p \<noteq> [] \<or> lf_is_file fs p) in
          case with_py_suffix relative of
            Inl e \<Rightarrow> Inl e
          | Inr single \<Rightarrow> Inr (find local [path_join b relative, path_join b single]))"

text \<open>The specification of an entry; a pinned name has a value, as the validator checked.\<close>

definition spec_of :: "mcp_server \<Rightarrow> string option \<Rightarrow> string option \<Rightarrow> server_spec" where
  "spec_of sv package entrypoint =
     \<lparr>sp_name = mc_name sv, sp_transport = mc_transport sv, sp_command = mc_command sv, sp_args = mc_args sv, sp_url = mc_url sv,
      sp_env_keys = map fst (mc_env sv), sp_package = package, sp_inherit_env = mc_inherit_env sv, sp_entrypoint = entrypoint,
      sp_pinned_env = sort_key fst (map (\<lambda>n. (n, the (map_of (mc_env sv) n))) (mc_pinned_env sv))\<rparr>"

definition build_server_spec :: "hash \<Rightarrow> launch_fs \<Rightarrow> pure_path option \<Rightarrow> mcp_server \<Rightarrow> server_spec result" where
  "build_server_spec sha fs base sv =
     (if mc_transport sv = ''stdio'' \<and> truthy_str (mc_command sv) then
        let candidate = path_of (the (mc_command sv));
            package = (if lf_is_file fs candidate then file_sha256 sha fs candidate else None) in
        case entrypoint_script fs base (mc_args sv) of
          Some script \<Rightarrow> Inr (spec_of sv package (file_sha256 sha fs script))
        | None \<Rightarrow>
            (case local_module fs base (mc_command sv) (mc_args sv) of
               Inl e \<Rightarrow> Inl e
             | Inr None \<Rightarrow> Inr (spec_of sv package None)
             | Inr (Some p) \<Rightarrow> Inr (spec_of sv package (tree_sha256 sha fs p)))
      else Inr (spec_of sv None None))"

definition launcher_gap :: "mcp_server \<Rightarrow> server_spec \<Rightarrow> string option" where
  "launcher_gap sv sp =
     (if mc_transport sv \<noteq> ''stdio'' \<or> truthy_str (sp_entrypoint sp) then None else unpinned_launcher (mc_command sv) (mc_args sv))"

definition verify_server ::
  "hash \<Rightarrow> signature_check \<Rightarrow> launch_fs \<Rightarrow> mcp_server \<Rightarrow> trust_store \<Rightarrow> pure_path option \<Rightarrow> (server_spec \<times> signature_verdict) result"
where
  "verify_server sha check fs sv ts base =
     (case build_server_spec sha fs base sv of
        Inl e \<Rightarrow> Inl e
      | Inr sp \<Rightarrow>
          let v = verify_server_signature check sp (mc_signature sv) (mc_signed_by sv) ts in
          case launcher_gap sv sp of
            Some gap \<Rightarrow>
              if is_trusted v \<and> gap \<noteq> [] then
                Inr (sp, signature_verdict_of Invalid (''signature does not bind the server's code: '' @ gap) (sv_key_id v))
              else Inr (sp, v)
          | None \<Rightarrow> Inr (sp, v))"

fun status_text :: "signature_status \<Rightarrow> string" where
  "status_text Verified = ''verified''"
| "status_text Unsigned = ''unsigned''"
| "status_text Untrusted = ''untrusted''"
| "status_text Invalid = ''invalid''"

definition signature_refusal :: "mcp_server \<Rightarrow> signature_verdict \<Rightarrow> string" where
  "signature_refusal sv v =
     ''MCP server '' @ repr_str (mc_name sv) @ '' failed signature verification: '' @ status_text (sv_status v) @ '' ('' @ sv_reason v @ '')''"

record signature_outcome =
  sk_verdict :: signature_verdict
  sk_action :: signing_action
  sk_enabled :: bool
  sk_spec_sha256 :: string

definition check_signature ::
  "hash \<Rightarrow> signature_check \<Rightarrow> launch_fs \<Rightarrow> signing_config \<Rightarrow> trust_store \<Rightarrow> mcp_server \<Rightarrow> pure_path option \<Rightarrow> signature_outcome result"
where
  "check_signature sha check fs cfg ts sv base =
     (case verify_server sha check fs sv ts base of
        Inl e \<Rightarrow> Inl e
      | Inr (sp, v) \<Rightarrow>
          Inr \<lparr>sk_verdict = v, sk_action = resolve_signing_action v cfg, sk_enabled = sc_enabled cfg,
               sk_spec_sha256 = hexdigest (sha (canonical_text sp))\<rparr>)"

definition row_fields :: "signature_outcome \<Rightarrow> dict" where
  "row_fields k =
     (if \<not> sk_enabled k then [(''signature_status'', PStr ''not_checked'')]
      else [(''signature_status'', PStr (status_text (sv_status (sk_verdict k)))), (''signature_spec_sha256'', PStr (sk_spec_sha256 k))]
        @ (if truthy_str (sv_key_id (sk_verdict k)) then [(''signature_key_id'', opt_str (sv_key_id (sk_verdict k)))] else []))"

definition enforce_signature ::
  "hash \<Rightarrow> signature_check \<Rightarrow> launch_fs \<Rightarrow> signing_config \<Rightarrow> trust_store \<Rightarrow> mcp_server \<Rightarrow> pure_path option \<Rightarrow> unit result"
where
  "enforce_signature sha check fs cfg ts sv base =
     (if \<not> sc_enabled cfg then Inr ()
      else case verify_server sha check fs sv ts base of
        Inl e \<Rightarrow> Inl e
      | Inr (sp, v) \<Rightarrow>
          if resolve_signing_action v cfg = ActDeny then Raise ''MCPSignatureError'' (signature_refusal sv v) else Inr ())"

text \<open>\<open>evarness mcp sign\<close>: the entry with its signature, or the reason why none is made.\<close>

definition cmd_sign ::
  "hash \<Rightarrow> (string \<Rightarrow> string) \<Rightarrow> launch_fs \<Rightarrow> string \<Rightarrow> mcp_server \<Rightarrow> (string + mcp_server) result"
where
  "cmd_sign sha sign fs key_id sv =
     (case build_server_spec sha fs None sv of
        Inl e \<Rightarrow> Inl e
      | Inr sp \<Rightarrow>
          (case launcher_gap sv sp of
             Some gap \<Rightarrow> if gap \<noteq> [] then Inr (Inl gap) else Inr (Inr (sv\<lparr>mc_signature := Some (sign (canonical_text sp)), mc_signed_by := Some key_id\<rparr>))
           | None \<Rightarrow> Inr (Inr (sv\<lparr>mc_signature := Some (sign (canonical_text sp)), mc_signed_by := Some key_id\<rparr>))))"


section \<open>What the gate lets start\<close>

lemma unpinned_reason: "unpinned_launcher command args = Some gap \<Longrightarrow> gap \<noteq> []"
  by (auto simp: unpinned_launcher_def Let_def split: option.splits if_splits list.splits)

lemma gap_reason: "launcher_gap sv sp = Some gap \<Longrightarrow> gap \<noteq> []"
  by (auto simp: launcher_gap_def dest: unpinned_reason split: if_splits)

definition signed_by_trusted_key :: "signature_check \<Rightarrow> trust_store \<Rightarrow> server_spec \<Rightarrow> string option \<Rightarrow> string option \<Rightarrow> bool" where
  "signed_by_trusted_key check ts sp signature signed_by \<longleftrightarrow>
     (\<exists>sig key pub. signature = Some sig \<and> sig \<noteq> [] \<and> signed_by = Some key \<and> key \<noteq> []
        \<and> key \<notin> set (ts_revoked_key_ids ts) \<and> sig \<notin> set (ts_revoked_signatures ts)
        \<and> map_of (ts_keys ts) key = Some pub \<and> check pub (canonical_text sp) sig)"

lemma verified_iff:
  "is_trusted (verify_server_signature check sp signature signed_by ts) \<longleftrightarrow> signed_by_trusted_key check ts sp signature signed_by"
  by (cases signature; cases signed_by)
    (auto simp: verify_server_signature_def signed_by_trusted_key_def is_trusted_def signature_verdict_of_def truthy_str_def
      is_revoked_def public_key_for_def Let_def split: option.splits)

lemma verify_server_trusted:
  assumes "verify_server sha check fs sv ts base = Inr (sp, v)"
  shows "build_server_spec sha fs base sv = Inr sp
    \<and> (is_trusted v \<longleftrightarrow> signed_by_trusted_key check ts sp (mc_signature sv) (mc_signed_by sv) \<and> launcher_gap sv sp = None)"
proof -
  obtain sp' where b: "build_server_spec sha fs base sv = Inr sp'"
    using assms by (auto simp: verify_server_def split: sum.splits)
  show ?thesis
  proof (cases "launcher_gap sv sp'")
    case None
    then show ?thesis using assms b by (auto simp: verify_server_def verified_iff)
  next
    case (Some gap)
    then show ?thesis using assms b gap_reason [OF Some]
      by (auto simp: verify_server_def verified_iff Let_def is_trusted_def signature_verdict_of_def split: if_splits)
  qed
qed

lemma verify_server_built: "build_server_spec sha fs base sv = Inr sp \<Longrightarrow> \<exists>v. verify_server sha check fs sv ts base = Inr (sp, v)"
  by (auto simp: verify_server_def Let_def split: option.splits)


text \<open>A server that its own signature admits.\<close>

definition sample_server :: "string list \<Rightarrow> mcp_server" where
  "sample_server args = \<lparr>mc_name = ''files'', mc_enabled = True, mc_transport = ''stdio'', mc_command = Some ''npx'',
     mc_args = args, mc_url = None, mc_env = [], mc_inherit_env = [], mc_pinned_env = [], mc_max_result_bytes = 1048576,
     mc_governance = None, mc_signature = Some ''sig'', mc_signed_by = Some ''ops''\<rparr>"

lemma sample_server_simps [simp]:
  "mc_transport (sample_server args) = ''stdio''" "mc_command (sample_server args) = Some ''npx''" "mc_args (sample_server args) = args"
  by (simp_all add: sample_server_def)

definition sample_fs :: launch_fs where
  "sample_fs = \<lparr>lf_is_file = (\<lambda>p. p = path_of ''a.json''), lf_is_dir = (\<lambda>_. False), lf_read = (\<lambda>p. if p = path_of ''a.json'' then Some ''{}'' else None), lf_modules = (\<lambda>_. [])\<rparr>"

definition sample_trust :: trust_store where
  "sample_trust = \<lparr>ts_keys = [(''ops'', ''key'')], ts_revoked_key_ids = [], ts_revoked_signatures = []\<rparr>"

definition deny_config :: signing_config where
  "deny_config = \<lparr>sc_enabled = True, sc_mode = Enforce, sc_unsigned_policy = ActDeny\<rparr>"

lemma deny_config: "sc_enabled deny_config" "sc_mode deny_config = Enforce" "sc_unsigned_policy deny_config = ActDeny"
  by (simp_all add: deny_config_def)


text \<open>C39. A file among the arguments stands in for the code. Take any stdio server whose launcher fetches code that its
  arguments do not pin, for instance \<open>npx files-server a.json\<close>. If the first argument that names a file names a readable
  one, the specification binds the bytes of that file, the launch counts as covered, and an entry signed by a trusted key
  is verified, whatever release the launcher fetches.\<close>

theorem file_argument_hides_the_gap:
  assumes "mc_transport sv = ''stdio''" and "unpinned_launcher (mc_command sv) (mc_args sv) = Some gap"
    and "entrypoint_script fs base (mc_args sv) = Some p" and "lf_read fs p = Some data"
  shows "\<exists>sp. build_server_spec sha fs base sv = Inr sp \<and> sp_entrypoint sp = Some (''sha256:'' @ hexdigest (sha data))
    \<and> launcher_gap sv sp = None
    \<and> (signed_by_trusted_key check ts sp (mc_signature sv) (mc_signed_by sv)
        \<longrightarrow> (\<exists>v. verify_server sha check fs sv ts base = Inr (sp, v) \<and> sv_status v = Verified))"
proof -
  have c: "truthy_str (mc_command sv)"
    using assms(2) by (auto simp: unpinned_launcher_def truthy_str_def split: option.splits if_splits)
  define sp where "sp = projr (build_server_spec sha fs base sv)"
  have b: "build_server_spec sha fs base sv = Inr sp" and e: "sp_entrypoint sp = Some (''sha256:'' @ hexdigest (sha data))"
    using assms(1,3,4) c by (simp_all add: sp_def build_server_spec_def Let_def file_sha256_def spec_of_def)
  have g: "launcher_gap sv sp = None" using e by (simp add: launcher_gap_def truthy_str_def)
  obtain v where v: "verify_server sha check fs sv ts base = Inr (sp, v)" using verify_server_built [OF b] by blast
  show ?thesis using b e g v verify_server_trusted [OF v] by (auto simp: is_trusted_def)
qed

theorem file_argument_hides_the_gap_witness:
  "\<exists>sp. build_server_spec id sample_fs None (sample_server [''files-server'', ''a.json'']) = Inr sp
    \<and> sp_entrypoint sp = Some (''sha256:'' @ hexdigest (id ''{}''))
    \<and> launcher_gap (sample_server [''files-server'', ''a.json'']) sp = None
    \<and> (signed_by_trusted_key (\<lambda>_ _ _. True) sample_trust sp (mc_signature (sample_server [''files-server'', ''a.json'']))
           (mc_signed_by (sample_server [''files-server'', ''a.json'']))
        \<longrightarrow> (\<exists>v. verify_server id (\<lambda>_ _ _. True) sample_fs (sample_server [''files-server'', ''a.json'']) sample_trust None = Inr (sp, v)
              \<and> sv_status v = Verified))"
proof (rule file_argument_hides_the_gap)
  show "mc_transport (sample_server [''files-server'', ''a.json'']) = ''stdio''" by simp
  have "unpinned_launcher (Some ''npx'') [''files-server'', ''a.json'']
    = Some ''`npx files-server` is not pinned to an exact version; use `pkg@1.2.3`''" by code_simp
  then show "unpinned_launcher (mc_command (sample_server [''files-server'', ''a.json''])) (mc_args (sample_server [''files-server'', ''a.json'']))
    = Some ''`npx files-server` is not pinned to an exact version; use `pkg@1.2.3`''" by simp
  have "entrypoint_script sample_fs None [''files-server'', ''a.json''] = Some (path_of ''a.json'')" by code_simp
  then show "entrypoint_script sample_fs None (mc_args (sample_server [''files-server'', ''a.json''])) = Some (path_of ''a.json'')" by simp
  show "lf_read sample_fs (path_of ''a.json'') = Some ''{}''" by (simp add: sample_fs_def)
qed

lemma spec_ignores_signature:
  "build_server_spec sha fs base (sv\<lparr>mc_signature := a, mc_signed_by := b\<rparr>) = build_server_spec sha fs base sv"
proof -
  have "spec_of (sv\<lparr>mc_signature := a, mc_signed_by := b\<rparr>) = spec_of sv" by (intro ext) (simp add: spec_of_def)
  then show ?thesis unfolding build_server_spec_def by (simp cong: option.case_cong sum.case_cong)
qed

text \<open>An entry that \<open>evarness mcp sign\<close> signs is one the gate trusts, while the files stay and the key is trusted.\<close>

theorem signed_entry_is_trusted:
  assumes sign: "cmd_sign sha sign fs key sv = Inr (Inr sv')" and key: "key \<noteq> []" "key \<notin> set (ts_revoked_key_ids ts)"
    and pub: "map_of (ts_keys ts) key = Some pub"
    and scheme: "\<And>t. sign t \<noteq> [] \<and> check pub t (sign t)" and fresh: "\<And>t. sign t \<notin> set (ts_revoked_signatures ts)"
  shows "\<exists>sp v. verify_server sha check fs sv' ts None = Inr (sp, v) \<and> is_trusted v"
proof -
  obtain sp where b: "build_server_spec sha fs None sv = Inr sp" using sign by (auto simp: cmd_sign_def split: sum.splits)
  have gap: "launcher_gap sv sp = None"
    using sign b gap_reason by (cases "launcher_gap sv sp") (auto simp: cmd_sign_def split: if_splits)
  then have sv': "sv' = sv\<lparr>mc_signature := Some (sign (canonical_text sp)), mc_signed_by := Some key\<rparr>"
    using sign b by (simp add: cmd_sign_def)
  have b': "build_server_spec sha fs None sv' = Inr sp" using b by (simp add: sv' spec_ignores_signature)
  obtain v where v: "verify_server sha check fs sv' ts None = Inr (sp, v)" using verify_server_built [OF b'] by blast
  have "launcher_gap sv' sp = launcher_gap sv sp" by (simp add: sv' launcher_gap_def)
  with gap have "launcher_gap sv' sp = None" by simp
  moreover have "signed_by_trusted_key check ts sp (mc_signature sv') (mc_signed_by sv')"
    using key pub scheme fresh by (simp add: sv' signed_by_trusted_key_def)
  ultimately show ?thesis using verify_server_trusted [OF v] v by auto
qed


section \<open>What a server is given, and what a package hash covers\<close>

lemma aset_set: "(k, v) \<in> set (aset k' v' d) \<Longrightarrow> k = k' \<or> (k, v) \<in> set d"
  by (induction d) (auto split: if_splits)

lemma fold_aset_set: "(k, v) \<in> set (fold (\<lambda>kv. aset (fst kv) (snd kv)) es d) \<Longrightarrow> k \<in> fst ` set es \<or> (k, v) \<in> set d"
proof (induction es arbitrary: d)
  case (Cons e es)
  from Cons.IH [of "aset (fst e) (snd e) d"] Cons.prems aset_set [of k v "fst e" "snd e" d] show ?case by auto
qed simp

lemma inherited_names: "check_inherit ns = Inr () \<Longrightarrow> n \<in> set ns \<Longrightarrow> \<not> startswith (py_upper n) ''EVARNESS_''"
  by (induction ns) (auto split: if_splits)

lemma base_names: "n \<in> set (CHILD_ENV_BASE @ WINDOWS_CHILD_ENV) \<Longrightarrow> \<not> startswith (py_upper n) ''EVARNESS_''"
proof -
  have "list_all (\<lambda>n. \<not> startswith (py_upper n) ''EVARNESS_'') (CHILD_ENV_BASE @ WINDOWS_CHILD_ENV)" by code_simp
  then show "n \<in> set (CHILD_ENV_BASE @ WINDOWS_CHILD_ENV) \<Longrightarrow> \<not> startswith (py_upper n) ''EVARNESS_''" by (simp only: list_all_iff) blast
qed

lemma locale_names: "startswith n ''LC_'' \<Longrightarrow> \<not> startswith (py_upper n) ''EVARNESS_''"
proof -
  assume "startswith n ''LC_''"
  then obtain t where "n = ''LC_'' @ t" by (auto simp: startswith_iff)
  moreover have "upper_char (CHR ''L'') = CHR ''L''" by code_simp
  ultimately show ?thesis by (simp add: py_upper_def)
qed

text \<open>No setting of the harness reaches a server from the host's environment: such a name is there only when the entry's
  own \<open>env\<close> sets it, in any case of letters and on either kind of system.\<close>

theorem settings_stay_behind:
  assumes valid: "validate_inherit_env ns = Inr (mc_inherit_env sv)"
    and k: "(k, v) \<in> set (child_environment windows sv host)" "startswith (py_upper k) ''EVARNESS_''"
  shows "k \<in> fst ` set (mc_env sv)"
proof -
  have inh: "\<not> startswith (py_upper n) ''EVARNESS_''" if "n \<in> set (mc_inherit_env sv)" for n
  proof -
    have "check_inherit ns = Inr ()" "mc_inherit_env sv = rev (remdups (rev ns))" using valid by (auto simp: validate_inherit_env_def split: sum.splits)
    then show ?thesis using that inherited_names [of ns n] by simp
  qed
  have no: "\<not> env_passes windows sv k"
  proof
    assume "env_passes windows sv k"
    then have "py_upper k \<in> set (map py_upper (CHILD_ENV_BASE @ mc_inherit_env sv @ WINDOWS_CHILD_ENV)) \<or> k \<in> set (CHILD_ENV_BASE @ mc_inherit_env sv)
      \<or> startswith k ''LC_''" unfolding env_passes_def by meson
    then have "(\<exists>n. n \<in> set (CHILD_ENV_BASE @ mc_inherit_env sv @ WINDOWS_CHILD_ENV) \<and> py_upper k = py_upper n) \<or> startswith k ''LC_''"
      unfolding set_map set_append image_iff by blast
    then show False
    proof
      assume "\<exists>n. n \<in> set (CHILD_ENV_BASE @ mc_inherit_env sv @ WINDOWS_CHILD_ENV) \<and> py_upper k = py_upper n"
      then obtain n where "n \<in> set (CHILD_ENV_BASE @ mc_inherit_env sv @ WINDOWS_CHILD_ENV)" and n2: "py_upper k = py_upper n" by (elim exE conjE)
      then have n1: "n \<in> set (CHILD_ENV_BASE @ WINDOWS_CHILD_ENV) \<or> n \<in> set (mc_inherit_env sv)" unfolding set_append Un_iff by meson
      have up: "startswith (py_upper n) ''EVARNESS_''" using k(2) unfolding n2 .
      from n1 show False
      proof
        assume "n \<in> set (CHILD_ENV_BASE @ WINDOWS_CHILD_ENV)"
        from base_names [OF this] up show False by (rule notE)
      next
        assume "n \<in> set (mc_inherit_env sv)"
        from inh [OF this] up show False by (rule notE)
      qed
    next
      assume "startswith k ''LC_''"
      from locale_names [OF this] k(2) show False by (rule notE)
    qed
  qed
  have "k \<in> fst ` set (mc_env sv) \<or> (k, v) \<in> set (filter (\<lambda>kv. env_passes windows sv (fst kv)) host)"
    using fold_aset_set [OF k(1) [unfolded child_environment_def]] .
  with no show ?thesis by simp
qed

lemma sep_inj: "c \<notin> set x \<Longrightarrow> c \<notin> set y \<Longrightarrow> x @ c # r = y @ c # r' \<Longrightarrow> x = y \<and> r = r'"
proof (induction x arbitrary: y)
  case Nil
  then show ?case by (cases y) auto
next
  case (Cons a x)
  then show ?case by (cases y) auto
qed

text \<open>The bytes hashed for a package are read in one way: the same bytes come from the same paths in the same order with the
  same hashes, as a path has no NUL and a hash has a fixed length.\<close>

lemma package_bytes_are_read_back:
  assumes "\<And>x. length (sha x) = 32"
  shows "concat (map (module_entry sha) es) = concat (map (module_entry sha) fs) \<Longrightarrow> \<forall>e \<in> set es \<union> set fs. NUL \<notin> set (fst e)
    \<Longrightarrow> map (\<lambda>e. (fst e, sha (snd e))) es = map (\<lambda>e. (fst e, sha (snd e))) fs"
proof (induction es arbitrary: fs)
  case Nil
  then show ?case by (cases fs) (auto simp: module_entry_def)
next
  case (Cons e es)
  then obtain f rest where fs: "fs = f # rest" by (cases fs) (auto simp: module_entry_def)
  have eq: "fst e @ NUL # (sha (snd e) @ concat (map (module_entry sha) es)) = fst f @ NUL # (sha (snd f) @ concat (map (module_entry sha) rest))"
    using Cons.prems(1) unfolding fs list.map concat.simps module_entry_def [of sha e] module_entry_def [of sha f] by simp
  have "NUL \<notin> set (fst e)" "NUL \<notin> set (fst f)" using Cons.prems(2) by (simp_all add: fs)
  from sep_inj [OF this eq] have name: "fst e = fst f" and
      tail: "sha (snd e) @ concat (map (module_entry sha) es) = sha (snd f) @ concat (map (module_entry sha) rest)" by auto
  have "sha (snd e) = sha (snd f)" "concat (map (module_entry sha) es) = concat (map (module_entry sha) rest)"
    using tail assms by (simp_all add: append_eq_append_conv)
  then show ?case using Cons.IH [of rest] Cons.prems(2) name by (simp add: fs)
qed

end
