(* ===== verification/MCP_Wire.thy ===== *)
theory MCP_Wire
  imports MCP_Signing Approvals_Store "HOL-Library.Sublist"
begin

text \<open>
  The wire of an MCP server (\<open>tools/mcp_bridge.py\<close>): taking messages off the bytes a stdio server writes, the session that
  waits for the expected answers, server-sent events, and the checks of what an answer holds.

  Bytes are texts of characters up to 255. Decoding UTF-8 and reading and writing JSON (compact, and as a result is measured) are the
  fields of a \<open>codec\<close>; a clock is
  the list of what each wait for output brings, whose end is the deadline. Starting and ending a process is not modelled.
\<close>

section \<open>Bytes\<close>

record codec =
  cd_text :: "string \<Rightarrow> string"
  cd_utf8 :: "string \<Rightarrow> string option"
  cd_loads :: "string \<Rightarrow> pyval option"
  cd_dumps :: "pyval \<Rightarrow> string"
  cd_result :: "pyval \<Rightarrow> string"

text \<open>\<open>s.find(p)\<close>.\<close>

fun find_text :: "string \<Rightarrow> string \<Rightarrow> nat option" where
  "find_text p [] = (if p = [] then Some 0 else None)"
| "find_text p (c # s) = (if startswith (c # s) p then Some 0 else map_option Suc (find_text p s))"

text \<open>An index of a slice, which counts from the end when it is negative and is cut to the length.\<close>

definition slice_index :: "int \<Rightarrow> nat \<Rightarrow> nat" where
  "slice_index i n = (if i < 0 then nat (i + int n) else min (nat i) n)"

definition byte_slice :: "int \<Rightarrow> int \<Rightarrow> string \<Rightarrow> string" where
  "byte_slice i j s = drop (slice_index i (length s)) (take (slice_index j (length s)) s)"

definition drop_front :: "int \<Rightarrow> string \<Rightarrow> string" where
  "drop_front j s = drop (slice_index j (length s)) s"

text \<open>\<open>str.splitlines\<close> of an ASCII text, and \<open>str.partition\<close> at one character.\<close>

definition line_end :: "char \<Rightarrow> bool" where
  "line_end c \<longleftrightarrow> char_in 10 13 c \<or> char_in 28 30 c"

fun splitlines :: "string \<Rightarrow> string \<Rightarrow> string list" where
  "splitlines w [] = (if w = [] then [] else [w])"
| "splitlines w (c # cs) =
     (if \<not> line_end c then splitlines (w @ [c]) cs
      else if of_char c = (13::nat) \<and> cs \<noteq> [] \<and> hd cs = NL then w # splitlines [] (tl cs)
      else w # splitlines [] cs)"

definition partition_at :: "char \<Rightarrow> string \<Rightarrow> string \<times> bool \<times> string" where
  "partition_at c s = (takeWhile (\<lambda>x. x \<noteq> c) s, c \<in> set s, tl (dropWhile (\<lambda>x. x \<noteq> c) s))"

text \<open>\<open>int(text)\<close> of an ASCII text: an underscore between digits is allowed, more than 4300 digits are not.\<close>

definition int_of_text :: "string \<Rightarrow> int option" where
  "int_of_text s =
     (let t = strip s;
          u = (case t of c # r \<Rightarrow> if c \<in> set ''+-'' then r else t | [] \<Rightarrow> []);
          digits = filter (\<lambda>c. c \<noteq> CHR ''_'') u in
      if u = [] \<or> hd u = CHR ''_'' \<or> last u = CHR ''_'' \<or> 0 < occurrences ''__'' u \<or> 4300 < length digits then None
      else py_int_str (take (length t - length u) t @ digits))"

section \<open>Taking one message\<close>

fun parse_content_length :: "string list \<Rightarrow> int result" where
  "parse_content_length [] = Raise ''ValueError'' ''MCP stdio message is missing Content-Length''"
| "parse_content_length (h # hs) =
     (let (name, separator, val) = partition_at (CHR '':'') h in
      if separator \<and> py_lower name = ''content-length'' then
        (case int_of_text (strip val) of
           Some n \<Rightarrow> Inr n
         | None \<Rightarrow> Raise ''ValueError'' (''invalid literal for int() with base 10: '' @ repr_str (strip val)))
      else parse_content_length hs)"

definition CRLF2 :: string where "CRLF2 = [char_of (13::nat), NL, char_of (13::nat), NL]"

text \<open>The end of the header and the start of the body, when the empty line after the header has come.\<close>

definition header_end :: "string \<Rightarrow> (nat \<times> nat) option" where
  "header_end buffer =
     (case find_text CRLF2 buffer of
        Some e \<Rightarrow> Some (e, e + 4)
      | None \<Rightarrow> map_option (\<lambda>e. (e, e + 2)) (find_text [NL, NL] buffer))"

definition frame_length :: "string \<Rightarrow> nat \<Rightarrow> int result" where
  "frame_length buffer e = parse_content_length (splitlines [] (filter (\<lambda>c. of_char c < (128::nat)) (take e buffer)))"

definition body_dict :: "codec \<Rightarrow> string \<Rightarrow> dict" where
  "body_dict cd body =
     (case Option.bind (cd_utf8 cd body) (cd_loads cd) of Some (PDict d) \<Rightarrow> d | _ \<Rightarrow> [])"

text \<open>\<open>None\<close> when the frame is not complete, the empty dict when it is not usable; and the bytes that are left.\<close>

definition take_framed_message :: "codec \<Rightarrow> string \<Rightarrow> dict option \<times> string" where
  "take_framed_message cd buffer =
     (case header_end buffer of
        None \<Rightarrow> (None, buffer)
      | Some (e, start) \<Rightarrow>
          (case frame_length buffer e of
             Inl _ \<Rightarrow> (Some [], drop_front (int start) buffer)
           | Inr n \<Rightarrow>
               if int (length buffer) < int start + n then (None, buffer)
               else (Some (body_dict cd (byte_slice (int start) (int start + n) buffer)), drop_front (int start + n) buffer)))"

text \<open>One turn of the loop of \<open>_next_stdio_message\<close>: what it returns with the bytes left, or the bytes of the next turn.\<close>

definition message_step :: "codec \<Rightarrow> string \<Rightarrow> (dict option \<times> string) + string" where
  "message_step cd buffer =
     (case find_text [NL] buffer of
        None \<Rightarrow> Inl (None, buffer)
      | Some newline \<Rightarrow>
          let line = strip (cd_text cd (take newline buffer)) in
          if startswith (py_lower line) ''content-length:'' then
            (case take_framed_message cd buffer of
               (None, rest) \<Rightarrow> Inl (None, rest)
             | (Some d, rest) \<Rightarrow> if d \<noteq> [] then Inl (Some d, rest) else Inr rest)
          else
            let rest = drop (newline + 1) buffer in
            if \<not> startswith line ''{'' then Inr rest
            else case cd_loads cd line of Some (PDict d) \<Rightarrow> Inl (Some d, rest) | _ \<Rightarrow> Inr rest)"

partial_function (option) next_stdio_message :: "codec \<Rightarrow> string \<Rightarrow> (dict option \<times> string) option" where
  "next_stdio_message cd buffer =
     (case message_step cd buffer of
        Inl r \<Rightarrow> Some r
      | Inr rest \<Rightarrow> next_stdio_message cd rest)"

declare next_stdio_message.simps [code]

definition encode_stdio_message :: "codec \<Rightarrow> dict \<Rightarrow> string" where
  "encode_stdio_message cd payload = cd_dumps cd (PDict payload) @ [NL]"


section \<open>When reading ends\<close>

lemma find_text_bound: "find_text p s = Some i \<Longrightarrow> i + length p \<le> length s"
proof (induction s arbitrary: i)
  case (Cons c s)
  then show ?case by (auto simp: startswith_iff split: if_splits) (metis le_add1 length_Cons length_append)
qed (auto split: if_splits)

lemma header_end_bound: "header_end b = Some (e, start) \<Longrightarrow> 2 \<le> start \<and> start \<le> length b"
  by (auto simp: header_end_def CRLF2_def dest!: find_text_bound split: option.splits)

text \<open>The first line starts a frame whose length, counted back from the body, takes nothing off the bytes.\<close>

definition stuck_frame :: "codec \<Rightarrow> string \<Rightarrow> bool" where
  "stuck_frame cd b \<longleftrightarrow> body_dict cd [] = [] \<and>
     (\<exists>newline e start n. find_text [NL] b = Some newline
        \<and> startswith (py_lower (strip (cd_text cd (take newline b)))) ''content-length:''
        \<and> header_end b = Some (e, start) \<and> frame_length b e = Inr n
        \<and> int start + n \<le> 0 \<and> (int start + n = 0 \<or> int (length b) \<le> - (int start + n)))"

lemma slice_index_0: "0 < l \<Longrightarrow> slice_index j l = 0 \<longleftrightarrow> j \<le> 0 \<and> (j = 0 \<or> int l \<le> - j)"
  by (auto simp: slice_index_def)

lemma drop_front_shorter: "0 < length b \<Longrightarrow> slice_index j (length b) \<noteq> 0 \<Longrightarrow> length (drop_front j b) < length b"
  by (simp add: drop_front_def)

lemma frame_step:
  assumes "take_framed_message cd b = (Some [], rest)"
  shows "length rest < length b \<or> rest = b \<and> body_dict cd [] = [] \<and> (\<exists>e start n. header_end b = Some (e, start) \<and> frame_length b e = Inr n
    \<and> int start + n \<le> 0 \<and> (int start + n = 0 \<or> int (length b) \<le> - (int start + n)))"
proof -
  obtain e start where h: "header_end b = Some (e, start)" using assms by (auto simp: take_framed_message_def split: option.splits)
  have start: "2 \<le> start" "start \<le> length b" using header_end_bound [OF h] by auto
  then have pos: "0 < length b" by linarith
  show ?thesis
  proof (cases "frame_length b e")
    case (Inl x)
    then have "rest = drop_front (int start) b" using assms h by (simp add: take_framed_message_def)
    moreover have "slice_index (int start) (length b) \<noteq> 0" using start pos by (simp add: slice_index_0)
    ultimately show ?thesis using drop_front_shorter [OF pos] by simp
  next
    case (Inr n)
    then have rest: "rest = drop_front (int start + n) b" and d: "body_dict cd (byte_slice (int start) (int start + n) b) = []"
      using assms h by (auto simp: take_framed_message_def split: if_splits)
    show ?thesis
    proof (cases "slice_index (int start + n) (length b) = 0")
      case True
      then have "rest = b" "byte_slice (int start) (int start + n) b = []" by (simp_all add: rest drop_front_def byte_slice_def)
      then show ?thesis using True d h Inr by (auto simp: slice_index_0 [OF pos])
    next
      case False
      then show ?thesis using drop_front_shorter [OF pos] rest by simp
    qed
  qed
qed

lemma message_step_shrinks:
  assumes "message_step cd b = Inr rest"
  shows "length rest < length b \<or> rest = b \<and> stuck_frame cd b"
proof -
  obtain newline where nl: "find_text [NL] b = Some newline" using assms by (auto simp: message_step_def split: option.splits)
  have "newline < length b" using find_text_bound [OF nl] by simp
  then have line: "length (drop (newline + 1) b) < length b" by simp
  show ?thesis
  proof (cases "startswith (py_lower (strip (cd_text cd (take newline b)))) ''content-length:''")
    case False
    then have "rest = drop (newline + 1) b" using assms nl
      by (auto simp: message_step_def Let_def split: if_splits option.splits pyval.splits)
    then show ?thesis using line by simp
  next
    case True
    then have "take_framed_message cd b = (Some [], rest)" using assms nl
      by (auto simp: message_step_def Let_def split: prod.splits option.splits if_splits)
    from frame_step [OF this] show ?thesis using True nl unfolding stuck_frame_def by blast
  qed
qed

lemma stuck_step: "stuck_frame cd b \<Longrightarrow> message_step cd b = Inr b"
proof -
  assume "stuck_frame cd b"
  then obtain newline e start n where s: "find_text [NL] b = Some newline"
      "startswith (py_lower (strip (cd_text cd (take newline b)))) ''content-length:''" "header_end b = Some (e, start)" "frame_length b e = Inr n"
      "int start + n \<le> 0 \<and> (int start + n = 0 \<or> int (length b) \<le> - (int start + n))" and d: "body_dict cd [] = []"
    unfolding stuck_frame_def by blast
  have "0 < length b" using header_end_bound [OF s(3)] by linarith
  then have z: "slice_index (int start + n) (length b) = 0" using s(5) by (simp add: slice_index_0)
  have "\<not> int (length b) < int start + n" using s(5) by linarith
  then have "take_framed_message cd b = (Some [], b)"
    using s(3,4) d z by (simp add: take_framed_message_def drop_front_def byte_slice_def)
  then show ?thesis using s(1,2) by (simp add: message_step_def)
qed

lemma returned_not_stuck: "next_stdio_message cd b = Some r \<Longrightarrow> message_step cd b \<noteq> Inr b"
proof (rule next_stdio_message.raw_induct [where P = "\<lambda>cd b r. message_step cd b \<noteq> Inr b"])
  fix rd :: "codec \<Rightarrow> string \<Rightarrow> (dict option \<times> string) option" and cd b r
  assume ih: "\<And>cd b r. rd cd b = Some r \<Longrightarrow> message_step cd b \<noteq> Inr b"
    and r: "(case message_step cd b of Inl r \<Rightarrow> Some r | Inr rest \<Rightarrow> rd cd rest) = Some r"
  show "message_step cd b \<noteq> Inr b"
  proof
    assume step: "message_step cd b = Inr b"
    then have "rd cd b = Some r" using r by simp
    from ih [OF this] step show False by simp
  qed
qed

lemma stuck_reading: "message_step cd b = Inr b \<Longrightarrow> next_stdio_message cd b = None"
  using returned_not_stuck by (cases "next_stdio_message cd b") blast+

text \<open>C40. Reading a message off the bytes a server wrote ends, except on a length that counts back over the whole buffer. The loop
  fails to return exactly when dropping unusable lines and frames brings a frame to the front whose \<open>Content-Length\<close> is
  negative, by the length of its header or by at least all that is buffered: such a frame is found unusable, takes nothing
  off the buffer, and is read again for ever, under no deadline.\<close>

theorem reading_ends_unless_a_length_is_negative:
  "next_stdio_message cd b = None \<longleftrightarrow> (\<exists>b'. (\<lambda>x y. message_step cd x = Inr y)\<^sup>*\<^sup>* b b' \<and> stuck_frame cd b')"
proof (induction "length b" arbitrary: b rule: less_induct)
  case less
  show ?case
  proof (cases "message_step cd b")
    case (Inl r)
    then have some: "next_stdio_message cd b = Some r" by (subst next_stdio_message.simps) simp
    have "b' = b" if "(\<lambda>x y. message_step cd x = Inr y)\<^sup>*\<^sup>* b b'" for b'
      using that Inl by (cases rule: converse_rtranclpE) auto
    then show ?thesis using some stuck_step [of cd b] Inl by auto
  next
    case (Inr rest)
    show ?thesis
    proof (cases "rest = b")
      case True
      then have "stuck_frame cd b" using message_step_shrinks [OF Inr] by simp
      then show ?thesis using stuck_reading [of cd b] Inr True by blast
    next
      case False
      then have "length rest < length b" and "\<not> stuck_frame cd b" using message_step_shrinks [OF Inr] stuck_step [of cd b] Inr by auto
      moreover have "next_stdio_message cd b = next_stdio_message cd rest" using Inr by (subst next_stdio_message.simps) simp
      moreover have "(\<lambda>x y. message_step cd x = Inr y)\<^sup>*\<^sup>* b b' \<longleftrightarrow> b' = b \<or> (\<lambda>x y. message_step cd x = Inr y)\<^sup>*\<^sup>* rest b'" for b'
        using Inr by (auto intro: converse_rtranclp_into_rtranclp elim: converse_rtranclpE)
      ultimately show ?thesis using less [of rest] by auto
    qed
  qed
qed

text \<open>A codec for ASCII, and 23 bytes that are read for ever.\<close>

definition ascii_codec :: codec where
  "ascii_codec = \<lparr>cd_text = id, cd_utf8 = Some, cd_loads = (\<lambda>t. if t = ''{1}'' then Some (PDict [(''id'', PStr ''a'')]) else None), cd_dumps = json_dumps, cd_result = json_dumps\<rparr>"

lemma negative_length_never_returns:
  "next_stdio_message ascii_codec (''Content-Length: -99'' @ CRLF2) = None"
proof -
  have "find_text [NL] (''Content-Length: -99'' @ CRLF2) = Some 20" "header_end (''Content-Length: -99'' @ CRLF2) = Some (19, 23)"
      "frame_length (''Content-Length: -99'' @ CRLF2) 19 = Inr (- 99)" "body_dict ascii_codec [] = []"
      "startswith (py_lower (strip (cd_text ascii_codec (take 20 (''Content-Length: -99'' @ CRLF2))))) ''content-length:'' = True"
      "length (''Content-Length: -99'' @ CRLF2) = 23"
    by code_simp+
  then have "stuck_frame ascii_codec (''Content-Length: -99'' @ CRLF2)" unfolding stuck_frame_def by fastforce
  then show ?thesis by (intro stuck_reading stuck_step)
qed


section \<open>A session\<close>

definition transport_error :: "string \<Rightarrow> 'a result" where
  "transport_error m = Raise ''MCPTransportError'' m"

definition method_reply :: "dict \<Rightarrow> dict" where
  "method_reply payload =
     (if dget payload ''method'' = PStr ''ping'' then [(''jsonrpc'', PStr ''2.0''), (''id'', dget payload ''id''), (''result'', PDict [])]
      else [(''jsonrpc'', PStr ''2.0''), (''id'', dget payload ''id''),
            (''error'', PDict [(''code'', PInt (- 32601)), (''message'', PStr ''method not supported by this client'')])])"

type_synonym responses = "(string \<times> dict) list"

text \<open>The responses after one message, and what is written back.\<close>

definition accept_stdio_message :: "mcp_server \<Rightarrow> dict \<Rightarrow> string list \<Rightarrow> responses \<Rightarrow> (responses \<times> dict list) result" where
  "accept_stdio_message sv payload expected responses =
     (let message_id = dget payload ''id'' in
      if dhas payload ''method'' then Inr (responses, if message_id \<noteq> PNone then [method_reply payload] else [])
      else if message_id = PNone then Inr (responses, [])
      else if py_str message_id \<notin> set expected then
        transport_error (''MCP stdio server '' @ CHR 0x27 # mc_name sv @ CHR 0x27 # '' answered request id '' @ py_repr message_id
          @ '', which this session did not send (expected '' @ join '', '' (sort (remdups expected)) @ '')'')
      else Inr (aset (py_str message_id) payload responses, []))"

definition MAX_STDOUT_BUFFER :: nat where "MAX_STDOUT_BUFFER = 32 * 1024 * 1024"
definition ENVELOPE_SLACK_BYTES :: nat where "ENVELOPE_SLACK_BYTES = 65536"

definition buffer_limit :: "mcp_server \<Rightarrow> nat" where
  "buffer_limit sv = min MAX_STDOUT_BUFFER (mc_max_result_bytes sv + ENVELOPE_SLACK_BYTES)"

definition describe_failure :: "mcp_server \<Rightarrow> string \<Rightarrow> string \<Rightarrow> int option \<Rightarrow> string" where
  "describe_failure sv what stderr code =
     (let m = ''MCP stdio server '' @ CHR 0x27 # mc_name sv @ CHR 0x27 # '' '' @ what;
          m' = (case code of None \<Rightarrow> m | Some c \<Rightarrow> m @ '' (exit code '' @ show_int c @ '')'') in
      if stderr = [] then m' else m' @ '': '' @ drop (length stderr - 2000) stderr)"

text \<open>The wait for the expected answers: a chunk of output, none at the end of the output, and the deadline when the list of
  chunks ends. \<open>err\<close> holds the end of the error output, the timeout as text and the exit code.\<close>

record session_end =
  se_timeout :: string
  se_stderr :: string
  se_code :: "int option"

partial_function (option) stdio_exchange ::
  "codec \<Rightarrow> mcp_server \<Rightarrow> session_end \<Rightarrow> string list \<Rightarrow> responses \<Rightarrow> string \<Rightarrow> string list \<Rightarrow> responses result option"
where
  "stdio_exchange cd sv err expected responses buffer chunks =
     (if set expected \<subseteq> set (map fst responses) then Some (Inr responses)
      else case next_stdio_message cd buffer of
        None \<Rightarrow> None
      | Some (Some payload, rest) \<Rightarrow>
          (case accept_stdio_message sv payload expected responses of
             Inl e \<Rightarrow> Some (Inl e)
           | Inr (responses', _) \<Rightarrow> stdio_exchange cd sv err expected responses' rest chunks)
      | Some (None, rest) \<Rightarrow>
          (case chunks of
             [] \<Rightarrow> Some (transport_error (describe_failure sv (''gave no answer within '' @ se_timeout err @ ''s'') (se_stderr err) None))
           | chunk # chunks' \<Rightarrow>
               if chunk = [] then Some (transport_error (describe_failure sv ''closed its output before answering'' (se_stderr err) (se_code err)))
               else if buffer_limit sv < length (rest @ chunk) then
                 Some (transport_error (''MCP stdio server '' @ CHR 0x27 # mc_name sv @ CHR 0x27 # '' sent more than '' @ show_nat (buffer_limit sv)
                   @ '' bytes without a complete message (max_result_bytes is '' @ show_nat (mc_max_result_bytes sv) @ '')''))
               else stdio_exchange cd sv err expected responses (rest @ chunk) chunks'))"

text \<open>An answer is under an id this session sent, it is not a request of the server's, and it carries that id.\<close>

definition answers :: "string list \<Rightarrow> responses \<Rightarrow> bool" where
  "answers expected rs \<longleftrightarrow> (\<forall>(k, d) \<in> set rs. k \<in> set expected \<and> \<not> dhas d ''method'' \<and> py_str (dget d ''id'') = k \<and> dget d ''id'' \<noteq> PNone)"

lemma aset_in: "x \<in> set (aset k v d) \<Longrightarrow> x = (k, v) \<or> x \<in> set d"
  by (induction d) (auto split: if_splits)

lemma accept_answers:
  "accept_stdio_message sv p expected rs = Inr (rs', w) \<Longrightarrow> answers expected rs \<Longrightarrow> answers expected rs'"
  by (auto simp: accept_stdio_message_def answers_def Let_def transport_error_def dest!: aset_in split: if_splits)

lemma exchange_answers:
  "stdio_exchange cd sv err expected rs b cs = Some out \<Longrightarrow>
    \<forall>got. out = Inr got \<longrightarrow> answers expected rs \<longrightarrow> answers expected got \<and> set expected \<subseteq> set (map fst got)"
proof (rule stdio_exchange.raw_induct [where P = "\<lambda>cd sv err expected rs b cs out.
    \<forall>got. out = Inr got \<longrightarrow> answers expected rs \<longrightarrow> answers expected got \<and> set expected \<subseteq> set (map fst got)"])
  fix ex :: "codec \<Rightarrow> mcp_server \<Rightarrow> session_end \<Rightarrow> string list \<Rightarrow> responses \<Rightarrow> string \<Rightarrow> string list \<Rightarrow> responses result option"
    and cd sv err expected rs b cs out
  assume ih: "\<And>cd sv err expected rs b cs out. ex cd sv err expected rs b cs = Some out \<Longrightarrow>
      \<forall>got. out = Inr got \<longrightarrow> answers expected rs \<longrightarrow> answers expected got \<and> set expected \<subseteq> set (map fst got)"
    and out: "(if set expected \<subseteq> set (map fst rs) then Some (Inr rs)
      else case next_stdio_message cd b of
        None \<Rightarrow> None
      | Some (Some payload, rest) \<Rightarrow>
          (case accept_stdio_message sv payload expected rs of
             Inl e \<Rightarrow> Some (Inl e)
           | Inr (rs', _) \<Rightarrow> ex cd sv err expected rs' rest cs)
      | Some (None, rest) \<Rightarrow>
          (case cs of
             [] \<Rightarrow> Some (transport_error (describe_failure sv (''gave no answer within '' @ se_timeout err @ ''s'') (se_stderr err) None))
           | chunk # chunks' \<Rightarrow>
               if chunk = [] then Some (transport_error (describe_failure sv ''closed its output before answering'' (se_stderr err) (se_code err)))
               else if buffer_limit sv < length (rest @ chunk) then
                 Some (transport_error (''MCP stdio server '' @ CHR 0x27 # mc_name sv @ CHR 0x27 # '' sent more than '' @ show_nat (buffer_limit sv)
                   @ '' bytes without a complete message (max_result_bytes is '' @ show_nat (mc_max_result_bytes sv) @ '')''))
               else ex cd sv err expected rs (rest @ chunk) chunks')) = Some out"
  show "\<forall>got. out = Inr got \<longrightarrow> answers expected rs \<longrightarrow> answers expected got \<and> set expected \<subseteq> set (map fst got)"
  proof (intro allI impI)
    fix got assume got: "out = Inr got" and ok: "answers expected rs"
    show "answers expected got \<and> set expected \<subseteq> set (map fst got)"
    proof (cases "set expected \<subseteq> set (map fst rs)")
      case True
      then show ?thesis using out got ok by simp
    next
      case more: False
      then obtain m rest where m: "next_stdio_message cd b = Some (m, rest)" using out by (auto split: option.splits)
      show ?thesis
      proof (cases m)
        case (Some payload)
        then obtain rs' w where a: "accept_stdio_message sv payload expected rs = Inr (rs', w)"
          using out got m more by (auto split: sum.splits)
        then have "ex cd sv err expected rs' rest cs = Some out" using out m more Some by simp
        from ih [OF this] show ?thesis using got accept_answers [OF a ok] by simp
      next
        case None
        obtain chunk cs' where cs: "cs = chunk # cs'" using out got m more None by (cases cs) (auto simp: transport_error_def)
        have "ex cd sv err expected rs (rest @ chunk) cs' = Some out"
          using out got m more None cs by (auto simp: transport_error_def split: if_splits)
        from ih [OF this] show ?thesis using got ok by simp
      qed
    qed
  qed
qed

text \<open>A session that gives responses gives one to every expected id and nothing else, each the server's own answer to that id,
  whatever else the server wrote: banners, requests of its own, notifications, a second answer.\<close>

theorem session_gives_the_expected_answers:
  assumes "stdio_exchange cd sv err expected [] [] cs = Some (Inr got)"
  shows "set (map fst got) = set expected \<and> (\<forall>(k, d) \<in> set got. \<not> dhas d ''method'' \<and> py_str (dget d ''id'') = k)"
proof -
  have "answers expected got \<and> set expected \<subseteq> set (map fst got)"
    using exchange_answers [OF assms] by (simp add: answers_def)
  then show ?thesis unfolding answers_def by fastforce
qed


section \<open>Server-sent events\<close>

fun rstrip_newlines :: "string \<Rightarrow> string" where
  "rstrip_newlines s = rev (dropWhile (\<lambda>c. of_char c \<in> {10, 13 :: nat}) (rev s))"

definition sse_value :: "string \<Rightarrow> string" where
  "sse_value line = snd (snd (partition_at (CHR '':'') line))"

text \<open>The events of the lines that have come, with the event name and the data lines read so far.\<close>

fun iter_sse_events :: "string \<Rightarrow> string list \<Rightarrow> string list \<Rightarrow> (string \<times> string) list" where
  "iter_sse_events event_name data_lines [] = (if data_lines \<noteq> [] then [(event_name, join [NL] data_lines)] else [])"
| "iter_sse_events event_name data_lines (raw # rest) =
     (let stripped = rstrip_newlines raw in
      if stripped = [] then
        (if data_lines \<noteq> [] then (event_name, join [NL] data_lines) # iter_sse_events ''message'' [] rest
         else iter_sse_events ''message'' [] rest)
      else if startswith stripped '':'' then iter_sse_events event_name data_lines rest
      else if startswith stripped ''event:'' then
        (let name = strip (sse_value stripped) in iter_sse_events (if name = [] then ''message'' else name) data_lines rest)
      else if startswith stripped ''data:'' then iter_sse_events event_name (data_lines @ [lstrip (sse_value stripped)]) rest
      else iter_sse_events event_name data_lines rest)"

text \<open>The endpoint the stream names and the events after it; joining the URLs is an argument.\<close>

fun resolve_sse_message_endpoint ::
  "(string \<Rightarrow> string \<Rightarrow> string) \<Rightarrow> string \<Rightarrow> (string \<times> string) list \<Rightarrow> (string \<times> (string \<times> string) list) result"
where
  "resolve_sse_message_endpoint urljoin base_url [] = Raise ''ValueError'' ''MCP SSE stream did not publish an endpoint event''"
| "resolve_sse_message_endpoint urljoin base_url ((event_name, data) # events) =
     (if event_name = ''endpoint'' then
        (if strip data = [] then Raise ''ValueError'' ''MCP SSE stream did not publish an endpoint event''
         else Inr (urljoin base_url (strip data), events))
      else resolve_sse_message_endpoint urljoin base_url events)"

text \<open>The responses an event stream gives; a text that is not JSON raises, as \<open>json.loads\<close> does.\<close>

fun collect_sse :: "codec \<Rightarrow> string \<Rightarrow> string list \<Rightarrow> responses \<Rightarrow> (string \<times> string) list \<Rightarrow> responses result" where
  "collect_sse cd name expected responses [] = Raise ''ValueError'' (''incomplete MCP SSE exchange from server '' @ CHR 0x27 # name @ [CHR 0x27])"
| "collect_sse cd name expected responses ((_, data) # events) =
     (if strip data = [] then collect_sse cd name expected responses events
      else case cd_loads cd data of
        None \<Rightarrow> Raise ''JSONDecodeError'' data
      | Some (PDict payload) \<Rightarrow>
          (let payload_id = dget payload ''id'' in
           if payload_id = PNone then collect_sse cd name expected responses events
           else let responses' = (if py_str payload_id \<in> set expected then aset (py_str payload_id) payload responses else responses) in
             if length responses' = card (set expected) then Inr responses' else collect_sse cd name expected responses' events)
      | Some _ \<Rightarrow> collect_sse cd name expected responses events)"

text \<open>One session over SSE: the endpoint, the messages posted to it, the answers. What a post raises is an argument.\<close>

fun post_all :: "(string \<Rightarrow> dict \<Rightarrow> unit result) \<Rightarrow> string \<Rightarrow> dict list \<Rightarrow> unit result" where
  "post_all post url [] = Inr ()"
| "post_all post url (m # ms) = (case post url m of Inl e \<Rightarrow> Inl e | Inr _ \<Rightarrow> post_all post url ms)"

definition sse_exchange ::
  "codec \<Rightarrow> (string \<Rightarrow> string \<Rightarrow> string) \<Rightarrow> (string \<Rightarrow> dict \<Rightarrow> unit result) \<Rightarrow> mcp_server \<Rightarrow> string list \<Rightarrow> dict list \<Rightarrow> string list
    \<Rightarrow> responses result"
where
  "sse_exchange cd urljoin post sv stream outgoing expected =
     (case mc_url sv of
        None \<Rightarrow> Raise ''ValueError'' (''MCP server '' @ CHR 0x27 # mc_name sv @ CHR 0x27 # '' is missing an SSE URL'')
      | Some url \<Rightarrow>
          (case resolve_sse_message_endpoint urljoin url (iter_sse_events ''message'' [] stream) of
             Inl e \<Rightarrow> Inl e
           | Inr (endpoint, events) \<Rightarrow>
               (case post_all post endpoint outgoing of
                  Inl e \<Rightarrow> Inl e
                | Inr _ \<Rightarrow> collect_sse cd (mc_name sv) expected [] events)))"

section \<open>What an answer holds\<close>

definition within_result_cap :: "codec \<Rightarrow> mcp_server \<Rightarrow> pyval \<Rightarrow> pyval result" where
  "within_result_cap cd sv res =
     (let size = length (cd_result cd res) in
      if mc_max_result_bytes sv < size then
        transport_error (''MCP server '' @ CHR 0x27 # mc_name sv @ CHR 0x27 # '' returned '' @ show_nat size @ '' bytes, over its max_result_bytes of ''
          @ show_nat (mc_max_result_bytes sv) @ ''; raise the limit on the server entry if that is expected'')
      else Inr res)"

definition format_mcp_error :: "pyval \<Rightarrow> string" where
  "format_mcp_error err =
     (case err of
        PDict e \<Rightarrow>
          let code = dget e ''code''; m = (if dhas e ''message'' then dget e ''message'' else PStr ''Unknown MCP error'') in
          if code \<noteq> PNone then ''MCP error '' @ py_str code @ '': '' @ py_str m else py_str m
      | _ \<Rightarrow> py_str err)"

definition extract_mcp_result :: "pyval \<Rightarrow> pyval result" where
  "extract_mcp_result payload =
     (case payload of
        PDict p \<Rightarrow>
          if dget p ''error'' \<noteq> PNone then Raise ''ValueError'' (format_mcp_error (dget p ''error''))
          else if dhas p ''result'' then Inr (dget p ''result'') else Inr payload
      | _ \<Rightarrow> Inr payload)"

fun all_dicts :: "pyval list \<Rightarrow> dict list option" where
  "all_dicts [] = Some []"
| "all_dicts (PDict d # vs) = map_option (\<lambda>ds. d # ds) (all_dicts vs)"
| "all_dicts (_ # vs) = None"

definition coerce_mcp_tools_payload :: "pyval \<Rightarrow> dict list result" where
  "coerce_mcp_tools_payload payload =
     (case payload of
        PDict p \<Rightarrow>
          (case dget p ''tools'' of
             PList tools \<Rightarrow>
               (case all_dicts tools of
                  Some ds \<Rightarrow> Inr ds
                | None \<Rightarrow> Raise ''ValueError'' ''MCP tools/list entries must be JSON objects'')
           | _ \<Rightarrow> Raise ''ValueError'' ''MCP tools/list response must include a tools array'')
      | _ \<Rightarrow> Raise ''ValueError'' ''MCP tools/list response must be a JSON object'')"

record mcp_tool_definition =
  mt_name :: string
  mt_description :: string
  mt_input_schema :: dict
  mt_governor_route :: string
  mt_source_kind :: string
  mt_source_name :: string

text \<open>The fields with \<open>min_length=1\<close>; the server's own name has one already.\<close>

definition coerce_external_tool_definition :: "mcp_server \<Rightarrow> dict \<Rightarrow> mcp_tool_definition result" where
  "coerce_external_tool_definition sv payload =
     (let schema = (if truthy (dget payload ''inputSchema'') then dget payload ''inputSchema'' else dget payload ''input_schema'');
          text_of = (\<lambda>k dflt. if dhas payload k then py_str (dget payload k) else dflt);
          t = \<lparr>mt_name = text_of ''name'' [], mt_description = text_of ''description'' ''Tool exposed by external MCP server'',
               mt_input_schema = (case schema of PDict d \<Rightarrow> d
                 | _ \<Rightarrow> [(''type'', PStr ''object''), (''properties'', PDict []), (''additionalProperties'', PBool True)]),
               mt_governor_route = ''coding/mcp'', mt_source_kind = ''mcp_server'', mt_source_name = mc_name sv\<rparr> in
      if mt_name t = [] \<or> mt_description t = [] then Raise ''ValidationError'' ''String should have at least 1 character'' else Inr t)"

definition build_jsonrpc_request :: "string \<Rightarrow> string \<Rightarrow> dict \<Rightarrow> dict" where
  "build_jsonrpc_request request_id method params =
     [(''jsonrpc'', PStr ''2.0''), (''id'', PStr request_id), (''method'', PStr method), (''params'', PDict params)]"

section \<open>A message is read back\<close>

lemma find_text_here: "c \<notin> set s \<Longrightarrow> find_text [c] (s @ c # r) = Some (length s)"
  by (induction s) auto

text \<open>A message written as one line of JSON is the next one read, and reading takes exactly its line.\<close>

lemma message_is_read_back:
  assumes "NL \<notin> set (cd_dumps cd (PDict p))" and "strip (cd_text cd (cd_dumps cd (PDict p))) = CHR ''{'' # t"
    and "cd_loads cd (CHR ''{'' # t) = Some (PDict p)"
  shows "next_stdio_message cd (encode_stdio_message cd p @ rest) = Some (Some p, rest)"
proof -
  have nl: "find_text [NL] (encode_stdio_message cd p @ rest) = Some (length (cd_dumps cd (PDict p)))"
    using find_text_here [OF assms(1)] by (simp add: encode_stdio_message_def)
  have "lower_char (CHR ''{'') = CHR ''{''" by code_simp
  then have "\<not> startswith (py_lower (CHR ''{'' # t)) ''content-length:''" by (simp add: py_lower_def)
  then have "message_step cd (encode_stdio_message cd p @ rest) = Inl (Some p, rest)"
    using nl assms by (simp add: message_step_def encode_stdio_message_def)
  then show ?thesis by (subst next_stdio_message.simps) simp
qed

end
