(* ===== verification/MCP_Bridge.thy ===== *)
theory MCP_Bridge
  imports MCP_Wire Governor Call_Context
begin

text \<open>
  The bridge to external MCP servers (\<open>MCPBridge\<close> and \<open>MCPTransport.invoke\<close> of \<open>tools/mcp_bridge.py\<close>): which server and which
  tool a call may name, the signature check, the hooks before and after, the governor's guard, the call, and the listing of a
  server's tools.

  The governance kernel's \<open>fire_sync\<close>, the audit digests, the signature check (\<open>MCP_Signing.check_signature\<close> of a store and a file
  system) and the exchange with a server (\<open>MCP_Wire\<close>) are fields of the environment; the governor is the model's own. The state
  holds the tools each server listed, and a trace of what the bridge did.
\<close>

section \<open>State and environment\<close>

datatype bridge_event =
    Contacted mcp_server string dict
  | Executed mcp_server string dict
  | RecordedDenial string string
  | Fired hook_point hook_context

record bridge_state =
  br_listed :: "(string \<times> string list) list"
  br_governor :: governor
  br_calls :: call_state
  br_trace :: "bridge_event list"

record bridge_env =
  be_enabled :: bool
  be_servers :: "mcp_server list"
  be_signature :: "mcp_server \<Rightarrow> signature_outcome result"
  be_fire :: "(hook_point \<Rightarrow> hook_context \<Rightarrow> hook_decision \<times> hook_context) option"
  be_digest :: "(string \<times> (pyval \<Rightarrow> string)) result"
  be_signing_enabled :: bool
  be_exchange :: "mcp_server \<Rightarrow> string \<Rightarrow> dict \<Rightarrow> (pyval option \<times> pyval) result"
  be_codec :: codec
  be_float :: "string \<Rightarrow> rat option"
  be_guard :: guard_env
  be_session :: "string option"

definition trace :: "bridge_event \<Rightarrow> bridge_state \<Rightarrow> bridge_state" where
  "trace e st = st\<lparr>br_trace := br_trace st @ [e]\<rparr>"

section \<open>Servers, tools and effects\<close>

definition require_enabled_server :: "bridge_env \<Rightarrow> string \<Rightarrow> mcp_server result" where
  "require_enabled_server env server_name =
     (if \<not> be_enabled env then Raise ''ValueError'' ''MCP bridge is disabled in the effective coding MCP bridge config''
      else case map_of (rev (map (\<lambda>s. (mc_name s, s)) (be_servers env))) server_name of
        None \<Rightarrow> Raise ''ValueError'' (''unknown MCP server: '' @ server_name)
      | Some sv \<Rightarrow>
          if \<not> mc_enabled sv then Raise ''ValueError'' (''MCP server '' @ CHR 0x27 # server_name @ CHR 0x27 # '' is disabled'') else Inr sv)"

definition list_enabled_servers :: "bridge_env \<Rightarrow> mcp_server list" where
  "list_enabled_servers env = filter mc_enabled (be_servers env)"

definition declared_effect :: "mcp_server \<Rightarrow> string \<Rightarrow> mcp_effect option" where
  "declared_effect sv tool_name = (case mc_governance sv of None \<Rightarrow> None | Some g \<Rightarrow> map_of (ms_tools g) tool_name)"

definition effective_effect :: "mcp_server \<Rightarrow> string \<Rightarrow> mcp_effect" where
  "effective_effect sv tool_name =
     (case declared_effect sv tool_name of
        Some e \<Rightarrow> e
      | None \<Rightarrow> (case mc_governance sv of None \<Rightarrow> McpDestructive | Some g \<Rightarrow> ms_undeclared_tools g))"

definition undeclared_tool_names :: "mcp_server \<Rightarrow> string list \<Rightarrow> string list" where
  "undeclared_tool_names sv names = filter (\<lambda>n. declared_effect sv n = None) names"

fun effect_text :: "mcp_effect \<Rightarrow> string" where
  "effect_text McpRead = ''read''"
| "effect_text McpWrite = ''write''"
| "effect_text McpDestructive = ''destructive''"

definition is_known_tool :: "bridge_state \<Rightarrow> mcp_server \<Rightarrow> string \<Rightarrow> bool" where
  "is_known_tool st sv tool_name \<longleftrightarrow> declared_effect sv tool_name \<noteq> None
     \<or> (case map_of (br_listed st) (mc_name sv) of None \<Rightarrow> False | Some listed \<Rightarrow> tool_name \<in> set listed)"

definition is_error_result :: "pyval \<Rightarrow> bool" where
  "is_error_result res = (case res of PDict d \<Rightarrow> truthy (dget d ''isError'') | _ \<Rightarrow> False)"

definition tool_label :: "mcp_server \<Rightarrow> string \<Rightarrow> string" where
  "tool_label sv tool_name = ''MCP tool '' @ CHR 0x27 # mc_name sv @ CHR 0x2F # tool_name @ [CHR 0x27]"

definition undeclared_tool_refusal :: "mcp_server \<Rightarrow> string \<Rightarrow> string" where
  "undeclared_tool_refusal sv tool_name =
     tool_label sv tool_name @ '' refused: the server did not list it in tools/list and it is not declared under governance.tools''"

definition listing_failed_refusal :: "mcp_server \<Rightarrow> string \<Rightarrow> pyexn \<Rightarrow> string" where
  "listing_failed_refusal sv tool_name exc =
     tool_label sv tool_name @ '' refused: it is not declared under governance.tools and tools/list failed ('' @ exn_class exc
       @ ''), so the server's tools are not known''"

section \<open>The governor's guard\<close>

definition APPROVAL_KEYS :: "string list" where "APPROVAL_KEYS = [''approval_granted'', ''approved'']"

definition mcp_metadata :: "string \<Rightarrow> bool \<Rightarrow> dict \<Rightarrow> dict" where
  "mcp_metadata server_name approval_granted metadata =
     dset ''approval_granted'' (PBool approval_granted)
       (dmerge [(''server_name'', PStr server_name)] (filter (\<lambda>kv. fst kv \<notin> set APPROVAL_KEYS) metadata))"

definition guard_mcp_action ::
  "bridge_env \<Rightarrow> string \<Rightarrow> string \<Rightarrow> bool \<Rightarrow> dict \<Rightarrow> string option \<Rightarrow> string option \<Rightarrow> bridge_state \<Rightarrow> guard_decision result \<times> bridge_state"
where
  "guard_mcp_action env action server_name approval_granted metadata run_id call_id st =
     (let payload = [(''action'', PStr action), (''metadata'', PDict (mcp_metadata server_name approval_granted metadata))];
          identity = [(''run_id'', opt_str run_id), (''call_id'', opt_str call_id), (''session_id'', opt_str (be_session env))];
          (d, g) = guard (be_float env) ''coding/mcp'' payload identity (be_guard env) (br_governor st) in
      (d, st\<lparr>br_governor := g\<rparr>))"

definition mcp_refusal :: "guard_decision \<Rightarrow> bool \<Rightarrow> pyexn" where
  "mcp_refusal d approval_granted =
     (if gd_requires_approval d \<and> \<not> approval_granted then PyExn ''MCPApprovalRequired'' (gd_reason d)
      else PyExn ''PermissionError'' (gd_reason d))"

definition authorize_server_session ::
  "bridge_env \<Rightarrow> string \<Rightarrow> bool \<Rightarrow> dict \<Rightarrow> bridge_state \<Rightarrow> guard_decision result \<times> bridge_state"
where
  "authorize_server_session env server_name approval_granted metadata st =
     (case require_enabled_server env server_name of
        Inl e \<Rightarrow> (Inl e, st)
      | Inr sv \<Rightarrow>
          guard_mcp_action env ''session_open'' (mc_name sv) approval_granted
            (dmerge [(''server_name'', PStr (mc_name sv)), (''approval_granted'', PBool approval_granted)] metadata) None None st)"

section \<open>The transport\<close>

definition SUPPORTED :: "string list" where "SUPPORTED = [''http'', ''stdio'', ''sse'']"

text \<open>A session over stdio or SSE has an answer to its \<open>initialize\<close> too.\<close>

definition session_result :: "pyval option \<Rightarrow> pyval \<Rightarrow> pyval result" where
  "session_result initialized answer =
     (case initialized of
        None \<Rightarrow> extract_mcp_result answer
      | Some i \<Rightarrow> (case extract_mcp_result i of Inl e \<Rightarrow> Inl e | Inr _ \<Rightarrow> extract_mcp_result answer))"

text \<open>\<open>MCPTransport.invoke\<close>: the signature first, then the exchange and the cap on its result.\<close>

definition enforced :: "bridge_env \<Rightarrow> mcp_server \<Rightarrow> unit result" where
  "enforced env sv =
     (if \<not> be_signing_enabled env then Inr ()
      else case be_signature env sv of
        Inl e \<Rightarrow> Inl e
      | Inr k \<Rightarrow> if sk_action k = ActDeny then Raise ''MCPSignatureError'' (signature_refusal sv (sk_verdict k)) else Inr ())"

definition transport_invoke :: "bridge_env \<Rightarrow> mcp_server \<Rightarrow> string \<Rightarrow> dict \<Rightarrow> bridge_state \<Rightarrow> pyval result \<times> bridge_state" where
  "transport_invoke env sv method params st =
     (case enforced env sv of
        Inl e \<Rightarrow> (Inl e, st)
      | Inr _ \<Rightarrow>
          if mc_transport sv \<notin> set SUPPORTED then
            (Raise ''ValueError'' (''MCP transport '' @ CHR 0x27 # mc_transport sv @ CHR 0x27 # '' is not implemented yet; supported transports: http, stdio, sse''), st)
          else
            (case be_exchange env sv method params of
               Inl e \<Rightarrow> Inl e
             | Inr (i, answer) \<Rightarrow> (case session_result i answer of Inl e \<Rightarrow> Inl e | Inr r \<Rightarrow> within_result_cap (be_codec env) sv r),
             trace (Contacted sv method params) st))"

section \<open>Listing a server's tools\<close>

fun coerce_all :: "mcp_server \<Rightarrow> dict list \<Rightarrow> mcp_tool_definition list result" where
  "coerce_all sv [] = Inr []"
| "coerce_all sv (d # ds) =
     (case coerce_external_tool_definition sv d of
        Inl e \<Rightarrow> Inl e
      | Inr t \<Rightarrow> (case coerce_all sv ds of Inl e \<Rightarrow> Inl e | Inr ts \<Rightarrow> Inr (t # ts)))"

definition tool_definitions :: "mcp_server \<Rightarrow> pyval result \<Rightarrow> mcp_tool_definition list result" where
  "tool_definitions sv res =
     (case res of
        Inl e \<Rightarrow> Inl e
      | Inr r \<Rightarrow> (case coerce_mcp_tools_payload r of Inl e \<Rightarrow> Inl e | Inr ds \<Rightarrow> coerce_all sv ds))"

definition list_external_tools ::
  "bridge_env \<Rightarrow> string \<Rightarrow> bool \<Rightarrow> dict \<Rightarrow> bridge_state \<Rightarrow> mcp_tool_definition list result \<times> bridge_state"
where
  "list_external_tools env server_name approval_granted metadata st =
     (case require_enabled_server env server_name of
        Inl e \<Rightarrow> (Inl e, st)
      | Inr sv \<Rightarrow>
     (case be_signature env sv of
        Inl e \<Rightarrow> (Inl e, st)
      | Inr k \<Rightarrow>
      if sk_action k = ActDeny then (Raise ''MCPSignatureError'' (signature_refusal sv (sk_verdict k)), st)
      else
     (case guard_mcp_action env ''invoke_server'' (mc_name sv) approval_granted (dmerge [(''method'', PStr ''tools/list'')] metadata) None None st of
        (Inl e, st1) \<Rightarrow> (Inl e, st1)
      | (Inr d, st1) \<Rightarrow>
      if \<not> gd_allowed d then (Inl (mcp_refusal d approval_granted), st1)
      else
     (let (res, st2) = transport_invoke env sv ''tools/list'' [] st1 in
      case tool_definitions sv res of
        Inl e \<Rightarrow> (Inl e, st2)
      | Inr ts \<Rightarrow> (Inr ts, st2\<lparr>br_listed := aset (mc_name sv) (map mt_name ts) (br_listed st2)\<rparr>)))))"

section \<open>The hooks around a call\<close>

record call_request =
  cq_tool :: string
  cq_args :: dict
  cq_approval_granted :: bool
  cq_persona :: "string option"
  cq_run_id :: "string option"
  cq_approved_by :: "string option"
  cq_call_id :: string

definition run_id_of :: "mcp_server \<Rightarrow> call_request \<Rightarrow> string" where
  "run_id_of sv rq = (if truthy_str (cq_run_id rq) then the (cq_run_id rq) else ''mcp-'' @ mc_name sv)"

definition route_of :: "mcp_server \<Rightarrow> string \<Rightarrow> string" where
  "route_of sv tool_name = ''mcp/'' @ mc_name sv @ CHR 0x2F # tool_name"

definition call_extra :: "mcp_server \<Rightarrow> string \<Rightarrow> signature_outcome \<Rightarrow> dict \<Rightarrow> dict" where
  "call_extra sv tool_name k digests =
     dmerge (dmerge [(''mcp_server'', PStr (mc_name sv)), (''mcp_tool'', PStr tool_name), (''tool_plugin'', PStr (''mcp:'' @ mc_name sv))] (row_fields k)) digests"

definition bridge_context :: "hook_point \<Rightarrow> mcp_server \<Rightarrow> call_request \<Rightarrow> dict \<Rightarrow> dict \<Rightarrow> hook_context" where
  "bridge_context point sv rq payload metadata =
     \<lparr>hc_hook_point = point, hc_run_id = run_id_of sv rq, hc_agent_type = ''mcp'', hc_step_id = None, hc_persona = cq_persona rq,
      hc_route = Some (route_of sv (cq_tool rq)), hc_payload = payload, hc_classification = None, hc_tier = None, hc_metadata = metadata\<rparr>"

definition pre_tool_context :: "bridge_env \<Rightarrow> mcp_server \<Rightarrow> signature_outcome \<Rightarrow> call_request \<Rightarrow> hook_context result" where
  "pre_tool_context env sv k rq =
     (case be_digest env of
        Inl e \<Rightarrow> Raise ''PermissionError'' (tool_label sv (cq_tool rq) @ '' refused: '' @ exn_msg e)
      | Inr (alg, dig) \<Rightarrow>
     (case pre_tool_payload (route_of sv (cq_tool rq)) (cq_args rq)
             (call_extra sv (cq_tool rq) k [(''args_digest'', PStr (dig (PDict (cq_args rq)))), (''digest_alg'', PStr alg)]) of
        Inl e \<Rightarrow> Inl e
      | Inr payload \<Rightarrow>
          Inr (bridge_context PRE_TOOL_USE sv rq payload
            ([(K_CALL_ID, PStr (cq_call_id rq)), (K_TOOL_CALL_ID, PStr (cq_call_id rq)),
              (K_TOOL_EFFECT, PStr (effect_text (effective_effect sv (cq_tool rq))))]
             @ (if truthy_str (cq_approved_by rq) then [(''approved_by'', opt_str (cq_approved_by rq))] else [])))))"

text \<open>One \<open>deny\<close> row before any hook, then the error.\<close>

definition refuse_before_hooks ::
  "bridge_env \<Rightarrow> mcp_server \<Rightarrow> signature_outcome \<Rightarrow> call_request \<Rightarrow> string \<Rightarrow> pyexn \<Rightarrow> bridge_state \<Rightarrow> pyexn \<times> bridge_state"
where
  "refuse_before_hooks env sv k rq plugin exc st =
     (if be_fire env = None then (exc, st)
      else case pre_tool_context env sv k rq of
        Inl e \<Rightarrow> (e, st)
      | Inr _ \<Rightarrow> (exc, trace (RecordedDenial plugin (exn_msg exc)) st))"

definition fire_governance_pre_tool ::
  "bridge_env \<Rightarrow> (hook_point \<Rightarrow> hook_context \<Rightarrow> hook_decision \<times> hook_context) \<Rightarrow> mcp_server \<Rightarrow> signature_outcome \<Rightarrow> call_request
    \<Rightarrow> bridge_state \<Rightarrow> dict result \<times> bridge_state"
where
  "fire_governance_pre_tool env fires sv k rq st =
     (case pre_tool_context env sv k rq of
        Inl e \<Rightarrow> (Inl e, st)
      | Inr ctx \<Rightarrow>
          let (d, final) = fires PRE_TOOL_USE ctx; st' = trace (Fired PRE_TOOL_USE ctx) st in
          (if hd_outcome d = Deny then Raise ''PermissionError'' (tool_label sv (cq_tool rq) @ '' blocked by governance: '' @ hd_reason d)
           else if hd_outcome d = RequireApproval then
             Raise ''PermissionError'' (tool_label sv (cq_tool rq) @ '' needs approval before it runs: '' @ hd_reason d)
           else Inr (case args_of (hc_payload final) of Some a \<Rightarrow> a | None \<Rightarrow> cq_args rq), st'))"

definition fire_governance_post_tool ::
  "bridge_env \<Rightarrow> (hook_point \<Rightarrow> hook_context \<Rightarrow> hook_decision \<times> hook_context) \<Rightarrow> mcp_server \<Rightarrow> signature_outcome \<Rightarrow> call_request
    \<Rightarrow> pyval \<Rightarrow> bridge_state \<Rightarrow> pyval result \<times> bridge_state"
where
  "fire_governance_post_tool env fires sv k rq res st =
     (case be_digest env of
        Inl e \<Rightarrow> (Inl e, st)
      | Inr (alg, dig) \<Rightarrow>
     (case post_tool_payload (route_of sv (cq_tool rq)) res
             (call_extra sv (cq_tool rq) k [(''result_digest'', PStr (dig res)), (''digest_alg'', PStr alg)]) of
        Inl e \<Rightarrow> (Inl e, st)
      | Inr payload \<Rightarrow>
          let ctx = bridge_context POST_TOOL_USE sv rq payload
                (tool_post_metadata (Some (effect_text (effective_effect sv (cq_tool rq)))) ''external'' None (Some (cq_call_id rq))
                   (if is_error_result res then Some ''ToolReportedError'' else None) None);
              (d, final) = fires POST_TOOL_USE ctx in
          (if stops (hd_outcome d) then
             Raise ''PermissionError'' (tool_label sv (cq_tool rq) @ '' result withheld by governance: '' @ hd_reason d)
           else Inr (result_of (hc_payload final)), trace (Fired POST_TOOL_USE ctx) st)))"


section \<open>A call\<close>

record invocation_result =
  ir_server :: string
  ir_tool :: string
  ir_args :: dict
  ir_decision :: guard_decision
  ir_result :: pyval

text \<open>A name nobody declared must be one the server lists: a server this bridge has not listed is listed first.\<close>

definition ensure_known_tool ::
  "bridge_env \<Rightarrow> mcp_server \<Rightarrow> signature_outcome \<Rightarrow> call_request \<Rightarrow> bridge_state \<Rightarrow> unit result \<times> bridge_state"
where
  "ensure_known_tool env sv k rq st =
     (let (listing, st1) =
        (if declared_effect sv (cq_tool rq) = None \<and> map_of (br_listed st) (mc_name sv) = None
         then list_external_tools env (mc_name sv) (cq_approval_granted rq) [] st else (Inr [], st)) in
      case listing of
        Inl e \<Rightarrow>
          (let (e', st2) = refuse_before_hooks env sv k rq ''mcp_undeclared_tool''
             (PyExn (if exn_class e = ''MCPApprovalRequired'' then ''MCPApprovalRequired'' else ''MCPUndeclaredToolError'')
               (listing_failed_refusal sv (cq_tool rq) e)) st1 in (Inl e', st2))
      | Inr _ \<Rightarrow>
          if \<not> is_known_tool st1 sv (cq_tool rq) then
            (let (e', st2) = refuse_before_hooks env sv k rq ''mcp_undeclared_tool''
               (PyExn ''MCPUndeclaredToolError'' (undeclared_tool_refusal sv (cq_tool rq))) st1 in (Inl e', st2))
          else (Inr (), st1))"

text \<open>The call itself, by the executor that stands in for the transport or by the transport.\<close>

definition run_call ::
  "bridge_env \<Rightarrow> (mcp_server \<Rightarrow> string \<Rightarrow> dict \<Rightarrow> pyval result) option \<Rightarrow> mcp_server \<Rightarrow> string \<Rightarrow> dict \<Rightarrow> bridge_state \<Rightarrow> pyval result \<times> bridge_state"
where
  "run_call env executor sv tool_name call_arguments st =
     (case executor of
        Some run \<Rightarrow>
          (case enforced env sv of
             Inl e \<Rightarrow> (Inl e, st)
           | Inr _ \<Rightarrow> (run sv tool_name call_arguments, trace (Executed sv tool_name call_arguments) st))
      | None \<Rightarrow>
          transport_invoke env sv ''tools/call'' [(''name'', PStr tool_name), (''arguments'', PDict call_arguments)] st)"

definition governed_call ::
  "bridge_env \<Rightarrow> (mcp_server \<Rightarrow> string \<Rightarrow> dict \<Rightarrow> pyval result) option \<Rightarrow> mcp_server \<Rightarrow> signature_outcome \<Rightarrow> call_request \<Rightarrow> dict
    \<Rightarrow> bridge_state \<Rightarrow> invocation_result result \<times> bridge_state"
where
  "governed_call env executor sv k rq call_arguments st =
     (case guard_mcp_action env ''call_tool'' (mc_name sv) (cq_approval_granted rq)
             [(''tool_name'', PStr (cq_tool rq)), (''arguments'', PDict (cq_args rq))] (Some (run_id_of sv rq)) (Some (cq_call_id rq)) st of
        (Inl e, st1) \<Rightarrow> (Inl e, st1)
      | (Inr d, st1) \<Rightarrow>
      if \<not> gd_allowed d then (Inl (mcp_refusal d (cq_approval_granted rq)), st1)
      else
     (case run_call env executor sv (cq_tool rq) call_arguments st1 of
        (Inl e, st2) \<Rightarrow> (Inl e, st2)
      | (Inr res, st2) \<Rightarrow>
     (let (res', st3) = (case be_fire env of None \<Rightarrow> (Inr res, st2) | Some fires \<Rightarrow> fire_governance_post_tool env fires sv k rq res st2) in
      case res' of
        Inl e \<Rightarrow> (Inl e, st3)
      | Inr r \<Rightarrow> (Inr \<lparr>ir_server = mc_name sv, ir_tool = cq_tool rq, ir_args = cq_args rq, ir_decision = d, ir_result = r\<rparr>, st3))))"

text \<open>The hooks before the call, when there is a kernel; the arguments they leave.\<close>

definition pre_step ::
  "bridge_env \<Rightarrow> mcp_server \<Rightarrow> signature_outcome \<Rightarrow> call_request \<Rightarrow> bridge_state \<Rightarrow> dict result \<times> bridge_state"
where
  "pre_step env sv k rq st =
     (case be_fire env of None \<Rightarrow> (Inr (cq_args rq), st) | Some fires \<Rightarrow> fire_governance_pre_tool env fires sv k rq st)"

definition invoke_external_tool ::
  "bridge_env \<Rightarrow> (mcp_server \<Rightarrow> string \<Rightarrow> dict \<Rightarrow> pyval result) option \<Rightarrow> string \<Rightarrow> call_request \<Rightarrow> bridge_state
    \<Rightarrow> invocation_result result \<times> bridge_state"
where
  "invoke_external_tool env executor server_name rq st0 =
     (case require_enabled_server env server_name of
        Inl e \<Rightarrow> (Inl e, st0)
      | Inr sv \<Rightarrow>
      let st = st0\<lparr>br_calls := snd (register_call (cq_call_id rq) None (br_calls st0))\<rparr> in
     (case be_signature env sv of
        Inl e \<Rightarrow> (Inl e, st)
      | Inr k \<Rightarrow>
      if sk_action k = ActDeny then
        (let (e, st1) = refuse_before_hooks env sv k rq ''mcp_signature'' (PyExn ''MCPSignatureError'' (signature_refusal sv (sk_verdict k))) st in
         (Inl e, st1))
      else
     (case ensure_known_tool env sv k rq st of
        (Inl e, st1) \<Rightarrow> (Inl e, st1)
      | (Inr _, st1) \<Rightarrow>
     (case pre_step env sv k rq st1 of
        (Inl e, st2) \<Rightarrow> (Inl e, st2)
      | (Inr call_arguments, st2) \<Rightarrow> governed_call env executor sv k rq call_arguments st2))))"

section \<open>Only the argument approves\<close>

text \<open>What the governor reads as consent is the argument alone, whatever the metadata of a request holds.\<close>

lemma only_the_argument_approves: "has_approval_flag (mcp_metadata name approval metadata) \<longleftrightarrow> approval"
proof -
  have "dget (mcp_metadata name approval metadata) ''approved'' = PNone"
  proof -
    have "\<not> dhas (filter (\<lambda>kv. fst kv \<notin> set APPROVAL_KEYS) metadata) ''approved''"
      by (auto simp: dhas_def map_of_eq_None_iff APPROVAL_KEYS_def)
    then show ?thesis by (simp add: mcp_metadata_def dget_dmerge_other) (simp add: dget_def)
  qed
  moreover have "dget (mcp_metadata name approval metadata) ''approval_granted'' = PBool approval"
    by (simp add: mcp_metadata_def)
  ultimately show ?thesis by (simp add: has_approval_flag_def)
qed

section \<open>Every gate is passed\<close>

definition is_call :: "bridge_event \<Rightarrow> bool" where
  "is_call e = (case e of Executed _ _ _ \<Rightarrow> True | Contacted _ method _ \<Rightarrow> method = ''tools/call'' | _ \<Rightarrow> False)"

text \<open>Nothing is called, and the governor's routes stay.\<close>

definition quiet :: "bridge_state \<Rightarrow> bridge_state \<Rightarrow> bool" where
  "quiet st st' \<longleftrightarrow> (\<exists>new. br_trace st' = br_trace st @ new \<and> list_all (\<lambda>e. \<not> is_call e) new)
     \<and> gs_routes (br_governor st') = gs_routes (br_governor st)"

lemma quiet_refl [simp]: "quiet st st"
  by (simp add: quiet_def)

lemma quiet_trans [trans]: "quiet a b \<Longrightarrow> quiet b c \<Longrightarrow> quiet a c"
  by (auto simp: quiet_def) 

lemma quiet_trace: "\<not> is_call e \<Longrightarrow> quiet st (trace e st)"
  by (simp add: quiet_def trace_def)

lemma quiet_listed [simp]: "quiet st (st'\<lparr>br_listed := l\<rparr>) \<longleftrightarrow> quiet st st'"
  by (simp add: quiet_def)

lemma guard_routes: "gs_routes (snd (guard float route payload identity env g)) = gs_routes g"
  by (auto simp: guard_def Let_def split: sum.splits prod.splits)

lemma guard_mcp_quiet: "guard_mcp_action env action name approval metadata rid cid st = (d, st') \<Longrightarrow> quiet st st' \<and> br_listed st' = br_listed st"
  using guard_routes by (auto simp: guard_mcp_action_def quiet_def Let_def split: prod.splits) (metis snd_conv)

lemma transport_cases:
  "transport_invoke env sv method params st = (r, st') \<Longrightarrow> st' = st \<or> enforced env sv = Inr () \<and> st' = trace (Contacted sv method params) st"
  by (auto simp: transport_invoke_def split: sum.splits if_splits)

lemma listing_quiet: "list_external_tools env name approval metadata st = (r, st') \<Longrightarrow> quiet st st'"
proof -
  assume l: "list_external_tools env name approval metadata st = (r, st')"
  have t: "quiet st2 st3" if "transport_invoke env sv ''tools/list'' [] st2 = (x, st3)" for sv st2 x st3
    using transport_cases [OF that] by (auto intro: quiet_trace simp: is_call_def)
  show ?thesis using l
    by (auto simp: list_external_tools_def Let_def split: sum.splits prod.splits if_splits dest!: guard_mcp_quiet t intro: quiet_trans)
qed

lemma refuse_quiet: "refuse_before_hooks env sv k rq plugin exc st = (e, st') \<Longrightarrow> quiet st st'"
  by (auto simp: refuse_before_hooks_def quiet_trace is_call_def split: sum.splits if_splits)

lemma ensure_known:
  "ensure_known_tool env sv k rq st = (r, st') \<Longrightarrow> quiet st st' \<and> (r = Inr () \<longrightarrow> is_known_tool st' sv (cq_tool rq))"
proof -
  assume e: "ensure_known_tool env sv k rq st = (r, st')"
  obtain listing st1 where l: "(if declared_effect sv (cq_tool rq) = None \<and> map_of (br_listed st) (mc_name sv) = None
      then list_external_tools env (mc_name sv) (cq_approval_granted rq) [] st else (Inr [], st)) = (listing, st1)" by (metis surj_pair)
  then have q: "quiet st st1" using listing_quiet by (auto split: if_splits)
  show ?thesis using e q refuse_quiet quiet_trans
    by (auto simp: ensure_known_tool_def l split: sum.splits prod.splits if_splits)
qed

text \<open>The owner's policy for the route, read on the call's own approval.\<close>

definition policy_lets_call :: "route_policy list \<Rightarrow> bool \<Rightarrow> bool" where
  "policy_lets_call routes approval \<longleftrightarrow>
     (\<exists>p. match_route routes ''coding/mcp'' = Some p \<and> (gp_allowed_actions p = [] \<or> ''call_tool'' \<in> set (gp_allowed_actions p))
        \<and> (gp_requires_approval p \<longrightarrow> approval))"

lemma evaluated_policy:
  "gd_allowed (policy_evaluate routes rq (match_route routes (gr_route rq))) \<Longrightarrow>
     \<exists>p. match_route routes (gr_route rq) = Some p \<and> (gp_allowed_actions p = [] \<or> gr_action rq \<in> set (gp_allowed_actions p))
       \<and> (gp_requires_approval p \<longrightarrow> has_approval_flag (gr_metadata rq))"
  by (auto simp: policy_evaluate_def decide_def split: option.splits if_splits)

lemma guard_allowed:
  assumes "guard_mcp_action env ''call_tool'' name approval metadata rid cid st = (Inr d, st')" and "gd_allowed d"
  shows "policy_lets_call (gs_routes (br_governor st)) approval"
proof -
  let ?m = "mcp_metadata name approval metadata"
  let ?rq = "\<lparr>gr_route = ''coding/mcp'', gr_action = ''call_tool'', gr_metadata = ?m, gr_cost_estimate_usd = None\<rparr>"
  have sp: "strip ''coding/mcp'' = ''coding/mcp''" "strip ''call_tool'' = ''call_tool''" by code_simp+
  have rq: "coerce_guard_request (be_float env) ''coding/mcp'' [(''action'', PStr ''call_tool''), (''metadata'', PDict ?m)] = Inr ?rq"
    by (simp add: coerce_guard_request_def guard_metadata_def guard_action_def cost_of_def sp dget_def dhas_def py_str_def Let_def)
  have "gd_allowed (policy_evaluate (gs_routes (br_governor st)) ?rq (match_route (gs_routes (br_governor st)) (gr_route ?rq)))"
    using assms by (auto simp: guard_mcp_action_def guard_def rq Let_def limited_def split: sum.splits prod.splits option.splits if_splits)
  from evaluated_policy [OF this] show ?thesis
    by (auto simp: policy_lets_call_def only_the_argument_approves)
qed

text \<open>The arguments a call goes out with: as the hooks left them, or as they came when there is no kernel.\<close>

definition passed_hooks :: "bridge_env \<Rightarrow> mcp_server \<Rightarrow> signature_outcome \<Rightarrow> call_request \<Rightarrow> dict \<Rightarrow> bool" where
  "passed_hooks env sv k rq a \<longleftrightarrow>
     (case be_fire env of
        None \<Rightarrow> a = cq_args rq
      | Some fires \<Rightarrow> \<exists>ctx. pre_tool_context env sv k rq = Inr ctx \<and> \<not> stops (hd_outcome (fst (fires PRE_TOOL_USE ctx)))
          \<and> a = (case args_of (hc_payload (snd (fires PRE_TOOL_USE ctx))) of Some x \<Rightarrow> x | None \<Rightarrow> cq_args rq))"

lemma pre_step_passed:
  "pre_step env sv k rq st = (r, st') \<Longrightarrow> quiet st st' \<and> (\<forall>a. r = Inr a \<longrightarrow> passed_hooks env sv k rq a)"
  by (auto simp: pre_step_def passed_hooks_def fire_governance_pre_tool_def Let_def quiet_trace is_call_def stops_def
    split: option.splits sum.splits prod.splits if_splits)

text \<open>The call event of a request on a server, and what the trace gains.\<close>

definition call_event :: "mcp_server \<Rightarrow> string \<Rightarrow> dict \<Rightarrow> bridge_event \<Rightarrow> bool" where
  "call_event sv t a e \<longleftrightarrow> e = Executed sv t a \<or> e = Contacted sv ''tools/call'' [(''name'', PStr t), (''arguments'', PDict a)]"

definition gained :: "bridge_state \<Rightarrow> bridge_state \<Rightarrow> bridge_event list" where
  "gained st st' = drop (length (br_trace st)) (br_trace st')"

lemma run_call_cases:
  "run_call env executor sv t a st = (r, st') \<Longrightarrow> st' = st \<or> enforced env sv = Inr () \<and> (\<exists>e. call_event sv t a e \<and> st' = trace e st)"
  by (auto simp: run_call_def call_event_def dest!: transport_cases split: option.splits sum.splits)

lemma post_quiet: "fire_governance_post_tool env fires sv k rq res st = (r, st') \<Longrightarrow> quiet st st'"
  by (auto simp: fire_governance_post_tool_def Let_def quiet_trace is_call_def split: sum.splits prod.splits)

lemma quiet_gained: "quiet st st' \<Longrightarrow> e \<in> set (gained st st') \<Longrightarrow> \<not> is_call e"
  by (auto simp: quiet_def gained_def list_all_iff)

lemma call_event_is_call: "call_event sv t a e \<Longrightarrow> is_call e"
  by (auto simp: call_event_def is_call_def)

lemma governed_call_gains:
  assumes g: "governed_call env executor sv k rq a st = (r, st')"
  shows "quiet st st' \<or> policy_lets_call (gs_routes (br_governor st)) (cq_approval_granted rq) \<and> enforced env sv = Inr ()
    \<and> (\<exists>e pre post. call_event sv (cq_tool rq) a e \<and> br_trace st' = br_trace st @ pre @ e # post
         \<and> list_all (\<lambda>e. \<not> is_call e) pre \<and> list_all (\<lambda>e. \<not> is_call e) post)"
proof -
  obtain d st1 where d: "guard_mcp_action env ''call_tool'' (mc_name sv) (cq_approval_granted rq)
      [(''tool_name'', PStr (cq_tool rq)), (''arguments'', PDict (cq_args rq))] (Some (run_id_of sv rq)) (Some (cq_call_id rq)) st = (d, st1)"
    by (metis surj_pair)
  have q1: "quiet st st1" using guard_mcp_quiet [OF d] by simp
  show ?thesis
  proof (cases "\<exists>x. d = Inr x \<and> gd_allowed x")
    case False
    then have "st' = st1" using g d by (auto simp: governed_call_def split: sum.splits if_splits)
    then show ?thesis using q1 by simp
  next
    case True
    then obtain x where x: "d = Inr x" "gd_allowed x" by blast
    have policy: "policy_lets_call (gs_routes (br_governor st)) (cq_approval_granted rq)" using guard_allowed d x by blast
    obtain res st2 where c: "run_call env executor sv (cq_tool rq) a st1 = (res, st2)" by (metis surj_pair)
    have q3: "quiet st2 st'" using g d x c post_quiet
      by (auto simp: governed_call_def Let_def split: sum.splits prod.splits option.splits if_splits)
    from run_call_cases [OF c] show ?thesis
    proof
      assume "st2 = st1"
      then show ?thesis using q1 q3 quiet_trans by blast
    next
      assume "enforced env sv = Inr () \<and> (\<exists>e. call_event sv (cq_tool rq) a e \<and> st2 = trace e st1)"
      then obtain e where e: "enforced env sv = Inr ()" "call_event sv (cq_tool rq) a e" "st2 = trace e st1" by blast
      obtain pre where "br_trace st1 = br_trace st @ pre" "list_all (\<lambda>e. \<not> is_call e) pre" using q1 by (auto simp: quiet_def)
      moreover obtain post where "br_trace st' = br_trace st2 @ post" "list_all (\<lambda>e. \<not> is_call e) post" using q3 by (auto simp: quiet_def)
      ultimately show ?thesis using e policy by (auto simp: trace_def)
    qed
  qed
qed

lemma governed_call_listed: "governed_call env executor sv k rq a st = (r, st') \<Longrightarrow> br_listed st' = br_listed st"
  by (auto simp: governed_call_def fire_governance_post_tool_def trace_def Let_def split: sum.splits prod.splits option.splits if_splits
    dest!: guard_mcp_quiet run_call_cases)

lemma pre_step_listed: "pre_step env sv k rq st = (r, st') \<Longrightarrow> br_listed st' = br_listed st"
  by (auto simp: pre_step_def fire_governance_pre_tool_def trace_def Let_def split: option.splits sum.splits prod.splits if_splits)

lemma quiet_no_calls: "quiet st st' \<Longrightarrow> filter is_call (gained st st') = []"
  using quiet_gained by (simp add: filter_empty_conv)

text \<open>C36. A call reaches an external server only through every gate, and at most once. When a call of the bridge contacts a server, or
  runs the executor in its place, the bridge and the server are enabled, the policy on the server's signature does not deny, the
  tool is one the operator declared or the server listed, the kernel's hooks before the call did not stop it and the
  arguments sent are those they left, and the owner's policy for the route lets the action through, on the approval given
  with the call itself.\<close>

theorem external_call_passes_every_gate:
  assumes "invoke_external_tool env executor name rq st = (r, st')"
  shows "filter is_call (gained st st') = [] \<or>
    (\<exists>sv k a e. filter is_call (gained st st') = [e] \<and> call_event sv (cq_tool rq) a e
       \<and> require_enabled_server env name = Inr sv
       \<and> be_signature env sv = Inr k \<and> sk_action k \<noteq> ActDeny
       \<and> is_known_tool st' sv (cq_tool rq)
       \<and> passed_hooks env sv k rq a
       \<and> policy_lets_call (gs_routes (br_governor st)) (cq_approval_granted rq))"
proof -
  define s1 where "s1 = st\<lparr>br_calls := snd (register_call (cq_call_id rq) None (br_calls st))\<rparr>"
  have q1: "quiet st s1" by (simp add: s1_def quiet_def)
  show ?thesis
  proof (cases "\<exists>sv k s2 s3 a. require_enabled_server env name = Inr sv \<and> be_signature env sv = Inr k \<and> sk_action k \<noteq> ActDeny
      \<and> ensure_known_tool env sv k rq s1 = (Inr (), s2) \<and> pre_step env sv k rq s2 = (Inr a, s3)")
    case False
    with assms have "quiet s1 st' \<or> st' = st"
      by (auto simp: invoke_external_tool_def s1_def [symmetric] Let_def split: sum.splits prod.splits if_splits
        dest!: refuse_quiet ensure_known pre_step_passed intro: quiet_trans)
    then have "quiet st st'" using quiet_trans [OF q1] by auto
    then show ?thesis using quiet_no_calls by blast
  next
    case True
    then obtain sv k s2 s3 a where v: "require_enabled_server env name = Inr sv" "be_signature env sv = Inr k" "sk_action k \<noteq> ActDeny"
      "ensure_known_tool env sv k rq s1 = (Inr (), s2)" "pre_step env sv k rq s2 = (Inr a, s3)" by blast
    have g: "governed_call env executor sv k rq a s3 = (r, st')"
      using assms v by (simp add: invoke_external_tool_def s1_def [symmetric] Let_def)
    have q: "quiet st s3" using q1 ensure_known [OF v(4)] pre_step_passed [OF v(5)] quiet_trans by blast
    have known: "is_known_tool st' sv (cq_tool rq)"
      using ensure_known [OF v(4)] governed_call_listed [OF g] pre_step_listed [OF v(5)] by (simp add: is_known_tool_def)
    have hooks: "passed_hooks env sv k rq a" using pre_step_passed [OF v(5)] by simp
    from governed_call_gains [OF g] show ?thesis
    proof
      assume "quiet s3 st'"
      then show ?thesis using quiet_no_calls quiet_trans q by blast
    next
      assume "policy_lets_call (gs_routes (br_governor s3)) (cq_approval_granted rq) \<and> enforced env sv = Inr ()
        \<and> (\<exists>e pre post. call_event sv (cq_tool rq) a e \<and> br_trace st' = br_trace s3 @ pre @ e # post
             \<and> list_all (\<lambda>e. \<not> is_call e) pre \<and> list_all (\<lambda>e. \<not> is_call e) post)"
      then obtain e pre post where e: "policy_lets_call (gs_routes (br_governor s3)) (cq_approval_granted rq)" "call_event sv (cq_tool rq) a e"
        "br_trace st' = br_trace s3 @ pre @ e # post" "list_all (\<lambda>e. \<not> is_call e) pre" "list_all (\<lambda>e. \<not> is_call e) post" by blast
      obtain new where new: "br_trace s3 = br_trace st @ new" "list_all (\<lambda>e. \<not> is_call e) new" "gs_routes (br_governor s3) = gs_routes (br_governor st)"
        using q by (auto simp: quiet_def)
      have "filter is_call (gained st st') = [e]"
        using e new call_event_is_call [OF e(2)] by (simp add: gained_def list_all_iff)
      then show ?thesis using e v known hooks new by auto
    qed
  qed
qed


text \<open>A call that goes out: an owner who approves, a server that listed the tool.\<close>

definition sample_bridge :: bridge_env where
  "sample_bridge = \<lparr>be_enabled = True, be_servers = [sample_server [''files-server@1.2.3'']],
     be_signature = (\<lambda>_. Inr \<lparr>sk_verdict = signature_verdict_of Verified ''signature verified'' (Some ''ops''), sk_action = ActAllow, sk_enabled = True,
       sk_spec_sha256 = ''00''\<rparr>),
     be_fire = None, be_digest = Raise ''AuditKeyUnavailable'' ''no key'', be_signing_enabled = True,
     be_exchange = (\<lambda>_ _ _. Inr (None, PDict [(''result'', PStr ''ok'')])), be_codec = ascii_codec, be_float = (\<lambda>_. None),
     be_guard = \<lparr>gv_clock = 0, gv_now = 0, gv_ulid = ''u'', gv_log_fault = False\<rparr>, be_session = None\<rparr>"

definition sample_state :: bridge_state where
  "sample_state = \<lparr>br_listed = [(''files'', [''read_file''])],
     br_governor = \<lparr>gs_routes = [\<lparr>gp_route = ''coding/mcp'', gp_allowed_actions = [], gp_requires_approval = True, gp_rate_limit = None\<rparr>],
       gs_buckets = [], gs_log = \<lparr>gl_rows = [], gl_has_identity = True\<rparr>\<rparr>,
     br_calls = \<lparr>cs_current = None, cs_calls = [], cs_resumed_runs = []\<rparr>, br_trace = []\<rparr>"

definition sample_request :: call_request where
  "sample_request = \<lparr>cq_tool = ''read_file'', cq_args = [(''path'', PStr ''a'')], cq_approval_granted = True, cq_persona = None, cq_run_id = None,
     cq_approved_by = None, cq_call_id = ''c1''\<rparr>"

lemma sample_call: "filter is_call (gained sample_state (snd (invoke_external_tool sample_bridge None ''files'' sample_request sample_state))) \<noteq> []"
proof -
  let ?sv = "sample_server [''files-server@1.2.3'']"
  have sv: "mc_name ?sv = ''files''" "mc_enabled ?sv" "mc_governance ?sv = None" by (simp_all add: sample_server_def)
  have req: "require_enabled_server sample_bridge ''files'' = Inr ?sv" by (simp add: require_enabled_server_def sample_bridge_def sv)
  obtain k where k: "be_signature sample_bridge ?sv = Inr k" "sk_action k = ActAllow" by (simp add: sample_bridge_def)
  have known: "ensure_known_tool sample_bridge ?sv k sample_request st = (Inr (), st)" if "br_listed st = [(''files'', [''read_file''])]" for st
    using that by (simp add: ensure_known_tool_def is_known_tool_def declared_effect_def sv sample_request_def)
  have pre: "pre_step sample_bridge ?sv k sample_request st = (Inr (cq_args sample_request), st)" for st
    by (simp add: pre_step_def sample_bridge_def)
  have en: "enforced sample_bridge ?sv = Inr ()" using k by (simp add: enforced_def)
  let ?m = "mcp_metadata ''files'' True [(''tool_name'', PStr ''read_file''), (''arguments'', PDict [(''path'', PStr ''a'')])]"
  have sp: "strip ''coding/mcp'' = ''coding/mcp''" "strip ''call_tool'' = ''call_tool''" by code_simp+
  have rq: "coerce_guard_request fl ''coding/mcp'' [(''action'', PStr ''call_tool''), (''metadata'', PDict ?m)]
    = Inr \<lparr>gr_route = ''coding/mcp'', gr_action = ''call_tool'', gr_metadata = ?m, gr_cost_estimate_usd = None\<rparr>" for fl
    by (simp add: coerce_guard_request_def guard_metadata_def guard_action_def cost_of_def sp dget_def dhas_def py_str_def Let_def)
  define st where "st = sample_state\<lparr>br_calls := snd (register_call ''c1'' None (br_calls sample_state))\<rparr>"
  have st: "br_listed st = [(''files'', [''read_file''])]" "br_governor st = br_governor sample_state" "br_trace st = []"
    by (simp_all add: st_def sample_state_def)
  have gov: "gd_allowed (policy_evaluate (gs_routes (br_governor st))
      \<lparr>gr_route = ''coding/mcp'', gr_action = ''call_tool'', gr_metadata = ?m, gr_cost_estimate_usd = None\<rparr>
      (match_route (gs_routes (br_governor st)) ''coding/mcp''))"
    by (simp add: st sample_state_def match_route_def route_matches_def policy_evaluate_def decide_def only_the_argument_approves)
  obtain d g where d: "guard_mcp_action sample_bridge ''call_tool'' ''files'' True
      [(''tool_name'', PStr ''read_file''), (''arguments'', PDict [(''path'', PStr ''a'')])] (Some ''mcp-files'') (Some ''c1'') st = (Inr d, g)"
      "gd_allowed d" "br_trace g = []"
    using gov by (simp add: guard_mcp_action_def guard_def rq Let_def record_decision_def st sample_state_def match_route_def route_matches_def
      rate_evaluate_def sample_bridge_def split: prod.splits)
  have nf: "be_fire sample_bridge = None" by (simp add: sample_bridge_def)
  have "snd (invoke_external_tool sample_bridge None ''files'' sample_request sample_state)
      = trace (Contacted ?sv ''tools/call'' [(''name'', PStr ''read_file''), (''arguments'', PDict [(''path'', PStr ''a'')])]) g"
    using d k known [OF st(1)] pre en
    by (auto simp: invoke_external_tool_def req st_def [symmetric] nf governed_call_def run_call_def transport_invoke_def sv run_id_of_def truthy_str_def
        SUPPORTED_def sample_request_def split: sum.splits prod.splits)
  then show ?thesis using d(3) by (simp add: gained_def trace_def sample_state_def is_call_def)
qed

theorem external_call_passes_every_gate_witness:
  "\<exists>sv k a e. filter is_call (gained sample_state (snd (invoke_external_tool sample_bridge None ''files'' sample_request sample_state))) = [e]
     \<and> call_event sv (cq_tool sample_request) a e \<and> require_enabled_server sample_bridge ''files'' = Inr sv
     \<and> be_signature sample_bridge sv = Inr k \<and> sk_action k \<noteq> ActDeny
     \<and> is_known_tool (snd (invoke_external_tool sample_bridge None ''files'' sample_request sample_state)) sv (cq_tool sample_request)
     \<and> passed_hooks sample_bridge sv k sample_request a
     \<and> policy_lets_call (gs_routes (br_governor sample_state)) (cq_approval_granted sample_request)"
proof -
  note sample_call
  with external_call_passes_every_gate [OF surjective_pairing [of "invoke_external_tool sample_bridge None ''files'' sample_request sample_state"]]
  show ?thesis by blast
qed

end
