(* ===== verification/Spec2Isabelle.thy ===== *)
theory Spec2Isabelle
  imports Kernel_Dispatch Kernel_Ledger Egress Tool_Policy Side_Effects Bots Devices Governor Cost
    Command_Sandbox FS_Jail Network_Egress Evaluator Judge Plugin_Egress Content_Floor Reentry MCP_Bridge Wiring
begin

text \<open>
  A verification development for the governance kernel of evarness, an agent harness: the layer every model call, tool
  call and request of an agent goes through before it takes effect. Paths below are relative to
  \<open>src/src/evarness/kernel\<close>.

  \<^bold>\<open>The program.\<close> The kernel (\<open>governance/kernel.py\<close>) holds, per hook point, a list of hooks in the order of their
  priorities. \<open>fire\<close> asks them one after the other about a call, rebinds the call with what a hook returns, writes one
  audit row per hook asked, and stops at the first that denies, asks for approval or raises. The hooks are the plugins
  under \<open>governance/plugins\<close>; several own a store of their own (approvals, side effects, bots, costs). The audit log
  (\<open>governance/audit\<close>) numbers its rows per writer and spools a row the database refuses. The wiring
  (\<open>governance/wiring.py\<close>) reads the environment and builds the default kernel. Beside the kernel stand the approval
  service, the device registry and the governor (\<open>governor/\<close>), which rates and records the requests of a route.

  \<^bold>\<open>Reading the model.\<close> A Python value that the code passes around untyped is a value of the datatype \<open>pyval\<close>, a
  dictionary an association list in insertion order. An exception is \<open>Inl\<close> of its class and message. A hook is a record
  with a name, a priority and a function of call context and world state; the state is the type variable \<open>'s\<close>, so that
  one kernel model carries any set of stores, and a component's hook reaches its store through a getter and a setter.
  A clock reading, a random identifier, an error of the database or of the file system and the answer of code outside the
  repository are arguments, so that every theorem holds for all of them. Numbers of money and of tokens are rationals
  where the code rounds only for display; the rounding function is an argument where the code's result depends on it.

  \<^bold>\<open>Theories, in the order they build on one another.\<close>

  \<^item> \<open>Prelude\<close>: Python values, strings, dictionaries, exceptions. \<open>Interfaces\<close>: the contracts as locales: an invariant
    that every operation keeps, a view that is frozen once it is final, an operation that succeeds at most once, a log
    that only grows, a join of labels. Each is interpreted on the step functions of the components below.
    \<open>Globs\<close>, \<open>Paths\<close>, \<open>Urls\<close>: \<open>fnmatch\<close>, \<open>pathlib\<close> with \<open>realpath\<close>, and \<open>urllib.parse\<close> of the standard library.
  \<^item> \<open>Hook_Types\<close> (\<open>hooks/types.py\<close>, \<open>hooks/tool_payload.py\<close>), \<open>Call_Context\<close> (\<open>call_context.py\<close>) and \<open>Kernel\<close>
    (\<open>kernel.py\<close>): the vocabulary, the lineage of nested calls, registration, locking and \<open>fire\<close>.
    \<open>Kernel_Dispatch\<close>: what \<open>fire\<close> guarantees for any hooks: an allow means that every hook was asked and none objected,
    the chain stops at an objection, the declarations reach every hook unchanged, rows carry only listed keys and an
    identity that no payload can forge.
  \<^item> \<open>Audit_Sequence\<close>, \<open>Audit_Spool\<close>, \<open>Audit_Log\<close> (\<open>audit/sequence.py\<close>, \<open>spool.py\<close>, \<open>log.py\<close>, \<open>write_health.py\<close>): the
    counters, the spool file with its JSON lines, the table with its drain and compaction, under every fault a step can
    meet. \<open>Audit_Durability\<close>: single operations. \<open>Audit_Accounting\<close> and \<open>Audit_Ledger\<close>: all runs, with forks and other
    processes; every number is accounted for. \<open>Kernel_Ledger\<close>: the kernel writing into this log.
  \<^item> \<open>Approvals_Store\<close>, \<open>Approvals\<close>, \<open>Approvals_Service\<close> (\<open>approvals/store.py\<close>, \<open>schema.sql\<close>, \<open>queue.py\<close>, \<open>gate.py\<close>,
    \<open>service.py\<close>): rows, answers, claims and the lapse sweep; a decision is final and a claim is won once; the gate's
    polling ends. \<open>Destructive_Approval\<close> (\<open>plugins/destructive_approval.py\<close>): the hook that holds high-risk calls.
  \<^item> \<open>Classification\<close> (\<open>hooks/result_text.py\<close>, \<open>plugins/classifier.py\<close>, \<open>plugins/output_classifier.py\<close>,
    \<open>turn_label.py\<close>) and \<open>Egress\<close> (\<open>egress_policy.py\<close>, \<open>plugins/egress_gate.py\<close>): labels and where they may go.
  \<^item> \<open>Tool_Policy\<close> (\<open>plugins/tool_policy.py\<close>, \<open>caller_policy.py\<close>, \<open>taint_policy.py\<close>), \<open>Side_Effects\<close>
    (\<open>side_effects/store.py\<close> and the two ledger hooks), \<open>Bots\<close> (\<open>bots/\<close>, \<open>plugins/bot_status.py\<close>), \<open>Devices\<close>
    (\<open>devices/\<close>), \<open>Governor\<close> (\<open>governor/\<close>), \<open>Cost\<close> (\<open>cost/\<close>, \<open>plugins/cost_limiter.py\<close>).
  \<^item> \<open>Persona\<close> (\<open>plugins/persona_surface.py\<close>, \<open>plugins/mcp_allowlist.py\<close>) with the locale \<open>refusing_guard\<close> of the
    guards that answer and never rewrite; \<open>Command_Sandbox\<close>, \<open>FS_Jail\<close>, \<open>Network_Egress\<close> (the plugins of these names)
    interpret it.
  \<^item> \<open>Evaluator_Signals\<close>, \<open>Evaluator\<close> (\<open>evaluator/\<close>): the seven signals over a step, the store of drift exemptions, the
    registry, the remote client, the hook after a step and the registry the wiring builds; a run that goes on is not stuck
    and a drifting thought needs a grant. \<open>Judge\<close> (\<open>evaluator/judge.py\<close>, \<open>judge_template.py\<close>): the verdict on a finished trace.
  \<^item> \<open>Texts\<close>: \<open>str\<close> operations of the standard library. \<open>Plugin_Egress\<close> (\<open>plugin_egress.py\<close>, \<open>public_suffix.py\<close>,
    \<open>plugins/plugin_egress.py\<close>, \<open>plugins/mcp_client_egress.py\<close>): the hosts a plugin declares, and what leaves to an MCP client.
  \<^item> \<open>External_Content\<close> (\<open>external_content.py\<close>): the tripwire over third-party text, its redaction and the envelope.
    \<open>Content_Allow\<close> (\<open>external_content_allow.py\<close>): the owner's allow-list, its file, cache and edits. \<open>Content_Floor\<close>
    (\<open>plugins/external_content_floor.py\<close>): the hook over tool results. \<open>Reentry\<close> (\<open>reentry.py\<close>): stored text on its way
    back into a prompt, the memo of scans, the limits and the rows of its audit.
  \<^item> \<open>MCP_Signing\<close> (\<open>mcp_signing/\<close>, and the gate of \<open>tools/mcp_bridge.py\<close>): the signed text of a server, the trust store, the
    launchers that pin no code (their patterns as regular expressions matched by derivatives, proved against the language
    they stand for), the verdict, and the environment a server starts with. \<open>MCP_Wire\<close> (\<open>tools/mcp_bridge.py\<close>): messages off
    the bytes of a server, with the loop that may not end as a partial function, sessions, server-sent events, results.
    \<open>MCP_Bridge\<close> (\<open>MCPBridge\<close>): the gates a call to an external server passes. Bytes and texts are characters up to 255;
    Ed25519, SHA-256, UTF-8 and JSON are arguments.
  \<^item> \<open>Wiring\<close> (\<open>wiring.py\<close>): the environment, the registrations in the order of the code, the built kernel.
  \<^item> This theory: properties of the built default kernel, in which the hooks' own guarantees are put through \<open>fire\<close>:
    model calls and the cloud, high-risk calls, the coding agent's calls.

  \<^bold>\<open>Bounds and fuel.\<close> No theorem depends on fuel running out. Loops are structural recursions or have a termination
  proof: the resolution of symbolic links is a worklist that follows each link of the table at most once per path,
  as \<open>realpath\<close> does with its table of seen links; \<open>fnmatch\<close> recurses on pattern and text; the gate's polling
  has the deadline as its measure, and that it ends is a theorem. Integers are unbounded, as in Python; the limits the
  code itself sets (the lineage registry, the claim throttle, the daily cap) are definitions with the code's values.

  \<^bold>\<open>Not modelled.\<close> Log lines; locks and threads (an operation is one transaction of the database, and interleavings
  are sequences of operations); the schema validation of configuration files, whose result is an argument; JSON text
  beyond what the spool needs.
  Of the governance package: delivery of approval requests, the audit archive and its
  reports, the vault (third-party cryptography), threat detection (third-party classifiers), the matching of
  the owner's identity (its literals are an argument of the network guard), and the loading of embedding models.
  The packages outside \<open>kernel/\<close> (agent loop, runtime,
  services, memory, server, command line, plugins) call the kernel and are not modelled.

  \<^bold>\<open>Plan.\<close> Next would be the archive of the audit log with its manifest, and the router that delivers approval requests.
\<close>

section \<open>Model calls through the kernel\<close>

text \<open>A hook that sets neither label. Of the shipped hooks only the classifiers set one, and at the model-call
  point none of them runs after the gate: the one hook that does is the cost limiter.\<close>

definition keeps_labels :: "'s hook \<Rightarrow> bool" where
  "keeps_labels h \<longleftrightarrow> (\<forall>ctx s d. fst (hk_call h ctx s) = Inr d \<longrightarrow> hd_set_classification d = None \<and> hd_set_tier d = None)"

lemma cost_limiter_keeps_labels: "keeps_labels (cost_limiter_hook get_db put_db env_of lm)"
proof -
  have "hd_set_classification (fst (CostLimiter_call lm env ctx db)) = None
      \<and> hd_set_tier (fst (CostLimiter_call lm env ctx db)) = None" for env ctx db
    by (auto simp: CostLimiter_call_def Let_def over_cap_deny_def cost_allow_def decision_def)
  then show ?thesis by (auto simp: keeps_labels_def cost_limiter_hook_def split_beta)
qed

lemma passes_append:
  assumes "passes k env hp (xs @ ys) ctx s tr ctx' s'"
  obtains tr1 c1 s1 tr2 where "passes k env hp xs ctx s tr1 c1 s1" "passes k env hp ys c1 s1 tr2 ctx' s'"
    "tr = tr1 @ tr2"
  using assms
proof (induction xs arbitrary: ctx s tr thesis)
  case Nil
  then show ?case using pass_nil by fastforce
next
  case (Cons x xs)
  from Cons.prems(2) obtain d s1 dur s2 ctx1 tr' where step: "hk_call x ctx s = (Inr d, s1)" "\<not> stops (hd_outcome d)"
      "audit k env hp (hk_name x) d ctx s1 = (dur, s2)" "rebind (hk_name x) d ctx = Inr ctx1"
    and rest: "passes k env hp (xs @ ys) ctx1 s2 tr' ctx' s'"
    and tr: "tr = \<lparr>co_hook = x, co_ctx = ctx, co_state = s, co_decision = d, co_durability = dur\<rparr> # tr'"
    by (auto elim: passes_ConsE)
  show ?case
  proof (rule Cons.IH [OF _ rest])
    fix tr1 c1 s3 tr2
    assume a: "passes k env hp xs ctx1 s2 tr1 c1 s3" "passes k env hp ys c1 s3 tr2 ctx' s'" "tr' = tr1 @ tr2"
    show thesis by (rule Cons.prems(1) [OF pass_cons [OF step a(1)] a(2)]) (simp add: tr a(3))
  qed
qed

lemma passes_keep_labels:
  "passes k env hp hs ctx s tr ctx' s' \<Longrightarrow> \<forall>h \<in> set hs. keeps_labels h \<Longrightarrow>
   hc_classification ctx' = hc_classification ctx \<and> hc_tier ctx' = hc_tier ctx"
proof (induction rule: passes.induct)
  case (pass_cons h ctx s d s1 dur s2 ctx1 hs tr ctx' s')
  have "hd_set_classification d = None \<and> hd_set_tier d = None"
    using pass_cons.prems pass_cons.hyps(1) unfolding keeps_labels_def by (metis fst_conv list.set_intros(1))
  then show ?case using pass_cons rebind_classification [OF pass_cons.hyps(4)] by simp
qed simp

text \<open>A kernel whose model-call hooks include a gate the wiring can build, followed only by hooks that set no
  label.\<close>

lemma gated_model_call:
  fixes k :: "'s kernel"
  assumes "fire k env PRE_LLM_CALL ctx s = (Inr (d, ctx'), s')" and "\<not> stops (hd_outcome d)"
      and "k_hooks k PRE_LLM_CALL = pre @ egress_gate_hook g # post" and "built_gate g"
      and "\<forall>h \<in> set post. keeps_labels h"
  shows "\<exists>t. hc_tier ctx' = Some t
    \<and> (case hc_classification ctx' of
         None \<Rightarrow> t \<noteq> Tier3
       | Some c \<Rightarrow> \<exists>r. map_of (eg_policy g) c = Some r
           \<and> (TIER_RANK t \<le> TIER_RANK (max_tier r)
              \<or> t = Tier3 \<and> c \<in> set (eg_trusted_cloud_for g) \<and> on_violation_of r = OnRequireApproval))
    \<and> (t = Tier3 \<longrightarrow> hc_classification ctx' \<notin> {None, Some Secret}
         \<and> (\<exists>tr s1. passes k env PRE_LLM_CALL (k_hooks k PRE_LLM_CALL) (drop_bot_id ctx) s tr ctx' s1 \<and> none_lost tr))"
proof -
  obtain tr s1 where tr: "passes k env PRE_LLM_CALL (k_hooks k PRE_LLM_CALL) (drop_bot_id ctx) s tr ctx' s1"
    and kept: "guards_an_effect PRE_LLM_CALL ctx' \<longrightarrow> none_lost tr"
    using fire_goes_on [OF assms(1,2)] by blast
  from tr [unfolded assms(3)] obtain tr1 c1 s2 tr2
    where mid: "passes k env PRE_LLM_CALL (egress_gate_hook g # post) c1 s2 tr2 ctx' s1"
    by (rule passes_append)
  then obtain d1 c2 s3 s4 tr3 where gate: "hk_call (egress_gate_hook g) c1 s2 = (Inr d1, s3)" "\<not> stops (hd_outcome d1)"
      "rebind (hk_name (egress_gate_hook g :: 's hook)) d1 c1 = Inr c2"
    and rest: "passes k env PRE_LLM_CALL post c2 s4 tr3 ctx' s1"
    by (auto elim: passes_ConsE)
  have call: "EgressGate_call g c1 = Inr d1" using gate(1) by (simp add: egress_gate_hook_def)
  have labels: "hc_classification ctx' = hc_classification c1 \<and> hc_tier ctx' = hc_tier c1"
    using passes_keep_labels [OF rest assms(5)] rebind_classification [OF gate(3)] gate_sets_no_label [OF call] by simp
  have sound: "\<exists>t. hc_tier c1 = Some t
      \<and> (case hc_classification c1 of
           None \<Rightarrow> t \<noteq> Tier3
         | Some c \<Rightarrow> \<exists>r. map_of (eg_policy g) c = Some r
             \<and> (TIER_RANK t \<le> TIER_RANK (max_tier r)
                \<or> t = Tier3 \<and> c \<in> set (eg_trusted_cloud_for g) \<and> on_violation_of r = OnRequireApproval))
      \<and> (t = Tier3 \<longrightarrow> hc_classification c1 \<notin> {None, Some Secret})"
    using gate_sound [OF assms(4), of c1] call gate(2) by auto
  then obtain t where t: "hc_tier ctx' = Some t"
    "case hc_classification ctx' of
       None \<Rightarrow> t \<noteq> Tier3
     | Some c \<Rightarrow> \<exists>r. map_of (eg_policy g) c = Some r
         \<and> (TIER_RANK t \<le> TIER_RANK (max_tier r)
            \<or> t = Tier3 \<and> c \<in> set (eg_trusted_cloud_for g) \<and> on_violation_of r = OnRequireApproval)"
    "t = Tier3 \<longrightarrow> hc_classification ctx' \<notin> {None, Some Secret}"
    using labels by auto
  moreover have "none_lost tr" if "t = Tier3" using kept t(1) that by (simp add: guards_an_effect_def)
  ultimately show ?thesis using tr by blast
qed

text \<open>The class attributes of the two hooks are those of the wiring.\<close>

lemma wired_gate: "calls HEgressGate = hk_call (egress_gate_hook g) \<Longrightarrow> hook_of calls bh HEgressGate = egress_gate_hook g"
  by (simp add: hook_of_def egress_gate_hook_def)

lemma parsed_cloud_classes: "set (parse_cloud_for_from_env ev) \<subseteq> {Personal, Internal}"
  by (auto simp: parse_cloud_for_from_env_def cloud_class_def Let_def map_filter_def split: if_splits)

lemma gate_from_env_is_built:
  assumes "complete_and_safe pol = Inr pol"
  shows "new_egress_gate (parse_cloud_for_from_env ev) pol
      = Inr \<lparr>eg_trusted_cloud_for = parse_cloud_for_from_env ev, eg_policy = pol\<rparr>"
    and "built_gate \<lparr>eg_trusted_cloud_for = parse_cloud_for_from_env ev, eg_policy = pol\<rparr>"
proof -
  have "Secret \<notin> set (parse_cloud_for_from_env ev)" using parsed_cloud_classes by blast
  then show "new_egress_gate (parse_cloud_for_from_env ev) pol
      = Inr \<lparr>eg_trusted_cloud_for = parse_cloud_for_from_env ev, eg_policy = pol\<rparr>"
    "built_gate \<lparr>eg_trusted_cloud_for = parse_cloud_for_from_env ev, eg_policy = pol\<rparr>"
    using assms by (simp_all add: new_egress_gate_def built_gate_def)
qed

text \<open>C2. No secret leaves through the default kernel. Whatever the environment says, the gate of the default kernel
  can be constructed; and when the kernel the wiring builds, under any settings, lets a model call go ahead, the call
  has its target tier set, within what the owner's table gives its class (or a class, never secret, that the environment
  trusts to the cloud); on the cloud tier its prompt is classified and is not secret, and the ledger kept the row of
  every hook that was asked.\<close>

theorem no_secret_reaches_the_cloud:
  fixes calls :: "'s hook_calls"
  assumes "build_default_kernel calls bh sink ks src = Inr (k, src')"
      and "complete_and_safe pol = Inr pol" and "new_egress_gate (parse_cloud_for_from_env ev) pol = Inr g"
      and "calls HEgressGate = hk_call (egress_gate_hook g)"
      and "calls HCostLimiter = hk_call (cost_limiter_hook get_db put_db env_of lm)"
      and "fire k env PRE_LLM_CALL ctx s = (Inr (d, ctx'), s')" and "\<not> stops (hd_outcome d)"
  shows "\<exists>t. hc_tier ctx' = Some t
    \<and> (case hc_classification ctx' of
         None \<Rightarrow> t \<noteq> Tier3
       | Some c \<Rightarrow> \<exists>r. map_of pol c = Some r
           \<and> (TIER_RANK t \<le> TIER_RANK (max_tier r)
              \<or> t = Tier3 \<and> c \<in> set (parse_cloud_for_from_env ev) \<and> c \<in> {Personal, Internal}
                \<and> on_violation_of r = OnRequireApproval))
    \<and> (t = Tier3 \<longrightarrow> hc_classification ctx' \<notin> {None, Some Secret}
         \<and> (\<exists>tr s1. passes k env PRE_LLM_CALL (k_hooks k PRE_LLM_CALL) (drop_bot_id ctx) s tr ctx' s1 \<and> none_lost tr))"
proof -
  have g: "g = \<lparr>eg_trusted_cloud_for = parse_cloud_for_from_env ev, eg_policy = pol\<rparr>" and built: "built_gate g"
    using gate_from_env_is_built [OF assms(2), of ev] assms(3) by simp_all
  have local: "\<not> ks_remote_evaluator ks" using assms(1) by (auto simp: build_default_kernel_def Let_def split: sum.splits)
  let ?cost = "opt (ks_cost_store ks \<and> ks_daily_cost_cap ks \<noteq> None) [HCostLimiter]"
  have "k_hooks k PRE_LLM_CALL = map (hook_of calls bh) (default_hooks ks PRE_LLM_CALL)"
    using build_result [OF local, of calls bh sink src] assms(1) by (metis Inr_inject prod.inject)
  also have "\<dots> = map (hook_of calls bh) (opt (ks_owner_pii_shadow ks) [HOwnerPiiShadow]
        @ opt (ks_guards_a_bot ks) [HBotStatus] @ [HRedactionFilter])
      @ egress_gate_hook g # map (hook_of calls bh) ?cost"
    by (simp add: wired_gate [of calls g bh, OF assms(4)])
  finally have chain: "k_hooks k PRE_LLM_CALL = map (hook_of calls bh) (opt (ks_owner_pii_shadow ks) [HOwnerPiiShadow]
        @ opt (ks_guards_a_bot ks) [HBotStatus] @ [HRedactionFilter])
      @ egress_gate_hook g # map (hook_of calls bh) ?cost" .
  have "keeps_labels (hook_of calls bh HCostLimiter)"
    using cost_limiter_keeps_labels [of get_db put_db env_of lm] by (simp add: keeps_labels_def assms(5))
  then have post: "\<forall>h \<in> set (map (hook_of calls bh) ?cost). keeps_labels h" by (simp add: opt_def)
  note gated = gated_model_call [OF assms(6,7) chain built post]
  have trusted: "c \<in> {Personal, Internal}" if "c \<in> set (parse_cloud_for_from_env ev)" for c
    using parsed_cloud_classes that by blast
  from gated obtain t where t: "hc_tier ctx' = Some t"
    and rule: "case hc_classification ctx' of None \<Rightarrow> t \<noteq> Tier3 | Some c \<Rightarrow> \<exists>r. map_of (eg_policy g) c = Some r
         \<and> (TIER_RANK t \<le> TIER_RANK (max_tier r)
            \<or> t = Tier3 \<and> c \<in> set (eg_trusted_cloud_for g) \<and> on_violation_of r = OnRequireApproval)"
    and cloud: "t = Tier3 \<longrightarrow> hc_classification ctx' \<notin> {None, Some Secret}
         \<and> (\<exists>tr s1. passes k env PRE_LLM_CALL (k_hooks k PRE_LLM_CALL) (drop_bot_id ctx) s tr ctx' s1 \<and> none_lost tr)"
    by blast
  show ?thesis
  proof (intro exI [of _ t] conjI t cloud)
    show "case hc_classification ctx' of None \<Rightarrow> t \<noteq> Tier3 | Some c \<Rightarrow> \<exists>r. map_of pol c = Some r
         \<and> (TIER_RANK t \<le> TIER_RANK (max_tier r)
            \<or> t = Tier3 \<and> c \<in> set (parse_cloud_for_from_env ev) \<and> c \<in> {Personal, Internal}
              \<and> on_violation_of r = OnRequireApproval)"
      using rule trusted by (cases "hc_classification ctx'") (auto simp: g)
  qed
qed

text \<open>A small instance of the default kernel: the modelled hooks under test, every other hook allowing, a ledger that
  takes every row.\<close>

definition quiet_sink :: "'s audit_sink" where
  "quiet_sink e s = (Inr 1, s)"

definition quiet_bot :: "nat \<times> 's bot_source" where
  "quiet_bot = (0, (\<lambda>s. (None, s)))"

definition small_settings :: kernel_settings where
  "small_settings = \<lparr>ks_guards_a_bot = False, ks_prompt_guard_inbound = False, ks_prompt_guard_retrieved = False,
     ks_external_content_floor = True, ks_input_safety = False, ks_command_sandbox = True, ks_fs_jail = True,
     ks_network_egress = True, ks_owner_pii_shadow = False, ks_mcp_allowlist = True, ks_cost_store = True,
     ks_daily_cost_cap = Some 5, ks_ledger_passed = False, ks_ledger_enabled = True, ks_remote_evaluator = False\<rparr>"

definition allows_all :: "hook_context \<Rightarrow> 's \<Rightarrow> hook_decision result \<times> 's" where
  "allows_all ctx s = (Inr (decision Allow ''ok''), s)"

lemma rebind_allow [simp]: "rebind name (decision Allow r) ctx = Inr ctx"
  by (simp add: rebind_def)

lemma audit_quiet:
  assumes "k_audit_log k = Some quiet_sink" and "k_bot_hook k = None \<or> k_bot_hook k = Some quiet_bot"
  shows "audit k env hp name d ctx s = (InDb, s)"
  using assms by (auto simp: audit_def quiet_sink_def quiet_bot_def)

definition small_kernel :: "'s hook_calls \<Rightarrow> 's kernel" where
  "small_kernel calls = fst (projr (build_default_kernel calls quiet_bot quiet_sink small_settings None))"

lemma small_kernel_built:
  "\<exists>src'. build_default_kernel calls quiet_bot quiet_sink small_settings None = Inr (small_kernel calls, src')"
  "k_init_locked (small_kernel calls)" "audit (small_kernel calls) env hp name d ctx s = (InDb, s)"
  "k_hooks (small_kernel calls) p = map (hook_of calls quiet_bot) (default_hooks small_settings p)"
proof -
  have local: "\<not> ks_remote_evaluator small_settings" by (simp add: small_settings_def)
  obtain k src' where k: "build_default_kernel calls quiet_bot quiet_sink small_settings None = Inr (k, src')"
      "k_init_locked k" "k_audit_log k = Some quiet_sink" "k_bot_hook k = None \<or> k_bot_hook k = Some quiet_bot"
      "k_hooks k p = map (hook_of calls quiet_bot) (default_hooks small_settings p)"
    using build_result [OF local, of calls quiet_bot quiet_sink None] by metis
  then have s: "small_kernel calls = k" by (simp add: small_kernel_def)
  show "\<exists>src'. build_default_kernel calls quiet_bot quiet_sink small_settings None = Inr (small_kernel calls, src')"
    "k_init_locked (small_kernel calls)" "audit (small_kernel calls) env hp name d ctx s = (InDb, s)"
    "k_hooks (small_kernel calls) p = map (hook_of calls quiet_bot) (default_hooks small_settings p)"
    unfolding s by (simp_all add: k(1,2,5) audit_quiet [OF k(3,4)])
qed

definition llm_calls :: "cost_db hook_calls" where
  "llm_calls h = (case h of
       HEgressGate \<Rightarrow> hk_call (egress_gate_hook shipped_gate)
     | HCostLimiter \<Rightarrow> hk_call (cost_limiter_hook (\<lambda>s. s) (\<lambda>db _. db) (\<lambda>_. demo_cost_env False) demo_limiter)
     | _ \<Rightarrow> allows_all)"

definition public_cloud_ctx :: hook_context where
  "public_cloud_ctx = cloud_ctx\<lparr>hc_classification := Some Public\<rparr>"

lemma small_llm_fire:
  "\<exists>d db. fire (small_kernel llm_calls) demo_env PRE_LLM_CALL public_cloud_ctx [] = (Inr (d, public_cloud_ctx), db)
     \<and> \<not> stops (hd_outcome d)"
proof -
  obtain d0 where gate: "EgressGate_call shipped_gate public_cloud_ctx = Inr d0" "hd_outcome d0 = Allow"
      "rebind ''egress_gate'' d0 public_cloud_ctx = Inr public_cloud_ctx"
    by (simp add: EgressGate_call_def public_cloud_ctx_def cloud_ctx_def demo_ctx_def allows_def rule_def shipped_gate_def
        shipped_policy_def rebind_def decision_def dict_simps Let_def)
  have est: "estimate_of demo_limiter public_cloud_ctx = 6144 / 100000"
    using cloud_estimate by (simp add: public_cloud_ctx_def estimate_of_def)
  have cap: "cm_cap demo_limiter = 1 / 10" by (simp add: demo_limiter_def)
  obtain d1 db where lim: "CostLimiter_call demo_limiter (demo_cost_env False) public_cloud_ctx [] = (d1, db)"
    by (metis surj_pair)
  have out: "hd_outcome d1 = Allow"
    using limiter_outcome [of demo_limiter "demo_cost_env False" public_cloud_ctx "[]"]
    by (simp add: lim est sum_today_def sum_since_def cap)
  have reb: "rebind ''cost_limiter'' d1 public_cloud_ctx = Inr public_cloud_ctx"
    using lim by (auto simp: CostLimiter_call_def Let_def over_cap_deny_def cost_allow_def decision_def rebind_def
        cost_audit_def dict_simps split: if_splits)
  have bot: "drop_bot_id public_cloud_ctx = public_cloud_ctx"
    by (simp add: drop_bot_id_def public_cloud_ctx_def cloud_ctx_def demo_ctx_def)
  have hooks: "k_hooks (small_kernel llm_calls) PRE_LLM_CALL
      = map (hook_of llm_calls quiet_bot) [HRedactionFilter, HEgressGate, HCostLimiter]"
    unfolding small_kernel_built(4) by (simp add: small_settings_def opt_def)
  have calls: "llm_calls HRedactionFilter = allows_all" "llm_calls HEgressGate = (\<lambda>ctx s. (EgressGate_call shipped_gate ctx, s))"
    "llm_calls HCostLimiter ctx s = (case CostLimiter_call demo_limiter (demo_cost_env False) ctx s of (d, db) \<Rightarrow> (Inr d, db))" for ctx s
    by (simp_all add: llm_calls_def egress_gate_hook_def cost_limiter_hook_def)
  show ?thesis
    by (simp add: fire_def small_kernel_built(2,3) hooks calls allows_all_def stops_def bot gate lim out reb)
qed

theorem no_secret_reaches_the_cloud_witness:
  "\<exists>d db. fire (small_kernel llm_calls) demo_env PRE_LLM_CALL public_cloud_ctx [] = (Inr (d, public_cloud_ctx), db)
     \<and> hook_names (small_kernel llm_calls) PRE_LLM_CALL = [''redaction_filter'', ''egress_gate'', ''cost_limiter'']
     \<and> hc_classification public_cloud_ctx \<notin> {None, Some Secret}"
proof -
  obtain src' where k: "build_default_kernel llm_calls quiet_bot quiet_sink small_settings None = Inr (small_kernel llm_calls, src')"
    using small_kernel_built(1) by blast
  obtain d db where f: "fire (small_kernel llm_calls) demo_env PRE_LLM_CALL public_cloud_ctx [] = (Inr (d, public_cloud_ctx), db)"
      "\<not> stops (hd_outcome d)"
    using small_llm_fire by blast
  have "complete_and_safe shipped_policy = Inr shipped_policy"
    using shipped_gate_built by (simp add: built_gate_def shipped_gate_def)
  moreover have "new_egress_gate (parse_cloud_for_from_env (\<lambda>_. None)) shipped_policy = Inr shipped_gate"
    by (simp add: parse_cloud_for_from_env_def getenv_def strip_def lstrip_def Let_def new_egress_gate_def shipped_gate_def)
  moreover have "llm_calls HEgressGate = hk_call (egress_gate_hook shipped_gate)"
    "llm_calls HCostLimiter = hk_call (cost_limiter_hook (\<lambda>s. s) (\<lambda>db _. db) (\<lambda>_. demo_cost_env False) demo_limiter)"
    by (simp_all add: llm_calls_def)
  ultimately have "hc_classification public_cloud_ctx \<notin> {None, Some Secret}"
    using no_secret_reaches_the_cloud [OF k _ _ _ _ f] by (fastforce simp: public_cloud_ctx_def cloud_ctx_def)
  moreover have "hook_names (small_kernel llm_calls) PRE_LLM_CALL = [''redaction_filter'', ''egress_gate'', ''cost_limiter'']"
    unfolding hook_names_def small_kernel_built(4) by (simp add: small_settings_def opt_def)
  ultimately show ?thesis using f(1) by blast
qed

section \<open>High-risk tool calls through the kernel\<close>

text \<open>The two hooks that stand before a high-risk call, over their parts of the kernel's world.\<close>

definition destructive_approval_hook ::
  "('w \<Rightarrow> 's queue_world) \<Rightarrow> ('s queue_world \<Rightarrow> 'w \<Rightarrow> 'w) \<Rightarrow> ('w \<Rightarrow> call_env) \<Rightarrow> 's destructive_hook \<Rightarrow> 'w hook"
where
  "destructive_approval_hook get_q put_q env_of h =
     \<lparr>hk_name = ''destructive_approval'', hk_hook_point = PRE_TOOL_USE, hk_priority = 50,
      hk_call = (\<lambda>ctx w. case DestructiveApprovalHook_call h (env_of w) ctx (get_q w) of (r, q) \<Rightarrow> (r, put_q q w)),
      hk_bot_status = None\<rparr>"

record ledger_env =
  le_fault :: "pyexn option"
  le_calls :: call_state
  le_env :: se_env

definition pre_tool_use_ledger_hook ::
  "('w \<Rightarrow> side_effect_db) \<Rightarrow> (side_effect_db \<Rightarrow> 'w \<Rightarrow> 'w) \<Rightarrow> ('w \<Rightarrow> ledger_env) \<Rightarrow> bool \<Rightarrow> 'w hook"
where
  "pre_tool_use_ledger_hook get_db put_db env_of present =
     \<lparr>hk_name = ''pre_tool_use_ledger'', hk_hook_point = PRE_TOOL_USE, hk_priority = 100,
      hk_call = (\<lambda>ctx w. case PreToolUseLedgerHook_call present (le_fault (env_of w)) (le_calls (env_of w))
                     (le_env (env_of w)) ctx (get_db w) of (d, db) \<Rightarrow> (Inr d, put_db db w)),
      hk_bot_status = None\<rparr>"

lemma same_call_metadata:
  assumes "same_call ctx c"
  shows "dget (hc_metadata c) K_TOOL_EFFECT = dget (hc_metadata ctx) K_TOOL_EFFECT"
    and "dget (hc_metadata c) K_TOOL_CONFIRM = dget (hc_metadata ctx) K_TOOL_CONFIRM"
    and "dget (hc_metadata c) ''approved_by'' = dget (hc_metadata ctx) ''approved_by''"
    and "metadata_str c ''caller'' = metadata_str ctx ''caller''"
    and "approved_per_call (hc_metadata c) = approved_per_call (hc_metadata ctx)"
    and "key_of c = key_of ctx"
  using assms
  by (simp_all add: same_call_def kernel_written_keys_def metadata_str_def approved_per_call_def key_of_def
      step_or_0_def call_id_of_def)

text \<open>A kernel with both hooks, for a call of the high-risk class.\<close>

lemma high_risk_call_in_chain:
  fixes k :: "'w kernel"
  assumes "fire k env PRE_TOOL_USE ctx w = (Inr (d, ctx'), w')" and "\<not> stops (hd_outcome d)"
      and "destructive_approval_hook get_q put_q qenv h \<in> set (k_hooks k PRE_TOOL_USE)"
      and "pre_tool_use_ledger_hook get_db put_db lenv present \<in> set (k_hooks k PRE_TOOL_USE)"
      and "pinned_by_declaration (dget (hc_metadata ctx) K_TOOL_EFFECT) (dget (hc_metadata ctx) K_TOOL_CONFIRM)"
  shows "\<exists>tr w1. passes k env PRE_TOOL_USE (k_hooks k PRE_TOOL_USE) (drop_bot_id ctx) w tr ctx' w1
    \<and> (\<exists>c \<in> set tr. same_call ctx (co_ctx c)
         \<and> released (get_q (co_state c)) (py_str (dget (hc_metadata ctx) ''approved_by'')) (call_item (co_ctx c))
             (metadata_str ctx ''caller''))
    \<and> (\<exists>c \<in> set tr. same_call ctx (co_ctx c)
         \<and> (tool_name_of (hc_payload (co_ctx c)) \<noteq> [] \<longrightarrow>
              present \<and> se_get (key_of ctx) (get_db (co_state c)) = None
              \<and> side_effect_id_of (hd_audit_metadata (co_decision c)) = Some (key_of ctx)
              \<and> (\<exists>db' row. snd (hk_call (co_hook c) (co_ctx c) (co_state c)) = put_db db' (co_state c)
                   \<and> sl_rows db' = sl_rows (get_db (co_state c)) @ [row] \<and> se_side_effect_id row = key_of ctx
                   \<and> se_status row = ''pending'' \<and> se_tool row = tool_name_of (hc_payload (co_ctx c)))))
    \<and> (dget (hc_metadata ctx) K_TOOL_EFFECT = PStr ''destructive'' \<longrightarrow> none_lost tr)"
proof -
  obtain tr w1 where tr: "passes k env PRE_TOOL_USE (k_hooks k PRE_TOOL_USE) (drop_bot_id ctx) w tr ctx' w1"
    and kept: "guards_an_effect PRE_TOOL_USE ctx' \<longrightarrow> none_lost tr"
    using fire_goes_on [OF assms(1,2)] by blast
  have same: "same_call ctx c" if "same_call (drop_bot_id ctx) c" for c
    using drop_bot_id_same_call that by (rule same_call_trans)
  have ctx': "same_call ctx ctx'" and each: "same_call ctx (co_ctx c)" if "c \<in> set tr" for c
    using passes_same_call [OF tr] same that by blast+
  have "\<exists>c \<in> set tr. co_hook c = hk" if "hk \<in> set (k_hooks k PRE_TOOL_USE)" for hk
    using that unfolding passes_hooks [OF tr, symmetric] by auto
  then obtain c1 c2 where c1: "c1 \<in> set tr" "co_hook c1 = destructive_approval_hook get_q put_q qenv h"
    and c2: "c2 \<in> set tr" "co_hook c2 = pre_tool_use_ledger_hook get_db put_db lenv present"
    using assms(3,4) by metis
  note m1 = same_call_metadata [OF each [OF c1(1)]] and m2 = same_call_metadata [OF each [OF c2(1)]]
  have "\<exists>q. DestructiveApprovalHook_call h (qenv (co_state c1)) (co_ctx c1) (get_q (co_state c1)) = (Inr (co_decision c1), q)"
    using passes_decisions [OF tr c1(1)] by (auto simp: c1(2) destructive_approval_hook_def split: prod.splits)
  moreover have "approved_per_call (hc_metadata (co_ctx c1))" using assms(5) by (simp add: m1 approved_per_call_def)
  ultimately have app: "truthy (dget (hc_metadata ctx) ''approved_by'')"
    "released (get_q (co_state c1)) (py_str (dget (hc_metadata ctx) ''approved_by'')) (call_item (co_ctx c1)) (metadata_str ctx ''caller'')"
    using passed_call_is_named passed_call_is_released passes_decisions [OF tr c1(1)] m1 by metis+
  obtain db' where l: "PreToolUseLedgerHook_call present (le_fault (lenv (co_state c2))) (le_calls (lenv (co_state c2)))
      (le_env (lenv (co_state c2))) (co_ctx c2) (get_db (co_state c2)) = (co_decision c2, db')"
    and put: "snd (hk_call (co_hook c2) (co_ctx c2) (co_state c2)) = put_db db' (co_state c2)"
    using passes_decisions [OF tr c2(1)] by (auto simp: c2(2) pre_tool_use_ledger_hook_def split: prod.splits)
  have row: "present \<and> se_get (key_of ctx) (get_db (co_state c2)) = None
      \<and> side_effect_id_of (hd_audit_metadata (co_decision c2)) = Some (key_of ctx)
      \<and> (\<exists>row. sl_rows db' = sl_rows (get_db (co_state c2)) @ [row] \<and> se_side_effect_id row = key_of ctx
           \<and> se_status row = ''pending'' \<and> se_tool row = tool_name_of (hc_payload (co_ctx c2)))"
    if "tool_name_of (hc_payload (co_ctx c2)) \<noteq> []"
  proof -
    have "high_risk (co_ctx c2)" using that assms(5) by (simp add: high_risk_def m2)
    moreover have "truthy (dget (hc_metadata (co_ctx c2)) ''approved_by'')" using app(1) by (simp add: m2)
    moreover have "hd_outcome (co_decision c2) \<noteq> Deny" using passes_decisions [OF tr c2(1)] by (auto simp: stops_def)
    ultimately show ?thesis using pre_ledger_outcome [OF _ disjI1 l] by (auto simp: m2 split: if_splits)
  qed
  have "none_lost tr" if "dget (hc_metadata ctx) K_TOOL_EFFECT = PStr ''destructive''"
    using kept that same_call_metadata(1) [OF ctx' [OF c1(1)]] by (simp add: guards_an_effect_def)
  then show ?thesis using tr each c1(1) c2(1) app(2) row put by blast
qed

lemma wired_approval:
  "calls HDestructiveApproval = hk_call (destructive_approval_hook get_q put_q qenv h) \<Longrightarrow>
     hook_of calls bh HDestructiveApproval = destructive_approval_hook get_q put_q qenv h"
  by (simp add: hook_of_def destructive_approval_hook_def)

lemma wired_ledger:
  "calls HPreToolUseLedger = hk_call (pre_tool_use_ledger_hook get_db put_db lenv present) \<Longrightarrow>
     hook_of calls bh HPreToolUseLedger = pre_tool_use_ledger_hook get_db put_db lenv present"
  by (simp add: hook_of_def pre_tool_use_ledger_hook_def)

lemma built_hooks:
  assumes "build_default_kernel calls bh sink ks src = Inr (k, src')"
  shows "k_hooks k p = map (hook_of calls bh) (default_hooks ks p)"
proof -
  have local: "\<not> ks_remote_evaluator ks" using assms by (auto simp: build_default_kernel_def Let_def split: sum.splits)
  show ?thesis using build_result [OF local, of calls bh sink src] assms by (metis Inr_inject prod.inject)
qed

text \<open>C3. A high-risk call through the default kernel is approved, exactly, and leaves its evidence. Under every setting
  of the default kernel the approval hook and the pre-execution ledger hook stand before a tool call: when \<open>fire\<close> lets
  a call of the high-risk class run, the approval hook found, under the id the caller claims, an approved row
  pinning the tool and arguments it was shown, for this caller; and when the call reached the ledger hook with a tool
  name, the kernel has a ledger, no row held the call's key, a pending row with its key and tool was written before it
  runs, and a destructive call had the audit row of every hook kept.\<close>

theorem high_risk_call_through_the_kernel:
  fixes calls :: "'w hook_calls"
  assumes "build_default_kernel calls bh sink ks src = Inr (k, src')"
      and "calls HDestructiveApproval = hk_call (destructive_approval_hook get_q put_q qenv h)"
      and "calls HPreToolUseLedger = hk_call (pre_tool_use_ledger_hook get_db put_db lenv (has_ledger ks))"
      and "fire k env PRE_TOOL_USE ctx w = (Inr (d, ctx'), w')" and "\<not> stops (hd_outcome d)"
      and "pinned_by_declaration (dget (hc_metadata ctx) K_TOOL_EFFECT) (dget (hc_metadata ctx) K_TOOL_CONFIRM)"
  shows "\<exists>tr w1. passes k env PRE_TOOL_USE (k_hooks k PRE_TOOL_USE) (drop_bot_id ctx) w tr ctx' w1
    \<and> (\<exists>c \<in> set tr. same_call ctx (co_ctx c)
         \<and> released (get_q (co_state c)) (py_str (dget (hc_metadata ctx) ''approved_by'')) (call_item (co_ctx c))
             (metadata_str ctx ''caller''))
    \<and> (\<exists>c \<in> set tr. same_call ctx (co_ctx c)
         \<and> (tool_name_of (hc_payload (co_ctx c)) \<noteq> [] \<longrightarrow>
              has_ledger ks \<and> se_get (key_of ctx) (get_db (co_state c)) = None
              \<and> side_effect_id_of (hd_audit_metadata (co_decision c)) = Some (key_of ctx)
              \<and> (\<exists>db' row. snd (hk_call (co_hook c) (co_ctx c) (co_state c)) = put_db db' (co_state c)
                   \<and> sl_rows db' = sl_rows (get_db (co_state c)) @ [row] \<and> se_side_effect_id row = key_of ctx
                   \<and> se_status row = ''pending'' \<and> se_tool row = tool_name_of (hc_payload (co_ctx c)))))
    \<and> (dget (hc_metadata ctx) K_TOOL_EFFECT = PStr ''destructive'' \<longrightarrow> none_lost tr)"
proof -
  have "hook_of calls bh HDestructiveApproval \<in> set (k_hooks k PRE_TOOL_USE)"
    "hook_of calls bh HPreToolUseLedger \<in> set (k_hooks k PRE_TOOL_USE)"
    unfolding built_hooks [OF assms(1)] by simp_all
  then show ?thesis
    unfolding wired_approval [of calls get_q put_q qenv h bh, OF assms(2)]
      wired_ledger [of calls get_db put_db lenv "has_ledger ks" bh, OF assms(3)]
    by (rule high_risk_call_in_chain [OF assms(4,5) _ _ assms(6)])
qed

type_synonym demo_world = "unit queue_world \<times> side_effect_db"

definition tool_calls :: "demo_world hook_calls" where
  "tool_calls h = (case h of
       HDestructiveApproval \<Rightarrow> hk_call (destructive_approval_hook fst (\<lambda>q w. (q, snd w)) (\<lambda>_. demo_call_env) demo_destructive)
     | HPreToolUseLedger \<Rightarrow> hk_call (pre_tool_use_ledger_hook snd (\<lambda>db w. (fst w, db))
         (\<lambda>_. \<lparr>le_fault = None, le_calls = empty_call_state, le_env = demo_se_env\<rparr>) (has_ledger small_settings))
     | _ \<Rightarrow> allows_all)"

definition demo_approved_call :: hook_context where
  "demo_approved_call = demo_call [(''approved_by'', PStr ''a1'')]"

lemma small_tool_fire:
  "\<exists>d c w. fire (small_kernel tool_calls) demo_env PRE_TOOL_USE demo_approved_call
       (([demo_row ''approved''], ()), \<lparr>sl_rows = [], sl_events = []\<rparr>) = (Inr (d, c), w) \<and> \<not> stops (hd_outcome d)"
proof -
  let ?ctx = demo_approved_call
  have md: "approved_per_call (hc_metadata ?ctx)" "py_str (dget (hc_metadata ?ctx) ''approved_by'') = ''a1''"
    "truthy (dget (hc_metadata ?ctx) ''approved_by'')" "high_risk ?ctx"
    by (simp_all add: demo_approved_call_def demo_call_def demo_ctx_def approved_per_call_def pinned_by_declaration_def
        dict_simps py_str_def high_risk_def tool_name_of_def)
  have row: "get ''a1'' [demo_row ''approved''] = Some (demo_row ''approved'')"
    "ar_status (demo_row ''approved'') = ''approved''" "ar_caller (demo_row ''approved'') = None"
    "ar_items (demo_row ''approved'') = Some [item_of ''rm'' [(''path'', PStr ''x'')]]"
    by (simp_all add: demo_row_def new_row_def get_def approval_request_of_def)
  have item: "call_item ?ctx = item_of ''rm'' [(''path'', PStr ''x'')]"
    by (simp add: demo_approved_call_def demo_call_item)
  obtain d0 where d0: "DestructiveApprovalHook_call demo_destructive demo_call_env ?ctx ([demo_row ''approved''], ())
      = (Inr d0, ([demo_row ''approved''], ()))" "hd_outcome d0 = Allow"
    using md row by (auto simp: DestructiveApprovalHook_call_def Let_def demo_destructive_def verify_def item)
  obtain c where c: "rebind ''destructive_approval'' d0 ?ctx = Inr c"
    using rebind_no_transform [of d0] d0(2) by auto
  note m = same_call_metadata [OF rebind_same_call [OF c]]
  have "high_risk c" "truthy (dget (hc_metadata c) ''approved_by'')"
    using md rebind_payload [OF c] d0(2) by (simp_all add: high_risk_def m)
  moreover obtain d1 db where l: "PreToolUseLedgerHook_call True None empty_call_state demo_se_env c
      \<lparr>sl_rows = [], sl_events = []\<rparr> = (d1, db)" by (metis surj_pair)
  ultimately have d1: "hd_outcome d1 = Allow" using pre_ledger_outcome [OF _ disjI1 l] by (simp add: se_get_def)
  obtain c' where c': "rebind ''pre_tool_use_ledger'' d1 c = Inr c'"
    using rebind_no_transform [of d1] d1 by auto
  have bot: "drop_bot_id ?ctx = ?ctx"
    by (simp add: drop_bot_id_def demo_approved_call_def demo_call_def demo_ctx_def dict_simps)
  have hooks: "k_hooks (small_kernel tool_calls) PRE_TOOL_USE = map (hook_of tool_calls quiet_bot)
      [HCallerPolicy, HPersonaSurface, HMCPAllowlist, HToolPolicy, HCommandSandbox, HFSJail, HNetworkEgress,
       HDestructiveApproval, HCredentialBroker, HPreToolUseLedger]"
    unfolding small_kernel_built(4) by (simp add: small_settings_def opt_def)
  have ledger: "has_ledger small_settings" by (simp add: has_ledger_def small_settings_def)
  show ?thesis
    by (simp add: fire_def small_kernel_built(2,3) hooks tool_calls_def allows_all_def destructive_approval_hook_def
        pre_tool_use_ledger_hook_def ledger stops_def bot d0 c l d1 c')
qed

theorem high_risk_call_through_the_kernel_witness:
  "\<exists>tr w1. passes (small_kernel tool_calls) demo_env PRE_TOOL_USE (k_hooks (small_kernel tool_calls) PRE_TOOL_USE)
       (drop_bot_id demo_approved_call)
       (([demo_row ''approved''], ()), \<lparr>sl_rows = [], sl_events = []\<rparr>) tr (fst w1) (snd w1)
     \<and> (\<exists>c \<in> set tr. released (fst (co_state c)) ''a1'' (call_item (co_ctx c)) None)"
proof -
  obtain src' where k: "build_default_kernel tool_calls quiet_bot quiet_sink small_settings None = Inr (small_kernel tool_calls, src')"
    using small_kernel_built(1) by blast
  obtain d c w where f: "fire (small_kernel tool_calls) demo_env PRE_TOOL_USE demo_approved_call
       (([demo_row ''approved''], ()), \<lparr>sl_rows = [], sl_events = []\<rparr>) = (Inr (d, c), w)" "\<not> stops (hd_outcome d)"
    using small_tool_fire by blast
  have wired: "tool_calls HDestructiveApproval
      = hk_call (destructive_approval_hook fst (\<lambda>q w. (q, snd w)) (\<lambda>_. demo_call_env) demo_destructive)"
    "tool_calls HPreToolUseLedger = hk_call (pre_tool_use_ledger_hook snd (\<lambda>db w. (fst w, db))
         (\<lambda>_. \<lparr>le_fault = None, le_calls = empty_call_state, le_env = demo_se_env\<rparr>) (has_ledger small_settings))"
    by (simp_all add: tool_calls_def)
  have "pinned_by_declaration (dget (hc_metadata demo_approved_call) K_TOOL_EFFECT)
      (dget (hc_metadata demo_approved_call) K_TOOL_CONFIRM)"
    "py_str (dget (hc_metadata demo_approved_call) ''approved_by'') = ''a1''"
    "metadata_str demo_approved_call ''caller'' = None"
    by (simp_all add: demo_approved_call_def demo_call_def demo_ctx_def pinned_by_declaration_def dict_simps py_str_def
        metadata_str_def text_of_def strip_def lstrip_def Let_def)
  then show ?thesis
    using high_risk_call_through_the_kernel [OF k wired f] by (metis fst_conv snd_conv)
qed

section \<open>Coding calls through the kernel\<close>

text \<open>The guards of the coding agent as the wiring registers them, over one policy document, and what is true of a call
  each of them passed.\<close>

definition coding_guards ::
  "'s hook_calls \<Rightarrow> persona_doc \<Rightarrow> fs_jail \<Rightarrow> ('s \<Rightarrow> fs_env) \<Rightarrow> network_egress \<Rightarrow> (string \<Rightarrow> bool)
    \<Rightarrow> ('s \<Rightarrow> string list option) \<Rightarrow> bool"
where
  "coding_guards calls doc j fs ne br corpus \<longleftrightarrow>
     calls HPersonaSurface = (\<lambda>ctx s. (Inr (PersonaSurface_call (Some doc) ctx), s))
     \<and> calls HCommandSandbox = (\<lambda>ctx s. (Inr (CommandSandbox_call (Some doc) DEFAULT_SHELL_TOOLS ctx), s))
     \<and> calls HFSJail = (\<lambda>ctx s. (FSJail_call (fs s) j ctx, s)) \<and> fj_policy j = Some doc
     \<and> calls HNetworkEgress = (\<lambda>ctx s. (Inr (NetworkEgress_call ne br (corpus s) ctx), s)) \<and> ne_policy ne = Some doc"

lemma wired_guard:
  assumes "calls h = (\<lambda>ctx s. (call s ctx, s))" and "class_point h = PRE_TOOL_USE" and "h \<noteq> HBotStatus"
  shows "hook_of calls bh h = guard_hook (hook_name h) (class_priority h) call"
  using assms by (simp add: hook_of_def guard_hook_def)

definition surface_passed :: "persona_doc \<Rightarrow> string \<Rightarrow> hook_context \<Rightarrow> bool" where
  "surface_passed doc persona c = (\<exists>tool. extract_tool_name (hc_payload c) = Some tool \<and> in_surface doc persona tool)"

definition command_passed :: "persona_doc \<Rightarrow> string \<Rightarrow> hook_context \<Rightarrow> bool" where
  "command_passed doc persona c = (shell_call DEFAULT_SHELL_TOOLS c \<longrightarrow>
     persona \<noteq> ''orchestrator'' \<and> (\<exists>pp argv. map_of doc persona = Some pp \<and> extract_argv (hc_payload c) = Some argv
       \<and> command_ok pp (truthy (dget (hc_payload c) ''shell'')) argv))"

definition write_passed :: "persona_doc \<Rightarrow> fs_jail \<Rightarrow> string \<Rightarrow> fs_env \<Rightarrow> hook_context \<Rightarrow> bool" where
  "write_passed doc j persona env c = (\<forall>tool. write_call j c tool \<longrightarrow>
     persona \<noteq> ''orchestrator'' \<and> (\<exists>pp ws ts. map_of doc persona = Some pp \<and> \<not> pp_fs_read_only pp \<and> ts \<noteq> []
       \<and> extract_targets env (hc_payload c) tool ws = Inr ts
       \<and> (\<forall>t \<in> set ts. in_jail env ws pp (rt_resolved_path t))))"

definition request_passed :: "persona_doc \<Rightarrow> network_egress \<Rightarrow> (string \<Rightarrow> bool) \<Rightarrow> string \<Rightarrow> hook_context \<Rightarrow> bool" where
  "request_passed doc ne br persona c = (network_call ne c \<longrightarrow>
     persona \<noteq> ''orchestrator'' \<and> (\<exists>pp url host clean. map_of doc persona = Some pp \<and> extract_url (hc_payload c) = Some url
       \<and> parse_url br url = Some (host, clean) \<and> host_ok ne pp host))"


definition coding_doc :: persona_doc where
  "coding_doc = [(''developer'', demo_persona)]"

definition coding_calls :: "unit hook_calls" where
  "coding_calls h = (case h of
       HPersonaSurface \<Rightarrow> (\<lambda>ctx s. (Inr (PersonaSurface_call (Some coding_doc) ctx), s))
     | HCommandSandbox \<Rightarrow> (\<lambda>ctx s. (Inr (CommandSandbox_call (Some coding_doc) DEFAULT_SHELL_TOOLS ctx), s))
     | HFSJail \<Rightarrow> (\<lambda>ctx s. (FSJail_call demo_fs demo_jail ctx, s))
     | HNetworkEgress \<Rightarrow> (\<lambda>ctx s. (Inr (NetworkEgress_call (demo_egress\<lparr>ne_policy := Some coding_doc\<rparr>) (\<lambda>_. True) None ctx), s))
     | _ \<Rightarrow> allows_all)"

lemma coding_calls_guards:
  "coding_guards coding_calls coding_doc demo_jail (\<lambda>_. demo_fs) (demo_egress\<lparr>ne_policy := Some coding_doc\<rparr>) (\<lambda>_. True) (\<lambda>_. None)"
  by (simp add: coding_guards_def coding_calls_def demo_jail_def coding_doc_def)

definition demo_write :: hook_context where
  "demo_write = demo_coding ''write_file'' [(''path'', PStr ''src/in/a.py'')]"

lemma demo_write_guards:
  "hd_outcome (PersonaSurface_call (Some coding_doc) demo_write) = Allow"
  "hd_outcome (CommandSandbox_call (Some coding_doc) DEFAULT_SHELL_TOOLS demo_write) = Allow"
  "hd_outcome (NetworkEgress_call (demo_egress\<lparr>ne_policy := Some coding_doc\<rparr>) (\<lambda>_. True) None demo_write) = Allow"
  by code_simp+

lemma small_coding_fire:
  "\<exists>d. fire (small_kernel coding_calls) demo_env PRE_TOOL_USE demo_write () = (Inr (d, demo_write), ())
     \<and> \<not> stops (hd_outcome d)"
proof -
  obtain dj where jail: "FSJail_call demo_fs demo_jail demo_write = Inr dj" "hd_outcome dj = Allow"
    using demo_jail_decides(1) by (cases "FSJail_call demo_fs demo_jail demo_write") (auto simp: demo_write_def)
  note rebinds = surface.context_kept [OF refl] sandbox.context_kept [OF refl]
    jail.context_kept [where env_of = "\<lambda>_. demo_fs" and s = "()", OF jail(1)]
    network.context_kept [where corpus_of = "\<lambda>_. None" and s = "()", OF refl]
  have hooks: "k_hooks (small_kernel coding_calls) PRE_TOOL_USE = map (hook_of coding_calls quiet_bot)
      [HCallerPolicy, HPersonaSurface, HMCPAllowlist, HToolPolicy, HCommandSandbox, HFSJail, HNetworkEgress,
       HDestructiveApproval, HCredentialBroker, HPreToolUseLedger]"
    unfolding small_kernel_built(4) by (simp add: small_settings_def opt_def)
  have bot: "drop_bot_id demo_write = demo_write"
    by (simp add: drop_bot_id_def demo_write_def demo_coding_def demo_ctx_def dict_simps)
  show ?thesis
    by (simp add: fire_def small_kernel_built(2,3) hooks coding_calls_def allows_all_def stops_def bot jail
        demo_write_guards rebinds)
qed



section \<open>Steps through the kernel\<close>

text \<open>A step that the default kernel lets go on was shown to the evaluator as it was fired, and is within the limits of
  the evaluator's default signals.\<close>

lemma default_step_is_evaluated:
  fixes calls :: "'v hook_calls"
  assumes "build_default_kernel calls bh sink ks src = Inr (k, src')"
      and "calls HEvaluator = EvaluatorHook_call (local_backend get_s put_s reg) queue"
      and "build_default_evaluator_registry es = Inr reg"
      and "fire k env POST_STEP ctx v = (Inr (d, ctx'), v')" and "\<not> stops (hd_outcome d)"
  shows "\<exists>c step. same_call ctx c \<and> build_step_record c = Inr step \<and> within_step_limits step"
proof -
  obtain tr w1 where tr: "passes k env POST_STEP (k_hooks k POST_STEP) (drop_bot_id ctx) v tr ctx' w1"
    using fire_goes_on [OF assms(4,5)] by blast
  have "k_hooks k POST_STEP = [hook_of calls bh HEvaluator]" unfolding built_hooks [OF assms(1)] by simp
  then obtain c where c: "c \<in> set tr" "co_hook c = hook_of calls bh HEvaluator"
    using passes_hooks [OF tr] by (cases tr) auto
  obtain v1 where call: "EvaluatorHook_call (local_backend get_s put_s reg) queue (co_ctx c) (co_state c)
      = (Inr (co_decision c), v1)" and go: "\<not> stops (hd_outcome (co_decision c))"
    using passes_decisions [OF tr c(1)] by (auto simp: c(2) hook_of_def assms(2) split: prod.splits) (metis prod.collapse)
  have "same_call ctx (co_ctx c)"
    using passes_same_call [OF tr] c(1) drop_bot_id_same_call same_call_trans by blast
  then show ?thesis using hook_allows [OF assms(3) refl call go] by metis
qed

end
